(* ===== verification/Prelude.thy ===== *)
theory Prelude
  imports Complex_Main
begin

text \<open>
  Shared vocabulary of the development: the Python exceptions the harness raises, results
  that may be an exception, the state-and-exception monad in which the stateful parts are
  written, and the generic list lemmas the components share.
\<close>

section \<open>Collections of hints\<close>

named_theorems py_text \<open>definitions and laws of the Python string operations\<close>
named_theorems py_num \<open>definitions and laws of Python numbers\<close>
named_theorems effect_simps \<open>evaluation of the state-and-exception combinators\<close>

section \<open>Exceptions\<close>

text \<open>One constructor per exception class the modelled code raises, with the message text
  where the code builds one.\<close>

datatype pyerr =
    ValueError string
  | TypeError string
  | AttributeError string
  | IndexError
  | KeyError string
  | ZeroDivisionError
  | FileNotFoundError string
  | RuntimeError string
  | TimeoutError string
  | TimeoutExpired
  | CalledProcessError
  | SystemExit string

type_synonym 'a res = "pyerr + 'a"

definition bind_res :: "'a res \<Rightarrow> ('a \<Rightarrow> 'b res) \<Rightarrow> 'b res" where
  "bind_res r f = (case r of Inl e \<Rightarrow> Inl e | Inr x \<Rightarrow> f x)"

lemma bind_res_simps [simp]:
  "bind_res (Inl e) f = Inl e"
  "bind_res (Inr x) f = f x"
  by (simp_all add: bind_res_def)

lemma bind_res_Inr_iff: "bind_res r f = Inr y \<longleftrightarrow> (\<exists>x. r = Inr x \<and> f x = Inr y)"
  by (cases r) auto

fun map_res :: "('a \<Rightarrow> 'b res) \<Rightarrow> 'a list \<Rightarrow> 'b list res" where
  "map_res f [] = Inr []"
| "map_res f (x # xs) = bind_res (f x) (\<lambda>y. bind_res (map_res f xs) (\<lambda>ys. Inr (y # ys)))"

lemma map_res_Inr: "map_res f xs = Inr ys \<longleftrightarrow> list_all2 (\<lambda>x y. f x = Inr y) xs ys"
proof (induction xs arbitrary: ys)
  case Nil
  then show ?case by auto
next
  case (Cons x xs)
  then show ?case by (cases ys) (auto simp: bind_res_Inr_iff)
qed

lemma map_res_total: "(\<And>x. x \<in> set xs \<Longrightarrow> f x = Inr (g x)) \<Longrightarrow> map_res f xs = Inr (map g xs)"
  by (induction xs) auto

section \<open>State and exceptions\<close>

text \<open>A stateful operation takes the state and returns its outcome, a value or an exception,
  with the state it leaves. An exception keeps the effects done before it, as in Python.\<close>

type_synonym ('s, 'a) eff = "'s \<Rightarrow> 'a res \<times> 's"

definition ret :: "'a \<Rightarrow> ('s, 'a) eff" where
  "ret x s = (Inr x, s)"

definition raise :: "pyerr \<Rightarrow> ('s, 'a) eff" where
  "raise e s = (Inl e, s)"

definition andthen :: "('s, 'a) eff \<Rightarrow> ('a \<Rightarrow> ('s, 'b) eff) \<Rightarrow> ('s, 'b) eff" where
  "andthen m f s = (case m s of (Inl e, s') \<Rightarrow> (Inl e, s') | (Inr x, s') \<Rightarrow> f x s')"

definition modify :: "('s \<Rightarrow> 's) \<Rightarrow> ('s, unit) eff" where
  "modify f s = (Inr (), f s)"

definition from_res :: "'a res \<Rightarrow> ('s, 'a) eff" where
  "from_res r s = (r, s)"

text \<open>\<open>try: m finally: c\<close> runs \<open>c\<close> on either outcome of \<open>m\<close>; an exception of \<open>c\<close> replaces
  the outcome of \<open>m\<close>, as in Python.\<close>

definition try_finally :: "('s, 'a) eff \<Rightarrow> ('s, unit) eff \<Rightarrow> ('s, 'a) eff" where
  "try_finally m c s =
     (case m s of (r, s') \<Rightarrow> (case c s' of (Inl e, s'') \<Rightarrow> (Inl e, s'') | (Inr _, s'') \<Rightarrow> (r, s'')))"

lemma ret_simp [simp, effect_simps]: "ret x s = (Inr x, s)"
  by (simp add: ret_def)

lemma raise_simp [simp, effect_simps]: "raise e s = (Inl e, s)"
  by (simp add: raise_def)

lemma modify_simp [simp, effect_simps]: "modify f s = (Inr (), f s)"
  by (simp add: modify_def)

lemma from_res_simp [simp, effect_simps]: "from_res r s = (r, s)"
  by (simp add: from_res_def)

lemma andthen_Inl [effect_simps]: "m s = (Inl e, s') \<Longrightarrow> andthen m f s = (Inl e, s')"
  by (simp add: andthen_def)

lemma andthen_Inr [effect_simps]: "m s = (Inr x, s') \<Longrightarrow> andthen m f s = f x s'"
  by (simp add: andthen_def)

text \<open>An assertion about every outcome: \<open>always m P Q\<close> says that from a state in \<open>P\<close> the
  operation ends, normally or by an exception, in a state and outcome that satisfy \<open>Q\<close>.\<close>

definition always :: "('s, 'a) eff \<Rightarrow> ('s \<Rightarrow> bool) \<Rightarrow> ('a res \<Rightarrow> 's \<Rightarrow> bool) \<Rightarrow> bool" where
  "always m P Q \<longleftrightarrow> (\<forall>s. P s \<longrightarrow> Q (fst (m s)) (snd (m s)))"

lemma alwaysI: "(\<And>s r s'. P s \<Longrightarrow> m s = (r, s') \<Longrightarrow> Q r s') \<Longrightarrow> always m P Q"
  by (auto simp: always_def)

lemma alwaysD: "always m P Q \<Longrightarrow> P s \<Longrightarrow> m s = (r, s') \<Longrightarrow> Q r s'"
  by (auto simp: always_def)

lemma always_andthen:
  assumes "always m P (\<lambda>r s. case r of Inl e \<Rightarrow> Q (Inl e) s | Inr x \<Rightarrow> R x s)"
    and "\<And>x. always (f x) (R x) Q"
  shows "always (andthen m f) P Q"
  using assms by (fastforce simp: always_def andthen_def split: prod.splits sum.splits)

lemma always_try_finally:
  assumes "always m P R"
    and "\<And>r. always c (R r) (\<lambda>q s. case q of Inl e \<Rightarrow> Q (Inl e) s | Inr _ \<Rightarrow> Q r s)"
  shows "always (try_finally m c) P Q"
  using assms by (fastforce simp: always_def try_finally_def split: prod.splits sum.splits)

text \<open>A loop that collects its results, and one that drops them; an exception ends it.\<close>

fun map_eff :: "('a \<Rightarrow> ('s, 'b) eff) \<Rightarrow> 'a list \<Rightarrow> ('s, 'b list) eff" where
  "map_eff f [] = ret []"
| "map_eff f (x # xs) = andthen (f x) (\<lambda>y. andthen (map_eff f xs) (\<lambda>ys. ret (y # ys)))"

definition for_each :: "('a \<Rightarrow> ('s, unit) eff) \<Rightarrow> 'a list \<Rightarrow> ('s, unit) eff" where
  "for_each f xs = andthen (map_eff f xs) (\<lambda>_. ret ())"

lemma map_eff_Inr:
  "map_eff f (x # xs) s = (Inr ys, s') \<longleftrightarrow>
     (\<exists>y s1 ys'. f x s = (Inr y, s1) \<and> map_eff f xs s1 = (Inr ys', s') \<and> ys = y # ys')"
  by (auto simp: andthen_def split: prod.splits sum.splits)

lemma andthen_Inr_iff: "andthen m f s = (Inr y, s') \<longleftrightarrow> (\<exists>x s1. m s = (Inr x, s1) \<and> f x s1 = (Inr y, s'))"
  by (auto simp: andthen_def split: prod.splits sum.splits)

lemma length_map_eff: "map_eff f xs s = (Inr ys, s') \<Longrightarrow> length ys = length xs"
  by (induction xs arbitrary: s ys) (auto simp: map_eff_Inr simp del: map_eff.simps(2))

lemma map_eff_list_all2:
  assumes "map_eff f xs s = (Inr ys, s')" and "\<And>x s y s'. f x s = (Inr y, s') \<Longrightarrow> Q x y"
  shows "list_all2 Q xs ys"
  using assms(1)
proof (induction xs arbitrary: s ys)
  case (Cons x xs)
  then show ?case using assms(2) by (auto simp: map_eff_Inr simp del: map_eff.simps(2))
qed simp

lemma map_eff_app: "map_eff f (xs @ ys) s = andthen (map_eff f xs) (\<lambda>us. andthen (map_eff f ys) (\<lambda>vs. ret (us @ vs))) s"
proof (induction xs arbitrary: s)
  case Nil
  show ?case by (cases "map_eff f ys s") (simp add: andthen_def split: sum.splits)
next
  case (Cons x xs)
  show ?case by (simp add: andthen_def Cons.IH split: prod.splits sum.splits)
qed

text \<open>Total correctness: from a state in \<open>P\<close> the operation returns, and its value and state satisfy \<open>Q\<close>.\<close>

definition gives :: "('s \<Rightarrow> bool) \<Rightarrow> ('s, 'a) eff \<Rightarrow> ('a \<Rightarrow> 's \<Rightarrow> bool) \<Rightarrow> bool" where
  "gives P m Q \<longleftrightarrow> (\<forall>s. P s \<longrightarrow> (\<exists>x s'. m s = (Inr x, s') \<and> Q x s'))"

lemma givesI: "(\<And>s. P s \<Longrightarrow> \<exists>x s'. m s = (Inr x, s') \<and> Q x s') \<Longrightarrow> gives P m Q"
  by (simp add: gives_def)

lemma givesD: "gives P m Q \<Longrightarrow> P s \<Longrightarrow> \<exists>x s'. m s = (Inr x, s') \<and> Q x s'"
  by (simp add: gives_def)

lemma gives_weaken: "gives P m Q \<Longrightarrow> (\<And>x s. Q x s \<Longrightarrow> Q' x s) \<Longrightarrow> gives P m Q'"
  unfolding gives_def by blast

lemma gives_andthen: "gives P m R \<Longrightarrow> (\<And>x. gives (R x) (f x) Q) \<Longrightarrow> gives P (andthen m f) Q"
  unfolding gives_def by (metis andthen_Inr)

lemma gives_ret: "(\<And>s. P s \<Longrightarrow> Q x s) \<Longrightarrow> gives P (ret x) Q"
  by (simp add: gives_def)

lemma gives_from_res: "r = Inr x \<Longrightarrow> (\<And>s. P s \<Longrightarrow> Q x s) \<Longrightarrow> gives P (from_res r) Q"
  by (simp add: gives_def)

lemma gives_modify: "(\<And>s. P s \<Longrightarrow> Q () (f s)) \<Longrightarrow> gives P (modify f) Q"
  by (simp add: gives_def)

lemma gives_try_finally:
  assumes "gives P m R" and "\<And>x. gives (R x) c (\<lambda>_. Q x)"
  shows "gives P (try_finally m c) Q"
proof (rule givesI)
  fix s assume "P s"
  then obtain x s1 where 1: "m s = (Inr x, s1)" "R x s1" using givesD [OF assms(1)] by blast
  then obtain u s2 where 2: "c s1 = (Inr u, s2)" "Q x s2" using givesD [OF assms(2)] by blast
  then show "\<exists>x s'. try_finally m c s = (Inr x, s') \<and> Q x s'" using 1 by (simp add: try_finally_def)
qed

lemma gives_map_eff: "(\<And>x. x \<in> set xs \<Longrightarrow> gives P (f x) (\<lambda>_. P)) \<Longrightarrow> gives P (map_eff f xs) (\<lambda>_. P)"
proof (induction xs)
  case (Cons x xs)
  show ?case unfolding map_eff.simps
    by (intro gives_andthen [of P _ "\<lambda>_. P"]) (use Cons in \<open>simp_all add: gives_def\<close>)
qed (simp add: gives_def)

section \<open>Generic list lemmas\<close>

lemma not_mem_if: "\<forall>c \<in> set u. P c \<Longrightarrow> \<not> P x \<Longrightarrow> x \<notin> set u"
  by blast

lemma prefix_before:
  assumes "m @ c # t = q @ r" and "c \<notin> set q"
  shows "\<exists>n. m = q @ n"
  using assms
proof (induction q arbitrary: m)
  case Nil
  then show ?case by simp
next
  case (Cons x q)
  then show ?case by (cases m) auto
qed

lemma fold_update_nth:
  assumes "distinct is" and "\<forall>i \<in> set is. i < length xs" and "j < length xs"
  shows "fold (\<lambda>i acc. acc[i := f i]) is xs ! j = (if j \<in> set is then f j else xs ! j)"
  using assms
proof (induction "is" arbitrary: xs)
  case Nil
  then show ?case by simp
next
  case (Cons i "is")
  then show ?case by (auto simp: nth_list_update)
qed

lemma length_fold_update [simp]:
  "length (fold (\<lambda>i acc. acc[i := f i]) is xs) = length xs"
  by (induction "is" arbitrary: xs) auto

lemma sum_list_le_mult:
  fixes xs :: "real list"
  assumes "\<forall>x \<in> set xs. x \<le> b"
  shows "sum_list xs \<le> real (length xs) * b"
  using assms by (induction xs) (auto simp: algebra_simps)

lemma sum_list_ge_mult:
  fixes xs :: "real list"
  assumes "\<forall>x \<in> set xs. b \<le> x"
  shows "real (length xs) * b \<le> sum_list xs"
  using assms by (induction xs) (auto simp: algebra_simps)

end
