(* ===== verification/PyText.thy ===== *)
theory PyText
  imports Prelude
begin

text \<open>
  The operations on Python \<open>str\<close> the harness uses, and the text of integers. A \<open>str\<close> is a
  list of \<open>char\<close>: Isabelle's 256 characters stand for the code points U+0000 to U+00FF, so
  the micro sign of a Rust \<open>Duration\<close> is the one character 0xB5 and lengths and slices
  count code points as Python does. Text with larger code points is not represented.
\<close>

section \<open>Character classes\<close>

text \<open>\<open>str.isspace\<close> (also \<open>\s\<close> of a \<open>str\<close> pattern) and \<open>\d\<close> on these code points.\<close>

definition is_space :: "char \<Rightarrow> bool" where
  "is_space c \<longleftrightarrow> c \<in> {CHR 0x09, CHR 0x0A, CHR 0x0B, CHR 0x0C, CHR 0x0D,
     CHR 0x1C, CHR 0x1D, CHR 0x1E, CHR 0x1F, CHR 0x20, CHR 0x85, CHR 0xA0}"

definition is_digit :: "char \<Rightarrow> bool" where
  "is_digit c \<longleftrightarrow> 48 \<le> (of_char c :: nat) \<and> (of_char c :: nat) \<le> 57"

definition digit_val :: "char \<Rightarrow> nat" where
  "digit_val c = of_char c - 48"

definition digit_char :: "nat \<Rightarrow> char" where
  "digit_char d = char_of (48 + d)"

lemma is_digit_digit_char [simp]: "d < 10 \<Longrightarrow> is_digit (digit_char d)"
  by (simp add: is_digit_def digit_char_def of_char_of)

lemma digit_char_simps [simp]:
  "digit_char 0 = CHR ''0''" "digit_char 1 = CHR ''1''" "digit_char 2 = CHR ''2''" "digit_char 3 = CHR ''3''" "digit_char 4 = CHR ''4''"
  "digit_char 5 = CHR ''5''" "digit_char 6 = CHR ''6''" "digit_char 7 = CHR ''7''" "digit_char 8 = CHR ''8''" "digit_char 9 = CHR ''9''" "digit_char (Suc 0) = CHR ''1''"
  by code_simp+

lemma digit_val_digit_char [simp]: "d < 10 \<Longrightarrow> digit_val (digit_char d) = d"
  by (simp add: digit_val_def digit_char_def of_char_of)

lemma digit_val_less: "is_digit c \<Longrightarrow> digit_val c < 10"
  by (auto simp: is_digit_def digit_val_def)

lemma digit_char_digit_val [simp]: "is_digit c \<Longrightarrow> digit_char (digit_val c) = c"
  by (simp add: is_digit_def digit_val_def digit_char_def)

lemma is_digit_simps [simp]:
  "is_digit (CHR ''0'')" "is_digit (CHR ''1'')" "is_digit (CHR ''2'')" "is_digit (CHR ''3'')"
  "is_digit (CHR ''4'')" "is_digit (CHR ''5'')" "is_digit (CHR ''6'')" "is_digit (CHR ''7'')"
  "is_digit (CHR ''8'')" "is_digit (CHR ''9'')"
  "\<not> is_digit (CHR '' '')" "\<not> is_digit (CHR '','')" "\<not> is_digit (CHR ''.'')"
  "\<not> is_digit (CHR ''-'')" "\<not> is_digit (CHR ''+'')" "\<not> is_digit (CHR ''_'')"
  "\<not> is_digit (CHR ''n'')" "\<not> is_digit (CHR ''u'')" "\<not> is_digit (CHR ''m'')"
  "\<not> is_digit (CHR ''s'')" "\<not> is_digit (CHR 0xB5)" "\<not> is_digit (CHR '':'')"
  by (simp_all add: is_digit_def)

lemma digit_not_space: "is_digit c \<Longrightarrow> \<not> is_space c"
  by (auto simp: is_digit_def is_space_def)

lemma is_space_simps [simp]:
  "is_space (CHR '' '')" "is_space (CHR 0x0A)" "is_space (CHR 0x0D)" "is_space (CHR 0x09)"
  "\<not> is_space (CHR '','')" "\<not> is_space (CHR '':'')" "\<not> is_space (CHR ''.'')"
  "\<not> is_space (CHR ''-'')" "\<not> is_space (CHR ''>'')" "\<not> is_space (CHR ''_'')"
  "\<not> is_space (CHR ''C'')" "\<not> is_space (CHR ''S'')" "\<not> is_space (CHR ''M'')"
  "\<not> is_space (CHR ''D'')" "\<not> is_space (CHR ''R'')" "\<not> is_space (CHR ''n'')"
  "\<not> is_space (CHR ''u'')" "\<not> is_space (CHR ''m'')" "\<not> is_space (CHR ''s'')"
  "\<not> is_space (CHR ''b'')" "\<not> is_space (CHR 0xB5)"
  by (simp_all add: is_space_def)

lemma digit_neq [simp]:
  "is_digit c \<Longrightarrow> c \<noteq> CHR '',''" "is_digit c \<Longrightarrow> c \<noteq> CHR ''.''"
  "is_digit c \<Longrightarrow> c \<noteq> CHR '':''" "is_digit c \<Longrightarrow> c \<noteq> CHR 0x22"
  "is_digit c \<Longrightarrow> c \<noteq> CHR ''-''" "is_digit c \<Longrightarrow> c \<noteq> CHR ''+''" "is_digit c \<Longrightarrow> c \<noteq> CHR ''_''"
  "is_digit c \<Longrightarrow> c \<noteq> CHR 0x0A" "is_digit c \<Longrightarrow> c \<noteq> CHR 0x0D"
  by (auto simp: is_digit_def)

section \<open>Stripping, splitting, searching\<close>

definition lstrip :: "string \<Rightarrow> string" where
  "lstrip s = dropWhile is_space s"

definition rstrip :: "string \<Rightarrow> string" where
  "rstrip s = rev (dropWhile is_space (rev s))"

definition strip :: "string \<Rightarrow> string" where
  "strip s = rstrip (lstrip s)"

text \<open>\<open>s.strip(chars)\<close> and \<open>s.rstrip(chars)\<close>.\<close>

definition rstrip_chars :: "char list \<Rightarrow> string \<Rightarrow> string" where
  "rstrip_chars cs s = rev (dropWhile (\<lambda>c. c \<in> set cs) (rev s))"

definition strip_chars :: "char list \<Rightarrow> string \<Rightarrow> string" where
  "strip_chars cs s = rstrip_chars cs (dropWhile (\<lambda>c. c \<in> set cs) s)"

lemma strip_no_space [simp]:
  assumes "\<forall>c \<in> set s. \<not> is_space c"
  shows "strip s = s"
proof -
  have "dropWhile is_space t = t" if "\<forall>c \<in> set t. \<not> is_space c" for t
    using that by (cases t) auto
  from this [of s] this [of "rev s"] show ?thesis
    using assms by (simp add: strip_def lstrip_def rstrip_def)
qed

text \<open>\<open>s.startswith(p)\<close>, \<open>p in s\<close>, and the suffix slice \<open>s[-n:]\<close> for \<open>n > 0\<close>.\<close>

fun starts_with :: "string \<Rightarrow> string \<Rightarrow> bool" where
  "starts_with [] s = True"
| "starts_with (p # ps) [] = False"
| "starts_with (p # ps) (c # s) = (p = c \<and> starts_with ps s)"

fun is_infix :: "string \<Rightarrow> string \<Rightarrow> bool" where
  "is_infix p [] = (p = [])"
| "is_infix p (c # s) = (starts_with p (c # s) \<or> is_infix p s)"

definition last_n :: "nat \<Rightarrow> 'a list \<Rightarrow> 'a list" where
  "last_n n s = drop (length s - n) s"

lemma length_last_n: "length (last_n n s) = min n (length s)"
  by (simp add: last_n_def)

lemma starts_with_iff: "starts_with p s \<longleftrightarrow> (\<exists>t. s = p @ t)"
  by (induction p s rule: starts_with.induct) auto

lemma is_infix_iff: "is_infix p s \<longleftrightarrow> (\<exists>u v. s = u @ p @ v)"
proof (induction s)
  case Nil
  then show ?case by auto
next
  case (Cons c s)
  show ?case
  proof
    assume "is_infix p (c # s)"
    then consider "starts_with p (c # s)" | "is_infix p s" by auto
    then show "\<exists>u v. c # s = u @ p @ v"
    proof cases
      case 1
      then obtain t where "c # s = p @ t" by (auto simp: starts_with_iff)
      then show ?thesis by (metis append_Nil)
    next
      case 2
      then obtain u v where "s = u @ p @ v" using Cons.IH by blast
      then have "c # s = (c # u) @ p @ v" by simp
      then show ?thesis by blast
    qed
  next
    assume "\<exists>u v. c # s = u @ p @ v"
    then obtain u v where eq: "c # s = u @ p @ v" by metis
    show "is_infix p (c # s)"
    proof (cases u)
      case Nil
      with eq have "starts_with p (c # s)" by (auto simp: starts_with_iff)
      then show ?thesis by simp
    next
      case (Cons d u')
      with eq have "s = u' @ p @ v" by simp
      then show ?thesis using Cons.IH by auto
    qed
  qed
qed

text \<open>\<open>s.replace(c, r)\<close> for a one-character \<open>c\<close>.\<close>

definition replace_char :: "char \<Rightarrow> string \<Rightarrow> string \<Rightarrow> string" where
  "replace_char c r s = concat (map (\<lambda>d. if d = c then r else [d]) s)"

text \<open>\<open>s.partition(c)\<close> and \<open>s.rpartition(c)\<close> for a one-character separator: the parts
  before and after, and whether the separator was found.\<close>

definition partition_at :: "char \<Rightarrow> string \<Rightarrow> string \<times> bool \<times> string" where
  "partition_at c s = (case dropWhile (\<lambda>d. d \<noteq> c) s of
       [] \<Rightarrow> (s, False, [])
     | _ # t \<Rightarrow> (takeWhile (\<lambda>d. d \<noteq> c) s, True, t))"

definition rpartition_at :: "char \<Rightarrow> string \<Rightarrow> string \<times> bool \<times> string" where
  "rpartition_at c s = (case dropWhile (\<lambda>d. d \<noteq> c) (rev s) of
       [] \<Rightarrow> ([], False, s)
     | _ # t \<Rightarrow> (rev t, True, rev (takeWhile (\<lambda>d. d \<noteq> c) (rev s))))"

text \<open>\<open>s.split(c, 1)[0]\<close>.\<close>

definition before_first :: "char \<Rightarrow> string \<Rightarrow> string" where
  "before_first c s = takeWhile (\<lambda>d. d \<noteq> c) s"

lemma takeWhile_until [simp]: "c \<notin> set s \<Longrightarrow> takeWhile (\<lambda>d. d \<noteq> c) (s @ c # t) = s"
  by (induction s) auto

lemma dropWhile_until [simp]: "c \<notin> set s \<Longrightarrow> dropWhile (\<lambda>d. d \<noteq> c) (s @ c # t) = c # t"
  by (induction s) auto

lemma before_first_append [simp]: "c \<notin> set s \<Longrightarrow> before_first c (s @ c # t) = s"
  by (simp add: before_first_def)

lemma partition_at_found [simp]: "c \<notin> set s \<Longrightarrow> partition_at c (s @ c # t) = (s, True, t)"
  by (simp add: partition_at_def)

lemma rpartition_at_found [simp]: "c \<notin> set t \<Longrightarrow> rpartition_at c (s @ c # t) = (s, True, t)"
  by (simp add: rpartition_at_def)

lemma rpartition_at_absent [simp]: "c \<notin> set s \<Longrightarrow> rpartition_at c s = ([], False, s)"
proof -
  assume "c \<notin> set s"
  then have "dropWhile (\<lambda>d. d \<noteq> c) (rev s) = []" by (simp add: dropWhile_eq_Nil_conv) blast
  then show ?thesis by (simp add: rpartition_at_def del: dropWhile_eq_Nil_conv)
qed

text \<open>\<open>s.split()\<close>: the maximal runs of non-space characters.\<close>

function split_ws :: "string \<Rightarrow> string list" where
  "split_ws s = (case dropWhile is_space s of
       [] \<Rightarrow> []
     | c # t \<Rightarrow> (c # takeWhile (\<lambda>d. \<not> is_space d) t) # split_ws (dropWhile (\<lambda>d. \<not> is_space d) t))"
  by pat_completeness auto
termination
proof (relation "measure length")
  show "wf (measure length)" by simp
next
  fix s :: string and c t
  assume "dropWhile is_space s = c # t"
  then have "length (c # t) \<le> length s"
    by (metis length_dropWhile_le)
  moreover have "length (dropWhile (\<lambda>d. \<not> is_space d) t) \<le> length t"
    by (rule length_dropWhile_le)
  ultimately show "(dropWhile (\<lambda>d. \<not> is_space d) t, s) \<in> measure length" by simp
qed

declare split_ws.simps [simp del]

lemma split_ws_Nil [simp]: "split_ws [] = []"
  by (simp add: split_ws.simps)

lemma split_ws_space [simp]: "is_space c \<Longrightarrow> split_ws (c # s) = split_ws s"
  by (simp add: split_ws.simps [of "c # s"] split_ws.simps [of s])

lemma split_ws_word:
  assumes "w \<noteq> []" and "\<forall>c \<in> set w. \<not> is_space c" and "t = [] \<or> is_space (hd t)"
  shows "split_ws (w @ t) = w # split_ws t"
proof -
  obtain c w' where w: "w = c # w'" using assms(1) by (cases w) auto
  have a: "takeWhile (\<lambda>d. \<not> is_space d) (w' @ t) = w'"
    using assms w by (cases t) (auto simp: takeWhile_append)
  have b: "dropWhile (\<lambda>d. \<not> is_space d) (w' @ t) = t"
    using assms w by (cases t) (auto simp: dropWhile_append)
  have "\<not> is_space c" using w assms(2) by simp
  then show ?thesis using a b w by (simp add: split_ws.simps [of "c # w' @ t"])
qed

text \<open>\<open>sep.join(parts)\<close>.\<close>

fun join_str :: "string \<Rightarrow> string list \<Rightarrow> string" where
  "join_str sep [] = []"
| "join_str sep [w] = w"
| "join_str sep (w # ws) = w @ sep @ join_str sep ws"

lemma split_ws_join:
  assumes "\<forall>w \<in> set ws. w \<noteq> [] \<and> (\<forall>c \<in> set w. \<not> is_space c)"
  shows "split_ws (join_str '' '' ws) = ws"
  using assms
proof (induction ws)
  case Nil
  then show ?case by simp
next
  case (Cons w ws)
  show ?case
  proof (cases ws)
    case Nil
    with Cons.prems split_ws_word [of w "[]"] show ?thesis by simp
  next
    case (Cons v vs)
    have "split_ws (w @ '' '' @ join_str '' '' ws) = w # split_ws ('' '' @ join_str '' '' ws)"
      using Cons.prems by (intro split_ws_word) auto
    then show ?thesis using Cons Cons.IH Cons.prems by simp
  qed
qed

text \<open>\<open>s.splitlines()\<close>: the line boundaries of \<open>str\<close>, a carriage return followed by a
  line feed counting once, and no empty last line.\<close>

definition is_linebreak :: "char \<Rightarrow> bool" where
  "is_linebreak c \<longleftrightarrow> c \<in> {CHR 0x0A, CHR 0x0B, CHR 0x0C, CHR 0x0D, CHR 0x1C, CHR 0x1D, CHR 0x1E, CHR 0x85}"

fun splitlines_acc :: "string \<Rightarrow> string \<Rightarrow> string list" where
  "splitlines_acc acc [] = (if acc = [] then [] else [rev acc])"
| "splitlines_acc acc (c # s) =
     (if c = CHR 0x0D then (case s of
          d # t \<Rightarrow> if d = CHR 0x0A then rev acc # splitlines_acc [] t else rev acc # splitlines_acc [] s
        | [] \<Rightarrow> [rev acc])
      else if is_linebreak c then rev acc # splitlines_acc [] s
      else splitlines_acc (c # acc) s)"

definition splitlines :: "string \<Rightarrow> string list" where
  "splitlines s = splitlines_acc [] s"

definition line_text :: "string \<Rightarrow> bool" where
  "line_text s \<longleftrightarrow> (\<forall>c \<in> set s. \<not> is_linebreak c)"

lemma is_linebreak_simps [simp]:
  "is_linebreak (CHR 0x0A)" "is_linebreak (CHR 0x0D)" "\<not> is_linebreak (CHR '' '')"
  by (simp_all add: is_linebreak_def)

lemma splitlines_acc_line:
  "line_text l \<Longrightarrow> splitlines_acc acc (l @ CHR 0x0A # s) = (rev acc @ l) # splitlines_acc [] s"
proof (induction l arbitrary: acc)
  case Nil
  then show ?case by simp
next
  case (Cons c l)
  then have "c \<noteq> CHR 0x0D" and "\<not> is_linebreak c" and "line_text l"
    by (auto simp: line_text_def is_linebreak_def)
  with Cons.IH show ?case by simp
qed

lemma splitlines_line:
  "line_text l \<Longrightarrow> splitlines (l @ CHR 0x0A # s) = l # splitlines s"
  by (simp add: splitlines_def splitlines_acc_line)

lemma line_text_simps [simp]:
  "line_text []" "line_text (c # s) \<longleftrightarrow> \<not> is_linebreak c \<and> line_text s"
  "line_text (s @ t) \<longleftrightarrow> line_text s \<and> line_text t"
  by (auto simp: line_text_def)

text \<open>A text of newline-terminated lines splits into exactly these lines.\<close>

definition unlines :: "string list \<Rightarrow> string" where
  "unlines ls = concat (map (\<lambda>l. l @ [CHR 0x0A]) ls)"

lemma splitlines_unlines:
  "\<forall>l \<in> set ls. line_text l \<Longrightarrow> splitlines (unlines ls @ s) = ls @ splitlines s"
  by (induction ls) (simp_all add: unlines_def splitlines_line)

lemma splitlines_Nil [simp]: "splitlines [] = []"
  by (simp add: splitlines_def)

text \<open>\<open>s.lower()\<close> on these code points.\<close>

definition lower_char :: "char \<Rightarrow> char" where
  "lower_char c = (let n = (of_char c :: nat) in
     if (65 \<le> n \<and> n \<le> 90) \<or> (192 \<le> n \<and> n \<le> 222 \<and> n \<noteq> 215) then char_of (n + 32) else c)"

definition lower :: "string \<Rightarrow> string" where
  "lower s = map lower_char s"

section \<open>Integers as text\<close>

fun digits_val :: "nat \<Rightarrow> string \<Rightarrow> nat" where
  "digits_val acc [] = acc"
| "digits_val acc (c # cs) = digits_val (10 * acc + digit_val c) cs"

text \<open>\<open>str(n)\<close> for a natural number.\<close>

fun show_nat :: "nat \<Rightarrow> string" where
  "show_nat n = (if n < 10 then [digit_char n] else show_nat (n div 10) @ [digit_char (n mod 10)])"

declare show_nat.simps [simp del]

definition show_int :: "int \<Rightarrow> string" where
  "show_int i = (if i < 0 then CHR ''-'' # show_nat (nat (- i)) else show_nat (nat i))"

lemma digits_val_append: "digits_val acc (xs @ ys) = digits_val (digits_val acc xs) ys"
  by (induction xs arbitrary: acc) auto

lemma digits_show_nat: "\<forall>c \<in> set (show_nat n). is_digit c"
proof (induction n rule: show_nat.induct)
  case (1 n)
  then show ?case by (subst show_nat.simps) auto
qed

lemma show_nat_nonempty [simp]: "show_nat n \<noteq> []"
  by (subst show_nat.simps) simp

lemma digits_val_show_nat [simp]: "digits_val 0 (show_nat n) = n"
proof (induction n rule: show_nat.induct)
  case (1 n)
  then show ?case by (subst show_nat.simps) (auto simp: digits_val_append)
qed

lemma show_nat_inject: "show_nat m = show_nat n \<Longrightarrow> m = n"
  by (metis digits_val_show_nat)

text \<open>\<open>int(s)\<close>: surrounding white space, a sign, digits with single underscores between
  them; \<open>None\<close> where it raises \<open>ValueError\<close>.\<close>

fun drop_underscores :: "string \<Rightarrow> string option" where
  "drop_underscores [] = None"
| "drop_underscores [c] = (if is_digit c then Some [c] else None)"
| "drop_underscores (c # d # s) =
     (if is_digit c
      then map_option ((#) c) (drop_underscores (if d = CHR ''_'' then s else d # s))
      else None)"

definition parse_sign :: "string \<Rightarrow> int \<times> string" where
  "parse_sign s = (case s of
       c # t \<Rightarrow> if c = CHR ''-'' then (- 1, t) else if c = CHR ''+'' then (1, t) else (1, s)
     | [] \<Rightarrow> (1, []))"

definition py_int :: "string \<Rightarrow> int option" where
  "py_int s = (case parse_sign (strip s) of (sg, t) \<Rightarrow>
     map_option (\<lambda>ds. sg * int (digits_val 0 ds)) (drop_underscores t))"

lemma drop_underscores_digits:
  "s \<noteq> [] \<Longrightarrow> \<forall>c \<in> set s. is_digit c \<Longrightarrow> drop_underscores s = Some s"
  by (induction s rule: drop_underscores.induct) auto

lemma py_int_digits:
  assumes "s \<noteq> []" and "\<forall>c \<in> set s. is_digit c"
  shows "py_int s = Some (int (digits_val 0 s))"
proof -
  obtain c t where s: "s = c # t" using assms(1) by (cases s) auto
  have "strip s = s" using assms(2) digit_not_space by simp
  moreover have "parse_sign s = (1, s)" using s assms(2) by (simp add: parse_sign_def)
  ultimately show ?thesis by (simp add: py_int_def drop_underscores_digits assms)
qed

lemma py_int_show_nat [simp]: "py_int (show_nat n) = Some (int n)"
  by (simp add: py_int_digits digits_show_nat)

lemma py_int_show_int [simp]: "py_int (show_int i) = Some i"
proof (cases "i < 0")
  case False
  then show ?thesis by (simp add: show_int_def)
next
  case True
  have "strip (CHR ''-'' # show_nat n) = CHR ''-'' # show_nat n" for n
    using digits_show_nat digit_not_space by simp
  then show ?thesis using True
    by (simp add: show_int_def py_int_def parse_sign_def drop_underscores_digits digits_show_nat)
qed

text \<open>\<open>f"{n:03d}"\<close> for a natural number: padded with zeros to three characters.\<close>

definition zero_pad :: "nat \<Rightarrow> string \<Rightarrow> string" where
  "zero_pad w s = replicate (w - length s) (CHR ''0'') @ s"

lemma digits_val_zeros [simp]: "digits_val 0 (replicate k (CHR ''0'') @ s) = digits_val 0 s"
  by (induction k) (auto simp: digit_val_def)

lemma zero_pad_inject: "zero_pad w (show_nat m) = zero_pad w (show_nat n) \<Longrightarrow> m = n"
  by (metis digits_val_show_nat digits_val_zeros zero_pad_def)

lemmas text_defs = strip_def lstrip_def rstrip_def starts_with.simps is_infix.simps
  before_first_def partition_at_def rpartition_at_def replace_char_def

end
