(* ===== verification/PyFloat.thy ===== *)
theory PyFloat
  imports PyText
begin

text \<open>
  Python floats as exact real numbers with the three special values. What the model keeps is
  the special values, the comparisons that are false on NaN, division by zero, the literals
  \<open>float\<close> accepts, \<open>round\<close> and fixed-point formatting; what it leaves out is the rounding of
  a double after each operation, overflow to an infinity and the sign of zero.
\<close>

section \<open>Values and arithmetic\<close>

datatype pyfloat = NaN | PInf | NInf | Fin real

definition is_nan :: "pyfloat \<Rightarrow> bool" where
  "is_nan x \<longleftrightarrow> x = NaN"

fun f_lt :: "pyfloat \<Rightarrow> pyfloat \<Rightarrow> bool" where
  "f_lt NaN y = False"
| "f_lt x NaN = False"
| "f_lt x NInf = False"
| "f_lt PInf y = False"
| "f_lt NInf y = True"
| "f_lt x PInf = True"
| "f_lt (Fin a) (Fin b) = (a < b)"

fun f_neg :: "pyfloat \<Rightarrow> pyfloat" where
  "f_neg NaN = NaN"
| "f_neg PInf = NInf"
| "f_neg NInf = PInf"
| "f_neg (Fin a) = Fin (- a)"

fun f_abs :: "pyfloat \<Rightarrow> pyfloat" where
  "f_abs NaN = NaN"
| "f_abs PInf = PInf"
| "f_abs NInf = PInf"
| "f_abs (Fin a) = Fin \<bar>a\<bar>"

fun f_add :: "pyfloat \<Rightarrow> pyfloat \<Rightarrow> pyfloat" where
  "f_add NaN y = NaN"
| "f_add x NaN = NaN"
| "f_add PInf NInf = NaN"
| "f_add NInf PInf = NaN"
| "f_add PInf y = PInf"
| "f_add x PInf = PInf"
| "f_add NInf y = NInf"
| "f_add x NInf = NInf"
| "f_add (Fin a) (Fin b) = Fin (a + b)"

definition f_inf_times :: "bool \<Rightarrow> real \<Rightarrow> pyfloat" where
  "f_inf_times pos a = (if a = 0 then NaN else if pos = (0 < a) then PInf else NInf)"

fun f_mul :: "pyfloat \<Rightarrow> pyfloat \<Rightarrow> pyfloat" where
  "f_mul NaN y = NaN"
| "f_mul x NaN = NaN"
| "f_mul PInf PInf = PInf"
| "f_mul NInf NInf = PInf"
| "f_mul PInf NInf = NInf"
| "f_mul NInf PInf = NInf"
| "f_mul PInf (Fin a) = f_inf_times True a"
| "f_mul NInf (Fin a) = f_inf_times False a"
| "f_mul (Fin a) PInf = f_inf_times True a"
| "f_mul (Fin a) NInf = f_inf_times False a"
| "f_mul (Fin a) (Fin b) = Fin (a * b)"

text \<open>\<open>sum(xs)\<close> from zero, left to right, and the two-value \<open>max\<close> that keeps its first
  argument unless the second is greater (so a leading NaN stays).\<close>

definition f_sum :: "pyfloat list \<Rightarrow> pyfloat" where
  "f_sum xs = foldl f_add (Fin 0) xs"

definition f_max2 :: "pyfloat \<Rightarrow> pyfloat \<Rightarrow> pyfloat" where
  "f_max2 x y = (if f_lt x y then y else x)"

fun f_max_list :: "pyfloat list \<Rightarrow> pyfloat res" where
  "f_max_list [] = Inl (ValueError ''max() arg is an empty sequence'')"
| "f_max_list (x # xs) = Inr (foldl f_max2 x xs)"

fun f_div_nat :: "pyfloat \<Rightarrow> nat \<Rightarrow> pyfloat res" where
  "f_div_nat x 0 = Inl ZeroDivisionError"
| "f_div_nat NaN (Suc n) = Inr NaN"
| "f_div_nat PInf (Suc n) = Inr PInf"
| "f_div_nat NInf (Suc n) = Inr NInf"
| "f_div_nat (Fin a) (Suc n) = Inr (Fin (a / real (Suc n)))"

definition f_nonneg :: "pyfloat \<Rightarrow> bool" where
  "f_nonneg x \<longleftrightarrow> x = PInf \<or> (\<exists>a \<ge> 0. x = Fin a)"

lemma f_nonneg_simps [simp]:
  "f_nonneg PInf" "\<not> f_nonneg NaN" "\<not> f_nonneg NInf" "f_nonneg (Fin a) \<longleftrightarrow> 0 \<le> a"
  by (auto simp: f_nonneg_def)

lemma foldl_f_add_Fin: "foldl f_add (Fin a) (map Fin xs) = Fin (a + sum_list xs)"
  by (induction xs arbitrary: a) (auto simp: add.assoc)

lemma f_sum_Fin [simp]: "f_sum (map Fin xs) = Fin (sum_list xs)"
  by (simp add: f_sum_def foldl_f_add_Fin)

lemma foldl_f_max2_Fin: "foldl f_max2 (Fin a) (map Fin xs) = Fin (foldl max a xs)"
  by (induction xs arbitrary: a) (auto simp: f_max2_def max_def)

lemma foldl_max_ge:
  fixes a :: real
  shows "a \<le> foldl max a xs \<and> (\<forall>x \<in> set xs. x \<le> foldl max a xs)"
proof (induction xs arbitrary: a)
  case Nil
  then show ?case by simp
next
  case (Cons x xs)
  from Cons.IH [of "max a x"] show ?case by auto
qed

lemma foldl_max_Max:
  fixes a :: real
  shows "foldl max a xs = Max (insert a (set xs))"
proof (induction xs arbitrary: a)
  case Nil
  then show ?case by simp
next
  case (Cons x xs)
  then show ?case by (cases "xs = []") (auto simp: max.assoc)
qed

section \<open>Rounding to a number of decimals\<close>

text \<open>Both \<open>round(x, d)\<close> and the formats \<open>f"{x:.df}"\<close> round half to even at the \<open>d\<close>-th
  decimal.\<close>

definition round_half_even :: "real \<Rightarrow> int" where
  "round_half_even x = (let f = \<lfloor>x\<rfloor>; d = x - of_int f in
     if d < 1/2 then f else if d > 1/2 then f + 1 else if even f then f else f + 1)"

definition py_round :: "real \<Rightarrow> nat \<Rightarrow> real" where
  "py_round x d = of_int (round_half_even (x * 10 ^ d)) / 10 ^ d"

lemma round_half_even_of_int [simp]: "round_half_even (of_int i) = i"
  by (simp add: round_half_even_def)

lemma round_half_even_err: "\<bar>of_int (round_half_even x) - x\<bar> \<le> 1/2"
proof -
  have "of_int \<lfloor>x\<rfloor> \<le> x" and "x < of_int \<lfloor>x\<rfloor> + 1" by linarith+
  then show ?thesis by (simp add: round_half_even_def Let_def abs_le_iff)
qed

lemma py_round_err: "\<bar>py_round x d - x\<bar> \<le> 1 / (2 * 10 ^ d)"
proof -
  have p: "(0::real) < 10 ^ d" by simp
  have "py_round x d - x = (of_int (round_half_even (x * 10 ^ d)) - x * 10 ^ d) / 10 ^ d"
    by (simp add: py_round_def diff_divide_distrib)
  then have "\<bar>py_round x d - x\<bar> = \<bar>of_int (round_half_even (x * 10 ^ d)) - x * 10 ^ d\<bar> / 10 ^ d"
    using p by (simp add: abs_divide)
  also have "\<dots> \<le> (1/2) / 10 ^ d"
    using p round_half_even_err by (intro divide_right_mono) auto
  finally show ?thesis by simp
qed

lemma py_round_idem [simp]: "py_round (py_round x d) d = py_round x d"
  by (simp add: py_round_def)

lemma round_half_even_mono:
  assumes "x \<le> y"
  shows "round_half_even x \<le> round_half_even y"
proof (cases "\<lfloor>x\<rfloor> = \<lfloor>y\<rfloor>")
  case True
  then show ?thesis using assms by (auto simp: round_half_even_def Let_def)
next
  case False
  then have "\<lfloor>x\<rfloor> + 1 \<le> \<lfloor>y\<rfloor>" using floor_mono [OF assms] by simp
  moreover have "round_half_even x \<le> \<lfloor>x\<rfloor> + 1" and "\<lfloor>y\<rfloor> \<le> round_half_even y"
    by (auto simp: round_half_even_def Let_def)
  ultimately show ?thesis by simp
qed

lemma round_half_even_nonneg: "0 \<le> x \<Longrightarrow> 0 \<le> round_half_even x"
  using round_half_even_mono [of 0 x] round_half_even_of_int [of 0] by simp

lemma py_round_mono: "x \<le> y \<Longrightarrow> py_round x d \<le> py_round y d"
  by (auto simp: py_round_def intro!: divide_right_mono round_half_even_mono mult_right_mono)

lemma py_round_nonneg: "0 \<le> x \<Longrightarrow> 0 \<le> py_round x d"
  by (simp add: py_round_def round_half_even_nonneg)

section \<open>Float literals\<close>

text \<open>\<open>float(s)\<close>: white space around, single underscores between digits, an optional sign,
  then a special name or a decimal with an optional exponent. \<open>None\<close> is \<open>ValueError\<close>.\<close>

fun underscores_ok :: "bool \<Rightarrow> string \<Rightarrow> bool" where
  "underscores_ok prev [] = True"
| "underscores_ok prev (c # s) =
     (if c = CHR ''_'' then prev \<and> (case s of d # _ \<Rightarrow> is_digit d | [] \<Rightarrow> False) \<and> underscores_ok False s
      else underscores_ok (is_digit c) s)"

definition parse_exponent :: "string \<Rightarrow> int option" where
  "parse_exponent s = (case s of
       [] \<Rightarrow> Some 0
     | c # t \<Rightarrow> if c = CHR ''e'' \<or> c = CHR ''E''
         then (case parse_sign t of (sg, ds) \<Rightarrow>
           if ds \<noteq> [] \<and> list_all is_digit ds then Some (sg * int (digits_val 0 ds)) else None)
         else None)"

definition scale10 :: "real \<Rightarrow> int \<Rightarrow> real" where
  "scale10 x e = (if 0 \<le> e then x * 10 ^ nat e else x / 10 ^ nat (- e))"

definition parse_decimal :: "string \<Rightarrow> real option" where
  "parse_decimal s =
     (let ip = takeWhile is_digit s; r = dropWhile is_digit s;
          (fp, r') = (case r of c # t \<Rightarrow> if c = CHR ''.'' then (takeWhile is_digit t, dropWhile is_digit t) else ([], r)
                      | [] \<Rightarrow> ([], []))
      in if ip = [] \<and> fp = [] then None
         else map_option (\<lambda>e. scale10 (real (digits_val 0 (ip @ fp)) / 10 ^ length fp) e) (parse_exponent r'))"

definition parse_unsigned :: "string \<Rightarrow> pyfloat option" where
  "parse_unsigned s =
     (if lower s = ''inf'' \<or> lower s = ''infinity'' then Some PInf
      else if lower s = ''nan'' then Some NaN
      else map_option Fin (parse_decimal s))"

definition py_float :: "string \<Rightarrow> pyfloat option" where
  "py_float s = (let t = strip s in
     if underscores_ok False t
     then (case parse_sign (filter (\<lambda>c. c \<noteq> CHR ''_'') t) of (sg, u) \<Rightarrow>
       map_option (\<lambda>x. if sg < 0 then f_neg x else x) (parse_unsigned u))
     else None)"

text \<open>The decimals the harness itself prints and the metric lines carry: digits, and
  optionally a point and digits.\<close>

definition dec_value :: "string \<Rightarrow> string \<Rightarrow> real" where
  "dec_value ip fp = real (digits_val 0 (ip @ fp)) / 10 ^ length fp"

definition dec_text :: "string \<Rightarrow> string \<Rightarrow> string" where
  "dec_text ip fp = (if fp = [] then ip else ip @ CHR ''.'' # fp)"

lemma takeWhile_digits [simp]:
  assumes "\<forall>c \<in> set ds. is_digit c" and "r = [] \<or> \<not> is_digit (hd r)"
  shows "takeWhile is_digit (ds @ r) = ds" and "dropWhile is_digit (ds @ r) = r"
  using assms by (induction ds) (cases r; auto)+

lemma takeWhile_all_digits: "\<forall>c \<in> set ds. is_digit c \<Longrightarrow> takeWhile is_digit ds = ds"
  by simp

lemma dropWhile_all_digits: "\<forall>c \<in> set ds. is_digit c \<Longrightarrow> dropWhile is_digit ds = []"
  by simp

lemma underscores_ok_plain: "CHR ''_'' \<notin> set s \<Longrightarrow> underscores_ok b s"
  by (induction s arbitrary: b) auto

lemma parse_decimal_dec:
  assumes ip: "ip \<noteq> []" "\<forall>c \<in> set ip. is_digit c" and fp: "\<forall>c \<in> set fp. is_digit c"
  shows "parse_decimal (dec_text ip fp) = Some (dec_value ip fp)"
proof (cases "fp = []")
  case True
  then show ?thesis using ip
    by (simp add: parse_decimal_def dec_text_def dec_value_def parse_exponent_def scale10_def
        takeWhile_all_digits dropWhile_all_digits Let_def)
next
  case False
  then show ?thesis using ip fp
    by (simp add: parse_decimal_def dec_text_def dec_value_def parse_exponent_def scale10_def
        takeWhile_all_digits dropWhile_all_digits Let_def)
qed

lemma lower_digit: "is_digit c \<Longrightarrow> lower_char c = c"
  by (auto simp: lower_char_def is_digit_def)

lemma parse_unsigned_digit: "is_digit c \<Longrightarrow> parse_unsigned (c # s) = map_option Fin (parse_decimal (c # s))"
  by (auto simp: parse_unsigned_def lower_def lower_digit is_digit_def)

lemma py_float_dec:
  assumes ip: "ip \<noteq> []" "\<forall>c \<in> set ip. is_digit c" and fp: "\<forall>c \<in> set fp. is_digit c"
  shows "py_float (dec_text ip fp) = Some (Fin (dec_value ip fp))"
proof -
  let ?t = "dec_text ip fp"
  have chars: "c = CHR ''.'' \<or> is_digit c" if "c \<in> set ?t" for c
    using that ip fp by (auto simp: dec_text_def split: if_splits)
  then have "strip ?t = ?t" by (intro strip_no_space) (fastforce dest: digit_not_space)
  moreover have us: "CHR ''_'' \<notin> set ?t" using chars by fastforce
  then have "filter (\<lambda>c. c \<noteq> CHR ''_'') ?t = ?t" by (auto simp: filter_id_conv)
  moreover from ip obtain c ip' where "ip = c # ip'" "is_digit c" by (cases ip) auto
  then have "?t = c # (if fp = [] then ip' else ip' @ CHR ''.'' # fp)" "is_digit c"
    by (auto simp: dec_text_def)
  ultimately show ?thesis
    using parse_decimal_dec [OF ip fp] us
    by (simp add: py_float_def underscores_ok_plain parse_sign_def parse_unsigned_digit)
qed

section \<open>Fixed-point formatting\<close>

definition show_scaled :: "nat \<Rightarrow> nat \<Rightarrow> string" where
  "show_scaled d n = (let s = zero_pad (Suc d) (show_nat n); k = length s - d
                      in dec_text (take k s) (drop k s))"

definition show_fixed :: "nat \<Rightarrow> real \<Rightarrow> string" where
  "show_fixed d x = (if x < 0 then ''-'' else []) @ show_scaled d (nat \<bar>round_half_even (x * 10 ^ d)\<bar>)"

fun format_fixed :: "nat \<Rightarrow> pyfloat \<Rightarrow> string" where
  "format_fixed d NaN = ''nan''"
| "format_fixed d PInf = ''inf''"
| "format_fixed d NInf = ''-inf''"
| "format_fixed d (Fin x) = show_fixed d x"

lemma zero_pad_digits: "c \<in> set (zero_pad w (show_nat n)) \<Longrightarrow> is_digit c"
  using digits_show_nat by (auto simp: zero_pad_def split: if_splits)

lemma py_float_show_scaled: "py_float (show_scaled d n) = Some (Fin (real n / 10 ^ d))"
proof -
  let ?s = "zero_pad (Suc d) (show_nat n)"
  let ?k = "length ?s - d"
  have len: "d < length ?s" by (simp add: zero_pad_def)
  have "take ?k ?s \<noteq> []" using len by (cases ?s) auto
  moreover have "\<forall>c \<in> set (take ?k ?s). is_digit c" "\<forall>c \<in> set (drop ?k ?s). is_digit c"
    using zero_pad_digits by (auto dest: in_set_takeD in_set_dropD)
  ultimately have "py_float (dec_text (take ?k ?s) (drop ?k ?s))
      = Some (Fin (dec_value (take ?k ?s) (drop ?k ?s)))"
    by (intro py_float_dec) auto
  moreover have "length (drop ?k ?s) = d" using len by simp
  ultimately show ?thesis
    by (simp add: show_scaled_def Let_def dec_value_def)
       (simp add: zero_pad_def)
qed

lemma py_float_show_fixed:
  assumes "0 \<le> x"
  shows "py_float (show_fixed d x) = Some (Fin (py_round x d))"
proof -
  have "0 \<le> round_half_even (x * 10 ^ d)" using assms by (intro round_half_even_nonneg) simp
  then show ?thesis using assms
    by (simp add: show_fixed_def py_float_show_scaled py_round_def)
qed

lemma show_scaled_nonempty: "show_scaled d n \<noteq> []"
proof -
  have "length (zero_pad (Suc d) (show_nat n)) - d > 0" by (simp add: zero_pad_def)
  then have "take (length (zero_pad (Suc d) (show_nat n)) - d) (zero_pad (Suc d) (show_nat n)) \<noteq> []"
    by (auto simp: zero_pad_def)
  then show ?thesis by (auto simp: show_scaled_def Let_def dec_text_def)
qed

lemma show_fixed_nonempty: "show_fixed d x \<noteq> []"
  by (simp add: show_fixed_def show_scaled_nonempty)

lemma show_scaled_chars: "c \<in> set (show_scaled d n) \<Longrightarrow> is_digit c \<or> c = CHR ''.''"
  using zero_pad_digits
  by (fastforce simp: show_scaled_def Let_def dec_text_def dest: in_set_takeD in_set_dropD split: if_splits)

lemma show_fixed_chars: "c \<in> set (show_fixed d x) \<Longrightarrow> is_digit c \<or> c = CHR ''.'' \<or> c = CHR ''-''"
  using show_scaled_chars by (fastforce simp: show_fixed_def split: if_splits)

end
