(* ===== verification/Regex.thy ===== *)
theory Regex
  imports PyText
begin

text \<open>
  The part of Python's \<open>re\<close> module the harness uses: a backtracking matcher with greedy and
  lazy repetition of a character class, ordered alternatives and named groups, run with a
  continuation so that the first success in Python's search order is the result.
  The matcher is related to the declarative language of a pattern in both directions.
\<close>

section \<open>Patterns\<close>

datatype rx =
    Eps
  | Cls "char \<Rightarrow> bool"
  | Star "char \<Rightarrow> bool"
  | Lazy "char \<Rightarrow> bool"
  | Seq rx rx
  | Alt rx rx
  | Grp string rx

definition plus :: "(char \<Rightarrow> bool) \<Rightarrow> rx" where
  "plus P = Seq (Cls P) (Star P)"

definition opt :: "rx \<Rightarrow> rx" where
  "opt r = Alt r Eps"

fun lit :: "string \<Rightarrow> rx" where
  "lit [] = Eps"
| "lit (p # ps) = Seq (Cls (\<lambda>c. c = p)) (lit ps)"

fun seqs :: "rx list \<Rightarrow> rx" where
  "seqs [] = Eps"
| "seqs [r] = r"
| "seqs (r # rs) = Seq r (seqs rs)"

definition not_comma :: "char \<Rightarrow> bool" where
  "not_comma c \<longleftrightarrow> c \<noteq> CHR '',''"

section \<open>The matcher\<close>

text \<open>The groups captured so far, latest first, and a match: groups and remaining text.\<close>

type_synonym caps = "(string \<times> string) list"
type_synonym mres = "(caps \<times> string) option"

fun orelse :: "mres \<Rightarrow> mres \<Rightarrow> mres" where
  "orelse (Some x) r = Some x"
| "orelse None r = r"

fun star_greedy :: "(char \<Rightarrow> bool) \<Rightarrow> string \<Rightarrow> (string \<Rightarrow> mres) \<Rightarrow> mres" where
  "star_greedy P [] k = k []"
| "star_greedy P (c # s) k = (if P c then orelse (star_greedy P s k) (k (c # s)) else k (c # s))"

fun star_lazy :: "(char \<Rightarrow> bool) \<Rightarrow> string \<Rightarrow> (string \<Rightarrow> mres) \<Rightarrow> mres" where
  "star_lazy P [] k = k []"
| "star_lazy P (c # s) k = orelse (k (c # s)) (if P c then star_lazy P s k else None)"

primrec rmatch :: "rx \<Rightarrow> caps \<Rightarrow> string \<Rightarrow> (caps \<Rightarrow> string \<Rightarrow> mres) \<Rightarrow> mres" where
  "rmatch Eps c s k = k c s"
| "rmatch (Cls P) c s k = (case s of [] \<Rightarrow> None | x # t \<Rightarrow> if P x then k c t else None)"
| "rmatch (Star P) c s k = star_greedy P s (k c)"
| "rmatch (Lazy P) c s k = star_lazy P s (k c)"
| "rmatch (Seq a b) c s k = rmatch a c s (\<lambda>c' s'. rmatch b c' s' k)"
| "rmatch (Alt a b) c s k = orelse (rmatch a c s k) (rmatch b c s k)"
| "rmatch (Grp n r) c s k = rmatch r c s (\<lambda>c' s'. k ((n, take (length s - length s') s) # c') s')"

text \<open>\<open>re.match\<close>, \<open>re.fullmatch\<close> and \<open>re.search\<close>; \<open>search\<close> also gives the text before the match.\<close>

definition re_match :: "rx \<Rightarrow> string \<Rightarrow> mres" where
  "re_match r s = rmatch r [] s (\<lambda>c t. Some (c, t))"

definition re_fullmatch :: "rx \<Rightarrow> string \<Rightarrow> mres" where
  "re_fullmatch r s = rmatch r [] s (\<lambda>c t. if t = [] then Some (c, t) else None)"

fun re_search :: "rx \<Rightarrow> string \<Rightarrow> (string \<times> caps \<times> string) option" where
  "re_search r [] = map_option (\<lambda>m. ([], m)) (re_match r [])"
| "re_search r (c # s) = (case re_match r (c # s) of
       Some m \<Rightarrow> Some ([], m)
     | None \<Rightarrow> map_option (\<lambda>(pre, m). (c # pre, m)) (re_search r s))"

definition group :: "string \<Rightarrow> caps \<Rightarrow> string" where
  "group n c = (case map_of c n of Some t \<Rightarrow> t | None \<Rightarrow> [])"

section \<open>The language of a pattern\<close>

primrec lang :: "rx \<Rightarrow> string set" where
  "lang Eps = {[]}"
| "lang (Cls P) = {[c] |c. P c}"
| "lang (Star P) = {s. \<forall>c \<in> set s. P c}"
| "lang (Lazy P) = {s. \<forall>c \<in> set s. P c}"
| "lang (Seq a b) = {u @ v |u v. u \<in> lang a \<and> v \<in> lang b}"
| "lang (Alt a b) = lang a \<union> lang b"
| "lang (Grp n r) = lang r"

text \<open>The texts a group may hold, and the groups every match sets.\<close>

primrec glang :: "rx \<Rightarrow> string \<Rightarrow> string set" where
  "glang Eps n = {}"
| "glang (Cls P) n = {}"
| "glang (Star P) n = {}"
| "glang (Lazy P) n = {}"
| "glang (Seq a b) n = glang a n \<union> glang b n"
| "glang (Alt a b) n = glang a n \<union> glang b n"
| "glang (Grp m r) n = glang r n \<union> (if m = n then lang r else {})"

primrec req_groups :: "rx \<Rightarrow> string set" where
  "req_groups Eps = {}"
| "req_groups (Cls P) = {}"
| "req_groups (Star P) = {}"
| "req_groups (Lazy P) = {}"
| "req_groups (Seq a b) = req_groups a \<union> req_groups b"
| "req_groups (Alt a b) = req_groups a \<inter> req_groups b"
| "req_groups (Grp m r) = insert m (req_groups r)"

lemma orelse_Some: "orelse a b = Some x \<longleftrightarrow> a = Some x \<or> (a = None \<and> b = Some x)"
  by (cases a) auto

lemma orelse_None [simp]: "orelse a b = None \<longleftrightarrow> a = None \<and> b = None"
  by (cases a) auto

lemma star_greedy_sound:
  "star_greedy P s k = Some x \<Longrightarrow> \<exists>u v. s = u @ v \<and> (\<forall>c \<in> set u. P c) \<and> k v = Some x"
proof (induction s)
  case Nil
  then show ?case by simp
next
  case (Cons c s)
  show ?case
  proof (cases "P c \<and> star_greedy P s k = Some x")
    case True
    then obtain u v where "s = u @ v" "\<forall>c \<in> set u. P c" "k v = Some x"
      using Cons.IH by blast
    then have "c # s = (c # u) @ v \<and> (\<forall>d \<in> set (c # u). P d) \<and> k v = Some x"
      using True by simp
    then show ?thesis by blast
  next
    case False
    then have "k (c # s) = Some x" using Cons.prems by (auto simp: orelse_Some split: if_splits)
    then show ?thesis by (intro exI [of _ "[]"] exI [of _ "c # s"]) simp
  qed
qed

lemma star_lazy_sound:
  "star_lazy P s k = Some x \<Longrightarrow> \<exists>u v. s = u @ v \<and> (\<forall>c \<in> set u. P c) \<and> k v = Some x"
proof (induction s)
  case Nil
  then show ?case by simp
next
  case (Cons c s)
  show ?case
  proof (cases "k (c # s) = Some x")
    case True
    then show ?thesis by (intro exI [of _ "[]"] exI [of _ "c # s"]) simp
  next
    case False
    then have "P c" and "star_lazy P s k = Some x"
      using Cons.prems by (auto simp: orelse_Some split: if_splits)
    then obtain u v where "s = u @ v" "\<forall>c \<in> set u. P c" "k v = Some x"
      using Cons.IH by blast
    then have "c # s = (c # u) @ v \<and> (\<forall>d \<in> set (c # u). P d) \<and> k v = Some x"
      using \<open>P c\<close> by simp
    then show ?thesis by blast
  qed
qed

text \<open>Soundness: a success consumed a prefix in the language, and captured only texts the
  groups may hold, all required groups among them.\<close>

definition explains :: "rx \<Rightarrow> caps \<Rightarrow> string \<Rightarrow> caps \<Rightarrow> string \<Rightarrow> bool" where
  "explains r c s c' v \<longleftrightarrow> (\<exists>u d. s = u @ v \<and> u \<in> lang r \<and> c' = d @ c \<and>
     (\<forall>(n, t) \<in> set d. t \<in> glang r n) \<and> req_groups r \<subseteq> fst ` set d)"

lemma explains_Seq:
  assumes "explains a c s c1 s1" and "explains b c1 s1 c2 s2"
  shows "explains (Seq a b) c s c2 s2"
proof -
  obtain u d where 1: "s = u @ s1" "u \<in> lang a" "c1 = d @ c" "\<forall>(n, t) \<in> set d. t \<in> glang a n"
      "req_groups a \<subseteq> fst ` set d"
    using assms(1) by (auto simp: explains_def)
  obtain w e where 2: "s1 = w @ s2" "w \<in> lang b" "c2 = e @ c1" "\<forall>(n, t) \<in> set e. t \<in> glang b n"
      "req_groups b \<subseteq> fst ` set e"
    using assms(2) by (auto simp: explains_def)
  have "s = (u @ w) @ s2" "c2 = (e @ d) @ c" "u @ w \<in> lang (Seq a b)"
    using 1 2 by auto
  moreover have "\<forall>(n, t) \<in> set (e @ d). t \<in> glang (Seq a b) n"
    using 1(4) 2(4) by auto
  moreover have "req_groups (Seq a b) \<subseteq> fst ` set (e @ d)"
    using 1(5) 2(5) by auto
  ultimately show ?thesis unfolding explains_def by blast
qed

lemma rmatch_sound:
  "rmatch r c s k = Some x \<Longrightarrow> \<exists>c' v. explains r c s c' v \<and> k c' v = Some x"
proof (induction r arbitrary: c s k)
  case Eps
  moreover have "explains Eps c s c s" by (simp add: explains_def)
  ultimately show ?case by auto
next
  case (Cls P)
  then obtain y t where "s = y # t" "P y" "k c t = Some x" by (auto split: list.splits if_splits)
  moreover from this have "explains (Cls P) c s c t" by (simp add: explains_def)
  ultimately show ?case by blast
next
  case (Star P)
  then obtain u v where "s = u @ v" "\<forall>c \<in> set u. P c" "k c v = Some x"
    using star_greedy_sound [of P s "k c" x] by auto
  moreover from this have "explains (Star P) c s c v" by (simp add: explains_def)
  ultimately show ?case by blast
next
  case (Lazy P)
  then obtain u v where "s = u @ v" "\<forall>c \<in> set u. P c" "k c v = Some x"
    using star_lazy_sound [of P s "k c" x] by auto
  moreover from this have "explains (Lazy P) c s c v" by (simp add: explains_def)
  ultimately show ?case by blast
next
  case (Seq a b)
  then have "rmatch a c s (\<lambda>c' s'. rmatch b c' s' k) = Some x" by simp
  from Seq.IH(1) [OF this] obtain c1 s1 where 1: "explains a c s c1 s1" "rmatch b c1 s1 k = Some x"
    by blast
  from Seq.IH(2) [OF 1(2)] obtain c2 s2 where "explains b c1 s1 c2 s2" "k c2 s2 = Some x" by blast
  with 1(1) explains_Seq show ?case by blast
next
  case (Alt a b)
  then consider "rmatch a c s k = Some x" | "rmatch b c s k = Some x"
    by (auto simp: orelse_Some)
  then show ?case
  proof cases
    case 1
    from Alt.IH(1) [OF 1] show ?thesis by (fastforce simp: explains_def)
  next
    case 2
    from Alt.IH(2) [OF 2] show ?thesis by (fastforce simp: explains_def)
  qed
next
  case (Grp n r)
  let ?k = "\<lambda>c' s'. k ((n, take (length s - length s') s) # c') s'"
  from Grp.prems have "rmatch r c s ?k = Some x" by simp
  from Grp.IH [OF this] obtain c1 v u d where
    1: "s = u @ v" "u \<in> lang r" "c1 = d @ c" "\<forall>(n, t) \<in> set d. t \<in> glang r n"
      "req_groups r \<subseteq> fst ` set d" "k ((n, u) # c1) v = Some x"
    by (auto simp: explains_def)
  have "explains (Grp n r) c s (((n, u) # d) @ c) v"
    unfolding explains_def
    using 1 by (intro exI [of _ u] exI [of _ "(n, u) # d"]) auto
  then show ?case using 1(3,6) by auto
qed

text \<open>Completeness: if some prefix is in the language and the continuation accepts whatever
  it is given there, the matcher succeeds.\<close>

lemma star_greedy_complete:
  "\<forall>c \<in> set u. P c \<Longrightarrow> k v \<noteq> None \<Longrightarrow> star_greedy P (u @ v) k \<noteq> None"
proof (induction u)
  case Nil
  then show ?case by (cases v) (simp_all del: not_None_eq)
next
  case (Cons c u)
  then show ?case by (simp del: not_None_eq)
qed

lemma star_lazy_complete:
  "\<forall>c \<in> set u. P c \<Longrightarrow> k v \<noteq> None \<Longrightarrow> star_lazy P (u @ v) k \<noteq> None"
proof (induction u)
  case Nil
  then show ?case by (cases v) (simp_all del: not_None_eq)
next
  case (Cons c u)
  then show ?case by (simp del: not_None_eq)
qed

lemma rmatch_complete:
  "u \<in> lang r \<Longrightarrow> (\<And>c'. k c' v \<noteq> None) \<Longrightarrow> rmatch r c (u @ v) k \<noteq> None"
proof (induction r arbitrary: c u v k)
  case (Star P)
  then show ?case using star_greedy_complete [of u P "k c" v] by simp
next
  case (Lazy P)
  then show ?case using star_lazy_complete [of u P "k c" v] by simp
next
  case (Seq a b)
  then obtain u1 u2 where u: "u = u1 @ u2" "u1 \<in> lang a" "u2 \<in> lang b" by auto
  have "rmatch b c' (u2 @ v) k \<noteq> None" for c'
    using Seq.IH(2) [where u = u2 and v = v and k = k and c = c'] u(3) Seq.prems(2) by blast
  then have "rmatch a c (u1 @ u2 @ v) (\<lambda>c' s'. rmatch b c' s' k) \<noteq> None"
    by (intro Seq.IH(1) [OF u(2)])
  then show ?case by (simp add: u(1))
next
  case (Alt a b)
  from Alt.prems(1) consider "u \<in> lang a" | "u \<in> lang b" by auto
  then show ?case
  proof cases
    case 1
    have "rmatch a c (u @ v) k \<noteq> None" using Alt.IH(1) [where u = u and v = v and k = k and c = c] 1 Alt.prems(2) by blast
    then show ?thesis by (simp del: not_None_eq)
  next
    case 2
    have "rmatch b c (u @ v) k \<noteq> None" using Alt.IH(2) [where u = u and v = v and k = k and c = c] 2 Alt.prems(2) by blast
    then show ?thesis by (simp del: not_None_eq)
  qed
next
  case (Grp n r)
  let ?k = "\<lambda>c' s'. k ((n, take (length (u @ v) - length s') (u @ v)) # c') s'"
  have "rmatch r c (u @ v) ?k \<noteq> None"
    using Grp.IH [where u = u and v = v and k = ?k and c = c] Grp.prems by simp
  then show ?case by simp
qed auto

section \<open>Searching\<close>

lemma re_match_iff: "re_match r s \<noteq> None \<longleftrightarrow> (\<exists>u v. s = u @ v \<and> u \<in> lang r)"
proof
  assume "re_match r s \<noteq> None"
  then obtain x where "rmatch r [] s (\<lambda>c t. Some (c, t)) = Some x"
    by (auto simp: re_match_def)
  from rmatch_sound [OF this] show "\<exists>u v. s = u @ v \<and> u \<in> lang r"
    by (auto simp: explains_def)
next
  assume "\<exists>u v. s = u @ v \<and> u \<in> lang r"
  then obtain u v where s: "s = u @ v" and u: "u \<in> lang r" by blast
  have "rmatch r [] (u @ v) (\<lambda>c t. Some (c, t)) \<noteq> None"
    by (rule rmatch_complete [OF u]) simp
  then show "re_match r s \<noteq> None" by (simp add: re_match_def s)
qed

lemma re_match_sound: "re_match r s = Some (c, v) \<Longrightarrow> explains r [] s c v"
  using rmatch_sound [of r "[]" s "\<lambda>c t. Some (c, t)"] by (auto simp: re_match_def)

lemma re_search_sound:
  "re_search r s = Some (pre, c, v) \<Longrightarrow> \<exists>t. s = pre @ t \<and> explains r [] t c v"
proof (induction s arbitrary: pre)
  case Nil
  then have "pre = []" "re_match r [] = Some (c, v)" by auto
  then show ?case using re_match_sound [of r "[]" c v] by simp
next
  case (Cons x s)
  show ?case
  proof (cases "re_match r (x # s)")
    case None
    with Cons.prems obtain pre' where "pre = x # pre'" "re_search r s = Some (pre', c, v)" by auto
    moreover from this Cons.IH obtain t where "s = pre' @ t" "explains r [] t c v" by blast
    ultimately show ?thesis by (intro exI [of _ t]) simp
  next
    case (Some m)
    with Cons.prems have "pre = []" "re_match r (x # s) = Some (c, v)" by auto
    then show ?thesis using re_match_sound [of r "x # s" c v] by (intro exI [of _ "x # s"]) simp
  qed
qed

lemma re_search_iff: "re_search r s \<noteq> None \<longleftrightarrow> (\<exists>u v w. s = u @ v @ w \<and> v \<in> lang r)"
proof (induction s)
  case Nil
  have "re_search r [] \<noteq> None \<longleftrightarrow> re_match r [] \<noteq> None" by simp
  also have "\<dots> \<longleftrightarrow> [] \<in> lang r" using re_match_iff [of r "[]"] by (simp del: not_None_eq)
  finally show ?case by simp
next
  case (Cons x s)
  have "re_search r (x # s) \<noteq> None \<longleftrightarrow> re_match r (x # s) \<noteq> None \<or> re_search r s \<noteq> None"
    by (cases "re_match r (x # s)") (simp_all del: not_None_eq)
  also have "\<dots> \<longleftrightarrow> (\<exists>v w. x # s = v @ w \<and> v \<in> lang r) \<or> (\<exists>u v w. s = u @ v @ w \<and> v \<in> lang r)"
    by (simp only: re_match_iff Cons.IH)
  also have "\<dots> \<longleftrightarrow> (\<exists>u v w. x # s = u @ v @ w \<and> v \<in> lang r)" (is "?A \<longleftrightarrow> ?B")
  proof
    assume ?A
    then consider v w where "x # s = [] @ v @ w" "v \<in> lang r"
      | u v w where "x # s = (x # u) @ v @ w" "v \<in> lang r" by auto
    then show ?B by cases blast+
  next
    assume ?B
    then obtain u v w where "x # s = u @ v @ w" "v \<in> lang r" by blast
    then show ?A by (cases u) auto
  qed
  finally show ?case .
qed

lemma group_in_glang:
  assumes "explains r [] s c v" and "n \<in> req_groups r"
  shows "group n c \<in> glang r n"
proof -
  from assms have "\<forall>(m, t) \<in> set c. t \<in> glang r m" and "n \<in> fst ` set c"
    by (auto simp: explains_def)
  moreover then obtain t where "map_of c n = Some t"
    by (metis not_None_eq map_of_eq_None_iff)
  ultimately show ?thesis by (auto simp: group_def dest: map_of_SomeD)
qed

section \<open>Following the first choice\<close>

text \<open>\<open>takes r c s c' t\<close>: the first alternative the matcher explores on \<open>s\<close> leads to groups \<open>c'\<close>
  and rest \<open>t\<close>, so it is the result as soon as the continuation accepts there. \<open>fails r c s\<close>: no
  match starts at \<open>s\<close>.\<close>

definition takes :: "rx \<Rightarrow> caps \<Rightarrow> string \<Rightarrow> caps \<Rightarrow> string \<Rightarrow> bool" where
  "takes r c s c' t \<longleftrightarrow> (\<forall>k x. k c' t = Some x \<longrightarrow> rmatch r c s k = Some x)"

definition fails :: "rx \<Rightarrow> string \<Rightarrow> bool" where
  "fails r s \<longleftrightarrow> (\<forall>c k. rmatch r c s k = None)"

lemma takes_Eps: "takes Eps c s c s"
  by (simp add: takes_def)

lemma takes_Cls: "P x \<Longrightarrow> takes (Cls P) c (x # s) c s"
  by (simp add: takes_def)

lemma takes_Seq: "takes a c s c1 s1 \<Longrightarrow> takes b c1 s1 c2 s2 \<Longrightarrow> takes (Seq a b) c s c2 s2"
  by (simp add: takes_def)

lemma takes_Alt1: "takes a c s c' t \<Longrightarrow> takes (Alt a b) c s c' t"
  by (simp add: takes_def)

lemma takes_Alt2: "fails a s \<Longrightarrow> takes b c s c' t \<Longrightarrow> takes (Alt a b) c s c' t"
  by (simp add: takes_def fails_def)

lemma takes_Grp: "takes r c (u @ t) c' t \<Longrightarrow> takes (Grp n r) c (u @ t) ((n, u) # c') t"
  by (simp add: takes_def)

lemma star_greedy_commit:
  "\<forall>c \<in> set u. P c \<Longrightarrow> t = [] \<or> \<not> P (hd t) \<Longrightarrow> k t = Some x \<Longrightarrow> star_greedy P (u @ t) k = Some x"
proof (induction u)
  case Nil
  then show ?case by (cases t) auto
qed auto

lemma takes_Star: "\<forall>x \<in> set u. P x \<Longrightarrow> t = [] \<or> \<not> P (hd t) \<Longrightarrow> takes (Star P) c (u @ t) c t"
  by (simp add: takes_def star_greedy_commit)

lemma takes_Star0: "t = [] \<or> \<not> P (hd t) \<Longrightarrow> takes (Star P) c t c t"
  using takes_Star [of "[]" P t c] by simp

lemma takes_plus:
  assumes "u \<noteq> []" and "\<forall>x \<in> set u. P x" and "t = [] \<or> \<not> P (hd t)"
  shows "takes (plus P) c (u @ t) c t"
proof -
  obtain x u' where u: "u = x # u'" using assms(1) by (cases u) auto
  have "takes (Cls P) c (x # u' @ t) c (u' @ t)" using assms u by (intro takes_Cls) simp
  moreover have "takes (Star P) c (u' @ t) c t" using assms u by (intro takes_Star) auto
  ultimately show ?thesis by (auto simp: plus_def u intro: takes_Seq)
qed

lemma takes_lit: "takes (lit p) c (p @ s) c s"
proof (induction p)
  case Nil
  then show ?case by (simp add: takes_Eps)
next
  case (Cons x p)
  have "takes (Cls (\<lambda>d. d = x)) c (x # p @ s) c (p @ s)" by (rule takes_Cls) simp
  with Cons show ?case by (auto intro: takes_Seq)
qed

text \<open>A lazy repetition stops at the first place where what follows succeeds.\<close>

lemma takes_Lazy_Seq:
  assumes "\<forall>x \<in> set u. P x" and "\<And>i. i < length u \<Longrightarrow> fails b (drop i u @ s)"
    and "takes b c s c' t"
  shows "takes (Seq (Lazy P) b) c (u @ s) c' t"
  using assms
proof (induction u)
  case Nil
  then show ?case by (cases s) (auto simp: takes_def)
next
  case (Cons x u)
  have "fails b (drop i u @ s)" if "i < length u" for i
    using Cons.prems(2) [of "Suc i"] that by simp
  with Cons have "takes (Seq (Lazy P) b) c (u @ s) c' t" by simp
  moreover have "fails b (x # u @ s)" using Cons.prems(2) [of 0] by simp
  ultimately show ?case using Cons.prems(1) by (auto simp: takes_def fails_def)
qed

lemma takes_re_match: "takes r [] s c t \<Longrightarrow> re_match r s = Some (c, t)"
  by (simp add: takes_def re_match_def)

lemma re_match_re_search: "re_match r s = Some m \<Longrightarrow> re_search r s = Some ([], m)"
  by (cases s) auto

lemma takes_re_search: "takes r [] s c t \<Longrightarrow> re_search r s = Some ([], c, t)"
  by (simp add: re_match_re_search takes_re_match)

lemma fails_Seq: "fails a s \<Longrightarrow> fails (Seq a b) s"
  by (simp add: fails_def)

lemma fails_Cls: "s = [] \<or> \<not> P (hd s) \<Longrightarrow> fails (Cls P) s"
  by (cases s) (auto simp: fails_def)

lemma fails_lit: "p \<noteq> [] \<Longrightarrow> s = [] \<or> hd s \<noteq> hd p \<Longrightarrow> fails (lit p) s"
  by (cases p; cases s) (auto simp: fails_def)

lemma fails_lang: "(\<And>u v. s = u @ v \<Longrightarrow> u \<notin> lang r) \<Longrightarrow> fails r s"
  unfolding fails_def
proof (intro allI)
  fix c k
  assume "\<And>u v. s = u @ v \<Longrightarrow> u \<notin> lang r"
  then show "rmatch r c s k = None"
    using rmatch_sound [of r c s k] by (cases "rmatch r c s k") (auto simp: explains_def)
qed

text \<open>Skipping ahead in a search: characters that cannot start a match.\<close>

lemma re_search_skip:
  assumes "\<And>i. i < length u \<Longrightarrow> fails r (drop i u @ s)" and "re_search r s = Some (pre, m)"
  shows "re_search r (u @ s) = Some (u @ pre, m)"
  using assms
proof (induction u)
  case Nil
  then show ?case by simp
next
  case (Cons x u)
  have "fails r (drop i u @ s)" if "i < length u" for i
    using Cons.prems(1) [of "Suc i"] that by simp
  with Cons have "re_search r (u @ s) = Some (u @ pre, m)" by simp
  moreover have "re_match r (x # u @ s) = None"
    using Cons.prems(1) [of 0] by (simp add: fails_def re_match_def)
  ultimately show ?case by simp
qed

lemma lang_lit: "lang (lit p) = {p}"
  by (induction p) auto

lemma lang_plus: "lang (plus P) = {s. s \<noteq> [] \<and> (\<forall>c \<in> set s. P c)}"
proof -
  have "s \<in> lang (plus P)" if "s \<noteq> []" "\<forall>c \<in> set s. P c" for s
  proof -
    from that obtain c t where "s = [c] @ t" "P c" "\<forall>c \<in> set t. P c" by (cases s) auto
    then show ?thesis unfolding plus_def lang.simps by blast
  qed
  moreover have "s \<noteq> [] \<and> (\<forall>c \<in> set s. P c)" if "s \<in> lang (plus P)" for s
    using that by (auto simp: plus_def)
  ultimately show ?thesis by blast
qed

lemma lang_opt: "lang (opt r) = insert [] (lang r)"
  by (auto simp: opt_def)

lemma glang_lit [simp]: "glang (lit p) n = {}"
  by (induction p) auto

lemma req_groups_lit [simp]: "req_groups (lit p) = {}"
  by (induction p) auto

lemma glang_plus [simp]: "glang (plus P) n = {}"
  by (simp add: plus_def)

lemma req_groups_plus [simp]: "req_groups (plus P) = {}"
  by (simp add: plus_def)

lemma glang_opt [simp]: "glang (opt r) n = glang r n"
  by (simp add: opt_def)

lemma req_groups_opt [simp]: "req_groups (opt r) = {}"
  by (simp add: opt_def)

lemmas takes_intros = takes_Eps takes_Cls takes_Seq takes_Grp takes_Star takes_Star0 takes_plus takes_lit

end
