(* ===== verification/Metrics.thy ===== *)
theory Metrics
  imports PyFloat Regex
begin

text \<open>
  The parser of the binaries' metrics lines, \<open>benchmarks/lib/parse.py\<close>, with the line formats
  the Rust binaries print (\<open>src/common/metrics.rs\<close>, \<open>src/bin/mtls_client.rs\<close>,
  \<open>src/bin/edhoc_client.rs\<close>). Shown here: the parser inverts the shared format for every
  duration unit, never raises, yields well-formed records, and rejects the
  protocol-tagged format of the EDHOC and mTLS clients.
\<close>

section \<open>The pattern\<close>

definition micro_s :: string where
  "micro_s = [CHR 0xB5, CHR ''s'']"

definition rx_number :: rx where
  "rx_number = Seq (plus is_digit) (opt (Seq (lit ''.'') (plus is_digit)))"

definition rx_unit :: rx where
  "rx_unit = Alt (lit ''ns'') (Alt (lit micro_s) (Alt (lit ''us'') (Alt (lit ''ms'') (lit ''s''))))"

definition rx_head :: rx where
  "rx_head = seqs [Grp ''role'' (Alt (lit ''CLIENT'') (lit ''SERVER'')), plus is_space,
     lit ''METRICS'', Star is_space, lit ''->'']"

definition rx_peer :: rx where
  "rx_peer = opt (Seq (Star is_space) (Lazy not_comma))"

definition rx_body :: rx where
  "rx_body = seqs [Star is_space, lit ''Duration:'', Star is_space,
     Grp ''dur'' rx_number, Grp ''unit'' rx_unit,
     Star is_space, lit '','', Star is_space,
     lit ''Sent:'', Star is_space, Grp ''sent'' (plus is_digit), Star is_space, lit ''bytes'',
     Star is_space, lit '','', Star is_space,
     lit ''Received:'', Star is_space, Grp ''recv'' (plus is_digit), Star is_space, lit ''bytes'']"

definition METRICS_RE :: rx where
  "METRICS_RE = Seq rx_head (Seq rx_peer rx_body)"

fun UNIT_TO_MS :: "string \<Rightarrow> real option" where
  "UNIT_TO_MS u =
     (if u = ''ns'' then Some (1 / 10 ^ 6)
      else if u = micro_s then Some (1 / 10 ^ 3)
      else if u = ''us'' then Some (1 / 10 ^ 3)
      else if u = ''ms'' then Some 1
      else if u = ''s'' then Some 1000
      else None)"

section \<open>The parser\<close>

record metrics_line =
  ml_role :: string
  ml_duration_ms :: real
  ml_sent_bytes :: int
  ml_recv_bytes :: int

definition total_bytes :: "metrics_line \<Rightarrow> int" where
  "total_bytes m = ml_sent_bytes m + ml_recv_bytes m"

text \<open>\<open>float(s)\<close>, \<open>int(s)\<close> and a dictionary read, with the exceptions they raise. The duration
  group holds a plain decimal, so its float is finite.\<close>

definition float_finite :: "string \<Rightarrow> real res" where
  "float_finite s = (case py_float s of Some (Fin x) \<Rightarrow> Inr x | _ \<Rightarrow> Inl (ValueError s))"

definition int_res :: "string \<Rightarrow> int res" where
  "int_res s = (case py_int s of Some i \<Rightarrow> Inr i | None \<Rightarrow> Inl (ValueError s))"

definition unit_res :: "string \<Rightarrow> real res" where
  "unit_res u = (case UNIT_TO_MS u of Some x \<Rightarrow> Inr x | None \<Rightarrow> Inl (KeyError u))"

definition parse_line :: "string \<Rightarrow> metrics_line option res" where
  "parse_line line = (case re_search METRICS_RE line of
       None \<Rightarrow> Inr None
     | Some (_, c, _) \<Rightarrow>
         bind_res (float_finite (group ''dur'' c)) (\<lambda>dur.
         bind_res (unit_res (group ''unit'' c)) (\<lambda>u.
         bind_res (int_res (group ''sent'' c)) (\<lambda>sent.
         bind_res (int_res (group ''recv'' c)) (\<lambda>recv.
           Inr (Some \<lparr>ml_role = group ''role'' c, ml_duration_ms = dur * u,
                      ml_sent_bytes = sent, ml_recv_bytes = recv\<rparr>))))))"

fun parse_stream :: "string list \<Rightarrow> metrics_line list res" where
  "parse_stream [] = Inr []"
| "parse_stream (l # lines) =
     bind_res (parse_line l) (\<lambda>m. bind_res (parse_stream lines) (\<lambda>out.
       Inr (case m of None \<Rightarrow> out | Some x \<Rightarrow> x # out)))"

fun first_client_in :: "string list \<Rightarrow> metrics_line option res" where
  "first_client_in [] = Inr None"
| "first_client_in (l # lines) =
     bind_res (parse_line l) (\<lambda>m. case m of
       Some x \<Rightarrow> if ml_role x = ''CLIENT'' then Inr (Some x) else first_client_in lines
     | None \<Rightarrow> first_client_in lines)"

definition first_client_metrics :: "string \<Rightarrow> metrics_line option res" where
  "first_client_metrics text = first_client_in (splitlines text)"

section \<open>The lines the binaries print\<close>

text \<open>A Rust \<open>Duration\<close> prints as a decimal and a unit; \<open>ip\<close> and \<open>fp\<close> are the digits before
  and after the point.\<close>

definition counters_text :: "string \<Rightarrow> string \<Rightarrow> string \<Rightarrow> nat \<Rightarrow> nat \<Rightarrow> string" where
  "counters_text ip fp u s r = ''Duration: '' @ dec_text ip fp @ u @ '', Sent: '' @ show_nat s
     @ '' bytes, Received: '' @ show_nat r @ '' bytes''"

definition print_client :: "string \<Rightarrow> string \<Rightarrow> string \<Rightarrow> nat \<Rightarrow> nat \<Rightarrow> string" where
  "print_client ip fp u s r = ''CLIENT METRICS -> '' @ counters_text ip fp u s r"

definition print_server :: "string \<Rightarrow> string \<Rightarrow> string \<Rightarrow> string \<Rightarrow> nat \<Rightarrow> nat \<Rightarrow> string" where
  "print_server peer ip fp u s r = ''SERVER METRICS -> '' @ peer @ '' '' @ counters_text ip fp u s r"

definition print_client_tagged :: "string \<Rightarrow> string \<Rightarrow> string \<Rightarrow> string \<Rightarrow> nat \<Rightarrow> nat \<Rightarrow> string \<Rightarrow> string" where
  "print_client_tagged proto ip fp u s r extra =
     ''CLIENT METRICS -> Protocol: '' @ proto @ '', '' @ counters_text ip fp u s r @ '', '' @ extra"

definition is_unit :: "string \<Rightarrow> bool" where
  "is_unit u \<longleftrightarrow> u \<in> {''ns'', micro_s, ''us'', ''ms'', ''s''}"

definition is_decimal :: "string \<Rightarrow> string \<Rightarrow> bool" where
  "is_decimal ip fp \<longleftrightarrow> ip \<noteq> [] \<and> list_all is_digit ip \<and> list_all is_digit fp"

definition unit_ms :: "string \<Rightarrow> real" where
  "unit_ms u = (case UNIT_TO_MS u of Some x \<Rightarrow> x | None \<Rightarrow> 0)"

section \<open>Matching a printed line\<close>

lemma takes_number:
  assumes d: "is_decimal ip fp" and t: "t \<noteq> []" "\<not> is_digit (hd t)" "hd t \<noteq> CHR ''.''"
  shows "takes rx_number c (dec_text ip fp @ t) c t"
proof (cases "fp = []")
  case True
  have 1: "takes (plus is_digit) c (ip @ t) c t"
    using d t by (intro takes_plus) (auto simp: is_decimal_def list_all_iff)
  have "fails (Seq (lit ''.'') (plus is_digit)) t"
    using t by (intro fails_Seq fails_lit) auto
  then have "takes (opt (Seq (lit ''.'') (plus is_digit))) c t c t"
    unfolding opt_def by (intro takes_Alt2 takes_Eps)
  with 1 show ?thesis using True by (auto simp: rx_number_def dec_text_def intro: takes_Seq)
next
  case False
  have 1: "takes (plus is_digit) c (ip @ ''.'' @ fp @ t) c (''.'' @ fp @ t)"
    using d by (intro takes_plus) (auto simp: is_decimal_def list_all_iff)
  have "takes (plus is_digit) c (fp @ t) c t"
    using d t False by (intro takes_plus) (auto simp: is_decimal_def list_all_iff)
  then have "takes (opt (Seq (lit ''.'') (plus is_digit))) c (''.'' @ fp @ t) c t"
    unfolding opt_def by (intro takes_Alt1 takes_Seq [OF takes_lit])
  with 1 show ?thesis using False by (auto simp: rx_number_def dec_text_def intro: takes_Seq)
qed

lemma fails_lit_prefix: "\<not> starts_with p s \<Longrightarrow> fails (lit p) s"
  by (rule fails_lang) (auto simp: lang_lit starts_with_iff)

lemma takes_unit: "is_unit u \<Longrightarrow> takes rx_unit c (u @ CHR '','' # t) c (CHR '','' # t)"
  by (auto simp: takes_def is_unit_def micro_s_def rx_unit_def)

lemma hd_show_nat: "is_digit (hd (show_nat n @ t))"
  using digits_show_nat [of n] show_nat_nonempty [of n] by (cases "show_nat n") auto

lemma hd_dec_text: "is_decimal ip fp \<Longrightarrow> is_digit (hd (dec_text ip fp @ t))"
  by (cases ip) (auto simp: is_decimal_def dec_text_def)

lemma takes_space: "t = [] \<or> \<not> is_space (hd t) \<Longrightarrow> takes (Star is_space) c ('' '' @ t) c t"
  by (rule takes_Star) simp_all

lemma takes_digits:
  "t \<noteq> [] \<Longrightarrow> \<not> is_digit (hd t) \<Longrightarrow> takes (Grp n (plus is_digit)) c (show_nat m @ t) ((n, show_nat m) # c) t"
  by (intro takes_Grp takes_plus) (simp_all add: digits_show_nat)

text \<open>One step of a sequence of literals, optional spaces and digit groups.\<close>

lemma step_lit: "takes b c t c' u \<Longrightarrow> takes (Seq (lit p) b) c (p @ t) c' u"
  by (rule takes_Seq [OF takes_lit])

lemma step_no_space:
  "t = [] \<or> \<not> is_space (hd t) \<Longrightarrow> takes b c t c' u \<Longrightarrow> takes (Seq (Star is_space) b) c t c' u"
  by (rule takes_Seq [OF takes_Star0])

lemma step_space:
  "t = [] \<or> \<not> is_space (hd t) \<Longrightarrow> takes b c t c' u \<Longrightarrow> takes (Seq (Star is_space) b) c ('' '' @ t) c' u"
  by (rule takes_Seq [OF takes_space])

lemma step_digits:
  "t \<noteq> [] \<and> \<not> is_digit (hd t) \<Longrightarrow> takes b ((n, show_nat m) # c) t c' u
   \<Longrightarrow> takes (Seq (Grp n (plus is_digit)) b) c (show_nat m @ t) c' u"
  by (rule takes_Seq [OF takes_digits]) simp_all

lemma hd_show_nat_not_space: "\<not> is_space (hd (show_nat n @ t))"
  using hd_show_nat digit_not_space by blast

lemma hd_dec_text_not_space: "is_decimal ip fp \<Longrightarrow> \<not> is_space (hd (dec_text ip fp @ t))"
  using hd_dec_text digit_not_space by blast

lemma step_decimal:
  assumes "is_decimal ip fp" "is_unit v"
    and "takes b ((''unit'', v) # (''dur'', dec_text ip fp) # c) (CHR '','' # t) c' u"
  shows "takes (Seq (Grp ''dur'' rx_number) (Seq (Grp ''unit'' rx_unit) b)) c
           (dec_text ip fp @ v @ CHR '','' # t) c' u"
proof -
  have v: "v @ CHR '','' # t \<noteq> []" "\<not> is_digit (hd (v @ CHR '','' # t))" "hd (v @ CHR '','' # t) \<noteq> CHR ''.''"
    using assms(2) by (auto simp: is_unit_def micro_s_def)
  from assms(1) v show ?thesis
    by (rule takes_Seq [OF takes_Grp [OF takes_number]])
       (rule takes_Seq [OF takes_Grp [OF takes_unit [OF assms(2)]] assms(3)])
qed

definition line_caps :: "string \<Rightarrow> string \<Rightarrow> string \<Rightarrow> nat \<Rightarrow> nat \<Rightarrow> caps" where
  "line_caps ip fp v s r = [(''recv'', show_nat r), (''sent'', show_nat s), (''unit'', v), (''dur'', dec_text ip fp)]"

lemma takes_body:
  assumes "is_decimal ip fp" "is_unit v"
  shows "takes rx_body c (''Duration:'' @ '' '' @ dec_text ip fp @ v @ '','' @ '' '' @ ''Sent:'' @ '' ''
      @ show_nat s @ '' '' @ ''bytes'' @ '','' @ '' '' @ ''Received:'' @ '' '' @ show_nat r @ '' '' @ ''bytes'' @ t)
    (line_caps ip fp v s r @ c) t"
proof -
  have last: "takes (lit ''bytes'') (line_caps ip fp v s r @ c) (''bytes'' @ t) (line_caps ip fp v s r @ c) t"
    by (rule takes_lit)
  let ?tail = "'' '' @ ''Sent:'' @ '' '' @ show_nat s @ '' '' @ ''bytes'' @ '','' @ '' ''
      @ ''Received:'' @ '' '' @ show_nat r @ '' '' @ ''bytes'' @ t"
  have tail: "takes (seqs [Star is_space, lit '','', Star is_space,
     lit ''Sent:'', Star is_space, Grp ''sent'' (plus is_digit), Star is_space, lit ''bytes'',
     Star is_space, lit '','', Star is_space,
     lit ''Received:'', Star is_space, Grp ''recv'' (plus is_digit), Star is_space, lit ''bytes''])
    ((''unit'', v) # (''dur'', dec_text ip fp) # c) ('','' @ ?tail) (line_caps ip fp v s r @ c) t"
    unfolding seqs.simps
    apply (rule step_no_space, simp, rule step_lit)
    apply (rule step_space, simp, rule step_lit)
    apply (rule step_space, rule disjI2, rule hd_show_nat_not_space, rule step_digits, simp)
    apply (rule step_space, simp, rule step_lit)
    apply (rule step_no_space, simp, rule step_lit)
    apply (rule step_space, simp, rule step_lit)
    apply (rule step_space, rule disjI2, rule hd_show_nat_not_space, rule step_digits, simp)
    apply (rule step_space, simp)
    using last by (simp add: line_caps_def)
  show ?thesis
    unfolding rx_body_def seqs.simps
    apply (rule step_no_space, simp, rule step_lit)
    apply (rule step_space, rule disjI2, rule hd_dec_text_not_space, rule assms)
    using step_decimal [OF assms] tail by simp
qed

text \<open>The head of the line, up to the arrow, and the optional peer.\<close>

lemma takes_head:
  assumes "role = ''CLIENT'' \<or> role = ''SERVER''"
  shows "takes rx_head [] (role @ '' METRICS ->'' @ t) [(''role'', role)] t"
  using assms by (auto simp: takes_def rx_head_def plus_def)

lemma takes_METRICS_RE:
  assumes role: "role = ''CLIENT'' \<or> role = ''SERVER''" and "is_decimal ip fp" "is_unit u"
    and body: "\<And>t. takes (Seq rx_peer rx_body) c
        (p @ ''Duration: '' @ dec_text ip fp @ u @ '', Sent: '' @ show_nat s @ '' bytes, Received: '' @ show_nat r @ '' bytes'' @ t)
        (line_caps ip fp u s r @ c) t"
    and "c = [(''role'', role)]"
  shows "parse_line (role @ '' METRICS ->'' @ p @ counters_text ip fp u s r @ t)
    = Inr (Some \<lparr>ml_role = role, ml_duration_ms = dec_value ip fp * unit_ms u,
                 ml_sent_bytes = int s, ml_recv_bytes = int r\<rparr>)"
proof -
  have "takes METRICS_RE [] (role @ '' METRICS ->'' @ p @ counters_text ip fp u s r @ t) (line_caps ip fp u s r @ c) t"
    unfolding METRICS_RE_def counters_text_def
    using takes_Seq [OF takes_head [OF role]] body assms(5) by simp
  from takes_re_search [OF this] show ?thesis
    using py_float_dec [of ip fp] assms
    by (auto simp: parse_line_def group_def line_caps_def float_finite_def int_res_def unit_res_def
        unit_ms_def is_unit_def is_decimal_def list_all_iff)
qed

lemma takes_Seq_assoc: "takes (Seq a (Seq b d)) c s c' t \<Longrightarrow> takes (Seq (Seq a b) d) c s c' t"
  by (simp add: takes_def)

lemma takes_Seq_Alt1: "takes (Seq a d) c s c' t \<Longrightarrow> takes (Seq (Alt a b) d) c s c' t"
  by (simp add: takes_def)

lemma takes_peer:
  assumes "\<forall>x \<in> set u. not_comma x" and "u = [] \<or> \<not> is_space (hd u)" and "t \<noteq> [] \<and> (u = [] \<longrightarrow> \<not> is_space (hd t))"
    and "\<And>i. i < length u \<Longrightarrow> fails rx_body (drop i u @ t)" and "takes rx_body c t c' v"
  shows "takes (Seq rx_peer rx_body) c ('' '' @ u @ t) c' v"
  unfolding rx_peer_def opt_def
  using takes_Lazy_Seq [OF assms(1,4,5)] assms(2,3)
  by (intro takes_Seq_Alt1 takes_Seq_assoc step_space) (auto simp: hd_append)

text \<open>A client line in the shared format parses to its role, its duration in milliseconds
  for each of the five units, and its two byte counts, whatever text follows on the line.\<close>

lemma parse_line_client:
  assumes "is_decimal ip fp" and "is_unit u"
  shows "parse_line (print_client ip fp u s r @ t)
    = Inr (Some \<lparr>ml_role = ''CLIENT'', ml_duration_ms = dec_value ip fp * unit_ms u,
                 ml_sent_bytes = int s, ml_recv_bytes = int r\<rparr>)"
proof -
  have "takes (Seq rx_peer rx_body) [(''role'', ''CLIENT'')]
      ('' '' @ ''Duration: '' @ dec_text ip fp @ u @ '', Sent: '' @ show_nat s @ '' bytes, Received: '' @ show_nat r @ '' bytes'' @ t)
      (line_caps ip fp u s r @ [(''role'', ''CLIENT'')]) t" for t
    using takes_peer [of "[]", OF _ _ _ _ takes_body [OF assms]] by simp
  from takes_METRICS_RE [OF _ assms this refl] show ?thesis by (simp add: print_client_def)
qed

lemma parse_line_client_witness:
  "parse_line (''CLIENT METRICS -> Duration: 12.5ms, Sent: 310 bytes, Received: 42 bytes (ok)'')
    = Inr (Some \<lparr>ml_role = ''CLIENT'', ml_duration_ms = dec_value ''12'' ''5'' * unit_ms ''ms'',
                 ml_sent_bytes = int 310, ml_recv_bytes = int 42\<rparr>)"
proof -
  have "is_decimal ''12'' ''5''" "is_unit ''ms''" by (simp_all add: is_decimal_def is_unit_def)
  from parse_line_client [OF this, of 310 42 "'' (ok)''"] show ?thesis
    by (simp add: print_client_def counters_text_def dec_text_def show_nat.simps)
qed

text \<open>A server line has the \<open>Debug\<close> text of the peer before the duration: no comma (it would end
  the optional part of the pattern), no blank and no capital D (an IPv4 or IPv6 socket address,
  also inside \<open>Some(...)\<close>).\<close>

definition peer_text :: "string \<Rightarrow> bool" where
  "peer_text p \<longleftrightarrow> p \<noteq> [] \<and> (\<forall>c \<in> set p. not_comma c \<and> \<not> is_space c \<and> c \<noteq> CHR ''D'')"

lemma fails_rx_body: "x \<noteq> CHR ''D'' \<Longrightarrow> \<not> is_space x \<Longrightarrow> fails rx_body (x # s)"
  by (simp add: fails_def rx_body_def)

lemma fails_rx_body_drop:
  assumes "\<forall>c \<in> set p. \<not> is_space c \<and> c \<noteq> CHR ''D''" and "i < length p"
  shows "fails rx_body (drop i p @ t)"
proof -
  have "drop i p = p ! i # drop (Suc i) p" using assms(2) by (rule Cons_nth_drop_Suc [symmetric])
  moreover have "p ! i \<in> set p" using assms(2) by simp
  ultimately show ?thesis using assms(1) fails_rx_body by simp
qed

text \<open>A server line with its peer address parses to its role, duration and byte counts.\<close>

lemma parse_line_server:
  assumes "is_decimal ip fp" and "is_unit u" and p: "peer_text p"
  shows "parse_line (print_server p ip fp u s r @ t)
    = Inr (Some \<lparr>ml_role = ''SERVER'', ml_duration_ms = dec_value ip fp * unit_ms u,
                 ml_sent_bytes = int s, ml_recv_bytes = int r\<rparr>)"
proof -
  have "takes (Seq rx_peer rx_body) [(''role'', ''SERVER'')]
      ((('' '' @ p) @ '' '') @ ''Duration: '' @ dec_text ip fp @ u @ '', Sent: '' @ show_nat s @ '' bytes, Received: '' @ show_nat r @ '' bytes'' @ t)
      (line_caps ip fp u s r @ [(''role'', ''SERVER'')]) t" for t
  proof -
    let ?b = "''Duration: '' @ dec_text ip fp @ u @ '', Sent: '' @ show_nat s @ '' bytes, Received: '' @ show_nat r @ '' bytes'' @ t"
    have b: "takes rx_body [(''role'', ''SERVER'')] ('' '' @ ?b) (line_caps ip fp u s r @ [(''role'', ''SERVER'')]) t"
      using takes_body [OF assms(1,2), of _ s r t] unfolding rx_body_def seqs.simps
      by (simp add: takes_def)
    have "hd p \<in> set p" using p by (simp add: peer_text_def)
    then have "takes (Seq rx_peer rx_body) [(''role'', ''SERVER'')] ('' '' @ p @ '' '' @ ?b)
        (line_caps ip fp u s r @ [(''role'', ''SERVER'')]) t"
      using p b by (intro takes_peer fails_rx_body_drop) (auto simp: peer_text_def)
    then show ?thesis by simp
  qed
  from takes_METRICS_RE [OF _ assms(1,2) this refl] show ?thesis by (simp add: print_server_def)
qed

lemma parse_line_server_witness:
  "parse_line (''SERVER METRICS -> 10.0.0.2:41234 Duration: 900us, Sent: 7 bytes, Received: 11 bytes'')
    = Inr (Some \<lparr>ml_role = ''SERVER'', ml_duration_ms = dec_value ''900'' [] * unit_ms ''us'',
                 ml_sent_bytes = int 7, ml_recv_bytes = int 11\<rparr>)"
proof -
  have "is_decimal ''900'' []" "is_unit ''us''" "peer_text ''10.0.0.2:41234''"
    by (simp_all add: is_decimal_def is_unit_def peer_text_def not_comma_def is_space_def)
  from parse_line_server [OF this, of 7 11 "[]"] show ?thesis
    by (simp add: print_server_def counters_text_def dec_text_def show_nat.simps)
qed

section \<open>Lines with text before the duration\<close>

lemma lang_rx_body: "v \<in> lang rx_body \<Longrightarrow> \<exists>sp w. v = sp @ ''Duration:'' @ w \<and> (\<forall>c \<in> set sp. is_space c)"
  unfolding rx_body_def seqs.simps lang.simps lang_lit by blast

lemma lang_rx_head: "v \<in> lang rx_head \<Longrightarrow> \<exists>w. v = w @ ''>''"
  unfolding rx_head_def seqs.simps lang.simps(5) lang_lit
  by clarsimp

lemma no_comma_spaces: "\<forall>c \<in> set u. is_space c \<Longrightarrow> CHR '','' \<notin> set u"
  by (metis is_space_simps(5))

lemma lang_rx_peer: "v \<in> lang rx_peer \<Longrightarrow> CHR '','' \<notin> set v"
proof -
  have "CHR '','' \<notin> set u" if "\<forall>c \<in> set u. not_comma c" for u
    using that by (metis not_comma_def)
  moreover assume "v \<in> lang rx_peer"
  ultimately show ?thesis unfolding rx_peer_def lang_opt lang.simps
    using no_comma_spaces by fastforce
qed

text \<open>The optional part of the pattern cannot cross a comma, so a line whose text between
  the arrow and its first comma does not hold \<open>Duration:\<close> is not a metrics line.\<close>

lemma parse_line_comma_first:
  assumes "CHR ''>'' \<notin> set h" and "CHR ''>'' \<notin> set m" and "CHR ''>'' \<notin> set t"
    and "\<not> is_infix ''Duration:'' m"
  shows "parse_line (h @ CHR ''>'' # m @ CHR '','' # t) = Inr None"
proof -
  have "\<not> (\<exists>u v w. h @ CHR ''>'' # m @ CHR '','' # t = u @ v @ w \<and> v \<in> lang METRICS_RE)"
  proof clarify
    fix u v w
    assume eq: "h @ CHR ''>'' # m @ CHR '','' # t = u @ v @ w" and "v \<in> lang METRICS_RE"
    then obtain h' p b where v: "v = h' @ p @ b" "h' \<in> lang rx_head" "p \<in> lang rx_peer" "b \<in> lang rx_body"
      by (auto simp: METRICS_RE_def)
    obtain h2 where h2: "h' = h2 @ ''>''" using lang_rx_head [OF v(2)] by blast
    obtain sp b2 where b: "b = sp @ ''Duration:'' @ b2" "\<forall>c \<in> set sp. is_space c"
      using lang_rx_body [OF v(4)] by blast
    have "h @ CHR ''>'' # m @ CHR '','' # t = (u @ h2) @ CHR ''>'' # (p @ b @ w)"
      using eq by (simp add: v(1) h2)
    from append_Cons_eq_iff [THEN iffD1, OF _ _ this]
    have "m @ CHR '','' # t = p @ b @ w" using assms(1-3) by simp
    then have "m @ CHR '','' # t = (p @ sp @ ''Duration:'') @ b2 @ w" by (simp only: b(1) append_assoc)
    from prefix_before [OF this] obtain m2 where "m = (p @ sp @ ''Duration:'') @ m2"
      using lang_rx_peer [OF v(3)] no_comma_spaces [OF b(2)] by auto
    then have "m = (p @ sp) @ ''Duration:'' @ m2" by simp
    then have "is_infix ''Duration:'' m" unfolding is_infix_iff by blast
    with assms(4) show False by simp
  qed
  then have "re_search METRICS_RE (h @ CHR ''>'' # m @ CHR '','' # t) = None"
    using re_search_iff [of METRICS_RE "h @ CHR ''>'' # m @ CHR '','' # t"] by blast
  then show ?thesis by (simp add: parse_line_def)
qed

lemma no_gt_dec_text: "is_decimal ip fp \<Longrightarrow> CHR ''>'' \<notin> set (dec_text ip fp)"
  by (auto simp: is_decimal_def dec_text_def list_all_iff is_digit_def)

lemma no_gt_show_nat: "CHR ''>'' \<notin> set (show_nat n)"
  using digits_show_nat [of n] by (auto simp: is_digit_def)

lemma no_gt_counters: "is_decimal ip fp \<Longrightarrow> is_unit u \<Longrightarrow> CHR ''>'' \<notin> set (counters_text ip fp u s r)"
  by (auto simp: counters_text_def no_gt_dec_text no_gt_show_nat is_unit_def micro_s_def)

text \<open>The metrics lines of the mTLS and EDHOC clients, which print the protocol before the
  duration, are not recognised by the parser.\<close>

lemma parse_line_rejects_tagged:
  assumes "proto = ''mTLS/TCP'' \<or> proto = ''EDHOC/TCP''" and d: "is_decimal ip fp" "is_unit u"
    and "CHR ''>'' \<notin> set extra"
  shows "parse_line (print_client_tagged proto ip fp u s r extra) = Inr None"
proof -
  have "\<not> is_infix ''Duration:'' ('' Protocol: '' @ proto)" "CHR ''>'' \<notin> set ('' Protocol: '' @ proto)"
    using assms(1) by auto
  then have "parse_line (''CLIENT METRICS -'' @ CHR ''>'' # ('' Protocol: '' @ proto) @ CHR '','' # '' '' @ counters_text ip fp u s r @ '', '' @ extra) = Inr None"
    using assms(4) no_gt_counters [OF d]
    by (intro parse_line_comma_first) (simp_all del: is_infix.simps)
  then show ?thesis by (simp add: print_client_tagged_def)
qed

lemma line_text_digits: "\<forall>c \<in> set ds. is_digit c \<Longrightarrow> line_text ds"
  by (auto simp: line_text_def is_digit_def is_linebreak_def)

lemma line_text_tagged:
  assumes "proto = ''mTLS/TCP'' \<or> proto = ''EDHOC/TCP''" and "is_decimal ip fp" and "is_unit u"
    and "line_text extra"
  shows "line_text (print_client_tagged proto ip fp u s r extra)"
proof -
  have "line_text (show_nat n)" for n using digits_show_nat by (rule line_text_digits)
  moreover have "line_text (dec_text ip fp)"
    using assms(2) by (auto simp: is_decimal_def dec_text_def list_all_iff is_linebreak_def line_text_digits)
  moreover have "line_text u" using assms(3) by (auto simp: is_unit_def micro_s_def is_linebreak_def)
  moreover have "line_text proto" using assms(1) by (auto simp: is_linebreak_def)
  ultimately show ?thesis using assms(4)
    by (simp add: print_client_tagged_def counters_text_def is_linebreak_def)
qed

section \<open>Totality and shape\<close>

definition wf_metrics_line :: "metrics_line \<Rightarrow> bool" where
  "wf_metrics_line m \<longleftrightarrow> ml_role m \<in> {''CLIENT'', ''SERVER''} \<and> 0 \<le> ml_duration_ms m
     \<and> 0 \<le> ml_sent_bytes m \<and> 0 \<le> ml_recv_bytes m"

lemma glang_seqs: "glang (seqs rs) n = (\<Union>r \<in> set rs. glang r n)"
  by (induction rs rule: seqs.induct) auto

lemma req_groups_seqs: "req_groups (seqs rs) = (\<Union>r \<in> set rs. req_groups r)"
  by (induction rs rule: seqs.induct) auto

lemma req_groups_METRICS_RE: "{''role'', ''dur'', ''unit'', ''sent'', ''recv''} \<subseteq> req_groups METRICS_RE"
  by (simp add: METRICS_RE_def rx_head_def rx_body_def req_groups_seqs)

lemma glang_METRICS_RE:
  "glang METRICS_RE ''role'' = {''CLIENT'', ''SERVER''}"
  "glang METRICS_RE ''dur'' = lang rx_number"
  "glang METRICS_RE ''unit'' = {u. is_unit u}"
  "glang METRICS_RE ''sent'' = lang (plus is_digit)"
  "glang METRICS_RE ''recv'' = lang (plus is_digit)"
  by (auto simp: METRICS_RE_def rx_head_def rx_peer_def rx_body_def glang_seqs rx_number_def
      rx_unit_def lang_lit is_unit_def)

lemma lang_rx_number: "v \<in> lang rx_number \<Longrightarrow> \<exists>ip fp. v = dec_text ip fp \<and> is_decimal ip fp"
proof -
  assume "v \<in> lang rx_number"
  then obtain ip w where v: "v = ip @ w" "ip \<noteq> []" "\<forall>c \<in> set ip. is_digit c"
      and "w = [] \<or> (\<exists>fp. w = ''.'' @ fp \<and> fp \<noteq> [] \<and> (\<forall>c \<in> set fp. is_digit c))"
    by (auto simp: rx_number_def lang_opt lang_plus lang_lit)
  then consider "w = []" | fp where "w = ''.'' @ fp" "fp \<noteq> []" "\<forall>c \<in> set fp. is_digit c" by blast
  then show ?thesis
  proof cases
    case 1
    then have "v = dec_text ip [] \<and> is_decimal ip []" using v by (simp add: dec_text_def is_decimal_def list_all_iff)
    then show ?thesis by blast
  next
    case 2
    then have "v = dec_text ip fp \<and> is_decimal ip fp" using v by (simp add: dec_text_def is_decimal_def list_all_iff)
    then show ?thesis by blast
  qed
qed

lemma float_finite_number: "v \<in> lang rx_number \<Longrightarrow> \<exists>x \<ge> 0. float_finite v = Inr x"
proof -
  assume "v \<in> lang rx_number"
  then obtain ip fp where "v = dec_text ip fp" "is_decimal ip fp" using lang_rx_number by blast
  then have "float_finite v = Inr (dec_value ip fp)"
    using py_float_dec [of ip fp] by (simp add: float_finite_def is_decimal_def list_all_iff)
  moreover have "0 \<le> dec_value ip fp" by (simp add: dec_value_def)
  ultimately show ?thesis by blast
qed

lemma int_res_digits: "v \<in> lang (plus is_digit) \<Longrightarrow> \<exists>i \<ge> 0. int_res v = Inr i"
  using py_int_digits [of v] by (auto simp: lang_plus int_res_def)

lemma unit_res_unit: "is_unit u \<Longrightarrow> 0 \<le> unit_ms u \<and> unit_res u = Inr (unit_ms u)"
  by (auto simp: is_unit_def unit_res_def unit_ms_def micro_s_def)

lemma parse_line_wf:
  "parse_line line = Inr None \<or> (\<exists>m. parse_line line = Inr (Some m) \<and> wf_metrics_line m)"
proof (cases "re_search METRICS_RE line")
  case None
  then show ?thesis by (simp add: parse_line_def)
next
  case (Some a)
  then obtain pre c v where a: "re_search METRICS_RE line = Some (pre, c, v)" by (cases a) auto
  then obtain t where ex: "explains METRICS_RE [] t c v" using re_search_sound by blast
  have g: "group n c \<in> glang METRICS_RE n" if "n \<in> {''role'', ''dur'', ''unit'', ''sent'', ''recv''}" for n
    using group_in_glang [OF ex, of n] that req_groups_METRICS_RE by blast
  have "group ''dur'' c \<in> lang rx_number" using g [of "''dur''"] by (simp add: glang_METRICS_RE)
  then obtain x where x: "x \<ge> 0" "float_finite (group ''dur'' c) = Inr x" using float_finite_number by blast
  have "is_unit (group ''unit'' c)" using g [of "''unit''"] by (simp add: glang_METRICS_RE)
  then obtain u where u: "u \<ge> 0" "unit_res (group ''unit'' c) = Inr u" using unit_res_unit by blast
  have "group ''sent'' c \<in> lang (plus is_digit)" using g [of "''sent''"] by (simp add: glang_METRICS_RE)
  then obtain i where i: "i \<ge> 0" "int_res (group ''sent'' c) = Inr i" using int_res_digits by blast
  have "group ''recv'' c \<in> lang (plus is_digit)" using g [of "''recv''"] by (simp add: glang_METRICS_RE)
  then obtain j where j: "j \<ge> 0" "int_res (group ''recv'' c) = Inr j" using int_res_digits by blast
  have "group ''role'' c \<in> {''CLIENT'', ''SERVER''}" using g [of "''role''"] by (simp add: glang_METRICS_RE)
  then show ?thesis using a x u i j by (simp add: parse_line_def wf_metrics_line_def del: not_None_eq)
qed

text \<open>The parser raises on no line at all: every group a match sets has a text that the
  conversions accept. What it returns has one of the two roles, a duration and byte
  counts that are not negative.\<close>

lemma parse_line_total:
  "parse_line line = Inr None \<or> (\<exists>m. parse_line line = Inr (Some m) \<and> wf_metrics_line m)"
  by (rule parse_line_wf)

lemma parse_line_Inr: "\<exists>m. parse_line l = Inr m"
  by (metis parse_line_wf)

definition line_metrics :: "string \<Rightarrow> metrics_line option" where
  "line_metrics l = (case parse_line l of Inr m \<Rightarrow> m | Inl _ \<Rightarrow> None)"

lemma parse_line_line_metrics: "parse_line l = Inr (line_metrics l)"
  using parse_line_Inr [of l] by (auto simp: line_metrics_def)

text \<open>The stream parser returns the metrics of exactly the lines that have some, in order.\<close>

lemma parse_stream_filter: "parse_stream ls = Inr (List.map_filter line_metrics ls)"
  by (induction ls) (auto simp: parse_line_line_metrics map_filter_simps split: option.splits)

text \<open>The scan for a client's metrics agrees with the stream parser: it is the first parsed
  line whose role is the client's, if there is one.\<close>

lemma first_client_metrics_find:
  "first_client_metrics text =
     Inr (find (\<lambda>m. ml_role m = ''CLIENT'') (List.map_filter line_metrics (splitlines text)))"
proof -
  have "first_client_in ls = Inr (find (\<lambda>m. ml_role m = ''CLIENT'') (List.map_filter line_metrics ls))" for ls
    by (induction ls) (auto simp: parse_line_line_metrics map_filter_simps split: option.splits)
  then show ?thesis by (simp add: first_client_metrics_def)
qed

end
