(* ===== verification/Runner.thy ===== *)
theory Runner
  imports Metrics
begin

text \<open>
  The process runner, \<open>benchmarks/lib/runner.py\<close>: addresses, waiting for a port, the life
  cycle of a server process, client runs one by one and concurrently, and the stamping of
  working directories. What the operating system does (does the port accept, does the
  process end on a signal, what does a client print) is a parameter. Shown here:
  waiting terminates when the clock advances, a started server is the only process left
  running and a failed start leaves none, a stopped server is dead, the results of concurrent
  clients do not depend on the order in which they finish, and stamped directories are separate
  fresh copies. The locale \<open>server_host\<close> is the interface through which callers use servers.
\<close>

section \<open>Ports\<close>

definition parse_addr :: "string \<Rightarrow> (string \<times> int) res" where
  "parse_addr addr = (case rpartition_at (CHR '':'') addr of (host, _, port) \<Rightarrow>
     (case py_int port of
        Some p \<Rightarrow> Inr (if host \<noteq> [] then host else ''127.0.0.1'', p)
      | None \<Rightarrow> Inl (ValueError port)))"

definition dial_host :: "string \<Rightarrow> string" where
  "dial_host host = (if host \<in> {''0.0.0.0'', ''::'', []} then ''127.0.0.1'' else host)"

text \<open>The waiting loop reads the clock before each attempt; \<open>clock k\<close> is its \<open>k\<close>-th reading and
  \<open>accepts k\<close> whether the attempt after it connects. \<open>None\<close> is a loop that never ends.\<close>

partial_function (option) wait_loop :: "(nat \<Rightarrow> real) \<Rightarrow> (nat \<Rightarrow> bool) \<Rightarrow> real \<Rightarrow> string \<Rightarrow> nat \<Rightarrow> nat res option" where
  "wait_loop clock accepts deadline addr k =
     (if clock k < deadline
      then if accepts k then Some (Inr k) else wait_loop clock accepts deadline addr (Suc k)
      else Some (Inl (TimeoutError addr)))"

definition wait_port_open :: "real \<Rightarrow> (nat \<Rightarrow> real) \<Rightarrow> (nat \<Rightarrow> bool) \<Rightarrow> string \<Rightarrow> real \<Rightarrow> nat res option" where
  "wait_port_open now clock accepts addr timeout = (case parse_addr addr of
       Inl e \<Rightarrow> Some (Inl e)
     | Inr _ \<Rightarrow> wait_loop clock accepts (now + timeout) addr 0)"

section \<open>Servers\<close>

text \<open>How a spawned process behaves: the outcome of waiting for its port, whether it has
  already ended when it is to be stopped, whether its process group is gone, whether it
  ends within two seconds of \<open>SIGTERM\<close>, and whether it ends within a second of \<open>SIGKILL\<close>.\<close>

record behaviour =
  bh_wait :: "unit res"
  bh_exited :: bool
  bh_gone :: bool
  bh_term :: bool
  bh_kill :: bool

datatype sig = SIGTERM | SIGKILL

datatype event = Spawned nat string "string list" | Signalled nat sig

record os =
  next_pid :: nat
  running :: "nat list"
  script :: "nat \<Rightarrow> behaviour"
  can_spawn :: "string \<Rightarrow> bool"
  os_log :: "event list"

record server_handle =
  sh_pid :: nat
  sh_addr :: string
  sh_log :: string
  sh_workdir :: string

definition spawn :: "string \<Rightarrow> string list \<Rightarrow> (os, nat) eff" where
  "spawn binary args w =
     (if can_spawn w binary
      then (Inr (next_pid w), w\<lparr>next_pid := Suc (next_pid w), running := next_pid w # running w,
              os_log := os_log w @ [Spawned (next_pid w) binary args]\<rparr>)
      else (Inl (FileNotFoundError binary), w))"

definition process_ended :: "nat \<Rightarrow> os \<Rightarrow> os" where
  "process_ended pid w = w\<lparr>running := removeAll pid (running w)\<rparr>"

definition send_signal :: "nat \<Rightarrow> sig \<Rightarrow> os \<Rightarrow> os" where
  "send_signal pid s w = w\<lparr>os_log := os_log w @ [Signalled pid s]\<rparr>"

definition stop_server :: "server_handle \<Rightarrow> (os, unit) eff" where
  "stop_server h w =
     (let pid = sh_pid h; b = script w pid in
      if bh_exited b then (Inr (), process_ended pid w)
      else if bh_gone b then (Inr (), process_ended pid w)
      else let w1 = send_signal pid SIGTERM w in
        if bh_term b then (Inr (), process_ended pid w1)
        else let w2 = send_signal pid SIGKILL w1 in
          (Inr (), if bh_kill b then process_ended pid w2 else w2))"

text \<open>The attempts of \<open>start_server\<close>: \<open>n\<close> are left. Each spawns the server and waits for its port;
  if that raises, the process is stopped before the next attempt. The text of the final exception
  is shortened to the binary and the address.\<close>

fun start_attempts :: "nat \<Rightarrow> string \<Rightarrow> string list \<Rightarrow> string \<Rightarrow> string \<Rightarrow> string \<Rightarrow> (os, server_handle) eff" where
  "start_attempts 0 binary args addr workdir log_path =
     raise (RuntimeError (''failed to start '' @ binary @ '' on '' @ addr))"
| "start_attempts (Suc n) binary args addr workdir log_path =
     andthen (spawn binary args) (\<lambda>pid.
       let h = \<lparr>sh_pid = pid, sh_addr = addr, sh_log = log_path, sh_workdir = workdir\<rparr> in
       (\<lambda>w. case bh_wait (script w pid) of
          Inr _ \<Rightarrow> (Inr h, w)
        | Inl _ \<Rightarrow> andthen (stop_server h)
            (\<lambda>_. start_attempts n binary args addr workdir log_path) w))"

definition start_server :: "nat \<Rightarrow> string \<Rightarrow> string list \<Rightarrow> string \<Rightarrow> string \<Rightarrow> string \<Rightarrow> (os, server_handle) eff" where
  "start_server bind_retries = start_attempts bind_retries"

section \<open>Clients\<close>

record client_result =
  cr_iteration :: nat
  cr_client_id :: nat
  cr_success :: bool
  cr_duration_ms :: "real option"
  cr_sent_bytes :: "int option"
  cr_recv_bytes :: "int option"
  cr_stderr_tail :: string
  cr_elapsed_wall_s :: real

text \<open>One client process: it runs into the timeout, cannot be started, or exits with a code, its
  standard output and error.\<close>

datatype client_outcome = ClientTimeout | ClientRaise pyerr | ClientExit int string string

text \<open>\<open>timeout\<close> is the printed form of the time limit, \<open>elapsed\<close> the wall time measured.\<close>

definition run_client_once :: "string \<Rightarrow> nat \<Rightarrow> nat \<Rightarrow> client_outcome \<Rightarrow> real \<Rightarrow> client_result res" where
  "run_client_once timeout iteration client_id oc elapsed = (case oc of
       ClientTimeout \<Rightarrow> Inr \<lparr>cr_iteration = iteration, cr_client_id = client_id, cr_success = False,
         cr_duration_ms = None, cr_sent_bytes = None, cr_recv_bytes = None,
         cr_stderr_tail = ''TIMEOUT after '' @ timeout @ ''s'', cr_elapsed_wall_s = elapsed\<rparr>
     | ClientRaise e \<Rightarrow> Inl e
     | ClientExit rc out err \<Rightarrow> bind_res (first_client_metrics out) (\<lambda>metrics. case metrics of
           None \<Rightarrow> Inr \<lparr>cr_iteration = iteration, cr_client_id = client_id, cr_success = False,
             cr_duration_ms = None, cr_sent_bytes = None, cr_recv_bytes = None,
             cr_stderr_tail = last_n 500 (if err \<noteq> [] then err else out), cr_elapsed_wall_s = elapsed\<rparr>
         | Some m \<Rightarrow> if rc \<noteq> 0
             then Inr \<lparr>cr_iteration = iteration, cr_client_id = client_id, cr_success = False,
               cr_duration_ms = Some (ml_duration_ms m), cr_sent_bytes = Some (ml_sent_bytes m),
               cr_recv_bytes = Some (ml_recv_bytes m),
               cr_stderr_tail = last_n 500 (if err \<noteq> [] then err else out), cr_elapsed_wall_s = elapsed\<rparr>
             else Inr \<lparr>cr_iteration = iteration, cr_client_id = client_id, cr_success = True,
               cr_duration_ms = Some (ml_duration_ms m), cr_sent_bytes = Some (ml_sent_bytes m),
               cr_recv_bytes = Some (ml_recv_bytes m), cr_stderr_tail = [], cr_elapsed_wall_s = elapsed\<rparr>))"

definition exception_result :: "(pyerr \<Rightarrow> string) \<Rightarrow> nat \<Rightarrow> pyerr \<Rightarrow> client_result" where
  "exception_result show_err i e = \<lparr>cr_iteration = 0, cr_client_id = i, cr_success = False,
     cr_duration_ms = None, cr_sent_bytes = None, cr_recv_bytes = None,
     cr_stderr_tail = ''runner exception: '' @ show_err e, cr_elapsed_wall_s = 0\<rparr>"

definition collect_result :: "(pyerr \<Rightarrow> string) \<Rightarrow> nat \<Rightarrow> client_result res \<Rightarrow> client_result" where
  "collect_result show_err i r = (case r of Inr x \<Rightarrow> x | Inl e \<Rightarrow> exception_result show_err i e)"

text \<open>\<open>run i\<close> is the outcome of the task of client \<open>i\<close>, which runs once, and \<open>order\<close> the order in which
  the tasks complete. A slot of the list that no task filled is \<open>None\<close>.\<close>

definition run_clients_concurrent :: "(pyerr \<Rightarrow> string) \<Rightarrow> (nat \<Rightarrow> client_result res) \<Rightarrow> nat \<Rightarrow> int option
    \<Rightarrow> nat list \<Rightarrow> client_result option list res" where
  "run_clients_concurrent show_err run n_clients max_workers order =
     (let workers = (case max_workers of
          Some k \<Rightarrow> if k \<noteq> 0 then k else min (int n_clients) 64
        | None \<Rightarrow> min (int n_clients) 64)
      in if workers \<le> 0 then Inl (ValueError ''max_workers must be greater than 0'')
         else Inr (fold (\<lambda>i results. results[i := Some (collect_result show_err i (run i))]) order
                     (replicate n_clients None)))"

definition run_clients_sequential :: "(nat \<Rightarrow> client_result res) \<Rightarrow> nat \<Rightarrow> client_result list res" where
  "run_clients_sequential run runs = map_res run [0..<runs]"

section \<open>Working directories\<close>

text \<open>A file system: each directory path is absent or holds a tree of files.\<close>

type_synonym tree = "string \<Rightarrow> string option"
type_synonym fs = "string \<Rightarrow> tree option"

definition stamp_name :: "string \<Rightarrow> string \<Rightarrow> nat \<Rightarrow> string" where
  "stamp_name parent prefix i = parent @ ''/'' @ prefix @ ''_'' @ zero_pad 3 (show_nat i)"

definition stamp_one :: "bool \<Rightarrow> string \<Rightarrow> string \<Rightarrow> (fs, string) eff" where
  "stamp_one use_copy template d w =
     (let w1 = w(d := None) in
      if use_copy then (case w1 template of
          None \<Rightarrow> (Inl (FileNotFoundError template), w1)
        | Some t \<Rightarrow> (Inr d, w1(d \<mapsto> t)))
      else (Inr d, w1(d \<mapsto> Map.empty)))"

fun stamp_all :: "bool \<Rightarrow> string \<Rightarrow> string list \<Rightarrow> (fs, string list) eff" where
  "stamp_all use_copy template [] = ret []"
| "stamp_all use_copy template (d # ds) =
     andthen (stamp_one use_copy template d) (\<lambda>x.
     andthen (stamp_all use_copy template ds) (\<lambda>xs. ret (x # xs)))"

definition stamp_workdirs :: "string option \<Rightarrow> string \<Rightarrow> nat \<Rightarrow> string \<Rightarrow> (fs, string list) eff" where
  "stamp_workdirs template parent n prefix w =
     (let w0 = (if w parent = None then w(parent \<mapsto> Map.empty) else w);
          ds = map (stamp_name parent prefix) [0..<n]
      in case template of
           None \<Rightarrow> stamp_all False [] ds w0
         | Some t \<Rightarrow> stamp_all (w0 t \<noteq> None) t ds w0)"

section \<open>Waiting terminates\<close>

lemma wait_loop_ends:
  assumes "clock N \<ge> deadline" and "k \<le> N"
  shows "\<exists>r. wait_loop clock accepts deadline addr k = Some r
    \<and> (\<forall>j. r = Inr j \<longleftrightarrow> k \<le> j \<and> accepts j \<and> (\<forall>i \<in> {k..j}. clock i < deadline) \<and> (\<forall>i \<in> {k..<j}. \<not> accepts i))
    \<and> (\<forall>e. r = Inl e \<longrightarrow> e = TimeoutError addr)"
  using assms(2)
proof (induction "N - k" arbitrary: k)
  case 0
  then have "\<not> clock k < deadline" using assms(1) by simp
  then show ?case by (subst wait_loop.simps) force
next
  case (Suc n)
  consider (late) "\<not> clock k < deadline" | (yes) "clock k < deadline" "accepts k"
    | (no) "clock k < deadline" "\<not> accepts k" by blast
  then show ?case
  proof cases
    case late
    then show ?thesis by (subst wait_loop.simps) force
  next
    case yes
    have "(k = j) = (k \<le> j \<and> accepts j \<and> (\<forall>i \<in> {k..j}. clock i < deadline) \<and> (\<forall>i \<in> {k..<j}. \<not> accepts i))" for j
      using yes by (auto simp: le_less)
    then show ?thesis using yes by (subst wait_loop.simps) auto
  next
    case no
    have "n = N - Suc k" and "Suc k \<le> N" using Suc.hyps(2) by simp_all
    from Suc.hyps(1) [OF this] obtain r where r: "wait_loop clock accepts deadline addr (Suc k) = Some r"
      "\<And>j. r = Inr j \<longleftrightarrow> Suc k \<le> j \<and> accepts j \<and> (\<forall>i \<in> {Suc k..j}. clock i < deadline) \<and> (\<forall>i \<in> {Suc k..<j}. \<not> accepts i)"
      "\<And>e. r = Inl e \<Longrightarrow> e = TimeoutError addr" by blast
    have "(Suc k \<le> j \<and> accepts j \<and> (\<forall>i \<in> {Suc k..j}. clock i < deadline) \<and> (\<forall>i \<in> {Suc k..<j}. \<not> accepts i))
        = (k \<le> j \<and> accepts j \<and> (\<forall>i \<in> {k..j}. clock i < deadline) \<and> (\<forall>i \<in> {k..<j}. \<not> accepts i))" for j
      using no by (metis Suc_leD Suc_leI atLeastAtMost_iff atLeastLessThan_iff le_antisym not_less_eq_eq order_refl)
    then show ?thesis using r no by (subst wait_loop.simps) simp
  qed
qed

lemma clock_passes:
  fixes clock :: "nat \<Rightarrow> real"
  assumes "0 < \<delta>" and "\<And>k. clock k + \<delta> \<le> clock (Suc k)"
  shows "\<exists>N. deadline \<le> clock N"
proof -
  have "clock 0 + real k * \<delta> \<le> clock k" for k
  proof (induction k)
    case (Suc k)
    then show ?case using assms(2) [of k] by (simp add: algebra_simps)
  qed simp
  moreover obtain N :: nat where "(deadline - clock 0) / \<delta> < real N" using reals_Archimedean2 by blast
  then have "deadline - clock 0 < real N * \<delta>" using assms(1) by (simp add: divide_less_eq)
  moreover have "clock 0 + real N * \<delta> \<le> clock N" using calculation(1) by blast
  ultimately show ?thesis by (intro exI [of _ N]) linarith
qed

lemma clock_before:
  fixes clock :: "nat \<Rightarrow> real"
  assumes "0 < \<delta>" and "\<And>k. clock k + \<delta> \<le> clock (Suc k)" and "i \<le> j"
  shows "clock i \<le> clock j"
  using assms(3)
proof (induction j)
  case (Suc j)
  then show ?case using assms(1) assms(2) [of j] by (cases "i = Suc j") auto
qed simp

text \<open>C40: if each round of the loop takes at least some time, waiting ends. It succeeds with the
  first attempt that connects if the clock has not reached the deadline by then, and raises
  the timeout otherwise.\<close>

theorem wait_port_open_terminates:
  assumes "0 < \<delta>" and "\<And>k. clock k + \<delta> \<le> clock (Suc k)" and "parse_addr addr = Inr hp"
  shows "\<exists>r. wait_port_open now clock accepts addr timeout = Some r
    \<and> (\<forall>j. r = Inr j \<longleftrightarrow> accepts j \<and> clock j < now + timeout \<and> (\<forall>i < j. \<not> accepts i))
    \<and> (\<forall>e. r = Inl e \<longrightarrow> e = TimeoutError addr)"
proof -
  obtain N where N: "now + timeout \<le> clock N" using clock_passes [of \<delta> clock] assms(1,2) by blast
  from wait_loop_ends [of "now + timeout" clock N 0 accepts addr, OF N] obtain r where
    r: "wait_loop clock accepts (now + timeout) addr 0 = Some r"
      "\<forall>j. r = Inr j \<longleftrightarrow> accepts j \<and> (\<forall>i \<in> {0..j}. clock i < now + timeout) \<and> (\<forall>i \<in> {0..<j}. \<not> accepts i)"
      "\<forall>e. r = Inl e \<longrightarrow> e = TimeoutError addr" by auto
  have "(\<forall>i \<in> {0..j}. clock i < now + timeout) \<longleftrightarrow> clock j < now + timeout" for j
    using clock_before [of \<delta> clock _ j] assms(1,2) by (fastforce intro: le_less_trans)
  then show ?thesis using r assms(3) by (auto simp: wait_port_open_def)
qed

lemma wait_port_open_terminates_witness:
  "\<exists>r. wait_port_open 0 (\<lambda>k. real k) (\<lambda>k. k = 3) ''localhost:80'' 10 = Some r \<and> r = Inr 3"
proof -
  have "parse_addr ''localhost:80'' = Inr (''localhost'', 80)" by code_simp
  from wait_port_open_terminates [of 1 real "''localhost:80''" _ 0 "\<lambda>k. k = 3" 10, OF _ _ this]
  show ?thesis by fastforce
qed

section \<open>The life cycle of servers\<close>

text \<open>The interface between the runner and its callers: starting adds one live server, a failed
  start leaves none behind, and stopping removes exactly the server stopped.\<close>

locale server_host =
  fixes start :: "'a \<Rightarrow> ('w, 'h) eff"
    and stop :: "'h \<Rightarrow> ('w, unit) eff"
    and pid_of :: "'h \<Rightarrow> nat"
    and live :: "'w \<Rightarrow> nat set"
    and inv :: "'w \<Rightarrow> bool"
  assumes start_ok: "inv w \<Longrightarrow> start a w = (Inr h, w') \<Longrightarrow>
      inv w' \<and> pid_of h \<notin> live w \<and> live w' = insert (pid_of h) (live w)"
    and start_fails: "inv w \<Longrightarrow> start a w = (Inl e, w') \<Longrightarrow> inv w' \<and> live w' = live w"
    and stop_removes: "inv w \<Longrightarrow> stop h w = (r, w') \<Longrightarrow> r = Inr () \<and> inv w' \<and> live w' = live w - {pid_of h}"
begin

definition with_server :: "'a \<Rightarrow> ('h \<Rightarrow> ('w, 'b) eff) \<Rightarrow> ('w, 'b) eff" where
  "with_server a body = andthen (start a) (\<lambda>h. try_finally (body h) (stop h))"

text \<open>A body that neither starts nor stops servers leaves, on every path, the servers live that
  were live before.\<close>

lemma with_server_live:
  assumes "inv w" and "with_server a body w = (r, w')"
    and body: "\<And>h v q v'. inv v \<Longrightarrow> body h v = (q, v') \<Longrightarrow> inv v' \<and> live v' = live v"
  shows "inv w' \<and> live w' = live w"
proof (cases "start a w")
  case (Pair q w1)
  show ?thesis
  proof (cases q)
    case (Inl e)
    then show ?thesis using start_fails [OF assms(1)] Pair assms(2)
      by (auto simp: with_server_def andthen_def)
  next
    case (Inr h)
    obtain q2 w2 where b: "body h w1 = (q2, w2)" by fastforce
    obtain q3 w3 where s: "stop h w2 = (q3, w3)" by fastforce
    have 1: "inv w1" "pid_of h \<notin> live w" "live w1 = insert (pid_of h) (live w)"
      using start_ok [OF assms(1)] Pair Inr by blast+
    have 2: "inv w2" "live w2 = live w1" using body [OF 1(1) b] by simp_all
    have 3: "q3 = Inr ()" "inv w3" "live w3 = live w2 - {pid_of h}" using stop_removes [OF 2(1) s] by simp_all
    have "w' = w3" using assms(2) Pair Inr b s 3(1)
      by (simp add: with_server_def andthen_def try_finally_def)
    then show ?thesis using 1 2 3 by simp
  qed
qed

text \<open>The outcome of such a use is that of the start or else that of the body.\<close>

lemma with_server_result:
  assumes "inv w" and "with_server a body w = (r, w')"
    and body: "\<And>h v q v'. inv v \<Longrightarrow> body h v = (q, v') \<Longrightarrow> inv v' \<and> live v' = live v"
  shows "(\<exists>e. fst (start a w) = Inl e \<and> r = Inl e) \<or> (\<exists>h v. start a w = (Inr h, v) \<and> r = fst (body h v))"
proof (cases "start a w")
  case (Pair q w1)
  show ?thesis
  proof (cases q)
    case (Inl e)
    then show ?thesis using Pair assms(2) by (auto simp: with_server_def andthen_def)
  next
    case (Inr h)
    obtain q2 w2 where b: "body h w1 = (q2, w2)" by fastforce
    obtain q3 w3 where s: "stop h w2 = (q3, w3)" by fastforce
    have "inv w1" using start_ok [OF assms(1)] Pair Inr by blast
    then have "inv w2" using body b by blast
    then have "q3 = Inr ()" using stop_removes s by blast
    then show ?thesis using assms(2) Pair Inr b s
      by (auto simp: with_server_def andthen_def try_finally_def)
  qed
qed

end

text \<open>A process is killable if it has ended, is gone, or ends on one of the two signals: on Linux
  all but those stuck in the kernel.\<close>

definition killable :: "behaviour \<Rightarrow> bool" where
  "killable b \<longleftrightarrow> bh_exited b \<or> bh_gone b \<or> bh_term b \<or> bh_kill b"

definition os_inv :: "os \<Rightarrow> bool" where
  "os_inv w \<longleftrightarrow> (\<forall>p. killable (script w p)) \<and> (\<forall>p \<in> set (running w). p < next_pid w)"

definition live_servers :: "os \<Rightarrow> nat set" where
  "live_servers w = set (running w)"

lemma stop_server_live:
  assumes "os_inv w" and "stop_server h w = (r, w')"
  shows "r = Inr () \<and> os_inv w' \<and> live_servers w' = live_servers w - {sh_pid h} \<and> next_pid w' = next_pid w
    \<and> script w' = script w \<and> can_spawn w' = can_spawn w"
proof -
  have "killable (script w (sh_pid h))" using assms(1) by (simp add: os_inv_def)
  then show ?thesis using assms
    by (auto simp: stop_server_def Let_def os_inv_def live_servers_def process_ended_def
        send_signal_def killable_def split: if_splits)
qed

lemma spawn_live:
  "os_inv w \<Longrightarrow> spawn b args w = (Inr p, w') \<Longrightarrow> os_inv w' \<and> p = next_pid w \<and> p \<notin> live_servers w
     \<and> live_servers w' = insert p (live_servers w) \<and> next_pid w' = Suc (next_pid w)
     \<and> script w' = script w \<and> can_spawn w' = can_spawn w"
  by (auto simp: spawn_def os_inv_def live_servers_def less_Suc_eq split: if_splits)

lemma spawn_fails: "spawn b args w = (Inl e, w') \<Longrightarrow> w' = w"
  by (auto simp: spawn_def split: if_splits)

lemma start_attempts_live:
  assumes "os_inv w" and "start_attempts n binary args addr wd lg w = (r, w')"
  shows "os_inv w' \<and> (case r of
      Inr h \<Rightarrow> sh_pid h \<notin> live_servers w \<and> live_servers w' = insert (sh_pid h) (live_servers w)
    | Inl _ \<Rightarrow> live_servers w' = live_servers w)"
  using assms
proof (induction n arbitrary: w)
  case 0
  then show ?case by auto
next
  case (Suc n)
  show ?case
  proof (cases "spawn binary args w")
    case (Pair q w1)
    show ?thesis
    proof (cases q)
      case (Inl e)
      then have "w1 = w" using Pair spawn_fails by blast
      then show ?thesis using Inl Suc.prems Pair by (auto simp: andthen_def)
    next
      case (Inr p)
      let ?h = "\<lparr>sh_pid = p, sh_addr = addr, sh_log = lg, sh_workdir = wd\<rparr>"
      note sp = spawn_live [OF Suc.prems(1) Pair [unfolded Inr]]
      show ?thesis
      proof (cases "bh_wait (script w1 p)")
        case (Inr x)
        then show ?thesis using Suc.prems(2) Pair \<open>q = Inr p\<close> sp by (auto simp: andthen_def Let_def)
      next
        case (Inl x)
        obtain q2 w2 where st: "stop_server ?h w1 = (q2, w2)" by fastforce
        have s2: "q2 = Inr ()" "os_inv w2" "live_servers w2 = live_servers w"
          using stop_server_live [OF _ st] sp by auto
        have "start_attempts n binary args addr wd lg w2 = (r, w')"
          using Suc.prems(2) Pair \<open>q = Inr p\<close> Inl st s2(1) by (simp add: andthen_def Let_def)
        from Suc.IH [OF s2(2) this] s2(3) show ?thesis by (cases r) simp_all
      qed
    qed
  qed
qed

interpretation runner_host: server_host
    "\<lambda>(binary, args, addr, wd, lg). start_server n binary args addr wd lg" stop_server sh_pid live_servers os_inv
  for n
proof unfold_locales
  fix w w' :: os and a :: "string \<times> string list \<times> string \<times> string \<times> string"
  obtain binary args addr wd lg where a: "a = (binary, args, addr, wd, lg)" by (cases a)
  let ?start = "\<lambda>(binary, args, addr, wd, lg). start_server n binary args addr wd lg"
  show "os_inv w' \<and> sh_pid h \<notin> live_servers w \<and> live_servers w' = insert (sh_pid h) (live_servers w)"
    if "os_inv w" "?start a w = (Inr h, w')" for h
    using start_attempts_live [of w n binary args addr wd lg "Inr h" w'] that by (simp add: a start_server_def)
  show "os_inv w' \<and> live_servers w' = live_servers w"
    if "os_inv w" "?start a w = (Inl e, w')" for e
    using start_attempts_live [of w n binary args addr wd lg "Inl e" w'] that by (simp add: a start_server_def)
  show "r = Inr () \<and> os_inv w' \<and> live_servers w' = live_servers w - {sh_pid h}"
    if "os_inv w" "stop_server h w = (r, w')" for h r
    using stop_server_live [OF that] by simp
qed

text \<open>C38: starting a server leaves exactly the returned process running besides those that ran
  before; if the start fails, after all its attempts or because the binary cannot be run, no
  process of any attempt is left.\<close>

theorem start_server_no_leak:
  assumes "os_inv w" and "start_server n binary args addr wd lg w = (r, w')"
  shows "os_inv w' \<and> live_servers w' = live_servers w \<union> (case r of Inr h \<Rightarrow> {sh_pid h} | Inl _ \<Rightarrow> {})
    \<and> (\<forall>h. r = Inr h \<longrightarrow> sh_pid h \<notin> live_servers w)"
  using runner_host.start_ok [of w n "(binary, args, addr, wd, lg)"]
    runner_host.start_fails [of w n "(binary, args, addr, wd, lg)"] assms
  by (cases r) auto

definition demo_os :: os where
  "demo_os = \<lparr>next_pid = 7, running = [3],
     script = (\<lambda>p. \<lparr>bh_wait = (if p < 8 then Inl (TimeoutError []) else Inr ()), bh_exited = False,
       bh_gone = False, bh_term = (p = 3), bh_kill = True\<rparr>),
     can_spawn = (\<lambda>b. b = ''srv''), os_log = []\<rparr>"

lemma demo_os_inv: "os_inv demo_os"
  by (simp add: os_inv_def demo_os_def killable_def)

lemma start_server_no_leak_witness:
  "\<exists>h w'. start_server 6 ''srv'' [] ''a:1'' ''wd'' ''log'' demo_os = (Inr h, w') \<and> live_servers w' = {3, 8}"
proof -
  obtain r w' where s: "start_server 6 ''srv'' [] ''a:1'' ''wd'' ''log'' demo_os = (r, w')" by fastforce
  then have "r = Inr \<lparr>sh_pid = 8, sh_addr = ''a:1'', sh_log = ''log'', sh_workdir = ''wd''\<rparr>"
    by (simp add: start_server_def numeral_eq_Suc andthen_def spawn_def demo_os_def stop_server_def Let_def
        process_ended_def send_signal_def)
  moreover have "live_servers demo_os = {3}" by (simp add: demo_os_def live_servers_def)
  ultimately show ?thesis using start_server_no_leak [OF demo_os_inv s] s by auto
qed

lemma find_map_Suc: "find P (map Suc xs) = map_option Suc (find (\<lambda>k. P (Suc k)) xs)"
  by (induction xs) auto

text \<open>Which attempt succeeds: the first whose process accepts connections, each attempt being a
  new process; if none of the \<open>n\<close> does, the call raises.\<close>

lemma start_server_first:
  assumes "os_inv w" and "can_spawn w binary"
  shows "(case find (\<lambda>k. \<not> isl (bh_wait (script w (next_pid w + k)))) [0..<n] of
      Some k \<Rightarrow> \<exists>w'. start_server n binary args addr wd lg w =
        (Inr \<lparr>sh_pid = next_pid w + k, sh_addr = addr, sh_log = lg, sh_workdir = wd\<rparr>, w')
    | None \<Rightarrow> \<exists>e w'. start_server n binary args addr wd lg w = (Inl (RuntimeError e), w'))"
  using assms unfolding start_server_def
proof (induction n arbitrary: w)
  case 0
  then show ?case by simp
next
  case (Suc n)
  let ?p = "next_pid w"
  let ?h = "\<lparr>sh_pid = ?p, sh_addr = addr, sh_log = lg, sh_workdir = wd\<rparr>"
  obtain w1 where sp: "spawn binary args w = (Inr ?p, w1)" using Suc.prems(2) by (simp add: spawn_def)
  note l1 = spawn_live [OF Suc.prems(1) sp]
  have upt: "[0..<Suc n] = 0 # map Suc [0..<n]" by (simp add: upt_conv_Cons map_Suc_upt del: upt_Suc)
  show ?case
  proof (cases "bh_wait (script w ?p)")
    case (Inr x)
    then show ?thesis using sp l1 unfolding upt by (simp add: andthen_def Let_def)
  next
    case (Inl x)
    obtain q2 w2 where st: "stop_server ?h w1 = (q2, w2)" by fastforce
    have s2: "q2 = Inr ()" "os_inv w2" "next_pid w2 = Suc ?p" "script w2 = script w" "can_spawn w2 = can_spawn w"
      using stop_server_live [OF _ st] l1 by simp_all
    have "start_attempts (Suc n) binary args addr wd lg w = start_attempts n binary args addr wd lg w2"
      using sp l1 Inl st s2(1) by (simp add: andthen_def Let_def)
    moreover have "find (\<lambda>k. \<not> isl (bh_wait (script w (?p + k)))) [0..<Suc n]
        = map_option Suc (find (\<lambda>k. \<not> isl (bh_wait (script w2 (next_pid w2 + k)))) [0..<n])"
      unfolding upt using Inl s2(3,4) by (simp add: find_map_Suc)
    ultimately show ?thesis using Suc.IH [of w2] s2 Suc.prems(2)
      by (auto split: option.splits)
  qed
qed

lemma start_server_first_witness:
  "\<exists>e w'. start_server 1 ''srv'' [] ''a:1'' ''wd'' ''log'' demo_os = (Inl (RuntimeError e), w')"
  using start_server_first [OF demo_os_inv, of "''srv''" 1 "[]" "''a:1''" "''wd''" "''log''"]
  by (simp add: demo_os_def)

text \<open>Stopping a server escalates: no signal for a process that is gone, one \<open>SIGTERM\<close> if it ends on
  it, and \<open>SIGKILL\<close> only after a \<open>SIGTERM\<close> that did not; afterwards the process is dead unless
  even that left it running.\<close>

lemma stop_server_escalates:
  "\<exists>w'. stop_server h w = (Inr (), w')
    \<and> os_log w' = os_log w @ (let b = script w (sh_pid h) in
         if bh_exited b \<or> bh_gone b then [] else if bh_term b then [Signalled (sh_pid h) SIGTERM]
         else [Signalled (sh_pid h) SIGTERM, Signalled (sh_pid h) SIGKILL])
    \<and> (sh_pid h \<in> set (running w') \<longleftrightarrow> sh_pid h \<in> set (running w) \<and> \<not> killable (script w (sh_pid h)))"
  by (auto simp: stop_server_def Let_def process_ended_def send_signal_def killable_def)

section \<open>Client runs\<close>

lemma first_client_metrics_Inr: "\<exists>m. first_client_metrics text = Inr m"
proof -
  have "\<exists>m. first_client_in ls = Inr m" for ls
    by (induction ls) (auto simp: parse_line_line_metrics split: option.splits)
  then show ?thesis by (simp add: first_client_metrics_def)
qed

lemma first_client_in_wf: "first_client_in ls = Inr (Some m) \<Longrightarrow> wf_metrics_line m \<and> ml_role m = ''CLIENT''"
proof (induction ls)
  case Nil
  then show ?case by simp
next
  case (Cons l ls)
  have "wf_metrics_line x" if "line_metrics l = Some x" for x
    using parse_line_wf [of l] that by (auto simp: line_metrics_def)
  then show ?case using Cons by (auto simp: parse_line_line_metrics split: option.splits if_splits)
qed

definition wf_client_result :: "client_result \<Rightarrow> bool" where
  "wf_client_result r \<longleftrightarrow>
     (cr_duration_ms r = None \<longleftrightarrow> cr_sent_bytes r = None) \<and> (cr_sent_bytes r = None \<longleftrightarrow> cr_recv_bytes r = None)
     \<and> (cr_success r \<longrightarrow> cr_duration_ms r \<noteq> None)
     \<and> (\<forall>d. cr_duration_ms r = Some d \<longrightarrow> 0 \<le> d)
     \<and> (\<forall>b. cr_sent_bytes r = Some b \<or> cr_recv_bytes r = Some b \<longrightarrow> 0 \<le> b)"

text \<open>A client run raises only if its process cannot be run at all. Otherwise it keeps its iteration
  and client number, has either all three measurements or none, none of them negative, at most 500
  characters of error text, and it succeeds exactly if the process exited with code zero and printed a client metrics line.\<close>

lemma run_client_once_result:
  assumes "\<forall>e. oc \<noteq> ClientRaise e" and "length timeout \<le> 480"
  shows "\<exists>r. run_client_once timeout i k oc t = Inr r
    \<and> cr_iteration r = i \<and> cr_client_id r = k \<and> cr_elapsed_wall_s r = t \<and> wf_client_result r
    \<and> length (cr_stderr_tail r) \<le> 500
    \<and> (cr_success r \<longleftrightarrow> (\<exists>out err m. oc = ClientExit 0 out err \<and> first_client_metrics out = Inr (Some m)))"
proof (cases oc)
  case ClientTimeout
  then show ?thesis using assms(2) by (simp add: run_client_once_def wf_client_result_def)
next
  case (ClientRaise e)
  then show ?thesis using assms(1) by simp
next
  case (ClientExit rc out err)
  obtain m where m: "first_client_metrics out = Inr m" using first_client_metrics_Inr by blast
  show ?thesis
  proof (cases m)
    case None
    then show ?thesis using ClientExit m
      by (simp add: run_client_once_def wf_client_result_def length_last_n)
  next
    case (Some x)
    then have "wf_metrics_line x" using m first_client_in_wf by (auto simp: first_client_metrics_def)
    then show ?thesis using ClientExit m Some
      by (auto simp: run_client_once_def wf_client_result_def wf_metrics_line_def length_last_n)
  qed
qed

lemma run_client_once_result_witness:
  "\<exists>r. run_client_once ''30.0'' 2 5 (ClientExit 1 [] ''no route'') (1/2) = Inr r \<and> cr_client_id r = 5 \<and> \<not> cr_success r"
  using run_client_once_result [of "ClientExit 1 [] ''no route''" "''30.0''" 2 5 "1/2"] by auto

text \<open>A client of the mTLS or EDHOC binary that authenticates, exits with code zero and prints its
  metrics line still counts as failed, because the line names the protocol before the duration.\<close>

lemma tagged_client_counts_as_failed:
  assumes "proto = ''mTLS/TCP'' \<or> proto = ''EDHOC/TCP''" and "is_decimal ip fp" and "is_unit u"
    and "CHR ''>'' \<notin> set extra" and "line_text extra"
    and "oc = ClientExit 0 (unlines [print_client_tagged proto ip fp u s r extra]) err"
  shows "\<exists>x. run_client_once timeout i k oc t = Inr x \<and> \<not> cr_success x \<and> cr_duration_ms x = None"
proof -
  let ?l = "print_client_tagged proto ip fp u s r extra"
  have "line_text ?l" using assms(1-3,5) by (rule line_text_tagged)
  then have "splitlines (unlines [?l]) = [?l]" using splitlines_unlines [of "[?l]" "[]"] by simp
  then have "first_client_metrics (unlines [?l]) = Inr None"
    using parse_line_rejects_tagged [OF assms(1-4)] by (simp add: first_client_metrics_def)
  then show ?thesis using assms(6) by (simp add: run_client_once_def)
qed

lemma tagged_client_counts_as_failed_witness:
  "\<exists>x. run_client_once ''30.0'' 0 0 (ClientExit 0
      (unlines [''CLIENT METRICS -> Protocol: EDHOC/TCP, Duration: 12.5ms, Sent: 310 bytes, Received: 42 bytes, RequestBytes: 100''])
      []) 1 = Inr x \<and> \<not> cr_success x"
  using tagged_client_counts_as_failed [of "''EDHOC/TCP''" "''12''" "''5''" "''ms''" "''RequestBytes: 100''" _ 310 42 "[]" "''30.0''" 0 0 1]
  by (auto simp: is_decimal_def is_unit_def is_linebreak_def print_client_tagged_def counters_text_def dec_text_def show_nat.simps)

text \<open>The results of concurrent clients are those of the clients in their own order, whatever the
  order in which their tasks complete; a task that raises yields a failed result for its
  client and no other.\<close>

lemma run_clients_concurrent_order_free:
  assumes "distinct order" and "set order = {0..<n}" and "0 < n"
    and "case max_workers of None \<Rightarrow> True | Some k \<Rightarrow> 0 \<le> k"
  shows "run_clients_concurrent show_err run n max_workers order
    = Inr (map (\<lambda>i. Some (collect_result show_err i (run i))) [0..<n])"
proof -
  let ?f = "\<lambda>i. Some (collect_result show_err i (run i))"
  let ?rs = "fold (\<lambda>i results. results[i := ?f i]) order (replicate n None)"
  have "?rs ! j = ?f j" if "j < n" for j
    using fold_update_nth [of order "replicate n None" j ?f] assms(1,2) that by simp
  then have "?rs = map ?f [0..<n]" by (intro nth_equalityI) simp_all
  moreover have "0 < min (int n) 64" using assms(3) by simp
  ultimately show ?thesis using assms(3,4)
    by (auto simp: run_clients_concurrent_def Let_def split: option.splits)
qed

lemma run_clients_concurrent_order_free_witness:
  "run_clients_concurrent (\<lambda>e. []) (\<lambda>i. if i = 1 then Inl IndexError else run_client_once ''1'' 0 i ClientTimeout 1) 3 None [2, 0, 1]
    = Inr (map (\<lambda>i. Some (collect_result (\<lambda>e. []) i (if i = 1 then Inl IndexError else run_client_once ''1'' 0 i ClientTimeout 1))) [0..<3])"
  by (rule run_clients_concurrent_order_free) auto

text \<open>Without clients the call raises, because the thread pool is asked for no workers.\<close>

lemma run_clients_concurrent_none:
  "run_clients_concurrent show_err run 0 None order = Inl (ValueError ''max_workers must be greater than 0'')"
  by (simp add: run_clients_concurrent_def)

section \<open>Stamped directories\<close>

lemma stamp_name_inject: "stamp_name parent prefix i = stamp_name parent prefix j \<Longrightarrow> i = j"
  using zero_pad_inject by (auto simp: stamp_name_def)

lemma distinct_stamp_names: "distinct (map (stamp_name parent prefix) [0..<n])"
  using stamp_name_inject by (auto simp: distinct_map inj_on_def)

lemma stamp_name_not_parent: "stamp_name parent prefix i \<noteq> parent"
  by (metis append_is_Nil_conv append_self_conv list.distinct(1) stamp_name_def)

lemma stamp_all_empty:
  "stamp_all False t ds w = (Inr ds, \<lambda>x. if x \<in> set ds then Some Map.empty else w x)"
  by (induction ds arbitrary: w) (auto simp: andthen_def stamp_one_def Let_def fun_eq_iff)

lemma stamp_all_copy:
  "t \<notin> set ds \<Longrightarrow> w t = Some tr \<Longrightarrow>
   stamp_all True t ds w = (Inr ds, \<lambda>x. if x \<in> set ds then Some tr else w x)"
  by (induction ds arbitrary: w) (auto simp: andthen_def stamp_one_def Let_def fun_eq_iff)

text \<open>Stamping returns \<open>n\<close> different directories, each a fresh copy of the template, or empty if
  there is none, whatever was there before, and leaves every other directory alone.\<close>

lemma stamp_workdirs_fresh:
  assumes "stamp_workdirs template parent n prefix w = (r, w')"
    and "\<forall>t. template = Some t \<longrightarrow> t \<noteq> parent \<and> t \<notin> stamp_name parent prefix ` {0..<n}"
  shows "\<exists>ds. r = Inr ds \<and> length ds = n \<and> distinct ds
    \<and> (\<forall>d \<in> set ds. w' d = Some (case Option.bind template w of Some tr \<Rightarrow> tr | None \<Rightarrow> Map.empty))
    \<and> (\<forall>x. x \<notin> set ds \<and> x \<noteq> parent \<longrightarrow> w' x = w x)"
proof -
  let ?ds = "map (stamp_name parent prefix) [0..<n]"
  let ?w0 = "if w parent = None then w(parent \<mapsto> Map.empty) else w"
  have ds: "length ?ds = n" "distinct ?ds" "parent \<notin> set ?ds"
    using distinct_stamp_names stamp_name_not_parent [symmetric] by (simp, blast, auto)
  have other: "?w0 x = w x" if "x \<noteq> parent" for x using that by simp
  show ?thesis
  proof (cases "Option.bind template w")
    case None
    have "stamp_workdirs template parent n prefix w = (Inr ?ds, \<lambda>x. if x \<in> set ?ds then Some Map.empty else ?w0 x)"
      using None assms(2) by (cases template) (auto simp: stamp_workdirs_def Let_def stamp_all_empty)
    then have "r = Inr ?ds" "w' = (\<lambda>x. if x \<in> set ?ds then Some Map.empty else ?w0 x)" using assms(1) by simp_all
    then show ?thesis using None ds other by (intro exI [of _ ?ds]) simp
  next
    case (Some tr)
    then obtain t where t: "template = Some t" "w t = Some tr" by (cases template) auto
    then have "t \<noteq> parent" "t \<notin> set ?ds" using assms(2) by auto
    then have "stamp_workdirs template parent n prefix w = (Inr ?ds, \<lambda>x. if x \<in> set ?ds then Some tr else ?w0 x)"
      using t by (simp add: stamp_workdirs_def Let_def stamp_all_copy)
    then have "r = Inr ?ds" "w' = (\<lambda>x. if x \<in> set ?ds then Some tr else ?w0 x)" using assms(1) by simp_all
    then show ?thesis using Some ds other by (intro exI [of _ ?ds]) simp
  qed
qed

lemma stamp_workdirs_fresh_witness:
  "\<exists>ds w'. stamp_workdirs (Some ''tpl'') ''w'' 2 ''c'' [''tpl'' \<mapsto> [''key'' \<mapsto> ''k''], ''w/c_001'' \<mapsto> [''old'' \<mapsto> ''x'']]
      = (Inr ds, w') \<and> distinct ds \<and> length ds = 2 \<and> (\<forall>d \<in> set ds. w' d = Some [''key'' \<mapsto> ''k''])"
proof -
  let ?w = "[''tpl'' \<mapsto> [''key'' \<mapsto> ''k''], ''w/c_001'' \<mapsto> [''old'' \<mapsto> ''x'']] :: fs"
  obtain r w' where s: "stamp_workdirs (Some ''tpl'') ''w'' 2 ''c'' ?w = (r, w')" by fastforce
  have "\<forall>t. Some ''tpl'' = Some t \<longrightarrow> t \<noteq> ''w'' \<and> t \<notin> stamp_name ''w'' ''c'' ` {0..<2}"
    by (auto simp: stamp_name_def)
  from stamp_workdirs_fresh [OF s this] s show ?thesis by auto
qed

end
