(* ===== verification/Poller.thy ===== *)
theory Poller
  imports Prelude
begin

text \<open>
  The background sampling thread that \<open>ProcSampler\<close> and \<open>PowerSampler\<close> both run: while the
  stop event is not set, take one sample, then wait. A reading is what the environment
  shows to one iteration; a list of readings is one run of the thread. An exception
  in an iteration ends the thread with the state reached. The locale \<open>polled\<close> states what
  a sampler has to show of one iteration to know it of every run.
\<close>

fun poll_loop :: "('r \<Rightarrow> ('s, unit) eff) \<Rightarrow> ('s \<Rightarrow> bool) \<Rightarrow> 'r list \<Rightarrow> ('s, unit) eff" where
  "poll_loop step stopped [] = ret ()"
| "poll_loop step stopped (r # rs) = (\<lambda>s.
     if stopped s then ret () s
     else andthen (step r) (\<lambda>_. poll_loop step stopped rs) s)"

lemma poll_loop_stopped: "stopped s \<Longrightarrow> poll_loop step stopped rs s = (Inr (), s)"
  by (cases rs) simp_all

lemma poll_loop_step:
  assumes "\<not> stopped s" and "step r s = (Inr (), s')"
  shows "poll_loop step stopped (r # rs) s = poll_loop step stopped rs s'"
  using assms by (simp add: andthen_def)

locale polled =
  fixes step :: "'r \<Rightarrow> ('s, unit) eff"
    and stopped :: "'s \<Rightarrow> bool"
    and inv :: "'s \<Rightarrow> bool"
    and le :: "'s \<Rightarrow> 's \<Rightarrow> bool"
  assumes step_inv: "inv s \<Longrightarrow> inv (snd (step r s))"
    and step_le: "inv s \<Longrightarrow> le s (snd (step r s))"
    and step_stopped: "stopped (snd (step r s)) = stopped s"
    and le_refl: "le s s"
    and le_trans: "le s t \<Longrightarrow> le t u \<Longrightarrow> le s u"
begin

lemma loop_inv_le:
  "inv s \<Longrightarrow> inv (snd (poll_loop step stopped rs s)) \<and> le s (snd (poll_loop step stopped rs s))"
proof (induction rs arbitrary: s)
  case Nil
  then show ?case by (simp add: le_refl)
next
  case (Cons r rs)
  obtain q s' where step: "step r s = (q, s')" by (cases "step r s")
  then have "inv s'" and "le s s'" using Cons.prems step_inv [of s r] step_le [of s r] by simp_all
  moreover from this have "inv (snd (poll_loop step stopped rs s'))"
      and "le s (snd (poll_loop step stopped rs s'))"
    using Cons.IH [of s'] le_trans by blast+
  ultimately show ?case
    using step Cons.prems by (cases q) (simp_all add: andthen_def le_refl)
qed

lemma loop_stopped_iff: "stopped (snd (poll_loop step stopped rs s)) = stopped s"
proof (induction rs arbitrary: s)
  case Nil
  then show ?case by simp
next
  case (Cons r rs)
  obtain q s' where step: "step r s = (q, s')" by (cases "step r s")
  then have "stopped s' = stopped s" using step_stopped [of r s] by simp
  then show ?case using step Cons.IH [of s'] by (cases q) (simp_all add: andthen_def)
qed

end

end
