(* ===== verification/PowerMeter.thy ===== *)
theory PowerMeter
  imports Poller PyFloat "HOL-Library.AList" "HOL-Library.Char_ord" "HOL-Library.List_Lexorder"
begin

text \<open>
  The power meters and the power sampler, \<open>benchmarks/lib/pmic.py\<close>. What a meter reads (the
  result of the \<open>vcgencmd\<close> process, the files of an hwmon directory, the outcome of the
  CPU fraction provider) is an argument of its definition. Shown here: the PMIC parser sums
  the power of the paired rails and ignores the bus voltages, the linear model stays
  between its two bounds for every outcome of the provider, the hwmon detection, and
  the arithmetic of the sampler's summary.
\<close>

section \<open>The PMIC meter\<close>

text \<open>A subprocess either times out, is not installed, or exits with a code and its output.\<close>

datatype proc_result = ProcTimeout | ProcMissing | ProcExit int string

definition BUS_RAILS :: "string list" where
  "BUS_RAILS = [''EXT5V'', ''BATT'']"

definition vcgencmd_is_available :: "bool \<Rightarrow> proc_result \<Rightarrow> bool" where
  "vcgencmd_is_available on_path r = (if \<not> on_path then False else (case r of
       ProcTimeout \<Rightarrow> False
     | ProcMissing \<Rightarrow> False
     | ProcExit rc out \<Rightarrow> if rc \<noteq> 0 then False else count_list out (CHR 0x0A) \<ge> 10))"

text \<open>The \<open>kind\<close>, rail and value of one output line, if it is a measurement.\<close>

definition pmic_entry :: "string \<Rightarrow> (char \<times> string \<times> pyfloat) option" where
  "pmic_entry raw_line =
     (let line = strip raw_line in
      if line = [] \<or> CHR ''='' \<notin> set line then None
      else (case partition_at (CHR ''='') line of (label_part, _, value_part) \<Rightarrow>
        (let label = before_first (CHR '' '') label_part in
         if length label < 3 \<or> label ! (length label - 2) \<noteq> CHR ''_'' then None
         else map_option (\<lambda>value. (last label, take (length label - 2) label, value))
                (py_float (rstrip_chars ''AVavWw'' (rstrip value_part))))))"

type_synonym rails = "(string \<times> pyfloat) list"

fun pmic_scan :: "string list \<Rightarrow> rails \<Rightarrow> rails \<Rightarrow> rails \<times> rails" where
  "pmic_scan [] currents voltages = (currents, voltages)"
| "pmic_scan (l # ls) currents voltages = (case pmic_entry l of
       None \<Rightarrow> pmic_scan ls currents voltages
     | Some (kind, rail, value) \<Rightarrow>
         if kind = CHR ''A'' then pmic_scan ls (AList.update rail value currents) voltages
         else if kind = CHR ''V'' then pmic_scan ls currents (AList.update rail value voltages)
         else pmic_scan ls currents voltages)"

fun pmic_total :: "rails \<Rightarrow> rails \<Rightarrow> pyfloat \<Rightarrow> pyfloat" where
  "pmic_total voltages [] total_w = total_w"
| "pmic_total voltages ((rail, amps) # currents) total_w =
     (if rail \<in> set BUS_RAILS then pmic_total voltages currents total_w
      else case map_of voltages rail of
        None \<Rightarrow> pmic_total voltages currents total_w
      | Some volts \<Rightarrow> pmic_total voltages currents (f_add total_w (f_abs (f_mul volts amps))))"

definition vcgencmd_read_power_w :: "proc_result \<Rightarrow> pyfloat res" where
  "vcgencmd_read_power_w r = (case r of
       ProcTimeout \<Rightarrow> Inr NaN
     | ProcMissing \<Rightarrow> Inl (FileNotFoundError ''vcgencmd'')
     | ProcExit rc out \<Rightarrow>
         if rc \<noteq> 0 then Inr NaN
         else (case pmic_scan (splitlines out) [] [] of (currents, voltages) \<Rightarrow>
                 Inr (pmic_total voltages currents (Fin 0))))"

section \<open>The hwmon meter\<close>

text \<open>A directory is a map from file names to contents.\<close>

type_synonym dir = "string \<Rightarrow> string option"

record hwmon_meter =
  hwmon_dir :: dir
  hwmon_channel :: nat

definition channel_file :: "string \<Rightarrow> nat \<Rightarrow> string" where
  "channel_file stem ch = stem @ show_nat ch @ ''_input''"

definition has_channel :: "dir \<Rightarrow> nat \<Rightarrow> bool" where
  "has_channel d ch \<longleftrightarrow> d (channel_file ''power'' ch) \<noteq> None
     \<or> (d (channel_file ''curr'' ch) \<noteq> None \<and> d (channel_file ''in'' ch) \<noteq> None)"

definition detect_channel :: "dir \<Rightarrow> nat res" where
  "detect_channel d = (case find (has_channel d) [1, 2, 3, 4] of
       Some ch \<Rightarrow> Inr ch
     | None \<Rightarrow> Inl (FileNotFoundError ''no INA channel found''))"

definition new_hwmon :: "dir \<Rightarrow> hwmon_meter res" where
  "new_hwmon d = bind_res (detect_channel d) (\<lambda>ch. Inr \<lparr>hwmon_dir = d, hwmon_channel = ch\<rparr>)"

fun autodetect_in :: "(string \<times> dir) list \<Rightarrow> hwmon_meter option res" where
  "autodetect_in [] = Inr None"
| "autodetect_in ((_, d) # entries) = (case d ''name'' of
       None \<Rightarrow> autodetect_in entries
     | Some t \<Rightarrow>
         if starts_with ''ina2'' (lower (strip t)) then bind_res (new_hwmon d) (\<lambda>m. Inr (Some m))
         else autodetect_in entries)"

text \<open>\<open>base\<close> is the hwmon class directory with its entries, absent if it does not exist.\<close>

definition hwmon_autodetect :: "(string \<times> dir) list option \<Rightarrow> hwmon_meter option res" where
  "hwmon_autodetect base = (case base of
       None \<Rightarrow> Inr None
     | Some entries \<Rightarrow> autodetect_in (sort_key fst entries))"

definition read_int_file :: "dir \<Rightarrow> string \<Rightarrow> int option" where
  "read_int_file d f = (case d f of None \<Rightarrow> None | Some t \<Rightarrow> py_int (strip t))"

definition hwmon_read_power_w :: "hwmon_meter \<Rightarrow> pyfloat" where
  "hwmon_read_power_w m =
     (let d = hwmon_dir m; ch = hwmon_channel m in
      case read_int_file d (channel_file ''power'' ch) of
        Some p \<Rightarrow> Fin (of_int p / 1000000)
      | None \<Rightarrow> (case read_int_file d (channel_file ''in'' ch) of
            None \<Rightarrow> NaN
          | Some v_mv \<Rightarrow> (case read_int_file d (channel_file ''curr'' ch) of
              None \<Rightarrow> NaN
            | Some i_ma \<Rightarrow> Fin ((of_int v_mv / 1000) * (of_int i_ma / 1000)))))"

section \<open>The linear model\<close>

definition f_min2 :: "pyfloat \<Rightarrow> pyfloat \<Rightarrow> pyfloat" where
  "f_min2 x y = (if f_lt y x then y else x)"

definition clamp01 :: "pyfloat \<Rightarrow> pyfloat" where
  "clamp01 u = f_max2 (Fin 0) (f_min2 (Fin 1) u)"

text \<open>The provider's value, or what the call raises; a \<open>TypeError\<close> or \<open>ValueError\<close> counts as an idle CPU.\<close>

definition static_read_power_w :: "real \<Rightarrow> real \<Rightarrow> pyfloat res \<Rightarrow> pyfloat res" where
  "static_read_power_w idle_w max_w provided = (case provided of
       Inr u \<Rightarrow> Inr (f_add (Fin idle_w) (f_mul (Fin (max_w - idle_w)) (clamp01 u)))
     | Inl (TypeError _) \<Rightarrow> Inr (f_add (Fin idle_w) (f_mul (Fin (max_w - idle_w)) (clamp01 (Fin 0))))
     | Inl (ValueError _) \<Rightarrow> Inr (f_add (Fin idle_w) (f_mul (Fin (max_w - idle_w)) (clamp01 (Fin 0))))
     | Inl e \<Rightarrow> Inl e)"

section \<open>The sampler\<close>

record power_sampler =
  pw_method :: string
  pw_stop :: bool
  pw_thread :: bool
  pw_samples :: "pyfloat list"
  pw_t0 :: "real option"
  pw_t1 :: "real option"

definition new_power_sampler :: "string \<Rightarrow> power_sampler" where
  "new_power_sampler method = \<lparr>pw_method = method, pw_stop = False, pw_thread = False,
     pw_samples = [], pw_t0 = None, pw_t1 = None\<rparr>"

text \<open>One iteration: the meter's value or exception. A value is kept only if it is not NaN and positive.\<close>

definition power_step :: "pyfloat res \<Rightarrow> (power_sampler, unit) eff" where
  "power_step reading s = (case reading of
       Inl e \<Rightarrow> (Inl e, s)
     | Inr p \<Rightarrow> (Inr (), if \<not> is_nan p \<and> f_lt (Fin 0) p then s\<lparr>pw_samples := pw_samples s @ [p]\<rparr> else s))"

definition power_loop :: "pyfloat res list \<Rightarrow> (power_sampler, unit) eff" where
  "power_loop = poll_loop power_step pw_stop"

definition power_start :: "real \<Rightarrow> (power_sampler, unit) eff" where
  "power_start now s = (if pw_thread s then (Inl (RuntimeError ''sampler already started''), s)
     else (Inr (), s\<lparr>pw_t0 := Some now, pw_thread := True\<rparr>))"

definition power_stop :: "real \<Rightarrow> power_sampler \<Rightarrow> power_sampler" where
  "power_stop now s = (if pw_thread s
     then s\<lparr>pw_stop := True, pw_t1 := Some now, pw_thread := False\<rparr> else s)"

definition power_session :: "real \<Rightarrow> real \<Rightarrow> pyfloat res list \<Rightarrow> (power_sampler, unit) eff" where
  "power_session t0 t1 rs =
     andthen (power_start t0) (\<lambda>_ s. (Inr (), power_stop t1 (snd (power_loop rs s))))"

record energy_result =
  er_method :: string
  er_duration_s :: real
  er_samples :: nat
  mean_power_w :: pyfloat
  peak_power_w :: pyfloat
  energy_j :: pyfloat
  energy_per_auth_mJ :: pyfloat
  er_note :: string

text \<open>\<open>t or now\<close>: a missing time and the time zero both give way to the clock.\<close>

definition time_or :: "real option \<Rightarrow> real \<Rightarrow> real" where
  "time_or t now = (case t of None \<Rightarrow> now | Some x \<Rightarrow> if x = 0 then now else x)"

definition power_summary :: "real \<Rightarrow> real \<Rightarrow> int \<Rightarrow> power_sampler \<Rightarrow> energy_result res" where
  "power_summary now1 now0 n_auths s =
     (let duration = time_or (pw_t1 s) now1 - time_or (pw_t0 s) now0 in
      if pw_samples s = [] then
        Inr \<lparr>er_method = pw_method s, er_duration_s = duration, er_samples = 0, mean_power_w = NaN,
             peak_power_w = NaN, energy_j = NaN, energy_per_auth_mJ = NaN,
             er_note = ''no power samples captured''\<rparr>
      else
        bind_res (f_div_nat (f_sum (pw_samples s)) (length (pw_samples s))) (\<lambda>mean.
        bind_res (f_max_list (pw_samples s)) (\<lambda>peak.
        let energy = f_mul mean (Fin duration) in
        bind_res (f_div_nat energy (nat (max 1 n_auths))) (\<lambda>per_auth.
          Inr \<lparr>er_method = pw_method s, er_duration_s = duration, er_samples = length (pw_samples s),
               mean_power_w = mean, peak_power_w = peak, energy_j = energy,
               energy_per_auth_mJ = f_mul per_auth (Fin 1000), er_note = []\<rparr>))))"

section \<open>The PMIC parser on its own output format\<close>

text \<open>A measured rail: name, current and voltage, the latter two as digits before and after the point.\<close>

record rail_reading =
  rail_name :: string
  amps_text :: "string \<times> string"
  volts_text :: "string \<times> string"

definition amps :: "rail_reading \<Rightarrow> real" where
  "amps r = dec_value (fst (amps_text r)) (snd (amps_text r))"

definition volts :: "rail_reading \<Rightarrow> real" where
  "volts r = dec_value (fst (volts_text r)) (snd (volts_text r))"

definition current_line :: "rail_reading \<Rightarrow> string" where
  "current_line r = rail_name r @ ''_A current(0)='' @ dec_text (fst (amps_text r)) (snd (amps_text r)) @ ''A''"

definition voltage_line :: "rail_reading \<Rightarrow> string" where
  "voltage_line r = rail_name r @ ''_V volt(8)='' @ dec_text (fst (volts_text r)) (snd (volts_text r)) @ ''V''"

definition decimal_pair :: "string \<times> string \<Rightarrow> bool" where
  "decimal_pair d \<longleftrightarrow> fst d \<noteq> [] \<and> (\<forall>c \<in> set (fst d). is_digit c) \<and> (\<forall>c \<in> set (snd d). is_digit c)"

definition name_char :: "char \<Rightarrow> bool" where
  "name_char c \<longleftrightarrow> \<not> is_space c \<and> \<not> is_linebreak c \<and> c \<noteq> CHR ''=''"

definition wf_rail :: "rail_reading \<Rightarrow> bool" where
  "wf_rail r \<longleftrightarrow> rail_name r \<noteq> [] \<and> (\<forall>c \<in> set (rail_name r). name_char c)
     \<and> decimal_pair (amps_text r) \<and> decimal_pair (volts_text r)"

lemma strip_ends:
  assumes "s \<noteq> []" and "\<not> is_space (hd s)" and "\<not> is_space (last s)"
  shows "strip s = s"
proof -
  obtain c t where c: "s = c # t" using assms(1) by (cases s) auto
  have "rev s \<noteq> []" "\<not> is_space (hd (rev s))" using assms by (simp_all add: hd_rev)
  then obtain d u where "rev s = d # u" "\<not> is_space d" by (cases "rev s") auto
  then have "rstrip s = s" by (simp add: rstrip_def)
  then show ?thesis using c assms(2) by (simp add: strip_def lstrip_def)
qed

lemma dec_text_chars: "decimal_pair d \<Longrightarrow> c \<in> set (dec_text (fst d) (snd d)) \<Longrightarrow> is_digit c \<or> c = CHR ''.''"
  by (auto simp: decimal_pair_def dec_text_def split: if_splits)

lemma dec_text_last_digit: "decimal_pair d \<Longrightarrow> dec_text (fst d) (snd d) \<noteq> [] \<and> is_digit (last (dec_text (fst d) (snd d)))"
  by (auto simp: decimal_pair_def dec_text_def)

lemma rstrip_unit:
  assumes "decimal_pair d" and "u = CHR ''A'' \<or> u = CHR ''V''"
  shows "rstrip_chars ''AVavWw'' (rstrip (dec_text (fst d) (snd d) @ [u])) = dec_text (fst d) (snd d)"
proof -
  let ?t = "dec_text (fst d) (snd d)"
  have "rstrip (?t @ [u]) = ?t @ [u]" using assms(2) by (auto simp: rstrip_def is_space_def)
  moreover obtain c w where "rev ?t = c # w" "is_digit c"
    using dec_text_last_digit [OF assms(1)] by (cases "rev ?t") (auto simp: hd_rev [symmetric])
  moreover then have "rev (c # w) = ?t" by (metis rev_rev_ident)
  moreover have "c \<notin> set ''AVavWw''" using \<open>is_digit c\<close> by (auto simp: is_digit_def)
  ultimately show ?thesis using assms(2) by (auto simp: rstrip_chars_def)
qed

lemma pmic_entry_line:
  assumes n: "name \<noteq> []" "\<forall>c \<in> set name. name_char c" and d: "decimal_pair d"
    and k: "k = CHR ''A'' \<or> k = CHR ''V''" and m: "CHR ''='' \<notin> set mid"
  shows "pmic_entry (name @ CHR ''_'' # k # CHR '' '' # mid @ CHR ''='' # dec_text (fst d) (snd d) @ [k])
     = Some (k, name, Fin (dec_value (fst d) (snd d)))"
proof -
  let ?lbl = "name @ [CHR ''_'', k]"
  let ?line = "(?lbl @ CHR '' '' # mid) @ CHR ''='' # dec_text (fst d) (snd d) @ [k]"
  have "hd name \<in> set name" using n(1) by simp
  then have "\<not> is_space (hd ?line)" using n by (auto simp: name_char_def)
  moreover have "\<not> is_space (last ?line)" using k by (auto simp: is_space_def)
  ultimately have strip: "strip ?line = ?line" by (intro strip_ends) simp_all
  have "CHR '' '' \<notin> set name" and eq: "CHR ''='' \<notin> set name"
    using not_mem_if [OF n(2)] by (simp_all add: name_char_def)
  then have "CHR '' '' \<notin> set ?lbl" using k by auto
  then have lbl: "before_first (CHR '' '') (?lbl @ CHR '' '' # mid) = ?lbl" by (rule before_first_append)
  have "CHR ''='' \<notin> set (?lbl @ CHR '' '' # mid)" using eq k m by auto
  then have part: "partition_at (CHR ''='') ?line = (?lbl @ CHR '' '' # mid, True, dec_text (fst d) (snd d) @ [k])"
    by (rule partition_at_found)
  have "length name > 0" using n(1) by simp
  then have len: "\<not> length ?lbl < 3" "?lbl ! (length ?lbl - 2) = CHR ''_''" "last ?lbl = k"
      "take (length ?lbl - 2) ?lbl = name"
    by (simp_all add: nth_append)
  have float: "py_float (dec_text (fst d) (snd d)) = Some (Fin (dec_value (fst d) (snd d)))"
    using d by (intro py_float_dec) (auto simp: decimal_pair_def)
  have "pmic_entry ?line = Some (k, name, Fin (dec_value (fst d) (snd d)))"
    unfolding pmic_entry_def Let_def strip part prod.case lbl rstrip_unit [OF d k] float len
    using len(1) by simp
  then show ?thesis by simp
qed

lemma pmic_entry_current: "wf_rail r \<Longrightarrow> pmic_entry (current_line r) = Some (CHR ''A'', rail_name r, Fin (amps r))"
  using pmic_entry_line [of "rail_name r" "amps_text r" "CHR ''A''" "''current(0)''"]
  by (simp add: wf_rail_def current_line_def amps_def)

lemma pmic_entry_voltage: "wf_rail r \<Longrightarrow> pmic_entry (voltage_line r) = Some (CHR ''V'', rail_name r, Fin (volts r))"
  using pmic_entry_line [of "rail_name r" "volts_text r" "CHR ''V''" "''volt(8)''"]
  by (simp add: wf_rail_def voltage_line_def volts_def)

lemma update_new_key: "k \<notin> fst ` set al \<Longrightarrow> AList.update k v al = al @ [(k, v)]"
  by (induction al) auto

lemma pmic_scan_append:
  "pmic_scan (xs @ ys) c v = (case pmic_scan xs c v of (c', v') \<Rightarrow> pmic_scan ys c' v')"
  by (induction xs arbitrary: c v) (auto split: option.splits)

lemma pmic_scan_currents:
  assumes "\<forall>r \<in> set rs. wf_rail r" and "distinct (map fst c @ map rail_name rs)"
  shows "pmic_scan (map current_line rs) c v = (c @ map (\<lambda>r. (rail_name r, Fin (amps r))) rs, v)"
  using assms
proof (induction rs arbitrary: c)
  case Nil
  then show ?case by simp
next
  case (Cons r rs)
  have "rail_name r \<notin> fst ` set c" using Cons.prems(2) by auto
  then show ?case
    using Cons.IH [of "c @ [(rail_name r, Fin (amps r))]"] Cons.prems
    by (simp add: pmic_entry_current update_new_key)
qed

lemma pmic_scan_voltages:
  assumes "\<forall>r \<in> set rs. wf_rail r" and "distinct (map fst v @ map rail_name rs)"
  shows "pmic_scan (map voltage_line rs) c v = (c, v @ map (\<lambda>r. (rail_name r, Fin (volts r))) rs)"
  using assms
proof (induction rs arbitrary: v)
  case Nil
  then show ?case by simp
next
  case (Cons r rs)
  have "rail_name r \<notin> fst ` set v" using Cons.prems(2) by auto
  then show ?case
    using Cons.IH [of "v @ [(rail_name r, Fin (volts r))]"] Cons.prems
    by (simp add: pmic_entry_voltage update_new_key)
qed

definition rail_watts :: "rail_reading list \<Rightarrow> real" where
  "rail_watts rs = sum_list (map (\<lambda>r. volts r * amps r) (filter (\<lambda>r. rail_name r \<notin> set BUS_RAILS) rs))"

lemma pmic_total_rails:
  assumes "\<forall>r \<in> set rs. map_of v (rail_name r) = Some (Fin (volts r))"
  shows "pmic_total v (map (\<lambda>r. (rail_name r, Fin (amps r))) rs) (Fin t) = Fin (t + rail_watts rs)"
proof -
  have "0 \<le> volts r * amps r" for r by (simp add: volts_def amps_def dec_value_def)
  then have "\<bar>volts r * amps r\<bar> = volts r * amps r" for r by (rule abs_of_nonneg)
  then show ?thesis using assms
    by (induction rs arbitrary: t) (simp_all add: rail_watts_def)
qed

lemma dec_text_line: "decimal_pair d \<Longrightarrow> \<forall>c \<in> set (dec_text (fst d) (snd d)). \<not> is_linebreak c"
  using dec_text_chars by (fastforce simp: is_linebreak_def is_digit_def)

lemma line_text_lines: "wf_rail r \<Longrightarrow> line_text (current_line r) \<and> line_text (voltage_line r)"
proof -
  assume r: "wf_rail r"
  then have "line_text (rail_name r)" by (simp add: wf_rail_def line_text_def name_char_def)
  moreover have "line_text (dec_text (fst (amps_text r)) (snd (amps_text r)))"
      "line_text (dec_text (fst (volts_text r)) (snd (volts_text r)))"
    using r dec_text_line unfolding line_text_def wf_rail_def by blast+
  ultimately show ?thesis by (simp add: current_line_def voltage_line_def is_linebreak_def)
qed

text \<open>On the PMIC's output the meter reads the sum of voltage times current over the rails
  that have both, in any number; the bus rails and voltages without a current do not count.\<close>

lemma vcgencmd_sums_rails:
  assumes "\<forall>r \<in> set (rs @ extra). wf_rail r" and "distinct (map rail_name (rs @ extra))"
  shows "vcgencmd_read_power_w (ProcExit 0 (unlines (map current_line rs @ map voltage_line rs @ map voltage_line extra)))
    = Inr (Fin (rail_watts rs))"
proof -
  let ?c = "map (\<lambda>r. (rail_name r, Fin (amps r))) rs"
  let ?v = "map (\<lambda>r. (rail_name r, Fin (volts r)))"
  have "\<forall>l \<in> set (map current_line rs @ map voltage_line (rs @ extra)). line_text l"
    using assms(1) line_text_lines by auto
  from splitlines_unlines [OF this, of "[]"]
  have "splitlines (unlines (map current_line rs @ map voltage_line (rs @ extra)))
      = map current_line rs @ map voltage_line (rs @ extra)" by simp
  moreover have "pmic_scan (map current_line rs) [] [] = (?c, [])"
    using assms by (subst pmic_scan_currents) auto
  moreover have "pmic_scan (map voltage_line (rs @ extra)) ?c [] = (?c, ?v (rs @ extra))"
    using assms by (subst pmic_scan_voltages) auto
  moreover have "\<forall>r \<in> set rs. map_of (?v (rs @ extra)) (rail_name r) = Some (Fin (volts r))"
    using assms(2) by (intro ballI map_of_is_SomeI) (auto simp: comp_def)
  then have "pmic_total (?v (rs @ extra)) ?c (Fin 0) = Fin (rail_watts rs)"
    using pmic_total_rails [of rs "?v (rs @ extra)" 0] by simp
  ultimately show ?thesis
    by (simp add: vcgencmd_read_power_w_def pmic_scan_append)
qed

lemma vcgencmd_sums_rails_witness:
  "vcgencmd_read_power_w (ProcExit 0 (unlines
      [''3V7_A current(0)=0.5A'', ''3V7_V volt(8)=4V'', ''EXT5V_V volt(8)=5.1V'']))
    = Inr (Fin (rail_watts [\<lparr>rail_name = ''3V7'', amps_text = (''0'', ''5''), volts_text = (''4'', [])\<rparr>]))"
proof -
  let ?r = "\<lparr>rail_name = ''3V7'', amps_text = (''0'', ''5''), volts_text = (''4'', [])\<rparr>"
  let ?e = "\<lparr>rail_name = ''EXT5V'', amps_text = (''0'', []), volts_text = (''5'', ''1'')\<rparr>"
  have "\<forall>r \<in> set ([?r] @ [?e]). wf_rail r" "distinct (map rail_name ([?r] @ [?e]))"
    by (simp_all add: wf_rail_def decimal_pair_def name_char_def is_space_def is_linebreak_def)
  from vcgencmd_sums_rails [OF this] show ?thesis
    by (simp add: current_line_def voltage_line_def dec_text_def)
qed

section \<open>The linear model\<close>

lemma clamp01_range: "\<exists>w. clamp01 u = Fin w \<and> 0 \<le> w \<and> w \<le> 1"
  by (cases u) (auto simp: clamp01_def f_max2_def f_min2_def)

definition provider_ok :: "pyfloat res \<Rightarrow> bool" where
  "provider_ok provided \<longleftrightarrow> (case provided of
     Inr _ \<Rightarrow> True | Inl (TypeError _) \<Rightarrow> True | Inl (ValueError _) \<Rightarrow> True | Inl _ \<Rightarrow> False)"

lemma static_read_range:
  assumes "idle \<le> maxw" and "provider_ok provided"
  shows "(\<exists>w. static_read_power_w idle maxw provided = Inr (Fin w) \<and> idle \<le> w \<and> w \<le> maxw)
    \<and> static_read_power_w idle maxw (Inr NaN) = Inr (Fin maxw)"
proof -
  have "\<exists>w. f_add (Fin idle) (f_mul (Fin (maxw - idle)) (clamp01 u)) = Fin w \<and> idle \<le> w \<and> w \<le> maxw" for u
  proof -
    obtain v where v: "clamp01 u = Fin v" "0 \<le> v" "v \<le> 1" using clamp01_range by blast
    have "0 \<le> (maxw - idle) * v" using assms v by simp
    moreover have "(maxw - idle) * v \<le> maxw - idle" using assms v by (simp add: mult_left_le)
    ultimately show ?thesis using v(1) by simp
  qed
  then have "\<exists>w. static_read_power_w idle maxw provided = Inr (Fin w) \<and> idle \<le> w \<and> w \<le> maxw"
    using assms(2) by (cases provided) (auto simp: provider_ok_def static_read_power_w_def split: pyerr.splits)
  then show ?thesis
    by (simp add: static_read_power_w_def clamp01_def f_max2_def f_min2_def)
qed

text \<open>The linear model's reading is a number between the idle and the maximal power whatever
  the provider returns, and also when it raises one of the two exceptions the meter
  catches; an undefined fraction counts as full load.\<close>

lemma static_meter_range:
  assumes "idle \<le> maxw" and "provider_ok provided"
  shows "(\<exists>w. static_read_power_w idle maxw provided = Inr (Fin w) \<and> idle \<le> w \<and> w \<le> maxw)
    \<and> static_read_power_w idle maxw (Inr NaN) = Inr (Fin maxw)"
  using assms by (rule static_read_range)

lemma static_meter_range_witness:
  "\<exists>w. static_read_power_w 2 4 (Inl (ValueError [])) = Inr (Fin w) \<and> 2 \<le> w \<and> w \<le> 4"
  using static_meter_range [of 2 4 "Inl (ValueError [])"] by (simp add: provider_ok_def)

section \<open>Hwmon detection\<close>

definition is_ina :: "dir \<Rightarrow> bool" where
  "is_ina d \<longleftrightarrow> (case d ''name'' of None \<Rightarrow> False | Some t \<Rightarrow> starts_with ''ina2'' (lower (strip t)))"

lemma autodetect_in_find:
  "autodetect_in es = (case find (\<lambda>e. is_ina (snd e)) es of
     None \<Rightarrow> Inr None | Some e \<Rightarrow> bind_res (new_hwmon (snd e)) (\<lambda>m. Inr (Some m)))"
  by (induction es rule: autodetect_in.induct) (simp_all add: is_ina_def split: option.splits)

lemma find_first_sorted:
  assumes "sorted (map f xs)" and "find P xs = Some x"
  shows "x \<in> set xs \<and> P x \<and> (\<forall>y \<in> set xs. P y \<longrightarrow> f x \<le> f y)"
  using assms by (induction xs) (auto split: if_splits)

lemma detect_channel_first:
  "detect_channel d = Inr ch \<Longrightarrow> ch \<in> {1..4} \<and> has_channel d ch \<and> (\<forall>c \<in> {1..<ch}. \<not> has_channel d c)"
  by (auto simp: detect_channel_def numeral_eq_Suc less_Suc_eq_le le_Suc_eq split: option.splits if_splits)

text \<open>A detected sensor is the one of the first entry, in name order, whose driver name is an
  INA2xx, and its channel is the lowest of the four that has a power file or both a voltage and a
  current file.\<close>

lemma hwmon_autodetect_first:
  assumes "hwmon_autodetect (Some entries) = Inr (Some m)"
  shows "\<exists>name. (name, hwmon_dir m) \<in> set entries \<and> is_ina (hwmon_dir m)
     \<and> (\<forall>(other, d) \<in> set entries. is_ina d \<longrightarrow> name \<le> other)
     \<and> hwmon_channel m \<in> {1..4} \<and> has_channel (hwmon_dir m) (hwmon_channel m)
     \<and> (\<forall>c \<in> {1..<hwmon_channel m}. \<not> has_channel (hwmon_dir m) c)"
proof -
  let ?es = "sort_key fst entries"
  obtain e where e: "find (\<lambda>e. is_ina (snd e)) ?es = Some e" "new_hwmon (snd e) = Inr m"
    using assms by (auto simp: hwmon_autodetect_def autodetect_in_find bind_res_Inr_iff split: option.splits)
  then have m: "hwmon_dir m = snd e" "detect_channel (snd e) = Inr (hwmon_channel m)"
    by (auto simp: new_hwmon_def bind_res_Inr_iff)
  have "sorted (map fst ?es)" by simp
  from find_first_sorted [OF this e(1)] detect_channel_first [OF m(2)] m(1) show ?thesis
    by (intro exI [of _ "fst e"]) auto
qed

definition ina_dir :: dir where
  "ina_dir = [''name'' \<mapsto> ''ina260'', ''power2_input'' \<mapsto> ''1500000'']"

lemma hwmon_autodetect_first_witness:
  "\<exists>m name. hwmon_autodetect (Some [(''hwmon1'', ina_dir), (''hwmon0'', Map.empty)]) = Inr (Some m)
     \<and> (name, hwmon_dir m) \<in> set [(''hwmon1'', ina_dir), (''hwmon0'', Map.empty)] \<and> hwmon_channel m = 2"
proof -
  let ?es = "[(''hwmon1'', ina_dir), (''hwmon0'', Map.empty)] :: (string \<times> dir) list"
  have le: "(''hwmon0'' :: string) \<le> ''hwmon1''" "\<not> (''hwmon1'' :: string) \<le> ''hwmon0''" by code_simp+
  have "is_ina ina_dir" by (simp add: is_ina_def ina_dir_def lower_def lower_char_def is_space_def)
  moreover have "detect_channel ina_dir = Inr 2"
    by (simp add: detect_channel_def has_channel_def channel_file_def ina_dir_def show_nat.simps)
  ultimately have eq: "hwmon_autodetect (Some ?es) = Inr (Some \<lparr>hwmon_dir = ina_dir, hwmon_channel = 2\<rparr>)"
    using le by (simp add: hwmon_autodetect_def autodetect_in_find is_ina_def new_hwmon_def)
  from hwmon_autodetect_first [OF this] eq show ?thesis by auto
qed

section \<open>The power sampler\<close>

definition positive_power :: "pyfloat \<Rightarrow> bool" where
  "positive_power p \<longleftrightarrow> \<not> is_nan p \<and> f_lt (Fin 0) p"

definition power_inv :: "power_sampler \<Rightarrow> bool" where
  "power_inv s \<longleftrightarrow> list_all positive_power (pw_samples s)"

definition power_le :: "power_sampler \<Rightarrow> power_sampler \<Rightarrow> bool" where
  "power_le s t \<longleftrightarrow> (\<exists>ps. pw_samples t = pw_samples s @ ps) \<and> pw_t0 t = pw_t0 s \<and> pw_t1 t = pw_t1 s"

interpretation power_polled: polled power_step pw_stop power_inv power_le
  by unfold_locales
     (auto simp: power_step_def power_inv_def power_le_def positive_power_def split: sum.splits)

text \<open>The values the thread keeps: those before the first exception that are positive.\<close>

fun kept_powers :: "pyfloat res list \<Rightarrow> pyfloat list" where
  "kept_powers [] = []"
| "kept_powers (Inl e # rs) = []"
| "kept_powers (Inr p # rs) = (if positive_power p then p # kept_powers rs else kept_powers rs)"

lemma power_loop_samples:
  "\<not> pw_stop s \<Longrightarrow> pw_samples (snd (power_loop rs s)) = pw_samples s @ kept_powers rs"
proof (induction rs arbitrary: s rule: kept_powers.induct)
  case (3 p rs)
  then show ?case
    by (auto simp: power_loop_def power_step_def andthen_def positive_power_def)
qed (simp_all add: power_loop_def power_step_def andthen_def)

lemma power_loop_times: "power_inv s \<Longrightarrow> pw_t0 (snd (power_loop rs s)) = pw_t0 s"
  using power_polled.loop_inv_le [of s rs] by (simp add: power_loop_def power_le_def)

lemma power_step_method: "pw_method (snd (power_step r s)) = pw_method s \<and> pw_thread (snd (power_step r s)) = pw_thread s"
  by (auto simp: power_step_def split: sum.splits)

lemma power_loop_method:
  "pw_method (snd (power_loop rs s)) = pw_method s \<and> pw_thread (snd (power_loop rs s)) = pw_thread s"
proof (induction rs arbitrary: s)
  case Nil
  then show ?case by (simp add: power_loop_def)
next
  case (Cons r rs)
  then show ?case using power_step_method [of r s]
    by (cases "power_step r s") (auto simp: power_loop_def andthen_def split: sum.splits)
qed

lemma power_session_state:
  assumes "power_session t0 t1 rs (new_power_sampler m) = (q, s)"
  shows "pw_samples s = kept_powers rs" and "pw_t0 s = Some t0" and "pw_t1 s = Some t1" and "pw_method s = m"
proof -
  let ?s0 = "(new_power_sampler m)\<lparr>pw_t0 := Some t0, pw_thread := True\<rparr>"
  have s: "s = power_stop t1 (snd (power_loop rs ?s0))"
    using assms by (simp add: power_session_def andthen_def power_start_def new_power_sampler_def)
  have "power_inv ?s0" "\<not> pw_stop ?s0" by (simp_all add: power_inv_def new_power_sampler_def)
  then show "pw_samples s = kept_powers rs" "pw_t0 s = Some t0" "pw_t1 s = Some t1" "pw_method s = m"
    using power_loop_method [of rs ?s0] power_loop_samples [of ?s0 rs] power_loop_times [of ?s0 rs]
    by (simp_all add: s power_stop_def) (simp_all add: new_power_sampler_def)
qed

text \<open>From the positive readings \<open>ws\<close> of one session the summary gives their mean and peak,
  the mean not above the peak, the energy as mean power times the session's length, and the energy per
  authentication as a thousandth part per counted authentication, at least one.\<close>

lemma power_summary_arithmetic:
  assumes "power_session t0 t1 rs (new_power_sampler m) = (q, s)"
    and "kept_powers rs = map Fin ws" and "ws \<noteq> []" and "t0 \<noteq> 0" and "t1 \<noteq> 0"
  shows "\<exists>r mean. power_summary n1 n0 n s = Inr r
    \<and> mean = sum_list ws / real (length ws) \<and> er_samples r = length ws \<and> er_duration_s r = t1 - t0
    \<and> mean_power_w r = Fin mean \<and> peak_power_w r = Fin (Max (set ws)) \<and> mean \<le> Max (set ws)
    \<and> energy_j r = Fin (mean * (t1 - t0))
    \<and> energy_per_auth_mJ r = Fin (mean * (t1 - t0) / real_of_int (max 1 n) * 1000)"
proof -
  note st = power_session_state [OF assms(1)]
  obtain w ws' where ws: "ws = w # ws'" using assms(3) by (cases ws) auto
  have len: "f_div_nat (Fin x) (length ws) = Inr (Fin (x / real (length ws)))" for x
    by (simp add: ws)
  have peak: "f_max_list (map Fin ws) = Inr (Fin (Max (set ws)))"
    by (simp add: ws foldl_f_max2_Fin foldl_max_Max)
  obtain k where k: "nat (max 1 n) = Suc k" by (cases "nat (max 1 n)") auto
  then have "int (Suc k) = max 1 n" by linarith
  then have "real_of_int (int (Suc k)) = real_of_int (max 1 n)" by (rule arg_cong)
  then have kn: "1 + real k = real_of_int (max 1 n)" by simp
  have "f_sum (map Fin ws) = Fin (sum_list ws)" by (rule f_sum_Fin)
  moreover have "sum_list ws / real (length ws) \<le> Max (set ws)"
    using sum_list_le_mult [of ws "Max (set ws)"] assms(3) by (simp add: divide_le_eq mult.commute)
  ultimately show ?thesis using assms(2-5) st len peak
    by (simp add: power_summary_def time_or_def Let_def k kn)
qed

lemma power_summary_arithmetic_witness:
  "\<exists>s r. power_session 10 12 [Inr (Fin 3), Inr NaN, Inr (Fin 5)] (new_power_sampler ''pmic'') = (Inr (), s)
     \<and> power_summary 0 0 4 s = Inr r \<and> energy_j r = Fin 8"
proof -
  let ?rs = "[Inr (Fin 3), Inr NaN, Inr (Fin 5)] :: pyfloat res list"
  obtain q s where s: "power_session 10 12 ?rs (new_power_sampler ''pmic'') = (q, s)" by fastforce
  then have q: "q = Inr ()" by (simp add: power_session_def andthen_def power_start_def new_power_sampler_def)
  have "kept_powers ?rs = map Fin [3, 5]" by (simp add: positive_power_def is_nan_def)
  from power_summary_arithmetic [OF s this, of 0 0 4] q s show ?thesis by auto
qed

lemma positive_sum: "positive_power a \<or> (a = Fin 0 \<and> ps \<noteq> []) \<Longrightarrow> list_all positive_power ps \<Longrightarrow> positive_power (foldl f_add a ps)"
proof (induction ps arbitrary: a)
  case Nil
  then show ?case by simp
next
  case (Cons p ps)
  then have "positive_power (f_add a p)"
    by (cases a; cases p) (auto simp: positive_power_def is_nan_def)
  then show ?case using Cons by simp
qed

lemma kept_powers_positive: "list_all positive_power (kept_powers rs)"
  by (induction rs rule: kept_powers.induct) auto

text \<open>The summary of a session never raises, not even for no authentication at all; it counts
  the kept readings, and its mean is undefined exactly when there are none.\<close>

lemma power_summary_total:
  assumes "power_session t0 t1 rs (new_power_sampler m) = (q, s)"
  shows "\<exists>r. power_summary n1 n0 n s = Inr r \<and> er_samples r = length (kept_powers rs)
    \<and> (mean_power_w r = NaN \<longleftrightarrow> kept_powers rs = [])"
proof (cases "kept_powers rs = []")
  case True
  then show ?thesis using power_session_state [OF assms] by (simp add: power_summary_def Let_def)
next
  case False
  obtain k where k: "length (kept_powers rs) = Suc k" using False by (cases "kept_powers rs") auto
  obtain j where j: "nat (max 1 n) = Suc j" by (cases "nat (max 1 n)") auto
  have "positive_power (f_sum (kept_powers rs))"
    unfolding f_sum_def by (rule positive_sum) (use False kept_powers_positive in auto)
  then obtain mean where mean: "f_div_nat (f_sum (kept_powers rs)) (Suc k) = Inr mean" "mean \<noteq> NaN"
    by (cases "f_sum (kept_powers rs)") (auto simp: positive_power_def is_nan_def)
  obtain peak where peak: "f_max_list (kept_powers rs) = Inr peak" using False by (cases "kept_powers rs") auto
  let ?energy = "f_mul mean (Fin (time_or (pw_t1 s) n1 - time_or (pw_t0 s) n0))"
  obtain per where per: "f_div_nat ?energy (Suc j) = Inr per" by (cases ?energy) auto
  show ?thesis using False k j mean peak per power_session_state(1) [OF assms]
    by (simp add: power_summary_def Let_def)
qed

lemma power_summary_total_witness:
  "\<exists>s r. power_session 10 12 [Inr NaN, Inl ZeroDivisionError, Inr (Fin 5)] (new_power_sampler ''pmic'') = (Inr (), s)
     \<and> power_summary 0 0 0 s = Inr r \<and> er_samples r = 0 \<and> mean_power_w r = NaN"
proof -
  let ?rs = "[Inr NaN, Inl ZeroDivisionError, Inr (Fin 5)] :: pyfloat res list"
  obtain q s where s: "power_session 10 12 ?rs (new_power_sampler ''pmic'') = (q, s)" by fastforce
  then have q: "q = Inr ()" by (simp add: power_session_def andthen_def power_start_def new_power_sampler_def)
  from power_summary_total [OF s, of 0 0 0] q s show ?thesis by (auto simp: positive_power_def is_nan_def)
qed

end
