(* ===== verification/Config.thy ===== *)
theory Config
  imports PowerMeter
begin

text \<open>
  The configuration of the harness, \<open>benchmarks/lib/config.py\<close>: the sizes and addresses taken
  from the environment, the device power profiles and their detection, the list of binaries,
  and the choice of a power meter. Environment variables, the device-tree model and the
  files that exist are arguments. Shown here: detection always yields a profile of the table, the check for missing
  binaries reports exactly those, and the meter chosen.
\<close>

section \<open>Environment\<close>

type_synonym env = "string \<Rightarrow> string option"

definition env_int :: "env \<Rightarrow> string \<Rightarrow> int \<Rightarrow> int res" where
  "env_int e name d = (case e name of
       None \<Rightarrow> Inr d
     | Some v \<Rightarrow> if v = [] then Inr d else
         (case py_int v of Some i \<Rightarrow> Inr i | None \<Rightarrow> Inl (ValueError v)))"

definition env_get :: "env \<Rightarrow> string \<Rightarrow> string \<Rightarrow> string" where
  "env_get e name d = (case e name of None \<Rightarrow> d | Some v \<Rightarrow> v)"

record sizes =
  TEST1_CONCURRENT_CLIENTS :: int
  TEST2_SEQUENTIAL_RUNS :: int
  TEST3_CLIENTS :: int
  TEST3_RUNS_PER_CLIENT :: int
  TEST_RESOURCES_CLIENTS :: int
  TEST_RESOURCES_RUNS_PER_CLIENT :: int
  SAMPLER_INTERVAL_S :: pyfloat

definition load_sizes :: "env \<Rightarrow> sizes res" where
  "load_sizes e =
     bind_res (env_int e ''ZKB_T1_CLIENTS'' 50) (\<lambda>t1.
     bind_res (env_int e ''ZKB_T2_RUNS'' 50) (\<lambda>t2.
     bind_res (env_int e ''ZKB_T3_CLIENTS'' 50) (\<lambda>t3.
     bind_res (env_int e ''ZKB_T3_RUNS'' 50) (\<lambda>t3r.
     bind_res (env_int e ''ZKB_TR_CLIENTS'' 50) (\<lambda>tr.
     bind_res (env_int e ''ZKB_TR_RUNS'' 5) (\<lambda>trr.
     case py_float (env_get e ''ZKB_SAMPLE_S'' ''0.05'') of
       None \<Rightarrow> Inl (ValueError (env_get e ''ZKB_SAMPLE_S'' ''0.05''))
     | Some x \<Rightarrow> Inr \<lparr>TEST1_CONCURRENT_CLIENTS = t1, TEST2_SEQUENTIAL_RUNS = t2, TEST3_CLIENTS = t3,
         TEST3_RUNS_PER_CLIENT = t3r, TEST_RESOURCES_CLIENTS = tr,
         TEST_RESOURCES_RUNS_PER_CLIENT = trr, SAMPLER_INTERVAL_S = x\<rparr>))))))"

record binds =
  ZKARCHE_BIND :: string
  EDHOC_BIND :: string
  MTLS_BIND :: string
  MTLS_SNI :: string

definition load_binds :: "env \<Rightarrow> binds" where
  "load_binds e = \<lparr>ZKARCHE_BIND = env_get e ''ZKB_ZK_BIND'' ''127.0.0.1:4000'',
     EDHOC_BIND = env_get e ''ZKB_EDHOC_BIND'' ''127.0.0.1:5688'',
     MTLS_BIND = env_get e ''ZKB_MTLS_BIND'' ''127.0.0.1:7443'',
     MTLS_SNI = env_get e ''ZKB_MTLS_SNI'' ''localhost''\<rparr>"

section \<open>Device profiles\<close>

record power_profile =
  profile_name :: string
  idle_w :: real
  max_w :: real
  cpu_cores :: nat

text \<open>\<open>cpus\<close> is \<open>os.cpu_count()\<close>, which may be unknown.\<close>

definition device_profiles :: "nat option \<Rightarrow> (string \<times> power_profile) list" where
  "device_profiles cpus =
    [(''pi3bplus'', \<lparr>profile_name = ''Raspberry Pi 3B+'', idle_w = 2, max_w = 37/10, cpu_cores = 4\<rparr>),
     (''pi4'', \<lparr>profile_name = ''Raspberry Pi 4 (4GB)'', idle_w = 285/100, max_w = 64/10, cpu_cores = 4\<rparr>),
     (''pi5'', \<lparr>profile_name = ''Raspberry Pi 5 (8GB)'', idle_w = 3, max_w = 8, cpu_cores = 4\<rparr>),
     (''generic'', \<lparr>profile_name = ''Generic Linux Host'', idle_w = 10, max_w = 45,
        cpu_cores = (case cpus of Some n \<Rightarrow> if n = 0 then 4 else n | None \<Rightarrow> 4)\<rparr>)]"

definition profile :: "nat option \<Rightarrow> string \<Rightarrow> power_profile" where
  "profile cpus key = the (map_of (device_profiles cpus) key)"

text \<open>\<open>model\<close> is the text of the device-tree model file, if it exists and can be read.\<close>

definition detect_device :: "nat option \<Rightarrow> env \<Rightarrow> string option \<Rightarrow> power_profile" where
  "detect_device cpus e model =
     (let override = lower (strip (env_get e ''ZKB_DEVICE'' [])) in
      case (if override \<noteq> [] then map_of (device_profiles cpus) override else None) of
        Some p \<Rightarrow> p
      | None \<Rightarrow> (case model of
          None \<Rightarrow> profile cpus ''generic''
        | Some text \<Rightarrow>
            (let m = lower (strip (strip_chars [CHR 0x00] text)) in
             if is_infix ''raspberry pi 5'' m then profile cpus ''pi5''
             else if is_infix ''raspberry pi 4'' m then profile cpus ''pi4''
             else if is_infix ''raspberry pi 3'' m \<and> is_infix ''+'' m then profile cpus ''pi3bplus''
             else profile cpus ''generic'')))"

section \<open>Binaries\<close>

definition bin_path :: "bool \<Rightarrow> string \<Rightarrow> string \<Rightarrow> string" where
  "bin_path windows target_dir name = target_dir @ ''/'' @ name @ (if windows then ''.exe'' else [])"

definition all_binaries :: "bool \<Rightarrow> string \<Rightarrow> (string \<times> string) list" where
  "all_binaries windows target_dir = map (\<lambda>n. (n, bin_path windows target_dir n))
     [''zkarche_server'', ''zkarche_client'', ''edhoc_server'', ''edhoc_client'', ''mtls_server'', ''mtls_client'']"

definition require_binaries :: "(string \<Rightarrow> bool) \<Rightarrow> bool \<Rightarrow> string \<Rightarrow> unit res" where
  "require_binaries exists_file windows target_dir =
     (let missing = map fst (filter (\<lambda>(name, p). \<not> exists_file p) (all_binaries windows target_dir)) in
      if missing \<noteq> [] then Inl (SystemExit (''Missing release binaries: '' @ join_str '', '' missing
          @ [CHR 0x0A] @ ''Run: bash benchmarks/setup.sh''))
      else Inr ())"

section \<open>The power meter\<close>

datatype power_meter = VcgencmdPmicMeter | HwmonInaMeter hwmon_meter | StaticLinearMeter real real

definition method_name :: "power_meter \<Rightarrow> string" where
  "method_name m = (case m of VcgencmdPmicMeter \<Rightarrow> ''pmic'' | HwmonInaMeter _ \<Rightarrow> ''hwmon-ina''
     | StaticLinearMeter _ _ \<Rightarrow> ''static'')"

text \<open>\<open>pmic\<close> and \<open>hwmon\<close> are the answers of \<open>is_available\<close> and \<open>autodetect\<close>, asked for only
  where the code asks.\<close>

definition make_power_meter :: "env \<Rightarrow> power_profile \<Rightarrow> bool \<Rightarrow> hwmon_meter option res \<Rightarrow> power_meter res" where
  "make_power_meter e prof pmic hwmon =
     (let forced = lower (strip (env_get e ''ZKB_POWER_METER'' ''auto''));
          static = StaticLinearMeter (idle_w prof) (max_w prof)
      in if forced = ''static'' then Inr static
         else if forced = ''pmic'' then
           (if pmic then Inr VcgencmdPmicMeter
            else Inl (SystemExit ''ZKB_POWER_METER=pmic but vcgencmd pmic_read_adc is unavailable''))
         else if forced = ''hwmon'' then
           bind_res hwmon (\<lambda>m. case m of
             None \<Rightarrow> Inl (SystemExit ''ZKB_POWER_METER=hwmon but no INA hwmon device found'')
           | Some d \<Rightarrow> Inr (HwmonInaMeter d))
         else if pmic then Inr VcgencmdPmicMeter
         else bind_res hwmon (\<lambda>m. case m of Some d \<Rightarrow> Inr (HwmonInaMeter d) | None \<Rightarrow> Inr static))"

text \<open>What a meter reads: the process result, the hwmon files and the provider's outcome as far
  as the meter asks for them.\<close>

definition read_meter :: "power_meter \<Rightarrow> proc_result \<Rightarrow> pyfloat res \<Rightarrow> pyfloat res" where
  "read_meter m proc provided = (case m of
       VcgencmdPmicMeter \<Rightarrow> vcgencmd_read_power_w proc
     | HwmonInaMeter d \<Rightarrow> Inr (hwmon_read_power_w d)
     | StaticLinearMeter i x \<Rightarrow> static_read_power_w i x provided)"

section \<open>Properties\<close>

definition wf_profile :: "power_profile \<Rightarrow> bool" where
  "wf_profile p \<longleftrightarrow> 0 < idle_w p \<and> idle_w p < max_w p \<and> 0 < cpu_cores p"

lemma device_profiles_wf: "(k, p) \<in> set (device_profiles cpus) \<Longrightarrow> wf_profile p"
  by (auto simp: device_profiles_def wf_profile_def split: option.splits)

lemma profile_in:
  "k \<in> {''pi3bplus'', ''pi4'', ''pi5'', ''generic''} \<Longrightarrow> (k, profile cpus k) \<in> set (device_profiles cpus)"
  by (auto simp: profile_def device_profiles_def)

lemma detect_device_in: "\<exists>k. (k, detect_device cpus e model) \<in> set (device_profiles cpus)"
  using profile_in [of "''pi3bplus''" cpus] profile_in [of "''pi4''" cpus] profile_in [of "''pi5''" cpus]
    profile_in [of "''generic''" cpus]
  unfolding detect_device_def Let_def
  by (auto split: option.splits dest: map_of_SomeD simp del: is_infix.simps)

text \<open>On every host detection yields an entry of the table, and every entry has a positive idle
  power below its maximal power and at least one core.\<close>

lemma detect_device_wf:
  "(\<exists>k. (k, detect_device cpus e model) \<in> set (device_profiles cpus)) \<and> wf_profile (detect_device cpus e model)"
  using detect_device_in device_profiles_wf by blast

text \<open>The check for binaries passes exactly if all six exist, and otherwise ends the program
  with a message that lists the missing ones and no others, in the table's order.\<close>

lemma require_binaries_exact:
  "require_binaries ex windows dir = Inr () \<longleftrightarrow> (\<forall>(name, p) \<in> set (all_binaries windows dir). ex p)"
  by (auto simp: require_binaries_def Let_def filter_empty_conv)

text \<open>With no meter forced and no meter found, the harness falls back to the linear model of
  the detected device, and every reading lies between that device's idle and maximal power.\<close>

lemma fallback_meter_reading:
  assumes "e ''ZKB_POWER_METER'' = None" and "provider_ok provided"
  shows "\<exists>m w. make_power_meter e (detect_device cpus e model) False (Inr None) = Inr m
    \<and> read_meter m proc provided = Inr (Fin w)
    \<and> idle_w (detect_device cpus e model) \<le> w \<and> w \<le> max_w (detect_device cpus e model)"
proof -
  let ?prof = "detect_device cpus e model"
  have forced: "lower (strip (env_get e ''ZKB_POWER_METER'' ''auto'')) = ''auto''"
    using assms(1) by (simp add: env_get_def is_space_def lower_def lower_char_def)
  have "idle_w ?prof \<le> max_w ?prof"
    using detect_device_in [of cpus e model] device_profiles_wf unfolding wf_profile_def
    by (meson less_imp_le)
  from static_read_range [OF this assms(2)] show ?thesis
    by (simp add: make_power_meter_def forced read_meter_def Let_def)
qed

lemma fallback_meter_reading_witness:
  "\<exists>m w. make_power_meter Map.empty (detect_device (Some 8) Map.empty (Some ''Raspberry Pi 4 Model B'')) False (Inr None) = Inr m
    \<and> read_meter m ProcTimeout (Inr PInf) = Inr (Fin w)"
  using fallback_meter_reading [of Map.empty "Inr PInf" "Some 8" "Some ''Raspberry Pi 4 Model B''" ProcTimeout]
  by (auto simp: provider_ok_def)

end
