(* ===== verification/Protocols.thy ===== *)
theory Protocols
  imports Runner Config
begin

text \<open>
  The protocol glue, \<open>benchmarks/lib/protocols.py\<close>: the command lines of the three protocols,
  their registry, the certificate check of mTLS and the enrollment of ZK-ARCHE clients. Shown
  here: pairing reaches a server only when asked for, and enrollment starts every
  client from a clean state and counts the enrolled ones.
\<close>

section \<open>Command lines\<close>

definition PAIRING_TOKEN :: string where
  "PAIRING_TOKEN = ''zkb-bench-token''"

record protocol =
  pr_name :: string
  pr_display :: string
  pr_server_bin :: string
  pr_client_bin :: string
  pr_bind_addr :: string
  pr_server_args :: "string \<Rightarrow> bool \<Rightarrow> string list"
  pr_client_args :: "string \<Rightarrow> string list"
  pr_client_setup_args :: "(string \<Rightarrow> string list) option"
  pr_requires_enroll :: bool

definition zk_server_args :: "binds \<Rightarrow> string \<Rightarrow> bool \<Rightarrow> string list" where
  "zk_server_args b workdir pairing = [''--bind'', ZKARCHE_BIND b]
     @ (if pairing then [''--pairing'', ''--pairing-token'', PAIRING_TOKEN] else [])"

definition zk_client_args :: "binds \<Rightarrow> string \<Rightarrow> string list" where
  "zk_client_args b workdir = [''--server'', ZKARCHE_BIND b]"

definition zk_client_setup_args :: "binds \<Rightarrow> string \<Rightarrow> string list" where
  "zk_client_setup_args b workdir = [''--server'', ZKARCHE_BIND b, ''--setup'', ''--pairing-token'', PAIRING_TOKEN]"

definition edhoc_server_args :: "binds \<Rightarrow> string \<Rightarrow> bool \<Rightarrow> string list" where
  "edhoc_server_args b workdir pairing = [EDHOC_BIND b]"

definition edhoc_client_args :: "binds \<Rightarrow> string \<Rightarrow> string list" where
  "edhoc_client_args b workdir = [EDHOC_BIND b]"

definition mtls_server_args :: "binds \<Rightarrow> string \<Rightarrow> bool \<Rightarrow> string list" where
  "mtls_server_args b workdir pairing = [MTLS_BIND b]"

definition mtls_client_args :: "binds \<Rightarrow> string \<Rightarrow> string list" where
  "mtls_client_args b workdir = [MTLS_BIND b, MTLS_SNI b]"

text \<open>The registry; \<open>bin\<close> gives the path of a binary.\<close>

definition PROTOCOLS :: "binds \<Rightarrow> (string \<Rightarrow> string) \<Rightarrow> (string \<times> protocol) list" where
  "PROTOCOLS b bin =
    [(''zkarche'', \<lparr>pr_name = ''zkarche'', pr_display = ''ZK-ARCHE'', pr_server_bin = bin ''zkarche_server'',
        pr_client_bin = bin ''zkarche_client'', pr_bind_addr = ZKARCHE_BIND b,
        pr_server_args = zk_server_args b, pr_client_args = zk_client_args b,
        pr_client_setup_args = Some (zk_client_setup_args b), pr_requires_enroll = True\<rparr>),
     (''edhoc'', \<lparr>pr_name = ''edhoc'', pr_display = ''EDHOC'', pr_server_bin = bin ''edhoc_server'',
        pr_client_bin = bin ''edhoc_client'', pr_bind_addr = EDHOC_BIND b,
        pr_server_args = edhoc_server_args b, pr_client_args = edhoc_client_args b,
        pr_client_setup_args = None, pr_requires_enroll = False\<rparr>),
     (''mtls'', \<lparr>pr_name = ''mtls'', pr_display = ''mTLS'', pr_server_bin = bin ''mtls_server'',
        pr_client_bin = bin ''mtls_client'', pr_bind_addr = MTLS_BIND b,
        pr_server_args = mtls_server_args b, pr_client_args = mtls_client_args b,
        pr_client_setup_args = None, pr_requires_enroll = False\<rparr>)]"

section \<open>Certificates\<close>

text \<open>\<open>exists_file\<close> tells which files exist and \<open>script_exit\<close> the exit code of the generator script; the
  result says whether the script was run.\<close>

definition ensure_mtls_certs :: "(string \<Rightarrow> bool) \<Rightarrow> int \<Rightarrow> string \<Rightarrow> bool res" where
  "ensure_mtls_certs exists_file script_exit repo_root =
     (let certs_dir = repo_root @ ''/certs''; script = repo_root @ ''/scripts/gen_certs.sh'' in
      if exists_file (certs_dir @ ''/server.crt'') \<and> exists_file (certs_dir @ ''/client.crt'') then Inr False
      else if \<not> exists_file script then Inl (RuntimeError ''mTLS certs missing and gen_certs.sh not found'')
      else if script_exit \<noteq> 0 then Inl CalledProcessError
      else Inr True)"

section \<open>Enrollment\<close>

text \<open>\<open>client wd t\<close> is what the enrolling client does in a working directory with the files \<open>t\<close>: how it ends, the files it
  leaves and the wall time.\<close>

type_synonym enroll_client = "string \<Rightarrow> tree \<Rightarrow> client_outcome \<times> tree \<times> real"

definition wipe_state :: "string \<Rightarrow> tree \<Rightarrow> tree" where
  "wipe_state sub t = (\<lambda>f. if starts_with (sub @ ''/'') f then None else t f)"

definition device_root :: string where
  "device_root = ''state/client/device_root.bin''"

definition tree_at :: "fs \<Rightarrow> string \<Rightarrow> tree" where
  "tree_at w d = (case w d of None \<Rightarrow> Map.empty | Some t \<Rightarrow> t)"

definition enroll_one :: "enroll_client \<Rightarrow> bool \<Rightarrow> string \<Rightarrow> (fs, bool) eff" where
  "enroll_one client fail_on_error wd w =
     (case client wd (wipe_state ''state'' (tree_at w wd)) of (oc, t, elapsed) \<Rightarrow>
        (let w' = w(wd \<mapsto> t) in
         case run_client_once ''30.0'' 0 0 oc elapsed of
           Inl e \<Rightarrow> (Inl e, w')
         | Inr result \<Rightarrow>
             if cr_success result \<or> t device_root \<noteq> None then (Inr True, w')
             else if fail_on_error then
               (Inl (RuntimeError (''[zkarche] enrollment failed for '' @ wd @ '': ''
                  @ (if cr_stderr_tail result \<noteq> [] then cr_stderr_tail result else ''no metrics line''))), w')
             else (Inr False, w')))"

fun enroll_zkarche_clients :: "enroll_client \<Rightarrow> bool \<Rightarrow> string list \<Rightarrow> nat \<Rightarrow> (fs, nat) eff" where
  "enroll_zkarche_clients client fail_on_error [] ok = ret ok"
| "enroll_zkarche_clients client fail_on_error (wd # wds) ok =
     andthen (enroll_one client fail_on_error wd) (\<lambda>done.
       enroll_zkarche_clients client fail_on_error wds (if done then Suc ok else ok))"

definition reset_server_state :: "tree \<Rightarrow> tree" where
  "reset_server_state repo = wipe_state ''state/server'' repo"

section \<open>Properties\<close>

text \<open>For every protocol of the registry the arguments of a server started without pairing are a prefix of
  those with pairing, and the pairing switch and the token appear only if pairing is asked for
  and the protocol enrolls its clients.\<close>

lemma pairing_only_when_asked:
  assumes "(name, p) \<in> set (PROTOCOLS b bin)"
    and "''--pairing'' \<notin> {ZKARCHE_BIND b, EDHOC_BIND b, MTLS_BIND b}"
  shows "(\<exists>extra. pr_server_args p wd True = pr_server_args p wd False @ extra)
    \<and> ''--pairing'' \<notin> set (pr_server_args p wd False)
    \<and> (''--pairing'' \<in> set (pr_server_args p wd True) \<longleftrightarrow> pr_requires_enroll p)
    \<and> (pr_client_setup_args p \<noteq> None \<longleftrightarrow> pr_requires_enroll p)"
  using assms
  by (auto simp: PROTOCOLS_def zk_server_args_def edhoc_server_args_def mtls_server_args_def)

lemma pairing_only_when_asked_witness:
  "\<exists>p. map_of (PROTOCOLS (load_binds Map.empty) (bin_path False ''t'')) ''zkarche'' = Some p
    \<and> ''--pairing'' \<in> set (pr_server_args p ''w'' True) \<and> ''--pairing'' \<notin> set (pr_server_args p ''w'' False)"
proof -
  let ?b = "load_binds Map.empty"
  obtain p where p: "map_of (PROTOCOLS ?b (bin_path False ''t'')) ''zkarche'' = Some p" "pr_requires_enroll p"
    by (simp add: PROTOCOLS_def)
  have "''--pairing'' \<notin> {ZKARCHE_BIND ?b, EDHOC_BIND ?b, MTLS_BIND ?b}"
    by (simp add: load_binds_def env_get_def)
  from pairing_only_when_asked [OF map_of_SomeD [OF p(1)] this, of "''w''"] p show ?thesis by blast
qed

lemma enroll_count_bounds:
  "enroll_zkarche_clients client foe wds ok w = (Inr n, w') \<Longrightarrow>
   ok \<le> n \<and> n \<le> ok + length wds \<and> (foe \<longrightarrow> n = ok + length wds)"
proof (induction wds arbitrary: ok w)
  case Nil
  then show ?case by simp
next
  case (Cons wd wds)
  obtain q w1 where one: "enroll_one client foe wd w = (q, w1)" by fastforce
  show ?case
  proof (cases q)
    case (Inl e)
    then show ?thesis using Cons.prems one by (simp add: andthen_def)
  next
    case (Inr d)
    then have d: "foe \<Longrightarrow> d" using one
      by (auto simp: enroll_one_def Let_def split: prod.splits sum.splits if_splits)
    have "enroll_zkarche_clients client foe wds (if d then Suc ok else ok) w1 = (Inr n, w')"
      using Cons.prems one Inr by (simp add: andthen_def)
    from Cons.IH [OF this] d show ?thesis by (auto split: if_splits)
  qed
qed

lemma wipe_state_clean: "wipe_state sub t f = (if starts_with (sub @ ''/'') f then None else t f)"
  by (simp add: wipe_state_def)

lemma enroll_one_cong:
  "(\<And>t. \<forall>f. starts_with ''state/'' f \<longrightarrow> t f = None \<Longrightarrow> c wd t = c' wd t) \<Longrightarrow> enroll_one c foe wd w = enroll_one c' foe wd w"
  by (simp add: enroll_one_def wipe_state_clean)

text \<open>Every client enrolls from a working directory without old state: the outcome depends on the
  client's behaviour in such directories only. With failures raising, a normal return means that all
  clients are enrolled.\<close>

lemma enrollment_clean_and_complete:
  assumes "\<And>wd t. \<forall>f. starts_with ''state/'' f \<longrightarrow> t f = None \<Longrightarrow> client wd t = client' wd t"
  shows "enroll_zkarche_clients client foe wds 0 w = enroll_zkarche_clients client' foe wds 0 w
    \<and> (\<forall>n w'. enroll_zkarche_clients client True wds 0 w = (Inr n, w') \<longrightarrow> n = length wds)"
proof
  have "enroll_zkarche_clients client foe wds ok = enroll_zkarche_clients client' foe wds ok" for ok
  proof (induction wds arbitrary: ok)
    case (Cons wd wds)
    have "enroll_one client foe wd = enroll_one client' foe wd"
      using assms by (intro ext enroll_one_cong) blast
    then show ?case using Cons by simp
  qed simp
  then show "enroll_zkarche_clients client foe wds 0 w = enroll_zkarche_clients client' foe wds 0 w" by simp
  show "\<forall>n w'. enroll_zkarche_clients client True wds 0 w = (Inr n, w') \<longrightarrow> n = length wds"
    using enroll_count_bounds [of client True wds 0 w] by auto
qed

definition demo_client :: enroll_client where
  "demo_client wd t = (ClientExit 0 [] [], t(device_root \<mapsto> ''key''), 1)"

lemma enrollment_clean_and_complete_witness:
  "\<exists>w'. enroll_zkarche_clients demo_client True [''a'', ''b''] 0 Map.empty = (Inr 2, w')
    \<and> enroll_zkarche_clients (\<lambda>wd t. if t device_root = None then demo_client wd t else (ClientTimeout, t, 0)) True [''a'', ''b''] 0 Map.empty = (Inr 2, w')"
proof -
  let ?c = "\<lambda>wd t. if t device_root = None then demo_client wd t else (ClientTimeout, t, 0)"
  obtain q w' where s: "enroll_zkarche_clients demo_client True [''a'', ''b''] 0 Map.empty = (q, w')" by fastforce
  have "demo_client wd t = ?c wd t" if "\<forall>f. starts_with ''state/'' f \<longrightarrow> t f = None" for wd t
    using that by (simp add: device_root_def)
  note e = enrollment_clean_and_complete [of demo_client ?c, OF this, of True "[''a'', ''b'']" Map.empty]
  have "first_client_metrics [] = Inr None" by (simp add: first_client_metrics_def)
  then have "\<exists>n. q = Inr n" using s
    by (auto simp: andthen_def enroll_one_def demo_client_def run_client_once_def Let_def)
  then show ?thesis using e s by auto
qed

end
