(* ===== verification/Sampler.thy ===== *)
theory Sampler
  imports Poller PyFloat
begin

text \<open>
  The process sampler, \<open>benchmarks/lib/sampler.py\<close>: the parsers of \<open>/proc/[pid]/stat\<close> and
  \<open>/proc/[pid]/status\<close>, the sampling step, the thread's life cycle and the summary. The host's page size,
  clock rate and processor count are a parameter. Shown here: the \<open>stat\<close> parser is correct for
  every command name, the peak is the largest resident size seen, the processor
  samples add up to the ticks between the first and the last sample, and the summary's
  bounds.
\<close>

section \<open>The host and the proc files\<close>

record host =
  page_size :: int
  clk_tck :: int
  ncpu :: nat

definition rfind :: "char \<Rightarrow> string \<Rightarrow> nat option" where
  "rfind c s = (case rpartition_at c s of (a, found, _) \<Rightarrow> if found then Some (length a) else None)"

text \<open>The fields after the command name. \<open>None\<close> is the code's \<open>None\<close>: the file is missing, or
  a field is missing or no integer.\<close>

definition stat_field :: "string list \<Rightarrow> nat \<Rightarrow> int option" where
  "stat_field fs i = (if i < length fs then py_int (fs ! i) else None)"

definition read_stat :: "string option \<Rightarrow> (int \<times> int \<times> int) option" where
  "read_stat file = (case file of
       None \<Rightarrow> None
     | Some data \<Rightarrow> (case rfind (CHR '')'') data of
         None \<Rightarrow> None
       | Some rparen \<Rightarrow>
           (let fs = split_ws (drop (rparen + 2) data) in
            case stat_field fs 11 of None \<Rightarrow> None | Some utime \<Rightarrow>
            case stat_field fs 12 of None \<Rightarrow> None | Some stime \<Rightarrow>
            case stat_field fs 21 of None \<Rightarrow> None | Some rss_pages \<Rightarrow>
              Some (utime, stime, rss_pages))))"

text \<open>The status file is read line by line; a \<open>VmRSS\<close> line without an integer raises.\<close>

fun vmrss_in :: "string list \<Rightarrow> int option res" where
  "vmrss_in [] = Inr None"
| "vmrss_in (l # ls) =
     (if starts_with ''VmRSS:'' l then (case split_ws l of
          _ # w # _ \<Rightarrow> (case py_int w of Some kb \<Rightarrow> Inr (Some kb) | None \<Rightarrow> Inl (ValueError w))
        | _ \<Rightarrow> Inl IndexError)
      else vmrss_in ls)"

definition read_status_vmrss_kb :: "string list option \<Rightarrow> int option res" where
  "read_status_vmrss_kb file = (case file of None \<Rightarrow> Inr None | Some ls \<Rightarrow> vmrss_in ls)"

section \<open>The sampler\<close>

text \<open>One iteration's view of the environment: the two proc files and the monotonic clock.\<close>

record reading =
  rd_stat :: "string option"
  rd_status :: "string list option"
  rd_now :: real

record proc_sampler =
  ps_stop :: bool
  ps_thread :: bool
  peak_rss_bytes :: int
  cpu_pct_samples :: "real list"
  first_ticks :: "(int \<times> int \<times> real) option"
  last_ticks :: "(int \<times> int \<times> real) option"

definition new_sampler :: proc_sampler where
  "new_sampler = \<lparr>ps_stop = False, ps_thread = False, peak_rss_bytes = 0, cpu_pct_samples = [],
     first_ticks = None, last_ticks = None\<rparr>"

definition note_ticks :: "host \<Rightarrow> int \<Rightarrow> int \<Rightarrow> real \<Rightarrow> proc_sampler \<Rightarrow> proc_sampler" where
  "note_ticks h utime stime now s = (case (first_ticks s, last_ticks s) of
       (Some _, Some (last_u, last_s, last_t)) \<Rightarrow>
         (let d_ticks = (utime + stime) - (last_u + last_s); d_t = now - last_t;
              s' = (if d_t > 0
                    then s\<lparr>cpu_pct_samples := cpu_pct_samples s
                             @ [(of_int d_ticks / of_int (clk_tck h)) / d_t * 100]\<rparr>
                    else s)
          in s'\<lparr>last_ticks := Some (utime, stime, now)\<rparr>)
     | _ \<Rightarrow> s\<lparr>first_ticks := Some (utime, stime, now), last_ticks := Some (utime, stime, now)\<rparr>)"

definition sample_once :: "host \<Rightarrow> reading \<Rightarrow> (proc_sampler, unit) eff" where
  "sample_once h r s = (case read_stat (rd_stat r) of
       None \<Rightarrow> (Inr (), s)
     | Some (utime, stime, rss_pages) \<Rightarrow>
         (case read_status_vmrss_kb (rd_status r) of
            Inl e \<Rightarrow> (Inl e, s)
          | Inr kb \<Rightarrow>
             (let rss_bytes = (case kb of Some k \<Rightarrow> k * 1024 | None \<Rightarrow> rss_pages * page_size h);
                  s1 = (if rss_bytes > peak_rss_bytes s then s\<lparr>peak_rss_bytes := rss_bytes\<rparr> else s)
              in (Inr (), note_ticks h utime stime (rd_now r) s1))))"

definition sampler_loop :: "host \<Rightarrow> reading list \<Rightarrow> (proc_sampler, unit) eff" where
  "sampler_loop h = poll_loop (sample_once h) ps_stop"

definition sampler_start :: "(proc_sampler, unit) eff" where
  "sampler_start s = (if ps_thread s then (Inl (RuntimeError ''sampler already started''), s)
     else (Inr (), s\<lparr>ps_thread := True\<rparr>))"

definition sampler_stop :: "proc_sampler \<Rightarrow> proc_sampler" where
  "sampler_stop s = (if ps_thread s then s\<lparr>ps_stop := True, ps_thread := False\<rparr> else s)"

text \<open>One use of a sampler: start it, let its thread see the readings, stop it. What the
  thread raises stays in the thread.\<close>

definition sampler_session :: "host \<Rightarrow> reading list \<Rightarrow> (proc_sampler, unit) eff" where
  "sampler_session h rs = andthen sampler_start (\<lambda>_ s. (Inr (), sampler_stop (snd (sampler_loop h rs s))))"

record resource_summary =
  rs_samples :: nat
  rs_duration_s :: real
  rs_peak_rss_bytes :: int
  mean_cpu_pct :: real
  peak_cpu_pct :: real
  cpu_pct_normalised :: real

definition peak_rss_mb :: "resource_summary \<Rightarrow> real" where
  "peak_rss_mb r = of_int (rs_peak_rss_bytes r) / (1024 * 1024)"

text \<open>\<open>max(xs)\<close> of a list that is not empty.\<close>

definition list_max :: "real list \<Rightarrow> real" where
  "list_max xs = foldl max (hd xs) (tl xs)"

definition sampler_summary :: "host \<Rightarrow> proc_sampler \<Rightarrow> resource_summary" where
  "sampler_summary h s =
     (let duration = (case (first_ticks s, last_ticks s) of
            (Some (_, _, t0), Some (_, _, t1)) \<Rightarrow> max (t1 - t0) (1 / 10 ^ 6)
          | _ \<Rightarrow> 0);
          cs = cpu_pct_samples s;
          mean = (if cs \<noteq> [] then sum_list cs / real (length cs) else 0);
          peak = (if cs \<noteq> [] then list_max cs else 0)
      in \<lparr>rs_samples = length cs, rs_duration_s = duration, rs_peak_rss_bytes = peak_rss_bytes s,
          mean_cpu_pct = mean, peak_cpu_pct = peak, cpu_pct_normalised = mean / real (ncpu h)\<rparr>)"

section \<open>Parsing the stat file\<close>

lemma drop_past: "drop (length a + 2) (a @ x # [y] @ t) = t"
  by (induction a) simp_all

lemma rfind_found: "c \<notin> set t \<Longrightarrow> rfind c (s @ c # t) = Some (length s)"
  by (simp add: rfind_def)

lemma read_stat_fields:
  assumes "\<forall>w \<in> set ws. w \<noteq> [] \<and> (\<forall>c \<in> set w. \<not> is_space c \<and> c \<noteq> CHR '')'')"
    and "21 < length ws"
    and "ws ! 11 = show_int u" and "ws ! 12 = show_int s" and "ws ! 21 = show_int rss"
  shows "read_stat (Some (pid @ '' ('' @ comm @ '') '' @ join_str '' '' ws)) = Some (u, s, rss)"
proof -
  have join: "CHR '')'' \<notin> set (join_str '' '' ws)"
    using assms(1) by (induction "'' ''" ws rule: join_str.induct) auto
  have "rfind (CHR '')'') ((pid @ '' ('' @ comm) @ CHR '')'' # '' '' @ join_str '' '' ws)
      = Some (length (pid @ '' ('' @ comm))"
    using join by (intro rfind_found) simp
  moreover have "drop (length (pid @ '' ('' @ comm) + 2) ((pid @ '' ('' @ comm) @ CHR '')'' # '' '' @ join_str '' '' ws)
      = join_str '' '' ws"
    by (rule drop_past)
  moreover have "split_ws (join_str '' '' ws) = ws"
    using assms(1) by (intro split_ws_join) auto
  ultimately show ?thesis using assms(2-5) by (simp add: read_stat_def stat_field_def)
qed

text \<open>The stat parser finds the processor times and the resident pages behind the command
  name whatever the name holds, blanks and parentheses included, because it starts at the
  last closing parenthesis.\<close>

lemma read_stat_any_comm:
  assumes "\<forall>w \<in> set ws. w \<noteq> [] \<and> (\<forall>c \<in> set w. \<not> is_space c \<and> c \<noteq> CHR '')'')"
    and "21 < length ws"
    and "ws ! 11 = show_int u" and "ws ! 12 = show_int s" and "ws ! 21 = show_int rss"
  shows "read_stat (Some (pid @ '' ('' @ comm @ '') '' @ join_str '' '' ws)) = Some (u, s, rss)"
  using assms by (rule read_stat_fields)

lemma read_stat_any_comm_witness:
  "read_stat (Some (''1234'' @ '' ('' @ ''a) (b'' @ '') '' @ join_str '' ''
      [''S'', ''0'', ''0'', ''0'', ''0'', ''0'', ''0'', ''0'', ''0'', ''0'', ''0'', ''150'', ''30'',
       ''0'', ''0'', ''0'', ''0'', ''0'', ''0'', ''0'', ''0'', ''2048'', ''7'']))
    = Some (150, 30, 2048)"
  by (rule read_stat_any_comm)
     (simp_all add: show_int_def show_nat.simps is_space_def)

section \<open>Runs of the thread\<close>

text \<open>What one reading contributes: the thread ends on a reading that raises, a reading without
  a stat line contributes nothing, any other one a resident size and processor ticks.\<close>

definition reading_raises :: "reading \<Rightarrow> bool" where
  "reading_raises r \<longleftrightarrow> read_stat (rd_stat r) \<noteq> None \<and> isl (read_status_vmrss_kb (rd_status r))"

definition reading_rss :: "host \<Rightarrow> reading \<Rightarrow> int option" where
  "reading_rss h r = (case read_stat (rd_stat r) of
       None \<Rightarrow> None
     | Some (_, _, rss_pages) \<Rightarrow> (case read_status_vmrss_kb (rd_status r) of
           Inl _ \<Rightarrow> None
         | Inr kb \<Rightarrow> Some (case kb of Some k \<Rightarrow> k * 1024 | None \<Rightarrow> rss_pages * page_size h)))"

definition reading_ticks :: "reading \<Rightarrow> (int \<times> int \<times> real) option" where
  "reading_ticks r = map_option (\<lambda>(u, s, _). (u, s, rd_now r)) (read_stat (rd_stat r))"

definition complete_readings :: "reading list \<Rightarrow> reading list" where
  "complete_readings rs = takeWhile (\<lambda>r. \<not> reading_raises r) rs"

lemma sample_once_raises: "reading_raises r \<Longrightarrow> \<exists>e. sample_once h r s = (Inl e, s)"
  by (auto simp: reading_raises_def sample_once_def split: sum.splits)

lemma sample_once_ok: "\<not> reading_raises r \<Longrightarrow> sample_once h r s = (Inr (), snd (sample_once h r s))"
  by (auto simp: reading_raises_def sample_once_def Let_def split: option.splits sum.splits)

lemma ps_stop_note_ticks [simp]: "ps_stop (note_ticks h u v now s) = ps_stop s"
  by (auto simp: note_ticks_def Let_def split: option.splits)

lemma peak_note_ticks [simp]: "peak_rss_bytes (note_ticks h u v now s) = peak_rss_bytes s"
  by (auto simp: note_ticks_def Let_def split: option.splits)

lemma ps_stop_sample_once [simp]: "ps_stop (snd (sample_once h r s)) = ps_stop s"
  by (auto simp: sample_once_def Let_def split: option.splits sum.splits)

lemma sampler_loop_fold:
  "\<not> ps_stop s \<Longrightarrow> snd (sampler_loop h rs s) = fold (\<lambda>r s. snd (sample_once h r s)) (complete_readings rs) s"
proof (induction rs arbitrary: s)
  case Nil
  then show ?case by (simp add: sampler_loop_def complete_readings_def)
next
  case (Cons r rs)
  show ?case
  proof (cases "reading_raises r")
    case True
    then obtain e where "sample_once h r s = (Inl e, s)" using sample_once_raises by blast
    then show ?thesis using True Cons.prems
      by (simp add: sampler_loop_def complete_readings_def andthen_def)
  next
    case False
    then have "sampler_loop h (r # rs) s = sampler_loop h rs (snd (sample_once h r s))"
      unfolding sampler_loop_def
      by (intro poll_loop_step [of ps_stop s "sample_once h" r]) (use Cons.prems sample_once_ok in simp_all)
    then show ?thesis using Cons.IH [of "snd (sample_once h r s)"] False Cons.prems
      by (simp add: complete_readings_def)
  qed
qed

lemma peak_sample_once:
  "peak_rss_bytes (snd (sample_once h r s)) =
     (case reading_rss h r of None \<Rightarrow> peak_rss_bytes s | Some b \<Rightarrow> max (peak_rss_bytes s) b)"
  by (auto simp: sample_once_def reading_rss_def Let_def split: option.splits sum.splits)

lemma peak_fold:
  "peak_rss_bytes (fold (\<lambda>r s. snd (sample_once h r s)) rs s)
     = fold max (List.map_filter (reading_rss h) rs) (peak_rss_bytes s)"
  by (induction rs arbitrary: s)
     (auto simp: map_filter_simps peak_sample_once max.commute split: option.splits)

lemma fold_max_Max: "fold max xs (a::int) = Max (insert a (set xs))"
proof -
  have "fold max xs a = Max (set (a # xs))"
    by (metis Max.set_eq_fold)
  then show ?thesis by simp
qed

lemma sampler_session_new:
  "snd (sampler_session h rs new_sampler) =
     sampler_stop (fold (\<lambda>r s. snd (sample_once h r s)) (complete_readings rs) (new_sampler\<lparr>ps_thread := True\<rparr>))"
  by (simp add: sampler_session_def andthen_def sampler_start_def new_sampler_def sampler_loop_fold)

lemma sampler_stop_data [simp]:
  "peak_rss_bytes (sampler_stop s) = peak_rss_bytes s" "cpu_pct_samples (sampler_stop s) = cpu_pct_samples s"
  "first_ticks (sampler_stop s) = first_ticks s" "last_ticks (sampler_stop s) = last_ticks s"
  by (simp_all add: sampler_stop_def)

text \<open>After a run the reported peak is the largest resident size among the readings the
  thread completed, and zero if there was none.\<close>

lemma sampler_peak_rss:
  "peak_rss_bytes (snd (sampler_session h rs new_sampler))
     = Max (insert 0 (set (List.map_filter (reading_rss h) (complete_readings rs))))"
  by (simp add: sampler_session_new peak_fold fold_max_Max) (simp add: new_sampler_def)

section \<open>Processor time\<close>

definition cpu_pct :: "host \<Rightarrow> (int \<times> int \<times> real) \<Rightarrow> (int \<times> int \<times> real) \<Rightarrow> real" where
  "cpu_pct h a b = (case a of (u0, s0, t0) \<Rightarrow> case b of (u1, s1, t1) \<Rightarrow>
     of_int ((u1 + s1) - (u0 + s0)) / of_int (clk_tck h) / (t1 - t0) * 100)"

definition obs_time :: "int \<times> int \<times> real \<Rightarrow> real" where
  "obs_time a = snd (snd a)"

definition obs_ticks :: "int \<times> int \<times> real \<Rightarrow> int" where
  "obs_ticks a = fst a + fst (snd a)"

fun pct_steps :: "host \<Rightarrow> (int \<times> int \<times> real) list \<Rightarrow> real list" where
  "pct_steps h (a # b # os) = (if obs_time b - obs_time a > 0 then [cpu_pct h a b] else []) @ pct_steps h (b # os)"
| "pct_steps h os = []"

lemma ticks_sample_once:
  assumes "\<not> reading_raises r" and "first_ticks s = Some f" and "last_ticks s = Some a"
  shows "first_ticks (snd (sample_once h r s)) = Some f"
    and "last_ticks (snd (sample_once h r s)) = Some (case reading_ticks r of None \<Rightarrow> a | Some b \<Rightarrow> b)"
    and "cpu_pct_samples (snd (sample_once h r s)) = cpu_pct_samples s
      @ (case reading_ticks r of None \<Rightarrow> [] | Some b \<Rightarrow> pct_steps h [a, b])"
  using assms
  by (cases a, auto simp: sample_once_def reading_ticks_def reading_raises_def note_ticks_def Let_def
      cpu_pct_def obs_time_def split: option.splits sum.splits)+

lemma ticks_fold:
  assumes "\<forall>r \<in> set rs. \<not> reading_raises r" and "first_ticks s = Some f" and "last_ticks s = Some a"
  shows "first_ticks (fold (\<lambda>r s. snd (sample_once h r s)) rs s) = Some f
    \<and> last_ticks (fold (\<lambda>r s. snd (sample_once h r s)) rs s) = Some (last (a # List.map_filter reading_ticks rs))
    \<and> cpu_pct_samples (fold (\<lambda>r s. snd (sample_once h r s)) rs s)
        = cpu_pct_samples s @ pct_steps h (a # List.map_filter reading_ticks rs)"
  using assms
proof (induction rs arbitrary: s a)
  case Nil
  then show ?case by (simp add: map_filter_simps)
next
  case (Cons r rs)
  let ?s = "snd (sample_once h r s)"
  have r: "\<not> reading_raises r" using Cons.prems by simp
  note t = ticks_sample_once [OF r Cons.prems(2,3), of h]
  have "first_ticks ?s = Some f" "last_ticks ?s = Some (case reading_ticks r of None \<Rightarrow> a | Some b \<Rightarrow> b)"
    using t by simp_all
  from Cons.IH [OF _ this] t(3) Cons.prems(1) show ?case
    by (cases "reading_ticks r") (simp_all add: map_filter_simps)
qed

lemma first_sample_once:
  assumes "\<not> reading_raises r" and "first_ticks s = None"
  shows "snd (sample_once h r s) = (case reading_ticks r of
      None \<Rightarrow> s | Some b \<Rightarrow> s\<lparr>peak_rss_bytes := peak_rss_bytes (snd (sample_once h r s)), first_ticks := Some b, last_ticks := Some b\<rparr>)"
  using assms
  by (auto simp: sample_once_def reading_ticks_def reading_raises_def note_ticks_def Let_def
      split: option.splits sum.splits)

definition observations :: "reading list \<Rightarrow> (int \<times> int \<times> real) list" where
  "observations rs = List.map_filter reading_ticks (complete_readings rs)"

lemma unsampled_fold:
  fixes h :: host and rs :: "reading list" and s :: proc_sampler
  assumes "\<forall>r \<in> set rs. \<not> reading_raises r"
    and "first_ticks s = None" and "last_ticks s = None" and "cpu_pct_samples s = []"
  defines "s' \<equiv> fold (\<lambda>r s. snd (sample_once h r s)) rs s" and "os \<equiv> List.map_filter reading_ticks rs"
  shows "cpu_pct_samples s' = pct_steps h os
    \<and> first_ticks s' = (if os = [] then None else Some (hd os))
    \<and> last_ticks s' = (if os = [] then None else Some (last os))"
  using assms(1-4) unfolding s'_def os_def
proof (induction rs arbitrary: s)
  case Nil
  then show ?case by (simp add: map_filter_simps)
next
  case (Cons r rs)
  have r: "\<not> reading_raises r" and rs: "\<forall>r \<in> set rs. \<not> reading_raises r" using Cons.prems by simp_all
  show ?case
  proof (cases "reading_ticks r")
    case None
    then have "snd (sample_once h r s) = s" using first_sample_once [OF r Cons.prems(2), of h] by simp
    then show ?thesis using Cons.IH [OF rs Cons.prems(2-4)] None by (simp add: map_filter_simps)
  next
    case (Some b)
    let ?s = "snd (sample_once h r s)"
    have "?s = s\<lparr>peak_rss_bytes := peak_rss_bytes ?s, first_ticks := Some b, last_ticks := Some b\<rparr>"
      using first_sample_once [OF r Cons.prems(2), of h] Some by simp
    then have "first_ticks ?s = Some b" "last_ticks ?s = Some b" "cpu_pct_samples ?s = []"
      using Cons.prems(4) by (metis proc_sampler.select_convs(5) proc_sampler.surjective proc_sampler.update_convs(5,6),
        metis proc_sampler.select_convs(6) proc_sampler.surjective proc_sampler.update_convs(6),
        metis proc_sampler.select_convs(4) proc_sampler.surjective proc_sampler.update_convs(3,5,6))
    from ticks_fold [OF rs this(1,2), of h] this(3) Some show ?thesis by (simp add: map_filter_simps)
  qed
qed

lemma session_observations:
  fixes h :: host and rs :: "reading list"
  defines "s \<equiv> \<lambda>h rs. snd (sampler_session h rs new_sampler)"
  shows "cpu_pct_samples (s h rs) = pct_steps h (observations rs)"
    and "first_ticks (s h rs) = (if observations rs = [] then None else Some (hd (observations rs)))"
    and "last_ticks (s h rs) = (if observations rs = [] then None else Some (last (observations rs)))"
proof -
  have "\<forall>r \<in> set (complete_readings rs). \<not> reading_raises r"
    by (auto simp: complete_readings_def dest: set_takeWhileD)
  from unsampled_fold [OF this, of "new_sampler\<lparr>ps_thread := True\<rparr>" h]
  have f: "let t = fold (\<lambda>r s. snd (sample_once h r s)) (complete_readings rs) (new_sampler\<lparr>ps_thread := True\<rparr>)
    in cpu_pct_samples t = pct_steps h (observations rs)
    \<and> first_ticks t = (if observations rs = [] then None else Some (hd (observations rs)))
    \<and> last_ticks t = (if observations rs = [] then None else Some (last (observations rs)))"
    unfolding observations_def by (simp add: new_sampler_def Let_def)
  show "cpu_pct_samples (s h rs) = pct_steps h (observations rs)"
    "first_ticks (s h rs) = (if observations rs = [] then None else Some (hd (observations rs)))"
    "last_ticks (s h rs) = (if observations rs = [] then None else Some (last (observations rs)))"
    using f by (simp_all add: s_def sampler_session_new Let_def)
qed

text \<open>The clock advances from observation to observation.\<close>

definition clock_advances :: "(int \<times> int \<times> real) list \<Rightarrow> bool" where
  "clock_advances os \<longleftrightarrow> sorted_wrt (<) (map obs_time os)"

fun weigh :: "real list \<Rightarrow> (int \<times> int \<times> real) list \<Rightarrow> real" where
  "weigh (c # cs) (a # b # os) = c * (obs_time b - obs_time a) + weigh cs (b # os)"
| "weigh cs os = 0"

lemma cpu_pct_times_step:
  "obs_time a < obs_time b \<Longrightarrow>
   cpu_pct h a b * (obs_time b - obs_time a) = of_int (obs_ticks b - obs_ticks a) / of_int (clk_tck h) * 100"
  by (cases a; cases b) (simp add: cpu_pct_def obs_time_def obs_ticks_def)

lemma pct_steps_advancing:
  assumes "clock_advances os"
  shows "length (pct_steps h os) = length os - 1"
    and "os \<noteq> [] \<Longrightarrow> weigh (pct_steps h os) os = of_int (obs_ticks (last os) - obs_ticks (hd os)) / of_int (clk_tck h) * 100"
  using assms
proof (induction h os rule: pct_steps.induct)
  case (1 h a b os)
  {
    case 1
    then show ?case using "1.IH" by (auto simp: clock_advances_def)
  next
    case 2
    then have "clock_advances (b # os)" and lt: "obs_time a < obs_time b" by (auto simp: clock_advances_def)
    then have "weigh (pct_steps h (b # os)) (b # os)
        = of_int (obs_ticks (last (b # os)) - obs_ticks b) / of_int (clk_tck h) * 100"
      using "1.IH"(2) by simp
    with cpu_pct_times_step [OF lt, of h] lt show ?case
      by (simp add: diff_divide_distrib left_diff_distrib)
  }
qed simp_all

text \<open>No processor time is lost or counted twice: the sampled percentages, each weighted
  by the length of its interval, add up to the ticks consumed between the first and the last
  observation, and there is one sample per interval.\<close>

lemma sampler_conserves_ticks:
  assumes "clock_advances (observations rs)" and "observations rs \<noteq> []"
  shows "length (cpu_pct_samples (snd (sampler_session h rs new_sampler))) = length (observations rs) - 1
    \<and> weigh (cpu_pct_samples (snd (sampler_session h rs new_sampler))) (observations rs)
        = of_int (obs_ticks (last (observations rs)) - obs_ticks (hd (observations rs))) / of_int (clk_tck h) * 100"
  using pct_steps_advancing [OF assms(1)] assms(2) by (simp add: session_observations)

text \<open>Readings of a process that ran in user mode only, for the witnesses.\<close>

definition plain_stat :: "string \<Rightarrow> string" where
  "plain_stat u = ''7 (srv) S 0 0 0 0 0 0 0 0 0 0 '' @ u @ '' 0 0 0 0 0 0 0 0 0 2 0''"

definition plain_reading :: "string \<Rightarrow> real \<Rightarrow> reading" where
  "plain_reading u t = \<lparr>rd_stat = Some (plain_stat u), rd_status = None, rd_now = t\<rparr>"

lemma read_plain_stat: "read_stat (Some (plain_stat (show_nat n))) = Some (int n, 0, 2)"
proof -
  let ?ws = "[''S'', ''0'', ''0'', ''0'', ''0'', ''0'', ''0'', ''0'', ''0'', ''0'', ''0'', show_int (int n), ''0'',
     ''0'', ''0'', ''0'', ''0'', ''0'', ''0'', ''0'', ''0'', ''2'', ''0'']"
  have word: "show_int (int n) \<noteq> [] \<and> (\<forall>c \<in> set (show_int (int n)). \<not> is_space c \<and> c \<noteq> CHR '')'')"
    using digits_show_nat [of n] by (auto simp: show_int_def is_digit_def is_space_def)
  have "\<forall>w \<in> set ?ws. w \<noteq> [] \<and> (\<forall>c \<in> set w. \<not> is_space c \<and> c \<noteq> CHR '')'')"
    using word by (auto simp: is_space_def)
  moreover have "show_int 0 = ''0''" "show_int 2 = ''2''" by (simp_all add: show_int_def show_nat.simps)
  ultimately have "read_stat (Some (''7'' @ '' ('' @ ''srv'' @ '') '' @ join_str '' '' ?ws)) = Some (int n, 0, 2)"
    by (intro read_stat_fields) simp_all
  then show ?thesis by (simp add: plain_stat_def show_int_def)
qed

lemma observations_plain:
  "observations (map (\<lambda>(n, t). plain_reading (show_nat n) t) xs) = map (\<lambda>(n, t). (int n, 0, t)) xs"
  by (induction xs)
     (auto simp: observations_def complete_readings_def reading_raises_def reading_ticks_def
        plain_reading_def read_plain_stat read_status_vmrss_kb_def map_filter_simps)

lemma sampler_conserves_ticks_witness:
  "\<exists>(h :: host) (s :: proc_sampler). weigh (cpu_pct_samples s) [(100, 0, 1), (150, 0, 2), (350, 0, 4)] = of_int (350 - 100) / of_int (clk_tck h) * 100
    \<and> length (cpu_pct_samples s) = 2"
proof -
  let ?xs = "[(100, 1), (150, 2), (350, 4)] :: (nat \<times> real) list"
  let ?rs = "map (\<lambda>(n, t). plain_reading (show_nat n) t) ?xs"
  let ?h = "\<lparr>page_size = 4096, clk_tck = 100, ncpu = 4\<rparr> :: host"
  have o: "observations ?rs = [(100, 0, 1), (150, 0, 2), (350, 0, 4)]"
    using observations_plain [of ?xs] by simp
  have "clock_advances (observations ?rs)" "observations ?rs \<noteq> []"
    unfolding o by (simp_all add: clock_advances_def obs_time_def)
  from sampler_conserves_ticks [OF this, of ?h] show ?thesis
    unfolding o obs_ticks_def by (intro exI [of _ ?h] exI [of _ "snd (sampler_session ?h ?rs new_sampler)"]) simp
qed

section \<open>The summary\<close>

lemma list_max_ge: "x \<in> set xs \<Longrightarrow> x \<le> list_max xs"
  using foldl_max_ge by (cases xs) (auto simp: list_max_def)

lemma mean_le_list_max: "xs \<noteq> [] \<Longrightarrow> sum_list xs / real (length xs) \<le> list_max xs"
  using sum_list_le_mult [of xs "list_max xs"] list_max_ge [of _ xs]
  by (simp add: divide_le_eq mult.commute)

text \<open>The summary's mean never exceeds its peak, and the normalised share times the number
  of processors is the mean again.\<close>

lemma sampler_summary_bounds:
  "mean_cpu_pct (sampler_summary h s) \<le> peak_cpu_pct (sampler_summary h s)
    \<and> (ncpu h = 0 \<or> cpu_pct_normalised (sampler_summary h s) * real (ncpu h) = mean_cpu_pct (sampler_summary h s))"
  by (auto simp: sampler_summary_def Let_def mean_le_list_max)

text \<open>Between two observations a process cannot use more than every processor for the whole
  time, nor give ticks back.\<close>

definition ticks_plausible :: "host \<Rightarrow> (int \<times> int \<times> real) list \<Rightarrow> bool" where
  "ticks_plausible h os \<longleftrightarrow> 0 < clk_tck h \<and> 0 < ncpu h
     \<and> successively (\<lambda>a b. obs_time a < obs_time b \<and> obs_ticks a \<le> obs_ticks b
        \<and> of_int (obs_ticks b - obs_ticks a) \<le> real (ncpu h) * of_int (clk_tck h) * (obs_time b - obs_time a)) os"

lemma cpu_pct_range:
  assumes "0 < clk_tck h" and "obs_time a < obs_time b" and "obs_ticks a \<le> obs_ticks b"
    and "of_int (obs_ticks b - obs_ticks a) \<le> real (ncpu h) * of_int (clk_tck h) * (obs_time b - obs_time a)"
  shows "0 \<le> cpu_pct h a b \<and> cpu_pct h a b \<le> 100 * real (ncpu h)"
proof -
  have eq: "cpu_pct h a b = of_int (obs_ticks b - obs_ticks a) / (of_int (clk_tck h) * (obs_time b - obs_time a)) * 100"
    by (cases a; cases b) (simp add: cpu_pct_def obs_time_def obs_ticks_def)
  have pos: "0 < of_int (clk_tck h) * (obs_time b - obs_time a)" using assms(1,2) by simp
  have "of_int (obs_ticks b - obs_ticks a) / (of_int (clk_tck h) * (obs_time b - obs_time a)) \<le> real (ncpu h)"
    using assms(4) pos by (simp only: pos_divide_le_eq mult.assoc)
  moreover have "0 \<le> of_int (obs_ticks b - obs_ticks a) / (of_int (clk_tck h) * (obs_time b - obs_time a))"
    using assms(3) pos by (intro divide_nonneg_pos) simp_all
  moreover have "0 \<le> x \<Longrightarrow> x \<le> n \<Longrightarrow> 0 \<le> x * 100 \<and> x * 100 \<le> 100 * n" for x n :: real
    by simp
  ultimately show ?thesis unfolding eq by blast
qed

lemma pct_steps_range:
  "ticks_plausible h os \<Longrightarrow> \<forall>p \<in> set (pct_steps h os). 0 \<le> p \<and> p \<le> 100 * real (ncpu h)"
proof (induction h os rule: pct_steps.induct)
  case (1 h a b os)
  then have "ticks_plausible h (b # os)" by (simp add: ticks_plausible_def)
  moreover have "0 \<le> cpu_pct h a b \<and> cpu_pct h a b \<le> 100 * real (ncpu h)"
    using 1(2) by (intro cpu_pct_range) (simp_all add: ticks_plausible_def)
  ultimately show ?case using 1(1) by auto
qed simp_all

text \<open>The normalised share of a run lies between 0 and 100 percent, whatever the number of
  processors, as long as the observed ticks are those of a process on that host.\<close>

lemma sampler_normalised_percent:
  assumes "ticks_plausible h (observations rs)"
  shows "cpu_pct_normalised (sampler_summary h (snd (sampler_session h rs new_sampler))) \<in> {0..100}"
proof -
  let ?cs = "pct_steps h (observations rs)"
  have n: "0 < real (ncpu h)" using assms by (simp add: ticks_plausible_def)
  have r: "\<forall>p \<in> set ?cs. 0 \<le> p" "\<forall>p \<in> set ?cs. p \<le> 100 * real (ncpu h)"
    using pct_steps_range [OF assms] by simp_all
  show ?thesis
  proof (cases "?cs = []")
    case True
    then show ?thesis by (simp add: sampler_summary_def session_observations Let_def)
  next
    case False
    have "0 \<le> sum_list ?cs" using r(1) by (intro sum_list_nonneg) simp
    moreover have "sum_list ?cs / real (length ?cs) \<le> 100 * real (ncpu h)"
      using sum_list_le_mult [OF r(2)] False by (simp add: divide_le_eq mult.commute)
    ultimately show ?thesis using False n
      by (simp add: sampler_summary_def session_observations Let_def divide_le_eq mult_ac)
  qed
qed

lemma sampler_normalised_percent_witness:
  "\<exists>h rs. length (observations rs) = 3
    \<and> cpu_pct_normalised (sampler_summary h (snd (sampler_session h rs new_sampler))) \<in> {0..100}"
proof -
  let ?xs = "[(100, 1), (150, 2), (350, 4)] :: (nat \<times> real) list"
  let ?rs = "map (\<lambda>(n, t). plain_reading (show_nat n) t) ?xs"
  let ?h = "\<lparr>page_size = 4096, clk_tck = 100, ncpu = 4\<rparr> :: host"
  have o: "observations ?rs = [(100, 0, 1), (150, 0, 2), (350, 0, 4)]"
    using observations_plain [of ?xs] by simp
  have "ticks_plausible ?h (observations ?rs)"
    unfolding o by (simp add: ticks_plausible_def obs_time_def obs_ticks_def)
  from sampler_normalised_percent [OF this] o show ?thesis by (intro exI [of _ ?h] exI [of _ ?rs]) simp
qed

section \<open>The thread's life cycle\<close>

text \<open>Starting a running sampler raises and changes nothing, and a sampler that was
  stopped never samples again, because its stop event stays set: a later session
  ends with the state it began with, whatever the thread would read.\<close>

lemma sampler_single_use:
  assumes "ps_thread s"
  shows "sampler_start s = (Inl (RuntimeError ''sampler already started''), s)
    \<and> sampler_session h rs (sampler_stop s) = (Inr (), sampler_stop s)"
  using assms
  by (simp add: sampler_start_def sampler_session_def sampler_stop_def andthen_def sampler_loop_def
      poll_loop_stopped)

lemma sampler_single_use_witness:
  "\<exists>s. ps_thread s \<and> sampler_session h rs (sampler_stop s) = (Inr (), sampler_stop s)"
  using sampler_single_use [of "new_sampler\<lparr>ps_thread := True\<rparr>" h rs]
  by (intro exI [of _ "new_sampler\<lparr>ps_thread := True\<rparr>"]) (simp add: new_sampler_def)

definition sampler_inv :: "proc_sampler \<Rightarrow> bool" where
  "sampler_inv s \<longleftrightarrow> 0 \<le> peak_rss_bytes s \<and> (first_ticks s = None \<longleftrightarrow> last_ticks s = None)
     \<and> (first_ticks s = None \<longrightarrow> cpu_pct_samples s = [])"

definition sampler_le :: "proc_sampler \<Rightarrow> proc_sampler \<Rightarrow> bool" where
  "sampler_le s t \<longleftrightarrow> peak_rss_bytes s \<le> peak_rss_bytes t
     \<and> (\<exists>cs. cpu_pct_samples t = cpu_pct_samples s @ cs)
     \<and> (first_ticks s \<noteq> None \<longrightarrow> first_ticks t = first_ticks s)"

lemma note_ticks_cases:
  assumes "sampler_inv s"
  shows "sampler_inv (note_ticks h u v now s) \<and> sampler_le s (note_ticks h u v now s)"
  using assms
  by (auto simp: note_ticks_def sampler_inv_def sampler_le_def Let_def split: option.splits)

lemma sampler_inv_peak: "sampler_inv s \<Longrightarrow> peak_rss_bytes s < b \<Longrightarrow> sampler_inv (s\<lparr>peak_rss_bytes := b\<rparr>)"
  by (simp add: sampler_inv_def)

lemma sampler_le_trans: "sampler_le s t \<Longrightarrow> sampler_le t u \<Longrightarrow> sampler_le s u"
  by (auto simp: sampler_le_def)

lemma sampler_le_peak: "peak_rss_bytes s < b \<Longrightarrow> sampler_le s (s\<lparr>peak_rss_bytes := b\<rparr>)"
  by (simp add: sampler_le_def)

lemma sample_once_inv_le:
  assumes "sampler_inv s"
  shows "sampler_inv (snd (sample_once h r s)) \<and> sampler_le s (snd (sample_once h r s))"
proof -
  have refl: "sampler_le s s" by (simp add: sampler_le_def)
  let ?bump = "\<lambda>b. if b > peak_rss_bytes s then s\<lparr>peak_rss_bytes := b\<rparr> else s"
  have bump: "sampler_inv (?bump b)" "sampler_le s (?bump b)" for b
    using assms refl sampler_inv_peak sampler_le_peak by simp_all
  have "sampler_inv (note_ticks h u v now (?bump b)) \<and> sampler_le s (note_ticks h u v now (?bump b))" for u v now b
    using note_ticks_cases [OF bump(1)] sampler_le_trans [OF bump(2)] by blast
  then show ?thesis using assms refl
    by (simp add: sample_once_def Let_def split: option.splits sum.splits)
qed

interpretation proc_polled: polled "sample_once h" ps_stop sampler_inv sampler_le for h
proof unfold_locales
  fix s t u :: proc_sampler and r
  show "sampler_inv s \<Longrightarrow> sampler_inv (snd (sample_once h r s))"
    and "sampler_inv s \<Longrightarrow> sampler_le s (snd (sample_once h r s))"
    using sample_once_inv_le by simp_all
  show "ps_stop (snd (sample_once h r s)) = ps_stop s" by simp
  show "sampler_le s s" by (simp add: sampler_le_def)
  show "sampler_le s t \<Longrightarrow> sampler_le t u \<Longrightarrow> sampler_le s u" by (rule sampler_le_trans)
qed

text \<open>Over any run of the thread, from any state the sampler can be in, the peak
  never falls, recorded samples are kept, and the first observation stays the first.\<close>

lemma sampler_loop_monotone:
  assumes "sampler_inv s"
  shows "sampler_inv (snd (sampler_loop h rs s)) \<and> sampler_le s (snd (sampler_loop h rs s))"
  unfolding sampler_loop_def by (rule proc_polled.loop_inv_le [OF assms])

lemma sampler_loop_monotone_witness:
  "sampler_le new_sampler (snd (sampler_loop h rs new_sampler))"
  using sampler_loop_monotone [of new_sampler h rs] by (simp add: sampler_inv_def new_sampler_def)

end
