(* ===== verification/Csv.thy ===== *)
theory Csv
  imports PyText
begin

text \<open>
  The part of Python's \<open>csv\<close> module the harness uses with its defaults (the \<open>excel\<close> dialect):
  \<open>csv.writer\<close>, which quotes a field only where it must, \<open>csv.reader\<close> as the state
  machine of CPython, \<open>csv.DictReader\<close>, and the newline translation of a file opened in text
  mode. A table written row by row is read back row by row; the interface of such a table is
  the locale \<open>table_codec\<close>.
\<close>

section \<open>Writing\<close>

abbreviation CR :: char where "CR \<equiv> CHR 0x0D"
abbreviation LF :: char where "LF \<equiv> CHR 0x0A"
abbreviation DQUOTE :: char where "DQUOTE \<equiv> CHR 0x22"

definition needs_quotes :: "string \<Rightarrow> bool" where
  "needs_quotes f \<longleftrightarrow> (\<exists>c \<in> set f. c = CHR '','' \<or> c = DQUOTE \<or> c = CR \<or> c = LF)"

definition double_quotes :: "string \<Rightarrow> string" where
  "double_quotes f = concat (map (\<lambda>c. if c = DQUOTE then [c, c] else [c]) f)"

definition csv_field :: "string \<Rightarrow> string" where
  "csv_field f = (if needs_quotes f then DQUOTE # double_quotes f @ [DQUOTE] else f)"

text \<open>A row of one empty field is written as a pair of quotes, so that it is not an empty line.\<close>

definition csv_row :: "string list \<Rightarrow> string" where
  "csv_row fs = (if fs = [[]] then [DQUOTE, DQUOTE] else join_str '','' (map csv_field fs)) @ [CR, LF]"

definition csv_write :: "string list list \<Rightarrow> string" where
  "csv_write rows = concat (map csv_row rows)"

section \<open>Reading\<close>

text \<open>A file opened without \<open>newline=""\<close> delivers every line end as a line feed.\<close>

fun universal_newlines :: "string \<Rightarrow> string" where
  "universal_newlines [] = []"
| "universal_newlines [c] = [if c = CR then LF else c]"
| "universal_newlines (c # d # s) =
     (if c = CR then LF # universal_newlines (if d = LF then s else d # s)
      else c # universal_newlines (d # s))"

text \<open>The reader's states. The line feed ends a line of input, so it stands for the character
  and the end-of-line event that follows it; a carriage return does not occur after the
  newline translation. The arguments are the characters of the current field and the finished
  fields of the current record, both reversed.\<close>

datatype csv_mode = StartRecord | StartField | InField | InQuoted | QuoteInQuoted

fun csv_run :: "csv_mode \<Rightarrow> string \<Rightarrow> string list \<Rightarrow> string \<Rightarrow> string list list" where
  "csv_run m f fs [] = (if m = StartRecord then [] else [rev (rev f # fs)])"
| "csv_run StartRecord f fs (c # s) =
     (if c = LF then [] # csv_run StartRecord [] [] s
      else if c = DQUOTE then csv_run InQuoted f fs s
      else if c = CHR '','' then csv_run StartField [] (rev f # fs) s
      else csv_run InField (c # f) fs s)"
| "csv_run StartField f fs (c # s) =
     (if c = LF then rev (rev f # fs) # csv_run StartRecord [] [] s
      else if c = DQUOTE then csv_run InQuoted f fs s
      else if c = CHR '','' then csv_run StartField [] (rev f # fs) s
      else csv_run InField (c # f) fs s)"
| "csv_run InField f fs (c # s) =
     (if c = LF then rev (rev f # fs) # csv_run StartRecord [] [] s
      else if c = CHR '','' then csv_run StartField [] (rev f # fs) s
      else csv_run InField (c # f) fs s)"
| "csv_run InQuoted f fs (c # s) =
     (if c = DQUOTE then csv_run QuoteInQuoted f fs s else csv_run InQuoted (c # f) fs s)"
| "csv_run QuoteInQuoted f fs (c # s) =
     (if c = DQUOTE then csv_run InQuoted (c # f) fs s
      else if c = CHR '','' then csv_run StartField [] (rev f # fs) s
      else if c = LF then rev (rev f # fs) # csv_run StartRecord [] [] s
      else csv_run InField (c # f) fs s)"

definition csv_read :: "string \<Rightarrow> string list list" where
  "csv_read s = csv_run StartRecord [] [] s"

text \<open>\<open>DictReader\<close>: the first record names the fields, empty records are skipped, a short
  record maps the missing names to Python's \<open>None\<close>. The outer option of a lookup is the
  presence of the key, the inner one the value.\<close>

type_synonym dict_row = "string \<Rightarrow> string option option"

definition dict_row :: "string list \<Rightarrow> string list \<Rightarrow> dict_row" where
  "dict_row header row =
     map_of (rev (zip header (map Some row @ replicate (length header - length row) None)))"

definition dict_reader :: "string \<Rightarrow> dict_row list" where
  "dict_reader s = (case csv_read s of
       [] \<Rightarrow> []
     | header # rows \<Rightarrow> map (dict_row header) (filter (\<lambda>r. r \<noteq> []) rows))"

section \<open>Reading back what was written\<close>

lemma csv_run_unquoted:
  "\<not> needs_quotes f \<Longrightarrow> csv_run InField acc fs (f @ t) = csv_run InField (rev f @ acc) fs t"
  by (induction f arbitrary: acc) (auto simp: needs_quotes_def)

lemma csv_run_quoted:
  "csv_run InQuoted acc fs (double_quotes f @ t) = csv_run InQuoted (rev f @ acc) fs t"
  by (induction f arbitrary: acc) (auto simp: double_quotes_def)

lemma csv_run_field_comma:
  assumes "m = StartRecord \<or> m = StartField"
  shows "csv_run m [] fs (csv_field f @ CHR '','' # t) = csv_run StartField [] (f # fs) t"
proof (cases "needs_quotes f")
  case True
  then have "csv_field f = DQUOTE # double_quotes f @ [DQUOTE]" by (simp add: csv_field_def)
  then show ?thesis using assms by (elim disjE conjE) (simp_all add: csv_run_quoted)
next
  case False
  show ?thesis
  proof (cases f)
    case Nil
    then show ?thesis using assms False by (elim disjE conjE) (simp_all add: csv_field_def)
  next
    case (Cons c f')
    have f': "\<not> needs_quotes f'" and c: "c \<noteq> LF" "c \<noteq> DQUOTE" "c \<noteq> CHR '',''"
      using False Cons by (simp_all add: needs_quotes_def)
    have "csv_field f = c # f'" using False Cons by (simp add: csv_field_def)
    then show ?thesis using assms c csv_run_unquoted [OF f', of "[c]"] Cons by (elim disjE conjE) simp_all
  qed
qed

lemma csv_run_field_newline:
  assumes "m = StartField \<or> (m = StartRecord \<and> f \<noteq> [])"
  shows "csv_run m [] fs (csv_field f @ LF # t) = rev (f # fs) # csv_run StartRecord [] [] t"
proof (cases "needs_quotes f")
  case True
  then have "csv_field f = DQUOTE # double_quotes f @ [DQUOTE]" by (simp add: csv_field_def)
  then show ?thesis using assms by (elim disjE conjE) (simp_all add: csv_run_quoted)
next
  case False
  show ?thesis
  proof (cases f)
    case Nil
    then show ?thesis using assms False by (elim disjE conjE) (simp_all add: csv_field_def)
  next
    case (Cons c f')
    have f': "\<not> needs_quotes f'" and c: "c \<noteq> LF" "c \<noteq> DQUOTE" "c \<noteq> CHR '',''"
      using False Cons by (simp_all add: needs_quotes_def)
    have "csv_field f = c # f'" using False Cons by (simp add: csv_field_def)
    then show ?thesis using assms c csv_run_unquoted [OF f', of "[c]"] Cons by (elim disjE conjE) simp_all
  qed
qed

lemma csv_run_fields:
  "row \<noteq> [] \<Longrightarrow> csv_run StartField [] fs (join_str '','' (map csv_field row) @ LF # t)
     = (rev fs @ row) # csv_run StartRecord [] [] t"
proof (induction row arbitrary: fs)
  case Nil
  then show ?case by simp
next
  case (Cons f row)
  then show ?case
    by (cases row) (simp_all add: csv_run_field_comma csv_run_field_newline)
qed

lemma csv_run_row:
  assumes "row \<noteq> []" and "row \<noteq> [[]]"
  shows "csv_run StartRecord [] [] (join_str '','' (map csv_field row) @ LF # t)
     = row # csv_run StartRecord [] [] t"
proof (cases row)
  case Nil
  then show ?thesis using assms by simp
next
  case (Cons f row')
  then show ?thesis using assms csv_run_fields [of row' "[f]" t]
    by (cases row') (simp_all add: csv_run_field_comma csv_run_field_newline)
qed

text \<open>Rows a text-mode reader can give back: not empty, no carriage return.\<close>

definition plain_field :: "string \<Rightarrow> bool" where
  "plain_field f \<longleftrightarrow> CR \<notin> set f"

definition plain_row :: "string list \<Rightarrow> bool" where
  "plain_row r \<longleftrightarrow> r \<noteq> [] \<and> (\<forall>f \<in> set r. plain_field f)"

lemma universal_newlines_id: "CR \<notin> set s \<Longrightarrow> universal_newlines s = s"
  by (induction s rule: universal_newlines.induct) auto

lemma universal_newlines_line: "CR \<notin> set a \<Longrightarrow> universal_newlines (a @ CR # LF # t) = a @ LF # universal_newlines t"
proof (induction a)
  case Nil
  then show ?case by simp
next
  case (Cons c a)
  then have "c \<noteq> CR" by auto
  with Cons show ?case by (cases a) simp_all
qed

lemma csv_field_plain: "plain_field f \<Longrightarrow> CR \<notin> set (csv_field f)"
  by (auto simp: plain_field_def csv_field_def double_quotes_def)

lemma join_plain: "CR \<notin> set sep \<Longrightarrow> \<forall>f \<in> set fs. CR \<notin> set f \<Longrightarrow> CR \<notin> set (join_str sep fs)"
  by (induction sep fs rule: join_str.induct) auto

lemma csv_run_written_row:
  assumes "plain_row row"
  shows "csv_run StartRecord [] [] (universal_newlines (csv_row row @ t))
     = row # csv_run StartRecord [] [] (universal_newlines t)"
proof (cases "row = [[]]")
  case True
  then show ?thesis by (simp add: csv_row_def)
next
  case False
  have "CR \<notin> set (join_str '','' (map csv_field row))"
    using assms by (intro join_plain) (auto simp: plain_row_def csv_field_plain)
  then show ?thesis using assms False csv_run_row [of row]
    by (simp add: csv_row_def universal_newlines_line plain_row_def)
qed

lemma csv_read_write:
  "\<forall>r \<in> set rows. plain_row r \<Longrightarrow> csv_read (universal_newlines (csv_write rows)) = rows"
  by (induction rows) (simp_all add: csv_read_def csv_write_def csv_run_written_row)

lemma plain_show_nat [simp]: "plain_field (show_nat n)"
  unfolding plain_field_def by (metis digits_show_nat digit_neq(9))

lemma plain_show_int [simp]: "plain_field (show_int i)"
  using plain_show_nat by (auto simp: show_int_def plain_field_def)

lemma dict_row_nth:
  assumes "distinct header" and "length row = length header" and "i < length header"
  shows "dict_row header row (header ! i) = Some (Some (row ! i))"
proof -
  have "distinct (map fst (rev (zip header (map Some row))))"
    using assms by (simp add: rev_map [symmetric])
  moreover have "(header ! i, Some (row ! i)) \<in> set (rev (zip header (map Some row)))"
    using assms by (auto simp: set_zip)
  ultimately show ?thesis using assms by (simp add: dict_row_def)
qed

section \<open>Tables\<close>

text \<open>The contract between the writer and the reader of a table with a header: a record is
  encoded as one field per column, and decoding the named fields gives the record back up to
  \<open>norm\<close>, what the columns keep of it.\<close>

locale table_codec =
  fixes header :: "string list"
    and enc :: "'a \<Rightarrow> string list"
    and dec :: "dict_row \<Rightarrow> 'b res"
    and norm :: "'a \<Rightarrow> 'b"
    and ok :: "'a \<Rightarrow> bool"
  assumes header_plain: "plain_row header"
    and enc_plain: "ok x \<Longrightarrow> plain_row (enc x)"
    and dec_enc: "ok x \<Longrightarrow> dec (dict_row header (enc x)) = Inr (norm x)"
begin

definition table_text :: "'a list \<Rightarrow> string" where
  "table_text xs = csv_write (header # map enc xs)"

lemma dict_reader_table:
  assumes "\<forall>x \<in> set xs. ok x"
  shows "dict_reader (universal_newlines (table_text xs)) = map (\<lambda>x. dict_row header (enc x)) xs"
proof -
  have plain: "\<forall>r \<in> set (map enc xs). plain_row r" using assms enc_plain by auto
  have "csv_read (universal_newlines (table_text xs)) = header # map enc xs"
    unfolding table_text_def using plain header_plain by (intro csv_read_write) simp
  moreover have "filter (\<lambda>r. r \<noteq> []) (map enc xs) = map enc xs"
    using plain by (auto simp: filter_id_conv plain_row_def)
  ultimately show ?thesis by (simp add: dict_reader_def)
qed

lemma map_res_table:
  assumes "\<forall>x \<in> set xs. ok x"
  shows "map_res dec (dict_reader (universal_newlines (table_text xs))) = Inr (map norm xs)"
proof -
  have "map_res (\<lambda>x. dec (dict_row header (enc x))) xs = Inr (map norm xs)"
    using assms dec_enc by (intro map_res_total) auto
  moreover have "map_res dec (map f ys) = map_res (\<lambda>x. dec (f x)) ys" for f :: "'a \<Rightarrow> dict_row" and ys
    by (induction ys) auto
  ultimately show ?thesis by (simp add: dict_reader_table [OF assms])
qed

end

end
