(* ===== verification/Json.thy ===== *)
theory Json
  imports Csv PyFloat "HOL-Library.AList"
begin

text \<open>
  Python's \<open>json\<close> module as far as the programs use it: \<open>json.dumps\<close> with its default
  ASCII escapes, with or without an indentation, and \<open>json.loads\<close> as the scanner of the
  standard library. A dictionary is its list of pairs in insertion order. The text of a finite float is
  \<open>float.__repr__\<close>, a parameter \<open>fr\<close>: floats are exact reals here, and only a text
  that \<open>float\<close> reads back is ever relied on (\<open>float_text\<close>). Escapes of code points above
  U+00FF, which a \<open>char\<close> does not represent, are read as malformed; so is a nesting or a number
  of digits past the limits of the interpreter not modelled.
\<close>

datatype json =
    JNull
  | JBool bool
  | JInt int
  | JNum pyfloat
  | JStr string
  | JList "json list"
  | JObj "(string \<times> json) list"

section \<open>Writing\<close>

abbreviation BSLASH :: char where "BSLASH \<equiv> CHR 0x5C"

definition hex_digit :: "nat \<Rightarrow> char" where
  "hex_digit d = char_of (if d < 10 then 48 + d else 87 + d)"

definition escape_char :: "char \<Rightarrow> string" where
  "escape_char c =
     (if c = BSLASH then [BSLASH, BSLASH]
      else if c = DQUOTE then [BSLASH, DQUOTE]
      else if c = LF then [BSLASH, CHR ''n'']
      else if c = CR then [BSLASH, CHR ''r'']
      else if c = CHR 0x09 then [BSLASH, CHR ''t'']
      else if c = CHR 0x0C then [BSLASH, CHR ''f'']
      else if c = CHR 0x08 then [BSLASH, CHR ''b'']
      else let n = of_char c :: nat in
        if 32 \<le> n \<and> n \<le> 126 then [c]
        else [BSLASH, CHR ''u'', CHR ''0'', CHR ''0'', hex_digit (n div 16), hex_digit (n mod 16)])"

definition json_string :: "string \<Rightarrow> string" where
  "json_string s = DQUOTE # concat (map escape_char s) @ [DQUOTE]"

definition json_float_text :: "(real \<Rightarrow> string) \<Rightarrow> pyfloat \<Rightarrow> string" where
  "json_float_text fr x = (case x of NaN \<Rightarrow> ''NaN'' | PInf \<Rightarrow> ''Infinity'' | NInf \<Rightarrow> ''-Infinity'' | Fin r \<Rightarrow> fr r)"

text \<open>The break before an item: with an indentation a new line and the spaces of its level. The item
  separator has a space only where no new line follows it.\<close>

definition break_to :: "nat option \<Rightarrow> nat \<Rightarrow> string" where
  "break_to indent level = (case indent of None \<Rightarrow> [] | Some k \<Rightarrow> LF # replicate (k * level) (CHR '' ''))"

definition item_separator :: "nat option \<Rightarrow> string" where
  "item_separator indent = (case indent of None \<Rightarrow> '', '' | Some _ \<Rightarrow> '','')"

text \<open>The items of a list or the members of a dictionary, each after its break, between brackets.\<close>

definition bracket :: "nat option \<Rightarrow> nat \<Rightarrow> char \<Rightarrow> string list \<Rightarrow> char \<Rightarrow> string" where
  "bracket indent level a items b =
     (if items = [] then [a, b]
      else a # join_str (item_separator indent) (map (\<lambda>i. break_to indent (Suc level) @ i) items)
        @ break_to indent level @ [b])"

fun json_dumps :: "(real \<Rightarrow> string) \<Rightarrow> nat option \<Rightarrow> nat \<Rightarrow> json \<Rightarrow> string"
  and json_items :: "(real \<Rightarrow> string) \<Rightarrow> nat option \<Rightarrow> nat \<Rightarrow> json list \<Rightarrow> string list"
  and json_members :: "(real \<Rightarrow> string) \<Rightarrow> nat option \<Rightarrow> nat \<Rightarrow> (string \<times> json) list \<Rightarrow> string list" where
  "json_dumps fr indent level JNull = ''null''"
| "json_dumps fr indent level (JBool b) = (if b then ''true'' else ''false'')"
| "json_dumps fr indent level (JInt i) = show_int i"
| "json_dumps fr indent level (JNum x) = json_float_text fr x"
| "json_dumps fr indent level (JStr s) = json_string s"
| "json_dumps fr indent level (JList xs) = bracket indent level (CHR ''['') (json_items fr indent (Suc level) xs) (CHR '']'')"
| "json_dumps fr indent level (JObj kvs) = bracket indent level (CHR ''{'') (json_members fr indent (Suc level) kvs) (CHR ''}'')"
| "json_items fr indent level [] = []"
| "json_items fr indent level (x # xs) = json_dumps fr indent level x # json_items fr indent level xs"
| "json_members fr indent level [] = []"
| "json_members fr indent level ((k, v) # kvs) =
     (json_string k @ '': '' @ json_dumps fr indent level v) # json_members fr indent level kvs"

section \<open>Reading\<close>

definition is_json_space :: "char \<Rightarrow> bool" where
  "is_json_space c \<longleftrightarrow> c = CHR '' '' \<or> c = CHR 0x09 \<or> c = LF \<or> c = CR"

definition skip_space :: "string \<Rightarrow> string" where
  "skip_space s = dropWhile is_json_space s"

definition hex_val :: "char \<Rightarrow> nat option" where
  "hex_val c = (let n = of_char c :: nat in
     if is_digit c then Some (n - 48)
     else if 97 \<le> n \<and> n \<le> 102 then Some (n - 87)
     else if 65 \<le> n \<and> n \<le> 70 then Some (n - 55)
     else None)"

text \<open>\<open>\u\<close> and four hexadecimal digits; above U+00FF the character is not represented.\<close>

definition hex4 :: "char \<Rightarrow> char \<Rightarrow> char \<Rightarrow> char \<Rightarrow> char option" where
  "hex4 a b c d = (case (hex_val a, hex_val b, hex_val c, hex_val d) of
       (Some w, Some x, Some y, Some z) \<Rightarrow> if w = 0 \<and> x = 0 then Some (char_of (16 * y + z)) else None
     | _ \<Rightarrow> None)"

definition unescape :: "char \<Rightarrow> char option" where
  "unescape e =
     (if e = DQUOTE \<or> e = BSLASH \<or> e = CHR ''/'' then Some e
      else if e = CHR ''b'' then Some (CHR 0x08)
      else if e = CHR ''f'' then Some (CHR 0x0C)
      else if e = CHR ''n'' then Some LF
      else if e = CHR ''r'' then Some CR
      else if e = CHR ''t'' then Some (CHR 0x09)
      else None)"

definition cons_char :: "char option \<Rightarrow> (string \<times> string) option \<Rightarrow> (string \<times> string) option" where
  "cons_char c r = (case (c, r) of (Some x, Some (s, t)) \<Rightarrow> Some (x # s, t) | _ \<Rightarrow> None)"

text \<open>The characters of a string up to its closing quote, with the rest of the text. Control
  characters are refused.\<close>

fun scan_string :: "string \<Rightarrow> (string \<times> string) option" where
  "scan_string [] = None"
| "scan_string (c # s) =
     (if c = DQUOTE then Some ([], s)
      else if c = BSLASH then (case s of
          [] \<Rightarrow> None
        | e # t \<Rightarrow> if e = CHR ''u'' then (case t of
              h1 # h2 # h3 # h4 # u \<Rightarrow> cons_char (hex4 h1 h2 h3 h4) (scan_string u)
            | _ \<Rightarrow> None)
            else cons_char (unescape e) (scan_string t))
      else if (of_char c :: nat) < 32 then None
      else cons_char (Some c) (scan_string s))"

text \<open>Numbers: an integer part without leading zeros, then a fraction and an exponent if present.\<close>

definition int_part :: "string \<Rightarrow> string" where
  "int_part s = (case s of [] \<Rightarrow> [] | c # t \<Rightarrow> if c = CHR ''0'' then [c] else takeWhile is_digit s)"

definition frac_part :: "string \<Rightarrow> string" where
  "frac_part s = (case s of
       [] \<Rightarrow> []
     | c # t \<Rightarrow> if c = CHR ''.'' \<and> takeWhile is_digit t \<noteq> [] then c # takeWhile is_digit t else [])"

definition exp_sign :: "string \<Rightarrow> string" where
  "exp_sign t = (case t of [] \<Rightarrow> [] | c # u \<Rightarrow> if c = CHR ''+'' \<or> c = CHR ''-'' then [c] else [])"

definition exp_part :: "string \<Rightarrow> string" where
  "exp_part s = (case s of
       [] \<Rightarrow> []
     | c # t \<Rightarrow>
         let sg = exp_sign t; ds = takeWhile is_digit (drop (length sg) t) in
         if (c = CHR ''e'' \<or> c = CHR ''E'') \<and> ds \<noteq> [] then c # sg @ ds else [])"

definition minus_part :: "string \<Rightarrow> string" where
  "minus_part s = (case s of [] \<Rightarrow> [] | c # t \<Rightarrow> if c = CHR ''-'' then [c] else [])"

definition scan_number :: "string \<Rightarrow> (json \<times> string) option" where
  "scan_number s =
     (let m = minus_part s; s1 = drop (length m) s;
          i = int_part s1; s2 = drop (length i) s1;
          f = frac_part s2; s3 = drop (length f) s2;
          e = exp_part s3; s4 = drop (length e) s3 in
      if i = [] then None
      else if f = [] \<and> e = [] then map_option (\<lambda>n. (JInt n, s4)) (py_int (m @ i))
      else map_option (\<lambda>x. (JNum x, s4)) (py_float (m @ i @ f @ e)))"

text \<open>The words, and what is not a number.\<close>

definition json_words :: "(string \<times> json) list" where
  "json_words = [(''null'', JNull), (''true'', JBool True), (''false'', JBool False), (''NaN'', JNum NaN),
     (''Infinity'', JNum PInf), (''-Infinity'', JNum NInf)]"

definition scan_word :: "string \<Rightarrow> (json \<times> string) option" where
  "scan_word s = (case filter (\<lambda>(w, v). starts_with w s) json_words of
       [] \<Rightarrow> None
     | (w, v) # _ \<Rightarrow> Some (v, drop (length w) s))"

definition scan_atom :: "string \<Rightarrow> (json \<times> string) option" where
  "scan_atom s = (case scan_number s of Some r \<Rightarrow> Some r | None \<Rightarrow> scan_word s)"

text \<open>Values, the items of a list after its bracket, and the members of a dictionary after the quote
  of a key. The first argument bounds the depth and the number of items; more than the length of the
  text is enough.\<close>

definition dict_of :: "(string \<times> json) list \<Rightarrow> (string \<times> json) list" where
  "dict_of kvs = fold (\<lambda>(k, v). AList.update k v) kvs []"

function (sequential) scan_value :: "nat \<Rightarrow> string \<Rightarrow> (json \<times> string) option"
  and scan_items :: "nat \<Rightarrow> string \<Rightarrow> (json list \<times> string) option"
  and scan_members :: "nat \<Rightarrow> string \<Rightarrow> ((string \<times> json) list \<times> string) option" where
  "scan_value 0 s = None"
| "scan_value (Suc n) s = (case s of
       [] \<Rightarrow> None
     | c # t \<Rightarrow>
         if c = DQUOTE then map_option (\<lambda>(x, r). (JStr x, r)) (scan_string t)
         else if c = CHR ''{'' then (case skip_space t of
             [] \<Rightarrow> None
           | d # u \<Rightarrow> if d = CHR ''}'' then Some (JObj [], u)
               else if d = DQUOTE then map_option (\<lambda>(kvs, r). (JObj (dict_of kvs), r)) (scan_members n u)
               else None)
         else if c = CHR ''['' then (case skip_space t of
             [] \<Rightarrow> None
           | d # u \<Rightarrow> if d = CHR '']'' then Some (JList [], u)
               else map_option (\<lambda>(xs, r). (JList xs, r)) (scan_items n (d # u)))
         else scan_atom s)"
| "scan_items 0 s = None"
| "scan_items (Suc n) s = (case scan_value (Suc n) s of
       None \<Rightarrow> None
     | Some (x, r) \<Rightarrow> (case skip_space r of
           [] \<Rightarrow> None
         | c # t \<Rightarrow> if c = CHR '']'' then Some ([x], t)
             else if c = CHR '','' then map_option (\<lambda>(xs, u). (x # xs, u)) (scan_items n (skip_space t))
             else None))"
| "scan_members 0 s = None"
| "scan_members (Suc n) s = (case scan_string s of
       None \<Rightarrow> None
     | Some (k, r) \<Rightarrow> (case skip_space r of
           [] \<Rightarrow> None
         | c # t \<Rightarrow> if c \<noteq> CHR '':'' then None
             else (case scan_value (Suc n) (skip_space t) of
                 None \<Rightarrow> None
               | Some (v, q) \<Rightarrow> (case skip_space q of
                     [] \<Rightarrow> None
                   | d # u \<Rightarrow> if d = CHR ''}'' then Some ([(k, v)], u)
                       else if d = CHR '','' then (case skip_space u of
                           [] \<Rightarrow> None
                         | b # w \<Rightarrow> if b = DQUOTE then map_option (\<lambda>(kvs, z). ((k, v) # kvs, z)) (scan_members n w)
                             else None)
                       else None))))"
  by pat_completeness auto

termination
  by (relation "measure (\<lambda>x. case x of Inl (n, s) \<Rightarrow> 2 * n | Inr (Inl (n, s)) \<Rightarrow> 2 * n + 1 | Inr (Inr (n, s)) \<Rightarrow> 2 * n + 1)") auto

text \<open>\<open>None\<close> is \<open>JSONDecodeError\<close>.\<close>

definition json_loads :: "string \<Rightarrow> json option" where
  "json_loads s = (case scan_value (Suc (length s)) (skip_space s) of
       None \<Rightarrow> None
     | Some (v, r) \<Rightarrow> if skip_space r = [] then Some v else None)"

section \<open>Numbers\<close>

definition digits_text :: "string \<Rightarrow> bool" where
  "digits_text s \<longleftrightarrow> s \<noteq> [] \<and> (\<forall>c \<in> set s. is_digit c)"

text \<open>A float literal: an integer part without leading zeros, and a fraction, an exponent or both.\<close>

definition float_token :: "string \<Rightarrow> bool" where
  "float_token s \<longleftrightarrow> (\<exists>m i f e. s = m @ i @ f @ e \<and> (m = [] \<or> m = ''-'')
     \<and> (i = ''0'' \<or> digits_text i \<and> hd i \<noteq> CHR ''0'')
     \<and> (f = [] \<or> (\<exists>d. digits_text d \<and> f = CHR ''.'' # d))
     \<and> (e = [] \<or> (\<exists>sg d. digits_text d \<and> (sg = [] \<or> sg = ''+'' \<or> sg = ''-'') \<and> e = CHR ''e'' # sg @ d))
     \<and> (f \<noteq> [] \<or> e \<noteq> []))"

text \<open>What \<open>repr\<close> promises of a finite float: a float literal that reads back as that float.\<close>

definition float_text :: "(real \<Rightarrow> string) \<Rightarrow> real \<Rightarrow> bool" where
  "float_text fr x \<longleftrightarrow> float_token (fr x) \<and> py_float (fr x) = Some (Fin x)"

definition num_end :: "string \<Rightarrow> bool" where
  "num_end t \<longleftrightarrow> (case t of [] \<Rightarrow> True | c # _ \<Rightarrow> \<not> is_digit c \<and> c \<noteq> CHR ''.'' \<and> c \<noteq> CHR ''e'' \<and> c \<noteq> CHR ''E'')"

lemma num_end_simps [simp]:
  "num_end []"
  "num_end (c # t) \<longleftrightarrow> \<not> is_digit c \<and> c \<noteq> CHR ''.'' \<and> c \<noteq> CHR ''e'' \<and> c \<noteq> CHR ''E''"
  by (simp_all add: num_end_def)

lemma not_digit_e [simp]: "\<not> is_digit (CHR ''e'')" "\<not> is_digit (CHR ''.'')"
  by (simp_all add: is_digit_def)

lemma digits_text_simps: "digits_text d \<Longrightarrow> d \<noteq> [] \<and> is_digit (hd d) \<and> (\<forall>c \<in> set d. is_digit c)"
  by (auto simp: digits_text_def)

lemma takeWhile_digits_text:
  "digits_text d \<Longrightarrow> r = [] \<or> \<not> is_digit (hd r) \<Longrightarrow> takeWhile is_digit (d @ r) = d"
  unfolding digits_text_def by (intro takeWhile_digits(1)) auto

lemma minus_part_parts: "m = [] \<or> m = ''-'' \<Longrightarrow> is_digit (hd (i @ r)) \<Longrightarrow> i \<noteq> [] \<Longrightarrow> minus_part (m @ i @ r) = m"
  by (cases i) (auto simp: minus_part_def)

lemma int_part_parts:
  assumes "i = ''0'' \<or> digits_text i \<and> hd i \<noteq> CHR ''0''" and "r = [] \<or> \<not> is_digit (hd r)"
  shows "int_part (i @ r) = i"
  using assms(1)
proof
  assume "i = ''0''"
  then show ?thesis by (simp add: int_part_def)
next
  assume i: "digits_text i \<and> hd i \<noteq> CHR ''0''"
  then have "takeWhile is_digit (i @ r) = i" using assms(2) by (intro takeWhile_digits_text) auto
  with i show ?thesis by (cases i) (auto simp: int_part_def digits_text_def)
qed

lemma frac_part_parts:
  assumes "f = [] \<and> (r = [] \<or> hd r \<noteq> CHR ''.'') \<or> (\<exists>d. digits_text d \<and> f = CHR ''.'' # d) \<and> (r = [] \<or> \<not> is_digit (hd r))"
  shows "frac_part (f @ r) = f"
proof (cases "f = []")
  case True
  then show ?thesis using assms by (auto simp: frac_part_def split: list.splits)
next
  case False
  then obtain d where d: "digits_text d" "f = CHR ''.'' # d" "r = [] \<or> \<not> is_digit (hd r)" using assms by blast
  then show ?thesis using takeWhile_digits_text [of d r] by (simp add: frac_part_def digits_text_def)
qed

lemma exp_part_none: "num_end r \<Longrightarrow> exp_part r = []"
  by (cases r) (auto simp: exp_part_def Let_def)

lemma exp_part_some:
  assumes "digits_text d" and "sg = [] \<or> sg = ''+'' \<or> sg = ''-''" and "num_end r"
  shows "exp_part ((CHR ''e'' # sg @ d) @ r) = CHR ''e'' # sg @ d"
proof -
  have "exp_sign (sg @ d @ r) = sg"
    using assms(1,2) by (cases d) (auto simp: exp_sign_def digits_text_def)
  moreover have "takeWhile is_digit (d @ r) = d"
    using assms(1,3) by (intro takeWhile_digits_text) (auto simp: num_end_def split: list.splits)
  moreover have "d \<noteq> []" using assms(1) by (simp add: digits_text_def)
  ultimately show ?thesis by (simp add: exp_part_def Let_def)
qed

lemma num_end_head: "num_end r \<Longrightarrow> r = [] \<or> \<not> is_digit (hd r)" "num_end r \<Longrightarrow> r = [] \<or> hd r \<noteq> CHR ''.''"
  by (cases r; simp)+

lemma scan_number_parts:
  assumes m: "m = [] \<or> m = ''-''" and i: "i = ''0'' \<or> digits_text i \<and> hd i \<noteq> CHR ''0''"
    and f: "f = [] \<or> (\<exists>d. digits_text d \<and> f = CHR ''.'' # d)"
    and e: "e = [] \<or> (\<exists>sg d. digits_text d \<and> (sg = [] \<or> sg = ''+'' \<or> sg = ''-'') \<and> e = CHR ''e'' # sg @ d)"
    and t: "num_end t"
  shows "scan_number (m @ i @ f @ e @ t)
    = (if f = [] \<and> e = [] then map_option (\<lambda>n. (JInt n, t)) (py_int (m @ i))
       else map_option (\<lambda>x. (JNum x, t)) (py_float (m @ i @ f @ e)))"
proof -
  have i1: "i \<noteq> []" "is_digit (hd i)" using i by (auto simp: digits_text_def)
  have et: "e @ t = [] \<or> \<not> is_digit (hd (e @ t))" "e @ t = [] \<or> hd (e @ t) \<noteq> CHR ''.''"
    using e num_end_head [OF t] by auto
  have m1: "minus_part (m @ i @ f @ e @ t) = m" using m i1 by (intro minus_part_parts) auto
  have i2: "int_part (i @ f @ e @ t) = i" using i f et by (intro int_part_parts) auto
  have f1: "frac_part (f @ e @ t) = f" using f et by (intro frac_part_parts) auto
  have e1: "exp_part (e @ t) = e" using e
  proof
    assume "e = []"
    then show ?thesis using exp_part_none [OF t] by simp
  next
    assume "\<exists>sg d. digits_text d \<and> (sg = [] \<or> sg = ''+'' \<or> sg = ''-'') \<and> e = CHR ''e'' # sg @ d"
    then obtain sg d where "digits_text d" "sg = [] \<or> sg = ''+'' \<or> sg = ''-''" "e = CHR ''e'' # sg @ d" by blast
    with exp_part_some [OF this(1,2) t] show ?thesis by (simp only:)
  qed
  have drop: "drop (length a) (a @ b) = b" for a b :: string by simp
  show ?thesis using i1(1) by (simp only: scan_number_def Let_def drop m1 i2 f1 e1 if_False)
qed

lemma scan_number_float:
  assumes "float_token s" and "py_float s = Some (Fin x)" and "num_end t"
  shows "scan_number (s @ t) = Some (JNum (Fin x), t)"
proof -
  from assms(1) obtain m i f e where s: "s = m @ i @ f @ e" and m: "m = [] \<or> m = ''-''"
    and i: "i = ''0'' \<or> digits_text i \<and> hd i \<noteq> CHR ''0''" and f: "f = [] \<or> (\<exists>d. digits_text d \<and> f = CHR ''.'' # d)"
    and e: "e = [] \<or> (\<exists>sg d. digits_text d \<and> (sg = [] \<or> sg = ''+'' \<or> sg = ''-'') \<and> e = CHR ''e'' # sg @ d)"
    and fe: "f \<noteq> [] \<or> e \<noteq> []"
    unfolding float_token_def by blast
  from scan_number_parts [OF m i f e assms(3)] fe assms(2) show ?thesis by (auto simp: s)
qed

lemma show_nat_lead: "show_nat n = ''0'' \<or> digits_text (show_nat n) \<and> hd (show_nat n) \<noteq> CHR ''0''"
proof (induction n rule: show_nat.induct)
  case (1 n)
  show ?case
  proof (cases "n < 10")
    case True
    have "digit_char n \<noteq> CHR ''0''" if "n \<noteq> 0"
    proof
      assume "digit_char n = CHR ''0''"
      then have "n = digit_val (CHR ''0'')" using digit_val_digit_char [OF True] by (simp only:)
      then show False using that by (simp add: digit_val_def)
    qed
    moreover have "show_nat n = [digit_char n]" using True by (subst show_nat.simps) simp
    ultimately show ?thesis using True by (cases "n = 0") (simp_all add: digits_text_def)
  next
    case False
    have "show_nat (n div 10) \<noteq> ''0''"
    proof
      assume "show_nat (n div 10) = ''0''"
      then have "digits_val 0 (show_nat (n div 10)) = digits_val 0 ''0''" by simp
      then show False using False by (simp add: digit_val_def)
    qed
    then have "digits_text (show_nat (n div 10))" "hd (show_nat (n div 10)) \<noteq> CHR ''0''" using 1 False by auto
    moreover have "show_nat n = show_nat (n div 10) @ [digit_char (n mod 10)]" using False by (subst show_nat.simps) simp
    ultimately show ?thesis by (simp add: digits_text_def)
  qed
qed

lemma scan_number_int:
  assumes "num_end t"
  shows "scan_number (show_int k @ t) = Some (JInt k, t)"
proof -
  obtain m n where mn: "show_int k = m @ show_nat n" "m = [] \<or> m = ''-''"
    using that [of "''-''" "nat (- k)"] that [of "[]" "nat k"] by (cases "k < 0") (simp_all add: show_int_def)
  from scan_number_parts [OF mn(2) show_nat_lead, of "[]" "[]" t n] assms
  have "scan_number (m @ show_nat n @ t) = map_option (\<lambda>n. (JInt n, t)) (py_int (m @ show_nat n))" by simp
  moreover have "py_int (m @ show_nat n) = Some k" unfolding mn(1) [symmetric] by simp
  ultimately show ?thesis by (simp add: mn(1))
qed

section \<open>Strings\<close>

lemma hex_val_digit: "d < 16 \<Longrightarrow> hex_val (hex_digit d) = Some d"
  by (auto simp: hex_val_def hex_digit_def is_digit_def Let_def)

lemma hex4_char: "hex4 (CHR ''0'') (CHR ''0'') (hex_digit (of_char c div 16)) (hex_digit (of_char c mod 16)) = Some c"
proof -
  have "(of_char c :: nat) < 256" using of_char_mod_256 [of c, where 'a = nat] mod_less_divisor [of 256 "of_char c"] by simp
  then have "(of_char c :: nat) div 16 < 16" by (simp add: div_less_iff_less_mult)
  moreover have "hex_val (CHR ''0'') = Some 0" by (simp add: hex_val_def is_digit_def)
  ultimately show ?thesis by (simp add: hex4_def hex_val_digit)
qed

lemma scan_escape: "scan_string (escape_char c @ r) = cons_char (Some c) (scan_string r)"
proof -
  let ?n = "of_char c :: nat"
  consider "c = BSLASH" | "c = DQUOTE" | "c = LF" | "c = CR" | "c = CHR 0x09" | "c = CHR 0x0C" | "c = CHR 0x08"
    | "c \<notin> {BSLASH, DQUOTE, LF, CR, CHR 0x09, CHR 0x0C, CHR 0x08}" "32 \<le> ?n" "?n \<le> 126"
    | "c \<notin> {BSLASH, DQUOTE, LF, CR, CHR 0x09, CHR 0x0C, CHR 0x08}" "\<not> (32 \<le> ?n \<and> ?n \<le> 126)"
    by blast
  then show ?thesis
  proof cases
    case 8
    then have "escape_char c = [c]" by (simp add: escape_char_def)
    then show ?thesis using 8 by simp
  next
    case 9
    then have "escape_char c = [BSLASH, CHR ''u'', CHR ''0'', CHR ''0'', hex_digit (?n div 16), hex_digit (?n mod 16)]"
      by (auto simp: escape_char_def Let_def)
    then show ?thesis using hex4_char [of c] by simp
  qed (simp_all add: escape_char_def unescape_def)
qed

lemma scan_string_escaped: "scan_string (concat (map escape_char s) @ DQUOTE # t) = Some (s, t)"
  by (induction s) (simp_all add: scan_escape cons_char_def)

section \<open>Reading back what was written\<close>

text \<open>The values that read back: dictionaries with distinct keys, floats with their text.\<close>

fun writable :: "(real \<Rightarrow> string) \<Rightarrow> json \<Rightarrow> bool" where
  "writable fr (JNum (Fin x)) = float_text fr x"
| "writable fr (JList xs) = (\<forall>x \<in> set xs. writable fr x)"
| "writable fr (JObj kvs) = (distinct (map fst kvs) \<and> (\<forall>kv \<in> set kvs. writable fr (snd kv)))"
| "writable fr v = True"

text \<open>What a float reads back as, and a value with its floats so. A float literal in this sense is all that is
  asked of a text of a float here; \<open>float_text\<close> asks for the float itself.\<close>

definition read_back :: "(real \<Rightarrow> string) \<Rightarrow> real \<Rightarrow> real" where
  "read_back fr x = (case py_float (fr x) of Some (Fin y) \<Rightarrow> y | _ \<Rightarrow> x)"

definition literal :: "(real \<Rightarrow> string) \<Rightarrow> real \<Rightarrow> bool" where
  "literal fr x \<longleftrightarrow> float_token (fr x) \<and> py_float (fr x) = Some (Fin (read_back fr x))"

fun literals :: "(real \<Rightarrow> string) \<Rightarrow> json \<Rightarrow> bool" where
  "literals fr (JNum (Fin x)) = literal fr x"
| "literals fr (JList xs) = (\<forall>x \<in> set xs. literals fr x)"
| "literals fr (JObj kvs) = (distinct (map fst kvs) \<and> (\<forall>kv \<in> set kvs. literals fr (snd kv)))"
| "literals fr v = True"

fun reread :: "(real \<Rightarrow> string) \<Rightarrow> json \<Rightarrow> json" where
  "reread fr (JNum (Fin x)) = JNum (Fin (read_back fr x))"
| "reread fr (JList xs) = JList (map (reread fr) xs)"
| "reread fr (JObj kvs) = JObj (map (\<lambda>kv. (fst kv, reread fr (snd kv))) kvs)"
| "reread fr v = v"

lemma float_text_literal: "float_text fr x \<Longrightarrow> literal fr x \<and> read_back fr x = x"
  by (simp add: float_text_def literal_def read_back_def)

lemma writable_literals: "writable fr v \<Longrightarrow> literals fr v \<and> reread fr v = v"
proof (induction fr v rule: writable.induct)
  case (2 fr xs)
  then show ?case by (auto intro: map_idI)
next
  case (3 fr kvs)
  then show ?case by (auto intro!: map_idI simp: prod_eq_iff)
qed (simp_all add: float_text_literal)

lemma dict_of_distinct: "distinct (map fst kvs) \<Longrightarrow> dict_of kvs = kvs"
proof -
  have "fold (\<lambda>(k, v). AList.update k v) kvs acc = acc @ kvs"
    if "distinct (map fst kvs)" "set (map fst acc) \<inter> set (map fst kvs) = {}" for acc
    using that
  proof (induction kvs arbitrary: acc)
    case (Cons kv kvs)
    have "AList.update (fst kv) (snd kv) acc = acc @ [kv]" if "fst kv \<notin> set (map fst acc)"
      using that by (induction acc) (auto simp: prod_eq_iff)
    then show ?case using Cons.prems Cons.IH [of "acc @ [kv]"] by (auto simp: case_prod_unfold)
  qed simp
  then show "distinct (map fst kvs) \<Longrightarrow> dict_of kvs = kvs" by (simp add: dict_of_def)
qed

text \<open>The text of a value starts with no space and no closing bracket.\<close>

definition value_start :: "string \<Rightarrow> bool" where
  "value_start s \<longleftrightarrow> s \<noteq> [] \<and> \<not> is_json_space (hd s) \<and> hd s \<noteq> CHR '']''"

lemma value_start_digits: "digits_text d \<Longrightarrow> value_start (d @ r)" "value_start (CHR ''-'' # r)"
proof -
  show "digits_text d \<Longrightarrow> value_start (d @ r)"
    by (cases d) (auto simp: value_start_def digits_text_def is_json_space_def is_digit_def)
qed (simp add: value_start_def is_json_space_def)

lemma value_start_int: "value_start (show_int k)"
proof -
  have "digits_text (show_nat n)" for n using digits_show_nat by (simp add: digits_text_def)
  then show ?thesis using value_start_digits(1) [of "show_nat (nat k)" "[]"]
    by (simp add: show_int_def value_start_digits)
qed

lemma value_start_float: "float_token s \<Longrightarrow> value_start s"
proof -
  assume "float_token s"
  then obtain m i r where s: "s = m @ i @ r" "m = [] \<or> m = ''-''" "i = ''0'' \<or> digits_text i"
    unfolding float_token_def by blast
  moreover have "digits_text ''0''" by (simp add: digits_text_def)
  ultimately have "digits_text i" by auto
  with s value_start_digits show ?thesis by auto
qed

lemma value_start_dumps: "literals fr v \<Longrightarrow> value_start (json_dumps fr indent level v)"
proof (cases v)
  case (JNum x)
  assume "literals fr v"
  then show ?thesis using JNum value_start_float
    by (cases x) (auto simp: json_float_text_def literal_def, simp_all add: value_start_def is_json_space_def)
qed (auto simp: value_start_int, simp_all add: value_start_def is_json_space_def json_string_def bracket_def)

lemma skip_space_value: "value_start s \<Longrightarrow> skip_space (s @ r) = s @ r"
  by (cases s) (simp_all add: value_start_def skip_space_def)

lemma skip_space_break: "skip_space (break_to indent level @ s) = skip_space s"
proof -
  have "\<forall>c \<in> set (break_to indent level). is_json_space c"
    by (auto simp: break_to_def is_json_space_def split: option.splits)
  then show ?thesis by (simp add: skip_space_def)
qed

lemma skip_space_char [simp]: "\<not> is_json_space c \<Longrightarrow> skip_space (c # s) = c # s"
  by (simp add: skip_space_def)

lemma json_space_simps [simp]:
  "\<not> is_json_space (CHR '']'')" "\<not> is_json_space (CHR ''}'')" "\<not> is_json_space (CHR '','')"
  "\<not> is_json_space (CHR '':'')" "\<not> is_json_space DQUOTE" "is_json_space (CHR '' '')"
  by (simp_all add: is_json_space_def)

text \<open>What follows the first item: the others, each after a comma and a gap, and the closing bracket.\<close>

definition following :: "nat option \<Rightarrow> nat \<Rightarrow> string list \<Rightarrow> char \<Rightarrow> string" where
  "following indent level items b =
     concat (map (\<lambda>i. item_separator indent @ break_to indent (Suc level) @ i) items) @ break_to indent level @ [b]"

lemma bracket_following:
  "bracket indent level a (i # items) b = a # break_to indent (Suc level) @ i @ following indent level items b"
proof -
  have "join_str sep (map f (i # items)) = f i @ concat (map (\<lambda>i. sep @ f i) items)"
    for sep :: string and f :: "string \<Rightarrow> string"
    by (induction items arbitrary: i) auto
  then show ?thesis by (simp add: bracket_def following_def)
qed

lemma following_Nil: "skip_space (following indent level [] b @ t) = skip_space (b # t)"
  using skip_space_break [of indent level "b # t"] by (simp add: following_def)

lemma following_Cons:
  "\<exists>gap. following indent level (i # items) b = CHR '','' # gap @ i @ following indent level items b
     \<and> (\<forall>s. skip_space (gap @ s) = skip_space s)"
proof (cases indent)
  case None
  then show ?thesis by (intro exI [of _ "'' ''"]) (simp add: following_def item_separator_def break_to_def skip_space_def)
next
  case (Some k)
  then show ?thesis using skip_space_break [of indent "Suc level"]
    by (intro exI [of _ "break_to indent (Suc level)"]) (simp add: following_def item_separator_def)
qed

lemma num_end_following: "\<not> is_digit b \<Longrightarrow> b \<notin> {CHR ''.'', CHR ''e'', CHR ''E''} \<Longrightarrow> num_end (following indent level items b @ t)"
proof (cases items)
  case Nil
  assume "\<not> is_digit b" "b \<notin> {CHR ''.'', CHR ''e'', CHR ''E''}"
  then show ?thesis using Nil by (cases indent) (auto simp: following_def break_to_def is_digit_def)
next
  case (Cons i items')
  obtain gap where "following indent level items b = CHR '','' # gap @ i @ following indent level items' b"
    using following_Cons [of indent level i items' b] Cons by blast
  then show ?thesis by (simp add: is_digit_def)
qed

text \<open>One item and what follows it, then one member.\<close>

lemma scan_items_step:
  assumes x: "\<And>t. num_end t \<Longrightarrow> length (i @ t) < n \<Longrightarrow> scan_value n (i @ t) = Some (x, t)"
    and rest: "items \<noteq> [] \<Longrightarrow> (\<And>n t. length (hd items @ following indent level (tl items) (CHR '']'') @ t) < n \<Longrightarrow>
      scan_items n (hd items @ following indent level (tl items) (CHR '']'') @ t) = Some (xs, t))"
    and starts: "\<forall>j \<in> set items. value_start j" and nil: "items = [] \<Longrightarrow> xs = []"
    and n: "length (i @ following indent level items (CHR '']'') @ t) < n"
  shows "scan_items n (i @ following indent level items (CHR '']'') @ t) = Some (x # xs, t)"
proof -
  obtain m where m: "n = Suc m" using n by (cases n) auto
  have "num_end (following indent level items (CHR '']'') @ t)" by (intro num_end_following) (auto simp: is_digit_def)
  then have val: "scan_value (Suc m) (i @ following indent level items (CHR '']'') @ t)
      = Some (x, following indent level items (CHR '']'') @ t)" using x n m by blast
  show ?thesis
  proof (cases items)
    case Nil
    then show ?thesis using val nil by (simp add: m following_Nil del: scan_value.simps)
  next
    case (Cons j js)
    obtain gap where f: "following indent level items (CHR '']'') = CHR '','' # gap @ j @ following indent level js (CHR '']'')"
      and gap: "\<And>s. skip_space (gap @ s) = skip_space s"
      using following_Cons [of indent level j js "CHR '']''"] Cons by blast
    have "skip_space (gap @ j @ following indent level js (CHR '']'') @ t) = j @ following indent level js (CHR '']'') @ t"
      using starts Cons by (simp add: gap skip_space_value)
    moreover have "scan_items m (j @ following indent level js (CHR '']'') @ t) = Some (xs, t)"
      using rest [of t m] n Cons f m by simp
    ultimately show ?thesis using val by (simp add: m f del: scan_value.simps)
  qed
qed

lemma scan_members_step:
  assumes v: "\<And>t. num_end t \<Longrightarrow> length (i @ t) < n \<Longrightarrow> scan_value n (i @ t) = Some (v, t)"
    and start: "value_start i"
    and rest: "items \<noteq> [] \<Longrightarrow> (\<And>n t. length (tl (hd items) @ following indent level (tl items) (CHR ''}'') @ t) < n \<Longrightarrow>
      scan_members n (tl (hd items) @ following indent level (tl items) (CHR ''}'') @ t) = Some (kvs, t))"
    and starts: "\<forall>j \<in> set items. \<exists>u. j = DQUOTE # u" and nil: "items = [] \<Longrightarrow> kvs = []"
    and n: "length (tl (json_string k @ '': '' @ i) @ following indent level items (CHR ''}'') @ t) < n"
  shows "scan_members n (tl (json_string k @ '': '' @ i) @ following indent level items (CHR ''}'') @ t) = Some ((k, v) # kvs, t)"
proof -
  let ?more = "following indent level items (CHR ''}'') @ t"
  obtain m where m: "n = Suc m" using n by (cases n) auto
  have key: "scan_string (tl (json_string k @ '': '' @ i) @ ?more) = Some (k, CHR '':'' # CHR '' '' # i @ ?more)"
    by (simp add: json_string_def scan_string_escaped)
  have "num_end ?more" by (intro num_end_following) (auto simp: is_digit_def)
  moreover have "length (i @ ?more) < n" using n by simp
  ultimately have val: "scan_value (Suc m) (i @ ?more) = Some (v, ?more)" using v m by blast
  have skip: "skip_space (CHR '' '' # i @ ?more) = i @ ?more"
    using skip_space_value [OF start, of ?more] by (simp add: skip_space_def)
  show ?thesis
  proof (cases items)
    case Nil
    then show ?thesis using val nil key skip by (simp add: m following_Nil del: scan_value.simps)
  next
    case (Cons j js)
    obtain gap where f: "following indent level items (CHR ''}'') = CHR '','' # gap @ j @ following indent level js (CHR ''}'')"
      and gap: "\<And>s. skip_space (gap @ s) = skip_space s"
      using following_Cons [of indent level j js "CHR ''}''"] Cons by blast
    obtain u where u: "j = DQUOTE # u" using starts Cons by auto
    have "skip_space (gap @ j @ following indent level js (CHR ''}'') @ t) = DQUOTE # u @ following indent level js (CHR ''}'') @ t"
      by (simp add: gap u)
    moreover have "scan_members m (u @ following indent level js (CHR ''}'') @ t) = Some (kvs, t)"
      using rest [of t m] n Cons f m u by simp
    ultimately show ?thesis using val key skip by (simp add: m f del: scan_value.simps)
  qed
qed

lemma value_start_items: "\<forall>x \<in> set xs. literals fr x \<Longrightarrow> \<forall>j \<in> set (json_items fr indent level xs). value_start j"
  by (induction xs) (simp_all add: value_start_dumps)

lemma members_start: "\<forall>j \<in> set (json_members fr indent level kvs). \<exists>u. j = DQUOTE # u"
  by (induction kvs) (auto simp: json_string_def)

lemma items_Nil [simp]: "json_items fr indent level xs = [] \<longleftrightarrow> xs = []" "json_members fr indent level kvs = [] \<longleftrightarrow> kvs = []"
  by (cases xs; simp) (cases kvs; auto)

lemma scan_string_value: "0 < n \<Longrightarrow> scan_value n (json_string s @ t) = Some (JStr s, t)"
  by (cases n) (simp_all add: json_string_def scan_string_escaped)

lemma scan_atom_value:
  assumes "value_start (a @ t)" and "hd (a @ t) \<notin> {DQUOTE, CHR ''{'', CHR ''[''}" and "0 < n"
  shows "scan_value n (a @ t) = scan_atom (a @ t)"
  using assms by (cases n; cases "a @ t") (auto simp: value_start_def)

lemma scan_number_letter: "s \<noteq> [] \<Longrightarrow> \<not> is_digit (hd s) \<Longrightarrow> hd s \<noteq> CHR ''-'' \<Longrightarrow> scan_number s = None"
  by (cases s) (auto simp: scan_number_def minus_part_def int_part_def Let_def is_digit_def)

lemma scan_words:
  "scan_atom (''null'' @ t) = Some (JNull, t)" "scan_atom (''true'' @ t) = Some (JBool True, t)"
  "scan_atom (''false'' @ t) = Some (JBool False, t)" "scan_atom (''NaN'' @ t) = Some (JNum NaN, t)"
  "scan_atom (''Infinity'' @ t) = Some (JNum PInf, t)"
  by (simp_all add: scan_atom_def scan_number_letter is_digit_def scan_word_def json_words_def)

lemma scan_minus_infinity: "scan_atom (''-Infinity'' @ t) = Some (JNum NInf, t)"
proof -
  have "scan_number (''-Infinity'' @ t) = None"
    by (simp add: scan_number_def minus_part_def int_part_def Let_def is_digit_def)
  then show ?thesis by (simp add: scan_atom_def scan_word_def json_words_def)
qed

lemma scan_constant:
  assumes "a \<in> {''null'', ''true'', ''false'', ''NaN'', ''Infinity'', ''-Infinity''}" and "0 < n"
  shows "scan_value n (a @ t) = scan_atom (a @ t)"
  using assms by (intro scan_atom_value) (auto simp: value_start_def is_json_space_def)

lemma scan_number_value:
  assumes "scan_number (a @ t) = Some r" and "value_start a" and "0 < n"
  shows "scan_value n (a @ t) = Some r"
proof -
  have "hd (a @ t) \<notin> {DQUOTE, CHR ''{'', CHR ''[''}"
    using assms(1,2) scan_number_letter [of "a @ t"] by (auto simp: value_start_def is_digit_def)
  moreover have "value_start (a @ t)" using assms(2) by (simp add: value_start_def)
  ultimately show ?thesis using assms(1,3) by (simp add: scan_atom_value scan_atom_def)
qed

lemma scan_bracket:
  assumes "items \<noteq> []" and "length (bracket indent level a items b @ t) < n"
  obtains m where "n = Suc m" and "length (hd items @ following indent level (tl items) b @ t) < m"
    and "bracket indent level a items b @ t = a # break_to indent (Suc level) @ hd items @ following indent level (tl items) b @ t"
proof -
  obtain i js where "items = i # js" using assms(1) by (cases items) auto
  with assms(2) that show thesis by (cases n) (simp_all add: bracket_following)
qed

lemma scan_written:
  "literals fr v \<Longrightarrow> num_end t \<Longrightarrow> length (json_dumps fr indent level v @ t) < n \<Longrightarrow>
     scan_value n (json_dumps fr indent level v @ t) = Some (reread fr v, t)"
  "\<forall>x \<in> set xs. literals fr x \<Longrightarrow> xs \<noteq> [] \<Longrightarrow> items = json_items fr indent level xs \<Longrightarrow> level = Suc l \<Longrightarrow>
     length (hd items @ following indent l (tl items) (CHR '']'') @ t) < n \<Longrightarrow>
     scan_items n (hd items @ following indent l (tl items) (CHR '']'') @ t) = Some (map (reread fr) xs, t)"
  "\<forall>kv \<in> set kvs. literals fr (snd kv) \<Longrightarrow> kvs \<noteq> [] \<Longrightarrow> items = json_members fr indent level kvs \<Longrightarrow> level = Suc l \<Longrightarrow>
     length (tl (hd items) @ following indent l (tl items) (CHR ''}'') @ t) < n \<Longrightarrow>
     scan_members n (tl (hd items) @ following indent l (tl items) (CHR ''}'') @ t) = Some (map (\<lambda>kv. (fst kv, reread fr (snd kv))) kvs, t)"
proof (induction fr indent level v and fr indent level xs and fr indent level kvs
    arbitrary: t n and items l t n and items l t n rule: json_dumps_json_items_json_members.induct)
  case (4 fr indent level x)
  then show ?case
    using scan_number_value [of "json_float_text fr x" t "(reread fr (JNum x), t)" n] scan_number_float value_start_float
    by (cases x) (auto simp: scan_constant scan_words scan_minus_infinity json_float_text_def literal_def
        simp del: append.simps scan_value.simps)
next
  case (6 fr indent level xs)
  show ?case
  proof (cases "xs = []")
    case True
    then show ?thesis using 6 by (cases n) (simp_all add: bracket_def)
  next
    case False
    let ?items = "json_items fr indent (Suc level) xs"
    obtain m where m: "n = Suc m" and len: "length (hd ?items @ following indent level (tl ?items) (CHR '']'') @ t) < m"
      and shape: "json_dumps fr indent level (JList xs) @ t
        = CHR ''['' # break_to indent (Suc level) @ hd ?items @ following indent level (tl ?items) (CHR '']'') @ t"
      using scan_bracket [of ?items indent level "CHR ''[''" "CHR '']''" t n] 6(4) False by auto
    have ok: "\<forall>x \<in> set xs. literals fr x" using 6(2) by simp
    have start: "value_start (hd ?items)"
      using value_start_items [OF ok, of indent "Suc level"] False by (cases ?items) auto
    then have "skip_space (break_to indent (Suc level) @ hd ?items @ following indent level (tl ?items) (CHR '']'') @ t)
        = hd ?items @ following indent level (tl ?items) (CHR '']'') @ t"
      by (simp add: skip_space_break skip_space_value)
    moreover obtain c u where "hd ?items = c # u" "c \<noteq> CHR '']''" using start by (cases "hd ?items") (auto simp: value_start_def)
    moreover have "scan_items m (hd ?items @ following indent level (tl ?items) (CHR '']'') @ t) = Some (map (reread fr) xs, t)"
      using 6(1) [OF ok False refl refl len] .
    ultimately show ?thesis unfolding shape m by simp
  qed
next
  case (7 fr indent level kvs)
  show ?case
  proof (cases "kvs = []")
    case True
    then show ?thesis using 7 by (cases n) (simp_all add: bracket_def)
  next
    case False
    let ?items = "json_members fr indent (Suc level) kvs"
    obtain m where m: "n = Suc m" and len: "length (hd ?items @ following indent level (tl ?items) (CHR ''}'') @ t) < m"
      and shape: "json_dumps fr indent level (JObj kvs) @ t
        = CHR ''{'' # break_to indent (Suc level) @ hd ?items @ following indent level (tl ?items) (CHR ''}'') @ t"
      using scan_bracket [of ?items indent level "CHR ''{''" "CHR ''}''" t n] 7(4) False by auto
    have ok: "\<forall>kv \<in> set kvs. literals fr (snd kv)" and keys: "dict_of (map (\<lambda>kv. (fst kv, reread fr (snd kv))) kvs) = map (\<lambda>kv. (fst kv, reread fr (snd kv))) kvs"
      using 7(2) dict_of_distinct [of "map (\<lambda>kv. (fst kv, reread fr (snd kv))) kvs"] by (simp_all add: comp_def)
    obtain u where u: "hd ?items = DQUOTE # u"
      using members_start [where fr = fr and indent = indent and level = "Suc level" and kvs = kvs] False by (cases ?items) auto
    have "skip_space (break_to indent (Suc level) @ hd ?items @ following indent level (tl ?items) (CHR ''}'') @ t)
        = DQUOTE # u @ following indent level (tl ?items) (CHR ''}'') @ t"
      by (simp add: skip_space_break u)
    moreover have "scan_members m (u @ following indent level (tl ?items) (CHR ''}'') @ t) = Some (map (\<lambda>kv. (fst kv, reread fr (snd kv))) kvs, t)"
      using 7(1) [OF ok False refl refl, of t m] len u by simp
    ultimately show ?thesis unfolding shape m by (simp add: keys)
  qed
next
  case (9 fr indent level x xs)
  have "scan_items n (json_dumps fr indent level x @ following indent l (json_items fr indent level xs) (CHR '']'') @ t)
      = Some (reread fr x # map (reread fr) xs, t)"
  proof (rule scan_items_step)
    show "\<forall>j \<in> set (json_items fr indent level xs). value_start j" using 9(3) by (intro value_start_items) simp
  qed (use 9 in auto)
  then show ?case by (simp add: 9(5))
next
  case (11 fr indent level k v kvs)
  have "scan_members n (tl (json_string k @ '': '' @ json_dumps fr indent level v)
        @ following indent l (json_members fr indent level kvs) (CHR ''}'') @ t)
        = Some ((k, reread fr v) # map (\<lambda>kv. (fst kv, reread fr (snd kv))) kvs, t)"
  proof (rule scan_members_step)
    show "value_start (json_dumps fr indent level v)" using 11(3) by (intro value_start_dumps) simp
    show "\<forall>j \<in> set (json_members fr indent level kvs). \<exists>u. j = DQUOTE # u" by (rule members_start)
  qed (use 11 in auto)
  then show ?case by (simp add: 11(5))
qed (auto simp: scan_constant scan_words scan_string_value scan_number_value scan_number_int value_start_int
    simp del: append.simps scan_value.simps)

lemma skip_space_dumps: "literals fr v \<Longrightarrow> skip_space (json_dumps fr indent level v) = json_dumps fr indent level v"
  using skip_space_value [OF value_start_dumps, of fr v indent level "[]"] by simp

lemma json_loads_literals:
  assumes "literals fr v"
  shows "json_loads (json_dumps fr indent level v) = Some (reread fr v)"
  using scan_written(1) [OF assms, of "[]" indent level] by (simp add: json_loads_def skip_space_dumps [OF assms] del: scan_value.simps) (simp add: skip_space_def)

lemma json_loads_dumps: "writable fr v \<Longrightarrow> json_loads (json_dumps fr indent level v) = Some v"
  using json_loads_literals writable_literals by metis

section \<open>The bound of the reader is large enough\<close>

lemma skip_space_length: "length (skip_space s) \<le> length s"
  unfolding skip_space_def by (rule length_dropWhile_le)

lemma skip_space_Cons_length: "skip_space s = c # t \<Longrightarrow> length t < length s"
  using skip_space_length [of s] by simp

lemma cons_char_Some: "cons_char c r = Some (s, t) \<Longrightarrow> \<exists>s'. r = Some (s', t)"
  by (auto simp: cons_char_def split: option.splits)

lemma scan_string_shorter: "scan_string s = Some (x, r) \<Longrightarrow> length r < length s"
proof (induction s arbitrary: x rule: scan_string.induct)
  case (2 c s)
  then show ?case
    by (fastforce split: if_splits list.splits dest!: cons_char_Some)
qed simp

lemma scan_atom_shorter: "scan_atom s = Some (v, r) \<Longrightarrow> length r < length s"
proof -
  assume a: "scan_atom s = Some (v, r)"
  have word: "length r < length s" if "scan_word s = Some (v, r)"
  proof -
    from that obtain w u us where "filter (\<lambda>(w, v). starts_with w s) json_words = (w, u) # us" "r = drop (length w) s"
      by (cases "filter (\<lambda>(w, v). starts_with w s) json_words") (auto simp: scan_word_def)
    moreover from this(1) have "(w, u) \<in> set json_words" "starts_with w s"
      using filter_set [of "\<lambda>(w, v). starts_with w s" json_words] by auto
    ultimately show ?thesis by (auto simp: json_words_def starts_with_iff)
  qed
  have "int_part (drop k s) \<noteq> [] \<Longrightarrow> s \<noteq> []" for k by (auto simp: int_part_def)
  then have "length r < length s" if "scan_number s = Some (v, r)"
    using that by (auto simp: scan_number_def Let_def split: if_splits intro!: diff_less)
  with a word show ?thesis by (auto simp: scan_atom_def split: option.splits)
qed

lemma scan_shorter:
  "(scan_value n s = Some (v, r) \<longrightarrow> length r < length s)
   \<and> (scan_items n s = Some (xs, r) \<longrightarrow> length r < length s)
   \<and> (scan_members n s = Some (kvs, r) \<longrightarrow> length r < length s)"
proof (induction n arbitrary: s v r xs kvs)
  case 0
  then show ?case by simp
next
  case (Suc n)
  have items: "scan_items n s = Some (xs, r) \<Longrightarrow> length r < length s"
    and members: "scan_members n s = Some (kvs, r) \<Longrightarrow> length r < length s" for s xs kvs r
    using Suc by blast+
  have val: "scan_value (Suc n) s = Some (v, r) \<Longrightarrow> length r < length s" for s v r
    by (cases s) (auto split: if_splits list.splits dest!: scan_string_shorter scan_atom_shorter items members skip_space_Cons_length)
  moreover have "scan_items (Suc n) s = Some (xs, r) \<Longrightarrow> length r < length s" for s xs r
    by (auto simp del: scan_value.simps split: option.splits list.splits if_splits
        dest!: skip_space_Cons_length items val order.strict_trans2 [OF _ skip_space_length])
  moreover have "scan_members (Suc n) s = Some (kvs, r) \<Longrightarrow> length r < length s" for s kvs r
    by (auto simp del: scan_value.simps split: option.splits list.splits if_splits
        dest!: skip_space_Cons_length members val scan_string_shorter order.strict_trans2 [OF _ skip_space_length])
  ultimately show ?case by blast
qed

lemmas scan_value_shorter = scan_shorter [THEN conjunct1, rule_format]

lemma scan_more_fuel:
  "(length s < n \<longrightarrow> scan_value n s = scan_value (Suc n) s)
   \<and> (length s < n \<longrightarrow> scan_items n s = scan_items (Suc n) s)
   \<and> (length s < n \<longrightarrow> scan_members n s = scan_members (Suc n) s)"
proof (induction n arbitrary: s)
  case 0
  then show ?case by simp
next
  case (Suc n)
  have items: "length s < n \<Longrightarrow> scan_items (Suc n) s = scan_items n s"
    and members: "length s < n \<Longrightarrow> scan_members (Suc n) s = scan_members n s" for s
    using Suc by metis+
  have val: "scan_value (Suc n) s = scan_value (Suc (Suc n)) s" if "length s < Suc n" for s
  proof (cases s)
    case (Cons c t)
    have "length u < n" "length (d # u) < n" if "skip_space t = d # u" for d u
      using skip_space_length [of t] that \<open>length s < Suc n\<close> Cons by simp_all
    then show ?thesis using Cons by (auto simp del: scan_items.simps scan_members.simps simp: items members split: list.split)
  qed simp
  moreover have "scan_items (Suc n) s = scan_items (Suc (Suc n)) s" if "length s < Suc n" for s
  proof -
    have "length (skip_space t) < n" if "scan_value (Suc n) s = Some (x, r)" "skip_space r = c # t" for x r c t
      using scan_value_shorter [OF that(1)] skip_space_Cons_length [OF that(2)] skip_space_length [of t] \<open>length s < Suc n\<close> by simp
    then show ?thesis unfolding scan_items.simps(2) [of n s] scan_items.simps(2) [of "Suc n" s] val [OF that, symmetric]
      by (auto simp del: scan_value.simps scan_items.simps simp: items split: option.split list.split)
  qed
  moreover have "scan_members (Suc n) s = scan_members (Suc (Suc n)) s" if s: "length s < Suc n" for s
  proof -
    have sk: "length (skip_space t) < Suc n" if "scan_string s = Some (k, r)" "skip_space r = c # t" for k r c t
      using scan_string_shorter [OF that(1)] skip_space_Cons_length [OF that(2)] skip_space_length [of t] s by simp
    have same: "scan_members n w = scan_members (Suc n) w"
      if "scan_string s = Some (k, r)" "skip_space r = c # t" "scan_value (Suc n) (skip_space t) = Some (x, q)"
        "skip_space q = d # u" "skip_space u = b # w" for k r c t x q d u b w
      using sk [OF that(1,2)] scan_value_shorter [OF that(3)] skip_space_Cons_length [OF that(4)]
        skip_space_Cons_length [OF that(5)] members [of w] by simp
    have "scan_value (Suc n) (skip_space t) = scan_value (Suc (Suc n)) (skip_space t)"
      if "scan_string s = Some (k, r)" "skip_space r = c # t" for k r c t by (rule val [OF sk [OF that]])
    then show ?thesis unfolding scan_members.simps(2) [of n s] scan_members.simps(2) [of "Suc n" s]
      by (auto simp del: scan_value.simps scan_members.simps split: option.split list.split
          intro!: arg_cong [where f = "map_option _"] intro: same)
  qed
  ultimately show ?case by blast
qed

lemma scan_value_fuel: "length s < n \<Longrightarrow> scan_value (n + k) s = scan_value n s"
proof (induction k)
  case (Suc k)
  then have "scan_value (n + k) s = scan_value (Suc (n + k)) s" using scan_more_fuel [of s "n + k"] by simp
  then show ?case using Suc by simp
qed simp

end
