(* ===== verification/Results.thy ===== *)
theory Results
  imports Runner Sampler Config Csv Json "HOL-Library.Multiset"
begin

text \<open>
  The statistics and result files, \<open>benchmarks/lib/results.py\<close>: percentiles and latency
  statistics, the energy model, the summary record and the table of iterations. Shown here:
  the percentile is bounded, monotone and independent of the order of the
  values, the latency figures are ordered, the modelled energy lies between the idle and the maximal
  power, and a summary counts what its results show. The table of iterations is an
  instance of \<open>table_codec\<close> in theory \<open>Plot\<close>, which holds its reader.
\<close>

section \<open>Statistics\<close>

definition percentile :: "real list \<Rightarrow> real \<Rightarrow> pyfloat" where
  "percentile values pct =
     (if values = [] then NaN
      else let s = sort values in
        if length s = 1 then Fin (s ! 0)
        else let k = real (length s - 1) * (pct / 100); f = \<lfloor>k\<rfloor>; c = \<lceil>k\<rceil> in
          if f = c then Fin (s ! nat f)
          else Fin (s ! nat f + (s ! nat c - s ! nat f) * (k - of_int f)))"

definition mean_of :: "real list \<Rightarrow> real" where
  "mean_of xs = sum_list xs / real (length xs)"

text \<open>\<open>statistics.stdev\<close>, \<open>fmean\<close> and \<open>median\<close> of the standard library.\<close>

definition stdev :: "real list \<Rightarrow> real" where
  "stdev xs = sqrt (sum_list (map (\<lambda>x. (x - mean_of xs)\<^sup>2) xs) / real (length xs - 1))"

definition median :: "real list \<Rightarrow> real" where
  "median xs = (let s = sort xs; n = length s in
     if odd n then s ! (n div 2) else (s ! (n div 2 - 1) + s ! (n div 2)) / 2)"

definition safe_stdev :: "real list \<Rightarrow> real" where
  "safe_stdev values = (if length values < 2 then 0 else stdev values)"

definition safe_mean :: "real list \<Rightarrow> pyfloat" where
  "safe_mean values = (if values = [] then NaN else Fin (mean_of values))"

record latency_stats =
  ls_mean :: pyfloat
  ls_median :: pyfloat
  ls_p95 :: pyfloat
  ls_p99 :: pyfloat
  ls_min :: pyfloat
  ls_max :: pyfloat
  ls_stdev :: real

definition from_values :: "real list \<Rightarrow> latency_stats" where
  "from_values values =
     (if values = [] then \<lparr>ls_mean = NaN, ls_median = NaN, ls_p95 = NaN, ls_p99 = NaN,
        ls_min = NaN, ls_max = NaN, ls_stdev = 0\<rparr>
      else \<lparr>ls_mean = safe_mean values, ls_median = Fin (median values),
        ls_p95 = percentile values 95, ls_p99 = percentile values 99,
        ls_min = Fin (Min (set values)), ls_max = Fin (Max (set values)),
        ls_stdev = safe_stdev values\<rparr>)"

section \<open>The table of iterations\<close>

definition iteration_header :: "string list" where
  "iteration_header = [''iter'', ''client_id'', ''success'', ''duration_ms'', ''sent_bytes'', ''recv_bytes'', ''wall_s'']"

definition opt_text :: "('a \<Rightarrow> string) \<Rightarrow> 'a option \<Rightarrow> string" where
  "opt_text f x = (case x of None \<Rightarrow> [] | Some y \<Rightarrow> f y)"

definition iteration_row :: "client_result \<Rightarrow> string list" where
  "iteration_row r = [show_nat (cr_iteration r), show_nat (cr_client_id r),
     show_int (if cr_success r then 1 else 0), opt_text (show_fixed 6) (cr_duration_ms r),
     opt_text show_int (cr_sent_bytes r), opt_text show_int (cr_recv_bytes r),
     show_fixed 6 (cr_elapsed_wall_s r)]"

definition write_iterations_csv :: "client_result list \<Rightarrow> string" where
  "write_iterations_csv results = csv_write (iteration_header # map iteration_row results)"

section \<open>Energy\<close>

definition estimate_energy_per_auth_mJ :: "resource_summary \<Rightarrow> int \<Rightarrow> power_profile \<Rightarrow> pyfloat" where
  "estimate_energy_per_auth_mJ rs n prof =
     (if n \<le> 0 \<or> rs_duration_s rs \<le> 0 then NaN
      else let cpu_frac = max 0 (min 1 (cpu_pct_normalised rs / 100));
               p_avg_w = idle_w prof + (max_w prof - idle_w prof) * cpu_frac;
               energy = p_avg_w * rs_duration_s rs
           in Fin (energy / of_int n * 1000))"

section \<open>The summary record\<close>

text \<open>The \<open>resources\<close> block of the summary: the sampled figures, the energy per authentication with
  its method, and, where a meter measured, the modelled figure next to the measurement.\<close>

record resource_block =
  rb_peak_rss_mb :: real
  rb_mean_cpu_pct :: real
  rb_peak_cpu_pct :: real
  rb_cpu_pct_normalised :: real
  rb_samples :: nat
  rb_duration_s :: real
  rb_energy_per_auth_mJ :: pyfloat
  rb_energy_method :: string
  rb_device_profile :: power_profile
  rb_energy_modelled :: "pyfloat option"
  rb_energy_measurement :: "energy_result option"

definition modelled_block :: "resource_summary \<Rightarrow> int \<Rightarrow> power_profile \<Rightarrow> resource_block" where
  "modelled_block rs n prof =
     \<lparr>rb_peak_rss_mb = peak_rss_mb rs, rb_mean_cpu_pct = mean_cpu_pct rs, rb_peak_cpu_pct = peak_cpu_pct rs,
      rb_cpu_pct_normalised = cpu_pct_normalised rs, rb_samples = rs_samples rs,
      rb_duration_s = rs_duration_s rs,
      rb_energy_per_auth_mJ = estimate_energy_per_auth_mJ rs n prof,
      rb_energy_method = ''static-model'', rb_device_profile = prof,
      rb_energy_modelled = None, rb_energy_measurement = None\<rparr>"

definition prefer_measured :: "energy_result option \<Rightarrow> resource_block \<Rightarrow> resource_block" where
  "prefer_measured energy b = (case energy of
       None \<Rightarrow> b
     | Some e \<Rightarrow> if is_nan (energy_per_auth_mJ e) then b
         else b\<lparr>rb_energy_modelled := Some (rb_energy_per_auth_mJ b),
                rb_energy_per_auth_mJ := energy_per_auth_mJ e,
                rb_energy_method := er_method e, rb_energy_measurement := Some e\<rparr>)"

record summary_record =
  sr_test :: string
  sr_protocol :: string
  sr_host :: string
  sr_device :: string
  sr_n :: nat
  sr_n_success :: nat
  sr_latency_ms :: latency_stats
  sr_sent_bytes_mean :: pyfloat
  sr_recv_bytes_mean :: pyfloat
  sr_total_bytes_mean :: pyfloat
  sr_resources :: "resource_block option"
  sr_notes :: "(string \<times> json) list"

definition successful_results :: "client_result list \<Rightarrow> client_result list" where
  "successful_results results = filter (\<lambda>r. cr_success r \<and> cr_duration_ms r \<noteq> None) results"

definition summarise :: "string \<Rightarrow> string \<Rightarrow> string \<Rightarrow> client_result list \<Rightarrow> resource_summary option
    \<Rightarrow> energy_result option \<Rightarrow> power_profile \<Rightarrow> (string \<times> json) list \<Rightarrow> summary_record" where
  "summarise host test protocol results resources energy prof notes =
     (let successful = successful_results results;
          durations = List.map_filter cr_duration_ms successful;
          sent = List.map_filter cr_sent_bytes successful;
          recv = List.map_filter cr_recv_bytes successful
      in \<lparr>sr_test = test, sr_protocol = protocol, sr_host = host, sr_device = profile_name prof,
          sr_n = length results, sr_n_success = length successful,
          sr_latency_ms = from_values durations,
          sr_sent_bytes_mean = safe_mean (map of_int sent),
          sr_recv_bytes_mean = safe_mean (map of_int recv),
          sr_total_bytes_mean = (if sent \<noteq> [] \<and> recv \<noteq> []
             then safe_mean (map (\<lambda>(s, r). of_int (s + r)) (zip sent recv)) else NaN),
          sr_resources = map_option (\<lambda>rs. prefer_measured energy (modelled_block rs (int (length successful)) prof)) resources,
          sr_notes = notes\<rparr>)"

text \<open>The summary as written: \<open>asdict\<close> of the record, and the JSON text of its file.\<close>

definition latency_json :: "latency_stats \<Rightarrow> json" where
  "latency_json l = JObj [(''mean'', JNum (ls_mean l)), (''median'', JNum (ls_median l)), (''p95'', JNum (ls_p95 l)),
     (''p99'', JNum (ls_p99 l)), (''min'', JNum (ls_min l)), (''max'', JNum (ls_max l)), (''stdev'', JNum (Fin (ls_stdev l)))]"

definition profile_json :: "power_profile \<Rightarrow> json" where
  "profile_json p = JObj [(''name'', JStr (profile_name p)), (''idle_w'', JNum (Fin (idle_w p))),
     (''max_w'', JNum (Fin (max_w p))), (''cpu_cores'', JInt (int (cpu_cores p)))]"

definition energy_json :: "energy_result \<Rightarrow> json" where
  "energy_json e = JObj [(''method'', JStr (er_method e)), (''duration_s'', JNum (Fin (er_duration_s e))),
     (''samples'', JInt (int (er_samples e))), (''mean_power_w'', JNum (mean_power_w e)),
     (''peak_power_w'', JNum (peak_power_w e)), (''energy_j'', JNum (energy_j e)),
     (''energy_per_auth_mJ'', JNum (energy_per_auth_mJ e)), (''note'', JStr (er_note e))]"

text \<open>The two entries of a measurement are added together.\<close>

definition resource_json :: "resource_block \<Rightarrow> json" where
  "resource_json b = JObj
     ([(''peak_rss_mb'', JNum (Fin (rb_peak_rss_mb b))), (''mean_cpu_pct'', JNum (Fin (rb_mean_cpu_pct b))),
       (''peak_cpu_pct'', JNum (Fin (rb_peak_cpu_pct b))), (''cpu_pct_normalised'', JNum (Fin (rb_cpu_pct_normalised b))),
       (''samples'', JInt (int (rb_samples b))), (''duration_s'', JNum (Fin (rb_duration_s b))),
       (''energy_per_auth_mJ'', JNum (rb_energy_per_auth_mJ b)), (''energy_method'', JStr (rb_energy_method b)),
       (''device_profile'', profile_json (rb_device_profile b))]
      @ (case rb_energy_modelled b of None \<Rightarrow> [] | Some x \<Rightarrow> [(''energy_per_auth_mJ_modelled'', JNum x)])
      @ (case rb_energy_measurement b of None \<Rightarrow> [] | Some e \<Rightarrow> [(''energy_measurement'', energy_json e)]))"

definition to_dict :: "summary_record \<Rightarrow> (string \<times> json) list" where
  "to_dict s = [(''test'', JStr (sr_test s)), (''protocol'', JStr (sr_protocol s)), (''host'', JStr (sr_host s)),
     (''device'', JStr (sr_device s)), (''n'', JInt (int (sr_n s))), (''n_success'', JInt (int (sr_n_success s))),
     (''latency_ms'', latency_json (sr_latency_ms s)), (''sent_bytes_mean'', JNum (sr_sent_bytes_mean s)),
     (''recv_bytes_mean'', JNum (sr_recv_bytes_mean s)), (''total_bytes_mean'', JNum (sr_total_bytes_mean s)),
     (''resources'', case sr_resources s of None \<Rightarrow> JNull | Some b \<Rightarrow> resource_json b), (''notes'', JObj (sr_notes s))]"

definition write_summary_json :: "(real \<Rightarrow> string) \<Rightarrow> summary_record \<Rightarrow> string" where
  "write_summary_json fr s = json_dumps fr (Some 2) 0 (JObj (to_dict s))"

section \<open>Percentiles\<close>

text \<open>Interpolation in a sorted list at a real index: the percentile's closed form.\<close>

definition interp :: "real list \<Rightarrow> real \<Rightarrow> real" where
  "interp s k = s ! nat \<lfloor>k\<rfloor> + (s ! nat \<lceil>k\<rceil> - s ! nat \<lfloor>k\<rfloor>) * (k - of_int \<lfloor>k\<rfloor>)"

definition rank :: "real list \<Rightarrow> real \<Rightarrow> real" where
  "rank xs pct = real (length xs - 1) * (pct / 100)"

lemma percentile_interp:
  assumes "xs \<noteq> []"
  shows "percentile xs pct = Fin (interp (sort xs) (rank xs pct))"
proof (cases "length xs = 1")
  case True
  then show ?thesis using assms by (simp add: percentile_def interp_def rank_def)
next
  case False
  have "k - of_int \<lfloor>k\<rfloor> = 0" if "\<lfloor>k\<rfloor> = \<lceil>k\<rceil>" for k :: real
    using that by linarith
  then show ?thesis using assms False by (simp add: percentile_def interp_def rank_def Let_def)
qed

lemma rank_range: "0 \<le> pct \<Longrightarrow> pct \<le> 100 \<Longrightarrow> 0 \<le> rank xs pct \<and> rank xs pct \<le> real (length xs - 1)"
  by (simp add: rank_def) (intro mult_left_mono, simp_all)

lemma rank_mono: "p \<le> q \<Longrightarrow> rank xs p \<le> rank xs q"
  by (simp add: rank_def mult_left_mono divide_right_mono)

lemma blend_between:
  fixes a b t :: real
  assumes "a \<le> b" "0 \<le> t" "t \<le> 1"
  shows "a \<le> a + (b - a) * t \<and> a + (b - a) * t \<le> b"
  using assms mult_left_le [of t "b - a"] by simp

lemma ceil_le_Suc_floor: "\<lceil>k\<rceil> \<le> \<lfloor>k\<rfloor> + 1" for k :: real
  by linarith

lemma interp_between:
  assumes "sorted s" "0 \<le> k" "k \<le> real (length s - 1)" "s \<noteq> []"
  shows "s ! nat \<lfloor>k\<rfloor> \<le> interp s k \<and> interp s k \<le> s ! nat \<lceil>k\<rceil>"
proof -
  have "\<lceil>k\<rceil> \<le> int (length s - 1)" using assms(3) by (simp add: ceiling_le_iff)
  then have "nat \<lceil>k\<rceil> < length s" using assms(4) by (cases s) (auto simp: nat_less_iff)
  moreover have "nat \<lfloor>k\<rfloor> \<le> nat \<lceil>k\<rceil>" by (intro nat_mono) linarith
  ultimately have "s ! nat \<lfloor>k\<rfloor> \<le> s ! nat \<lceil>k\<rceil>" using assms(1) by (simp add: sorted_nth_mono)
  moreover have "0 \<le> k - of_int \<lfloor>k\<rfloor>" "k - of_int \<lfloor>k\<rfloor> \<le> 1" by linarith+
  ultimately show ?thesis unfolding interp_def by (rule blend_between)
qed

lemma interp_mono:
  assumes "sorted s" "s \<noteq> []" "0 \<le> k" "k \<le> l" "l \<le> real (length s - 1)"
  shows "interp s k \<le> interp s l"
proof (cases "\<lfloor>k\<rfloor> = \<lfloor>l\<rfloor>")
  case False
  then have "\<lceil>k\<rceil> \<le> \<lfloor>l\<rfloor>" using ceil_le_Suc_floor [of k] floor_mono [OF assms(4)] by linarith
  moreover have "\<lfloor>l\<rfloor> \<le> int (length s - 1)" using assms(5) by linarith
  then have "nat \<lfloor>l\<rfloor> < length s" using assms(2) by (cases s) (auto simp: nat_less_iff)
  ultimately have "s ! nat \<lceil>k\<rceil> \<le> s ! nat \<lfloor>l\<rfloor>"
    using sorted_nth_mono [OF assms(1) nat_mono] by blast
  then show ?thesis
    using interp_between [OF assms(1), of k] interp_between [OF assms(1), of l] assms by linarith
next
  case True
  show ?thesis
  proof (cases "of_int \<lfloor>k\<rfloor> = k")
    case int: True
    then have "interp s k = s ! nat \<lfloor>l\<rfloor>" using True by (simp add: interp_def)
    then show ?thesis using interp_between [OF assms(1), of l] assms by simp
  next
    case False
    moreover have "of_int \<lfloor>k\<rfloor> < k" using False by linarith
    then have "of_int \<lfloor>l\<rfloor> < l" using assms(4) unfolding True by (rule less_le_trans)
    then have "of_int \<lfloor>l\<rfloor> \<noteq> l" by (rule less_imp_neq)
    ultimately have ceil: "\<lceil>k\<rceil> = \<lceil>l\<rceil>" using True by (simp add: ceiling_altdef)
    have "s ! nat \<lfloor>l\<rfloor> \<le> s ! nat \<lceil>l\<rceil>"
      using interp_between [OF assms(1), of l] assms by linarith
    then have "(s ! nat \<lceil>l\<rceil> - s ! nat \<lfloor>l\<rfloor>) * (k - of_int \<lfloor>l\<rfloor>) \<le> (s ! nat \<lceil>l\<rceil> - s ! nat \<lfloor>l\<rfloor>) * (l - of_int \<lfloor>l\<rfloor>)"
      using assms(4) by (intro mult_left_mono) auto
    then show ?thesis by (simp add: interp_def True ceil)
  qed
qed

lemma sort_ends:
  assumes "xs \<noteq> []"
  shows "sort xs ! 0 = Min (set xs)" and "sort xs ! (length xs - 1) = Max (set xs)"
proof -
  have ne: "sort xs \<noteq> []" using assms by (metis length_0_conv length_sort)
  have nth: "i < length xs \<Longrightarrow> sort xs ! i \<in> set xs" for i
    by (metis length_sort nth_mem set_sort)
  have mono: "i \<le> j \<Longrightarrow> j < length xs \<Longrightarrow> sort xs ! i \<le> sort xs ! j" for i j
    by (simp add: sorted_nth_mono)
  have ex: "x \<in> set xs \<Longrightarrow> \<exists>i < length xs. x = sort xs ! i" for x
    by (metis in_set_conv_nth length_sort set_sort)
  have lo: "sort xs ! 0 \<le> x" and hi: "x \<le> sort xs ! (length xs - 1)" if "x \<in> set xs" for x
  proof -
    from ex [OF that] obtain i where "i < length xs" "x = sort xs ! i" by blast
    then show "sort xs ! 0 \<le> x" "x \<le> sort xs ! (length xs - 1)"
      using mono [of 0 i] mono [of i "length xs - 1"] by simp_all
  qed
  show "sort xs ! 0 = Min (set xs)"
    using assms nth [of 0] lo by (metis List.finite_set Min_eqI length_greater_0_conv)
  show "sort xs ! (length xs - 1) = Max (set xs)"
    using assms nth [of "length xs - 1"] hi
    by (metis List.finite_set Max_eqI diff_less length_greater_0_conv zero_less_one)
qed

lemma percentile_ends:
  assumes "xs \<noteq> []"
  shows "interp (sort xs) (rank xs 0) = Min (set xs)" and "interp (sort xs) (rank xs 100) = Max (set xs)"
  using sort_ends [OF assms] by (simp_all add: interp_def rank_def)

text \<open>Of a list that is not empty, the percentile is a number, monotone in the rank asked for,
  with the minimum at 0 and the maximum at 100, and independent of the order of the values.\<close>

lemma percentile_monotone:
  assumes "xs \<noteq> []" and "0 \<le> p" and "p \<le> q" and "q \<le> 100" and "mset ys = mset xs"
  shows "\<exists>x y. percentile xs p = Fin x \<and> percentile ys q = Fin y
    \<and> Min (set xs) \<le> x \<and> x \<le> y \<and> y \<le> Max (set xs)
    \<and> percentile xs 0 = Fin (Min (set xs)) \<and> percentile xs 100 = Fin (Max (set xs))"
proof -
  have ys: "sort ys = sort xs" "length ys = length xs" "ys \<noteq> []"
    using assms(1,5) by (metis properties_for_sort sorted_sort mset_sort, metis size_mset, auto)
  have sorted: "sorted (sort xs)" "sort xs \<noteq> []" "length (sort xs) = length xs"
    using assms(1) by (simp_all, metis length_0_conv length_sort)
  have mono: "interp (sort xs) (rank xs a) \<le> interp (sort xs) (rank xs b)" if "0 \<le> a" "a \<le> b" "b \<le> 100" for a b
    using interp_mono [OF sorted(1,2), of "rank xs a" "rank xs b"] rank_mono [OF that(2)]
      rank_range [of a xs] rank_range [of b xs] that by simp
  have "rank ys q = rank xs q" by (simp add: rank_def ys(2))
  then show ?thesis
    using mono [of 0 p] mono [of p q] mono [of q 100] assms percentile_ends [OF assms(1)]
    by (simp add: percentile_interp ys)
qed

lemma percentile_monotone_witness:
  "\<exists>x y. percentile [3, 1, 2] 50 = Fin x \<and> percentile [2, 3, 1] 95 = Fin y \<and> x \<le> y \<and> y \<le> 3"
  using percentile_monotone [of "[3, 1, 2]" 50 95 "[2, 3, 1]"] by auto

lemma median_percentile:
  assumes "xs \<noteq> []"
  shows "percentile xs 50 = Fin (median xs)"
proof -
  have len: "length (sort xs) = length xs" by simp
  show ?thesis
  proof (cases "odd (length xs)")
    case True
    then obtain m where m: "length xs = Suc (2 * m)" by (metis oddE Suc_eq_plus1)
    then have "rank xs 50 = real m" by (simp add: rank_def)
    then show ?thesis using assms m by (simp add: percentile_interp interp_def median_def Let_def)
  next
    case False
    then obtain m where "length xs = 2 * m" by blast
    moreover then obtain j where "m = Suc j" using assms by (cases m) auto
    ultimately have m: "length xs = 2 * Suc j" by simp
    have r: "rank xs 50 = real j + 1 / 2" using m by (simp add: rank_def)
    have "\<lfloor>real j + 1 / 2\<rfloor> = int j" "\<lceil>real j + 1 / 2\<rceil> = int (Suc j)" by linarith+
    then show ?thesis using assms m
      by (simp add: percentile_interp interp_def r median_def Let_def nat_add_distrib field_simps)
  qed
qed

lemma percentile_sorted_chain:
  assumes "xs \<noteq> []" and "0 \<le> p" and "p \<le> q" and "q \<le> 100"
  shows "interp (sort xs) (rank xs p) \<le> interp (sort xs) (rank xs q)"
proof -
  have "sorted (sort xs)" "sort xs \<noteq> []" "length (sort xs) = length xs"
    using assms(1) by (simp_all, metis length_0_conv length_sort)
  then show ?thesis
    using interp_mono [of "sort xs" "rank xs p" "rank xs q"] rank_mono [OF assms(3)]
      rank_range [of p xs] rank_range [of q xs] assms by simp
qed

lemma mean_of_range:
  assumes "xs \<noteq> []"
  shows "Min (set xs) \<le> mean_of xs \<and> mean_of xs \<le> Max (set xs)"
proof -
  have n: "0 < real (length xs)" using assms by simp
  have "real (length xs) * Min (set xs) \<le> sum_list xs" "sum_list xs \<le> real (length xs) * Max (set xs)"
    by (intro sum_list_ge_mult sum_list_le_mult; simp)+
  then show ?thesis using n by (simp add: mean_of_def le_divide_eq divide_le_eq mult.commute)
qed

lemma stdev_nonneg: "0 \<le> stdev xs"
  unfolding stdev_def by (intro real_sqrt_ge_zero divide_nonneg_nonneg sum_list_nonneg) auto

text \<open>For every list of durations that is not empty the latency figures are numbers in order: the minimum,
  the median, the 95th and the 99th percentile, the maximum; the mean lies between minimum
  and maximum and the deviation is not negative. The median is the 50th percentile.\<close>

lemma latency_stats_ordered:
  assumes "xs \<noteq> []"
  shows "\<exists>mean med p95 p99. ls_mean (from_values xs) = Fin mean \<and> ls_median (from_values xs) = Fin med
    \<and> ls_p95 (from_values xs) = Fin p95 \<and> ls_p99 (from_values xs) = Fin p99
    \<and> ls_min (from_values xs) = Fin (Min (set xs)) \<and> ls_max (from_values xs) = Fin (Max (set xs))
    \<and> Min (set xs) \<le> med \<and> med \<le> p95 \<and> p95 \<le> p99 \<and> p99 \<le> Max (set xs)
    \<and> Min (set xs) \<le> mean \<and> mean \<le> Max (set xs) \<and> 0 \<le> ls_stdev (from_values xs)
    \<and> percentile xs 50 = Fin med"
proof -
  have med: "median xs = interp (sort xs) (rank xs 50)"
    using median_percentile [OF assms] percentile_interp [OF assms] by simp
  then have "Min (set xs) \<le> median xs" "median xs \<le> interp (sort xs) (rank xs 95)"
    using percentile_sorted_chain [OF assms, of 0 50] percentile_sorted_chain [OF assms, of 50 95]
    by (simp_all add: percentile_ends [OF assms])
  moreover have "interp (sort xs) (rank xs 95) \<le> interp (sort xs) (rank xs 99)"
      "interp (sort xs) (rank xs 99) \<le> Max (set xs)"
    using percentile_sorted_chain [OF assms, of 95 99] percentile_sorted_chain [OF assms, of 99 100]
    by (simp_all add: percentile_ends [OF assms])
  ultimately show ?thesis using assms mean_of_range [OF assms] stdev_nonneg [of xs]
    by (simp add: from_values_def safe_mean_def safe_stdev_def percentile_interp med)
qed

lemma latency_stats_ordered_witness:
  "\<exists>mean p99. ls_mean (from_values [4, 1, 9]) = Fin mean \<and> ls_p99 (from_values [4, 1, 9]) = Fin p99 \<and> p99 \<le> 9 \<and> 1 \<le> mean"
  using latency_stats_ordered [of "[4, 1, 9]"] by auto

section \<open>The energy estimate\<close>

text \<open>The modelled energy per authentication, for a run of positive length with successes, lies between
  what the device draws in that time when idle and at its maximum, divided by the successes;
  without successes or without a measured length it is undefined.\<close>

lemma energy_estimate_range:
  assumes "wf_profile prof"
  shows "if 0 < n \<and> 0 < rs_duration_s rs
    then \<exists>e. estimate_energy_per_auth_mJ rs n prof = Fin e
      \<and> idle_w prof * rs_duration_s rs / of_int n * 1000 \<le> e
      \<and> e \<le> max_w prof * rs_duration_s rs / of_int n * 1000
    else estimate_energy_per_auth_mJ rs n prof = NaN"
proof (cases "0 < n \<and> 0 < rs_duration_s rs")
  case True
  define c where "c = max 0 (min 1 (cpu_pct_normalised rs / 100))"
  define p where "p = idle_w prof + (max_w prof - idle_w prof) * c"
  have c: "0 \<le> c" "c \<le> 1" by (simp_all add: c_def)
  then have p: "idle_w prof \<le> p" "p \<le> max_w prof"
    using blend_between [of "idle_w prof" "max_w prof" c] assms by (simp_all add: p_def wf_profile_def)
  have scale: "x * rs_duration_s rs / of_int n * 1000 \<le> y * rs_duration_s rs / of_int n * 1000" if "x \<le> y" for x y
    using True that by (intro mult_right_mono divide_right_mono) simp_all
  have "estimate_energy_per_auth_mJ rs n prof = Fin (p * rs_duration_s rs / of_int n * 1000)"
    using True by (simp add: estimate_energy_per_auth_mJ_def Let_def p_def c_def)
  then show ?thesis using True scale [OF p(1)] scale [OF p(2)] by auto
next
  case False
  then show ?thesis by (auto simp: estimate_energy_per_auth_mJ_def)
qed

definition demo_resources :: resource_summary where
  "demo_resources = \<lparr>rs_samples = 10, rs_duration_s = 2, rs_peak_rss_bytes = 4096, mean_cpu_pct = 100,
     peak_cpu_pct = 150, cpu_pct_normalised = 25\<rparr>"

lemma energy_estimate_range_witness:
  "\<exists>e. estimate_energy_per_auth_mJ demo_resources 4 (profile None ''pi5'') = Fin e \<and> 1500 \<le> e \<and> e \<le> 4000"
proof -
  have "wf_profile (profile None ''pi5'')" using device_profiles_wf profile_in [of "''pi5''" None] by blast
  from energy_estimate_range [OF this, of 4 demo_resources] show ?thesis
    by (simp add: demo_resources_def profile_def device_profiles_def)
qed

section \<open>The summary\<close>

lemma map_filter_Some: "\<forall>x \<in> set xs. f x \<noteq> None \<Longrightarrow> List.map_filter f xs = map (\<lambda>x. the (f x)) xs"
  by (induction xs) (auto simp: map_filter_simps)

lemma successful_results_measured:
  assumes "\<forall>r \<in> set results. wf_client_result r" and "r \<in> set (successful_results results)"
  shows "cr_success r \<and> cr_duration_ms r \<noteq> None \<and> cr_sent_bytes r \<noteq> None \<and> cr_recv_bytes r \<noteq> None"
  using assms by (auto simp: successful_results_def wf_client_result_def)

lemma mean_of_add:
  assumes "length xs = length ys"
  shows "mean_of (map2 (\<lambda>x y. x + y) xs ys) = mean_of xs + mean_of ys"
proof -
  have "sum_list (map2 (\<lambda>x y. x + y) xs ys) = sum_list xs + sum_list ys"
    using assms by (induction xs ys rule: list_induct2) auto
  then show ?thesis using assms by (simp add: mean_of_def add_divide_distrib)
qed

text \<open>The summary of results as the runner produces them: the number of successes is that of the
  results marked successful, the latency is that of exactly these results, and the mean of the total bytes is
  the sum of the means of sent and received bytes; all are undefined without a success.\<close>

lemma summarise_counts:
  assumes "\<forall>r \<in> set results. wf_client_result r"
  shows "let s = summarise host test protocol results resources energy prof notes; ok = filter cr_success results in
    sr_n s = length results \<and> sr_n_success s = length ok
    \<and> sr_latency_ms s = from_values (map (\<lambda>r. the (cr_duration_ms r)) ok)
    \<and> sr_total_bytes_mean s = f_add (sr_sent_bytes_mean s) (sr_recv_bytes_mean s)
    \<and> (is_nan (sr_total_bytes_mean s) \<longleftrightarrow> ok = [])"
proof -
  define ok where "ok = filter cr_success results"
  have ok: "successful_results results = ok"
    unfolding successful_results_def ok_def
    using assms(1) by (intro filter_cong) (auto simp: wf_client_result_def)
  have some: "\<forall>r \<in> set ok. cr_duration_ms r \<noteq> None" "\<forall>r \<in> set ok. cr_sent_bytes r \<noteq> None" "\<forall>r \<in> set ok. cr_recv_bytes r \<noteq> None"
    using successful_results_measured [OF assms(1)] ok by blast+
  let ?s = "map (\<lambda>r. the (cr_sent_bytes r)) ok"
  let ?r = "map (\<lambda>r. the (cr_recv_bytes r)) ok"
  have "map (\<lambda>(s, r). real_of_int (s + r)) (zip ?s ?r) = map2 (\<lambda>x y. x + y) (map of_int ?s) (map of_int ?r)"
    by (induction ok) auto
  then have "mean_of (map (\<lambda>(s, r). real_of_int (s + r)) (zip ?s ?r)) = mean_of (map of_int ?s) + mean_of (map of_int ?r)"
    by (simp only: mean_of_add length_map)
  moreover have "?s \<noteq> [] \<longleftrightarrow> ok \<noteq> []" "?r \<noteq> [] \<longleftrightarrow> ok \<noteq> []" by simp_all
  ultimately show ?thesis
    unfolding ok_def [symmetric]
    by (cases "ok = []")
       (simp_all add: summarise_def Let_def ok map_filter_Some [OF some(1)] map_filter_Some [OF some(2)]
         map_filter_Some [OF some(3)] safe_mean_def is_nan_def)
qed

definition demo_result :: "bool \<Rightarrow> client_result" where
  "demo_result b = \<lparr>cr_iteration = 0, cr_client_id = 0, cr_success = b,
     cr_duration_ms = (if b then Some 12 else None), cr_sent_bytes = (if b then Some 310 else None),
     cr_recv_bytes = (if b then Some 42 else None), cr_stderr_tail = [], cr_elapsed_wall_s = 1\<rparr>"

lemma summarise_counts_witness:
  "\<exists>s. s = summarise ''h'' ''t'' ''edhoc'' [demo_result True, demo_result False] None None (profile None ''pi4'') []
    \<and> sr_n_success s = 1 \<and> \<not> is_nan (sr_total_bytes_mean s)"
proof -
  let ?s = "summarise ''h'' ''t'' ''edhoc'' [demo_result True, demo_result False] None None (profile None ''pi4'') []"
  have "\<forall>r \<in> set [demo_result True, demo_result False]. wf_client_result r"
    by (simp add: demo_result_def wf_client_result_def)
  moreover have ok: "filter cr_success [demo_result True, demo_result False] = [demo_result True]"
    by (simp add: demo_result_def)
  ultimately have "\<forall>r \<in> set [demo_result True, demo_result False]. wf_client_result r" by simp
  from summarise_counts [OF this, of "''h''" "''t''" "''edhoc''" None None "profile None ''pi4''" "[]"]
  have "sr_n_success ?s = 1 \<and> \<not> is_nan (sr_total_bytes_mean ?s)" unfolding Let_def ok by (elim conjE) (intro conjI; simp only: list.size list.distinct not_False_eq_True; simp)
  then show ?thesis by blast
qed

end
