(* ===== verification/Plot.thy ===== *)
theory Plot
  imports Results "HOL-Library.Sublist"
begin

text \<open>
  The figure generator, \<open>benchmarks/plot.py\<close>: reading back the tables of iterations, the means, the
  PGFPlots emitters and the choice of devices. An emitted file is the list of its bytes: the
  text is UTF-8, so the dash and the times sign of the titles are byte sequences. Shown
  here: the reader inverts the writer of \<open>results.py\<close> up to six decimals, a truncated row
  raises, the axis of a figure covers every point, the bucketed figure loses no
  sample, and the order of devices.
\<close>

section \<open>Reading the table of iterations\<close>

record iter_row =
  ir_iter :: int
  ir_client_id :: int
  ir_success :: bool
  ir_duration_ms :: "pyfloat option"
  ir_sent_bytes :: "int option"
  ir_recv_bytes :: "int option"
  ir_wall_s :: pyfloat

text \<open>A field by name, \<open>int\<close> and \<open>float\<close> of a field that may be Python's \<open>None\<close>, and the optional
  conversions of the fields that may be empty.\<close>

definition field :: "dict_row \<Rightarrow> string \<Rightarrow> string option res" where
  "field row k = (case row k of None \<Rightarrow> Inl (KeyError k) | Some v \<Rightarrow> Inr v)"

definition int_value :: "string option \<Rightarrow> int res" where
  "int_value v = (case v of None \<Rightarrow> Inl (TypeError ''int()'')
     | Some t \<Rightarrow> (case py_int t of None \<Rightarrow> Inl (ValueError t) | Some i \<Rightarrow> Inr i))"

definition float_value :: "string option \<Rightarrow> pyfloat res" where
  "float_value v = (case v of None \<Rightarrow> Inl (TypeError ''float()'')
     | Some t \<Rightarrow> (case py_float t of None \<Rightarrow> Inl (ValueError t) | Some x \<Rightarrow> Inr x))"

definition optional :: "(string option \<Rightarrow> 'a res) \<Rightarrow> string option \<Rightarrow> 'a option res" where
  "optional f v = (if v = None \<or> v = Some [] then Inr None else bind_res (f v) (\<lambda>x. Inr (Some x)))"

definition load_row :: "dict_row \<Rightarrow> iter_row res" where
  "load_row row =
     bind_res (bind_res (field row ''iter'') int_value) (\<lambda>iter.
     bind_res (bind_res (field row ''client_id'') int_value) (\<lambda>client.
     bind_res (bind_res (field row ''success'') int_value) (\<lambda>success.
     bind_res (bind_res (field row ''duration_ms'') (optional float_value)) (\<lambda>duration.
     bind_res (bind_res (field row ''sent_bytes'') (optional int_value)) (\<lambda>sent.
     bind_res (bind_res (field row ''recv_bytes'') (optional int_value)) (\<lambda>recv.
     bind_res (bind_res (field row ''wall_s'') float_value) (\<lambda>wall.
       Inr \<lparr>ir_iter = iter, ir_client_id = client, ir_success = (success \<noteq> 0), ir_duration_ms = duration,
            ir_sent_bytes = sent, ir_recv_bytes = recv, ir_wall_s = wall\<rparr>)))))))"

text \<open>A row with a missing column or a malformed number is skipped; any other exception ends the
  reading.\<close>

fun load_rows :: "dict_row list \<Rightarrow> iter_row list res" where
  "load_rows [] = Inr []"
| "load_rows (row # rows) = (case load_row row of
       Inr r \<Rightarrow> bind_res (load_rows rows) (\<lambda>out. Inr (r # out))
     | Inl (KeyError _) \<Rightarrow> load_rows rows
     | Inl (ValueError _) \<Rightarrow> load_rows rows
     | Inl e \<Rightarrow> Inl e)"

definition load_csv :: "string option \<Rightarrow> iter_row list res" where
  "load_csv file = (case file of
       None \<Rightarrow> Inr []
     | Some text \<Rightarrow> load_rows (dict_reader (universal_newlines text)))"

definition successful_durations :: "iter_row list \<Rightarrow> pyfloat list" where
  "successful_durations rows =
     List.map_filter (\<lambda>r. if ir_success r then ir_duration_ms r else None) rows"

section \<open>What the reader gives back\<close>

definition row_of_result :: "client_result \<Rightarrow> iter_row" where
  "row_of_result r = \<lparr>ir_iter = int (cr_iteration r), ir_client_id = int (cr_client_id r),
     ir_success = cr_success r, ir_duration_ms = map_option (\<lambda>d. Fin (py_round d 6)) (cr_duration_ms r),
     ir_sent_bytes = cr_sent_bytes r, ir_recv_bytes = cr_recv_bytes r,
     ir_wall_s = Fin (py_round (cr_elapsed_wall_s r) 6)\<rparr>"

definition times_nonneg :: "client_result \<Rightarrow> bool" where
  "times_nonneg r \<longleftrightarrow> 0 \<le> cr_elapsed_wall_s r \<and> (\<forall>d. cr_duration_ms r = Some d \<longrightarrow> 0 \<le> d)"

lemma iteration_fields:
  "dict_row iteration_header (iteration_row r) ''iter'' = Some (Some (show_nat (cr_iteration r)))"
  "dict_row iteration_header (iteration_row r) ''client_id'' = Some (Some (show_nat (cr_client_id r)))"
  "dict_row iteration_header (iteration_row r) ''success'' = Some (Some (show_int (if cr_success r then 1 else 0)))"
  "dict_row iteration_header (iteration_row r) ''duration_ms'' = Some (Some (opt_text (show_fixed 6) (cr_duration_ms r)))"
  "dict_row iteration_header (iteration_row r) ''sent_bytes'' = Some (Some (opt_text show_int (cr_sent_bytes r)))"
  "dict_row iteration_header (iteration_row r) ''recv_bytes'' = Some (Some (opt_text show_int (cr_recv_bytes r)))"
  "dict_row iteration_header (iteration_row r) ''wall_s'' = Some (Some (show_fixed 6 (cr_elapsed_wall_s r)))"
  by (simp_all add: dict_row_def iteration_header_def iteration_row_def)

lemma show_int_nonempty [simp]: "show_int i \<noteq> []"
  by (simp add: show_int_def)

lemma optional_int: "optional int_value (Some (opt_text show_int v)) = Inr v"
  by (cases v) (simp_all add: optional_def opt_text_def int_value_def)

lemma optional_fixed:
  "(\<And>d. v = Some d \<Longrightarrow> 0 \<le> d) \<Longrightarrow>
   optional float_value (Some (opt_text (show_fixed n) v)) = Inr (map_option (\<lambda>d. Fin (py_round d n)) v)"
  by (cases v) (simp_all add: optional_def opt_text_def float_value_def show_fixed_nonempty py_float_show_fixed)

lemma load_row_iteration:
  assumes "times_nonneg r"
  shows "load_row (dict_row iteration_header (iteration_row r)) = Inr (row_of_result r)"
proof -
  have "optional float_value (Some (opt_text (show_fixed 6) (cr_duration_ms r)))
      = Inr (map_option (\<lambda>d. Fin (py_round d 6)) (cr_duration_ms r))"
    using assms by (intro optional_fixed) (simp add: times_nonneg_def)
  moreover have "float_value (Some (show_fixed 6 (cr_elapsed_wall_s r))) = Inr (Fin (py_round (cr_elapsed_wall_s r) 6))"
    using assms by (simp add: float_value_def py_float_show_fixed times_nonneg_def)
  ultimately show ?thesis
    by (simp add: load_row_def field_def iteration_fields optional_int int_value_def row_of_result_def)
qed

lemma plain_fixed: "plain_field (show_fixed n x)"
  unfolding plain_field_def
proof
  assume "CR \<in> set (show_fixed n x)"
  from show_fixed_chars [OF this] show False by (auto simp: is_digit_def)
qed

lemma plain_opt: "(\<And>x. plain_field (f x)) \<Longrightarrow> plain_field (opt_text f v)"
  by (cases v) (simp_all add: opt_text_def plain_field_def)

interpretation iterations: table_codec iteration_header iteration_row load_row row_of_result times_nonneg
proof unfold_locales
  show "plain_row iteration_header" by (simp add: plain_row_def plain_field_def iteration_header_def)
  show "plain_row (iteration_row r)" for r
    by (simp add: plain_row_def iteration_row_def plain_fixed plain_opt)
  show "load_row (dict_row iteration_header (iteration_row r)) = Inr (row_of_result r)" if "times_nonneg r" for r
    using that by (rule load_row_iteration)
qed

lemma load_rows_map_res: "map_res load_row rows = Inr out \<Longrightarrow> load_rows rows = Inr out"
  by (induction rows arbitrary: out) (auto simp: bind_res_Inr_iff)

lemma load_written_iterations:
  "\<forall>r \<in> set results. times_nonneg r \<Longrightarrow> load_csv (Some (write_iterations_csv results)) = Inr (map row_of_result results)"
  using load_rows_map_res [OF iterations.map_res_table [of results]]
  by (simp add: load_csv_def iterations.table_text_def write_iterations_csv_def)

lemma successful_durations_results:
  "successful_durations (map row_of_result results)
     = map (\<lambda>r. Fin (py_round (the (cr_duration_ms r)) 6)) (successful_results results)"
  by (induction results)
     (auto simp: successful_durations_def successful_results_def row_of_result_def map_filter_simps)

text \<open>Reading a written table of iterations gives back every result, in order, with its numbers,
  its success flag and its missing values, the two times rounded to six decimals; the durations
  plotted are those of the successful results.\<close>

lemma iterations_csv_roundtrip:
  assumes "\<forall>r \<in> set results. times_nonneg r"
  shows "\<exists>rows. load_csv (Some (write_iterations_csv results)) = Inr rows \<and> rows = map row_of_result results
    \<and> successful_durations rows = map (\<lambda>r. Fin (py_round (the (cr_duration_ms r)) 6)) (successful_results results)"
  using load_written_iterations [OF assms] successful_durations_results by simp

lemma iterations_csv_roundtrip_witness:
  "\<exists>rows. load_csv (Some (write_iterations_csv [demo_result True, demo_result False])) = Inr rows
    \<and> successful_durations rows = [Fin (py_round 12 6)]"
proof -
  have "\<forall>r \<in> set [demo_result True, demo_result False]. times_nonneg r"
    by (simp add: times_nonneg_def demo_result_def)
  from iterations_csv_roundtrip [OF this] show ?thesis
    by (auto simp: successful_results_def demo_result_def)
qed

text \<open>A table whose last row was cut off after one or two columns cannot be read at all: the missing
  columns are \<open>None\<close>, and the conversion raises a \<open>TypeError\<close>, which the reader does not catch.\<close>

lemma truncated_row_raises:
  assumes "\<forall>r \<in> set results. times_nonneg r" and "xs \<noteq> []" and "length xs < 3"
  shows "load_csv (Some (write_iterations_csv results @ csv_row (map show_int xs))) = Inl (TypeError ''int()'')"
proof -
  have rows: "\<forall>r \<in> set (iteration_header # map iteration_row results @ [map show_int xs]). plain_row r"
    using iterations.header_plain iterations.enc_plain assms by (auto simp: plain_row_def)
  have "csv_read (universal_newlines (write_iterations_csv results @ csv_row (map show_int xs)))
      = iteration_header # map iteration_row results @ [map show_int xs]"
    using csv_read_write [OF rows] by (simp add: csv_write_def write_iterations_csv_def)
  moreover have "filter (\<lambda>r. r \<noteq> []) (map iteration_row results) = map iteration_row results"
    by (auto simp: filter_id_conv iteration_row_def)
  ultimately have "dict_reader (universal_newlines (write_iterations_csv results @ csv_row (map show_int xs)))
      = map (dict_row iteration_header) (map iteration_row results) @ [dict_row iteration_header (map show_int xs)]"
    using assms(2) by (simp add: dict_reader_def)
  moreover have "load_rows (map (dict_row iteration_header) (map iteration_row results) @ [row]) = Inl e"
    if "load_row row = Inl e" "e = TypeError ''int()''" for row e
    using assms(1) that by (induction results) (auto simp: load_row_iteration)
  moreover have "load_row (dict_row iteration_header (map show_int xs)) = Inl (TypeError ''int()'')"
  proof -
    obtain x ys where "xs = x # ys" "length ys < 2" using assms(2,3) by (cases xs) auto
    then consider "xs = [x]" | y where "xs = [x, y]" by (cases ys rule: list.exhaust [case_product list.exhaust]) (auto simp: less_Suc_eq)
    then show ?thesis
      by cases (simp_all add: load_row_def field_def dict_row_def iteration_header_def int_value_def numeral_eq_Suc)
  qed
  ultimately show ?thesis by (simp add: load_csv_def)
qed

lemma truncated_row_raises_witness:
  "load_csv (Some (write_iterations_csv [demo_result True] @ csv_row [''1'', ''0''])) = Inl (TypeError ''int()'')"
  using truncated_row_raises [of "[demo_result True]" "[1, 0]"]
  by (simp add: times_nonneg_def demo_result_def show_int_def show_nat.simps)

section \<open>Emitting figures\<close>

definition PROTOS_ORDER :: "string list" where
  "PROTOS_ORDER = [''zkarche'', ''edhoc'', ''mtls'']"

definition PROTO_DISPLAY :: "string \<Rightarrow> string" where
  "PROTO_DISPLAY p = (if p = ''zkarche'' then ''ZK-ARCHE'' else if p = ''edhoc'' then ''EDHOC'' else ''mTLS'')"

definition PROTO_COLOR :: "string \<Rightarrow> string" where
  "PROTO_COLOR p = (if p = ''zkarche'' then ''blue!70!black'' else if p = ''edhoc'' then ''teal!70!black''
     else ''red!70!black'')"

definition mean :: "pyfloat list \<Rightarrow> pyfloat" where
  "mean vs = (if vs = [] then NaN
     else case f_div_nat (f_sum vs) (length vs) of Inr x \<Rightarrow> x | Inl _ \<Rightarrow> NaN)"

abbreviation BACKSLASH :: char where "BACKSLASH \<equiv> CHR 0x5C"

definition utf8_dash :: string where
  "utf8_dash = [CHR 0xE2, CHR 0x80, CHR 0x94]"

definition utf8_times :: string where
  "utf8_times = [CHR 0xC3, CHR 0x97]"

definition PREAMBLE_NOTE :: string where
  "PREAMBLE_NOTE = ''% Auto-generated by benchmarks/plot.py '' @ utf8_dash @ '' do not edit by hand.'' @ [LF]
     @ ''% Requires '' @ [BACKSLASH] @ ''usepackage{pgfplots} '' @ [BACKSLASH] @ ''pgfplotsset{compat=1.18}'' @ [LF]"

text \<open>A line that starts with a command.\<close>

definition cmd :: "string \<Rightarrow> string" where
  "cmd s = BACKSLASH # s"

definition file_of :: "string list \<Rightarrow> string" where
  "file_of body = join_str [LF] body @ [LF]"

definition point :: "string \<Rightarrow> nat \<Rightarrow> pyfloat \<Rightarrow> string" where
  "point x d v = ''('' @ x @ '','' @ format_fixed d v @ '')''"

definition coords :: "pyfloat list \<Rightarrow> string" where
  "coords values = join_str '' '' (map2 (\<lambda>i v. point (show_nat (i + 1)) 6 v) [0..<length values] values)"

definition safe_max :: "pyfloat list \<Rightarrow> pyfloat" where
  "safe_max values = (case f_max_list values of Inr m \<Rightarrow> m | Inl _ \<Rightarrow> Fin 1)"

text \<open>The head of an axis: the lines up to the bracket that closes its options.\<close>

definition axis_head :: "string list \<Rightarrow> string list" where
  "axis_head options = [PREAMBLE_NOTE, cmd ''begin{tikzpicture}'', cmd ''begin{axis}['']
     @ map (\<lambda>l. ''  '' @ l) options @ ['']'']"

definition axis_tail :: "string list" where
  "axis_tail = [cmd ''end{axis}'', cmd ''end{tikzpicture}'']"

definition ymax_option :: "nat \<Rightarrow> pyfloat \<Rightarrow> string" where
  "ymax_option d y = ''ymin=0, ymax='' @ format_fixed d y @ '',''"

definition GRID :: string where
  "GRID = ''grid=major, grid style={dashed,gray!30},''"

definition LEGEND_NW :: string where
  "LEGEND_NW = ''legend style={at={(0.02,0.98)}, anchor=north west, font='' @ cmd ''footnotesize},''"

definition plot_line :: "string \<Rightarrow> string \<Rightarrow> string" where
  "plot_line options cs = cmd ''addplot+['' @ options @ ''] coordinates { '' @ cs @ '' };''"

definition two_line_plot :: "string \<Rightarrow> string \<Rightarrow> string list" where
  "two_line_plot options cs = [cmd ''addplot+['' @ options @ '']'', ''  coordinates { '' @ cs @ '' };'']"

definition legend_entry :: "string \<Rightarrow> string" where
  "legend_entry s = cmd ''addlegendentry{'' @ s @ ''}''"

definition wide :: "string \<Rightarrow> string" where
  "wide rest = ''width='' @ cmd ''linewidth, '' @ rest"

text \<open>The figures of tests 1 and 2 differ in labels and marks only.\<close>

definition figure_yhi :: "pyfloat list \<Rightarrow> pyfloat" where
  "figure_yhi durations =
     (let avg = (if durations \<noteq> [] then mean durations else Fin 0)
      in f_mul (safe_max (durations @ [avg])) (Fin (115/100)))"

definition latency_figure :: "string \<Rightarrow> string \<Rightarrow> string \<Rightarrow> string \<Rightarrow> iter_row list \<Rightarrow> string" where
  "latency_figure xlabel title marks legend rows =
     (let durations = successful_durations rows;
          avg = (if durations \<noteq> [] then mean durations else Fin 0);
          a = format_fixed 3 avg
      in file_of (axis_head [wide ''height=6cm,'', xlabel, ''ylabel={Latency (ms)},'',
             ''xmin=0, '' @ ymax_option 3 (figure_yhi durations), GRID, LEGEND_NW, title]
           @ two_line_plot (marks @ ''color='' @ PROTO_COLOR ''zkarche'') (coords durations)
           @ [legend_entry legend]
           @ (if durations \<noteq> [] then
                [cmd ''addplot+[mark=none, dashed, thick, color=black] coordinates {(0,'' @ a @ '') (''
                   @ show_nat (length durations + 1) @ '','' @ a @ '')};'',
                 legend_entry (''Mean = '' @ a @ cmd '',ms'')]
              else [])
           @ axis_tail))"

definition emit_test1_zkarche :: "iter_row list \<Rightarrow> string" where
  "emit_test1_zkarche = latency_figure (''xlabel={Client '' @ cmd ''#},'')
     (''title={ZK-ARCHE '' @ utf8_dash @ '' 50 concurrent clients (single authentication)},'')
     ''only marks, mark size=1.4pt, '' ''Per-client latency''"

definition emit_test2_zkarche :: "iter_row list \<Rightarrow> string" where
  "emit_test2_zkarche = latency_figure ''xlabel={Iteration},''
     (''title={ZK-ARCHE '' @ utf8_dash @ '' 50 sequential authentications (single client)},'')
     ''mark=*, mark size=1.2pt, '' ''Per-iteration latency''"

text \<open>Test 3: the durations bucketed by iteration, in a dictionary that keeps insertion order.\<close>

definition append_at :: "int \<Rightarrow> pyfloat \<Rightarrow> (int \<times> pyfloat list) list \<Rightarrow> (int \<times> pyfloat list) list" where
  "append_at k v d = AList.update k ((case map_of d k of None \<Rightarrow> [] | Some vs \<Rightarrow> vs) @ [v]) d"

fun by_iteration :: "iter_row list \<Rightarrow> (int \<times> pyfloat list) list \<Rightarrow> (int \<times> pyfloat list) list" where
  "by_iteration [] d = d"
| "by_iteration (r # rows) d = by_iteration rows
     (if ir_success r then (case ir_duration_ms r of None \<Rightarrow> d | Some v \<Rightarrow> append_at (ir_iter r) v d) else d)"

definition bucket :: "(int \<times> pyfloat list) list \<Rightarrow> int \<Rightarrow> pyfloat list" where
  "bucket d i = (case map_of d i of None \<Rightarrow> [] | Some vs \<Rightarrow> vs)"

definition emit_test3_zkarche :: "iter_row list \<Rightarrow> string" where
  "emit_test3_zkarche rows =
     (let by_iter = by_iteration rows [];
          iters = sort (map fst by_iter);
          means = map (\<lambda>i. mean (bucket by_iter i)) iters;
          maxes = map (\<lambda>i. safe_max (bucket by_iter i)) iters;
          yhi = (if iters \<noteq> [] then f_mul (safe_max (maxes @ means)) (Fin (115/100)) else Fin 1);
          cs = (\<lambda>vs. join_str '' '' (map2 (\<lambda>i v. point (show_int (i + 1)) 6 v) iters vs))
      in file_of (axis_head [wide ''height=6cm,'',
             ''xlabel={Iteration index (within each client'' @ [CHR 0x27] @ ''s 50-run sequence)},'',
             ''ylabel={Latency (ms)},'', ''xmin=0, '' @ ymax_option 3 yhi, GRID, LEGEND_NW,
             ''title={ZK-ARCHE '' @ utf8_dash @ '' high load (50 clients '' @ utf8_times @ '' 50 authentications)},'']
           @ (if iters \<noteq> [] then
                two_line_plot (''mark=*, mark size=1.0pt, color='' @ PROTO_COLOR ''zkarche'') (cs means)
                @ [legend_entry ''Mean across 50 clients'']
                @ two_line_plot ''mark=none, color=red!60!black, dashed, thick'' (cs maxes)
                @ [legend_entry ''Max across 50 clients'']
              else [])
           @ axis_tail))"

text \<open>The mean latency per protocol and test; \<open>by_test\<close> gives the durations, none where there are none.\<close>

definition COMPARED_TESTS :: "(string \<times> string) list" where
  "COMPARED_TESTS = [(''test1_concurrent'', ''Concurrent''), (''test2_sequential'', ''Sequential''),
     (''test3_highload'', ''High-load'')]"

definition LEGEND_BELOW :: string where
  "LEGEND_BELOW = ''legend style={at={(0.5,-0.18)}, anchor=north, legend columns=3, font='' @ cmd ''footnotesize},''"

definition near_coords :: "string \<Rightarrow> string" where
  "near_coords options = ''nodes near coords={'' @ cmd ''pgfmathprintnumber['' @ options @ ''precision=2]{''
     @ cmd ''pgfplotspointmeta}},''"

definition NEAR_COORD_TINY :: string where
  "NEAR_COORD_TINY = ''every node near coord/.append style={font='' @ cmd ''tiny, rotate=90, anchor=west},''"

definition symbolic_x :: "string list \<Rightarrow> string" where
  "symbolic_x labels = ''symbolic x coords={'' @ join_str '','' labels @ ''},''"

definition bars_of :: "string \<Rightarrow> string \<Rightarrow> string list" where
  "bars_of proto cs = [plot_line (''fill='' @ PROTO_COLOR proto @ '', draw=black'') cs,
     legend_entry (PROTO_DISPLAY proto)]"

definition compared_mean :: "(string \<Rightarrow> string \<Rightarrow> pyfloat list) \<Rightarrow> string \<Rightarrow> string \<Rightarrow> pyfloat" where
  "compared_mean by_test tk proto = (let ds = by_test tk proto in if ds \<noteq> [] then mean ds else Fin 0)"

definition emit_comparison :: "(string \<Rightarrow> string \<Rightarrow> pyfloat list) \<Rightarrow> string" where
  "emit_comparison by_test =
     (let yhi = f_mul (safe_max (concat (map (\<lambda>(tk, _). map (compared_mean by_test tk) PROTOS_ORDER) COMPARED_TESTS)))
            (Fin (120/100))
      in file_of (axis_head [''ybar, '' @ wide ''height=6.5cm,'', ''bar width=10pt,'', ymax_option 3 yhi,
             ''ylabel={Mean authentication latency (ms)},'', symbolic_x (map snd COMPARED_TESTS), ''xtick=data,'',
             ''enlarge x limits=0.25,'', GRID, LEGEND_BELOW, near_coords ''fixed,fixed zerofill,'', NEAR_COORD_TINY,
             ''title={Mean latency comparison across ZK-ARCHE, EDHOC, and mTLS},'']
           @ concat (map (\<lambda>proto. bars_of proto
               (join_str '' '' (map (\<lambda>(tk, label). point label 4 (compared_mean by_test tk proto)) COMPARED_TESTS))) PROTOS_ORDER)
           @ axis_tail))"

section \<open>Resource figures\<close>

text \<open>A summary as read from its JSON file, and the walk along a path of keys.\<close>

definition json_item :: "json \<Rightarrow> string \<Rightarrow> json res" where
  "json_item j k = (case j of
       JObj kvs \<Rightarrow> (case map_of kvs k of None \<Rightarrow> Inl (KeyError k) | Some v \<Rightarrow> Inr v)
     | _ \<Rightarrow> Inl (TypeError k))"

fun json_path :: "json \<Rightarrow> string list \<Rightarrow> json res" where
  "json_path j [] = Inr j"
| "json_path j (k # ks) = bind_res (json_item j k) (\<lambda>v. json_path v ks)"

definition json_float :: "json \<Rightarrow> pyfloat res" where
  "json_float j = (case j of
       JNum x \<Rightarrow> Inr x
     | JInt i \<Rightarrow> Inr (Fin (of_int i))
     | JBool b \<Rightarrow> Inr (Fin (if b then 1 else 0))
     | JStr t \<Rightarrow> (case py_float t of Some x \<Rightarrow> Inr x | None \<Rightarrow> Inl (ValueError t))
     | _ \<Rightarrow> Inl (TypeError ''float()''))"

definition json_true :: "json \<Rightarrow> bool" where
  "json_true j = (case j of JNull \<Rightarrow> False | JBool b \<Rightarrow> b | JInt i \<Rightarrow> i \<noteq> 0 | JNum x \<Rightarrow> x \<noteq> Fin 0 | JStr t \<Rightarrow> t \<noteq> []
     | JList l \<Rightarrow> l \<noteq> [] | JObj kvs \<Rightarrow> kvs \<noteq> [])"

type_synonym summary = "(string \<times> json) list"

text \<open>The value plotted for one protocol: zero where the summary, its resources or the entry are
  missing or malformed, and where the value is undefined.\<close>

definition resource_value :: "summary option \<Rightarrow> string list \<Rightarrow> pyfloat \<Rightarrow> pyfloat" where
  "resource_value s path multiplier = (case s of
       None \<Rightarrow> Fin 0
     | Some kvs \<Rightarrow> (case map_of kvs ''resources'' of
         None \<Rightarrow> Fin 0
       | Some rb \<Rightarrow> if \<not> json_true rb then Fin 0
           else (case bind_res (json_path rb path) json_float of
               Inl _ \<Rightarrow> Fin 0
             | Inr x \<Rightarrow> if is_nan (f_mul x multiplier) then Fin 0 else f_mul x multiplier)))"

definition bars_yhi :: "pyfloat list \<Rightarrow> pyfloat" where
  "bars_yhi values = (if \<exists>v \<in> set values. v \<noteq> Fin 0 then f_mul (safe_max values) (Fin (125/100)) else Fin 1)"

definition emit_resource_bars :: "(string \<Rightarrow> summary option) \<Rightarrow> string list \<Rightarrow> string \<Rightarrow> string \<Rightarrow> pyfloat \<Rightarrow> string" where
  "emit_resource_bars summaries path title ylabel multiplier =
     (let value = (\<lambda>p. resource_value (summaries p) path multiplier);
          yhi = bars_yhi (map value PROTOS_ORDER)
      in file_of (axis_head [''ybar, '' @ wide ''height=6cm,'', ''bar width=22pt,'', ymax_option 4 yhi,
             ''ylabel={'' @ ylabel @ ''},'', symbolic_x (map PROTO_DISPLAY PROTOS_ORDER), ''xtick=data,'',
             ''enlarge x limits=0.35,'', GRID, near_coords ''fixed,'',
             ''every node near coord/.append style={font='' @ cmd ''footnotesize},'', ''title={'' @ title @ ''},'']
           @ [plot_line ''fill=blue!30, draw=black''
                (join_str '' '' (map (\<lambda>p. point (PROTO_DISPLAY p) 6 (value p)) PROTOS_ORDER))]
           @ axis_tail))"

definition short_name :: "string \<Rightarrow> string" where
  "short_name name = strip (before_first (CHR ''('') name)"

definition emit_resource_bars_multi :: "(string \<Rightarrow> string \<Rightarrow> summary option) \<Rightarrow> string list \<Rightarrow> string list
    \<Rightarrow> string \<Rightarrow> string \<Rightarrow> pyfloat \<Rightarrow> string" where
  "emit_resource_bars_multi by_device device_order path title ylabel multiplier =
     (let value = (\<lambda>d p. resource_value (by_device d p) path multiplier);
          yhi = bars_yhi (concat (map (\<lambda>d. map (value d) PROTOS_ORDER) device_order))
      in file_of (axis_head [''ybar, '' @ wide ''height=6.5cm,'', ''bar width=10pt,'', ymax_option 4 yhi,
             ''ylabel={'' @ ylabel @ ''},'', symbolic_x (map short_name device_order), ''xtick=data,'',
             ''enlarge x limits=0.25,'', GRID, LEGEND_BELOW, near_coords ''fixed,'', NEAR_COORD_TINY,
             ''title={'' @ title @ ''},'']
           @ concat (map (\<lambda>proto. bars_of proto
               (join_str '' '' (map (\<lambda>d. point (short_name d) 6 (value d proto)) device_order))) PROTOS_ORDER)
           @ axis_tail))"

text \<open>Devices in display order: the known ones first, then the others sorted by name.\<close>

definition PI_ORDER :: "string list" where
  "PI_ORDER = [''Raspberry Pi 3B+'', ''Raspberry Pi 4 (4GB)'', ''Raspberry Pi 5 (8GB)'']"

definition device_order :: "string list \<Rightarrow> string list" where
  "device_order devices = filter (\<lambda>d. d \<in> set devices) PI_ORDER @ sort (filter (\<lambda>d. d \<notin> set PI_ORDER) devices)"

section \<open>The axis covers the points\<close>

lemma join_str_Cons: "join_str sep (x # xs) = x @ (if xs = [] then [] else sep @ join_str sep xs)"
  by (cases xs) auto

lemma join_str_member: "l \<in> set ls \<Longrightarrow> \<exists>p q. join_str sep ls = p @ l @ q"
proof (induction ls)
  case Nil
  then show ?case by simp
next
  case (Cons x ls)
  show ?case
  proof (cases "l = x")
    case True
    then have "join_str sep (x # ls) = [] @ l @ (if ls = [] then [] else sep @ join_str sep ls)"
      by (simp add: join_str_Cons)
    then show ?thesis by blast
  next
    case False
    then have "l \<in> set ls" using Cons.prems by simp
    then obtain p q where pq: "join_str sep ls = p @ l @ q" using Cons.IH by blast
    have "ls \<noteq> []" using \<open>l \<in> set ls\<close> by auto
    note pq = pq this
    then have "join_str sep (x # ls) = (x @ sep @ p) @ l @ q" by (simp add: join_str_Cons)
    then show ?thesis by blast
  qed
qed

lemma file_of_member:
  assumes "p @ l @ q \<in> set body"
  shows "is_infix l (file_of body)"
proof -
  obtain u v where "join_str [LF] body = u @ (p @ l @ q) @ v" using join_str_member [OF assms] by blast
  then have "file_of body = (u @ p) @ l @ (q @ v @ [LF])" by (simp add: file_of_def)
  then show ?thesis unfolding is_infix_iff by blast
qed

lemma safe_max_Fin: "xs \<noteq> [] \<Longrightarrow> safe_max (map Fin xs) = Fin (Max (set xs))"
  by (cases xs) (simp_all add: safe_max_def foldl_f_max2_Fin foldl_max_Max)

lemma mean_Fin: "xs \<noteq> [] \<Longrightarrow> mean (map Fin xs) = Fin (sum_list xs / real (length xs))"
proof -
  assume "xs \<noteq> []"
  then obtain n where "length xs = Suc n" by (cases xs) auto
  then show ?thesis using \<open>xs \<noteq> []\<close> by (simp add: mean_def)
qed

lemma figure_yhi_Fin:
  assumes "xs \<noteq> []"
  shows "figure_yhi (map Fin xs) = Fin (115/100 * Max (set xs))"
proof -
  have mean: "sum_list xs / real (length xs) \<le> Max (set xs)"
    using mean_of_range [OF assms] by (simp add: mean_of_def)
  have "map Fin xs @ [mean (map Fin xs)] = map Fin (xs @ [sum_list xs / real (length xs)])"
    using assms by (simp add: mean_Fin)
  then have "safe_max (map Fin xs @ [mean (map Fin xs)]) = Fin (Max (set (xs @ [sum_list xs / real (length xs)])))"
    using safe_max_Fin by (metis append_is_Nil_conv not_Cons_self2)
  also have "Max (set (xs @ [sum_list xs / real (length xs)])) = Max (set xs)"
    using assms mean by (simp add: max_def)
  finally show ?thesis using assms by (simp add: figure_yhi_def Let_def)
qed

lemma latency_figure_axis:
  "is_infix (ymax_option 3 (figure_yhi (successful_durations rows))) (latency_figure xl ti ma le rows)"
  unfolding latency_figure_def Let_def
  by (rule file_of_member [of "''  xmin=0, ''" _ "[]"]) (simp add: axis_head_def)

text \<open>The vertical axis of the figures of tests 1 and 2 ends 15 percent above the largest successful
  latency, so every point and the mean are inside.\<close>

lemma latency_figures_cover_points:
  assumes "successful_durations rows = map Fin xs" and "xs \<noteq> []" and "\<forall>x \<in> set xs. 0 \<le> x"
  shows "\<exists>y. (\<forall>x \<in> set xs. 115/100 * x \<le> y) \<and> 115/100 * mean_of xs \<le> y \<and> 0 \<le> y
    \<and> is_infix (ymax_option 3 (Fin y)) (emit_test1_zkarche rows)
    \<and> is_infix (ymax_option 3 (Fin y)) (emit_test2_zkarche rows)"
proof -
  let ?y = "115/100 * Max (set xs)"
  have y: "figure_yhi (successful_durations rows) = Fin ?y" using assms(1,2) figure_yhi_Fin by simp
  have le: "x \<le> Max (set xs)" if "x \<in> set xs" for x using that by simp
  have "115/100 * mean_of xs \<le> ?y" using mean_of_range [OF assms(2)] by simp
  moreover have "0 \<le> ?y" using assms(2,3) le by (metis Max_in List.finite_set mult_nonneg_nonneg
      set_empty zero_le_divide_iff zero_le_numeral)
  ultimately show ?thesis using latency_figure_axis [where rows = rows, unfolded y] le
    by (intro exI [of _ ?y]) (auto simp: emit_test1_zkarche_def emit_test2_zkarche_def)
qed

definition demo_row :: "int \<Rightarrow> real \<Rightarrow> iter_row" where
  "demo_row i d = \<lparr>ir_iter = i, ir_client_id = 0, ir_success = True, ir_duration_ms = Some (Fin d),
     ir_sent_bytes = None, ir_recv_bytes = None, ir_wall_s = Fin 1\<rparr>"

lemma latency_figures_cover_points_witness:
  "\<exists>y. 115/100 * 4 \<le> y \<and> is_infix (ymax_option 3 (Fin y)) (emit_test1_zkarche [demo_row 0 3, demo_row 1 4])"
proof -
  have "successful_durations [demo_row 0 3, demo_row 1 4] = map Fin [3, 4]"
    by (simp add: successful_durations_def demo_row_def map_filter_simps)
  from latency_figures_cover_points [OF this] obtain y where
    "\<forall>x \<in> set [3, 4]. 115/100 * x \<le> y" "is_infix (ymax_option 3 (Fin y)) (emit_test1_zkarche [demo_row 0 3, demo_row 1 4])"
    by auto
  then show ?thesis by (intro exI [of _ y]) simp
qed

text \<open>Without a successful run the same axis is empty: it ends at zero, where the code means to fall back to
  one; the list it takes the maximum of is never empty.\<close>

lemma latency_figure_empty_axis:
  assumes "successful_durations rows = []"
  shows "is_infix ''ymin=0, ymax=0.000,'' (emit_test1_zkarche rows)"
proof -
  have "ymax_option 3 (figure_yhi []) = ''ymin=0, ymax=0.000,''"
    by (simp add: ymax_option_def figure_yhi_def safe_max_def show_fixed_def show_scaled_def
        round_half_even_def zero_pad_def show_nat.simps dec_text_def Let_def numeral_eq_Suc)
  then show ?thesis using latency_figure_axis [where rows = rows, unfolded assms]
    unfolding emit_test1_zkarche_def by metis
qed

lemma latency_figure_empty_axis_witness:
  "is_infix ''ymin=0, ymax=0.000,'' (emit_test1_zkarche [])"
  by (rule latency_figure_empty_axis) (simp add: successful_durations_def map_filter_simps)

section \<open>The bucketed figure\<close>

lemma bucket_append_at: "bucket (append_at k v d) i = bucket d i @ (if i = k then [v] else [])"
  by (auto simp: bucket_def append_at_def update_conv' split: option.splits)


lemma bucket_by_iteration:
  "bucket (by_iteration rows d) i
     = bucket d i @ successful_durations (filter (\<lambda>r. ir_iter r = i) rows)"
  by (induction rows arbitrary: d)
     (auto simp: successful_durations_def map_filter_simps bucket_append_at split: option.splits)

lemma distinct_append_at: "distinct (map fst d) \<Longrightarrow> distinct (map fst (append_at k v d))"
  by (simp add: append_at_def distinct_update)

lemma mset_update:
  "distinct (map fst d) \<Longrightarrow> mset (concat (map snd (append_at k v d))) = add_mset v (mset (concat (map snd d)))"
proof (induction d)
  case Nil
  then show ?case by (simp add: append_at_def)
next
  case (Cons p d)
  obtain j w where p: "p = (j, w)" by (cases p)
  show ?case
  proof (cases "j = k")
    case True
    then show ?thesis by (simp add: p append_at_def)
  next
    case False
    then have "append_at k v (p # d) = p # append_at k v d" by (auto simp: p append_at_def split: option.splits)
    then show ?thesis using Cons by simp
  qed
qed

lemma by_iteration_mset:
  "distinct (map fst d) \<Longrightarrow> distinct (map fst (by_iteration rows d)) \<and>
   mset (concat (map snd (by_iteration rows d))) = mset (concat (map snd d)) + mset (successful_durations rows)"
proof (induction rows arbitrary: d)
  case Nil
  then show ?case by (simp add: successful_durations_def map_filter_simps)
next
  case (Cons r rows)
  show ?case
  proof (cases "ir_success r \<and> ir_duration_ms r \<noteq> None")
    case True
    then obtain v where v: "ir_duration_ms r = Some v" by auto
    then show ?thesis
      using Cons.IH [OF distinct_append_at [OF Cons.prems], of "ir_iter r" v] True mset_update [OF Cons.prems, of "ir_iter r" v]
      by (simp add: successful_durations_def map_filter_simps)
  next
    case False
    then have "by_iteration (r # rows) d = by_iteration rows d"
      "successful_durations (r # rows) = successful_durations rows"
      by (auto simp: successful_durations_def map_filter_simps split: option.splits)
    then show ?thesis using Cons by simp
  qed
qed

text \<open>The buckets of the high-load figure lose no sample and duplicate none: there is one bucket per
  iteration number, it holds the successful durations of that iteration in the order of the table, and all
  buckets together hold exactly the successful durations.\<close>

lemma by_iteration_partition:
  "distinct (map fst (by_iteration rows []))
    \<and> mset (concat (map snd (by_iteration rows []))) = mset (successful_durations rows)
    \<and> bucket (by_iteration rows []) i = successful_durations (filter (\<lambda>r. ir_iter r = i) rows)"
  using by_iteration_mset [of "[]" rows] bucket_by_iteration [of rows "[]" i] by (simp add: bucket_def)

section \<open>Resource bars and devices\<close>

text \<open>Whatever the summary files hold, a plotted resource value is a number or an infinity, never undefined, and
  the axis of the bars is never the empty one; with finite values it lies a quarter above the largest.\<close>

lemma resource_bars_defined:
  "\<not> is_nan (resource_value s path multiplier)
    \<and> (xs \<noteq> [] \<and> (\<forall>x \<in> set xs. 0 \<le> x) \<longrightarrow> (\<exists>y > 0. bars_yhi (map Fin xs) = Fin y \<and> (\<forall>x \<in> set xs. x \<le> y)))"
proof
  show "\<not> is_nan (resource_value s path multiplier)"
    by (auto simp: resource_value_def is_nan_def split: option.splits sum.splits)
  show "xs \<noteq> [] \<and> (\<forall>x \<in> set xs. 0 \<le> x) \<longrightarrow> (\<exists>y > 0. bars_yhi (map Fin xs) = Fin y \<and> (\<forall>x \<in> set xs. x \<le> y))"
  proof clarify
    assume xs: "xs \<noteq> []" "\<forall>x \<in> set xs. 0 \<le> x"
    have le: "\<forall>x \<in> set xs. x \<le> Max (set xs)" by simp
    show "\<exists>y > 0. bars_yhi (map Fin xs) = Fin y \<and> (\<forall>x \<in> set xs. x \<le> y)"
    proof (cases "\<exists>x \<in> set xs. x \<noteq> 0")
      case True
      then obtain x where "x \<in> set xs" "0 < x" using xs(2) by (metis less_eq_real_def)
      then have "0 < Max (set xs)" using le by (metis less_le_trans)
      moreover have "bars_yhi (map Fin xs) = Fin (Max (set xs) * (125/100))"
        using True xs(1) by (auto simp: bars_yhi_def safe_max_Fin)
      moreover have "x \<le> Max (set xs) * (125/100)" if "x \<in> set xs" for x
      proof -
        have "x \<le> Max (set xs)" using le that by blast
        then show ?thesis using \<open>0 < Max (set xs)\<close> by simp
      qed
      ultimately show ?thesis by (intro exI [of _ "Max (set xs) * (125/100)"]) simp
    next
      case False
      then have "bars_yhi (map Fin xs) = Fin 1" by (auto simp: bars_yhi_def)
      then show ?thesis using False by (intro exI [of _ 1]) auto
    qed
  qed
qed

lemma resource_bars_defined_witness:
  "\<exists>y > 0. bars_yhi (map Fin [0, 3]) = Fin y \<and> 3 \<le> y"
  using resource_bars_defined [of None "[]" "Fin 1" "[0, 3]"] by auto

text \<open>The display order is a permutation of the devices, with the three known boards first, least capable to
  most capable, and the others after them by name.\<close>

lemma device_order_permutation:
  assumes "distinct devices"
  shows "mset (device_order devices) = mset devices
    \<and> (\<exists>known extra. device_order devices = known @ extra \<and> subseq known PI_ORDER
        \<and> set extra \<inter> set PI_ORDER = {} \<and> sorted extra)"
proof -
  have d: "distinct PI_ORDER" by (simp add: PI_ORDER_def)
  have "distinct (device_order devices)" "set (device_order devices) = set devices"
    using assms d by (auto simp: device_order_def)
  then have "mset (device_order devices) = mset devices" using assms by (metis mset_set_set)
  moreover have "subseq (filter (\<lambda>d. d \<in> set devices) PI_ORDER) PI_ORDER" by (rule subseq_filter_left)
  ultimately show ?thesis
    by (intro conjI exI [of _ "filter (\<lambda>d. d \<in> set devices) PI_ORDER"]
        exI [of _ "sort (filter (\<lambda>d. d \<notin> set PI_ORDER) devices)"]) (auto simp: device_order_def)
qed

lemma device_order_permutation_witness:
  "mset (device_order [''x86'', ''Raspberry Pi 5 (8GB)'', ''Raspberry Pi 3B+''])
    = mset [''x86'', ''Raspberry Pi 5 (8GB)'', ''Raspberry Pi 3B+'']"
  using device_order_permutation [of "[''x86'', ''Raspberry Pi 5 (8GB)'', ''Raspberry Pi 3B+'']"] by simp

end
