(* ===== verification/Driver.thy ===== *)
theory Driver
  imports Protocols Plot
begin

text \<open>
  The test driver, \<open>benchmarks/lib/driver.py\<close>: one run of a test, from the checks through enrollment, the
  timed phase with its samplers and the tear-down to the result files. The state is the processes, the
  directories, the two samplers and the files written. The workload is an arbitrary effect that neither starts
  nor stops servers; what the samplers see is a parameter. Shown here: on every path no server is left
  running, the workload only ever runs against one fresh server without pairing, the files
  hold the results, and a workload that raises leaves the samplers running.
\<close>

section \<open>State and parameters\<close>

record world =
  w_os :: os
  w_fs :: fs
  w_sampler :: "proc_sampler option"
  w_power :: "power_sampler option"
  w_files :: "string \<Rightarrow> string option"

record test_context =
  ctx_protocol :: protocol
  ctx_server :: server_handle
  ctx_server_workdir :: string
  ctx_client_workdirs :: "string list"

type_synonym workload = "test_context \<Rightarrow> (world, client_result list) eff"

text \<open>The environment of a run: configuration, existing files, and what the clients and samplers will see.\<close>

record bench_env =
  be_env :: env
  be_cpus :: "nat option"
  be_model :: "string option"
  be_host :: host
  be_hostname :: string
  be_repr :: "real \<Rightarrow> string"
  be_exists :: "string \<Rightarrow> bool"
  be_windows :: bool
  be_repo :: string
  be_script_exit :: int
  be_enroll :: enroll_client
  be_readings :: "reading list"
  be_powers :: "pyfloat res list"
  be_pmic :: bool
  be_hwmon :: "hwmon_meter option res"
  be_t0 :: real
  be_t1 :: real

definition target_dir :: "bench_env \<Rightarrow> string" where
  "target_dir e = be_repo e @ ''/target/release''"

definition results_dir :: "bench_env \<Rightarrow> string" where
  "results_dir e = be_repo e @ ''/benchmarks/results''"

definition registry :: "bench_env \<Rightarrow> (string \<times> protocol) list" where
  "registry e = PROTOCOLS (load_binds (be_env e)) (bin_path (be_windows e) (target_dir e))"

definition device :: "bench_env \<Rightarrow> power_profile" where
  "device e = detect_device (be_cpus e) (be_env e) (be_model e)"

text \<open>Operations on one part of the state.\<close>

definition on_os :: "(os, 'a) eff \<Rightarrow> (world, 'a) eff" where
  "on_os m w = (case m (w_os w) of (r, v) \<Rightarrow> (r, w\<lparr>w_os := v\<rparr>))"

definition on_fs :: "(fs, 'a) eff \<Rightarrow> (world, 'a) eff" where
  "on_fs m w = (case m (w_fs w) of (r, v) \<Rightarrow> (r, w\<lparr>w_fs := v\<rparr>))"

section \<open>The steps of a run\<close>

definition bench_workdir :: "string \<Rightarrow> string \<Rightarrow> string" where
  "bench_workdir test protocol = ''/tmp/zkb-'' @ test @ ''-'' @ protocol"

text \<open>The working area is wiped with everything below it, then created with the server's directory.\<close>

definition fresh_workdir :: "string \<Rightarrow> fs \<Rightarrow> fs" where
  "fresh_workdir work v =
     (\<lambda>d. if d = work \<or> d = work @ ''/server'' then Some Map.empty
          else if starts_with (work @ ''/'') d then None else v d)"

definition launch :: "protocol \<Rightarrow> bool \<Rightarrow> string \<Rightarrow> string \<Rightarrow> (world, server_handle) eff" where
  "launch p pairing server_workdir log_path =
     on_os (start_server 6 (pr_server_bin p) (pr_server_args p server_workdir pairing) (pr_bind_addr p)
       server_workdir log_path)"

definition halt :: "server_handle \<Rightarrow> (world, unit) eff" where
  "halt h = on_os (stop_server h)"

definition stamp_clients :: "string \<Rightarrow> nat \<Rightarrow> (world, string list) eff" where
  "stamp_clients work n = on_fs (stamp_workdirs None (work @ ''/clients'') n ''c'')"

text \<open>ZK-ARCHE: stamp and enroll against a pairing server that is stopped on every path.\<close>

definition enroll_phase :: "bench_env \<Rightarrow> protocol \<Rightarrow> string \<Rightarrow> nat \<Rightarrow> string \<Rightarrow> (world, string list) eff" where
  "enroll_phase e p work n log_base =
     andthen (launch p True (work @ ''/server'') (log_base @ ''.pairing.log'')) (\<lambda>h.
       try_finally
         (andthen (stamp_clients work n) (\<lambda>dirs.
          andthen (on_fs (enroll_zkarche_clients (be_enroll e) True dirs 0)) (\<lambda>_. ret dirs)))
         (halt h))"

definition prepare_clients :: "bench_env \<Rightarrow> protocol \<Rightarrow> string \<Rightarrow> nat \<Rightarrow> string \<Rightarrow> (world, string list) eff" where
  "prepare_clients e p work n log_base =
     (if pr_name p = ''zkarche'' then enroll_phase e p work n log_base else stamp_clients work n)"

definition start_sampling :: "bench_env \<Rightarrow> (world, unit) eff" where
  "start_sampling e =
     andthen (\<lambda>w. case sampler_start new_sampler of (r, s) \<Rightarrow> (r, w\<lparr>w_sampler := Some s\<rparr>)) (\<lambda>_.
     andthen (from_res (make_power_meter (be_env e) (device e) (be_pmic e) (be_hwmon e))) (\<lambda>meter.
       (\<lambda>w. case power_start (be_t0 e) (new_power_sampler (method_name meter)) of
          (r, s) \<Rightarrow> (r, w\<lparr>w_power := Some s\<rparr>))))"

text \<open>Stopping the samplers: their threads have seen the readings of the run.\<close>

definition stop_sampling :: "bench_env \<Rightarrow> client_result list \<Rightarrow> (world, resource_summary option \<times> energy_result option) eff" where
  "stop_sampling e results w = (case (w_sampler w, w_power w) of
       (Some s, Some p) \<Rightarrow>
         (let s' = sampler_stop (snd (sampler_loop (be_host e) (be_readings e) s));
              p' = power_stop (be_t1 e) (snd (power_loop (be_powers e) p));
              w' = w\<lparr>w_sampler := Some s', w_power := Some p'\<rparr>;
              n_ok = length (filter cr_success results)
          in case power_summary (be_t1 e) (be_t0 e) (max 1 (int n_ok)) p' of
               Inl x \<Rightarrow> (Inl x, w')
             | Inr energy \<Rightarrow> (Inr (Some (sampler_summary (be_host e) s'), Some energy), w'))
     | _ \<Rightarrow> (Inr (None, None), w))"

definition timed_phase :: "bench_env \<Rightarrow> workload \<Rightarrow> bool \<Rightarrow> test_context
    \<Rightarrow> (world, client_result list \<times> resource_summary option \<times> energy_result option) eff" where
  "timed_phase e workload sample ctx =
     andthen (if sample then start_sampling e else ret ()) (\<lambda>_.
     andthen (workload ctx) (\<lambda>results.
     andthen (if sample then stop_sampling e results else ret (None, None)) (\<lambda>m.
       ret (results, m))))"

definition log_base :: "bench_env \<Rightarrow> string \<Rightarrow> string \<Rightarrow> string" where
  "log_base e test protocol = results_dir e @ ''/logs/'' @ test @ ''_'' @ protocol @ ''_server''"

definition raw_csv :: "bench_env \<Rightarrow> string \<Rightarrow> string \<Rightarrow> string" where
  "raw_csv e test protocol = results_dir e @ ''/raw/'' @ test @ ''_'' @ protocol @ ''.csv''"

definition summary_path :: "bench_env \<Rightarrow> string \<Rightarrow> string \<Rightarrow> string" where
  "summary_path e test protocol = results_dir e @ ''/summary/'' @ test @ ''_'' @ protocol @ ''.json''"

definition checks :: "bench_env \<Rightarrow> string \<Rightarrow> protocol res" where
  "checks e protocol = (case map_of (registry e) protocol of
       None \<Rightarrow> Inl (ValueError (''unknown protocol: '' @ protocol))
     | Some p \<Rightarrow>
         bind_res (require_binaries (be_exists e) (be_windows e) (target_dir e)) (\<lambda>_.
         if pr_name p = ''mtls''
         then bind_res (ensure_mtls_certs (be_exists e) (be_script_exit e) (be_repo e)) (\<lambda>_. Inr p)
         else Inr p))"

definition serve_and_measure :: "bench_env \<Rightarrow> workload \<Rightarrow> bool \<Rightarrow> protocol \<Rightarrow> string \<Rightarrow> string \<Rightarrow> string list
    \<Rightarrow> (world, client_result list \<times> resource_summary option \<times> energy_result option) eff" where
  "serve_and_measure e workload sample p work lb dirs =
     andthen (launch p False (work @ ''/server'') (lb @ ''.log'')) (\<lambda>h.
       try_finally
         (timed_phase e workload sample \<lparr>ctx_protocol = p, ctx_server = h,
            ctx_server_workdir = work @ ''/server'', ctx_client_workdirs = dirs\<rparr>)
         (halt h))"

definition write_results :: "bench_env \<Rightarrow> string \<Rightarrow> string \<Rightarrow> (string \<times> json) list
    \<Rightarrow> client_result list \<times> resource_summary option \<times> energy_result option \<Rightarrow> (world, summary_record) eff" where
  "write_results e test protocol notes m w = (case m of (results, resources, energy) \<Rightarrow>
     let summary = summarise (be_hostname e) test protocol results resources energy (device e) notes in
     (Inr summary,
      w\<lparr>w_files := (w_files w)(raw_csv e test protocol \<mapsto> write_iterations_csv results,
                              summary_path e test protocol \<mapsto> write_summary_json (be_repr e) summary)\<rparr>))"

lemma result_paths_differ [simp]: "raw_csv e test protocol \<noteq> summary_path e test2 protocol2"
  by (simp add: raw_csv_def summary_path_def)

definition run_test :: "bench_env \<Rightarrow> string \<Rightarrow> string \<Rightarrow> nat \<Rightarrow> workload \<Rightarrow> bool \<Rightarrow> (string \<times> json) list
    \<Rightarrow> (world, summary_record) eff" where
  "run_test e test protocol n workload sample notes =
     andthen (from_res (checks e protocol)) (\<lambda>p.
       let work = bench_workdir test protocol; lb = log_base e test protocol in
       andthen (modify (\<lambda>w. w\<lparr>w_fs := fresh_workdir work (w_fs w)\<rparr>)) (\<lambda>_.
       andthen (prepare_clients e p work n lb) (\<lambda>dirs.
       andthen (serve_and_measure e workload sample p work lb dirs) (\<lambda>m.
         write_results e test protocol notes m))))"

section \<open>Servers across a run\<close>

definition keeps_servers :: "(world, 'a) eff \<Rightarrow> bool" where
  "keeps_servers m \<longleftrightarrow> (\<forall>w r w'. os_inv (w_os w) \<longrightarrow> m w = (r, w') \<longrightarrow>
     os_inv (w_os w') \<and> live_servers (w_os w') = live_servers (w_os w))"

lemma keeps_serversI:
  "(\<And>w r w'. os_inv (w_os w) \<Longrightarrow> m w = (r, w') \<Longrightarrow> os_inv (w_os w') \<and> live_servers (w_os w') = live_servers (w_os w))
   \<Longrightarrow> keeps_servers m"
  by (simp add: keeps_servers_def)

lemma keeps_serversD:
  "keeps_servers m \<Longrightarrow> os_inv (w_os w) \<Longrightarrow> m w = (r, w') \<Longrightarrow>
   os_inv (w_os w') \<and> live_servers (w_os w') = live_servers (w_os w)"
  unfolding keeps_servers_def by blast

lemma keeps_same_os: "(\<And>w. w_os (snd (m w)) = w_os w) \<Longrightarrow> keeps_servers m"
  by (rule keeps_serversI) (metis snd_conv)

lemma keeps_andthen:
  assumes "keeps_servers m" and "\<And>x. keeps_servers (f x)"
  shows "keeps_servers (andthen m f)"
proof (rule keeps_serversI)
  fix w r w'
  assume w: "os_inv (w_os w)" and run: "andthen m f w = (r, w')"
  obtain q v where m: "m w = (q, v)" by fastforce
  note v = keeps_serversD [OF assms(1) w m]
  show "os_inv (w_os w') \<and> live_servers (w_os w') = live_servers (w_os w)"
  proof (cases q)
    case (Inl e)
    then show ?thesis using run m v by (simp add: andthen_def)
  next
    case (Inr x)
    then have "f x v = (r, w')" using run m by (simp add: andthen_def)
    from keeps_serversD [OF assms(2) conjunct1 [OF v] this] v show ?thesis by simp
  qed
qed

lemma keeps_if: "keeps_servers a \<Longrightarrow> keeps_servers b \<Longrightarrow> keeps_servers (if c then a else b)"
  by simp

lemma keeps_ret: "keeps_servers (ret x)"
  by (rule keeps_same_os) simp

lemma keeps_from_res: "keeps_servers (from_res x)"
  by (rule keeps_same_os) simp

lemma keeps_on_fs: "keeps_servers (on_fs m)"
  by (rule keeps_same_os) (simp add: on_fs_def split: prod.splits)

lemma keeps_start_sampling: "keeps_servers (start_sampling e)"
  unfolding start_sampling_def
  by (intro keeps_andthen keeps_from_res keeps_same_os) (simp_all split: prod.splits)

lemma keeps_stop_sampling: "keeps_servers (stop_sampling e results)"
  by (rule keeps_same_os) (auto simp: stop_sampling_def Let_def split: option.splits sum.splits)

lemmas keeps_intros = keeps_andthen keeps_if keeps_ret keeps_from_res keeps_on_fs
  keeps_start_sampling keeps_stop_sampling

lemma keeps_timed_phase: "keeps_servers (workload ctx) \<Longrightarrow> keeps_servers (timed_phase e workload sample ctx)"
  unfolding timed_phase_def by (intro keeps_intros)

lemma launch_cases:
  assumes "os_inv (w_os w)" and "launch p pairing wd lg w = (r, w')"
  shows "os_inv (w_os w') \<and> (case r of
      Inr h \<Rightarrow> sh_pid h \<notin> live_servers (w_os w) \<and> live_servers (w_os w') = insert (sh_pid h) (live_servers (w_os w))
    | Inl _ \<Rightarrow> live_servers (w_os w') = live_servers (w_os w))"
proof -
  obtain q v where s: "start_attempts 6 (pr_server_bin p) (pr_server_args p wd pairing) (pr_bind_addr p) wd lg (w_os w) = (q, v)"
    by fastforce
  then have "r = q" "w_os w' = v" using assms(2) by (auto simp: launch_def on_os_def start_server_def)
  then show ?thesis using start_attempts_live [OF assms(1) s] by (cases q) simp_all
qed

lemma halt_cases:
  assumes "os_inv (w_os w)" and "halt h w = (r, w')"
  shows "r = Inr () \<and> os_inv (w_os w') \<and> live_servers (w_os w') = live_servers (w_os w) - {sh_pid h}"
proof -
  obtain q v where s: "stop_server h (w_os w) = (q, v)" by fastforce
  then have "r = q" "w_os w' = v" using assms(2) by (auto simp: halt_def on_os_def)
  then show ?thesis using stop_server_live [OF assms(1) s] by simp
qed

interpretation bench: server_host
    "\<lambda>(p, pairing, wd, lg). launch p pairing wd lg" halt sh_pid "\<lambda>w. live_servers (w_os w)" "\<lambda>w. os_inv (w_os w)"
proof unfold_locales
  fix w w' :: world and a :: "protocol \<times> bool \<times> string \<times> string"
  let ?launch = "\<lambda>(p, pairing, wd, lg). launch p pairing wd lg"
  obtain p pairing wd lg where a: "a = (p, pairing, wd, lg)" by (cases a)
  show "os_inv (w_os w') \<and> sh_pid h \<notin> live_servers (w_os w) \<and> live_servers (w_os w') = insert (sh_pid h) (live_servers (w_os w))"
    if "os_inv (w_os w)" "?launch a w = (Inr h, w')" for h
    using launch_cases [of w p pairing wd lg "Inr h" w'] that by (simp add: a)
  show "os_inv (w_os w') \<and> live_servers (w_os w') = live_servers (w_os w)"
    if "os_inv (w_os w)" "?launch a w = (Inl e, w')" for e
    using launch_cases [of w p pairing wd lg "Inl e" w'] that by (simp add: a)
  show "r = Inr () \<and> os_inv (w_os w') \<and> live_servers (w_os w') = live_servers (w_os w) - {sh_pid h}"
    if "os_inv (w_os w)" "halt h w = (r, w')" for h r
    using halt_cases [OF that] .
qed

lemma keeps_with_server:
  assumes "\<And>h. keeps_servers (body h)"
  shows "keeps_servers (andthen (launch p pairing wd lg) (\<lambda>h. try_finally (body h) (halt h)))"
proof (rule keeps_serversI)
  fix w r w'
  assume w: "os_inv (w_os w)"
    and run: "andthen (launch p pairing wd lg) (\<lambda>h. try_finally (body h) (halt h)) w = (r, w')"
  then have "bench.with_server (p, pairing, wd, lg) body w = (r, w')" by (simp add: bench.with_server_def)
  from bench.with_server_live [OF w this] assms
  show "os_inv (w_os w') \<and> live_servers (w_os w') = live_servers (w_os w)"
    using keeps_serversD by blast
qed

lemma keeps_prepare_clients: "keeps_servers (prepare_clients e p work n lb)"
  unfolding prepare_clients_def enroll_phase_def stamp_clients_def
  by (intro keeps_if keeps_with_server keeps_intros)

lemma keeps_serve_and_measure:
  "(\<And>ctx. keeps_servers (workload ctx)) \<Longrightarrow> keeps_servers (serve_and_measure e workload sample p work lb dirs)"
  unfolding serve_and_measure_def by (intro keeps_with_server keeps_timed_phase)

lemma keeps_run_test:
  "(\<And>ctx. keeps_servers (workload ctx)) \<Longrightarrow> keeps_servers (run_test e test protocol n workload sample notes)"
  unfolding run_test_def Let_def
  by (intro keeps_andthen keeps_from_res keeps_prepare_clients keeps_serve_and_measure)
     (auto intro!: keeps_same_os simp: write_results_def Let_def split: prod.splits)

text \<open>C39: however a run of a test ends, by a result or by an exception of a check, of the start of a server, of
  the enrollment, of a sampler or of the workload, the processes running afterwards are those
  that ran before.\<close>

theorem run_test_leaves_no_server:
  assumes "os_inv (w_os w)" and "\<And>ctx. keeps_servers (workload ctx)"
    and "run_test e test protocol n workload sample notes w = (r, w')"
  shows "os_inv (w_os w') \<and> live_servers (w_os w') = live_servers (w_os w)"
  using keeps_serversD [OF keeps_run_test [OF assms(2)] assms(1,3)] .

definition demo_env :: bench_env where
  "demo_env = \<lparr>be_env = Map.empty, be_cpus = Some 4, be_model = None,
     be_host = \<lparr>page_size = 4096, clk_tck = 100, ncpu = 4\<rparr>, be_hostname = ''pi'', be_repr = show_fixed 6, be_exists = (\<lambda>f. True),
     be_windows = False, be_repo = ''/repo'', be_script_exit = 0, be_enroll = demo_client, be_readings = [],
     be_powers = [], be_pmic = False, be_hwmon = Inr None, be_t0 = 1, be_t1 = 2\<rparr>"

definition demo_world :: world where
  "demo_world = \<lparr>w_os = demo_os\<lparr>can_spawn := (\<lambda>b. True)\<rparr>, w_fs = Map.empty, w_sampler = None, w_power = None,
     w_files = Map.empty\<rparr>"

lemma demo_world_inv: "os_inv (w_os demo_world)" and demo_world_live: "live_servers (w_os demo_world) = {3}"
  by (simp_all add: demo_world_def demo_os_def os_inv_def killable_def live_servers_def)

lemma run_test_leaves_no_server_witness:
  "live_servers (w_os (snd (run_test demo_env ''t'' ''zkarche'' 2 (\<lambda>ctx. raise IndexError) False [] demo_world))) = {3}"
proof -
  obtain r w' where run: "run_test demo_env ''t'' ''zkarche'' 2 (\<lambda>ctx. raise IndexError) False [] demo_world = (r, w')" by fastforce
  have "keeps_servers (raise IndexError)" by (rule keeps_same_os) simp
  from run_test_leaves_no_server [OF demo_world_inv this run] run demo_world_live show ?thesis by simp
qed

section \<open>What the workload sees\<close>

lemma start_attempts_log:
  "start_attempts n binary args addr wd lg w = (Inr h, w') \<Longrightarrow> \<exists>l. os_log w' = l @ [Spawned (sh_pid h) binary args]"
proof (induction n arbitrary: w)
  case 0
  then show ?case by simp
next
  case (Suc n)
  show ?case
  proof (cases "spawn binary args w")
    case (Pair q w1)
    then obtain p where q: "q = Inr p" using Suc.prems by (cases q) (auto simp: andthen_def)
    then have lg1: "os_log w1 = os_log w @ [Spawned p binary args]" "p = next_pid w"
      using Pair by (auto simp: spawn_def split: if_splits)
    let ?h = "\<lparr>sh_pid = p, sh_addr = addr, sh_log = lg, sh_workdir = wd\<rparr>"
    show ?thesis
    proof (cases "bh_wait (script w1 p)")
      case (Inr x)
      then have "h = ?h" "w' = w1" using Suc.prems Pair q by (auto simp: andthen_def Let_def)
      then show ?thesis using lg1 by simp
    next
      case (Inl x)
      obtain q2 w2 where st: "stop_server ?h w1 = (q2, w2)" by fastforce
      have "q2 = Inr ()" using st by (auto simp: stop_server_def Let_def split: if_splits)
      then have "start_attempts n binary args addr wd lg w2 = (Inr h, w')"
        using Suc.prems Pair q Inl st by (simp add: andthen_def Let_def)
      then show ?thesis by (rule Suc.IH)
    qed
  qed
qed

text \<open>The state in which the workload may run: one live server more than before the run, started last and without
  pairing, and \<open>n\<close> different client directories.\<close>

definition ready :: "nat set \<Rightarrow> nat \<Rightarrow> test_context \<Rightarrow> world \<Rightarrow> bool" where
  "ready before n ctx w \<longleftrightarrow>
     live_servers (w_os w) = insert (sh_pid (ctx_server ctx)) before
     \<and> sh_pid (ctx_server ctx) \<notin> before
     \<and> os_log (w_os w) \<noteq> []
     \<and> last (os_log (w_os w)) = Spawned (sh_pid (ctx_server ctx)) (pr_server_bin (ctx_protocol ctx))
         (pr_server_args (ctx_protocol ctx) (ctx_server_workdir ctx) False)
     \<and> length (ctx_client_workdirs ctx) = n \<and> distinct (ctx_client_workdirs ctx)"

definition guarded :: "(test_context \<Rightarrow> world \<Rightarrow> bool) \<Rightarrow> workload \<Rightarrow> workload" where
  "guarded P workload ctx w = (if P ctx w then workload ctx w else (Inl (RuntimeError ''workload called too early''), w))"

lemma start_sampling_os: "w_os (snd (start_sampling e w)) = w_os w"
  by (auto simp: start_sampling_def andthen_def split: prod.splits sum.splits)

lemma timed_phase_guarded:
  assumes "ready before n ctx w"
  shows "timed_phase e (guarded (ready before n) workload) sample ctx w = timed_phase e workload sample ctx w"
proof -
  let ?pre = "if sample then start_sampling e else ret ()"
  obtain q v where pre: "?pre w = (q, v)" by fastforce
  then have "w_os v = w_os w" using start_sampling_os [of e w] by (auto split: if_splits)
  then have "ready before n ctx v" using assms by (simp add: ready_def)
  then show ?thesis using pre by (simp add: timed_phase_def andthen_def guarded_def split: sum.splits)
qed

lemma serve_and_measure_guarded:
  assumes "os_inv (w_os w)" and "live_servers (w_os w) = before" and "length dirs = n" and "distinct dirs"
  shows "serve_and_measure e (guarded (ready before n) workload) sample p work lb dirs w
    = serve_and_measure e workload sample p work lb dirs w"
proof -
  obtain q v where l: "launch p False (work @ ''/server'') (lb @ ''.log'') w = (q, v)" by fastforce
  show ?thesis
  proof (cases q)
    case (Inl x)
    then show ?thesis using l by (simp add: serve_and_measure_def andthen_def)
  next
    case (Inr h)
    let ?ctx = "\<lparr>ctx_protocol = p, ctx_server = h, ctx_server_workdir = work @ ''/server'', ctx_client_workdirs = dirs\<rparr>"
    have "\<exists>l. os_log (w_os v) = l @ [Spawned (sh_pid h) (pr_server_bin p) (pr_server_args p (work @ ''/server'') False)]"
      using l Inr start_attempts_log
      by (fastforce simp: launch_def on_os_def start_server_def split: prod.splits)
    then have "ready before n ?ctx v"
      using launch_cases [OF assms(1) l] Inr assms(2-4) by (auto simp: ready_def)
    from timed_phase_guarded [OF this] show ?thesis using l Inr
      by (simp add: serve_and_measure_def andthen_def try_finally_def)
  qed
qed

lemma stamp_clients_dirs: "stamp_clients work n w = (Inr dirs, w') \<Longrightarrow> length dirs = n \<and> distinct dirs"
  using distinct_stamp_names [of "work @ ''/clients''" "''c''" n]
  by (auto simp: stamp_clients_def on_fs_def stamp_workdirs_def Let_def stamp_all_empty)

lemma prepare_clients_dirs:
  assumes "prepare_clients e p work n lb w = (Inr dirs, w')"
  shows "length dirs = n \<and> distinct dirs"
proof (cases "pr_name p = ''zkarche''")
  case False
  then show ?thesis using assms stamp_clients_dirs by (simp add: prepare_clients_def)
next
  case True
  then show ?thesis using assms stamp_clients_dirs
    by (fastforce simp: prepare_clients_def enroll_phase_def andthen_def try_finally_def
        split: prod.splits sum.splits)
qed

text \<open>The workload is only ever called when exactly one server runs besides those before, the one started last,
  without the pairing arguments, and when all client directories exist and differ: a workload that checks this
  first makes no difference to any run.\<close>

lemma workload_runs_ready:
  assumes "os_inv (w_os w)"
  shows "run_test e test protocol n (guarded (ready (live_servers (w_os w)) n) workload) sample notes w
    = run_test e test protocol n workload sample notes w"
proof (cases "checks e protocol")
  case (Inl x)
  then show ?thesis by (simp add: run_test_def andthen_def)
next
  case (Inr p)
  let ?work = "bench_workdir test protocol"
  let ?w1 = "w\<lparr>w_fs := fresh_workdir ?work (w_fs w)\<rparr>"
  obtain q v where prep: "prepare_clients e p ?work n (log_base e test protocol) ?w1 = (q, v)" by fastforce
  have "os_inv (w_os ?w1)" using assms by simp
  from keeps_serversD [OF keeps_prepare_clients this prep]
  have v: "os_inv (w_os v)" "live_servers (w_os v) = live_servers (w_os w)" by simp_all
  have "serve_and_measure e (guarded (ready (live_servers (w_os w)) n) workload) sample p ?work (log_base e test protocol) dirs v
      = serve_and_measure e workload sample p ?work (log_base e test protocol) dirs v" if "q = Inr dirs" for dirs
    using prepare_clients_dirs [of e p ?work n _ ?w1 dirs v] prep that v by (intro serve_and_measure_guarded) auto
  then show ?thesis using Inr prep by (simp add: run_test_def andthen_def Let_def split: sum.splits)
qed

lemma workload_runs_ready_witness:
  "run_test demo_env ''t'' ''edhoc'' 2 (guarded (ready {3} 2) (\<lambda>ctx. ret [demo_result True])) False [] demo_world
   = run_test demo_env ''t'' ''edhoc'' 2 (\<lambda>ctx. ret [demo_result True]) False [] demo_world"
  using workload_runs_ready [OF demo_world_inv] unfolding demo_world_live by blast

section \<open>The samplers of a failing run\<close>

text \<open>Steps that leave a part \<open>f\<close> of the state alone.\<close>

definition frame :: "(world \<Rightarrow> 'b) \<Rightarrow> (world, 'a) eff \<Rightarrow> bool" where
  "frame f m \<longleftrightarrow> (\<forall>w. f (snd (m w)) = f w)"

lemma frame_andthen: "frame f m \<Longrightarrow> (\<And>x. frame f (g x)) \<Longrightarrow> frame f (andthen m g)"
  by (auto simp: frame_def andthen_def split: prod.splits sum.splits) (metis snd_conv)+

lemma frame_try_finally: "frame f m \<Longrightarrow> frame f c \<Longrightarrow> frame f (try_finally m c)"
  by (auto simp: frame_def try_finally_def split: prod.splits sum.splits) (metis snd_conv)+

definition samplers :: "world \<Rightarrow> proc_sampler option \<times> power_sampler option" where
  "samplers w = (w_sampler w, w_power w)"

lemma frame_samplers:
  "frame samplers (on_os m)" "frame samplers (on_fs n)" "frame samplers (ret x)" "frame samplers (from_res y)"
  by (simp_all add: frame_def samplers_def on_os_def on_fs_def split: prod.splits)

lemma frame_samplers_if: "frame f a \<Longrightarrow> frame f b \<Longrightarrow> frame f (if c then a else b)"
  by simp

lemma frame_prepare: "frame samplers (prepare_clients e p work n lb)"
  unfolding prepare_clients_def enroll_phase_def stamp_clients_def launch_def halt_def
  by (intro frame_samplers_if frame_andthen frame_try_finally frame_samplers)

lemma start_sampling_cases:
  assumes "start_sampling e w = (q, v)"
  shows "(\<exists>x. q = Inl x \<and> w_power v = w_power w)
    \<or> (q = Inr () \<and> (\<exists>s. w_sampler v = Some s \<and> ps_thread s \<and> \<not> ps_stop s)
        \<and> (\<exists>s. w_power v = Some s \<and> pw_thread s \<and> \<not> pw_stop s))"
  using assms
  by (auto simp: start_sampling_def andthen_def sampler_start_def new_sampler_def power_start_def
      new_power_sampler_def split: prod.splits sum.splits)

text \<open>A workload that raises ends the run with its exception and with the server stopped, but once sampling
  has started both sampling threads are left running: only the normal path stops them.\<close>

lemma failing_workload_leaves_samplers:
  assumes "os_inv (w_os w)" and "\<And>ctx v. workload ctx v = (Inl x, v)"
    and "run_test e test protocol n workload True notes w = (r, w')"
    and "w_power w = None" and "w_power w' \<noteq> None"
  shows "r = Inl x \<and> (\<exists>s. w_sampler w' = Some s \<and> ps_thread s \<and> \<not> ps_stop s)
    \<and> (\<exists>s. w_power w' = Some s \<and> pw_thread s \<and> \<not> pw_stop s)"
proof -
  obtain p where p: "checks e protocol = Inr p" using assms(3-5)
    by (cases "checks e protocol") (auto simp: run_test_def andthen_def)
  let ?work = "bench_workdir test protocol" and ?lb = "log_base e test protocol"
  let ?w1 = "w\<lparr>w_fs := fresh_workdir ?work (w_fs w)\<rparr>"
  obtain q v where prep: "prepare_clients e p ?work n ?lb ?w1 = (q, v)" by fastforce
  have "samplers v = samplers ?w1" using frame_prepare [of e p ?work n ?lb] prep unfolding frame_def by (metis snd_conv)
  then have v_power: "w_power v = None" using assms(4) by (simp add: samplers_def)
  have "os_inv (w_os ?w1)" using assms(1) by simp
  note v_inv = conjunct1 [OF keeps_serversD [OF keeps_prepare_clients this prep]]
  obtain dirs where q: "q = Inr dirs" using assms(3,5) p prep v_power
    by (cases q) (auto simp: run_test_def andthen_def Let_def)
  let ?serve = "serve_and_measure e workload True p ?work ?lb dirs"
  have run: "run_test e test protocol n workload True notes w = andthen ?serve (\<lambda>m. write_results e test protocol notes m) v"
    using p prep q by (simp add: run_test_def andthen_def Let_def)
  obtain l v2 where launch: "launch p False (?work @ ''/server'') (?lb @ ''.log'') v = (l, v2)" by fastforce
  have v2_power: "w_power v2 = None" using launch v_power by (auto simp: launch_def on_os_def split: prod.splits)
  obtain h where l: "l = Inr h" using assms(3,5) run launch v2_power
    by (cases l) (auto simp: serve_and_measure_def andthen_def)
  have v2_inv: "os_inv (w_os v2)" using launch_cases [OF v_inv launch] by simp
  obtain z v3 where start: "start_sampling e v2 = (z, v3)" by fastforce
  let ?ctx = "\<lparr>ctx_protocol = p, ctx_server = h, ctx_server_workdir = ?work @ ''/server'', ctx_client_workdirs = dirs\<rparr>"
  obtain z' where timed: "timed_phase e workload True ?ctx v2 = (z', v3)" "isl z'" "z = Inr () \<Longrightarrow> z' = Inl x"
    using start assms(2) by (cases z) (auto simp: timed_phase_def andthen_def)
  obtain u v4 where halt: "halt h v3 = (u, v4)" by fastforce
  have "os_inv (w_os v3)" using start_sampling_os [of e v2] start v2_inv by simp
  then have u: "u = Inr ()" using halt_cases halt by blast
  have "?serve v = (z', v4)" using launch l timed(1) halt u
    by (simp add: serve_and_measure_def andthen_def try_finally_def)
  then have r: "w' = v4" "z' = Inl x \<Longrightarrow> r = Inl x"
    using run assms(3) timed(2) by (auto simp: andthen_def isl_def split: sum.splits)
  have same: "w_sampler v4 = w_sampler v3" "w_power v4 = w_power v3"
    using halt by (auto simp: halt_def on_os_def split: prod.splits)
  from start_sampling_cases [OF start] show ?thesis
  proof
    assume "\<exists>x. z = Inl x \<and> w_power v3 = w_power v2"
    then show ?thesis using v2_power same r(1) assms(5) by simp
  next
    assume "z = Inr () \<and> (\<exists>s. w_sampler v3 = Some s \<and> ps_thread s \<and> \<not> ps_stop s)
        \<and> (\<exists>s. w_power v3 = Some s \<and> pw_thread s \<and> \<not> pw_stop s)"
    then show ?thesis using timed(3) r same by simp
  qed
qed

text \<open>The parts of a run of the EDHOC test in the demonstration world.\<close>

lemma demo_checks: "\<exists>p. checks demo_env ''edhoc'' = Inr p \<and> pr_name p = ''edhoc''"
  by (simp add: checks_def registry_def PROTOCOLS_def require_binaries_def demo_env_def Let_def)

lemma demo_prepare:
  assumes "pr_name p = ''edhoc''"
  shows "\<exists>dirs v. prepare_clients demo_env p work n lb w = (Inr dirs, v) \<and> w_os v = w_os w \<and> samplers v = samplers w"
  using assms by (simp add: prepare_clients_def stamp_clients_def on_fs_def stamp_workdirs_def stamp_all_empty Let_def samplers_def)

lemma demo_launch:
  assumes "w_os w = w_os demo_world"
  shows "\<exists>h v. launch p pairing wd lg w = (Inr h, v) \<and> samplers v = samplers w"
  using assms
  by (simp add: launch_def on_os_def start_server_def numeral_eq_Suc andthen_def spawn_def demo_world_def demo_os_def
      stop_server_def Let_def process_ended_def send_signal_def samplers_def)

lemma demo_start_sampling: "\<exists>v t. start_sampling demo_env w = (Inr (), v) \<and> w_power v = Some t"
  by (simp add: start_sampling_def andthen_def sampler_start_def new_sampler_def power_start_def new_power_sampler_def
      make_power_meter_def env_get_def demo_env_def Let_def is_space_def lower_def lower_char_def)

lemma demo_halt: "\<exists>v. halt h w = (Inr (), v) \<and> samplers v = samplers w"
  by (simp add: halt_def on_os_def stop_server_def Let_def samplers_def)

lemma demo_serve:
  assumes "pr_name p = ''edhoc''"
  shows "\<exists>dirs v h v2. prepare_clients demo_env p work n lb (demo_world\<lparr>w_fs := fs0\<rparr>) = (Inr dirs, v)
    \<and> launch p False (work @ ''/server'') (lb @ ''.log'') v = (Inr h, v2)"
proof -
  obtain dirs v where p: "prepare_clients demo_env p work n lb (demo_world\<lparr>w_fs := fs0\<rparr>) = (Inr dirs, v)" "w_os v = w_os demo_world"
    using demo_prepare [OF assms, of work n lb "demo_world\<lparr>w_fs := fs0\<rparr>"] by auto
  then show ?thesis using demo_launch [OF p(2), of p False "work @ ''/server''" "lb @ ''.log''"] by blast
qed

lemma failing_workload_leaves_samplers_witness:
  "\<exists>w'. run_test demo_env ''t'' ''edhoc'' 1 (\<lambda>ctx. raise IndexError) True [] demo_world = (Inl IndexError, w')
    \<and> (\<exists>s. w_sampler w' = Some s \<and> ps_thread s)"
proof -
  obtain r w' where run: "run_test demo_env ''t'' ''edhoc'' 1 (\<lambda>ctx. raise IndexError) True [] demo_world = (r, w')" by fastforce
  obtain p where p: "checks demo_env ''edhoc'' = Inr p" "pr_name p = ''edhoc''" using demo_checks by blast
  let ?work = "bench_workdir ''t'' ''edhoc''" and ?lb = "log_base demo_env ''t'' ''edhoc''"
  obtain dirs v h v2 where serve: "prepare_clients demo_env p ?work 1 ?lb (demo_world\<lparr>w_fs := fresh_workdir ?work (w_fs demo_world)\<rparr>) = (Inr dirs, v)"
    "launch p False (?work @ ''/server'') (?lb @ ''.log'') v = (Inr h, v2)" using demo_serve [OF p(2)] by blast
  obtain v3 t where st: "start_sampling demo_env v2 = (Inr (), v3)" "w_power v3 = Some t"
    using demo_start_sampling by blast
  obtain v4 where "halt h v3 = (Inr (), v4)" "samplers v4 = samplers v3" using demo_halt by blast
  then have "w_power w' = Some t" using run p serve st
    by (simp add: run_test_def andthen_def Let_def serve_and_measure_def try_finally_def timed_phase_def samplers_def)
  moreover have "w_power demo_world = None" by (simp add: demo_world_def)
  ultimately show ?thesis using failing_workload_leaves_samplers [OF demo_world_inv _ run, of IndexError] run by auto
qed

section \<open>What a run writes\<close>

text \<open>A run that returns has written its summary and the table of the workload's results, the summary counts them, and the
  figure generator reads from the table exactly the successes the summary counts.\<close>

lemma run_test_writes_results:
  assumes "run_test e test protocol n workload sample notes w = (Inr summary, w')"
  shows "w_files w' (summary_path e test protocol) = Some (write_summary_json (be_repr e) summary)
    \<and> (\<exists>results. w_files w' (raw_csv e test protocol) = Some (write_iterations_csv results)
    \<and> sr_n summary = length results
    \<and> ((\<forall>r \<in> set results. times_nonneg r) \<longrightarrow>
        (\<exists>rows. load_csv (w_files w' (raw_csv e test protocol)) = Inr rows \<and> length rows = sr_n summary
          \<and> length (successful_durations rows) = sr_n_success summary)))"
proof -
  obtain results resources energy v where m: "write_results e test protocol notes (results, resources, energy) v = (Inr summary, w')"
    using assms
    by (auto simp: run_test_def andthen_def Let_def split: prod.splits sum.splits if_splits)
  then have files: "w_files w' (raw_csv e test protocol) = Some (write_iterations_csv results)"
    and summary: "summary = summarise (be_hostname e) test protocol results resources energy (device e) notes"
    and json: "w_files w' (summary_path e test protocol) = Some (write_summary_json (be_repr e) summary)"
    by (auto simp: write_results_def Let_def)
  have n: "sr_n summary = length results" "sr_n_success summary = length (successful_results results)"
    by (simp_all add: summary summarise_def Let_def)
  have "length (successful_durations (map row_of_result results)) = length (successful_results results)"
    by (simp add: successful_durations_results)
  then show ?thesis using files json n load_written_iterations [of results] by auto
qed

lemma run_test_writes_results_witness:
  "\<exists>summary w'. run_test demo_env ''t'' ''edhoc'' 1 (\<lambda>ctx. ret [demo_result True]) False [] demo_world = (Inr summary, w')
    \<and> (\<exists>results. w_files w' ''/repo/benchmarks/results/raw/t_edhoc.csv'' = Some (write_iterations_csv results)
        \<and> sr_n summary = length results)"
proof -
  obtain p where p: "checks demo_env ''edhoc'' = Inr p" "pr_name p = ''edhoc''" using demo_checks by blast
  let ?work = "bench_workdir ''t'' ''edhoc''" and ?lb = "log_base demo_env ''t'' ''edhoc''"
  obtain dirs v h v2 where serve: "prepare_clients demo_env p ?work 1 ?lb (demo_world\<lparr>w_fs := fresh_workdir ?work (w_fs demo_world)\<rparr>) = (Inr dirs, v)"
    "launch p False (?work @ ''/server'') (?lb @ ''.log'') v = (Inr h, v2)" using demo_serve [OF p(2)] by blast
  obtain v4 where "halt h v2 = (Inr (), v4)" using demo_halt by blast
  then have "\<exists>summary w'. run_test demo_env ''t'' ''edhoc'' 1 (\<lambda>ctx. ret [demo_result True]) False [] demo_world = (Inr summary, w')"
    using p serve
    by (simp add: run_test_def andthen_def Let_def serve_and_measure_def try_finally_def timed_phase_def write_results_def)
  then obtain summary w' where run: "run_test demo_env ''t'' ''edhoc'' 1 (\<lambda>ctx. ret [demo_result True]) False [] demo_world = (Inr summary, w')"
    by blast
  have "raw_csv demo_env ''t'' ''edhoc'' = ''/repo/benchmarks/results/raw/t_edhoc.csv''"
    by (simp add: raw_csv_def results_dir_def demo_env_def)
  then show ?thesis using run_test_writes_results [OF run] run by auto
qed

end
