(* ===== verification/MininetMetrics.thy ===== *)
theory MininetMetrics
  imports Metrics Csv "HOL-Library.AList"
begin

text \<open>
  The metrics side of the Mininet runner, \<open>experiments/mininet/mininet_tests_123.py\<close>: its own
  parsers of client and server metrics lines (which, unlike \<open>benchmarks/lib/parse.py\<close>, accept
  the protocol-tagged formats), the exit status it recovers from a host's output, the
  incremental reading of the server log, and the full-session columns. A row
  of its CSV files is a dictionary in insertion order: an association list updated with
  \<open>AList.update\<close>.
\<close>

section \<open>Dictionaries\<close>

datatype pyval = VNone | VInt int | VFloat real | VStr string

type_synonym row = "(string \<times> pyval) list"

definition v_int :: "int option \<Rightarrow> pyval" where
  "v_int x = (case x of None \<Rightarrow> VNone | Some i \<Rightarrow> VInt i)"

definition v_float :: "real option \<Rightarrow> pyval" where
  "v_float x = (case x of None \<Rightarrow> VNone | Some r \<Rightarrow> VFloat r)"

definition v_str :: "string option \<Rightarrow> pyval" where
  "v_str x = (case x of None \<Rightarrow> VNone | Some s \<Rightarrow> VStr s)"

text \<open>\<open>row.update(kvs)\<close>: a present key keeps its place, a new key comes last.\<close>

definition dict_update :: "row \<Rightarrow> row \<Rightarrow> row" where
  "dict_update kvs r = fold (\<lambda>(k, v). AList.update k v) kvs r"

section \<open>Durations\<close>

definition rx_duration :: rx where
  "rx_duration = seqs [Grp ''1'' (plus (\<lambda>c. is_digit c \<or> c = CHR ''.'')), Star is_space, Grp ''2'' rx_unit]"

text \<open>The number may be a text \<open>float\<close> rejects, such as \<open>1.2.3\<close>.\<close>

definition parse_duration_to_ms :: "string \<Rightarrow> real option res" where
  "parse_duration_to_ms s =
     (if s = [] then Inr None
      else case re_match rx_duration (strip s) of
        None \<Rightarrow> Inr None
      | Some (c, _) \<Rightarrow> bind_res (float_finite (group ''1'' c)) (\<lambda>v.
          let u = group ''2'' c in
          if u = ''ns'' then Inr (Some (v / 1000000))
          else if u = micro_s \<or> u = ''us'' then Inr (Some (v / 1000))
          else if u = ''ms'' then Inr (Some v)
          else if u = ''s'' then Inr (Some (v * 1000))
          else Inr None))"

definition rounded :: "real option \<Rightarrow> real option" where
  "rounded x = map_option (\<lambda>r. py_round r 4) x"

section \<open>Client lines\<close>

record client_metrics =
  cm_auth_duration_ms :: "real option"
  cm_auth_sent_bytes :: "int option"
  cm_auth_received_bytes :: "int option"
  cm_client_cert_sha256 :: "string option"
  cm_request_bytes :: "int option"
  cm_response_bytes :: "int option"
  cm_device_id :: "string option"

definition no_metrics :: client_metrics where
  "no_metrics = \<lparr>cm_auth_duration_ms = None, cm_auth_sent_bytes = None,
     cm_auth_received_bytes = None, cm_client_cert_sha256 = None, cm_request_bytes = None,
     cm_response_bytes = None, cm_device_id = None\<rparr>"

definition not_comma_group :: "string \<Rightarrow> rx" where
  "not_comma_group n = Grp n (plus not_comma)"

definition rx_counters :: rx where
  "rx_counters = seqs [lit ''Duration:'', Star is_space, Grp ''dur'' (plus not_comma), lit '','', Star is_space,
     lit ''Sent:'', Star is_space, Grp ''sent'' (plus is_digit), Star is_space, lit ''bytes,'', Star is_space,
     lit ''Received:'', Star is_space, Grp ''recv'' (plus is_digit), Star is_space, lit ''bytes'']"

definition rx_protocol :: rx where
  "rx_protocol = seqs [lit ''Protocol:'', Star is_space, plus not_comma, lit '','', Star is_space]"

definition rx_client :: rx where
  "rx_client = Seq (lit ''CLIENT METRICS'') (Seq (Star is_space) (Seq (lit ''->'') (Seq (Star is_space)
     (Seq (opt rx_protocol) rx_counters))))"

text \<open>The labelled fields after the counters: \<open>re.search(rf"{key}:\s*([^,]+)", line)\<close>, stripped.\<close>

definition labelled :: "string \<Rightarrow> string \<Rightarrow> string option" where
  "labelled key line = (case re_search (seqs [lit key, lit '':'', Star is_space, Grp ''1'' (plus not_comma)]) line of
       None \<Rightarrow> None
     | Some (_, c, _) \<Rightarrow> Some (strip (group ''1'' c)))"

text \<open>One line of the loop: an absent label leaves the field as it is, a label with a text that
  is no integer sets an integer field to \<open>None\<close>.\<close>

definition set_str :: "string option \<Rightarrow> string option \<Rightarrow> string option" where
  "set_str found old = (case found of None \<Rightarrow> old | Some v \<Rightarrow> Some v)"

definition set_int :: "string option \<Rightarrow> int option \<Rightarrow> int option" where
  "set_int found old = (case found of None \<Rightarrow> old | Some v \<Rightarrow> py_int v)"

definition client_line :: "string \<Rightarrow> client_metrics \<Rightarrow> client_metrics res" where
  "client_line line m = (case re_search rx_client line of
       None \<Rightarrow> Inr m
     | Some (_, c, _) \<Rightarrow>
         bind_res (parse_duration_to_ms (group ''dur'' c)) (\<lambda>parsed.
         bind_res (int_res (group ''sent'' c)) (\<lambda>sent.
         bind_res (int_res (group ''recv'' c)) (\<lambda>recv.
           Inr \<lparr>cm_auth_duration_ms = rounded parsed,
                cm_auth_sent_bytes = Some sent,
                cm_auth_received_bytes = Some recv,
                cm_client_cert_sha256 = set_str (labelled ''ClientCertSHA256'' line) (cm_client_cert_sha256 m),
                cm_request_bytes = set_int (labelled ''RequestBytes'' line) (cm_request_bytes m),
                cm_response_bytes = set_int (labelled ''ResponseBytes'' line) (cm_response_bytes m),
                cm_device_id = set_str (labelled ''DeviceID'' line) (cm_device_id m)\<rparr>))))"

fun client_lines :: "string list \<Rightarrow> client_metrics \<Rightarrow> client_metrics res" where
  "client_lines [] m = Inr m"
| "client_lines (l # ls) m = bind_res (client_line l m) (client_lines ls)"

definition parse_client_metrics :: "string \<Rightarrow> client_metrics res" where
  "parse_client_metrics output = client_lines (splitlines output) no_metrics"

fun client_metrics_of :: "string list \<Rightarrow> client_metrics list res" where
  "client_metrics_of [] = Inr []"
| "client_metrics_of (l # ls) =
     (if is_infix ''CLIENT METRICS ->'' l
      then bind_res (parse_client_metrics l) (\<lambda>m. bind_res (client_metrics_of ls) (\<lambda>ms.
             Inr (if cm_auth_duration_ms m \<noteq> None then m # ms else ms)))
      else client_metrics_of ls)"

definition parse_all_client_metrics :: "string \<Rightarrow> client_metrics list res" where
  "parse_all_client_metrics output = client_metrics_of (splitlines output)"

section \<open>Server lines\<close>

record server_row =
  sr_protocol :: string
  sr_test_id :: string
  sr_workload :: string
  sr_round_index :: int
  sr_peer :: "string option"
  sr_auth_duration_ms :: "real option"
  sr_sent_bytes :: "int option"
  sr_received_bytes :: "int option"
  sr_device_id :: "string option"
  sr_client_cert_sha256 :: "string option"
  sr_request_bytes :: "int option"
  sr_response_bytes :: "int option"
  sr_payload_bytes :: "int option"
  sr_timestamp_ms :: "int option"
  sr_status :: string
  sr_stdout_tail :: "string option"

definition empty_server_metric_row :: "string \<Rightarrow> string \<Rightarrow> string \<Rightarrow> int \<Rightarrow> server_row" where
  "empty_server_metric_row protocol test_id workload round_index =
     \<lparr>sr_protocol = protocol, sr_test_id = test_id, sr_workload = workload,
      sr_round_index = round_index, sr_peer = None, sr_auth_duration_ms = None,
      sr_sent_bytes = None, sr_received_bytes = None, sr_device_id = None,
      sr_client_cert_sha256 = None, sr_request_bytes = None, sr_response_bytes = None,
      sr_payload_bytes = None, sr_timestamp_ms = None, sr_status = ''SERVER_METRIC'',
      sr_stdout_tail = None\<rparr>"

definition rx_server_head :: rx where
  "rx_server_head = seqs [lit ''SERVER METRICS'', Star is_space, lit ''->'', Star is_space]"

definition rx_server_tagged :: rx where
  "rx_server_tagged = Seq rx_server_head (Seq (lit ''Peer:'') (Seq (Star is_space)
     (Seq (Grp ''peer'' (plus not_comma)) (Seq (lit '','') (Seq (Star is_space)
     (Seq rx_protocol rx_counters))))))"

definition rx_server_plain :: rx where
  "rx_server_plain = Seq rx_server_head
     (Seq (Grp ''peer'' (Seq (Cls not_comma) (Lazy not_comma))) (Seq (plus is_space) rx_counters))"

definition server_match :: "string \<Rightarrow> caps option" where
  "server_match line = (case re_search rx_server_tagged line of
       Some (_, c, _) \<Rightarrow> Some c
     | None \<Rightarrow> (case re_search rx_server_plain line of
           Some (_, c, _) \<Rightarrow> Some c
         | None \<Rightarrow> None))"

text \<open>\<open>line[-300:].replace("\n", " | ")\<close>.\<close>

definition tail_300 :: "string \<Rightarrow> string" where
  "tail_300 s = replace_char (CHR 0x0A) '' | '' (last_n 300 s)"

definition parse_server_metrics_line :: "string \<Rightarrow> string \<Rightarrow> string \<Rightarrow> string \<Rightarrow> int \<Rightarrow> server_row option res" where
  "parse_server_metrics_line protocol line test_id workload round_index =
     (if \<not> is_infix ''SERVER METRICS ->'' line then Inr None
      else case server_match line of
        None \<Rightarrow> Inr None
      | Some c \<Rightarrow>
          bind_res (parse_duration_to_ms (group ''dur'' c)) (\<lambda>parsed.
          bind_res (int_res (group ''sent'' c)) (\<lambda>sent.
          bind_res (int_res (group ''recv'' c)) (\<lambda>recv.
            Inr (Some ((empty_server_metric_row protocol test_id workload round_index)
              \<lparr>sr_peer := Some (strip_chars ''\"'' (strip (group ''peer'' c))),
               sr_auth_duration_ms := rounded parsed,
               sr_sent_bytes := Some sent,
               sr_received_bytes := Some recv,
               sr_device_id := labelled ''DeviceID'' line,
               sr_client_cert_sha256 := labelled ''ClientCertSHA256'' line,
               sr_request_bytes := set_int (labelled ''RequestBytes'' line) None,
               sr_response_bytes := set_int (labelled ''ResponseBytes'' line) None,
               sr_payload_bytes := set_int (labelled ''PayloadBytes'' line) None,
               sr_timestamp_ms := set_int (labelled ''TimestampMs'' line) None,
               sr_stdout_tail := Some (tail_300 line)\<rparr>))))))"

fun server_rows_of :: "string \<Rightarrow> string list \<Rightarrow> string \<Rightarrow> string \<Rightarrow> int \<Rightarrow> server_row list res" where
  "server_rows_of protocol [] test_id workload round_index = Inr []"
| "server_rows_of protocol (l # ls) test_id workload round_index =
     bind_res (parse_server_metrics_line protocol l test_id workload round_index) (\<lambda>r.
     bind_res (server_rows_of protocol ls test_id workload round_index) (\<lambda>rows.
       Inr (case r of
              Some x \<Rightarrow> if sr_auth_duration_ms x \<noteq> None then x # rows else rows
            | None \<Rightarrow> rows)))"

definition parse_server_metrics_log ::
  "string \<Rightarrow> string \<Rightarrow> nat \<Rightarrow> string \<Rightarrow> string \<Rightarrow> int \<Rightarrow> (server_row list \<times> nat) res" where
  "parse_server_metrics_log protocol log_text start_line test_id workload round_index =
     (let lines = splitlines log_text in
      bind_res (server_rows_of protocol (drop start_line lines) test_id workload round_index)
        (\<lambda>rows. Inr (rows, length lines)))"

text \<open>The offset of the log already read is state the caller keeps; \<open>output\<close> is the log's text
  when the call reads it. An exception of the parser leaves the offset.\<close>

definition collect_server_metrics ::
  "string \<Rightarrow> string \<Rightarrow> string \<Rightarrow> string \<Rightarrow> int \<Rightarrow> (nat, server_row list) eff" where
  "collect_server_metrics protocol output test_id workload round_index offset =
     (case parse_server_metrics_log protocol output offset test_id workload round_index of
        Inl e \<Rightarrow> (Inl e, offset)
      | Inr (rows, new_offset) \<Rightarrow> (Inr rows, new_offset))"

section \<open>Exit status\<close>

definition rx_rc :: rx where
  "rx_rc = seqs [lit ''__RC_'', Grp ''1'' (plus is_digit), lit ''__'']"

text \<open>\<open>re.sub(r"__RC_\d+__", "", s)\<close>: scan for matches from the left, dropping each.\<close>

function drop_rc :: "string \<Rightarrow> string" where
  "drop_rc s = (case s of
       [] \<Rightarrow> []
     | x # t \<Rightarrow> (case re_match rx_rc s of
           Some (_, v) \<Rightarrow> if length v < length s then drop_rc v else x # drop_rc t
         | None \<Rightarrow> x # drop_rc t))"
  by pat_completeness auto
termination by (relation "measure length") auto

declare drop_rc.simps [simp del]

definition parse_rc_output :: "string \<Rightarrow> (int \<times> string) res" where
  "parse_rc_output output =
     (let cleaned = strip (drop_rc output) in
      case re_search rx_rc output of
        Some (_, c, _) \<Rightarrow> bind_res (int_res (group ''1'' c)) (\<lambda>rc. Inr (rc, cleaned))
      | None \<Rightarrow> Inr (999, cleaned))"

text \<open>\<open>host_cmd_with_status\<close> and \<open>proc.communicate()\<close> give the text of the wrapped command.\<close>

definition host_cmd_with_status :: "string \<Rightarrow> (int \<times> string) res" where
  "host_cmd_with_status output = parse_rc_output (strip output)"



section \<open>Durations as Rust prints them\<close>

lemma takes_unit_end: "is_unit u \<Longrightarrow> takes rx_unit c u c []"
  by (auto simp: takes_def is_unit_def micro_s_def rx_unit_def)

lemma dec_text_comma_free: "is_decimal ip fp \<Longrightarrow> c \<in> set (dec_text ip fp) \<Longrightarrow> is_digit c \<or> c = CHR ''.''"
  by (auto simp: is_decimal_def dec_text_def list_all_iff split: if_splits)

lemma dec_text_nonempty: "is_decimal ip fp \<Longrightarrow> dec_text ip fp \<noteq> []"
  by (auto simp: is_decimal_def dec_text_def)

lemma unit_chars: "is_unit u \<Longrightarrow> c \<in> set u \<Longrightarrow> \<not> is_space c \<and> not_comma c \<and> c \<noteq> CHR ''>''"
  by (auto simp: is_unit_def micro_s_def not_comma_def)

lemma duration_chars:
  assumes "is_decimal ip fp" "is_unit u" "c \<in> set (dec_text ip fp @ u)"
  shows "\<not> is_space c \<and> not_comma c \<and> c \<noteq> CHR ''>''"
  using assms dec_text_comma_free [OF assms(1), of c] unit_chars [OF assms(2), of c]
  by (auto simp: not_comma_def digit_not_space is_digit_def)

lemma hd_unit: "is_unit u \<Longrightarrow> u \<noteq> [] \<and> \<not> is_digit (hd u) \<and> hd u \<noteq> CHR ''.'' \<and> \<not> is_space (hd u)"
  by (auto simp: is_unit_def micro_s_def)

lemma duration_match:
  assumes d: "is_decimal ip fp" and u: "is_unit u"
  shows "re_match rx_duration (dec_text ip fp @ u) = Some ([(''2'', u), (''1'', dec_text ip fp)], [])"
proof -
  have "takes (Grp ''2'' rx_unit) [(''1'', dec_text ip fp)] u [(''2'', u), (''1'', dec_text ip fp)] []"
    using takes_Grp [of rx_unit _ u "[]"] takes_unit_end [OF u] by simp
  then have "takes (Seq (Star is_space) (Grp ''2'' rx_unit)) [(''1'', dec_text ip fp)] u
      [(''2'', u), (''1'', dec_text ip fp)] []"
    using hd_unit [OF u] by (intro step_no_space) simp_all
  moreover have "takes (Grp ''1'' (plus (\<lambda>c. is_digit c \<or> c = CHR ''.''))) [] (dec_text ip fp @ u)
      [(''1'', dec_text ip fp)] u"
    using d u hd_unit [OF u] dec_text_comma_free [OF d] dec_text_nonempty [OF d]
    by (intro takes_Grp takes_plus) auto
  ultimately have "takes rx_duration [] (dec_text ip fp @ u) [(''2'', u), (''1'', dec_text ip fp)] []"
    unfolding rx_duration_def seqs.simps by (blast intro: takes_Seq)
  then show ?thesis by (rule takes_re_match)
qed

lemma parse_duration_printed:
  assumes d: "is_decimal ip fp" and u: "is_unit u"
  shows "parse_duration_to_ms (dec_text ip fp @ u) = Inr (Some (dec_value ip fp * unit_ms u))"
proof -
  have "strip (dec_text ip fp @ u) = dec_text ip fp @ u"
    using duration_chars [OF d u] by (intro strip_no_space) blast
  moreover have "float_finite (dec_text ip fp) = Inr (dec_value ip fp)"
    using py_float_dec [of ip fp] d by (simp add: float_finite_def is_decimal_def list_all_iff)
  ultimately show ?thesis using duration_match [OF d u] dec_text_nonempty [OF d] u
    by (auto simp: parse_duration_to_ms_def group_def is_unit_def unit_ms_def micro_s_def)
qed

section \<open>The counters of a line\<close>

definition counter_caps :: "string \<Rightarrow> string \<Rightarrow> string \<Rightarrow> nat \<Rightarrow> nat \<Rightarrow> caps" where
  "counter_caps ip fp u s r = [(''recv'', show_nat r), (''sent'', show_nat s), (''dur'', dec_text ip fp @ u)]"

lemma takes_counters:
  assumes d: "is_decimal ip fp" and u: "is_unit u"
  shows "takes rx_counters c (counters_text ip fp u s r @ t) (counter_caps ip fp u s r @ c) t"
proof -
  have dur: "takes (Grp ''dur'' (plus not_comma)) c ((dec_text ip fp @ u) @ CHR '','' # x)
      ((''dur'', dec_text ip fp @ u) # c) (CHR '','' # x)" for x
    using duration_chars [OF d u] dec_text_nonempty [OF d]
    by (intro takes_Grp takes_plus) (auto simp: not_comma_def)
  have last: "takes (lit ''bytes'') (counter_caps ip fp u s r @ c) (''bytes'' @ t) (counter_caps ip fp u s r @ c) t"
    by (rule takes_lit)
  let ?tail = "'' '' @ ''Sent:'' @ '' '' @ show_nat s @ '' '' @ ''bytes,'' @ '' '' @ ''Received:'' @ '' ''
      @ show_nat r @ '' '' @ ''bytes'' @ t"
  have tail: "takes (seqs [lit '','', Star is_space,
     lit ''Sent:'', Star is_space, Grp ''sent'' (plus is_digit), Star is_space, lit ''bytes,'', Star is_space,
     lit ''Received:'', Star is_space, Grp ''recv'' (plus is_digit), Star is_space, lit ''bytes''])
    ((''dur'', dec_text ip fp @ u) # c) ('','' @ ?tail) (counter_caps ip fp u s r @ c) t"
    unfolding seqs.simps
    apply (rule step_lit, rule step_space, simp, rule step_lit)
    apply (rule step_space, rule disjI2, rule hd_show_nat_not_space, rule step_digits, simp)
    apply (rule step_space, simp, rule step_lit)
    apply (rule step_space, simp, rule step_lit)
    apply (rule step_space, rule disjI2, rule hd_show_nat_not_space, rule step_digits, simp)
    apply (rule step_space, simp)
    using last by (simp add: counter_caps_def)
  have "takes rx_counters c (''Duration:'' @ '' '' @ (dec_text ip fp @ u) @ CHR '','' # ?tail)
      (counter_caps ip fp u s r @ c) t"
    unfolding rx_counters_def seqs.simps
    apply (rule step_lit, rule step_space, rule disjI2)
     apply (simp only: append_assoc)
     apply (rule hd_dec_text_not_space [OF d])
    apply (rule takes_Seq [OF dur])
    using tail by simp
  then show ?thesis by (simp add: counters_text_def)
qed

lemma takes_protocol:
  assumes "proto \<noteq> []" and "\<forall>c \<in> set proto. not_comma c \<and> \<not> is_space c" and "t \<noteq> []" "\<not> is_space (hd t)"
  shows "takes rx_protocol c (''Protocol: '' @ proto @ '', '' @ t) c t"
proof -
  have p: "takes (plus not_comma) c (proto @ CHR '','' # '' '' @ t) c (CHR '','' # '' '' @ t)"
    using assms by (intro takes_plus) (auto simp: not_comma_def)
  have "takes (Seq (plus not_comma) (Seq (lit '','') (Star is_space))) c (proto @ CHR '','' # '' '' @ t) c t"
    apply (rule takes_Seq [OF p])
    using step_lit [of "Star is_space" c "'' '' @ t" c t "'',''"] takes_space [of t c] assms by simp
  moreover have "\<not> is_space (hd (proto @ CHR '','' # '' '' @ t))" using assms by (cases proto) auto
  ultimately have "takes rx_protocol c (''Protocol:'' @ '' '' @ proto @ CHR '','' # '' '' @ t) c t"
    unfolding rx_protocol_def seqs.simps
    by (intro step_lit step_space) simp_all
  then show ?thesis by simp
qed

section \<open>Client lines\<close>

lemma takes_client_plain:
  assumes "is_decimal ip fp" and "is_unit u"
  shows "takes rx_client [] (print_client ip fp u s r @ t) (counter_caps ip fp u s r) t"
proof -
  let ?b = "counters_text ip fp u s r @ t"
  have b: "?b = CHR ''D'' # drop 1 ?b" by (simp add: counters_text_def)
  have "fails rx_protocol ?b"
    unfolding rx_protocol_def seqs.simps by (rule fails_Seq, rule fails_lit) (simp, subst b, simp)
  then have "takes (Seq (opt rx_protocol) rx_counters) [] ?b (counter_caps ip fp u s r) t"
    using takes_counters [OF assms, of "[]"] unfolding opt_def
    by (auto intro: takes_Seq takes_Alt2 takes_Eps)
  then have "takes rx_client [] (''CLIENT METRICS'' @ '' '' @ ''->'' @ '' '' @ ?b) (counter_caps ip fp u s r) t"
    unfolding rx_client_def
    apply (intro step_lit step_space)
    apply (simp_all)
    by (subst b) simp
  then show ?thesis by (simp add: print_client_def)
qed

lemma takes_client_tagged:
  assumes "is_decimal ip fp" and "is_unit u"
    and "proto \<noteq> []" and "\<forall>c \<in> set proto. not_comma c \<and> \<not> is_space c"
  shows "takes rx_client [] (print_client_tagged proto ip fp u s r extra @ t)
    (counter_caps ip fp u s r) ('', '' @ extra @ t)"
proof -
  let ?b = "counters_text ip fp u s r @ '', '' @ extra @ t"
  have b: "?b = CHR ''D'' # drop 1 ?b" by (simp add: counters_text_def)
  have "?b \<noteq> []" "\<not> is_space (hd ?b)" by (subst b; simp)+
  then have "takes rx_protocol [] (''Protocol: '' @ proto @ '', '' @ ?b) [] ?b"
    using assms by (intro takes_protocol)
  then have "takes (Seq (opt rx_protocol) rx_counters) [] (''Protocol: '' @ proto @ '', '' @ ?b)
      (counter_caps ip fp u s r) ('', '' @ extra @ t)"
    using takes_counters [OF assms(1,2), of "[]"] unfolding opt_def
    by (auto intro: takes_Seq takes_Alt1)
  then have "takes rx_client [] (''CLIENT METRICS'' @ '' '' @ ''->'' @ '' '' @ ''Protocol: '' @ proto @ '', '' @ ?b)
      (counter_caps ip fp u s r) ('', '' @ extra @ t)"
    unfolding rx_client_def by (intro step_lit step_space) (simp_all add: is_space_def)
  then show ?thesis by (simp add: print_client_tagged_def)
qed


definition counted :: "client_metrics \<Rightarrow> real \<Rightarrow> nat \<Rightarrow> nat \<Rightarrow> bool" where
  "counted m ms s r \<longleftrightarrow> cm_auth_duration_ms m = Some (py_round ms 4)
     \<and> cm_auth_sent_bytes m = Some (int s) \<and> cm_auth_received_bytes m = Some (int r)"

lemma client_line_caps:
  assumes "is_decimal ip fp" and "is_unit u" and "takes rx_client [] l (counter_caps ip fp u s r) t"
  shows "\<exists>m'. client_line l m = Inr m' \<and> counted m' (dec_value ip fp * unit_ms u) s r"
proof -
  have "re_search rx_client l = Some ([], counter_caps ip fp u s r, t)"
    using assms(3) by (rule takes_re_search)
  then show ?thesis using parse_duration_printed [OF assms(1,2)]
    by (simp add: client_line_def counter_caps_def group_def int_res_def rounded_def counted_def)
qed

lemma re_search_lit_None: "\<not> is_infix p l \<Longrightarrow> re_search (Seq (lit p) r) l = None"
proof (rule ccontr)
  assume no: "\<not> is_infix p l" and "re_search (Seq (lit p) r) l \<noteq> None"
  then obtain u v w where "l = u @ v @ w" "v \<in> lang (Seq (lit p) r)" using re_search_iff by blast
  then obtain v' where "l = u @ p @ (v' @ w)" by (auto simp: lang_lit)
  then show False using no unfolding is_infix_iff by blast
qed

lemma client_line_other: "\<not> is_infix ''CLIENT METRICS'' l \<Longrightarrow> client_line l m = Inr m"
  using re_search_lit_None [of "''CLIENT METRICS''" l] by (simp only: client_line_def rx_client_def option.case not_False_eq_True simp_thms)

lemma client_lines_append:
  "client_lines (a @ b) m = bind_res (client_lines a m) (client_lines b)"
proof (induction a arbitrary: m)
  case (Cons l a)
  then show ?case by (cases "client_line l m") simp_all
qed simp

lemma client_lines_other:
  "\<forall>l \<in> set ls. \<not> is_infix ''CLIENT METRICS'' l \<Longrightarrow> client_lines ls m = Inr m"
  by (induction ls) (simp_all add: client_line_other del: is_infix.simps)

text \<open>C10: the Mininet parser reads the duration and byte counts of a client's metrics line in both
  formats the binaries print, wherever the line stands in the output.\<close>

theorem mininet_client_formats:
  assumes d: "is_decimal ip fp" and u: "is_unit u"
    and l: "l = print_client ip fp u s r
        \<or> (\<exists>proto extra. proto \<in> {''mTLS/TCP'', ''EDHOC/TCP''} \<and> l = print_client_tagged proto ip fp u s r extra)"
    and lines: "\<forall>x \<in> set (before @ l # after). line_text x"
    and others: "\<forall>x \<in> set (before @ after). \<not> is_infix ''CLIENT METRICS'' x"
  shows "\<exists>m. parse_client_metrics (unlines (before @ l # after)) = Inr m
    \<and> counted m (dec_value ip fp * unit_ms u) s r"
proof -
  have "\<exists>t. takes rx_client [] l (counter_caps ip fp u s r) t"
    using l takes_client_plain [OF d u, of s r "[]"]
  proof (elim disjE exE conjE)
    fix proto extra
    assume p: "proto \<in> {''mTLS/TCP'', ''EDHOC/TCP''}" and "l = print_client_tagged proto ip fp u s r extra"
    moreover from p have "proto \<noteq> []" "\<forall>c \<in> set proto. not_comma c \<and> \<not> is_space c"
      by (auto simp: not_comma_def is_space_def)
    ultimately show ?thesis using takes_client_tagged [OF d u, of proto s r extra "[]"] by auto
  qed auto
  then obtain m where m: "client_line l no_metrics = Inr m" "counted m (dec_value ip fp * unit_ms u) s r"
    using client_line_caps [OF d u] by blast
  have "splitlines (unlines (before @ l # after)) = before @ l # after"
    using splitlines_unlines [OF lines, of "[]"] by simp
  then have "parse_client_metrics (unlines (before @ l # after)) = Inr m"
    using others m(1) by (simp add: parse_client_metrics_def client_lines_append client_lines_other del: is_infix.simps)
  with m(2) show ?thesis by blast
qed

lemma mininet_client_formats_witness:
  "\<exists>m. parse_client_metrics (unlines ([''device ready''] @
       print_client_tagged ''mTLS/TCP'' ''5'' ''25'' ''ms'' 310 42 ''DeviceID: pi1'' # []))
     = Inr m \<and> counted m (dec_value ''5'' ''25'' * unit_ms ''ms'') 310 42"
proof -
  let ?l = "print_client_tagged ''mTLS/TCP'' ''5'' ''25'' ''ms'' 310 42 ''DeviceID: pi1''"
  have d: "is_decimal ''5'' ''25''" and u: "is_unit ''ms''" by (simp_all add: is_decimal_def is_unit_def)
  have "line_text ''DeviceID: pi1''" by (simp add: is_linebreak_def)
  then have "line_text ?l" using d u by (intro line_text_tagged) simp_all
  then have lines: "\<forall>x \<in> set ([''device ready''] @ ?l # []). line_text x"
    by (simp add: is_linebreak_def)
  have others: "\<forall>x \<in> set ([''device ready''] @ []). \<not> is_infix ''CLIENT METRICS'' x" by simp
  from d u _ lines others show ?thesis
    by (rule mininet_client_formats) blast
qed


section \<open>Server lines\<close>

definition print_server_tagged :: "string \<Rightarrow> string \<Rightarrow> string \<Rightarrow> string \<Rightarrow> string \<Rightarrow> nat \<Rightarrow> nat \<Rightarrow> string \<Rightarrow> string" where
  "print_server_tagged peer proto ip fp u s r extra =
     ''SERVER METRICS -> Peer: '' @ peer @ '', Protocol: '' @ proto @ '', '' @ counters_text ip fp u s r @ '', '' @ extra"

text \<open>The text of a peer address: an IPv4 or IPv6 socket address, in a \<open>Some(...)\<close> or not.\<close>

definition peer_addr_text :: "string \<Rightarrow> bool" where
  "peer_addr_text p \<longleftrightarrow> p \<noteq> [] \<and> (\<forall>c \<in> set p. not_comma c \<and> \<not> is_space c \<and> c \<noteq> DQUOTE \<and> c \<noteq> CHR ''P'')"

lemma star_lazy_commit:
  assumes "\<forall>x \<in> set u. P x" and "\<And>i. i < length u \<Longrightarrow> K (drop i u @ s) = None" and "K s = Some y"
  shows "star_lazy P (u @ s) K = Some y"
  using assms(1,2)
proof (induction u)
  case Nil
  then show ?case using assms(3) by (cases s) simp_all
next
  case (Cons x u)
  have "K (drop i u @ s) = None" if "i < length u" for i
    using Cons.prems(2) [of "Suc i"] that by simp
  with Cons have "star_lazy P (u @ s) K = Some y" by simp
  moreover have "K (x # u @ s) = None" using Cons.prems(2) [of 0] by simp
  ultimately show ?case using Cons.prems(1) by simp
qed

lemma takes_lazy_group:
  assumes "\<forall>y \<in> set (x # u). P y" and "\<And>i. i < length u \<Longrightarrow> fails b (drop i u @ s)"
    and "takes b ((n, x # u) # c) s c' t"
  shows "takes (Seq (Grp n (Seq (Cls P) (Lazy P))) b) c ((x # u) @ s) c' t"
  unfolding takes_def
proof (intro allI impI)
  fix k :: "caps \<Rightarrow> string \<Rightarrow> mres" and y
  assume k: "k c' t = Some y"
  let ?K = "\<lambda>s'. rmatch b ((n, take (Suc (length u + length s) - length s') (x # u @ s)) # c) s' k"
  have "rmatch b ((n, x # u) # c) s k = Some y"
    using assms(3) k unfolding takes_def by blast
  then have "?K s = Some y" by simp
  then have "star_lazy P (u @ s) ?K = Some y"
    using assms(1,2) by (intro star_lazy_commit) (auto simp: fails_def)
  then show "rmatch (Seq (Grp n (Seq (Cls P) (Lazy P))) b) c ((x # u) @ s) k = Some y"
    using assms(1) by simp
qed

lemma takes_server_head:
  "x \<noteq> [] \<Longrightarrow> \<not> is_space (hd x) \<Longrightarrow> takes rx_server_head [] (''SERVER METRICS -> '' @ x) [] x"
proof -
  assume x: "x \<noteq> []" "\<not> is_space (hd x)"
  have "takes rx_server_head [] (''SERVER METRICS'' @ '' '' @ ''->'' @ '' '' @ x) [] x"
    unfolding rx_server_head_def seqs.simps
    by (intro step_lit step_space takes_space) (use x in simp_all)
  then show ?thesis by simp
qed

lemma takes_server_plain:
  assumes "is_decimal ip fp" and "is_unit u" and p: "peer_addr_text p"
  shows "takes rx_server_plain [] (print_server p ip fp u s r @ t)
    (counter_caps ip fp u s r @ [(''peer'', p)]) t"
proof -
  obtain x q where q: "p = x # q" using p by (cases p) (auto simp: peer_addr_text_def)
  let ?s = "'' '' @ counters_text ip fp u s r @ t"
  have D: "counters_text ip fp u s r @ t = CHR ''D'' # drop 1 (counters_text ip fp u s r @ t)"
    by (simp add: counters_text_def)
  have "takes (plus is_space) c ?s c (counters_text ip fp u s r @ t)" for c
    by (intro takes_plus disjI2; (subst D)?) (simp_all add: is_space_def)
  then have b: "takes (Seq (plus is_space) rx_counters) [(''peer'', p)] ?s
      (counter_caps ip fp u s r @ [(''peer'', p)]) t"
    using takes_counters [OF assms(1,2)] by (rule takes_Seq)
  have f: "fails (Seq (plus is_space) rx_counters) (drop i q @ ?s)" if "i < length q" for i
  proof -
    have "drop i q = q ! i # drop (Suc i) q" using that by (rule Cons_nth_drop_Suc [symmetric])
    moreover have "q ! i \<in> set p" using that q by simp
    ultimately show ?thesis using p unfolding plus_def
      by (intro fails_Seq fails_Cls) (auto simp: peer_addr_text_def)
  qed
  have body: "takes (Seq (Grp ''peer'' (Seq (Cls not_comma) (Lazy not_comma))) (Seq (plus is_space) rx_counters))
      [] ((x # q) @ ?s) (counter_caps ip fp u s r @ [(''peer'', p)]) t"
    using p b f by (intro takes_lazy_group) (auto simp: q peer_addr_text_def)
  have "takes rx_server_head [] (''SERVER METRICS -> '' @ ((x # q) @ ?s)) [] ((x # q) @ ?s)"
    using p q by (intro takes_server_head) (auto simp: peer_addr_text_def)
  from takes_Seq [OF this body] show ?thesis
    unfolding rx_server_plain_def print_server_def q by (simp only: append_assoc append_Cons append_Nil)
qed

lemma takes_server_tagged:
  assumes "is_decimal ip fp" and "is_unit u" and p: "peer_addr_text p"
    and proto: "proto \<noteq> []" "\<forall>c \<in> set proto. not_comma c \<and> \<not> is_space c"
  shows "takes rx_server_tagged [] (print_server_tagged p proto ip fp u s r extra)
    (counter_caps ip fp u s r @ [(''peer'', p)]) ('', '' @ extra)"
proof -
  let ?b = "counters_text ip fp u s r @ '', '' @ extra"
  have D: "?b = CHR ''D'' # drop 1 ?b" by (simp add: counters_text_def)
  have "?b \<noteq> []" "\<not> is_space (hd ?b)" by (subst D; simp)+
  then have "takes rx_protocol c (''Protocol: '' @ proto @ '', '' @ ?b) c ?b" for c
    using proto by (intro takes_protocol)
  then have prot: "takes (Seq rx_protocol rx_counters) [(''peer'', p)] (''Protocol: '' @ proto @ '', '' @ ?b)
      (counter_caps ip fp u s r @ [(''peer'', p)]) ('', '' @ extra)"
    using takes_counters [OF assms(1,2)] by (rule takes_Seq)
  have grp: "takes (Grp ''peer'' (plus not_comma)) [] (p @ CHR '','' # x) [(''peer'', p)] (CHR '','' # x)" for x
    using p by (intro takes_Grp takes_plus) (auto simp: peer_addr_text_def not_comma_def)
  have rest: "takes (Seq (lit '','') (Seq (Star is_space) (Seq rx_protocol rx_counters)))
      [(''peer'', p)] ('','' @ '' '' @ ''Protocol: '' @ proto @ '', '' @ ?b)
      (counter_caps ip fp u s r @ [(''peer'', p)]) ('', '' @ extra)"
    using prot by (intro step_lit step_space) (simp_all add: is_space_def)
  have "takes (Seq (Grp ''peer'' (plus not_comma)) (Seq (lit '','') (Seq (Star is_space) (Seq rx_protocol rx_counters))))
      [] (p @ CHR '','' # '' '' @ ''Protocol: '' @ proto @ '', '' @ ?b)
      (counter_caps ip fp u s r @ [(''peer'', p)]) ('', '' @ extra)"
    by (rule takes_Seq [OF grp]) (use rest in \<open>simp only: append_Cons append_Nil\<close>)
  then have "takes (Seq (Grp ''peer'' (plus not_comma)) (Seq (lit '','') (Seq (Star is_space) (Seq rx_protocol rx_counters))))
      [] (p @ '', Protocol: '' @ proto @ '', '' @ ?b)
      (counter_caps ip fp u s r @ [(''peer'', p)]) ('', '' @ extra)"
    by (simp only: append_Cons append_Nil)
  moreover have "\<not> is_space (hd (p @ '', Protocol: '' @ proto @ '', '' @ ?b))"
    using p by (cases p) (auto simp: peer_addr_text_def)
  ultimately have "takes (Seq (lit ''Peer:'') (Seq (Star is_space) (Seq (Grp ''peer'' (plus not_comma))
      (Seq (lit '','') (Seq (Star is_space) (Seq rx_protocol rx_counters))))))
      [] (''Peer:'' @ '' '' @ p @ '', Protocol: '' @ proto @ '', '' @ ?b)
      (counter_caps ip fp u s r @ [(''peer'', p)]) ('', '' @ extra)"
    by (intro step_lit step_space) simp_all
  from takes_Seq [OF takes_server_head this]
  have "takes rx_server_tagged [] (''SERVER METRICS -> '' @ ''Peer:'' @ '' '' @ p @ '', Protocol: '' @ proto @ '', '' @ ?b)
      (counter_caps ip fp u s r @ [(''peer'', p)]) ('', '' @ extra)"
    unfolding rx_server_tagged_def by (simp add: is_space_def)
  then show ?thesis by (simp add: print_server_tagged_def)
qed


lemma starts_with_is_infix: "starts_with p l \<Longrightarrow> is_infix p l"
  by (cases l) (auto elim: starts_with.elims)

lemma lang_rx_server_tagged: "v \<in> lang rx_server_tagged \<Longrightarrow> is_infix ''Peer:'' v"
proof -
  assume "v \<in> lang rx_server_tagged"
  then obtain a b where "v = a @ ''Peer:'' @ b"
    unfolding rx_server_tagged_def lang.simps(5) lang_lit by blast
  then show ?thesis unfolding is_infix_iff by blast
qed

lemma server_tagged_None: "\<not> is_infix ''Peer:'' l \<Longrightarrow> re_search rx_server_tagged l = None"
proof (rule ccontr)
  assume no: "\<not> is_infix ''Peer:'' l" and "re_search rx_server_tagged l \<noteq> None"
  then obtain u v w where l: "l = u @ v @ w" "v \<in> lang rx_server_tagged" using re_search_iff by blast
  then obtain a b where "v = a @ ''Peer:'' @ b" using lang_rx_server_tagged is_infix_iff by blast
  then have "l = (u @ a) @ ''Peer:'' @ (b @ w)" using l(1) by simp
  then show False using no unfolding is_infix_iff by blast
qed

lemma no_P_server:
  assumes "is_decimal ip fp" and "is_unit u" and "peer_addr_text p"
  shows "\<not> is_infix ''Peer:'' (print_server p ip fp u s r)"
proof -
  have "CHR ''P'' \<notin> set (show_nat n)" for n using digits_show_nat [of n] by (auto simp: is_digit_def)
  moreover have "CHR ''P'' \<notin> set (dec_text ip fp)"
    using assms(1) by (auto simp: is_decimal_def dec_text_def list_all_iff is_digit_def)
  moreover have "CHR ''P'' \<notin> set u" using assms(2) by (auto simp: is_unit_def micro_s_def)
  moreover have "CHR ''P'' \<notin> set p" using assms(3) by (auto simp: peer_addr_text_def)
  ultimately have "CHR ''P'' \<notin> set (print_server p ip fp u s r)"
    by (simp add: print_server_def counters_text_def)
  then show ?thesis unfolding is_infix_iff by fastforce
qed

lemma strip_chars_none: "\<forall>c \<in> set s. c \<notin> set cs \<Longrightarrow> strip_chars cs s = s"
proof -
  have d: "dropWhile (\<lambda>c. c \<in> set cs) t = t" if "\<forall>c \<in> set t. c \<notin> set cs" for t
    using that by (cases t) auto
  assume "\<forall>c \<in> set s. c \<notin> set cs"
  then show ?thesis using d [of s] d [of "rev s"] by (simp add: strip_chars_def rstrip_chars_def)
qed

lemma parse_server_match:
  assumes "is_decimal ip fp" and "is_unit u" and "peer_addr_text p"
    and "is_infix ''SERVER METRICS ->'' l"
    and "server_match l = Some (counter_caps ip fp u s r @ [(''peer'', p)])"
  shows "\<exists>row. parse_server_metrics_line protocol l test_id workload i = Inr (Some row)
    \<and> sr_peer row = Some p \<and> sr_auth_duration_ms row = Some (py_round (dec_value ip fp * unit_ms u) 4)
    \<and> sr_sent_bytes row = Some (int s) \<and> sr_received_bytes row = Some (int r)
    \<and> sr_test_id row = test_id \<and> sr_workload row = workload \<and> sr_round_index row = i"
proof -
  have "strip p = p" using assms(3) by (intro strip_no_space) (auto simp: peer_addr_text_def)
  moreover have "strip_chars ''\"'' p = p" using assms(3) by (intro strip_chars_none) (auto simp: peer_addr_text_def)
  moreover have "group ''peer'' (counter_caps ip fp u s r @ [(''peer'', p)]) = p"
    "group ''dur'' (counter_caps ip fp u s r @ [(''peer'', p)]) = dec_text ip fp @ u"
    "int_res (group ''sent'' (counter_caps ip fp u s r @ [(''peer'', p)])) = Inr (int s)"
    "int_res (group ''recv'' (counter_caps ip fp u s r @ [(''peer'', p)])) = Inr (int r)"
    by (simp_all add: counter_caps_def group_def int_res_def)
  ultimately show ?thesis using assms(4,5) parse_duration_printed [OF assms(1,2)]
    by (simp add: parse_server_metrics_line_def rounded_def empty_server_metric_row_def del: is_infix.simps)
qed

lemma parse_server_formats:
  assumes d: "is_decimal ip fp" and u: "is_unit u" and p: "peer_addr_text p"
    and l: "l = print_server p ip fp u s r
      \<or> (\<exists>proto extra. proto \<in> {''mTLS/TCP'', ''EDHOC/TCP''} \<and> l = print_server_tagged p proto ip fp u s r extra)"
  shows "\<exists>row. parse_server_metrics_line protocol l test_id workload i = Inr (Some row)
    \<and> sr_peer row = Some p \<and> sr_auth_duration_ms row = Some (py_round (dec_value ip fp * unit_ms u) 4)
    \<and> sr_sent_bytes row = Some (int s) \<and> sr_received_bytes row = Some (int r)
    \<and> sr_test_id row = test_id \<and> sr_workload row = workload \<and> sr_round_index row = i"
proof -
  have "starts_with ''SERVER METRICS ->'' l"
    using l by (auto simp: print_server_def print_server_tagged_def)
  then have "is_infix ''SERVER METRICS ->'' l" by (rule starts_with_is_infix)
  moreover have "server_match l = Some (counter_caps ip fp u s r @ [(''peer'', p)])"
    using l
  proof (elim disjE exE conjE)
    assume l: "l = print_server p ip fp u s r"
    have "re_search rx_server_tagged l = None"
      unfolding l using no_P_server [OF d u p] by (rule server_tagged_None)
    moreover have "re_search rx_server_plain l = Some ([], counter_caps ip fp u s r @ [(''peer'', p)], [])"
      using takes_re_search [OF takes_server_plain [OF d u p, of s r "[]"]] l by simp
    ultimately show ?thesis by (simp add: server_match_def)
  next
    fix proto extra
    assume proto: "proto \<in> {''mTLS/TCP'', ''EDHOC/TCP''}" and l: "l = print_server_tagged p proto ip fp u s r extra"
    from proto have "proto \<noteq> []" "\<forall>c \<in> set proto. not_comma c \<and> \<not> is_space c"
      by (auto simp: not_comma_def is_space_def)
    from takes_re_search [OF takes_server_tagged [OF d u p this, of s r extra]]
    show ?thesis by (simp add: server_match_def l)
  qed
  ultimately show ?thesis using d u p by (intro parse_server_match)
qed

text \<open>A server's metrics line in either format is parsed to a row with its peer, duration and
  byte counts and the place of the run it was collected for.\<close>

lemma mininet_server_formats:
  assumes "is_decimal ip fp" and "is_unit u" and "peer_addr_text p"
    and "l = print_server p ip fp u s r
      \<or> (\<exists>proto extra. proto \<in> {''mTLS/TCP'', ''EDHOC/TCP''} \<and> l = print_server_tagged p proto ip fp u s r extra)"
  shows "\<exists>row. parse_server_metrics_line protocol l test_id workload i = Inr (Some row)
    \<and> sr_peer row = Some p \<and> sr_auth_duration_ms row = Some (py_round (dec_value ip fp * unit_ms u) 4)
    \<and> sr_sent_bytes row = Some (int s) \<and> sr_received_bytes row = Some (int r)
    \<and> sr_test_id row = test_id \<and> sr_workload row = workload \<and> sr_round_index row = i"
  using assms by (rule parse_server_formats)

lemma mininet_server_formats_witness:
  "\<exists>row. parse_server_metrics_line ''zkarche'' (print_server ''Some(10.0.0.2:41234)'' ''900'' [] ''us'' 7 11) ''3'' ''high_load'' 4
      = Inr (Some row)
    \<and> sr_peer row = Some ''Some(10.0.0.2:41234)'' \<and> sr_auth_duration_ms row = Some (py_round (dec_value ''900'' [] * unit_ms ''us'') 4)
    \<and> sr_sent_bytes row = Some (int 7) \<and> sr_received_bytes row = Some (int 11)
    \<and> sr_test_id row = ''3'' \<and> sr_workload row = ''high_load'' \<and> sr_round_index row = 4"
proof -
  have "is_decimal ''900'' []" "is_unit ''us''" "peer_addr_text ''Some(10.0.0.2:41234)''"
    by (simp_all add: is_decimal_def is_unit_def peer_addr_text_def not_comma_def is_space_def)
  then show ?thesis by (rule mininet_server_formats) blast
qed

section \<open>The server log\<close>

definition line_row :: "string \<Rightarrow> string \<Rightarrow> string \<Rightarrow> int \<Rightarrow> string \<Rightarrow> server_row list" where
  "line_row protocol test_id workload i l = (case parse_server_metrics_line protocol l test_id workload i of
       Inr (Some x) \<Rightarrow> if sr_auth_duration_ms x \<noteq> None then [x] else []
     | _ \<Rightarrow> [])"

definition readable :: "string \<Rightarrow> string \<Rightarrow> bool" where
  "readable protocol l \<longleftrightarrow> line_text l \<and>
     (\<forall>test_id workload i. \<exists>r. parse_server_metrics_line protocol l test_id workload i = Inr r)"

lemma server_rows_of_readable:
  "\<forall>l \<in> set ls. readable protocol l
   \<Longrightarrow> server_rows_of protocol ls test_id workload i = Inr (concat (map (line_row protocol test_id workload i) ls))"
proof (induction ls)
  case (Cons l ls)
  then obtain r where "parse_server_metrics_line protocol l test_id workload i = Inr r"
    unfolding readable_def by (metis list.set_intros(1))
  with Cons show ?case by (auto simp: line_row_def split: option.splits)
qed simp

lemma collect_whole_lines:
  assumes "\<forall>l \<in> set (old @ new). readable protocol l"
  shows "collect_server_metrics protocol (unlines (old @ new)) test_id workload i (length old)
    = (Inr (concat (map (line_row protocol test_id workload i) new)), length (old @ new))"
proof -
  have "splitlines (unlines (old @ new)) = old @ new"
    using splitlines_unlines [of "old @ new" "[]"] assms by (simp add: readable_def)
  moreover have "\<forall>l \<in> set new. readable protocol l" using assms by simp
  ultimately show ?thesis
    by (simp add: collect_server_metrics_def parse_server_metrics_log_def server_rows_of_readable)
qed

text \<open>The rounds of a test: after each, the log is read once more. \<open>batches\<close> are the lines each
  round added to it.\<close>

fun collect_rounds :: "string \<Rightarrow> string list \<Rightarrow> string \<Rightarrow> string \<Rightarrow> int \<Rightarrow> (nat, server_row list) eff" where
  "collect_rounds protocol [] test_id workload i = ret []"
| "collect_rounds protocol (output # outputs) test_id workload i =
     andthen (collect_server_metrics protocol output test_id workload i) (\<lambda>rows.
     andthen (collect_rounds protocol outputs test_id workload (i + 1)) (\<lambda>more. ret (rows @ more)))"

fun log_snapshots :: "string list \<Rightarrow> string list list \<Rightarrow> string list" where
  "log_snapshots old [] = []"
| "log_snapshots old (b # bs) = unlines (old @ b) # log_snapshots (old @ b) bs"

fun round_rows :: "string \<Rightarrow> string \<Rightarrow> string \<Rightarrow> int \<Rightarrow> string list list \<Rightarrow> server_row list" where
  "round_rows protocol test_id workload i [] = []"
| "round_rows protocol test_id workload i (b # bs) =
     concat (map (line_row protocol test_id workload i) b) @ round_rows protocol test_id workload (i + 1) bs"

text \<open>C5: reading the server log after every round, at lines' ends, gives each line's row exactly
  once, under the round that wrote the line.\<close>

theorem collect_each_line_once:
  assumes "\<forall>l \<in> set (old @ concat batches). readable protocol l"
  shows "collect_rounds protocol (log_snapshots old batches) test_id workload i (length old)
    = (Inr (round_rows protocol test_id workload i batches), length (old @ concat batches))"
  using assms
proof (induction batches arbitrary: old i)
  case Nil
  then show ?case by simp
next
  case (Cons b bs)
  have "collect_server_metrics protocol (unlines (old @ b)) test_id workload i (length old)
      = (Inr (concat (map (line_row protocol test_id workload i) b)), length (old @ b))"
    using Cons.prems by (intro collect_whole_lines) auto
  moreover have "collect_rounds protocol (log_snapshots (old @ b) bs) test_id workload (i + 1) (length (old @ b))
      = (Inr (round_rows protocol test_id workload (i + 1) bs), length ((old @ b) @ concat bs))"
    using Cons.prems by (intro Cons.IH) auto
  ultimately show ?case by (simp add: andthen_Inr)
qed

lemma readable_other: "line_text l \<Longrightarrow> \<not> is_infix ''SERVER METRICS ->'' l \<Longrightarrow> readable protocol l"
  by (simp add: readable_def parse_server_metrics_line_def del: is_infix.simps)

lemma readable_plain:
  assumes "is_decimal ip fp" "is_unit u" "peer_addr_text p" "line_text p"
  shows "readable protocol (print_server p ip fp u s r)"
proof -
  have "line_text (show_nat n)" for n using digits_show_nat by (rule line_text_digits)
  moreover have "line_text (dec_text ip fp)"
    using assms(1) by (auto simp: is_decimal_def dec_text_def list_all_iff is_linebreak_def line_text_digits)
  moreover have "line_text u" using assms(2) by (auto simp: is_unit_def micro_s_def is_linebreak_def)
  ultimately have "line_text (print_server p ip fp u s r)" using assms(4)
    by (simp add: print_server_def counters_text_def is_linebreak_def)
  then show ?thesis unfolding readable_def
    using parse_server_formats [OF assms(1-3), of "print_server p ip fp u s r" s r] by blast
qed

lemma collect_each_line_once_witness:
  "collect_rounds ''zkarche'' (log_snapshots [''listening'']
      [[print_server ''10.0.0.2:41234'' ''900'' [] ''us'' 7 11], [''warning'', print_server ''10.0.0.3:41235'' ''1'' ''5'' ''ms'' 7 11]])
      ''3'' ''high_load'' 1 (length [''listening''])
    = (Inr (round_rows ''zkarche'' ''3'' ''high_load'' 1
        [[print_server ''10.0.0.2:41234'' ''900'' [] ''us'' 7 11], [''warning'', print_server ''10.0.0.3:41235'' ''1'' ''5'' ''ms'' 7 11]]),
       length ([''listening''] @ concat
        [[print_server ''10.0.0.2:41234'' ''900'' [] ''us'' 7 11], [''warning'', print_server ''10.0.0.3:41235'' ''1'' ''5'' ''ms'' 7 11]]))"
proof -
  have "readable ''zkarche'' (print_server ''10.0.0.2:41234'' ''900'' [] ''us'' 7 11)"
    by (rule readable_plain) (simp_all add: is_decimal_def is_unit_def peer_addr_text_def not_comma_def is_space_def is_linebreak_def)
  moreover have "readable ''zkarche'' (print_server ''10.0.0.3:41235'' ''1'' ''5'' ''ms'' 7 11)"
    by (rule readable_plain) (simp_all add: is_decimal_def is_unit_def peer_addr_text_def not_comma_def is_space_def is_linebreak_def)
  moreover have "readable ''zkarche'' ''listening''" "readable ''zkarche'' ''warning''"
    by (rule readable_other; simp add: is_linebreak_def)+
  ultimately show ?thesis by (intro collect_each_line_once) simp
qed

text \<open>A line the log ends in the middle of is counted as read, so its rest is never looked at.\<close>

lemma splitlines_partial: "line_text a \<Longrightarrow> a \<noteq> [] \<Longrightarrow> splitlines a = [a]"
proof -
  have "splitlines_acc acc a = [rev acc @ a]" if "line_text a" "a \<noteq> [] \<or> acc \<noteq> []" for acc
    using that
  proof (induction a arbitrary: acc)
    case (Cons c a)
    then have "c \<noteq> CHR 0x0D" "\<not> is_linebreak c" "line_text a" by (auto simp: is_linebreak_def)
    with Cons.IH [of "c # acc"] show ?case by simp
  qed simp
  then show "line_text a \<Longrightarrow> a \<noteq> [] \<Longrightarrow> splitlines a = [a]" by (simp add: splitlines_def)
qed

text \<open>When a read ends inside a line, the line is counted as read: neither this read nor the
  next gives a row for it, although the whole line is a metrics line.\<close>

lemma partial_log_line_lost:
  assumes "\<forall>l \<in> set (old @ [a, a @ b]). readable protocol l" and "a \<noteq> []"
    and "\<forall>i. line_row protocol test_id workload i a = []"
  shows "\<exists>offset. collect_server_metrics protocol (unlines old @ a) test_id workload i (length old) = (Inr [], offset)
    \<and> collect_server_metrics protocol (unlines (old @ [a @ b])) test_id workload j offset = (Inr [], length (old @ [a @ b]))"
proof -
  have a: "line_text a" using assms(1) by (simp add: readable_def)
  have "splitlines (unlines old @ a) = old @ [a]"
    using splitlines_unlines [of old a] assms(1) splitlines_partial [OF a assms(2)] by (simp add: readable_def)
  then have 1: "collect_server_metrics protocol (unlines old @ a) test_id workload i (length old) = (Inr [], Suc (length old))"
    using assms server_rows_of_readable [of "[a]" protocol test_id workload i]
    by (simp add: collect_server_metrics_def parse_server_metrics_log_def)
  have "collect_server_metrics protocol (unlines (old @ [a @ b])) test_id workload j (Suc (length old)) = (Inr [], length (old @ [a @ b]))"
    using collect_whole_lines [of "old @ [a @ b]" "[]" protocol test_id workload j] assms(1) by simp
  with 1 show ?thesis by blast
qed

lemma partial_log_line_lost_witness:
  "\<exists>offset. collect_server_metrics ''zkarche'' (unlines [''listening''] @ ''SERVER METRICS -> 10.0.0.2:41234'') ''2'' ''sequential'' 1 (length [''listening''])
      = (Inr [], offset)
    \<and> collect_server_metrics ''zkarche'' (unlines ([''listening''] @ [''SERVER METRICS -> 10.0.0.2:41234'' @ '' Duration: 900us, Sent: 7 bytes, Received: 11 bytes'']))
        ''2'' ''sequential'' 2 offset
      = (Inr [], length ([''listening''] @ [''SERVER METRICS -> 10.0.0.2:41234'' @ '' Duration: 900us, Sent: 7 bytes, Received: 11 bytes'']))"
proof -
  let ?a = "''SERVER METRICS -> 10.0.0.2:41234''"
  have n: "server_match ?a = None" by code_simp
  have "readable ''zkarche'' (print_server ''10.0.0.2:41234'' ''900'' [] ''us'' 7 11)"
    by (rule readable_plain) (simp_all add: is_decimal_def is_unit_def peer_addr_text_def not_comma_def is_space_def is_linebreak_def)
  then have "readable ''zkarche'' (?a @ '' Duration: 900us, Sent: 7 bytes, Received: 11 bytes'')"
    by (simp add: print_server_def counters_text_def dec_text_def show_nat.simps)
  moreover have "readable ''zkarche'' ''listening''"
    by (rule readable_other; simp add: is_linebreak_def)
  moreover have "readable ''zkarche'' ?a" using n
    by (simp add: readable_def parse_server_metrics_line_def is_linebreak_def del: is_infix.simps)
  moreover have "\<forall>i. line_row ''zkarche'' ''2'' ''sequential'' i ?a = []"
    using n by (simp add: line_row_def parse_server_metrics_line_def del: is_infix.simps)
  ultimately show ?thesis by (intro partial_log_line_lost) (simp_all del: append.simps)
qed

section \<open>Exit status\<close>

lemma drop_rc_skip:
  assumes "\<And>i. i < length u \<Longrightarrow> fails rx_rc (drop i u @ s)"
  shows "drop_rc (u @ s) = u @ drop_rc s"
  using assms
proof (induction u)
  case Nil
  then show ?case by simp
next
  case (Cons x u)
  have "fails rx_rc (drop i u @ s)" if "i < length u" for i
    using Cons.prems [of "Suc i"] that by simp
  then have "drop_rc (u @ s) = u @ drop_rc s" by (intro Cons.IH)
  moreover have "re_match rx_rc (x # u @ s) = None"
    using Cons.prems [of 0] by (simp add: fails_def re_match_def)
  ultimately show ?case by (simp add: drop_rc.simps [of "x # u @ s"])
qed

lemma takes_rc: "takes rx_rc [] (''__RC_'' @ show_nat n @ ''__'' @ t) [(''1'', show_nat n)] t"
  unfolding rx_rc_def seqs.simps
  by (intro step_lit step_digits takes_lit) simp

lemma rc_not_before:
  assumes "\<not> is_infix ''__RC_'' out" and "i < length out"
  shows "fails rx_rc (drop i out @ ''__RC_'' @ t)"
proof (rule fails_lang)
  fix u v
  assume eq: "drop i out @ ''__RC_'' @ t = u @ v"
  show "u \<notin> lang rx_rc"
  proof
    assume "u \<in> lang rx_rc"
    then obtain d ds w where u: "u = ''__RC_'' @ d # ds @ w" "is_digit d"
      unfolding rx_rc_def seqs.simps lang.simps(5,7) lang_lit lang_plus
      by (auto simp: neq_Nil_conv)
    obtain x y where xy: "drop i out = x # y" using assms(2) by (cases "drop i out") auto
    have no: "drop i out \<noteq> ''__RC_'' @ z" for z
    proof
      assume "drop i out = ''__RC_'' @ z"
      then have "out = take i out @ ''__RC_'' @ z" by (metis append_take_drop_id)
      then show False using assms(1) unfolding is_infix_iff by blast
    qed
    from eq u xy no show False
      by (auto simp: Cons_eq_append_conv append_eq_Cons_conv)
  qed
qed


lemma strip_LF: "strip (s @ [LF]) = strip s"
proof (cases "\<forall>c \<in> set s. is_space c")
  case True
  then have "dropWhile is_space s = []" "dropWhile is_space (s @ [LF]) = []"
    by (auto simp: dropWhile_eq_Nil_conv)
  then show ?thesis by (simp only: strip_def lstrip_def)
next
  case False
  then have "dropWhile is_space (s @ [LF]) = dropWhile is_space s @ [LF]"
    by (auto simp: dropWhile_append)
  then show ?thesis by (simp add: strip_def lstrip_def rstrip_def)
qed

lemma drop_rc_done: "t = [] \<or> t = [LF] \<Longrightarrow> drop_rc (''__RC_'' @ show_nat n @ ''__'' @ t) = t"
proof -
  assume t: "t = [] \<or> t = [LF]"
  have "re_match rx_rc (''__RC_'' @ show_nat n @ ''__'' @ t) = Some ([(''1'', show_nat n)], t)"
    using takes_rc by (rule takes_re_match)
  moreover have "drop_rc t = t"
  proof -
    have "re_match rx_rc [LF] = None" by code_simp
    then show ?thesis using t by (auto simp: drop_rc.simps [of "[LF]"] drop_rc.simps [of "[]"])
  qed
  ultimately show ?thesis by (simp add: drop_rc.simps [of "CHR ''_'' # _"])
qed

lemma parse_rc_output_wrapped:
  assumes "\<not> is_infix ''__RC_'' out" and t: "t = [] \<or> t = [LF]"
  shows "parse_rc_output (out @ ''__RC_'' @ show_nat n @ ''__'' @ t) = Inr (int n, strip out)"
proof -
  let ?t = "show_nat n @ ''__'' @ t"
  have skip: "fails rx_rc (drop i out @ ''__RC_'' @ ?t)" if "i < length out" for i
    using assms(1) that by (rule rc_not_before)
  have "re_search rx_rc (''__RC_'' @ ?t) = Some ([], [(''1'', show_nat n)], t)"
    using takes_rc by (rule takes_re_search)
  from re_search_skip [OF skip this]
  have "re_search rx_rc (out @ ''__RC_'' @ ?t) = Some (out, [(''1'', show_nat n)], t)" by simp
  moreover have "drop_rc (out @ ''__RC_'' @ ?t) = out @ t"
    using drop_rc_skip [OF skip] drop_rc_done [OF t, of n] by simp
  moreover have "strip (out @ t) = strip out" using t strip_LF by auto
  ultimately show ?thesis by (simp add: parse_rc_output_def group_def int_res_def Let_def)
qed

text \<open>\<open>host_cmd_with_status\<close> strips the text before it looks for the status.\<close>

lemma host_cmd_wrapped:
  assumes "\<not> is_infix ''__RC_'' out"
  shows "host_cmd_with_status (out @ ''__RC_'' @ show_nat n @ ''__'' @ [LF]) = Inr (int n, strip out)"
proof -
  let ?w = "dropWhile is_space out"
  have "out = takeWhile is_space out @ ?w" by simp
  then have no: "\<not> is_infix ''__RC_'' ?w" using assms unfolding is_infix_iff by (metis append_assoc)
  have "dropWhile is_space (out @ ''__RC_'' @ u) = ?w @ ''__RC_'' @ u" for u
    by (simp add: dropWhile_append)
  then have "strip (out @ ''__RC_'' @ show_nat n @ ''__'' @ [LF]) = ?w @ ''__RC_'' @ show_nat n @ ''__'' @ []"
    by (simp add: strip_def lstrip_def rstrip_def)
  moreover have "strip ?w = strip out" by (simp add: strip_def lstrip_def)
  ultimately show ?thesis using parse_rc_output_wrapped [OF no, of "[]" n]
    by (simp add: host_cmd_with_status_def)
qed

text \<open>The exit status the shell wrapper appends is recovered, and the command's own output is
  returned stripped, for every output that does not itself hold the marker.\<close>

lemma rc_output_roundtrip:
  assumes "\<not> is_infix ''__RC_'' out"
  shows "parse_rc_output (out @ ''__RC_'' @ show_nat n @ ''__'' @ [LF]) = Inr (int n, strip out)"
  using assms by (rule parse_rc_output_wrapped) simp

lemma rc_output_roundtrip_witness:
  "parse_rc_output (''CLIENT __R '' @ ''__RC_'' @ show_nat 137 @ ''__'' @ [LF]) = Inr (int 137, strip ''CLIENT __R '')"
  by (rule rc_output_roundtrip) simp

end
