(* ===== verification/MininetNet.thy ===== *)
theory MininetNet
  imports PyFloat
begin

text \<open>
  The emulated testbed of \<open>experiments/mininet/mininet_tests_123.py\<close>: the device and traffic
  profiles, the random assignment of a device, an address, a gateway and link parameters to
  every client, the topology \<open>build_network\<close> asks Mininet for, and the background flows
  started on it. Mininet and iperf are not modelled: a network is the nodes and links
  requested, in order, and a flow is its host and its command's parameters. Link delays and jitters are
  the numbers of milliseconds inside the texts handed to Mininet.
\<close>

section \<open>Randomness\<close>

text \<open>The module-level generator: the numbers in [0, 1) that \<open>random()\<close> will return.
  \<open>choice\<close> takes an element by its share of the interval.\<close>

type_synonym rng = "nat \<Rightarrow> real"

definition unit_draws :: "rng \<Rightarrow> bool" where
  "unit_draws g \<longleftrightarrow> (\<forall>n. 0 \<le> g n \<and> g n < 1)"

definition draw :: "rng \<Rightarrow> real \<times> rng" where
  "draw g = (g 0, \<lambda>n. g (Suc n))"

definition uniform :: "real \<Rightarrow> real \<Rightarrow> rng \<Rightarrow> real \<times> rng" where
  "uniform lo hi g = (case draw g of (u, g') \<Rightarrow> (lo + (hi - lo) * u, g'))"

definition choice :: "'a list \<Rightarrow> rng \<Rightarrow> 'a \<times> rng" where
  "choice xs g = (case draw g of (u, g') \<Rightarrow> (xs ! nat \<lfloor>u * real (length xs)\<rfloor>, g'))"

text \<open>\<open>choices(names, weights, k=1)\<close>: the first name whose cumulative weight exceeds the draw
  scaled to the total, and the last name at the latest.\<close>

fun pick_weighted :: "real \<Rightarrow> real \<Rightarrow> (string \<times> real) list \<Rightarrow> string" where
  "pick_weighted acc x [] = []"
| "pick_weighted acc x ((name, w) # rest) =
     (if x < acc + w \<or> rest = [] then name else pick_weighted (acc + w) x rest)"

section \<open>Profiles\<close>

definition SERVER_IP :: string where
  "SERVER_IP = ''10.0.0.1''"

record link_profile =
  lp_weight :: real
  lp_bw_mbps :: nat
  lp_delay_ms_range :: "real \<times> real"
  lp_jitter_ms_range :: "real \<times> real"
  lp_loss_percent_range :: "real \<times> real"
  lp_traffic_role :: "string option"

definition DEVICE_PROFILES :: "(string \<times> link_profile) list" where
  "DEVICE_PROFILES =
    [(''Raspberry Pi 3B+'', \<lparr>lp_weight = 0.34, lp_bw_mbps = 100, lp_delay_ms_range = (12, 45),
        lp_jitter_ms_range = (2, 8), lp_loss_percent_range = (0, 1.5), lp_traffic_role = None\<rparr>),
     (''Raspberry Pi 4'', \<lparr>lp_weight = 0.33, lp_bw_mbps = 100, lp_delay_ms_range = (8, 32),
        lp_jitter_ms_range = (1, 6), lp_loss_percent_range = (0, 1), lp_traffic_role = None\<rparr>),
     (''Raspberry Pi 5'', \<lparr>lp_weight = 0.33, lp_bw_mbps = 100, lp_delay_ms_range = (4, 22),
        lp_jitter_ms_range = (1, 4), lp_loss_percent_range = (0, 0.6), lp_traffic_role = None\<rparr>)]"

definition HETEROGENEOUS_IOT_PROFILES :: "(string \<times> link_profile) list" where
  "HETEROGENEOUS_IOT_PROFILES =
    [(''ESP32 sensor'', \<lparr>lp_weight = 0.24, lp_bw_mbps = 10, lp_delay_ms_range = (25, 95),
        lp_jitter_ms_range = (4, 18), lp_loss_percent_range = (0.2, 3), lp_traffic_role = Some ''telemetry''\<rparr>),
     (''Raspberry Pi 3B+'', \<lparr>lp_weight = 0.22, lp_bw_mbps = 100, lp_delay_ms_range = (12, 45),
        lp_jitter_ms_range = (2, 8), lp_loss_percent_range = (0, 1.5), lp_traffic_role = Some ''edge_node''\<rparr>),
     (''Raspberry Pi 4'', \<lparr>lp_weight = 0.20, lp_bw_mbps = 100, lp_delay_ms_range = (8, 32),
        lp_jitter_ms_range = (1, 6), lp_loss_percent_range = (0, 1), lp_traffic_role = Some ''edge_node''\<rparr>),
     (''Smart camera'', \<lparr>lp_weight = 0.14, lp_bw_mbps = 25, lp_delay_ms_range = (10, 40),
        lp_jitter_ms_range = (2, 12), lp_loss_percent_range = (0, 2), lp_traffic_role = Some ''video''\<rparr>),
     (''Smart meter'', \<lparr>lp_weight = 0.12, lp_bw_mbps = 5, lp_delay_ms_range = (35, 120),
        lp_jitter_ms_range = (6, 25), lp_loss_percent_range = (0.2, 4), lp_traffic_role = Some ''low_rate''\<rparr>),
     (''Industrial gateway'', \<lparr>lp_weight = 0.08, lp_bw_mbps = 100, lp_delay_ms_range = (5, 25),
        lp_jitter_ms_range = (1, 5), lp_loss_percent_range = (0, 0.8), lp_traffic_role = Some ''gateway''\<rparr>)]"

definition selected_device_profiles :: "string \<Rightarrow> (string \<times> link_profile) list" where
  "selected_device_profiles device_mix =
     (if device_mix = ''heterogeneous-iot'' then HETEROGENEOUS_IOT_PROFILES else DEVICE_PROFILES)"

definition weighted_random_device :: "string \<Rightarrow> rng \<Rightarrow> string \<times> rng" where
  "weighted_random_device device_mix g =
     (let weights = map (\<lambda>(n, p). (n, lp_weight p)) (selected_device_profiles device_mix) in
      case draw g of (u, g') \<Rightarrow> (pick_weighted 0 (u * sum_list (map snd weights)) weights, g'))"

definition rand_range :: "real \<times> real \<Rightarrow> rng \<Rightarrow> real \<times> rng" where
  "rand_range r g = (case uniform (fst r) (snd r) g of (x, g') \<Rightarrow> (py_round x 4, g'))"

section \<open>Client assignments\<close>

text \<open>The enrollment metrics are absent until \<open>prepare_zkarche_state\<close> stores them.\<close>

record assignment =
  a_client_index :: nat
  a_client_host :: string
  a_client_ip :: string
  a_client_type :: string
  a_traffic_role :: string
  a_gateway_index :: nat
  a_gateway_name :: string
  a_bw_mbps :: nat
  a_network_delay_ms :: real
  a_network_jitter_ms :: real
  a_packet_loss_percent :: real
  a_client_workdir :: string
  a_setup_duration_ms :: "real option"
  a_setup_sent_bytes :: "int option"
  a_setup_received_bytes :: "int option"
  a_setup_wall_elapsed_ms :: "real option"
  a_server_setup_duration_ms :: "real option"
  a_server_setup_sent_bytes :: "int option"
  a_server_setup_received_bytes :: "int option"

definition client_addr :: "nat \<Rightarrow> string" where
  "client_addr octet = ''10.0.0.'' @ show_nat octet"

definition assign_one :: "string \<Rightarrow> string \<Rightarrow> int \<Rightarrow> nat \<Rightarrow> rng \<Rightarrow> assignment res \<times> rng" where
  "assign_one clients_dir device_mix gateway_count i g =
     (case weighted_random_device device_mix g of (dtype, g1) \<Rightarrow>
      case map_of (selected_device_profiles device_mix) dtype of
        None \<Rightarrow> (Inl (KeyError dtype), g1)
      | Some p \<Rightarrow>
          (let gw = nat ((int i - 1) mod max 1 gateway_count + 1) in
           case rand_range (lp_delay_ms_range p) g1 of (delay, g2) \<Rightarrow>
           case rand_range (lp_jitter_ms_range p) g2 of (jitter, g3) \<Rightarrow>
           case rand_range (lp_loss_percent_range p) g3 of (loss, g4) \<Rightarrow>
             (Inr \<lparr>a_client_index = i, a_client_host = ''pi'' @ show_nat i,
                a_client_ip = client_addr (i + 1), a_client_type = dtype,
                a_traffic_role = (case lp_traffic_role p of Some r \<Rightarrow> r | None \<Rightarrow> ''auth_client''),
                a_gateway_index = gw, a_gateway_name = ''edge'' @ show_nat gw,
                a_bw_mbps = lp_bw_mbps p, a_network_delay_ms = delay, a_network_jitter_ms = jitter,
                a_packet_loss_percent = loss,
                a_client_workdir = clients_dir @ ''/pi'' @ show_nat i,
                a_setup_duration_ms = None, a_setup_sent_bytes = None, a_setup_received_bytes = None,
                a_setup_wall_elapsed_ms = None, a_server_setup_duration_ms = None,
                a_server_setup_sent_bytes = None, a_server_setup_received_bytes = None\<rparr>, g4)))"

text \<open>\<open>for i in range(first, first + n)\<close>.\<close>

fun assign_from :: "string \<Rightarrow> string \<Rightarrow> int \<Rightarrow> nat \<Rightarrow> nat \<Rightarrow> (rng, assignment list) eff" where
  "assign_from clients_dir device_mix gateway_count i 0 = ret []"
| "assign_from clients_dir device_mix gateway_count i (Suc n) =
     andthen (assign_one clients_dir device_mix gateway_count i) (\<lambda>a.
     andthen (assign_from clients_dir device_mix gateway_count (Suc i) n) (\<lambda>more. ret (a # more)))"

definition make_assignments :: "nat \<Rightarrow> string \<Rightarrow> string \<Rightarrow> int \<Rightarrow> (rng, assignment list) eff" where
  "make_assignments num_clients clients_dir device_mix gateway_count =
     assign_from clients_dir device_mix gateway_count 1 num_clients"

section \<open>The topology\<close>

record link =
  l_node :: string
  l_to :: string
  l_bw :: nat
  l_delay_ms :: real
  l_jitter_ms :: real
  l_loss :: real

record network =
  n_switches :: "string list"
  n_hosts :: "(string \<times> string) list"
  n_links :: "link list"
  n_background_hosts :: "string list"

definition empty_net :: network where
  "empty_net = \<lparr>n_switches = [], n_hosts = [], n_links = [], n_background_hosts = []\<rparr>"

definition add_switch :: "string \<Rightarrow> network \<Rightarrow> network" where
  "add_switch name net = net\<lparr>n_switches := n_switches net @ [name]\<rparr>"

definition add_host :: "string \<Rightarrow> string \<Rightarrow> network \<Rightarrow> network" where
  "add_host name addr net = net\<lparr>n_hosts := n_hosts net @ [(name, addr @ ''/24'')]\<rparr>"

definition add_link :: "string \<Rightarrow> string \<Rightarrow> nat \<Rightarrow> real \<Rightarrow> real \<Rightarrow> real \<Rightarrow> network \<Rightarrow> network" where
  "add_link a b bw delay jitter loss net = net\<lparr>n_links := n_links net @
     [\<lparr>l_node = a, l_to = b, l_bw = bw, l_delay_ms = delay, l_jitter_ms = jitter, l_loss = loss\<rparr>]\<rparr>"

definition add_client :: "string \<Rightarrow> assignment \<Rightarrow> network \<Rightarrow> network" where
  "add_client switch a net =
     add_link (a_client_host a) switch (a_bw_mbps a) (a_network_delay_ms a) (a_network_jitter_ms a)
       (a_packet_loss_percent a) (add_host (a_client_host a) (a_client_ip a) net)"

definition simple_network :: "assignment list \<Rightarrow> network" where
  "simple_network assignments =
     fold (add_client ''s1'') assignments
       (add_link ''server'' ''s1'' 1000 1 0.2 0 (add_host ''server'' SERVER_IP (add_switch ''s1'' empty_net)))"

definition edge_name :: "nat \<Rightarrow> string" where
  "edge_name gi = ''edge'' @ show_nat gi"

fun add_edges :: "nat list \<Rightarrow> network \<times> rng \<Rightarrow> network \<times> rng" where
  "add_edges [] (net, g) = (net, g)"
| "add_edges (gi # gis) (net, g) =
     (case uniform 2 12 g of (delay, g1) \<Rightarrow>
      case uniform 0.2 3 g1 of (jitter, g2) \<Rightarrow>
      case uniform 0 0.6 g2 of (loss, g3) \<Rightarrow>
      case choice [50, 100, 250, 500] g3 of (bw, g4) \<Rightarrow>
        add_edges gis (add_link (edge_name gi) ''agg1'' bw (py_round delay 3) (py_round jitter 3)
          (py_round loss 3) (add_switch (edge_name gi) net), g4))"

fun add_clients :: "string list \<Rightarrow> assignment list \<Rightarrow> network \<Rightarrow> network res" where
  "add_clients edges [] net = Inr net"
| "add_clients edges (a # as) net =
     (if a_gateway_index a - 1 < length edges
      then add_clients edges as (add_client (edges ! (a_gateway_index a - 1)) a net)
      else Inl IndexError)"

text \<open>\<open>for i in range(i, background_hosts + 1)\<close>, with the loop's break at the end of the subnet;
  every fourth host sits at the core. The modulus by the number of edges raises when there are none.\<close>

fun add_background :: "string list \<Rightarrow> nat \<Rightarrow> nat \<Rightarrow> network \<times> rng \<Rightarrow> (network \<times> rng) res" where
  "add_background edges i 0 (net, g) = Inr (net, g)"
| "add_background edges i (Suc n) (net, g) =
     (if 254 \<le> 150 + i then Inr (net, g)
      else
        let name = ''bg'' @ show_nat i;
            net1 = add_host name (client_addr (150 + i)) net;
            done = (\<lambda>net. net\<lparr>n_background_hosts := n_background_hosts net @ [name]\<rparr>)
        in if i mod 4 = 0
           then add_background edges (Suc i) n (done (add_link name ''core1'' 500 3 0.5 0.1 net1), g)
           else if edges = [] then Inl ZeroDivisionError
           else
             (case choice [10, 25, 50, 100] g of (bw, g1) \<Rightarrow>
              case uniform 5 55 g1 of (delay, g2) \<Rightarrow>
              case uniform 1 12 g2 of (jitter, g3) \<Rightarrow>
              case uniform 0 2.5 g3 of (loss, g4) \<Rightarrow>
                add_background edges (Suc i) n
                  (done (add_link name (edges ! ((i - 1) mod length edges)) bw (py_round delay 3)
                    (py_round jitter 3) (py_round loss 3) net1), g4)))"

definition multi_tier_core :: network where
  "multi_tier_core =
     add_link ''server'' ''core1'' 1000 1 0.2 0 (add_host ''server'' SERVER_IP
       (add_link ''core1'' ''agg1'' 1000 2 0.3 0 (add_switch ''agg1'' (add_switch ''core1'' empty_net))))"

definition build_network :: "string \<Rightarrow> int \<Rightarrow> nat \<Rightarrow> assignment list \<Rightarrow> rng \<Rightarrow> (network \<times> rng) res" where
  "build_network network_model gateway_count background_hosts assignments g =
     (if network_model = ''simple'' then Inr (simple_network assignments, g)
      else
        let indices = [1..<nat gateway_count + 1]; edges = map edge_name indices in
        case add_edges indices (multi_tier_core, g) of (net, g1) \<Rightarrow>
          bind_res (add_clients edges assignments net) (\<lambda>net2.
            add_background edges 1 background_hosts (net2, g1)))"

section \<open>Background traffic\<close>

record traffic_profile =
  t_ping :: nat
  t_tcp :: nat
  t_udp :: nat
  t_udp_rate :: string

definition traffic :: "nat \<Rightarrow> nat \<Rightarrow> nat \<Rightarrow> string \<Rightarrow> traffic_profile" where
  "traffic ping tcp udp rate = \<lparr>t_ping = ping, t_tcp = tcp, t_udp = udp, t_udp_rate = rate\<rparr>"

definition BACKGROUND_TRAFFIC_PROFILES :: "(string \<times> traffic_profile) list" where
  "BACKGROUND_TRAFFIC_PROFILES =
    [(''none'', traffic 0 0 0 ''0M''), (''light'', traffic 4 1 1 ''1M''), (''medium'', traffic 8 2 2 ''3M''),
     (''heavy'', traffic 12 4 4 ''8M''), (''burst'', traffic 12 2 6 ''15M'')]"

definition background_intensity_profile :: "string \<Rightarrow> traffic_profile" where
  "background_intensity_profile level =
     (case map_of BACKGROUND_TRAFFIC_PROFILES level of Some p \<Rightarrow> p | None \<Rightarrow> traffic 0 0 0 ''0M'')"

text \<open>The processes started: an iperf server on a port of the server host; pings with their
  interval and size; iperf clients of a host with the port they send to and the parameters drawn.\<close>

datatype flow =
    Sink nat
  | Ping string real nat
  | TcpFlow string nat nat
  | UdpFlow string nat string nat nat

fun ping_flows :: "string list \<Rightarrow> rng \<Rightarrow> flow list \<times> rng" where
  "ping_flows [] g = ([], g)"
| "ping_flows (h # hs) g =
     (case choice [0.1, 0.2, 0.5, 1] g of (interval, g1) \<Rightarrow>
      case choice [32, 64, 128, 256] g1 of (sz, g2) \<Rightarrow>
      case ping_flows hs g2 of (fs, g3) \<Rightarrow> (Ping h interval sz # fs, g3))"

fun tcp_flows :: "nat \<Rightarrow> string list \<Rightarrow> rng \<Rightarrow> flow list \<times> rng" where
  "tcp_flows port [] g = ([], g)"
| "tcp_flows port (h # hs) g =
     (case choice [1, 2, 3, 4] g of (pause, g1) \<Rightarrow>
      case tcp_flows (port + 1) hs g1 of (fs, g2) \<Rightarrow> (TcpFlow h port pause # fs, g2))"

fun udp_flows :: "nat \<Rightarrow> string \<Rightarrow> string list \<Rightarrow> rng \<Rightarrow> flow list \<times> rng" where
  "udp_flows port rate [] g = ([], g)"
| "udp_flows port rate (h # hs) g =
     (case choice [256, 512, 1024, 1200] g of (len, g1) \<Rightarrow>
      case choice [1, 2, 3] g1 of (pause, g2) \<Rightarrow>
      case udp_flows (port + 1) rate hs g2 of (fs, g3) \<Rightarrow> (UdpFlow h port rate len pause # fs, g3))"

definition start_background_traffic :: "string \<Rightarrow> string list \<Rightarrow> rng \<Rightarrow> flow list \<times> rng" where
  "start_background_traffic level bg_hosts g =
     (let p = background_intensity_profile level; base = 5201 in
      if level = ''none'' \<or> bg_hosts = [] then ([], g)
      else
        let sinks = map (\<lambda>offset. Sink (base + offset)) [0..<max (t_tcp p + t_udp p) 1] in
        case ping_flows (take (t_ping p) bg_hosts) g of (pings, g1) \<Rightarrow>
        case tcp_flows base (take (t_tcp p) bg_hosts) g1 of (tcps, g2) \<Rightarrow>
        case udp_flows (base + t_tcp p) (t_udp_rate p) (take (t_udp p) (drop (t_tcp p) bg_hosts)) g2 of (udps, g3) \<Rightarrow>
          (sinks @ pings @ tcps @ udps, g3))"

text \<open>The port a flow sends to and the host it runs on.\<close>

fun flow_target :: "flow \<Rightarrow> (nat \<times> string) option" where
  "flow_target (TcpFlow h port _) = Some (port, h)"
| "flow_target (UdpFlow h port _ _ _) = Some (port, h)"
| "flow_target _ = None"

definition flow_targets :: "flow list \<Rightarrow> (nat \<times> string) list" where
  "flow_targets fs = List.map_filter flow_target fs"

lemma flow_targets_append: "flow_targets (xs @ ys) = flow_targets xs @ flow_targets ys"
  by (simp add: flow_targets_def map_filter_def)

lemma flow_targets_simps [simp]:
  "flow_targets [] = []"
  "flow_targets (Sink k # fs) = flow_targets fs"
  "flow_targets (Ping h i n # fs) = flow_targets fs"
  "flow_targets (TcpFlow h port w # fs) = (port, h) # flow_targets fs"
  "flow_targets (UdpFlow h port rate len w # fs) = (port, h) # flow_targets fs"
  by (simp_all add: flow_targets_def map_filter_simps)

lemma targets_sinks: "flow_targets (map (\<lambda>k. Sink (f k)) ks) = []"
  by (induction ks) simp_all

lemma targets_pings: "flow_targets (fst (ping_flows hs g)) = []"
  by (induction hs arbitrary: g) (simp_all add: case_prod_unfold)

lemma upt_ports: "[p..<p + (n + Suc 0)] = p # [Suc p..<Suc p + n]"
  by (subst upt_conv_Cons) simp_all

lemma targets_tcp: "flow_targets (fst (tcp_flows port hs g)) = zip [port..<port + length hs] hs"
proof (induction hs arbitrary: port g)
  case (Cons h hs)
  show ?case using Cons.IH [of "Suc port"]
    by (simp only: upt_ports list.size(4) zip_Cons_Cons) (simp add: case_prod_unfold del: upt_Suc)
qed simp

lemma targets_udp: "flow_targets (fst (udp_flows port rate hs g)) = zip [port..<port + length hs] hs"
proof (induction hs arbitrary: port g)
  case (Cons h hs)
  show ?case using Cons.IH [of "Suc port"]
    by (simp only: upt_ports list.size(4) zip_Cons_Cons) (simp add: case_prod_unfold del: upt_Suc)
qed simp

text \<open>Background flows do not contend: no two TCP or UDP flows send to the same port, none
  shares its host with another when the hosts are distinct, and every port sent to has its
  iperf server.\<close>

lemma background_flows_served:
  assumes "distinct bg_hosts" and "fst (start_background_traffic level bg_hosts g) = flows"
  shows "distinct (map fst (flow_targets flows)) \<and> distinct (map snd (flow_targets flows))
    \<and> (\<forall>(port, h) \<in> set (flow_targets flows). Sink port \<in> set flows \<and> h \<in> set bg_hosts)"
proof (cases "level = ''none'' \<or> bg_hosts = []")
  case True
  then show ?thesis using assms(2) by (auto simp: start_background_traffic_def Let_def flow_targets_def map_filter_simps)
next
  case False
  define p where "p = background_intensity_profile level"
  define a where "a = take (t_tcp p) bg_hosts"
  define b where "b = take (t_udp p) (drop (t_tcp p) bg_hosts)"
  obtain pings g1 where p1: "ping_flows (take (t_ping p) bg_hosts) g = (pings, g1)" by fastforce
  obtain tcps g2 where p2: "tcp_flows 5201 a g1 = (tcps, g2)" by fastforce
  obtain udps g3 where p3: "udp_flows (5201 + t_tcp p) (t_udp_rate p) b g2 = (udps, g3)" by fastforce
  let ?sinks = "map (\<lambda>offset. Sink (5201 + offset)) [0..<max (t_tcp p + t_udp p) 1]"
  have flows: "flows = ?sinks @ pings @ tcps @ udps"
    using assms(2) False p1 p2 p3
    by (simp add: start_background_traffic_def Let_def p_def [symmetric] a_def [symmetric] b_def [symmetric])
  have t: "flow_targets flows = zip [5201..<5201 + length a] a @ zip [5201 + t_tcp p..<5201 + t_tcp p + length b] b"
    using targets_pings [of "take (t_ping p) bg_hosts" g] targets_tcp [of 5201 a g1]
      targets_udp [of "5201 + t_tcp p" "t_udp_rate p" b g2]
    by (simp only: flows flow_targets_append targets_sinks p1 p2 p3 fst_conv append_Nil)
  have len: "length a \<le> t_tcp p" "length b \<le> t_udp p" "b \<noteq> [] \<Longrightarrow> length a = t_tcp p"
    by (auto simp: a_def b_def)
  have "distinct (a @ b)"
  proof -
    have "take (t_tcp p + t_udp p) bg_hosts = a @ b" by (simp add: a_def b_def take_add)
    then show ?thesis using assms(1) by (metis distinct_take)
  qed
  moreover have "set a \<subseteq> set bg_hosts" "set b \<subseteq> set bg_hosts"
    by (auto simp: a_def b_def dest: in_set_takeD in_set_dropD)
  moreover have "Sink port \<in> set flows" if "port \<in> {5201..<5201 + length a} \<union> {5201 + t_tcp p..<5201 + t_tcp p + length b}" for port
  proof -
    have "port - 5201 < max (t_tcp p + t_udp p) 1" "port = 5201 + (port - 5201)" using that len by auto
    then have "Sink port \<in> set ?sinks" by (auto simp: image_iff)
    then show ?thesis by (simp add: flows)
  qed
  moreover have "distinct ([5201..<5201 + length a] @ [5201 + t_tcp p..<5201 + t_tcp p + length b])"
    using len by auto
  ultimately show ?thesis unfolding t
    by (auto simp: dest: set_zip_leftD set_zip_rightD)
qed

lemma background_flows_served_witness:
  "let flows = fst (start_background_traffic ''light'' [''bg1'', ''bg2'', ''bg3''] (\<lambda>_. 0)) in
     distinct (map fst (flow_targets flows)) \<and> distinct (map snd (flow_targets flows))
    \<and> (\<forall>(port, h) \<in> set (flow_targets flows). Sink port \<in> set flows \<and> h \<in> set [''bg1'', ''bg2'', ''bg3''])"
  unfolding Let_def by (rule background_flows_served) simp_all



section \<open>Assignments\<close>

definition in_range :: "real \<times> real \<Rightarrow> real \<Rightarrow> bool" where
  "in_range r x \<longleftrightarrow> fst r \<le> x \<and> x \<le> snd r"

definition assigned :: "string \<Rightarrow> string \<Rightarrow> int \<Rightarrow> nat \<Rightarrow> assignment \<Rightarrow> bool" where
  "assigned clients_dir device_mix gateway_count i a \<longleftrightarrow>
     a_client_index a = i \<and> a_client_host a = ''pi'' @ show_nat i \<and> a_client_ip a = client_addr (i + 1)
     \<and> a_client_workdir a = clients_dir @ ''/'' @ a_client_host a
     \<and> a_gateway_index a = (i - 1) mod max 1 (nat gateway_count) + 1
     \<and> (case map_of (selected_device_profiles device_mix) (a_client_type a) of
          None \<Rightarrow> False
        | Some p \<Rightarrow> a_bw_mbps a = lp_bw_mbps p
            \<and> in_range (lp_delay_ms_range p) (a_network_delay_ms a)
            \<and> in_range (lp_jitter_ms_range p) (a_network_jitter_ms a)
            \<and> in_range (lp_loss_percent_range p) (a_packet_loss_percent a))"

definition exact4 :: "real \<times> real \<Rightarrow> bool" where
  "exact4 r \<longleftrightarrow> fst r \<le> snd r \<and> py_round (fst r) 4 = fst r \<and> py_round (snd r) 4 = snd r"

lemma unit_draws_tail: "unit_draws g \<Longrightarrow> unit_draws (\<lambda>n. g (Suc n))"
  by (simp add: unit_draws_def)

lemma round_half_even_numeral [simp]:
  "round_half_even (numeral k) = numeral k" "round_half_even 0 = 0" "round_half_even 1 = 1"
  using round_half_even_of_int [of "numeral k"] round_half_even_of_int [of 0] round_half_even_of_int [of 1] by simp_all

lemma uniform_range:
  assumes "unit_draws g" and "lo \<le> hi" and "uniform lo hi g = (x, g')"
  shows "lo \<le> x \<and> x \<le> hi \<and> unit_draws g'"
proof -
  have u: "0 \<le> g 0" "g 0 \<le> 1" using assms(1) by (auto simp: unit_draws_def less_imp_le)
  have "(hi - lo) * g 0 \<le> (hi - lo) * 1" using u assms(2) by (intro mult_left_mono) auto
  moreover have "0 \<le> (hi - lo) * g 0" using u assms(2) by simp
  ultimately show ?thesis using assms unit_draws_tail [OF assms(1)] by (auto simp: uniform_def draw_def)
qed

lemma rand_range_in:
  assumes "unit_draws g" and "exact4 r" and "rand_range r g = (x, g')"
  shows "in_range r x \<and> unit_draws g'"
proof -
  obtain y where y: "uniform (fst r) (snd r) g = (y, g')" "x = py_round y 4"
    using assms(3) by (auto simp: rand_range_def split: prod.splits)
  have "fst r \<le> y" "y \<le> snd r" "unit_draws g'"
    using uniform_range [OF assms(1) _ y(1)] assms(2) by (auto simp: exact4_def)
  moreover from this have "py_round (fst r) 4 \<le> x" "x \<le> py_round (snd r) 4"
    by (simp_all add: y(2) py_round_mono)
  ultimately show ?thesis using assms(2) by (simp add: exact4_def in_range_def)
qed

lemma pick_weighted_mem: "ws \<noteq> [] \<Longrightarrow> pick_weighted acc x ws \<in> fst ` set ws"
  by (induction acc x ws rule: pick_weighted.induct) auto

lemma selected_profiles_wf:
  "\<forall>(n, p) \<in> set (selected_device_profiles device_mix).
     exact4 (lp_delay_ms_range p) \<and> exact4 (lp_jitter_ms_range p) \<and> exact4 (lp_loss_percent_range p)"
  by (simp add: selected_device_profiles_def DEVICE_PROFILES_def HETEROGENEOUS_IOT_PROFILES_def exact4_def py_round_def)

lemma selected_profiles_nonempty: "selected_device_profiles device_mix \<noteq> []"
  by (simp add: selected_device_profiles_def DEVICE_PROFILES_def HETEROGENEOUS_IOT_PROFILES_def)

lemma weighted_random_device_known:
  assumes "unit_draws g" and "weighted_random_device device_mix g = (d, g')"
  shows "(\<exists>p. map_of (selected_device_profiles device_mix) d = Some p) \<and> unit_draws g'"
proof -
  let ?ws = "map (\<lambda>(n, p). (n, lp_weight p)) (selected_device_profiles device_mix)"
  have "?ws \<noteq> []" using selected_profiles_nonempty by simp
  from pick_weighted_mem [OF this] have "d \<in> fst ` set ?ws"
    using assms(2) by (auto simp: weighted_random_device_def Let_def draw_def)
  then have "d \<in> fst ` set (selected_device_profiles device_mix)" by force
  then have "map_of (selected_device_profiles device_mix) d \<noteq> None" by (simp add: map_of_eq_None_iff)
  then show ?thesis using assms unit_draws_tail [OF assms(1)]
    by (auto simp: weighted_random_device_def Let_def draw_def)
qed

lemma gateway_index_nat: "1 \<le> i \<Longrightarrow> nat ((int i - 1) mod max 1 gc + 1) = (i - 1) mod max 1 (nat gc) + 1"
proof -
  assume "1 \<le> i"
  then have "(int i - 1) mod max 1 gc = int ((i - 1) mod max 1 (nat gc))"
    by (simp add: zmod_int of_nat_diff max_def)
  then have "(int i - 1) mod max 1 gc + 1 = int ((i - 1) mod max 1 (nat gc) + 1)" by simp
  then show ?thesis by (simp only: nat_int)
qed

lemma assign_one_assigned:
  assumes "unit_draws g" and "1 \<le> i"
  shows "\<exists>a g'. assign_one clients_dir device_mix gc i g = (Inr a, g') \<and> unit_draws g'
    \<and> assigned clients_dir device_mix gc i a"
proof -
  obtain d g1 where 1: "weighted_random_device device_mix g = (d, g1)" by fastforce
  with assms obtain p where p: "map_of (selected_device_profiles device_mix) d = Some p" "unit_draws g1"
    using weighted_random_device_known by blast
  have e: "exact4 (lp_delay_ms_range p)" "exact4 (lp_jitter_ms_range p)" "exact4 (lp_loss_percent_range p)"
    using selected_profiles_wf map_of_SomeD [OF p(1)] by auto
  obtain x g2 where 2: "rand_range (lp_delay_ms_range p) g1 = (x, g2)" by fastforce
  obtain y g3 where 3: "rand_range (lp_jitter_ms_range p) g2 = (y, g3)" by fastforce
  obtain z g4 where 4: "rand_range (lp_loss_percent_range p) g3 = (z, g4)" by fastforce
  note r1 = rand_range_in [OF p(2) e(1) 2]
  note r2 = rand_range_in [OF conjunct2 [OF r1] e(2) 3]
  note r3 = rand_range_in [OF conjunct2 [OF r2] e(3) 4]
  have g4: "unit_draws g4" using r3 by blast
  show ?thesis
    unfolding assign_one_def 1 prod.case p(1) option.case Let_def 2 3 4
  proof (intro exI conjI)
  qed (rule refl, simp_all only: g4 assigned_def assignment.select_convs, use r1 r2 r3 p gateway_index_nat [OF assms(2), of gc] in simp)
qed

lemma assign_from_assigned:
  assumes "unit_draws g" and "1 \<le> i"
  shows "\<exists>as g'. assign_from clients_dir device_mix gc i n g = (Inr as, g') \<and> unit_draws g' \<and> length as = n
    \<and> (\<forall>j < n. assigned clients_dir device_mix gc (i + j) (as ! j))"
  using assms
proof (induction n arbitrary: i g)
  case (Suc n)
  obtain a g1 where a: "assign_one clients_dir device_mix gc i g = (Inr a, g1)" "unit_draws g1"
      "assigned clients_dir device_mix gc i a"
    using assign_one_assigned [OF Suc.prems] by blast
  obtain as g2 where as: "assign_from clients_dir device_mix gc (Suc i) n g1 = (Inr as, g2)" "unit_draws g2"
      "length as = n" "\<forall>j < n. assigned clients_dir device_mix gc (Suc i + j) (as ! j)"
    using Suc.IH [OF a(2), of "Suc i"] by auto
  have "\<forall>j < Suc n. assigned clients_dir device_mix gc (i + j) ((a # as) ! j)"
    using a(3) as(4) by (auto simp: less_Suc_eq_0_disj)
  moreover have "assign_from clients_dir device_mix gc i (Suc n) g = (Inr (a # as), g2)"
    using a(1) as(1) by (simp add: andthen_Inr)
  ultimately show ?case using as by (intro exI [of _ "a # as"] exI [of _ g2]) simp
qed simp

lemma assigned_nth_inject:
  assumes "\<forall>j < length as. assigned clients_dir device_mix gc (Suc j) (as ! j)"
  shows "distinct (map a_client_host as)" and "distinct (map a_client_ip as)"
  using assms by (auto simp: distinct_conv_nth assigned_def client_addr_def dest!: show_nat_inject)

lemma make_assignments_assigned:
  assumes "unit_draws g"
  shows "\<exists>as g'. make_assignments n clients_dir device_mix gc g = (Inr as, g') \<and> length as = n
    \<and> (\<forall>j < n. assigned clients_dir device_mix gc (Suc j) (as ! j))"
  using assign_from_assigned [OF assms, of 1 clients_dir device_mix gc n] by (auto simp: make_assignments_def)

text \<open>C24: whatever the generator draws, assigning never raises and gives every client its own host
  name, address and directory, a device type of the selected mix, link parameters inside the
  ranges of that type, and a gateway by turns.\<close>

theorem make_assignments_wf:
  assumes "unit_draws g"
  shows "\<exists>as g'. make_assignments n clients_dir device_mix gc g = (Inr as, g') \<and> length as = n
    \<and> (\<forall>j < n. assigned clients_dir device_mix gc (Suc j) (as ! j))
    \<and> distinct (map a_client_host as) \<and> distinct (map a_client_ip as)"
proof -
  obtain as g' where "make_assignments n clients_dir device_mix gc g = (Inr as, g')" "length as = n"
    and "\<forall>j < n. assigned clients_dir device_mix gc (Suc j) (as ! j)"
    using make_assignments_assigned [OF assms] by blast
  then show ?thesis using assigned_nth_inject [of as] by blast
qed

lemma make_assignments_wf_witness:
  "\<exists>as g'. make_assignments 3 ''/tmp/clients'' ''heterogeneous-iot'' 2 (\<lambda>_. 1/2) = (Inr as, g') \<and> length as = 3
    \<and> (\<forall>j < 3. assigned ''/tmp/clients'' ''heterogeneous-iot'' 2 (Suc j) (as ! j))
    \<and> distinct (map a_client_host as) \<and> distinct (map a_client_ip as)"
  by (rule make_assignments_wf) (simp add: unit_draws_def)

text \<open>The load of the gateways.\<close>

lemma card_residue:
  assumes "0 < m" and "r < m"
  shows "card {j. j < n \<and> j mod m = r} = n div m + (if r < n mod m then 1 else 0)"
proof (induction n)
  case (Suc n)
  have "{j. j < Suc n \<and> j mod m = r} = (if n mod m = r then insert n {j. j < n \<and> j mod m = r} else {j. j < n \<and> j mod m = r})"
    by (auto simp: less_Suc_eq)
  then have c: "card {j. j < Suc n \<and> j mod m = r} = (if n mod m = r then 1 else 0) + card {j. j < n \<and> j mod m = r}"
    by simp
  show ?case
  proof (cases "Suc (n mod m) = m")
    case True
    then have "Suc n mod m = 0" "Suc n div m = Suc (n div m)" by (simp_all add: mod_Suc div_Suc)
    then show ?thesis using c Suc assms True by auto
  next
    case False
    then have "Suc n mod m = Suc (n mod m)" "Suc n div m = n div m" by (simp_all add: mod_Suc div_Suc)
    then show ?thesis using c Suc assms by auto
  qed
qed simp

definition gateway_load :: "nat \<Rightarrow> assignment list \<Rightarrow> nat" where
  "gateway_load k as = length (filter (\<lambda>a. a_gateway_index a = k) as)"

text \<open>The clients are spread evenly over the gateways: gateway \<open>k\<close> of \<open>m\<close> serves
  \<open>n div m\<close> clients, and one more when \<open>k\<close> is at most \<open>n mod m\<close>.\<close>

lemma gateways_balanced:
  assumes "unit_draws g" and "make_assignments n clients_dir device_mix (int m) g = (Inr as, g')"
    and "1 \<le> k" and "k \<le> m"
  shows "gateway_load k as = n div m + (if k \<le> n mod m then 1 else 0)"
proof -
  have as: "length as = n" "\<forall>j < n. assigned clients_dir device_mix (int m) (Suc j) (as ! j)"
    using make_assignments_assigned [OF assms(1), of n clients_dir device_mix "int m"] assms(2) by auto
  have "{j. j < length as \<and> a_gateway_index (as ! j) = k} = {j. j < n \<and> j mod m = k - 1}"
    using as assms(3,4) by (auto simp: assigned_def)
  then have "gateway_load k as = card {j. j < n \<and> j mod m = k - 1}"
    by (simp add: gateway_load_def length_filter_conv_card)
  also have "\<dots> = n div m + (if k - 1 < n mod m then 1 else 0)"
    using assms(3,4) by (intro card_residue) auto
  finally show ?thesis using assms(3) by auto
qed

lemma gateways_balanced_witness:
  "let as = projr (fst (make_assignments 5 ''/c'' ''raspberry-pi'' (int 2) (\<lambda>_. 0))) in
     gateway_load 1 as = 5 div 2 + (if 1 \<le> 5 mod (2::nat) then 1 else 0)"
proof -
  have g: "unit_draws (\<lambda>_. 0)" by (simp add: unit_draws_def)
  from make_assignments_assigned [OF this] obtain as g' where
    as: "make_assignments 5 ''/c'' ''raspberry-pi'' (int 2) (\<lambda>_. 0) = (Inr as, g')" by blast
  show ?thesis unfolding Let_def as fst_conv sum.sel by (rule gateways_balanced [OF g as]) simp_all
qed


section \<open>The shape of the network\<close>

definition nodes :: "network \<Rightarrow> string list" where
  "nodes net = n_switches net @ map fst (n_hosts net)"

definition linked :: "network \<Rightarrow> string \<Rightarrow> string \<Rightarrow> bool" where
  "linked net x y \<longleftrightarrow> (\<exists>l \<in> set (n_links net). (l_node l = x \<and> l_to l = y) \<or> (l_node l = y \<and> l_to l = x))"

text \<open>A tree: distinct nodes, one link fewer than nodes, every link between nodes, and every node
  reachable from the server.\<close>

definition tree_net :: "network \<Rightarrow> bool" where
  "tree_net net \<longleftrightarrow> distinct (nodes net) \<and> length (n_links net) + 1 = length (nodes net)
     \<and> (\<forall>l \<in> set (n_links net). l_node l \<in> set (nodes net) \<and> l_to l \<in> set (nodes net))
     \<and> (\<forall>x \<in> set (nodes net). (linked net)\<^sup>*\<^sup>* ''server'' x)"

lemma linked_mono: "(linked net)\<^sup>*\<^sup>* x y \<Longrightarrow> set (n_links net) \<subseteq> set (n_links net') \<Longrightarrow> (linked net')\<^sup>*\<^sup>* x y"
  by (erule rtranclp_mono [THEN predicate2D, rotated]) (unfold linked_def, blast)

lemma tree_extend:
  assumes t: "tree_net net" and "to \<in> set (nodes net)" and "name \<notin> set (nodes net)"
    and n: "set (nodes net') = insert name (set (nodes net))" "distinct (nodes net')"
    and l: "n_links net' = n_links net @ [l]" "l_node l = name" "l_to l = to"
  shows "tree_net net'"
proof -
  have sub: "set (n_links net) \<subseteq> set (n_links net')" using l by auto
  have old: "(linked net')\<^sup>*\<^sup>* ''server'' x" if "x \<in> set (nodes net)" for x
    using t that by (intro linked_mono [OF _ sub]) (simp add: tree_net_def)
  moreover have "linked net' to name" using l by (auto simp: linked_def)
  with old [OF assms(2)] have "(linked net')\<^sup>*\<^sup>* ''server'' name" by (rule rtranclp.rtrancl_into_rtrancl)
  moreover have "length (nodes net') = Suc (length (nodes net))"
    using n assms(3) t by (metis card_insert_disjoint List.finite_set distinct_card tree_net_def)
  ultimately show ?thesis using t n l assms(2) by (auto simp: tree_net_def)
qed

lemma add_simps [simp]:
  "n_switches (add_switch x net) = n_switches net @ [x]" "n_hosts (add_switch x net) = n_hosts net"
  "n_links (add_switch x net) = n_links net"
  "n_switches (add_host x i net) = n_switches net" "n_hosts (add_host x i net) = n_hosts net @ [(x, i @ ''/24'')]"
  "n_links (add_host x i net) = n_links net"
  "n_switches (add_link a b bw d j p net) = n_switches net" "n_hosts (add_link a b bw d j p net) = n_hosts net"
  "n_links (add_link a b bw d j p net) = n_links net @ [\<lparr>l_node = a, l_to = b, l_bw = bw, l_delay_ms = d, l_jitter_ms = j, l_loss = p\<rparr>]"
  by (simp_all add: add_switch_def add_host_def add_link_def)

lemma nodes_add [simp]:
  "set (nodes (add_link a b bw d j p (add_switch x net))) = insert x (set (nodes net))"
  "set (nodes (add_link a b bw d j p (add_host x i net))) = insert x (set (nodes net))"
  by (auto simp: nodes_def)

lemma tree_add_switch:
  "tree_net net \<Longrightarrow> b \<in> set (nodes net) \<Longrightarrow> x \<notin> set (nodes net) \<Longrightarrow> tree_net (add_link x b bw d j p (add_switch x net))"
  by (rule tree_extend [where name = x and to = b]) (auto simp: tree_net_def nodes_def)

lemma tree_add_host:
  "tree_net net \<Longrightarrow> b \<in> set (nodes net) \<Longrightarrow> x \<notin> set (nodes net) \<Longrightarrow> tree_net (add_link x b bw d j p (add_host x i net))"
  by (rule tree_extend [where name = x and to = b]) (auto simp: tree_net_def nodes_def)

lemma linked_background [simp]: "linked (net\<lparr>n_background_hosts := bs\<rparr>) = linked net"
  by (simp add: fun_eq_iff linked_def)

lemma tree_background [simp]:
  "tree_net (net\<lparr>n_background_hosts := bs\<rparr>) = tree_net net" "nodes (net\<lparr>n_background_hosts := bs\<rparr>) = nodes net"
  by (simp_all add: tree_net_def nodes_def)

lemma link_step: "l \<in> set (n_links net) \<Longrightarrow> linked net (l_node l) (l_to l) \<and> linked net (l_to l) (l_node l)"
  by (auto simp: linked_def)

lemma tree_core: "tree_net multi_tier_core"
proof -
  have "linked multi_tier_core ''server'' ''core1''" "linked multi_tier_core ''core1'' ''agg1''"
    by (simp_all add: linked_def multi_tier_core_def empty_net_def)
  then have "(linked multi_tier_core)\<^sup>*\<^sup>* ''server'' ''core1''" "(linked multi_tier_core)\<^sup>*\<^sup>* ''server'' ''agg1''"
    by (auto intro: rtranclp.rtrancl_into_rtrancl)
  then show ?thesis by (simp add: tree_net_def nodes_def multi_tier_core_def empty_net_def)
qed

lemma tree_add_edges:
  assumes "tree_net net" and "''agg1'' \<in> set (nodes net)" and "distinct gis"
    and "\<forall>gi \<in> set gis. edge_name gi \<notin> set (nodes net)" and "add_edges gis (net, g) = (net', g')"
  shows "tree_net net' \<and> set (nodes net') = set (nodes net) \<union> edge_name ` set gis \<and> n_hosts net' = n_hosts net"
  using assms
proof (induction gis arbitrary: net g)
  case (Cons gi gis)
  obtain delay jitter loss bw g4 where eq: "add_edges gis (add_link (edge_name gi) ''agg1'' bw delay jitter loss
      (add_switch (edge_name gi) net), g4) = (net', g')"
    using Cons.prems(5) by (auto split: prod.splits)
  let ?n = "add_link (edge_name gi) ''agg1'' bw delay jitter loss (add_switch (edge_name gi) net)"
  have "tree_net ?n" using Cons.prems by (intro tree_add_switch) auto
  moreover have "edge_name k \<notin> set (nodes ?n)" if "k \<in> set gis" for k
    using Cons.prems(3,4) that by (auto simp: edge_name_def dest: show_nat_inject)
  ultimately show ?case using Cons.IH [OF _ _ _ _ eq] Cons.prems by auto
qed simp

lemma tree_add_clients:
  assumes "tree_net net" and "set edges \<subseteq> set (nodes net)" and "distinct (map a_client_host as)"
    and "\<forall>a \<in> set as. a_client_host a \<notin> set (nodes net) \<and> a_gateway_index a - 1 < length edges"
  shows "\<exists>net'. add_clients edges as net = Inr net' \<and> tree_net net'
    \<and> set (nodes net') = set (nodes net) \<union> a_client_host ` set as
    \<and> n_hosts net' = n_hosts net @ map (\<lambda>a. (a_client_host a, a_client_ip a @ ''/24'')) as"
  using assms
proof (induction as arbitrary: net)
  case (Cons a as)
  let ?n = "add_client (edges ! (a_gateway_index a - 1)) a net"
  have "edges ! (a_gateway_index a - 1) \<in> set (nodes net)" using Cons.prems by auto
  then have "tree_net ?n" using Cons.prems unfolding add_client_def by (intro tree_add_host) auto
  moreover have "set (nodes ?n) = insert (a_client_host a) (set (nodes net))" by (simp add: add_client_def)
  moreover have "a_client_host b \<noteq> a_client_host a" if "b \<in> set as" for b
    using Cons.prems(3) that by (auto simp: image_iff)
  moreover from calculation have "set edges \<subseteq> set (nodes ?n)"
      "\<forall>b \<in> set as. a_client_host b \<notin> set (nodes ?n) \<and> a_gateway_index b - 1 < length edges"
    using Cons.prems by auto
  ultimately obtain net' where "add_clients edges as ?n = Inr net'" "tree_net net'"
      "set (nodes net') = set (nodes ?n) \<union> a_client_host ` set as"
      "n_hosts net' = n_hosts ?n @ map (\<lambda>a. (a_client_host a, a_client_ip a @ ''/24'')) as"
    using Cons.IH [of ?n] Cons.prems(3) by auto
  then show ?case using Cons.prems by (simp add: add_client_def)
qed simp

definition bg_name :: "nat \<Rightarrow> string" where
  "bg_name i = ''bg'' @ show_nat i"

lemma add_background_step:
  assumes "150 + i < 254" and "edges \<noteq> []" and "set edges \<subseteq> N" and "''core1'' \<in> N"
  shows "\<exists>b bw d j p g1. b \<in> N \<and> add_background edges i (Suc n) (net, g) = add_background edges (Suc i) n
    ((add_link (bg_name i) b bw d j p (add_host (bg_name i) (client_addr (150 + i)) net))
       \<lparr>n_background_hosts := n_background_hosts net @ [bg_name i]\<rparr>, g1)"
proof (cases "i mod 4 = 0")
  case True
  then show ?thesis using assms
    by (intro exI [of _ "''core1''"] exI conjI) (auto simp: Let_def bg_name_def add_link_def add_host_def)
next
  case False
  have "edges ! ((i - 1) mod length edges) \<in> N" using assms(2,3) by auto
  moreover obtain bw g1 where "choice [10, 25, 50, 100] g = (bw :: nat, g1)" by fastforce
  moreover obtain d g2 where "uniform 5 55 g1 = (d, g2)" by fastforce
  moreover obtain j g3 where "uniform 1 12 g2 = (j, g3)" by fastforce
  moreover obtain p g4 where "uniform 0 2.5 g3 = (p, g4)" by fastforce
  ultimately show ?thesis using assms False
    by (intro exI [of _ "edges ! ((i - 1) mod length edges)"] exI [of _ bw] exI [of _ "py_round d 3"]
        exI [of _ "py_round j 3"] exI [of _ "py_round p 3"] exI [of _ g4] conjI)
      (simp_all add: Let_def bg_name_def add_link_def add_host_def)
qed

lemma tree_add_background:
  assumes "tree_net net" and "edges \<noteq> []" and "set edges \<subseteq> set (nodes net)" and "''core1'' \<in> set (nodes net)"
    and "\<forall>j \<ge> i. bg_name j \<notin> set (nodes net)"
  shows "\<exists>net' g'. add_background edges i n (net, g) = Inr (net', g') \<and> tree_net net'
    \<and> map snd (n_hosts net') = map snd (n_hosts net)
        @ map (\<lambda>k. client_addr k @ ''/24'') [150 + i..<min (150 + i + n) (max 254 (150 + i))]"
  using assms
proof (induction n arbitrary: i net g)
  case 0
  then show ?case by auto
next
  case (Suc n)
  show ?case
  proof (cases "254 \<le> 150 + i")
    case True
    then show ?thesis using Suc.prems by (auto simp: max_def)
  next
    case False
    then have lt: "150 + i < 254" by simp
    obtain b bw d j p g1 where b: "b \<in> set (nodes net)" and step: "add_background edges i (Suc n) (net, g)
        = add_background edges (Suc i) n ((add_link (bg_name i) b bw d j p (add_host (bg_name i) (client_addr (150 + i)) net))
       \<lparr>n_background_hosts := n_background_hosts net @ [bg_name i]\<rparr>, g1)"
      using add_background_step [OF lt Suc.prems(2-4)] by blast
    let ?m = "add_link (bg_name i) b bw d j p (add_host (bg_name i) (client_addr (150 + i)) net)"
    let ?n = "?m\<lparr>n_background_hosts := n_background_hosts net @ [bg_name i]\<rparr>"
    have "tree_net ?m" using Suc.prems b by (intro tree_add_host) auto
    then have "tree_net ?n" by simp
    moreover have "set (nodes ?n) = insert (bg_name i) (set (nodes net))" by simp
    moreover have "\<forall>j \<ge> Suc i. bg_name j \<notin> insert (bg_name i) (set (nodes net))"
      using Suc.prems(5) by (auto simp: bg_name_def dest: show_nat_inject)
    ultimately obtain net' g' where IH: "add_background edges (Suc i) n (?n, g1) = Inr (net', g')" "tree_net net'"
        "map snd (n_hosts net') = map snd (n_hosts ?n)
        @ map (\<lambda>k. client_addr k @ ''/24'') [150 + Suc i..<min (150 + Suc i + n) (max 254 (150 + Suc i))]"
      using Suc.IH [of ?n "Suc i" g1] Suc.prems by auto
    have "[150 + i..<min (150 + i + Suc n) (max 254 (150 + i))]
        = (150 + i) # [150 + Suc i..<min (150 + Suc i + n) (max 254 (150 + Suc i))]"
      using lt by (subst upt_conv_Cons) (auto simp: max_def add.assoc)
    then have "map snd (n_hosts net') = map snd (n_hosts net)
        @ map (\<lambda>k. client_addr k @ ''/24'') [150 + i..<min (150 + i + Suc n) (max 254 (150 + i))]"
      using IH(3) by simp
    then show ?thesis using IH(1,2) step by auto
  qed
qed


lemma names_fresh:
  "edge_name k \<notin> set (nodes multi_tier_core)" "''pi'' @ show_nat j \<notin> set (nodes multi_tier_core)"
  "''pi'' @ show_nat j \<noteq> edge_name k" "bg_name i \<notin> set (nodes multi_tier_core)"
  "bg_name i \<noteq> edge_name k" "bg_name i \<noteq> ''pi'' @ show_nat j"
  by (auto simp: nodes_def multi_tier_core_def empty_net_def edge_name_def bg_name_def)

definition octet_text :: "nat \<Rightarrow> string" where
  "octet_text k = client_addr k @ ''/24''"

lemma octet_text_inject: "octet_text i = octet_text j \<longleftrightarrow> i = j"
  by (auto simp: octet_text_def client_addr_def dest: show_nat_inject)

lemma multi_tier_network:
  assumes "unit_draws g" and "make_assignments n clients_dir device_mix gc g = (Inr as, g1)"
    and "1 \<le> gc" and "model \<noteq> ''simple''"
  shows "\<exists>net g2. build_network model gc bg as g1 = Inr (net, g2) \<and> tree_net net
    \<and> map snd (n_hosts net) = map octet_text (1 # [2..<n + 2] @ [151..<min (151 + bg) 254])"
proof -
  have as: "length as = n" "\<forall>j < n. assigned clients_dir device_mix gc (Suc j) (as ! j)"
    using make_assignments_assigned [OF assms(1), of n clients_dir device_mix gc] assms(2) by auto
  have host: "a_client_host a \<in> range (\<lambda>j. ''pi'' @ show_nat j) \<and> a_gateway_index a - 1 < nat gc" if "a \<in> set as" for a
  proof -
    from that obtain j where "j < n" "a = as ! j" using as(1) by (metis in_set_conv_nth)
    moreover have "x mod max 1 (nat gc) < nat gc" for x using assms(3)
      by (metis max_absorb2 mod_less_divisor nat_mono nat_one_as_int not_gr_zero not_one_le_zero)
    ultimately show ?thesis using as(2) by (auto simp: assigned_def)
  qed
  let ?ix = "[1..<nat gc + 1]" and ?edges = "map edge_name [1..<nat gc + 1]"
  obtain net1 g2 where e: "add_edges ?ix (multi_tier_core, g1) = (net1, g2)" by fastforce
  have core: "''agg1'' \<in> set (nodes multi_tier_core)" "''core1'' \<in> set (nodes multi_tier_core)"
    "map snd (n_hosts multi_tier_core) = [octet_text 1]"
    by (simp_all add: nodes_def multi_tier_core_def empty_net_def SERVER_IP_def octet_text_def client_addr_def show_nat.simps)
  have t1: "tree_net net1" "set (nodes net1) = set (nodes multi_tier_core) \<union> edge_name ` set ?ix"
      "n_hosts net1 = n_hosts multi_tier_core"
    using tree_add_edges [OF tree_core core(1) _ _ e] names_fresh(1) by auto
  have "\<forall>a \<in> set as. a_client_host a \<notin> set (nodes net1) \<and> a_gateway_index a - 1 < length ?edges"
    using host t1(2) names_fresh(2,3) by fastforce
  moreover have "distinct (map a_client_host as)" using assigned_nth_inject [of as] as by simp
  ultimately obtain net2 where t2: "add_clients ?edges as net1 = Inr net2" "tree_net net2"
      "set (nodes net2) = set (nodes net1) \<union> a_client_host ` set as"
      "n_hosts net2 = n_hosts net1 @ map (\<lambda>a. (a_client_host a, a_client_ip a @ ''/24'')) as"
    using tree_add_clients [OF t1(1), of ?edges as] t1(2) by auto
  have "bg_name j \<notin> set (nodes net2)" for j
    using t2(3) t1(2) host names_fresh(4-6) by fastforce
  then have fresh: "\<forall>j \<ge> 1. bg_name j \<notin> set (nodes net2)" by blast
  have edges: "?edges \<noteq> []" "set ?edges \<subseteq> set (nodes net2)" "''core1'' \<in> set (nodes net2)"
    using assms(3) core(2) t2(3) t1(2) by simp_all blast
  then obtain net3 g3 where t3: "add_background ?edges 1 bg (net2, g2) = Inr (net3, g3)" "tree_net net3"
      "map snd (n_hosts net3) = map snd (n_hosts net2)
        @ map (\<lambda>k. client_addr k @ ''/24'') [150 + 1..<min (150 + 1 + bg) (max 254 (150 + 1))]"
    using tree_add_background [OF t2(2) edges fresh, of bg g2] by blast
  have "map (\<lambda>a. a_client_ip a @ ''/24'') as = map octet_text [2..<n + 2]"
  proof (rule nth_equalityI)
    fix j
    assume "j < length (map (\<lambda>a. a_client_ip a @ ''/24'') as)"
    then have "j < n" "a_client_ip (as ! j) = client_addr (2 + j)" using as by (simp_all add: assigned_def)
    then show "map (\<lambda>a. a_client_ip a @ ''/24'') as ! j = map octet_text [2..<n + 2] ! j"
      using as(1) by (simp add: octet_text_def del: upt_Suc)
  qed (simp add: as(1) del: upt_Suc)
  then have "map snd (n_hosts net3) = map octet_text (1 # [2..<n + 2] @ [151..<min (151 + bg) 254])"
    using t3(3) t2(4) t1(3) core(3) by (simp add: comp_def octet_text_def)
  moreover have "build_network model gc bg as g1 = Inr (net3, g3)"
    using assms(4) e t2(1) t3(1) by (simp add: build_network_def Let_def)
  ultimately show ?thesis using t3(2) by blast
qed

text \<open>What each part adds to a network.\<close>

lemma add_edges_shape:
  "add_edges gis (net, g) = (net', g') \<Longrightarrow> n_switches net' = n_switches net @ map edge_name gis \<and> n_hosts net' = n_hosts net
    \<and> n_background_hosts net' = n_background_hosts net \<and> set (n_links net) \<subseteq> set (n_links net')"
proof (induction gis arbitrary: net g)
  case (Cons gi gis)
  obtain delay jitter loss bw g4 where eq: "add_edges gis (add_link (edge_name gi) ''agg1'' bw delay jitter loss
      (add_switch (edge_name gi) net), g4) = (net', g')"
    using Cons.prems by (auto split: prod.splits)
  from Cons.IH [OF eq] show ?case by (simp add: add_link_def add_switch_def)
qed simp

text \<open>The link of a client, to the switch of its gateway, with the properties that were drawn for it.\<close>

definition client_link :: "string \<Rightarrow> assignment \<Rightarrow> link" where
  "client_link switch a = \<lparr>l_node = a_client_host a, l_to = switch, l_bw = a_bw_mbps a, l_delay_ms = a_network_delay_ms a,
     l_jitter_ms = a_network_jitter_ms a, l_loss = a_packet_loss_percent a\<rparr>"

lemma add_clients_shape:
  "add_clients edges as net = Inr net' \<Longrightarrow> n_switches net' = n_switches net
    \<and> n_hosts net' = n_hosts net @ map (\<lambda>a. (a_client_host a, a_client_ip a @ ''/24'')) as
    \<and> n_background_hosts net' = n_background_hosts net
    \<and> n_links net' = n_links net @ map (\<lambda>a. client_link (edges ! (a_gateway_index a - 1)) a) as"
  by (induction as arbitrary: net) (auto simp: add_client_def add_link_def add_host_def client_link_def split: if_splits)

lemma add_background_shape:
  "add_background edges i n (net, g) = Inr (net', g') \<Longrightarrow> n_switches net' = n_switches net
    \<and> n_hosts net' = n_hosts net @ map (\<lambda>k. (bg_name k, client_addr (150 + k) @ ''/24'')) [i..<min (i + n) (max 104 i)]
    \<and> n_background_hosts net' = n_background_hosts net @ map bg_name [i..<min (i + n) (max 104 i)]
    \<and> set (n_links net) \<subseteq> set (n_links net')"
proof (induction n arbitrary: i net g)
  case (Suc n)
  show ?case
  proof (cases "254 \<le> 150 + i")
    case True
    then show ?thesis using Suc.prems by (simp add: max_def)
  next
    case False
    then obtain b bw d j p g1 where "add_background edges (Suc i) n
        ((add_link (bg_name i) b bw d j p (add_host (bg_name i) (client_addr (150 + i)) net))
          \<lparr>n_background_hosts := n_background_hosts net @ [bg_name i]\<rparr>, g1) = Inr (net', g')"
      using Suc.prems by (auto simp: Let_def bg_name_def add_link_def add_host_def split: if_splits prod.splits)
    from Suc.IH [OF this] have IH: "n_switches net' = n_switches net"
      "n_hosts net' = (n_hosts net @ [(bg_name i, client_addr (150 + i) @ ''/24'')])
        @ map (\<lambda>k. (bg_name k, client_addr (150 + k) @ ''/24'')) [Suc i..<min (Suc i + n) (max 104 (Suc i))]"
      "n_background_hosts net' = (n_background_hosts net @ [bg_name i]) @ map bg_name [Suc i..<min (Suc i + n) (max 104 (Suc i))]"
      "set (n_links net) \<subseteq> set (n_links net')"
      by (auto simp: add_link_def add_host_def)
    have "[i..<min (i + Suc n) (max 104 i)] = i # [Suc i..<min (Suc i + n) (max 104 (Suc i))]"
      using False by (subst upt_conv_Cons) (auto simp: max_def)
    then show ?thesis using IH by simp
  qed
qed simp

text \<open>C25: with at least one gateway the multi-tier topology has the core, the aggregation switch and one switch per gateway; the
  server, every assigned client with its address and, up to the end of the subnet, the background hosts that were asked for;
  and every client has its link, with its own properties, to the switch of its gateway. It is a tree: every node has its own name,
  every link joins two nodes, there is one link fewer than nodes, and every node is reachable from the server.\<close>

theorem multi_tier_is_tree:
  assumes "unit_draws g" and "make_assignments n clients_dir device_mix gc g = (Inr as, g1)"
    and "1 \<le> gc" and "model \<noteq> ''simple''"
  shows "\<exists>net g2. build_network model gc bg as g1 = Inr (net, g2) \<and> tree_net net
    \<and> n_switches net = [''core1'', ''agg1''] @ map edge_name [1..<nat gc + 1]
    \<and> n_hosts net = [(''server'', SERVER_IP @ ''/24'')] @ map (\<lambda>a. (a_client_host a, a_client_ip a @ ''/24'')) as
        @ map (\<lambda>k. (bg_name k, client_addr (150 + k) @ ''/24'')) [1..<min (1 + bg) 104]
    \<and> n_background_hosts net = map bg_name [1..<min (1 + bg) 104]
    \<and> (\<forall>a \<in> set as. client_link (edge_name (a_gateway_index a)) a \<in> set (n_links net))"
proof -
  obtain net g2 where net: "build_network model gc bg as g1 = Inr (net, g2)" "tree_net net"
    using multi_tier_network [OF assms, of bg] by blast
  let ?edges = "map edge_name [1..<nat gc + 1]"
  obtain net1 g3 net2 where 1: "add_edges [1..<nat gc + 1] (multi_tier_core, g1) = (net1, g3)"
    and 2: "add_clients ?edges as net1 = Inr net2" and 3: "add_background ?edges 1 bg (net2, g3) = Inr (net, g2)"
    using net(1) assms(4) by (auto simp: build_network_def Let_def bind_res_Inr_iff split: prod.splits simp del: upt_Suc)
  have gateway: "?edges ! (a_gateway_index a - 1) = edge_name (a_gateway_index a)" if "a \<in> set as" for a
  proof -
    have as: "length as = n" "\<forall>j < n. assigned clients_dir device_mix gc (Suc j) (as ! j)"
      using make_assignments_assigned [OF assms(1), of n clients_dir device_mix gc] assms(2) by auto
    from that obtain j where j: "j < n" "a = as ! j" using as(1) by (metis in_set_conv_nth)
    then have "a_gateway_index a = Suc (j mod max 1 (nat gc))" using as(2) by (auto simp: assigned_def)
    moreover have "j mod max 1 (nat gc) < nat gc" using assms(3)
      by (metis max_absorb2 mod_less_divisor nat_mono nat_one_as_int not_gr_zero not_one_le_zero)
    ultimately show ?thesis by (simp del: upt_Suc)
  qed
  have core: "n_switches multi_tier_core = [''core1'', ''agg1'']" "n_hosts multi_tier_core = [(''server'', SERVER_IP @ ''/24'')]"
    "n_background_hosts multi_tier_core = []"
    by (simp_all add: multi_tier_core_def empty_net_def add_link_def add_host_def add_switch_def)
  note shape = add_edges_shape [OF 1] add_clients_shape [OF 2] add_background_shape [OF 3]
  have "max 104 (1 :: nat) = 104" by simp
  moreover have "client_link (edge_name (a_gateway_index a)) a \<in> set (n_links net)" if "a \<in> set as" for a
  proof -
    have "client_link (?edges ! (a_gateway_index a - 1)) a \<in> set (n_links net2)" using shape that by simp
    then show ?thesis using shape gateway [OF that] by auto
  qed
  ultimately show ?thesis using net shape core by (intro exI [of _ net] exI [of _ g2]) (simp del: upt_Suc)
qed

lemma make_assignments_demo:
  "\<exists>as g1. make_assignments n ''/c'' ''heterogeneous-iot'' 4 (\<lambda>_. 1/2) = (Inr as, g1)"
  using make_assignments_assigned [of "\<lambda>_. 1/2" n "''/c''" "''heterogeneous-iot''" 4]
  by (auto simp: unit_draws_def)

lemma multi_tier_is_tree_witness:
  "\<exists>as g1 net g2. make_assignments 50 ''/c'' ''heterogeneous-iot'' 4 (\<lambda>_. 1/2) = (Inr as, g1)
    \<and> build_network ''multi-tier'' 4 16 as g1 = Inr (net, g2) \<and> tree_net net"
proof -
  obtain as g1 where as: "make_assignments 50 ''/c'' ''heterogeneous-iot'' 4 (\<lambda>_. 1/2) = (Inr as, g1)"
    using make_assignments_demo by blast
  have "unit_draws (\<lambda>_. 1/2)" by (simp add: unit_draws_def)
  from multi_tier_is_tree [OF this as, of "''multi-tier''" 16] obtain net g2 where
    "build_network ''multi-tier'' 4 16 as g1 = Inr (net, g2)" "tree_net net" by auto
  with as show ?thesis by blast
qed

text \<open>The hosts of the multi-tier network have distinct addresses exactly when there are at most
  149 clients or no background host: from the 150th client on, a client has the address of the first
  background host.\<close>

lemma testbed_addresses_distinct:
  assumes "unit_draws g" and "make_assignments n clients_dir device_mix gc g = (Inr as, g1)"
    and "1 \<le> gc" and "build_network ''multi-tier'' gc bg as g1 = Inr (net, g2)"
  shows "distinct (map snd (n_hosts net)) \<longleftrightarrow> n \<le> 149 \<or> bg = 0"
proof -
  have "map snd (n_hosts net) = map octet_text (1 # [2..<n + 2] @ [151..<min (151 + bg) 254])"
    using multi_tier_network [OF assms(1-3), of "''multi-tier''" bg] assms(4) by auto
  moreover have "inj_on octet_text A" for A by (simp add: inj_on_def octet_text_inject)
  ultimately have "distinct (map snd (n_hosts net)) = distinct (1 # [2..<n + 2] @ [151..<min (151 + bg) 254])"
    by (simp only: distinct_map simp_thms)
  also have "\<dots> \<longleftrightarrow> {2..<n + 2} \<inter> {151..<min (151 + bg) 254} = {}"
  proof -
    have "1 \<notin> {2..<n + 2} \<union> {151..<min (151 + bg) 254}" by simp
    then show ?thesis by (simp only: distinct.simps distinct_append distinct_upt set_append set_upt simp_thms)
  qed
  also have "\<dots> \<longleftrightarrow> n \<le> 149 \<or> bg = 0"
  proof
    assume e: "{2..<n + 2} \<inter> {151..<min (151 + bg) 254} = {}"
    show "n \<le> 149 \<or> bg = 0"
    proof (rule ccontr)
      assume "\<not> (n \<le> 149 \<or> bg = 0)"
      then have "151 \<in> {2..<n + 2} \<inter> {151..<min (151 + bg) 254}" by simp
      with e show False by blast
    qed
  next
    assume "n \<le> 149 \<or> bg = 0"
    then have "\<not> (x < n + 2 \<and> 151 \<le> x \<and> x < min (151 + bg) 254)" for x by (auto simp: min_def)
    then show "{2..<n + 2} \<inter> {151..<min (151 + bg) 254} = {}"
      unfolding disjoint_iff atLeastLessThan_iff by blast
  qed
  finally show ?thesis .
qed

lemma testbed_addresses_distinct_witness:
  "\<exists>as g1 net g2. make_assignments 150 ''/c'' ''heterogeneous-iot'' 4 (\<lambda>_. 1/2) = (Inr as, g1)
    \<and> build_network ''multi-tier'' 4 16 as g1 = Inr (net, g2) \<and> \<not> distinct (map snd (n_hosts net))"
proof -
  obtain as g1 where as: "make_assignments 150 ''/c'' ''heterogeneous-iot'' 4 (\<lambda>_. 1/2) = (Inr as, g1)"
    using make_assignments_demo by blast
  have u: "unit_draws (\<lambda>_. 1/2)" by (simp add: unit_draws_def)
  have "1 \<le> (4::int)" "''multi-tier'' \<noteq> ''simple''" by simp_all
  from multi_tier_network [OF u as this, of 16] obtain net g2 where
    net: "build_network ''multi-tier'' 4 16 as g1 = Inr (net, g2)" by blast
  from testbed_addresses_distinct [OF u as _ net] have "\<not> distinct (map snd (n_hosts net))" by simp
  with as net show ?thesis by blast
qed

text \<open>Without gateways a multi-tier network with clients cannot be built: the first client's
  gateway indexes an empty list.\<close>

lemma no_gateway_raises:
  "gc \<le> 0 \<Longrightarrow> as \<noteq> [] \<Longrightarrow> build_network ''multi-tier'' gc bg as g = Inl IndexError"
  by (cases as) (simp_all add: build_network_def Let_def)

end
