(* ===== verification/MininetRun.thy ===== *)
theory MininetRun
  imports MininetMetrics MininetNet
begin

text \<open>
  The workloads of \<open>experiments/mininet/mininet_tests_123.py\<close>: the commands sent to the hosts, the
  rows built from their outputs (concurrent batch, sequential run, server side), the
  full-session columns, the CSV files and the enrollment of the ZK-ARCHE clients. What a host answers
  (the output of a command, the elapsed time, the text of the server log) is a parameter.
\<close>

section \<open>Full-session columns\<close>

text \<open>The optional sum of a setup and an authentication quantity: the authentication's alone when one
  of them is missing.\<close>

definition session_ms :: "real option \<Rightarrow> real option \<Rightarrow> real option" where
  "session_ms setup auth = (case (auth, setup) of
       (Some a, Some s) \<Rightarrow> Some (py_round (s + a) 4)
     | _ \<Rightarrow> auth)"

definition session_bytes :: "int option \<Rightarrow> int option \<Rightarrow> int option" where
  "session_bytes setup auth = (case (auth, setup) of
       (Some a, Some s) \<Rightarrow> Some (s + a)
     | _ \<Rightarrow> auth)"

definition session_total :: "int option \<Rightarrow> int option \<Rightarrow> int option" where
  "session_total sent recv = (case (sent, recv) of
       (Some s, Some r) \<Rightarrow> Some (s + r)
     | _ \<Rightarrow> None)"

definition add_full_session_metrics :: "string \<Rightarrow> assignment \<Rightarrow> client_metrics \<Rightarrow> row \<Rightarrow> row" where
  "add_full_session_metrics protocol a m r =
     (let auth_ms = cm_auth_duration_ms m; auth_sent = cm_auth_sent_bytes m; auth_recv = cm_auth_received_bytes m;
          zk = (protocol = ''zkarche'');
          setup_ms = (if zk then a_setup_duration_ms a else Some 0);
          setup_sent = (if zk then a_setup_sent_bytes a else Some 0);
          setup_recv = (if zk then a_setup_received_bytes a else Some 0);
          setup_wall = (if zk then a_setup_wall_elapsed_ms a else Some 0);
          sent = session_bytes setup_sent auth_sent; recv = session_bytes setup_recv auth_recv
      in dict_update
        [(''full_session_duration_ms'', v_float (session_ms setup_ms auth_ms)),
         (''full_session_sent_bytes'', v_int sent),
         (''full_session_received_bytes'', v_int recv),
         (''full_session_total_bytes'', v_int (session_total sent recv))]
        (dict_update
          [(''setup_duration_ms'', v_float setup_ms), (''setup_sent_bytes'', v_int setup_sent),
           (''setup_received_bytes'', v_int setup_recv), (''setup_wall_elapsed_ms'', v_float setup_wall),
           (''auth_duration_ms'', v_float auth_ms), (''auth_sent_bytes'', v_int auth_sent),
           (''auth_received_bytes'', v_int auth_recv)] r))"

section \<open>Rows of a client\<close>

definition SERVER_CPU :: string where
  "SERVER_CPU = ''Intel Core i7-6770HQ @ 2.60GHz''"

definition base_row :: "string \<Rightarrow> string \<Rightarrow> string \<Rightarrow> assignment \<Rightarrow> nat \<Rightarrow> int \<Rightarrow> nat \<Rightarrow> row" where
  "base_row protocol test_id workload a run_index round_index iteration =
     [(''protocol'', VStr protocol), (''test_id'', VStr test_id), (''workload'', VStr workload),
      (''run_index'', VInt (int run_index)), (''round_index'', VInt round_index), (''iteration'', VInt (int iteration)),
      (''client_host'', VStr (a_client_host a)), (''client_ip'', VStr (a_client_ip a)),
      (''client_type'', VStr (a_client_type a)), (''server_cpu'', VStr SERVER_CPU),
      (''network_delay_ms'', VFloat (a_network_delay_ms a)), (''network_jitter_ms'', VFloat (a_network_jitter_ms a)),
      (''packet_loss_percent'', VFloat (a_packet_loss_percent a)),
      (''gateway_name'', VStr (a_gateway_name a)), (''gateway_index'', VInt (int (a_gateway_index a))),
      (''traffic_role'', VStr (a_traffic_role a))]"

definition auth_status :: "int \<Rightarrow> client_metrics \<Rightarrow> string" where
  "auth_status rc m = (if rc = 0 \<and> cm_auth_duration_ms m \<noteq> None then ''AUTH_SUCCESS'' else ''AUTH_FAILED'')"

text \<open>One client's process in a batch: the text it printed and the seconds from its start and
  from the start of the batch to the moment its output was complete.\<close>

record batch_proc =
  bp_output :: string
  bp_wall_s :: real
  bp_batch_s :: real

definition batch_row :: "string \<Rightarrow> string \<Rightarrow> string \<Rightarrow> int \<Rightarrow> nat \<Rightarrow> assignment \<Rightarrow> batch_proc \<Rightarrow> row res" where
  "batch_row protocol test_id workload round_index i a p =
     bind_res (parse_rc_output (bp_output p)) (\<lambda>(rc, cleaned).
     bind_res (parse_client_metrics cleaned) (\<lambda>m.
       Inr (dict_update
         [(''client_cert_sha256'', v_str (cm_client_cert_sha256 m)), (''request_bytes'', v_int (cm_request_bytes m)),
          (''response_bytes'', v_int (cm_response_bytes m)), (''device_id'', v_str (cm_device_id m)),
          (''auth_wall_elapsed_ms'', VFloat (py_round (bp_wall_s p * 1000) 4)),
          (''batch_elapsed_ms'', VFloat (py_round (bp_batch_s p * 1000) 4)),
          (''status'', VStr (auth_status rc m)), (''return_code'', VInt rc),
          (''stdout_tail'', VStr (tail_300 cleaned))]
         (add_full_session_metrics protocol a m
           (base_row protocol test_id workload a (i + 1) round_index (i + 1))))))"

text \<open>\<open>clients\<close> and \<open>assignments\<close> have the same length and order; \<open>procs\<close> are the processes of the
  clients. The loop indexes the assignments from \<open>i\<close>.\<close>

fun execute_batch_from :: "nat \<Rightarrow> string \<Rightarrow> string \<Rightarrow> string \<Rightarrow> int \<Rightarrow> assignment list \<Rightarrow> batch_proc list \<Rightarrow> row list res" where
  "execute_batch_from i protocol test_id workload round_index as [] = Inr []"
| "execute_batch_from i protocol test_id workload round_index as (p # ps) =
     (if length as \<le> i then Inl IndexError
      else bind_res (batch_row protocol test_id workload round_index i (as ! i) p) (\<lambda>r.
           bind_res (execute_batch_from (Suc i) protocol test_id workload round_index as ps) (\<lambda>rows.
             Inr (r # rows))))"

definition execute_concurrent_batch ::
  "string \<Rightarrow> assignment list \<Rightarrow> string \<Rightarrow> string \<Rightarrow> int \<Rightarrow> batch_proc list \<Rightarrow> row list res" where
  "execute_concurrent_batch protocol as test_id workload round_index procs =
     execute_batch_from 0 protocol test_id workload round_index as procs"

text \<open>The sequential test. With \<open>ZKARCHE_CLIENT_REPEAT\<close> on, one command authenticates
  \<open>iterations\<close> times; its \<open>i\<close>-th metrics line is the \<open>i\<close>-th iteration's.\<close>

definition repeat_row :: "string \<Rightarrow> assignment \<Rightarrow> nat \<Rightarrow> int \<Rightarrow> string \<Rightarrow> real \<Rightarrow> client_metrics list \<Rightarrow> nat \<Rightarrow> row" where
  "repeat_row protocol a iterations rc output elapsed_ms ms iteration =
     (let m = (if iteration - 1 < length ms then ms ! (iteration - 1) else no_metrics);
          wall = (if iteration = iterations then VFloat elapsed_ms else VNone)
      in dict_update
        [(''request_bytes'', v_int (cm_request_bytes m)), (''response_bytes'', v_int (cm_response_bytes m)),
         (''device_id'', v_str (cm_device_id m)), (''client_cert_sha256'', v_str (cm_client_cert_sha256 m)),
         (''auth_wall_elapsed_ms'', wall), (''batch_elapsed_ms'', wall),
         (''status'', VStr (auth_status rc m)), (''return_code'', VInt rc), (''stdout_tail'', VStr (tail_300 output))]
        (add_full_session_metrics protocol a m
          (base_row protocol ''2'' ''sequential'' a iteration 1 iteration)))"

definition single_row :: "string \<Rightarrow> assignment \<Rightarrow> nat \<Rightarrow> string \<Rightarrow> real \<Rightarrow> row res" where
  "single_row protocol a iteration output elapsed_s =
     (let elapsed_ms = py_round (elapsed_s * 1000) 4 in
      bind_res (host_cmd_with_status output) (\<lambda>(rc, cleaned).
      bind_res (parse_client_metrics cleaned) (\<lambda>m.
        Inr (dict_update
          [(''client_cert_sha256'', v_str (cm_client_cert_sha256 m)), (''request_bytes'', v_int (cm_request_bytes m)),
           (''response_bytes'', v_int (cm_response_bytes m)), (''device_id'', v_str (cm_device_id m)),
           (''auth_wall_elapsed_ms'', VFloat elapsed_ms), (''batch_elapsed_ms'', VFloat elapsed_ms),
           (''status'', VStr (auth_status rc m)), (''return_code'', VInt rc),
           (''stdout_tail'', VStr (tail_300 cleaned))]
          (add_full_session_metrics protocol a m
            (base_row protocol ''2'' ''sequential'' a iteration 1 iteration))))))"

text \<open>\<open>run k\<close> is the output and the seconds of the host's \<open>k\<close>-th command, counted from 1; \<open>repeat_env\<close>
  is the environment variable.\<close>

definition execute_sequential ::
  "string \<Rightarrow> string option \<Rightarrow> assignment \<Rightarrow> nat \<Rightarrow> (nat \<Rightarrow> string \<times> real) \<Rightarrow> row list res" where
  "execute_sequential protocol repeat_env a iterations run =
     (if protocol = ''zkarche'' \<and> (case repeat_env of Some v \<Rightarrow> v | None \<Rightarrow> ''1'') \<noteq> ''0'' then
        bind_res (host_cmd_with_status (fst (run 1))) (\<lambda>(rc, output).
        bind_res (parse_all_client_metrics output) (\<lambda>ms.
          Inr (map (repeat_row protocol a iterations rc output (py_round (snd (run 1) * 1000) 4) ms)
            [1..<iterations + 1])))
      else map_res (\<lambda>k. single_row protocol a k (fst (run k)) (snd (run k))) [1..<iterations + 1])"

section \<open>Server rows with their setup\<close>

record session_row = server_row +
  ss_setup_duration_ms :: "real option"
  ss_setup_sent_bytes :: "int option"
  ss_setup_received_bytes :: "int option"
  ss_full_session_duration_ms :: "real option"
  ss_full_session_sent_bytes :: "int option"
  ss_full_session_received_bytes :: "int option"
  ss_full_session_total_bytes :: "int option"

text \<open>\<open>{a["client_ip"]: a for a in assignments}\<close>: of equal addresses the last one counts.\<close>

definition by_ip :: "assignment list \<Rightarrow> string \<Rightarrow> assignment option" where
  "by_ip as = map_of (rev (map (\<lambda>a. (a_client_ip a, a)) as))"

definition peer_ip :: "string option \<Rightarrow> string" where
  "peer_ip peer = strip_chars [DQUOTE] (strip (before_first (CHR '':'') (case peer of Some p \<Rightarrow> p | None \<Rightarrow> [])))"

definition full_session_row :: "assignment list \<Rightarrow> server_row \<Rightarrow> session_row" where
  "full_session_row as r =
     (let a = by_ip as (peer_ip (sr_peer r));
          setup_ms = Option.bind a a_server_setup_duration_ms;
          setup_sent = Option.bind a a_server_setup_sent_bytes;
          setup_recv = Option.bind a a_server_setup_received_bytes;
          sent = session_bytes setup_sent (sr_sent_bytes r);
          recv = session_bytes setup_recv (sr_received_bytes r)
      in server_row.extend r
        (session_row.fields setup_ms setup_sent setup_recv
          (session_ms setup_ms (sr_auth_duration_ms r)) sent recv (session_total sent recv)))"

definition add_zkarche_server_full_session_fields :: "server_row list \<Rightarrow> assignment list \<Rightarrow> session_row list" where
  "add_zkarche_server_full_session_fields rows as = map (full_session_row as) rows"

section \<open>CSV files and summaries\<close>

text \<open>\<open>repr\<close> of a float that was rounded to four decimals and is below 10^16: its decimal without
  trailing zeros, but with one digit after the point.\<close>

definition repr_4dp :: "real \<Rightarrow> string" where
  "repr_4dp x = (let t = rstrip_chars ''0'' (show_fixed 4 x) in if last t = CHR ''.'' then t @ ''0'' else t)"

fun cell_text :: "pyval \<Rightarrow> string" where
  "cell_text VNone = []"
| "cell_text (VInt i) = show_int i"
| "cell_text (VFloat x) = repr_4dp x"
| "cell_text (VStr s) = s"

definition cells :: "string list \<Rightarrow> row \<Rightarrow> string list" where
  "cells fieldnames r = map (\<lambda>k. case map_of r k of Some v \<Rightarrow> cell_text v | None \<Rightarrow> []) fieldnames"

text \<open>\<open>None\<close> when nothing is written; \<open>DictWriter\<close> rejects a row with a key the first row does not have.\<close>

definition write_csv :: "row list \<Rightarrow> string option res" where
  "write_csv rows = (case rows of
       [] \<Rightarrow> Inr None
     | r # _ \<Rightarrow>
         (let fieldnames = map fst r in
          if \<forall>x \<in> set rows. set (map fst x) \<subseteq> set fieldnames
          then Inr (Some (csv_write (fieldnames # map (cells fieldnames) rows)))
          else Inl (ValueError ''dict contains fields not in fieldnames'')))"

text \<open>The counts and the mean \<open>print_batch_summary\<close> prints; no mean without a success.\<close>

definition metric_value :: "string \<Rightarrow> row \<Rightarrow> real option" where
  "metric_value k r = (case map_of r k of Some (VFloat x) \<Rightarrow> Some x | Some (VInt i) \<Rightarrow> Some (of_int i) | _ \<Rightarrow> None)"

definition batch_summary :: "row list \<Rightarrow> nat \<times> nat \<times> real option" where
  "batch_summary rows =
     (let key = (case rows of
            [] \<Rightarrow> ''auth_duration_ms''
          | r # _ \<Rightarrow> if map_of r ''full_session_duration_ms'' \<noteq> None then ''full_session_duration_ms'' else ''auth_duration_ms'');
          ok = filter (\<lambda>r. map_of r ''status'' = Some (VStr ''AUTH_SUCCESS'') \<and> metric_value key r \<noteq> None) rows
      in (length ok, length rows - length ok,
          if ok = [] then None else Some (sum_list (map (\<lambda>r. the (metric_value key r)) ok) / real (length ok))))"

section \<open>Enrollment\<close>

definition is_hex :: "char \<Rightarrow> bool" where
  "is_hex c \<longleftrightarrow> is_digit c \<or> c \<in> set ''abcdefABCDEF''"

text \<open>The last line of \<open>--print-pubkey\<close>, which must be 64 hex digits.\<close>

definition server_pubkey :: "string \<Rightarrow> string res" where
  "server_pubkey output =
     (let lines = splitlines output in
      if lines = [] then Inl IndexError
      else let pub = strip (last lines) in
        if length pub = 64 \<and> list_all is_hex pub then Inr pub
        else Inl (RuntimeError (''Could not parse ZK-ARCHE server public key: '' @ pub)))"

text \<open>One client: pin the server key, then set up; the outputs of the two commands and the seconds of
  the second are given.\<close>

definition pin_result :: "string \<Rightarrow> assignment \<Rightarrow> unit res" where
  "pin_result pin_output a =
     bind_res (host_cmd_with_status pin_output) (\<lambda>(rc, out).
       if rc \<noteq> 0 then Inl (RuntimeError (''ZK-ARCHE pin-server-pub failed for '' @ a_client_host a @ '':'' @ [LF] @ out))
       else Inr ())"

definition setup_result :: "string \<Rightarrow> real \<Rightarrow> assignment \<Rightarrow> assignment res" where
  "setup_result setup_output elapsed_s a =
     bind_res (host_cmd_with_status setup_output) (\<lambda>(rc, out).
       if rc \<noteq> 0 then Inl (RuntimeError (''ZK-ARCHE setup failed for '' @ a_client_host a @ '':'' @ [LF] @ out))
       else bind_res (parse_client_metrics out) (\<lambda>m.
         Inr (a\<lparr>a_setup_duration_ms := cm_auth_duration_ms m,
               a_setup_sent_bytes := cm_auth_sent_bytes m,
               a_setup_received_bytes := cm_auth_received_bytes m,
               a_setup_wall_elapsed_ms := Some (py_round (elapsed_s * 1000) 4),
               a_server_setup_duration_ms := None,
               a_server_setup_sent_bytes := None,
               a_server_setup_received_bytes := None\<rparr>)))"

definition enroll_mn_client :: "string \<Rightarrow> string \<times> real \<Rightarrow> assignment \<Rightarrow> assignment res" where
  "enroll_mn_client pin_output setup a =
     bind_res (pin_result pin_output a) (\<lambda>_. setup_result (fst setup) (snd setup) a)"

text \<open>The log is read up to 20 times until it holds a row per client; \<open>logs k\<close> is its text at the
  \<open>k\<close>-th read. The last rows read are used.\<close>

fun poll_setup_rows :: "nat \<Rightarrow> nat \<Rightarrow> (nat \<Rightarrow> string) \<Rightarrow> nat \<Rightarrow> nat \<Rightarrow> server_row list \<Rightarrow> server_row list res" where
  "poll_setup_rows 0 k logs start expected rows = Inr rows"
| "poll_setup_rows (Suc n) k logs start expected rows =
     bind_res (parse_server_metrics_log ''zkarche'' (logs k) start ''setup'' ''setup'' 0) (\<lambda>(rows', _).
       if expected \<le> length rows' then Inr rows'
       else poll_setup_rows n (Suc k) logs start expected rows')"

fun update_last :: "('a \<Rightarrow> bool) \<Rightarrow> ('a \<Rightarrow> 'a) \<Rightarrow> 'a list \<Rightarrow> 'a list" where
  "update_last P f [] = []"
| "update_last P f (x # xs) =
     (if list_ex P xs then x # update_last P f xs else if P x then f x # xs else x # xs)"

definition store_setup_row :: "server_row \<Rightarrow> assignment list \<Rightarrow> assignment list" where
  "store_setup_row r as =
     update_last (\<lambda>a. a_client_ip a = peer_ip (sr_peer r))
       (\<lambda>a. a\<lparr>a_server_setup_duration_ms := sr_auth_duration_ms r,
             a_server_setup_sent_bytes := sr_sent_bytes r,
             a_server_setup_received_bytes := sr_received_bytes r\<rparr>) as"

definition prepare_zkarche_state ::
  "string \<Rightarrow> string \<Rightarrow> (assignment \<Rightarrow> string) \<Rightarrow> (assignment \<Rightarrow> string \<times> real) \<Rightarrow> (nat \<Rightarrow> string)
   \<Rightarrow> assignment list \<Rightarrow> assignment list res" where
  "prepare_zkarche_state pubkey_output log_before pin setup logs as =
     bind_res (server_pubkey pubkey_output) (\<lambda>_.
     bind_res (map_res (\<lambda>a. enroll_mn_client (pin a) (setup a) a) as) (\<lambda>as'.
     bind_res (poll_setup_rows 20 0 logs (length (splitlines log_before)) (length as) []) (\<lambda>rows.
       Inr (fold store_setup_row rows as'))))"



section \<open>The columns of a row\<close>

lemma dict_update_fresh:
  "distinct (map fst kvs) \<Longrightarrow> set (map fst kvs) \<inter> set (map fst r) = {} \<Longrightarrow> dict_update kvs r = r @ kvs"
proof (induction kvs arbitrary: r)
  case Nil
  then show ?case by (simp add: dict_update_def)
next
  case (Cons kv kvs)
  obtain k v where kv: "kv = (k, v)" by fastforce
  have "AList.update k v r = r @ [(k, v)]" if "k \<notin> set (map fst r)"
    using that by (induction r) auto
  then have "AList.update k v r = r @ [(k, v)]" using Cons.prems kv by auto
  moreover have "dict_update kvs (r @ [(k, v)]) = (r @ [(k, v)]) @ kvs"
    using Cons.prems kv by (intro Cons.IH) auto
  ultimately show ?case by (simp add: dict_update_def kv)
qed

definition session_cells :: "string \<Rightarrow> assignment \<Rightarrow> client_metrics \<Rightarrow> row" where
  "session_cells protocol a m =
     (let zk = (protocol = ''zkarche'');
          ms = (if zk then a_setup_duration_ms a else Some 0);
          sent = (if zk then a_setup_sent_bytes a else Some 0);
          recv = (if zk then a_setup_received_bytes a else Some 0);
          full_sent = session_bytes sent (cm_auth_sent_bytes m);
          full_recv = session_bytes recv (cm_auth_received_bytes m)
      in [(''setup_duration_ms'', v_float ms), (''setup_sent_bytes'', v_int sent), (''setup_received_bytes'', v_int recv),
          (''setup_wall_elapsed_ms'', v_float (if zk then a_setup_wall_elapsed_ms a else Some 0)),
          (''auth_duration_ms'', v_float (cm_auth_duration_ms m)), (''auth_sent_bytes'', v_int (cm_auth_sent_bytes m)),
          (''auth_received_bytes'', v_int (cm_auth_received_bytes m)),
          (''full_session_duration_ms'', v_float (session_ms ms (cm_auth_duration_ms m))),
          (''full_session_sent_bytes'', v_int full_sent), (''full_session_received_bytes'', v_int full_recv),
          (''full_session_total_bytes'', v_int (session_total full_sent full_recv))])"

definition BASE_COLUMNS :: "string list" where
  "BASE_COLUMNS = [''protocol'', ''test_id'', ''workload'', ''run_index'', ''round_index'', ''iteration'',
     ''client_host'', ''client_ip'', ''client_type'', ''server_cpu'', ''network_delay_ms'', ''network_jitter_ms'',
     ''packet_loss_percent'', ''gateway_name'', ''gateway_index'', ''traffic_role'']"

definition SESSION_COLUMNS :: "string list" where
  "SESSION_COLUMNS = [''setup_duration_ms'', ''setup_sent_bytes'', ''setup_received_bytes'', ''setup_wall_elapsed_ms'',
     ''auth_duration_ms'', ''auth_sent_bytes'', ''auth_received_bytes'', ''full_session_duration_ms'',
     ''full_session_sent_bytes'', ''full_session_received_bytes'', ''full_session_total_bytes'']"

definition BATCH_COLUMNS :: "string list" where
  "BATCH_COLUMNS = BASE_COLUMNS @ SESSION_COLUMNS @ [''client_cert_sha256'', ''request_bytes'', ''response_bytes'',
     ''device_id'', ''auth_wall_elapsed_ms'', ''batch_elapsed_ms'', ''status'', ''return_code'', ''stdout_tail'']"

definition REPEAT_COLUMNS :: "string list" where
  "REPEAT_COLUMNS = BASE_COLUMNS @ SESSION_COLUMNS @ [''request_bytes'', ''response_bytes'', ''device_id'',
     ''client_cert_sha256'', ''auth_wall_elapsed_ms'', ''batch_elapsed_ms'', ''status'', ''return_code'', ''stdout_tail'']"

lemma fst_base_row: "map fst (base_row protocol t w a i r j) = BASE_COLUMNS"
  by (simp add: base_row_def BASE_COLUMNS_def)

lemma fst_session_cells: "map fst (session_cells protocol a m) = SESSION_COLUMNS"
  by (simp add: session_cells_def SESSION_COLUMNS_def Let_def)

lemma distinct_columns: "distinct BATCH_COLUMNS" "distinct REPEAT_COLUMNS"
  by (simp_all add: BATCH_COLUMNS_def REPEAT_COLUMNS_def BASE_COLUMNS_def SESSION_COLUMNS_def)

lemma add_full_session_base:
  "add_full_session_metrics protocol a m (base_row protocol t w a i r j) = base_row protocol t w a i r j @ session_cells protocol a m"
  (is "_ = ?b @ _")
proof -
  obtain s1 s2 where s: "session_cells protocol a m = s1 @ s2" "length s1 = 7"
    and eq: "add_full_session_metrics protocol a m ?b = dict_update s2 (dict_update s1 ?b)"
    by (rule that [of "take 7 (session_cells protocol a m)" "drop 7 (session_cells protocol a m)"])
      (simp_all add: session_cells_def add_full_session_metrics_def Let_def)
  have "distinct (BASE_COLUMNS @ SESSION_COLUMNS)" using distinct_columns(1) by (simp add: BATCH_COLUMNS_def)
  then have "distinct (map fst (?b @ s1 @ s2))"
    by (simp only: map_append fst_base_row s(1) [symmetric] fst_session_cells)
  then have "dict_update s1 ?b = ?b @ s1" "dict_update s2 (?b @ s1) = (?b @ s1) @ s2"
    by (intro dict_update_fresh; auto)+
  then show ?thesis by (simp add: eq s(1))
qed

lemma finish_row:
  assumes "distinct (BASE_COLUMNS @ SESSION_COLUMNS @ map fst kvs)"
  shows "dict_update kvs (add_full_session_metrics protocol a m (base_row protocol t w a i r j))
    = base_row protocol t w a i r j @ session_cells protocol a m @ kvs"
proof -
  have "set (map fst kvs) \<inter> set (map fst (base_row protocol t w a i r j @ session_cells protocol a m)) = {}"
    unfolding map_append fst_base_row fst_session_cells using assms by auto
  moreover have "distinct (map fst kvs)" using assms by simp
  ultimately show ?thesis by (simp add: add_full_session_base dict_update_fresh)
qed

lemma batch_row_cells:
  "batch_row protocol t w r i a p = Inr x \<longleftrightarrow>
     (\<exists>rc cleaned m. parse_rc_output (bp_output p) = Inr (rc, cleaned) \<and> parse_client_metrics cleaned = Inr m
      \<and> x = base_row protocol t w a (i + 1) r (i + 1) @ session_cells protocol a m @
        [(''client_cert_sha256'', v_str (cm_client_cert_sha256 m)), (''request_bytes'', v_int (cm_request_bytes m)),
          (''response_bytes'', v_int (cm_response_bytes m)), (''device_id'', v_str (cm_device_id m)),
          (''auth_wall_elapsed_ms'', VFloat (py_round (bp_wall_s p * 1000) 4)),
          (''batch_elapsed_ms'', VFloat (py_round (bp_batch_s p * 1000) 4)),
          (''status'', VStr (auth_status rc m)), (''return_code'', VInt rc),
          (''stdout_tail'', VStr (tail_300 cleaned))])"
proof -
  have "distinct (BASE_COLUMNS @ SESSION_COLUMNS @ map fst
        [(''client_cert_sha256'', v_str (cm_client_cert_sha256 m)), (''request_bytes'', v_int (cm_request_bytes m)),
          (''response_bytes'', v_int (cm_response_bytes m)), (''device_id'', v_str (cm_device_id m)),
          (''auth_wall_elapsed_ms'', VFloat (py_round (bp_wall_s p * 1000) 4)),
          (''batch_elapsed_ms'', VFloat (py_round (bp_batch_s p * 1000) 4)),
          (''status'', VStr (auth_status rc m)), (''return_code'', VInt rc),
          (''stdout_tail'', VStr (tail_300 cleaned))])" for m rc cleaned
    using distinct_columns(1) by (simp only: BATCH_COLUMNS_def list.map fst_conv)
  from finish_row [OF this] show ?thesis
    unfolding batch_row_def by (auto simp add: bind_res_Inr_iff split: prod.splits)
qed

lemma repeat_row_cells:
  "\<exists>m wall. (m = (if k - 1 < length ms then ms ! (k - 1) else no_metrics)) \<and> repeat_row protocol a n rc output elapsed ms k
     = base_row protocol ''2'' ''sequential'' a k 1 k @ session_cells protocol a m @
        [(''request_bytes'', v_int (cm_request_bytes m)), (''response_bytes'', v_int (cm_response_bytes m)),
         (''device_id'', v_str (cm_device_id m)), (''client_cert_sha256'', v_str (cm_client_cert_sha256 m)),
         (''auth_wall_elapsed_ms'', wall), (''batch_elapsed_ms'', wall),
         (''status'', VStr (auth_status rc m)), (''return_code'', VInt rc), (''stdout_tail'', VStr (tail_300 output))]"
proof -
  let ?m = "if k - 1 < length ms then ms ! (k - 1) else no_metrics"
  let ?w = "if k = n then VFloat elapsed else VNone"
  have "distinct (BASE_COLUMNS @ SESSION_COLUMNS @ map fst
        [(''request_bytes'', v_int (cm_request_bytes ?m)), (''response_bytes'', v_int (cm_response_bytes ?m)),
         (''device_id'', v_str (cm_device_id ?m)), (''client_cert_sha256'', v_str (cm_client_cert_sha256 ?m)),
         (''auth_wall_elapsed_ms'', ?w), (''batch_elapsed_ms'', ?w),
         (''status'', VStr (auth_status rc ?m)), (''return_code'', VInt rc), (''stdout_tail'', VStr (tail_300 output))])"
    using distinct_columns(2) by (simp only: REPEAT_COLUMNS_def list.map fst_conv)
  from finish_row [OF this] show ?thesis
    unfolding repeat_row_def Let_def by (intro exI [of _ ?m] exI [of _ ?w] conjI refl)
qed


lemma map_of_base: "k \<notin> set BASE_COLUMNS \<Longrightarrow> map_of (base_row protocol t w a i r j @ xs) k = map_of xs k"
  by (simp add: map_of_append map_add_def map_of_eq_None_iff [THEN iffD2] fst_base_row [symmetric] split: option.splits)
     (metis fst_base_row list.set_map map_of_SomeD fst_conv image_eqI)

lemma map_of_session: "k \<notin> set SESSION_COLUMNS \<Longrightarrow> map_of (session_cells protocol a m @ xs) k = map_of xs k"
  by (simp add: map_add_def split: option.splits)
     (metis fst_session_cells list.set_map map_of_SomeD fst_conv image_eqI)

section \<open>Workloads\<close>

lemma execute_batch_from_nth:
  assumes "execute_batch_from i protocol t w r as ps = Inr rows"
  shows "length rows = length ps \<and> i + length ps \<le> max i (length as)
    \<and> (\<forall>j < length ps. batch_row protocol t w r (i + j) (as ! (i + j)) (ps ! j) = Inr (rows ! j))"
  using assms
proof (induction ps arbitrary: i rows)
  case (Cons p ps)
  from Cons.prems obtain x xs where x: "i < length as" "batch_row protocol t w r i (as ! i) p = Inr x"
      "execute_batch_from (Suc i) protocol t w r as ps = Inr xs" "rows = x # xs"
    by (auto simp: bind_res_Inr_iff split: if_splits)
  from Cons.IH [OF x(3)] have IH: "length xs = length ps" "Suc i + length ps \<le> max (Suc i) (length as)"
    "\<forall>j < length ps. batch_row protocol t w r (Suc i + j) (as ! (Suc i + j)) (ps ! j) = Inr (xs ! j)" by auto
  have "batch_row protocol t w r (i + j) (as ! (i + j)) ((p # ps) ! j) = Inr (rows ! j)" if "j < length (p # ps)" for j
    using that x IH(3) by (cases j) auto
  then show ?case using x IH by auto
qed simp

definition authenticated :: "string \<Rightarrow> bool" where
  "authenticated output \<longleftrightarrow> (\<exists>cleaned m. parse_rc_output output = Inr (0, cleaned)
     \<and> parse_client_metrics cleaned = Inr m \<and> cm_auth_duration_ms m \<noteq> None)"

text \<open>C4: a concurrent batch gives one row per client in the clients' order, with the same columns
  in every row, the client's own place and host, and success exactly for
  a client that exited with 0 and printed a duration.\<close>

theorem batch_rows_aligned:
  assumes "execute_concurrent_batch protocol as t w r procs = Inr rows" and "i < length procs"
  shows "length rows = length procs \<and> map fst (rows ! i) = BATCH_COLUMNS
    \<and> map_of (rows ! i) ''run_index'' = Some (VInt (int i + 1))
    \<and> map_of (rows ! i) ''client_host'' = Some (VStr (a_client_host (as ! i)))
    \<and> map_of (rows ! i) ''status''
        = Some (VStr (if authenticated (bp_output (procs ! i)) then ''AUTH_SUCCESS'' else ''AUTH_FAILED''))"
proof -
  have n: "length rows = length procs" "batch_row protocol t w r i (as ! i) (procs ! i) = Inr (rows ! i)"
    using execute_batch_from_nth [of 0 protocol t w r as procs rows] assms by (auto simp: execute_concurrent_batch_def)
  then obtain rc cleaned m where c: "parse_rc_output (bp_output (procs ! i)) = Inr (rc, cleaned)"
      "parse_client_metrics cleaned = Inr m"
    and row: "rows ! i = base_row protocol t w (as ! i) (i + 1) r (i + 1) @ session_cells protocol (as ! i) m @
        [(''client_cert_sha256'', v_str (cm_client_cert_sha256 m)), (''request_bytes'', v_int (cm_request_bytes m)),
          (''response_bytes'', v_int (cm_response_bytes m)), (''device_id'', v_str (cm_device_id m)),
          (''auth_wall_elapsed_ms'', VFloat (py_round (bp_wall_s (procs ! i) * 1000) 4)),
          (''batch_elapsed_ms'', VFloat (py_round (bp_batch_s (procs ! i) * 1000) 4)),
          (''status'', VStr (auth_status rc m)), (''return_code'', VInt rc),
          (''stdout_tail'', VStr (tail_300 cleaned))]"
    unfolding batch_row_cells by blast
  have "map fst (rows ! i) = BATCH_COLUMNS"
    by (simp only: row map_append fst_base_row fst_session_cells list.map fst_conv BATCH_COLUMNS_def)
  moreover have "map_of (rows ! i) ''run_index'' = Some (VInt (int i + 1))"
    "map_of (rows ! i) ''client_host'' = Some (VStr (a_client_host (as ! i)))"
    by (simp_all add: row base_row_def)
  moreover have "map_of (rows ! i) ''status'' = Some (VStr (auth_status rc m))"
    unfolding row by (subst map_of_base, simp add: BASE_COLUMNS_def, subst map_of_session)
      (simp_all add: SESSION_COLUMNS_def)
  moreover have "auth_status rc m = (if authenticated (bp_output (procs ! i)) then ''AUTH_SUCCESS'' else ''AUTH_FAILED'')"
    using c by (auto simp: auth_status_def authenticated_def)
  ultimately show ?thesis using n by simp
qed

definition succeeded :: "row \<Rightarrow> bool" where
  "succeeded r \<longleftrightarrow> map_of r ''status'' = Some (VStr ''AUTH_SUCCESS'')"

lemma client_metrics_of_some: "client_metrics_of ls = Inr ms \<Longrightarrow> m \<in> set ms \<Longrightarrow> cm_auth_duration_ms m \<noteq> None"
proof (induction ls arbitrary: ms)
  case (Cons l ls)
  show ?case
  proof (cases "is_infix ''CLIENT METRICS ->'' l")
    case True
    with Cons.prems(1) obtain x xs where "client_metrics_of ls = Inr xs"
      "ms = (if cm_auth_duration_ms x \<noteq> None then x # xs else xs)"
      unfolding client_metrics_of.simps bind_res_Inr_iff by (auto simp only: if_True bind_res_Inr_iff sum.inject)
    then show ?thesis using Cons.IH Cons.prems(2) by (auto split: if_splits)
  next
    case False
    then show ?thesis using Cons.IH [of ms] Cons.prems by simp
  qed
qed simp

lemma repeat_row_succeeded:
  assumes "\<forall>m \<in> set ms. cm_auth_duration_ms m \<noteq> None" and "1 \<le> k"
  shows "succeeded (repeat_row protocol a n rc output elapsed ms k) \<longleftrightarrow> rc = 0 \<and> k \<le> length ms"
    and "map fst (repeat_row protocol a n rc output elapsed ms k) = REPEAT_COLUMNS"
proof -
  obtain m wall where m: "m = (if k - 1 < length ms then ms ! (k - 1) else no_metrics)"
    and row: "repeat_row protocol a n rc output elapsed ms k
     = base_row protocol ''2'' ''sequential'' a k 1 k @ session_cells protocol a m @
        [(''request_bytes'', v_int (cm_request_bytes m)), (''response_bytes'', v_int (cm_response_bytes m)),
         (''device_id'', v_str (cm_device_id m)), (''client_cert_sha256'', v_str (cm_client_cert_sha256 m)),
         (''auth_wall_elapsed_ms'', wall), (''batch_elapsed_ms'', wall),
         (''status'', VStr (auth_status rc m)), (''return_code'', VInt rc), (''stdout_tail'', VStr (tail_300 output))]"
    using repeat_row_cells [of k ms protocol a n rc "output" elapsed] by (elim exE conjE) (rule that)
  have "map_of (repeat_row protocol a n rc output elapsed ms k) ''status'' = Some (VStr (auth_status rc m))"
    unfolding row by (subst map_of_base, simp add: BASE_COLUMNS_def, subst map_of_session)
      (simp_all add: SESSION_COLUMNS_def)
  moreover have "cm_auth_duration_ms m \<noteq> None \<longleftrightarrow> k \<le> length ms"
    using assms by (auto simp: m no_metrics_def)
  ultimately show "succeeded (repeat_row protocol a n rc output elapsed ms k) \<longleftrightarrow> rc = 0 \<and> k \<le> length ms"
    by (simp add: succeeded_def auth_status_def)
  show "map fst (repeat_row protocol a n rc output elapsed ms k) = REPEAT_COLUMNS"
    by (simp only: row map_append fst_base_row fst_session_cells list.map fst_conv REPEAT_COLUMNS_def)
qed

text \<open>The repeated sequential run gives one row per iteration, all with the same columns; when
  the command exits with 0 the first rows succeed, as many as the output has metrics lines, and
  otherwise none does.\<close>

lemma repeat_run_rows:
  assumes "repeat_env = None \<or> (\<exists>v. repeat_env = Some v \<and> v \<noteq> ''0'')"
    and "host_cmd_with_status (fst (run 1)) = Inr (rc, output)" and "parse_all_client_metrics output = Inr ms"
  shows "\<exists>rows. execute_sequential ''zkarche'' repeat_env a n run = Inr rows \<and> length rows = n
    \<and> (\<forall>row \<in> set rows. map fst row = REPEAT_COLUMNS)
    \<and> map succeeded rows = map (\<lambda>k. rc = 0 \<and> k < length ms) [0..<n]"
proof -
  let ?f = "repeat_row ''zkarche'' a n rc output (py_round (snd (run 1) * 1000) 4) ms"
  have e: "execute_sequential ''zkarche'' repeat_env a n run = Inr (map ?f [1..<n + 1])"
    using assms by (auto simp: execute_sequential_def)
  have ms: "\<forall>m \<in> set ms. cm_auth_duration_ms m \<noteq> None"
    using assms(3) client_metrics_of_some unfolding parse_all_client_metrics_def by blast
  have "map succeeded (map ?f [1..<n + 1]) = map (\<lambda>k. rc = 0 \<and> k < length ms) [0..<n]"
  proof (rule nth_equalityI)
    fix k assume "k < length (map succeeded (map ?f [1..<n + 1]))"
    then show "map succeeded (map ?f [1..<n + 1]) ! k = map (\<lambda>k. rc = 0 \<and> k < length ms) [0..<n] ! k"
      using repeat_row_succeeded(1) [OF ms, of "Suc k"] by (simp add: Suc_le_eq del: upt_Suc)
  qed (simp del: upt_Suc)
  moreover have "\<forall>row \<in> set (map ?f [1..<n + 1]). map fst row = REPEAT_COLUMNS"
    using repeat_row_succeeded(2) [OF ms] by auto
  ultimately show ?thesis using e by (intro exI [of _ "map ?f [1..<n + 1]"]) (simp del: upt_Suc)
qed


definition demo_assignment :: "nat \<Rightarrow> assignment" where
  "demo_assignment i = \<lparr>a_client_index = i, a_client_host = ''pi'' @ show_nat i, a_client_ip = client_addr (i + 1),
     a_client_type = ''Raspberry Pi 5'', a_traffic_role = ''auth_client'', a_gateway_index = 1, a_gateway_name = ''edge1'',
     a_bw_mbps = 100, a_network_delay_ms = 10, a_network_jitter_ms = 2, a_packet_loss_percent = 0,
     a_client_workdir = ''/tmp/pi'' @ show_nat i, a_setup_duration_ms = Some 40, a_setup_sent_bytes = Some 500,
     a_setup_received_bytes = Some 600, a_setup_wall_elapsed_ms = Some 90, a_server_setup_duration_ms = None,
     a_server_setup_sent_bytes = None, a_server_setup_received_bytes = None\<rparr>"

definition demo_line :: string where
  "demo_line = ''CLIENT METRICS -> Duration: 5ms, Sent: 31 bytes, Received: 42 bytes''"

lemma demo_line_metrics: "\<exists>m. parse_client_metrics demo_line = Inr m \<and> counted m (dec_value ''5'' [] * unit_ms ''ms'') 31 42"
proof -
  have d: "is_decimal ''5'' []" and u: "is_unit ''ms''" by (simp_all add: is_decimal_def is_unit_def)
  have l: "demo_line = print_client ''5'' [] ''ms'' 31 42 @ []"
    by (simp add: demo_line_def print_client_def counters_text_def dec_text_def show_nat.simps)
  have "splitlines demo_line = [demo_line]"
    by (rule splitlines_partial) (simp_all add: demo_line_def is_linebreak_def)
  then show ?thesis using client_line_caps [OF d u takes_client_plain [OF d u], of 31 42 "[]" no_metrics]
    by (auto simp: parse_client_metrics_def l)
qed

lemma demo_rc: "parse_rc_output (demo_line @ [LF] @ ''__RC_0__'' @ [LF]) = Inr (0, demo_line)"
proof -
  have "\<not> is_infix ''__RC_'' (demo_line @ [LF])" by (simp add: demo_line_def)
  from parse_rc_output_wrapped [OF this, of "[LF]" 0]
  have "parse_rc_output (demo_line @ [LF] @ ''__RC_0__'' @ [LF]) = Inr (0, strip (demo_line @ [LF]))"
    by (simp add: show_nat.simps)
  moreover have "strip demo_line = demo_line" by code_simp
  ultimately show ?thesis by (simp add: strip_LF)
qed

lemma batch_rows_aligned_witness:
  "\<exists>rows. execute_concurrent_batch ''zkarche'' (map demo_assignment [1, 2]) ''1'' ''concurrent'' 1
      [\<lparr>bp_output = demo_line @ [LF] @ ''__RC_0__'' @ [LF], bp_wall_s = 1, bp_batch_s = 2\<rparr>,
       \<lparr>bp_output = ''killed'', bp_wall_s = 2, bp_batch_s = 3\<rparr>] = Inr rows
    \<and> length rows = 2 \<and> map fst (rows ! 0) = BATCH_COLUMNS
    \<and> map_of (rows ! 0) ''run_index'' = Some (VInt 1)
    \<and> map_of (rows ! 0) ''client_host'' = Some (VStr ''pi1'')
    \<and> map_of (rows ! 0) ''status'' = Some (VStr ''AUTH_SUCCESS'')"
proof -
  let ?p1 = "\<lparr>bp_output = demo_line @ [LF] @ ''__RC_0__'' @ [LF], bp_wall_s = 1, bp_batch_s = 2\<rparr>"
  let ?p2 = "\<lparr>bp_output = ''killed'', bp_wall_s = 2, bp_batch_s = 3\<rparr>"
  obtain m where m: "parse_client_metrics demo_line = Inr m" "cm_auth_duration_ms m \<noteq> None"
    using demo_line_metrics by (auto simp: counted_def)
  have rc2: "parse_rc_output ''killed'' = Inr (999, ''killed'')" by code_simp
  have c2: "parse_client_metrics ''killed'' = Inr no_metrics"
  proof -
    have "splitlines ''killed'' = [''killed'']" by code_simp
    moreover have "client_line ''killed'' no_metrics = Inr no_metrics" by (rule client_line_other) simp
    ultimately show ?thesis by (simp add: parse_client_metrics_def)
  qed
  have "\<exists>x. batch_row ''zkarche'' ''1'' ''concurrent'' 1 0 (demo_assignment 1) ?p1 = Inr x"
    using demo_rc m by (simp add: batch_row_def)
  moreover have "\<exists>x. batch_row ''zkarche'' ''1'' ''concurrent'' 1 1 (demo_assignment 2) ?p2 = Inr x"
    using rc2 c2 by (simp add: batch_row_def)
  ultimately obtain rows where rows: "execute_concurrent_batch ''zkarche'' (map demo_assignment [1, 2]) ''1'' ''concurrent'' 1 [?p1, ?p2] = Inr rows"
    by (auto simp: execute_concurrent_batch_def)
  have "authenticated (bp_output ?p1)" using demo_rc m by (auto simp: authenticated_def)
  with batch_rows_aligned [OF rows, of 0] rows show ?thesis
    by (simp add: demo_assignment_def show_nat.simps)
qed

lemma repeat_run_rows_witness:
  "\<exists>rows. execute_sequential ''zkarche'' None (demo_assignment 1) 3 (\<lambda>_. (demo_line @ [LF] @ ''__RC_0__'' @ [LF], 1)) = Inr rows
    \<and> length rows = 3 \<and> map succeeded rows = [True, False, False]"
proof -
  obtain m where m: "parse_client_metrics demo_line = Inr m" "cm_auth_duration_ms m \<noteq> None"
    using demo_line_metrics by (auto simp: counted_def)
  have s: "strip (demo_line @ [LF] @ ''__RC_0__'' @ [LF]) = demo_line @ [LF] @ ''__RC_0__''" by code_simp
  have "host_cmd_with_status (demo_line @ [LF] @ ''__RC_0__'' @ [LF]) = Inr (0, demo_line)"
    unfolding host_cmd_with_status_def s by code_simp
  moreover have "splitlines demo_line = [demo_line]"
    by (rule splitlines_partial) (simp_all add: demo_line_def is_linebreak_def)
  moreover have "is_infix ''CLIENT METRICS ->'' demo_line" by (simp add: demo_line_def)
  ultimately have "host_cmd_with_status (fst ((\<lambda>_. (demo_line @ [LF] @ ''__RC_0__'' @ [LF], 1 :: real)) (1 :: nat))) = Inr (0, demo_line)"
    "parse_all_client_metrics demo_line = Inr [m]"
    using m by (simp_all add: parse_all_client_metrics_def del: is_infix.simps)
  from repeat_run_rows [OF _ this, of None "demo_assignment 1" 3] show ?thesis
    by (auto simp: upt_rec)
qed


text \<open>C3: the eleven session columns of a row, for a client whose metrics were read: for EDHOC and mTLS the setup columns are
  zero and the full session repeats the authentication's duration and bytes; for ZK-ARCHE they are what enrollment
  measured, and each full-session column adds its setup, if that was measured, to the authentication;
  the total is sent plus received.\<close>

theorem full_session_accounting:
  assumes "counted m d s r" and "rw = add_full_session_metrics protocol a m (base_row protocol t w a i k j)"
  shows "map (map_of rw) [''setup_duration_ms'', ''setup_sent_bytes'', ''setup_received_bytes'', ''setup_wall_elapsed_ms'',
        ''auth_duration_ms'', ''auth_sent_bytes'', ''auth_received_bytes'', ''full_session_duration_ms'',
        ''full_session_sent_bytes'', ''full_session_received_bytes'', ''full_session_total_bytes''] = map Some
     (if protocol \<noteq> ''zkarche''
      then [VFloat 0, VInt 0, VInt 0, VFloat 0, VFloat (py_round d 4), VInt (int s), VInt (int r),
            VFloat (py_round d 4), VInt (int s), VInt (int r), VInt (int s + int r)]
      else let sent = (case a_setup_sent_bytes a of None \<Rightarrow> int s | Some y \<Rightarrow> y + int s);
               received = (case a_setup_received_bytes a of None \<Rightarrow> int r | Some z \<Rightarrow> z + int r)
           in [case a_setup_duration_ms a of None \<Rightarrow> VNone | Some x \<Rightarrow> VFloat x,
               case a_setup_sent_bytes a of None \<Rightarrow> VNone | Some y \<Rightarrow> VInt y,
               case a_setup_received_bytes a of None \<Rightarrow> VNone | Some z \<Rightarrow> VInt z,
               case a_setup_wall_elapsed_ms a of None \<Rightarrow> VNone | Some x \<Rightarrow> VFloat x,
               VFloat (py_round d 4), VInt (int s), VInt (int r),
               VFloat (case a_setup_duration_ms a of None \<Rightarrow> py_round d 4 | Some x \<Rightarrow> py_round (x + py_round d 4) 4),
               VInt sent, VInt received, VInt (sent + received)])"
proof -
  have "map_of rw k = map_of (session_cells protocol a m) k" if "k \<in> set SESSION_COLUMNS" for k
  proof -
    have "k \<notin> set BASE_COLUMNS" using that by (auto simp: SESSION_COLUMNS_def BASE_COLUMNS_def)
    then show ?thesis by (simp only: assms(2) add_full_session_base map_of_base not_False_eq_True)
  qed
  then have cols: "map (map_of rw) SESSION_COLUMNS = map (map_of (session_cells protocol a m)) SESSION_COLUMNS" by (rule map_cong [OF refl])
  have m: "cm_auth_duration_ms m = Some (py_round d 4)" "cm_auth_sent_bytes m = Some (int s)" "cm_auth_received_bytes m = Some (int r)"
    using assms(1) by (simp_all add: counted_def)
  show ?thesis
    unfolding SESSION_COLUMNS_def [symmetric] cols
    by (simp add: SESSION_COLUMNS_def session_cells_def Let_def m session_ms_def session_bytes_def session_total_def
        v_float_def v_int_def split: option.split)
qed

section \<open>Server rows\<close>

lemma by_ip_distinct:
  assumes "distinct (map a_client_ip as)" and "a \<in> set as"
  shows "by_ip as (a_client_ip a) = Some a"
proof -
  have "distinct (map fst (rev (map (\<lambda>a. (a_client_ip a, a)) as)))"
    using assms(1) by (simp add: rev_map [symmetric] comp_def)
  moreover have "(a_client_ip a, a) \<in> set (rev (map (\<lambda>a. (a_client_ip a, a)) as))" using assms(2) by auto
  ultimately show ?thesis unfolding by_ip_def by (rule map_of_is_SomeI)
qed

lemma by_ip_None: "ip \<notin> a_client_ip ` set as \<Longrightarrow> by_ip as ip = None"
  by (auto simp: by_ip_def map_of_eq_None_iff)

lemma peer_ip_plain:
  assumes "\<forall>c \<in> set ip. \<not> is_space c \<and> c \<noteq> DQUOTE \<and> c \<noteq> CHR '':''"
  shows "peer_ip (Some (ip @ CHR '':'' # port)) = ip"
proof -
  have "CHR '':'' \<notin> set ip" using assms by blast
  then have "before_first (CHR '':'') (ip @ CHR '':'' # port) = ip" by simp
  moreover have "strip ip = ip" using assms by (intro strip_no_space) blast
  moreover have "strip_chars [DQUOTE] ip = ip" using assms by (intro strip_chars_none) simp
  ultimately show ?thesis by (simp add: peer_ip_def)
qed

lemma client_addr_plain: "\<forall>c \<in> set (client_addr k). \<not> is_space c \<and> c \<noteq> DQUOTE \<and> c \<noteq> CHR '':''"
  using digits_show_nat [of k] digit_not_space by (auto simp: client_addr_def)

text \<open>A server row whose peer is an address and port of a client gets the setup metrics of that
  client.\<close>

lemma server_row_gets_setup:
  assumes "distinct (map a_client_ip as)" and "a \<in> set as" and "a_client_ip a = client_addr k"
    and "sr_peer r = Some (client_addr k @ CHR '':'' # port)"
    and "a_server_setup_duration_ms a = Some x" and "sr_auth_duration_ms r = Some y"
  shows "ss_setup_duration_ms (full_session_row as r) = Some x
    \<and> ss_full_session_duration_ms (full_session_row as r) = Some (py_round (x + y) 4)
    \<and> server_row.truncate (full_session_row as r) = r"
proof -
  have "by_ip as (peer_ip (sr_peer r)) = Some a"
    using by_ip_distinct [OF assms(1,2)] peer_ip_plain [OF client_addr_plain] assms(3,4) by simp
  then show ?thesis using assms(5,6)
    by (simp add: full_session_row_def Let_def session_ms_def server_row.defs session_row.defs)
qed

text \<open>The ZK-ARCHE server prints its peer as an option, \<open>Some(address:port)\<close>; such a row matches no
  client, so its setup columns stay empty and its full session is the authentication alone.\<close>

lemma some_peer_matches_no_client:
  assumes "\<forall>a \<in> set as. \<exists>k. a_client_ip a = client_addr k"
    and "sr_peer r = Some (''Some('' @ client_addr k @ CHR '':'' # port)"
  shows "ss_setup_duration_ms (full_session_row as r) = None \<and> ss_setup_sent_bytes (full_session_row as r) = None
    \<and> ss_setup_received_bytes (full_session_row as r) = None
    \<and> ss_full_session_duration_ms (full_session_row as r) = sr_auth_duration_ms r
    \<and> store_setup_row r as = as"
proof -
  have "\<forall>c \<in> set (''Some('' @ client_addr k). \<not> is_space c \<and> c \<noteq> DQUOTE \<and> c \<noteq> CHR '':''"
    using client_addr_plain by (auto simp: is_space_def)
  from peer_ip_plain [OF this, of port] have ip: "peer_ip (sr_peer r) = ''Some('' @ client_addr k"
    using assms(2) by simp
  then have ne: "a_client_ip a \<noteq> peer_ip (sr_peer r)" if "a \<in> set as" for a
    using assms(1) that by (auto simp: client_addr_def)
  then have "by_ip as (peer_ip (sr_peer r)) = None" by (intro by_ip_None) force
  moreover have "update_last P f xs = xs" if "\<forall>x \<in> set xs. \<not> P x" for P f and xs :: "assignment list"
    using that by (induction xs) (auto simp: list_ex_iff)
  then have "store_setup_row r as = as" using ne by (simp add: store_setup_row_def)
  ultimately show ?thesis
    by (simp add: full_session_row_def Let_def session_ms_def server_row.defs session_row.defs split: option.splits)
qed

lemma some_peer_matches_no_client_witness:
  "let r = (empty_server_metric_row ''zkarche'' ''1'' ''concurrent'' 1)
      \<lparr>sr_peer := Some (''Some('' @ client_addr 2 @ CHR '':'' # ''41234)''), sr_auth_duration_ms := Some 7\<rparr> in
    ss_setup_duration_ms (full_session_row (map demo_assignment [1, 2]) r) = None
    \<and> ss_setup_sent_bytes (full_session_row (map demo_assignment [1, 2]) r) = None
    \<and> ss_setup_received_bytes (full_session_row (map demo_assignment [1, 2]) r) = None
    \<and> ss_full_session_duration_ms (full_session_row (map demo_assignment [1, 2]) r) = sr_auth_duration_ms r
    \<and> store_setup_row r (map demo_assignment [1, 2]) = map demo_assignment [1, 2]"
  unfolding Let_def
  by (rule some_peer_matches_no_client [where k = 2 and port = "''41234)''"]) (auto simp: demo_assignment_def)

lemma server_row_gets_setup_witness:
  "let r = (empty_server_metric_row ''edhoc'' ''1'' ''concurrent'' 1)
      \<lparr>sr_peer := Some (client_addr 2 @ CHR '':'' # ''41234''), sr_auth_duration_ms := Some 7\<rparr>;
      as = [(demo_assignment 1)\<lparr>a_server_setup_duration_ms := Some 30\<rparr>, demo_assignment 2] in
    ss_setup_duration_ms (full_session_row as r) = Some 30
    \<and> ss_full_session_duration_ms (full_session_row as r) = Some (py_round (30 + 7) 4)
    \<and> server_row.truncate (full_session_row as r) = r"
  unfolding Let_def
  by (rule server_row_gets_setup [where k = 2 and a = "(demo_assignment 1)\<lparr>a_server_setup_duration_ms := Some 30\<rparr>" and port = "''41234''"])
     (auto simp: demo_assignment_def client_addr_def show_nat.simps numeral_2_eq_2 [symmetric])

lemma full_session_accounting_witness:
  "let rw = add_full_session_metrics ''zkarche'' (demo_assignment 1)
        (no_metrics\<lparr>cm_auth_duration_ms := Some (py_round 7 4), cm_auth_sent_bytes := Some (int 3), cm_auth_received_bytes := Some (int 4)\<rparr>)
        (base_row ''zkarche'' ''1'' ''concurrent'' (demo_assignment 1) 1 1 1) in
      map_of rw ''setup_sent_bytes'' = Some (VInt 500)
    \<and> map_of rw ''full_session_duration_ms'' = Some (VFloat (py_round (40 + py_round 7 4) 4))
    \<and> map_of rw ''full_session_sent_bytes'' = Some (VInt (500 + int 3)) \<and> map_of rw ''full_session_received_bytes'' = Some (VInt (600 + int 4))
    \<and> map_of rw ''full_session_total_bytes'' = Some (VInt (500 + int 3 + (600 + int 4)))"
proof -
  let ?m = "no_metrics\<lparr>cm_auth_duration_ms := Some (py_round 7 4), cm_auth_sent_bytes := Some (int 3), cm_auth_received_bytes := Some (int 4)\<rparr>"
  have "counted ?m 7 3 4" by (simp add: counted_def)
  from full_session_accounting [OF this refl, of "''zkarche''" "demo_assignment 1" "''1''" "''concurrent''" 1 1 1]
  show ?thesis by (simp add: Let_def demo_assignment_def)
qed


section \<open>Files\<close>

lemma cells_of_row: "distinct (map fst r) \<Longrightarrow> cells (map fst r) r = map (\<lambda>kv. cell_text (snd kv)) r"
proof -
  assume "distinct (map fst r)"
  then have "map_of r (fst kv) = Some (snd kv)" if "kv \<in> set r" for kv
    using that by (intro map_of_is_SomeI) auto
  then show ?thesis by (auto simp: cells_def)
qed

text \<open>C32: rows that all have the columns of the first are written without error, and reading the file
  back gives the header and the text of every cell, whatever commas, quotes or line feeds the
  output tails hold.\<close>

theorem write_csv_reads_back:
  assumes "rows \<noteq> []" and "\<forall>r \<in> set rows. map fst r = columns" and "columns \<noteq> []" and "distinct columns"
    and "\<forall>k \<in> set columns. plain_field k" and "\<forall>r \<in> set rows. \<forall>v \<in> snd ` set r. plain_field (cell_text v)"
  shows "\<exists>text. write_csv rows = Inr (Some text)
    \<and> csv_read (universal_newlines text) = columns # map (map (\<lambda>kv. cell_text (snd kv))) rows"
proof -
  obtain r rs where rows: "rows = r # rs" using assms(1) by (cases rows) auto
  have r: "map fst r = columns" using assms(2) rows by simp
  have "\<forall>x \<in> set rows. set (map fst x) \<subseteq> set columns" using assms(2) by auto
  then have w: "write_csv rows = Inr (Some (csv_write (columns # map (cells columns) rows)))"
    using rows r by (simp add: write_csv_def Let_def)
  have "map (cells columns) rows = map (map (\<lambda>kv. cell_text (snd kv))) rows"
    using assms(2,4) cells_of_row by auto
  moreover have "plain_row (map (\<lambda>kv. cell_text (snd kv)) x)" if "x \<in> set rows" for x
    using assms(2,3,6) that by (fastforce simp: plain_row_def)
  then have "\<forall>x \<in> set (columns # map (map (\<lambda>kv. cell_text (snd kv))) rows). plain_row x"
    using assms(3,5) by (auto simp: plain_row_def)
  ultimately show ?thesis using w csv_read_write by metis
qed

lemma write_csv_reads_back_witness:
  "\<exists>text. write_csv [[(''client_host'', VStr ''pi1''), (''stdout_tail'', VStr ''ok, done | \"x\"'')],
        [(''client_host'', VStr ''pi2''), (''stdout_tail'', VNone)]] = Inr (Some text)
    \<and> csv_read (universal_newlines text) = [''client_host'', ''stdout_tail''] # map (map (\<lambda>kv. cell_text (snd kv)))
       [[(''client_host'', VStr ''pi1''), (''stdout_tail'', VStr ''ok, done | \"x\"'')],
        [(''client_host'', VStr ''pi2''), (''stdout_tail'', VNone)]]"
  by (rule write_csv_reads_back) (simp_all add: plain_field_def)

section \<open>Enrollment\<close>

lemma map_update_last: "(\<And>x. g (f x) = g x) \<Longrightarrow> map g (update_last P f xs) = map g xs"
  by (induction xs) auto

lemma map_store_rows:
  assumes "\<And>a x y z. g (a\<lparr>a_server_setup_duration_ms := x, a_server_setup_sent_bytes := y, a_server_setup_received_bytes := z\<rparr>) = g a"
  shows "map g (fold store_setup_row rows as) = map g as"
proof (induction rows arbitrary: as)
  case (Cons r rows)
  have "map g (store_setup_row r as) = map g as" unfolding store_setup_row_def by (rule map_update_last) (rule assms)
  with Cons show ?case by simp
qed simp

lemma enroll_mn_client_Inr:
  assumes "enroll_mn_client pin_output setup a = Inr a'"
  shows "\<exists>out cleaned m. host_cmd_with_status pin_output = Inr (0, out) \<and> host_cmd_with_status (fst setup) = Inr (0, cleaned)
    \<and> parse_client_metrics cleaned = Inr m \<and> a_setup_duration_ms a' = cm_auth_duration_ms m
    \<and> a_setup_sent_bytes a' = cm_auth_sent_bytes m \<and> a_setup_received_bytes a' = cm_auth_received_bytes m
    \<and> a_client_host a' = a_client_host a \<and> a_client_ip a' = a_client_ip a"
  using assms by (auto simp: enroll_mn_client_def pin_result_def setup_result_def bind_res_Inr_iff split: if_splits)

text \<open>Enrollment succeeds only if the server key was well formed and every client's two commands
  exited with 0; it keeps the clients and their order, and gives each the setup metrics its own command
  printed, however the server's rows are attributed.\<close>

lemma enrollment_own_metrics:
  assumes "prepare_zkarche_state pubkey log_before pin setup logs as = Inr as'" and "i < length as"
  shows "(\<exists>pub. server_pubkey pubkey = Inr pub) \<and> length as' = length as
    \<and> a_client_host (as' ! i) = a_client_host (as ! i) \<and> a_client_ip (as' ! i) = a_client_ip (as ! i)
    \<and> (\<exists>out cleaned m. host_cmd_with_status (pin (as ! i)) = Inr (0, out)
        \<and> host_cmd_with_status (fst (setup (as ! i))) = Inr (0, cleaned) \<and> parse_client_metrics cleaned = Inr m
        \<and> a_setup_duration_ms (as' ! i) = cm_auth_duration_ms m
        \<and> a_setup_sent_bytes (as' ! i) = cm_auth_sent_bytes m \<and> a_setup_received_bytes (as' ! i) = cm_auth_received_bytes m)"
proof -
  from assms(1) obtain pub bs rows where 1: "server_pubkey pubkey = Inr pub"
      "map_res (\<lambda>a. enroll_mn_client (pin a) (setup a) a) as = Inr bs" "as' = fold store_setup_row rows bs"
    by (auto simp: prepare_zkarche_state_def bind_res_Inr_iff)
  have len: "length bs = length as" and e: "enroll_mn_client (pin (as ! i)) (setup (as ! i)) (as ! i) = Inr (bs ! i)"
    using 1(2) assms(2) by (auto simp: map_res_Inr list_all2_conv_all_nth)
  have lens: "length as' = length bs" using map_store_rows [of "\<lambda>_. ()" rows bs] 1(3) by (metis length_map)
  have keep: "g (as' ! i) = g (bs ! i)"
    if "\<And>a x y z. g (a\<lparr>a_server_setup_duration_ms := x, a_server_setup_sent_bytes := y, a_server_setup_received_bytes := z\<rparr>) = g a"
    for g :: "assignment \<Rightarrow> 'b"
  proof -
    have "map g as' = map g bs" unfolding 1(3) using that by (rule map_store_rows)
    then show ?thesis using lens len assms(2) by (metis nth_map)
  qed
  have "a_client_host (as' ! i) = a_client_host (bs ! i)" "a_client_ip (as' ! i) = a_client_ip (bs ! i)"
    "a_setup_duration_ms (as' ! i) = a_setup_duration_ms (bs ! i)" "a_setup_sent_bytes (as' ! i) = a_setup_sent_bytes (bs ! i)"
    "a_setup_received_bytes (as' ! i) = a_setup_received_bytes (bs ! i)"
    by (rule keep; simp)+
  then show ?thesis using enroll_mn_client_Inr [OF e] 1(1) lens len by auto
qed

definition demo_key :: string where
  "demo_key = replicate 64 (CHR ''a'')"

lemma enrollment_own_metrics_witness:
  "\<exists>as'. prepare_zkarche_state demo_key [] (\<lambda>_. ''__RC_0__'') (\<lambda>_. (demo_line @ [LF] @ ''__RC_0__'' @ [LF], 1))
      (\<lambda>_. []) (map demo_assignment [1, 2]) = Inr as'
    \<and> length as' = 2 \<and> a_client_host (as' ! 0) = ''pi1'' \<and> a_setup_sent_bytes (as' ! 0) = Some 31"
proof -
  obtain m where m: "parse_client_metrics demo_line = Inr m" "cm_auth_sent_bytes m = Some 31"
    using demo_line_metrics by (auto simp: counted_def)
  have s: "strip (demo_line @ [LF] @ ''__RC_0__'' @ [LF]) = demo_line @ [LF] @ ''__RC_0__''" by code_simp
  have h: "host_cmd_with_status (demo_line @ [LF] @ ''__RC_0__'' @ [LF]) = Inr (0, demo_line)"
    unfolding host_cmd_with_status_def s by code_simp
  have pin: "host_cmd_with_status ''__RC_0__'' = Inr (0, [])" by code_simp
  have key: "server_pubkey demo_key = Inr demo_key" by code_simp
  have "poll_setup_rows n k (\<lambda>_. []) 0 e [] = Inr []" for n k e
    by (induction n arbitrary: k) (simp_all add: parse_server_metrics_log_def)
  then have "\<exists>as'. prepare_zkarche_state demo_key [] (\<lambda>_. ''__RC_0__'') (\<lambda>_. (demo_line @ [LF] @ ''__RC_0__'' @ [LF], 1))
      (\<lambda>_. []) (map demo_assignment [1, 2]) = Inr as'"
    using h pin key m by (simp add: prepare_zkarche_state_def enroll_mn_client_def pin_result_def setup_result_def)
  then obtain as' where as': "prepare_zkarche_state demo_key [] (\<lambda>_. ''__RC_0__'') (\<lambda>_. (demo_line @ [LF] @ ''__RC_0__'' @ [LF], 1))
      (\<lambda>_. []) (map demo_assignment [1, 2]) = Inr as'" by blast
  from enrollment_own_metrics [OF as', of 0] as' h m show ?thesis
    by (auto simp: demo_assignment_def show_nat.simps)
qed

end
