(* ===== verification/Shell.thy ===== *)
theory Shell
  imports Csv
begin

text \<open>
  The part of Python's \<open>shlex\<close> module the Mininet scripts rely on: \<open>shlex.quote\<close>, with which they
  build shell commands, and \<open>shlex.split\<close> in its POSIX mode, the reader against which the
  commands are checked.
\<close>

section \<open>Quoting\<close>

abbreviation SQUOTE :: char where "SQUOTE \<equiv> CHR 0x27"
abbreviation BACKSLASH :: char where "BACKSLASH \<equiv> CHR 0x5C"

text \<open>The characters \<open>shlex.quote\<close> leaves unquoted: ASCII letters, digits, underscore and a few more.\<close>

definition shlex_safe :: "char \<Rightarrow> bool" where
  "shlex_safe c \<longleftrightarrow> c \<in> set ''abcdefghijklmnopqrstuvwxyzABCDEFGHIJKLMNOPQRSTUVWXYZ'' \<or> is_digit c
     \<or> c \<in> set ''_@%+=:,./-''"

definition shlex_quote :: "string \<Rightarrow> string" where
  "shlex_quote s =
     (if s = [] then [SQUOTE, SQUOTE]
      else if \<forall>c \<in> set s. shlex_safe c then s
      else SQUOTE # concat (map (\<lambda>c. if c = SQUOTE then [SQUOTE, DQUOTE, SQUOTE, DQUOTE, SQUOTE] else [c]) s) @ [SQUOTE])"

section \<open>Splitting\<close>

text \<open>The lexer's states: before a word, in a word, after a backslash in a word, inside single or
  double quotes, after a backslash in double quotes. The arguments are the characters of the current
  word, reversed, and whether a part of it was quoted.\<close>

datatype sh_mode = Between | Word | Escape | Single | Double | Escape_Double

definition sh_space :: "char \<Rightarrow> bool" where
  "sh_space c \<longleftrightarrow> c \<in> {CHR '' '', CHR 0x09, CR, LF}"

fun sh_words :: "sh_mode \<Rightarrow> string \<Rightarrow> bool \<Rightarrow> string \<Rightarrow> string list res" where
  "sh_words m cur quoted [] =
     (case m of
        Between \<Rightarrow> Inr []
      | Word \<Rightarrow> Inr (if cur \<noteq> [] \<or> quoted then [rev cur] else [])
      | Escape \<Rightarrow> Inl (ValueError ''No escaped character'')
      | Escape_Double \<Rightarrow> Inl (ValueError ''No escaped character'')
      | _ \<Rightarrow> Inl (ValueError ''No closing quotation''))"
| "sh_words Between cur quoted (c # s) =
     (if sh_space c then sh_words Between [] False s
      else if c = SQUOTE then sh_words Single [] True s
      else if c = DQUOTE then sh_words Double [] True s
      else if c = BACKSLASH then sh_words Escape [] False s
      else sh_words Word [c] False s)"
| "sh_words Word cur quoted (c # s) =
     (if sh_space c then
        (if cur \<noteq> [] \<or> quoted then bind_res (sh_words Between [] False s) (\<lambda>ws. Inr (rev cur # ws))
         else sh_words Between [] False s)
      else if c = SQUOTE then sh_words Single cur True s
      else if c = DQUOTE then sh_words Double cur True s
      else if c = BACKSLASH then sh_words Escape cur quoted s
      else sh_words Word (c # cur) quoted s)"
| "sh_words Escape cur quoted (c # s) = sh_words Word (c # cur) quoted s"
| "sh_words Single cur quoted (c # s) =
     (if c = SQUOTE then sh_words Word cur quoted s else sh_words Single (c # cur) quoted s)"
| "sh_words Double cur quoted (c # s) =
     (if c = DQUOTE then sh_words Word cur quoted s
      else if c = BACKSLASH then sh_words Escape_Double cur quoted s
      else sh_words Double (c # cur) quoted s)"
| "sh_words Escape_Double cur quoted (c # s) =
     sh_words Double (c # (if c = BACKSLASH \<or> c = DQUOTE then cur else BACKSLASH # cur)) quoted s"

definition shlex_split :: "string \<Rightarrow> string list res" where
  "shlex_split s = sh_words Between [] False s"

section \<open>Quoted words are read back\<close>

lemma shlex_safe_plain:
  assumes "shlex_safe c"
  shows "\<not> sh_space c" "c \<noteq> SQUOTE" "c \<noteq> DQUOTE" "c \<noteq> BACKSLASH"
  using assms by (auto simp: shlex_safe_def sh_space_def is_digit_def)

lemma shlex_safe_all:
  "\<forall>c \<in> set s. shlex_safe c
   \<Longrightarrow> \<forall>c \<in> set s. \<not> sh_space c \<and> c \<noteq> SQUOTE \<and> c \<noteq> DQUOTE \<and> c \<noteq> BACKSLASH"
  by (simp add: shlex_safe_plain)

lemma shlex_quote_safe: "s \<noteq> [] \<Longrightarrow> \<forall>c \<in> set s. shlex_safe c \<Longrightarrow> shlex_quote s = s"
  by (simp add: shlex_quote_def)

lemma shlex_quote_unsafe:
  assumes "\<not> (s \<noteq> [] \<and> (\<forall>c \<in> set s. shlex_safe c))"
  shows "shlex_quote s = SQUOTE # concat (map (\<lambda>c. if c = SQUOTE then [SQUOTE, DQUOTE, SQUOTE, DQUOTE, SQUOTE] else [c]) s) @ [SQUOTE]"
  using assms unfolding shlex_quote_def by (cases "s = []") (simp, simp only: if_True if_False simp_thms)

lemma sh_words_plain:
  "\<forall>c \<in> set s. \<not> sh_space c \<and> c \<noteq> SQUOTE \<and> c \<noteq> DQUOTE \<and> c \<noteq> BACKSLASH
   \<Longrightarrow> sh_words Word cur q (s @ t) = sh_words Word (rev s @ cur) q t"
  by (induction s arbitrary: cur) auto

lemma sh_words_single:
  "sh_words Single cur q (concat (map (\<lambda>c. if c = SQUOTE then [SQUOTE, DQUOTE, SQUOTE, DQUOTE, SQUOTE] else [c]) s) @ SQUOTE # t)
   = sh_words Word (rev s @ cur) (q \<or> SQUOTE \<in> set s) t"
  by (induction s arbitrary: cur q) (auto simp: sh_space_def)

text \<open>What may follow a word: the end, or a space and more words.\<close>

definition word_end :: "string \<Rightarrow> bool" where
  "word_end t \<longleftrightarrow> t = [] \<or> (\<exists>t'. t = CHR '' '' # t')"

definition cons_res :: "'a \<Rightarrow> 'a list res \<Rightarrow> 'a list res" where
  "cons_res x r = bind_res r (\<lambda>xs. Inr (x # xs))"

lemma sh_words_end:
  "word_end t \<Longrightarrow> cur \<noteq> [] \<or> q \<Longrightarrow> sh_words Word cur q t = cons_res (rev cur) (sh_words Between [] False (drop 1 t))"
  by (auto simp: word_end_def cons_res_def sh_space_def)

lemma sh_words_quote:
  assumes "word_end t"
  shows "sh_words Between [] False (shlex_quote s @ t) = cons_res s (sh_words Between [] False (drop 1 t))"
proof (cases "s \<noteq> [] \<and> (\<forall>c \<in> set s. shlex_safe c)")
  case True
  then obtain c u where s: "s = c # u" by (cases s) auto
  have plain: "\<forall>c \<in> set s. \<not> sh_space c \<and> c \<noteq> SQUOTE \<and> c \<noteq> DQUOTE \<and> c \<noteq> BACKSLASH"
    using True shlex_safe_all [of s] by simp
  have "shlex_quote s = c # u" using True shlex_quote_safe [of s] s by simp
  then have "sh_words Between [] False (shlex_quote s @ t) = sh_words Word [c] False (u @ t)"
    using plain s by simp
  also have "\<dots> = sh_words Word (rev s) False t" using plain s by (simp add: sh_words_plain)
  finally show ?thesis using sh_words_end [OF assms, of "rev s" False] s by simp
next
  case False
  have "sh_words Between [] False (shlex_quote s @ t) = sh_words Word (rev s) True t"
    using shlex_quote_unsafe [OF False] sh_words_single [of "[]" True s t] by (simp add: sh_space_def)
  then show ?thesis using sh_words_end [OF assms, of "rev s" True] by simp
qed

text \<open>Words of plain characters are read as they stand.\<close>

definition sh_plain :: "string \<Rightarrow> bool" where
  "sh_plain w \<longleftrightarrow> w \<noteq> [] \<and> (\<forall>c \<in> set w. \<not> sh_space c \<and> c \<noteq> SQUOTE \<and> c \<noteq> DQUOTE \<and> c \<noteq> BACKSLASH)"

lemma sh_words_word:
  assumes "sh_plain w" and "word_end t"
  shows "sh_words Between [] False (w @ t) = cons_res w (sh_words Between [] False (drop 1 t))"
proof -
  obtain c u where w: "w = c # u" using assms(1) by (cases w) (auto simp: sh_plain_def)
  have "sh_words Between [] False (w @ t) = sh_words Word [c] False (u @ t)"
    using assms(1) w by (simp add: sh_plain_def)
  also have "\<dots> = sh_words Word (rev w) False t" using assms(1) w by (simp add: sh_plain_def sh_words_plain)
  finally show ?thesis using sh_words_end [OF assms(2), of "rev w" False] w by simp
qed

text \<open>A quoted text inside a word, as in \<open>NAME=\<close> and a quoted value, continues the word.\<close>

lemma sh_words_quote_Word:
  assumes "word_end t" and "cur \<noteq> []"
  shows "sh_words Word cur False (shlex_quote s @ t) = cons_res (rev cur @ s) (sh_words Between [] False (drop 1 t))"
proof (cases "s \<noteq> [] \<and> (\<forall>c \<in> set s. shlex_safe c)")
  case True
  then have "\<forall>c \<in> set s. \<not> sh_space c \<and> c \<noteq> SQUOTE \<and> c \<noteq> DQUOTE \<and> c \<noteq> BACKSLASH"
    by (intro shlex_safe_all) (rule conjunct2)
  moreover have "shlex_quote s = s" using True shlex_quote_safe [of s] by simp
  ultimately show ?thesis
    using sh_words_plain [of s cur False t] sh_words_end [OF assms(1), of "rev s @ cur" False] assms(2) by simp
next
  case False
  have "sh_words Word cur False (shlex_quote s @ t) = sh_words Word (rev s @ cur) True t"
    using shlex_quote_unsafe [OF False] sh_words_single [of cur True s t] by (simp add: sh_space_def)
  then show ?thesis using sh_words_end [OF assms(1), of "rev s @ cur" True] by simp
qed

lemma word_end_simps [simp]: "word_end []" "word_end (CHR '' '' # t)"
  by (simp_all add: word_end_def)

lemma sh_space_simps [simp]: "sh_space (CHR '' '')" "is_digit c \<Longrightarrow> \<not> sh_space c"
  by (auto simp: sh_space_def is_digit_def)

lemmas quoted_words = sh_words_quote sh_words_quote [where t = "[]", simplified]
  sh_words_quote_Word sh_words_quote_Word [where t = "[]", simplified]

lemma cons_res_Inr [simp]: "cons_res x (Inr xs) = Inr (x # xs)"
  by (simp add: cons_res_def)

end
