(* ===== verification/Testbed.thy ===== *)
theory Testbed
  imports Shell MininetNet
begin

text \<open>
  The world of the Mininet scripts. Everything a script does to it (a local command, a directory or
  file, the start and stop of the network, a command or process on a host) is an event, and the state
  is the history of these events. The environment decides, from the history, what an event answers or
  which exception it raises, which paths exist and what the clock shows; it is a parameter of
  every operation. The lemmas give rules for what a script adds to the history.
\<close>

section \<open>Events and the environment\<close>

text \<open>A process started on a host is known by the position of its start in the history.\<close>

datatype tb_event =
    LocalRun string string
  | MakeDir string
  | RemoveTree string
  | CopyTree string string
  | WriteFile string string
  | NetStart
  | NetStop
  | HostCmd string string
  | HostPopen string string
  | Communicate nat
  | Terminate nat
  | Poll nat
  | KillProc nat

record answer =
  an_text :: string
  an_rc :: int
  an_running :: bool

type_synonym history = "tb_event list"

record tb_env =
  te_answer :: "history \<Rightarrow> answer res"
  te_exists :: "history \<Rightarrow> string \<Rightarrow> bool"
  te_clock :: "history \<Rightarrow> real"
  te_sha256 :: "string \<Rightarrow> string"
  te_seeded :: "int option \<Rightarrow> rng"

definition ask :: "tb_env \<Rightarrow> tb_event \<Rightarrow> (history, answer) eff" where
  "ask e ev h = (te_answer e (h @ [ev]), h @ [ev])"

definition tell :: "tb_env \<Rightarrow> tb_event \<Rightarrow> (history, unit) eff" where
  "tell e ev = andthen (ask e ev) (\<lambda>_. ret ())"

definition popen :: "tb_env \<Rightarrow> string \<Rightarrow> string \<Rightarrow> (history, nat) eff" where
  "popen e host cmd = (\<lambda>h. andthen (ask e (HostPopen host cmd)) (\<lambda>_. ret (length h)) h)"

definition path_exists :: "tb_env \<Rightarrow> string \<Rightarrow> (history, bool) eff" where
  "path_exists e p h = (Inr (te_exists e h p), h)"

definition clock :: "tb_env \<Rightarrow> (history, real) eff" where
  "clock e h = (Inr (te_clock e h), h)"

text \<open>\<open>try: ... except Exception: pass\<close>. \<open>SystemExit\<close> is no \<open>Exception\<close> and passes.\<close>

definition attempt :: "(history, unit) eff \<Rightarrow> (history, unit) eff" where
  "attempt m h = (case m h of
       (Inl (SystemExit s), h') \<Rightarrow> (Inl (SystemExit s), h')
     | (_, h') \<Rightarrow> (Inr (), h'))"

section \<open>What an operation adds to the history\<close>

definition emits :: "(tb_event \<Rightarrow> bool) \<Rightarrow> (history, 'a) eff \<Rightarrow> bool" where
  "emits P m \<longleftrightarrow> (\<forall>h. \<exists>evs. snd (m h) = h @ evs \<and> list_all P evs)"

named_theorems emits_intros \<open>rules for the events an operation adds\<close>

lemma emitsD:
  assumes "emits P m" and "m h = (r, h')"
  obtains evs where "h' = h @ evs" "list_all P evs"
proof -
  from assms(1) have "\<exists>evs. snd (m h) = h @ evs \<and> list_all P evs" unfolding emits_def by (rule spec)
  with assms(2) that show ?thesis by auto
qed

lemma emits_ret [emits_intros]: "emits P (ret x)"
  by (auto simp: emits_def intro!: exI [of _ "[]"])

lemma emits_Pair [emits_intros]: "emits P (Pair r)"
  by (auto simp: emits_def intro!: exI [of _ "[]"])

lemma emits_raise [emits_intros]: "emits P (raise x)"
  by (auto simp: emits_def intro!: exI [of _ "[]"])

lemma emits_from_res [emits_intros]: "emits P (from_res r)"
  by (auto simp: emits_def intro!: exI [of _ "[]"])

lemma emits_exists [emits_intros]: "emits P (path_exists e p)"
  by (auto simp: emits_def path_exists_def intro!: exI [of _ "[]"])

lemma emits_clock [emits_intros]: "emits P (clock e)"
  by (auto simp: emits_def clock_def intro!: exI [of _ "[]"])

lemma emits_ask [emits_intros]: "P ev \<Longrightarrow> emits P (ask e ev)"
  by (auto simp: emits_def ask_def intro!: exI [of _ "[ev]"])

lemma emits_andthen [emits_intros]:
  assumes m: "emits P m" and f: "\<And>x. emits P (f x)"
  shows "emits P (andthen m f)"
  unfolding emits_def
proof
  fix h
  obtain r h1 where m1: "m h = (r, h1)" by (cases "m h")
  then obtain evs where evs: "h1 = h @ evs" "list_all P evs" using emitsD [OF m] by blast
  show "\<exists>evs. snd (andthen m f h) = h @ evs \<and> list_all P evs"
  proof (cases r)
    case (Inl x)
    then show ?thesis using m1 evs by (auto simp: andthen_def)
  next
    case (Inr x)
    obtain q h2 where f1: "f x h1 = (q, h2)" by (cases "f x h1")
    then obtain evs2 where "h2 = h1 @ evs2" "list_all P evs2" using emitsD [OF f] by blast
    then show ?thesis using m1 evs f1 Inr by (auto simp: andthen_def intro!: exI [of _ "evs @ evs2"])
  qed
qed

lemma emits_try_finally [emits_intros]:
  assumes m: "emits P m" and c: "emits P c"
  shows "emits P (try_finally m c)"
  unfolding emits_def
proof
  fix h
  obtain r h1 where m1: "m h = (r, h1)" by (cases "m h")
  then obtain evs where evs: "h1 = h @ evs" "list_all P evs" using emitsD [OF m] by blast
  obtain q h2 where c1: "c h1 = (q, h2)" by (cases "c h1")
  then obtain evs2 where "h2 = h1 @ evs2" "list_all P evs2" using emitsD [OF c] by blast
  then show "\<exists>evs. snd (try_finally m c h) = h @ evs \<and> list_all P evs"
    using m1 evs c1 by (auto simp: try_finally_def intro!: exI [of _ "evs @ evs2"] split: sum.splits)
qed

lemma emits_tell [emits_intros]: "P ev \<Longrightarrow> emits P (tell e ev)"
  unfolding tell_def by (intro emits_intros)

lemma emits_popen [emits_intros]: "P (HostPopen host cmd) \<Longrightarrow> emits P (popen e host cmd)"
  unfolding popen_def by (auto simp: emits_def ask_def andthen_def split: sum.splits)

lemma emits_attempt [emits_intros]: "emits P m \<Longrightarrow> emits P (attempt m)"
  unfolding emits_def attempt_def by (auto split: prod.splits sum.splits pyerr.splits) (metis snd_conv)+

lemma emits_map_eff [emits_intros]: "(\<And>x. emits P (f x)) \<Longrightarrow> emits P (map_eff f xs)"
  by (induction xs) (auto intro!: emits_intros)

lemma emits_for_each [emits_intros]: "(\<And>x. emits P (f x)) \<Longrightarrow> emits P (for_each f xs)"
  unfolding for_each_def by (intro emits_intros)

lemma emits_if [emits_intros]: "emits P a \<Longrightarrow> emits P b \<Longrightarrow> emits P (if c then a else b)"
  by simp

lemma emits_case_prod [emits_intros]: "(\<And>a b. emits P (f a b)) \<Longrightarrow> emits P (case x of (a, b) \<Rightarrow> f a b)"
  by (simp add: case_prod_unfold)

lemma emits_case_sum [emits_intros]:
  "(\<And>a. emits P (f a)) \<Longrightarrow> (\<And>b. emits P (g b)) \<Longrightarrow> emits P (case x of Inl a \<Rightarrow> f a | Inr b \<Rightarrow> g b)"
  by (cases x) simp_all

lemma emits_case_list [emits_intros]:
  "emits P m \<Longrightarrow> (\<And>y ys. emits P (f y ys)) \<Longrightarrow> emits P (case xs of [] \<Rightarrow> m | y # ys \<Rightarrow> f y ys)"
  by (cases xs) simp_all

lemma emits_mono: "emits P m \<Longrightarrow> (\<And>ev. P ev \<Longrightarrow> Q ev) \<Longrightarrow> emits Q m"
  unfolding emits_def using list.pred_mono_strong [of P _ Q] by metis

section \<open>Sequences of operations\<close>

lemma map_eff_returns:
  assumes "\<And>x h. \<exists>y. fst (f x h) = Inr y"
  shows "\<exists>ys. fst (map_eff f xs h) = Inr ys"
proof (induction xs arbitrary: h)
  case Nil
  then show ?case by simp
next
  case (Cons x xs)
  obtain r h1 where 1: "f x h = (r, h1)" by (cases "f x h")
  moreover obtain y where "r = Inr y" using assms [of x h] 1 by auto
  moreover obtain q h2 where "map_eff f xs h1 = (q, h2)" by (cases "map_eff f xs h1")
  moreover from this obtain ys where "q = Inr ys" using Cons.IH [of h1] by auto
  ultimately show ?case by (simp add: andthen_def)
qed

lemma for_each_returns: "(\<And>x h. fst (f x h) = Inr ()) \<Longrightarrow> fst (for_each f xs h) = Inr ()"
  using map_eff_returns [of f xs h] by (auto simp: for_each_def andthen_def split: prod.splits sum.splits)

lemma andthen_returns: "fst (m h) = Inr () \<Longrightarrow> (\<And>h. fst (f () h) = Inr ()) \<Longrightarrow> fst (andthen m f h) = Inr ()"
  by (cases "m h") (simp add: andthen_def)

text \<open>Operations that never end the program.\<close>

definition no_exit :: "(history, 'a) eff \<Rightarrow> bool" where
  "no_exit m \<longleftrightarrow> (\<forall>h s. fst (m h) \<noteq> Inl (SystemExit s))"

text \<open>Mininet and the standard library raise subclasses of \<open>Exception\<close> only.\<close>

definition only_exceptions :: "tb_env \<Rightarrow> bool" where
  "only_exceptions e \<longleftrightarrow> (\<forall>h s. te_answer e h \<noteq> Inl (SystemExit s))"

lemma no_exit_ret: "no_exit (ret x)"
  by (simp add: no_exit_def)

lemma no_exit_ask: "only_exceptions e \<Longrightarrow> no_exit (ask e ev)"
  by (simp add: no_exit_def only_exceptions_def ask_def)

lemma no_exit_andthen: "no_exit m \<Longrightarrow> (\<And>x. no_exit (f x)) \<Longrightarrow> no_exit (andthen m f)"
  unfolding no_exit_def andthen_def by (simp split: prod.splits sum.splits) (metis fst_conv)

lemma no_exit_tell: "only_exceptions e \<Longrightarrow> no_exit (tell e ev)"
  unfolding tell_def by (intro no_exit_andthen no_exit_ask no_exit_ret)

lemma attempt_returns:
  assumes "no_exit m"
  shows "fst (attempt m h) = Inr ()"
proof -
  obtain r h' where m: "m h = (r, h')" by (cases "m h")
  have "r \<noteq> Inl (SystemExit s)" for s using assms m unfolding no_exit_def by (metis fst_conv)
  then show ?thesis using m by (simp add: attempt_def split: sum.splits pyerr.splits)
qed

section \<open>The life of the network\<close>

text \<open>Events that neither start nor stop the network.\<close>

definition keeps_net :: "tb_event \<Rightarrow> bool" where
  "keeps_net ev \<longleftrightarrow> ev \<noteq> NetStart \<and> ev \<noteq> NetStop"

lemma keeps_net_simps [simp]:
  "keeps_net (LocalRun c d)" "keeps_net (MakeDir d)" "keeps_net (RemoveTree d)" "keeps_net (CopyTree d d')"
  "keeps_net (WriteFile d s)" "keeps_net (HostCmd n c)" "keeps_net (HostPopen n c)" "keeps_net (Communicate k)"
  "keeps_net (Terminate k)" "keeps_net (Poll k)" "keeps_net (KillProc k)"
  by (simp_all add: keeps_net_def)

text \<open>Events on the machine that runs the script, and those that also include commands on hosts but no
  processes.\<close>

fun local_event :: "tb_event \<Rightarrow> bool" where
  "local_event (LocalRun c d) = True"
| "local_event (MakeDir d) = True"
| "local_event (RemoveTree d) = True"
| "local_event (CopyTree d d') = True"
| "local_event (WriteFile d s) = True"
| "local_event _ = False"

fun plain_event :: "tb_event \<Rightarrow> bool" where
  "plain_event (HostCmd n c) = True"
| "plain_event ev = local_event ev"

lemma local_keeps_net: "local_event ev \<Longrightarrow> keeps_net ev"
  by (cases ev) simp_all

lemma plain_keeps_net: "plain_event ev \<Longrightarrow> keeps_net ev"
  by (cases ev) simp_all

lemma local_plain: "local_event ev \<Longrightarrow> plain_event ev"
  by (cases ev) simp_all

lemma emits_local_keeps: "emits local_event m \<Longrightarrow> emits keeps_net m"
  by (rule emits_mono [OF _ local_keeps_net])

lemma emits_local_plain: "emits local_event m \<Longrightarrow> emits plain_event m"
  by (rule emits_mono [OF _ local_plain])

text \<open>Either the run ends with an exception before the network is started, or the network is started, stopped
  last and never in between.\<close>

definition runs_network :: "string \<Rightarrow> (history, 'a) eff \<Rightarrow> bool" where
  "runs_network pkill m \<longleftrightarrow> (\<forall>h r h'. m h = (r, h') \<longrightarrow>
     (\<exists>x evs. r = Inl x \<and> h' = h @ evs \<and> list_all keeps_net evs)
     \<or> (\<exists>pre evs. h' = h @ pre @ NetStart # evs @ [HostCmd ''server'' pkill, NetStop]
          \<and> list_all keeps_net pre \<and> list_all keeps_net evs))"

lemma runs_network_raise: "runs_network pkill (raise x)"
  by (auto simp: runs_network_def)

lemma runs_network_before:
  assumes m: "emits keeps_net m" and f: "\<And>x. runs_network pkill (f x)"
  shows "runs_network pkill (andthen m f)"
  unfolding runs_network_def
proof (intro allI impI)
  fix h r h' assume run: "andthen m f h = (r, h')"
  obtain q h1 where 1: "m h = (q, h1)" by (cases "m h")
  then obtain evs where evs: "h1 = h @ evs" "list_all keeps_net evs" using emitsD [OF m] by blast
  show "(\<exists>x evs. r = Inl x \<and> h' = h @ evs \<and> list_all keeps_net evs)
     \<or> (\<exists>pre evs. h' = h @ pre @ NetStart # evs @ [HostCmd ''server'' pkill, NetStop]
          \<and> list_all keeps_net pre \<and> list_all keeps_net evs)"
  proof (cases q)
    case (Inl x)
    then have "r = Inl x" "h' = h @ evs" using run 1 evs by (simp_all add: andthen_def)
    then show ?thesis using evs(2) by blast
  next
    case (Inr x)
    then have "f x h1 = (r, h')" using run 1 by (simp add: andthen_def)
    with f [of x] consider x' evs2 where "r = Inl x'" "h' = h1 @ evs2" "list_all keeps_net evs2"
      | pre evs2 where "h' = h1 @ pre @ NetStart # evs2 @ [HostCmd ''server'' pkill, NetStop]"
          "list_all keeps_net pre" "list_all keeps_net evs2"
      unfolding runs_network_def by blast
    then show ?thesis
    proof cases
      case 1
      then show ?thesis using evs by auto
    next
      case 2
      then have "h' = h @ (evs @ pre) @ NetStart # evs2 @ [HostCmd ''server'' pkill, NetStop]"
          "list_all keeps_net (evs @ pre)" using evs by simp_all
      then show ?thesis using 2(3) by blast
    qed
  qed
qed

lemma runs_network_then_ret:
  assumes "runs_network pkill m"
  shows "runs_network pkill (andthen m (\<lambda>_. ret x))"
  unfolding runs_network_def
proof (intro allI impI)
  fix h r h' assume run: "andthen m (\<lambda>_. ret x) h = (r, h')"
  obtain q h1 where 1: "m h = (q, h1)" by (cases "m h")
  have "h1 = h'" "\<And>y. q = Inl y \<Longrightarrow> r = Inl y" using run 1 by (auto simp: andthen_def split: sum.splits)
  with assms 1 show "(\<exists>x evs. r = Inl x \<and> h' = h @ evs \<and> list_all keeps_net evs)
     \<or> (\<exists>pre evs. h' = h @ pre @ NetStart # evs @ [HostCmd ''server'' pkill, NetStop]
          \<and> list_all keeps_net pre \<and> list_all keeps_net evs)"
    unfolding runs_network_def by blast
qed

text \<open>At most one network is up, and none at the end.\<close>

fun one_network :: "bool \<Rightarrow> tb_event list \<Rightarrow> bool" where
  "one_network up [] = (\<not> up)"
| "one_network up (ev # evs) =
     (if ev = NetStart then \<not> up \<and> one_network True evs
      else if ev = NetStop then up \<and> one_network False evs
      else one_network up evs)"

lemma one_network_keeps: "list_all keeps_net evs \<Longrightarrow> one_network up (evs @ evs2) = one_network up evs2"
  by (induction evs) (simp_all add: keeps_net_def)

lemma one_network_append: "one_network up evs \<Longrightarrow> one_network False evs2 \<Longrightarrow> one_network up (evs @ evs2)"
  by (induction evs arbitrary: up) auto

lemma runs_network_one:
  assumes "runs_network pkill m" and "m h = (r, h')"
  shows "\<exists>evs. h' = h @ evs \<and> one_network False evs"
proof -
  from assms consider x evs where "r = Inl x" "h' = h @ evs" "list_all keeps_net evs"
    | pre evs where "h' = h @ pre @ NetStart # evs @ [HostCmd ''server'' pkill, NetStop]"
        "list_all keeps_net pre" "list_all keeps_net evs"
    unfolding runs_network_def by blast
  then show ?thesis
  proof cases
    case 1
    then show ?thesis using one_network_keeps [of evs False "[]"] by auto
  next
    case 2
    then show ?thesis by (intro exI [of _ "pre @ NetStart # evs @ [HostCmd ''server'' pkill, NetStop]"])
      (simp add: one_network_keeps)
  qed
qed

section \<open>Scripts that clean up\<close>

text \<open>\<open>try: ... finally: server.cmd("pkill ..."); net.stop()\<close>, the command's exceptions ignored.\<close>

definition stop_network :: "tb_env \<Rightarrow> string \<Rightarrow> (history, unit) eff" where
  "stop_network e pkill = andthen (attempt (tell e (HostCmd ''server'' pkill))) (\<lambda>_. tell e NetStop)"

lemma stop_network_history:
  assumes "only_exceptions e"
  shows "snd (stop_network e pkill h) = h @ [HostCmd ''server'' pkill, NetStop]"
proof -
  have "\<exists>r. attempt (tell e (HostCmd ''server'' pkill)) h = (Inr (), h @ [HostCmd ''server'' pkill])"
    using assms unfolding only_exceptions_def attempt_def tell_def ask_def andthen_def
    by (auto split: sum.splits pyerr.splits)
  then show ?thesis
    by (auto simp: stop_network_def tell_def ask_def andthen_def split: sum.splits)
qed

text \<open>The contract of a script around the network: whatever its session does, which never stops the
  network itself, the run ends with the server killed and the network stopped, once.\<close>

locale cleaned_session =
  fixes e :: tb_env and session :: "(history, 'a) eff" and before_stop :: "(history, unit) eff" and pkill :: string
  assumes session_keeps_net: "emits keeps_net session"
    and before_stop_keeps_net: "emits keeps_net before_stop"
    and before_stop_returns: "only_exceptions e \<Longrightarrow> fst (before_stop h) = Inr ()"
begin

lemma net_stopped_last:
  assumes "only_exceptions e"
  shows "\<exists>evs. snd (try_finally session (andthen before_stop (\<lambda>_. stop_network e pkill)) h)
       = h @ evs @ [HostCmd ''server'' pkill, NetStop] \<and> list_all keeps_net evs"
proof -
  obtain r h1 where s: "session h = (r, h1)" by (cases "session h")
  obtain evs where evs: "h1 = h @ evs" "list_all keeps_net evs"
    using emitsD [OF session_keeps_net s] by blast
  obtain q h2 where b: "before_stop h1 = (q, h2)" by (cases "before_stop h1")
  obtain evs2 where evs2: "h2 = h1 @ evs2" "list_all keeps_net evs2"
    using emitsD [OF before_stop_keeps_net b] by blast
  have q: "q = Inr ()" using before_stop_returns [OF assms, of h1] b by simp
  have "snd (try_finally session (andthen before_stop (\<lambda>_. stop_network e pkill)) h) = snd (stop_network e pkill h2)"
    using s b q by (simp add: try_finally_def andthen_def split: prod.splits sum.splits)
  then show ?thesis using stop_network_history [OF assms, of pkill h2] evs evs2
    by (intro exI [of _ "evs @ evs2"]) simp
qed

text \<open>The outcome is the session's, unless the stop of the network itself raises.\<close>

lemma outcome_kept:
  assumes "only_exceptions e" and "try_finally session (andthen before_stop (\<lambda>_. stop_network e pkill)) h = (r, h')"
  shows "(\<exists>a. te_answer e h' = Inr a) \<longrightarrow> r = fst (session h)"
proof -
  obtain r1 h1 where s: "session h = (r1, h1)" by (cases "session h")
  obtain q h2 where b: "before_stop h1 = (q, h2)" by (cases "before_stop h1")
  have q: "q = Inr ()" using before_stop_returns [OF assms(1), of h1] b by simp
  have "fst (attempt (tell e (HostCmd ''server'' pkill)) h2) = Inr ()"
    by (intro attempt_returns no_exit_tell assms)
  then show ?thesis using assms(2) s b q
    by (auto simp: try_finally_def andthen_def stop_network_def tell_def ask_def split: prod.splits sum.splits)
qed

end

text \<open>A script whose \<open>try\<close> statement also starts the network and that has nothing else to stop.\<close>

locale network_script = cleaned_session e session "ret ()" pkill
  for e :: tb_env and session :: "(history, 'a) eff" and pkill :: string
begin

lemma started_then_stopped:
  assumes "only_exceptions e"
  shows "runs_network pkill (try_finally (andthen (tell e NetStart) (\<lambda>_. session)) (stop_network e pkill))"
  unfolding runs_network_def
proof (intro allI impI disjI2)
  fix h r h' assume run: "try_finally (andthen (tell e NetStart) (\<lambda>_. session)) (stop_network e pkill) h = (r, h')"
  have skip: "andthen (ret ()) (\<lambda>_. m) = m" for m :: "(history, unit) eff" by (simp add: fun_eq_iff andthen_def)
  have "\<exists>evs. h' = h @ NetStart # evs @ [HostCmd ''server'' pkill, NetStop] \<and> list_all keeps_net evs"
  proof (cases "te_answer e (h @ [NetStart])")
    case (Inl x)
    then have "h' = snd (stop_network e pkill (h @ [NetStart]))"
      using run by (auto simp: try_finally_def andthen_def tell_def ask_def split: prod.splits sum.splits)
    then show ?thesis using stop_network_history [OF assms] by simp
  next
    case (Inr a)
    then have "h' = snd (try_finally session (stop_network e pkill) (h @ [NetStart]))"
      using run by (auto simp: try_finally_def andthen_def tell_def ask_def split: prod.splits sum.splits)
    then show ?thesis using net_stopped_last [OF assms, of "h @ [NetStart]"] unfolding skip by auto
  qed
  then obtain evs where "h' = h @ NetStart # evs @ [HostCmd ''server'' pkill, NetStop]" "list_all keeps_net evs" by blast
  then show "\<exists>pre evs. h' = h @ pre @ NetStart # evs @ [HostCmd ''server'' pkill, NetStop]
      \<and> list_all keeps_net pre \<and> list_all keeps_net evs" by (intro exI [of _ "[]"] exI [of _ evs]) simp
qed

end

text \<open>An environment for the witnesses: every event succeeds with an empty answer and every path exists.\<close>

definition quiet_answer :: answer where
  "quiet_answer = \<lparr>an_text = [], an_rc = 0, an_running = False\<rparr>"

definition quiet_env :: tb_env where
  "quiet_env = \<lparr>te_answer = \<lambda>_. Inr quiet_answer, te_exists = \<lambda>_ _. True, te_clock = \<lambda>_. 0,
     te_sha256 = \<lambda>s. s, te_seeded = \<lambda>_ _. 1/2\<rparr>"

end
