(* ===== verification/MininetCommands.thy ===== *)
theory MininetCommands
  imports Testbed
begin

text \<open>
  The commands \<open>experiments/mininet/mininet_tests_123.py\<close> runs: the registry of protocols, the wrapper
  that appends the exit status, the client and server commands of each protocol, the traffic
  generators, the build and the preparation of certificates. Paths are texts joined with slashes.
  The lemmas show that quoting keeps paths intact and that the allowlists cover the clients.
\<close>

section \<open>Protocols\<close>

definition MININET_PAIRING_TOKEN :: string where
  "MININET_PAIRING_TOKEN = ''mininet-pairing-token''"

record mn_protocol =
  mp_server_bin :: string
  mp_client_bin :: string
  mp_port :: nat
  mp_title :: string
  mp_needs_certs :: bool
  mp_needs_setup :: bool

definition MN_PROTOCOLS :: "(string \<times> mn_protocol) list" where
  "MN_PROTOCOLS =
    [(''zkarche'', \<lparr>mp_server_bin = ''zkarche_server'', mp_client_bin = ''zkarche_client'', mp_port = 4000,
        mp_title = ''ZK-ARCHE'', mp_needs_certs = False, mp_needs_setup = True\<rparr>),
     (''mtls'', \<lparr>mp_server_bin = ''mtls_server'', mp_client_bin = ''mtls_client'', mp_port = 7443,
        mp_title = ''mTLS'', mp_needs_certs = True, mp_needs_setup = False\<rparr>),
     (''edhoc'', \<lparr>mp_server_bin = ''edhoc_server'', mp_client_bin = ''edhoc_client'', mp_port = 5688,
        mp_title = ''EDHOC-over-TCP'', mp_needs_certs = False, mp_needs_setup = False\<rparr>)]"

definition mn_protocol_of :: "string \<Rightarrow> mn_protocol res" where
  "mn_protocol_of protocol = (case map_of MN_PROTOCOLS protocol of
       Some cfg \<Rightarrow> Inr cfg
     | None \<Rightarrow> Inl (KeyError protocol))"

definition server_addr :: "mn_protocol \<Rightarrow> string" where
  "server_addr cfg = SERVER_IP @ '':'' @ show_nat (mp_port cfg)"

section \<open>Commands on hosts\<close>

definition wrapped_shell_cmd :: "string \<Rightarrow> string" where
  "wrapped_shell_cmd cmd = ''bash -lc '' @ shlex_quote (''('' @ cmd @ '') 2>&1; rc=$?; echo __RC_${rc}__'')"

text \<open>\<open>Path(p).name\<close> of a path that does not end in a slash.\<close>

definition path_name :: "string \<Rightarrow> string" where
  "path_name p = rev (takeWhile (\<lambda>c. c \<noteq> CHR ''/'') (rev p))"

definition client_auth_cmd :: "string \<Rightarrow> string \<Rightarrow> string \<Rightarrow> string res" where
  "client_auth_cmd protocol client_bin client_workdir =
     bind_res (mn_protocol_of protocol) (\<lambda>cfg.
       let cd = ''cd '' @ shlex_quote client_workdir @ '' && '';
           device_id = path_name client_workdir
       in if protocol = ''zkarche'' then
            Inr (cd @ ''ZKARCHE_FAST_LOOKUP=${ZKARCHE_FAST_LOOKUP:-1} ZKARCHE_BENCH_MODE=${ZKARCHE_BENCH_MODE:-1} ''
              @ ''ZKARCHE_DEVICE_ONLY=${ZKARCHE_DEVICE_ONLY:-0} '' @ shlex_quote client_bin @ '' --server '' @ server_addr cfg)
          else if protocol = ''mtls'' then
            Inr (cd @ ''MTLS_DEVICE_ID='' @ shlex_quote device_id
              @ '' MTLS_PAYLOAD='' @ shlex_quote ''mininet-industry-style-mtls-auth-check''
              @ '' '' @ shlex_quote client_bin @ '' '' @ server_addr cfg @ '' localhost'')
          else if protocol = ''edhoc'' then
            Inr (cd @ ''EDHOC_DEVICE_ID='' @ shlex_quote device_id
              @ '' EDHOC_PAYLOAD='' @ shlex_quote ''mininet-industry-style-edhoc-protected-request''
              @ '' '' @ shlex_quote client_bin @ '' '' @ server_addr cfg)
          else Inl (ValueError protocol))"

text \<open>The command of the repeated sequential run.\<close>

definition repeat_cmd :: "string \<Rightarrow> string \<Rightarrow> nat \<Rightarrow> string res" where
  "repeat_cmd client_bin client_workdir iterations =
     bind_res (mn_protocol_of ''zkarche'') (\<lambda>cfg.
       Inr (''cd '' @ shlex_quote client_workdir @ '' && ''
         @ ''ZKARCHE_FAST_LOOKUP=${ZKARCHE_FAST_LOOKUP:-1} ZKARCHE_BENCH_MODE=${ZKARCHE_BENCH_MODE:-1} ''
         @ ''ZKARCHE_DEVICE_ONLY=${ZKARCHE_DEVICE_ONLY:-0} '' @ shlex_quote client_bin
         @ '' --server '' @ server_addr cfg @ '' --repeat '' @ show_nat iterations))"

definition edhoc_allowed_ids :: "string list" where
  "edhoc_allowed_ids = map (\<lambda>i. ''pi'' @ show_nat i) [1..<501]"

definition server_log :: "string \<Rightarrow> string" where
  "server_log protocol = ''/tmp/'' @ protocol @ ''_tests123_server.log''"

definition server_cmd :: "string \<Rightarrow> string \<Rightarrow> string \<Rightarrow> string res" where
  "server_cmd protocol server_bin server_dir =
     bind_res (mn_protocol_of protocol) (\<lambda>cfg.
     bind_res
       (if protocol = ''zkarche'' then
          Inr ('''', ''--bind '' @ server_addr cfg @ '' --pairing --pairing-token '' @ shlex_quote MININET_PAIRING_TOKEN)
        else if protocol = ''mtls'' then
          Inr (''MTLS_MAX_ACTIVE_CONNECTIONS=128 MTLS_ALLOWED_CLIENTS_FILE=certs/authorized_clients.txt '', server_addr cfg)
        else if protocol = ''edhoc'' then
          Inr (''EDHOC_MAX_ACTIVE_CONNECTIONS=128 EDHOC_TIMEOUT_SECS=5 EDHOC_ALLOWED_DEVICE_IDS=''
            @ shlex_quote (join_str '','' edhoc_allowed_ids) @ '' '', server_addr cfg)
        else Inl (ValueError protocol))
       (\<lambda>(env_prefix, args).
         Inr (''cd '' @ shlex_quote server_dir @ '' && '' @ env_prefix @ shlex_quote server_bin @ '' '' @ args
           @ '' > '' @ server_log protocol @ '' 2>&1 &'')))"

definition pin_cmd :: "string \<Rightarrow> string \<Rightarrow> string \<Rightarrow> string" where
  "pin_cmd client_bin cdir server_pub =
     ''cd '' @ shlex_quote cdir @ '' && '' @ shlex_quote client_bin @ '' --pin-server-pub '' @ server_pub"

definition setup_cmd :: "mn_protocol \<Rightarrow> string \<Rightarrow> string \<Rightarrow> string" where
  "setup_cmd cfg client_bin cdir =
     ''cd '' @ shlex_quote cdir @ '' && '' @ shlex_quote client_bin @ '' --server '' @ server_addr cfg
     @ '' --setup --pairing-token '' @ shlex_quote MININET_PAIRING_TOKEN"

definition log_cmd :: "string \<Rightarrow> string" where
  "log_cmd path = ''cat '' @ shlex_quote path @ '' 2>/dev/null || true''"

definition pkill_cmd :: "mn_protocol \<Rightarrow> string" where
  "pkill_cmd cfg = ''pkill -f '' @ shlex_quote (mp_server_bin cfg) @ '' || true''"

section \<open>Traffic generators\<close>

text \<open>The host a flow runs on and its command; an interval is one of four with at most one decimal.\<close>

definition show_interval :: "real \<Rightarrow> string" where
  "show_interval x = show_fixed 1 x"

fun flow_command :: "flow \<Rightarrow> string \<times> string" where
  "flow_command (Sink port) = (''server'',
     ''iperf -s -p '' @ show_nat port @ '' >/tmp/bg_iperf_server_'' @ show_nat port @ ''.log 2>&1'')"
| "flow_command (Ping h interval sz) = (h,
     ''ping -i '' @ show_interval interval @ '' -s '' @ show_nat sz @ '' '' @ SERVER_IP
     @ '' >/tmp/'' @ h @ ''_bg_ping.log 2>&1'')"
| "flow_command (TcpFlow h port pause) = (h,
     ''while true; do iperf -c '' @ SERVER_IP @ '' -p '' @ show_nat port @ '' -t 5 >/tmp/'' @ h
     @ ''_bg_tcp.log 2>&1; sleep '' @ show_nat pause @ ''; done'')"
| "flow_command (UdpFlow h port rate len pause) = (h,
     ''while true; do iperf -u -c '' @ SERVER_IP @ '' -p '' @ show_nat port @ '' -b '' @ rate @ '' -l '' @ show_nat len
     @ '' -t 6 >/tmp/'' @ h @ ''_bg_udp.log 2>&1; sleep '' @ show_nat pause @ ''; done'')"

definition launch_flows :: "tb_env \<Rightarrow> flow list \<Rightarrow> (history, nat list) eff" where
  "launch_flows e flows = map_eff (\<lambda>f. case flow_command f of (host, cmd) \<Rightarrow> popen e host cmd) flows"

definition stop_background_traffic :: "tb_env \<Rightarrow> nat list \<Rightarrow> (history, unit) eff" where
  "stop_background_traffic e procs =
     andthen (for_each (\<lambda>p. attempt (tell e (Terminate p))) procs) (\<lambda>_.
       for_each (\<lambda>p. attempt (andthen (ask e (Poll p)) (\<lambda>a.
         if an_running a then tell e (KillProc p) else ret ()))) procs)"

section \<open>Build and certificates\<close>

definition run_local :: "tb_env \<Rightarrow> string \<Rightarrow> string \<Rightarrow> (history, string) eff" where
  "run_local e cmd cwd =
     andthen (ask e (LocalRun cmd cwd)) (\<lambda>a.
       if an_rc a \<noteq> 0 then raise (RuntimeError (''Command failed: '' @ cmd)) else ret (strip (an_text a)))"

definition CERT_FILES :: "string list" where
  "CERT_FILES = [''ca.crt'', ''client.crt'', ''client.key'', ''server.crt'', ''server.key'']"

text \<open>\<open>not cert_dir.exists() or any(not (cert_dir / name).exists() for name in needed)\<close>.\<close>

fun missing_file :: "tb_env \<Rightarrow> string \<Rightarrow> string list \<Rightarrow> (history, bool) eff" where
  "missing_file e dir [] = ret False"
| "missing_file e dir (n # ns) =
     andthen (path_exists e (dir @ ''/'' @ n)) (\<lambda>there. if there then missing_file e dir ns else ret True)"

definition certs_missing :: "tb_env \<Rightarrow> string \<Rightarrow> (history, bool) eff" where
  "certs_missing e cert_dir =
     andthen (path_exists e cert_dir) (\<lambda>there. if there then missing_file e cert_dir CERT_FILES else ret True)"

definition protocol_bins :: "tb_env \<Rightarrow> string \<Rightarrow> string \<Rightarrow> (history, string \<times> string) eff" where
  "protocol_bins e project protocol =
     andthen (from_res (mn_protocol_of protocol)) (\<lambda>cfg.
       let server_bin = project @ ''/target/release/'' @ mp_server_bin cfg;
           client_bin = project @ ''/target/release/'' @ mp_client_bin cfg
       in andthen (path_exists e server_bin) (\<lambda>s.
          if \<not> s then raise (FileNotFoundError (''Missing server binary: '' @ server_bin))
          else andthen (path_exists e client_bin) (\<lambda>c.
            if \<not> c then raise (FileNotFoundError (''Missing client binary: '' @ client_bin))
            else ret (server_bin, client_bin))))"

definition prepare_project :: "tb_env \<Rightarrow> string \<Rightarrow> string list \<Rightarrow> (history, (string \<times> string) list) eff" where
  "prepare_project e project protocols =
     andthen (path_exists e (project @ ''/Cargo.toml'')) (\<lambda>there.
       if \<not> there then raise (FileNotFoundError (''Cargo.toml not found in '' @ project))
       else
         andthen
           (if ''mtls'' \<in> set protocols then
              andthen (certs_missing e (project @ ''/certs'')) (\<lambda>missing.
                if missing then andthen (run_local e ''bash scripts/gen_certs.sh'' project) (\<lambda>_. ret ()) else ret ())
            else ret ()) (\<lambda>_.
         andthen (run_local e ''cargo build --release --bins'' project) (\<lambda>_.
           map_eff (protocol_bins e project) protocols)))"

definition copy_certs_if_needed :: "tb_env \<Rightarrow> string \<Rightarrow> string \<Rightarrow> string \<Rightarrow> assignment list \<Rightarrow> (history, unit) eff" where
  "copy_certs_if_needed e project protocol workdir as =
     andthen (from_res (mn_protocol_of protocol)) (\<lambda>cfg.
       if \<not> mp_needs_certs cfg then ret ()
       else andthen (tell e (MakeDir (workdir @ ''/server''))) (\<lambda>_.
            andthen (tell e (CopyTree (project @ ''/certs'') (workdir @ ''/server/certs''))) (\<lambda>_.
              for_each (\<lambda>a. tell e (CopyTree (project @ ''/certs'') (a_client_workdir a @ ''/certs''))) as)))"

text \<open>\<open>cert_fingerprint_sha256_pem\<close> and the allowlist with its one fingerprint. The digest is the
  environment's; a failing \<open>openssl\<close> raises.\<close>

definition cert_fingerprint :: "tb_env \<Rightarrow> string \<Rightarrow> (history, string) eff" where
  "cert_fingerprint e cert_path =
     andthen (ask e (LocalRun (''openssl x509 -in '' @ cert_path @ '' -outform der'') ''.'')) (\<lambda>a.
       if an_rc a \<noteq> 0 then raise CalledProcessError else ret (te_sha256 e (an_text a)))"

definition allowlist_text :: "string \<Rightarrow> string" where
  "allowlist_text fp = ''# Authorized mTLS client certificate fingerprints'' @ [LF] @ fp @ [LF]"

definition prepare_mtls_authorized_clients :: "tb_env \<Rightarrow> string \<Rightarrow> string \<Rightarrow> (history, string) eff" where
  "prepare_mtls_authorized_clients e project workdir =
     andthen (cert_fingerprint e (project @ ''/certs/client.crt'')) (\<lambda>fp.
     andthen (tell e (MakeDir (workdir @ ''/server/certs''))) (\<lambda>_.
     andthen (tell e (WriteFile (workdir @ ''/server/certs/authorized_clients.txt'') (allowlist_text fp))) (\<lambda>_.
       ret fp)))"

section \<open>Quoting keeps paths intact\<close>

text \<open>Whatever the command to wrap holds, quotes included, the shell that starts the wrapper sees
  three words, and the last is the command in parentheses with the report of its exit status.\<close>

lemma wrapped_cmd_words:
  "shlex_split (wrapped_shell_cmd cmd) = Inr [''bash'', ''-lc'', ''('' @ cmd @ '') 2>&1; rc=$?; echo __RC_${rc}__'']"
  by (simp add: shlex_split_def wrapped_shell_cmd_def quoted_words sh_space_def)

text \<open>The words of a client's command: environment and arguments per protocol.\<close>

definition client_env :: "string \<Rightarrow> string \<Rightarrow> string list" where
  "client_env protocol device_id =
     (if protocol = ''zkarche'' then
        [''ZKARCHE_FAST_LOOKUP=${ZKARCHE_FAST_LOOKUP:-1}'', ''ZKARCHE_BENCH_MODE=${ZKARCHE_BENCH_MODE:-1}'',
         ''ZKARCHE_DEVICE_ONLY=${ZKARCHE_DEVICE_ONLY:-0}'']
      else if protocol = ''mtls'' then
        [''MTLS_DEVICE_ID='' @ device_id, ''MTLS_PAYLOAD=mininet-industry-style-mtls-auth-check'']
      else [''EDHOC_DEVICE_ID='' @ device_id, ''EDHOC_PAYLOAD=mininet-industry-style-edhoc-protected-request''])"

definition client_args :: "string \<Rightarrow> string list" where
  "client_args protocol =
     (if protocol = ''zkarche'' then [''--server'', ''10.0.0.1:4000'']
      else if protocol = ''mtls'' then [''10.0.0.1:7443'', ''localhost'']
      else [''10.0.0.1:5688''])"

lemma quote_payloads:
  "shlex_quote ''mininet-industry-style-mtls-auth-check'' = ''mininet-industry-style-mtls-auth-check''"
  "shlex_quote ''mininet-industry-style-edhoc-protected-request'' = ''mininet-industry-style-edhoc-protected-request''"
  by (simp_all add: shlex_quote_def shlex_safe_def)

lemma show_ports: "show_nat 4000 = ''4000''" "show_nat 7443 = ''7443''" "show_nat 5688 = ''5688''"
  by (simp_all add: show_nat.simps numeral_2_eq_2 [symmetric])

lemma server_addrs:
  "map_of MN_PROTOCOLS ''zkarche'' = Some cfg \<Longrightarrow> server_addr cfg = ''10.0.0.1:4000''"
  "map_of MN_PROTOCOLS ''mtls'' = Some cfg \<Longrightarrow> server_addr cfg = ''10.0.0.1:7443''"
  "map_of MN_PROTOCOLS ''edhoc'' = Some cfg \<Longrightarrow> server_addr cfg = ''10.0.0.1:5688''"
  by (auto simp: MN_PROTOCOLS_def server_addr_def SERVER_IP_def show_ports)

text \<open>For every protocol the client command, split by the shell, changes to the client's
  directory and runs the client's binary there, each a single word whatever the paths hold, with the
  protocol's environment, the device id of the directory and the server's address.\<close>

lemma client_cmd_words:
  assumes "map_of MN_PROTOCOLS protocol = Some cfg"
  shows "\<exists>cmd. client_auth_cmd protocol bin wd = Inr cmd
    \<and> shlex_split cmd = Inr ([''cd'', wd, ''&&''] @ client_env protocol (path_name wd) @ [bin] @ client_args protocol)"
proof -
  have "protocol = ''zkarche'' \<or> protocol = ''mtls'' \<or> protocol = ''edhoc''"
    using assms by (auto simp: MN_PROTOCOLS_def split: if_splits)
  then show ?thesis
  proof (elim disjE)
    assume [simp]: "protocol = ''zkarche''"
    show ?thesis using assms server_addrs(1) [of cfg]
      by (simp add: client_auth_cmd_def mn_protocol_of_def Let_def shlex_split_def quoted_words sh_space_def
        client_env_def client_args_def)
  next
    assume [simp]: "protocol = ''mtls''"
    show ?thesis using assms server_addrs(2) [of cfg]
      by (simp add: client_auth_cmd_def mn_protocol_of_def Let_def shlex_split_def quoted_words sh_space_def
        client_env_def client_args_def quote_payloads)
  next
    assume [simp]: "protocol = ''edhoc''"
    show ?thesis using assms server_addrs(3) [of cfg]
      by (simp add: client_auth_cmd_def mn_protocol_of_def Let_def shlex_split_def quoted_words sh_space_def
        client_env_def client_args_def quote_payloads)
  qed
qed

lemma client_cmd_words_witness:
  "\<exists>cmd. client_auth_cmd ''mtls'' ''/b in/c'' ''/w/pi1'' = Inr cmd
    \<and> shlex_split cmd = Inr ([''cd'', ''/w/pi1'', ''&&''] @ client_env ''mtls'' (path_name ''/w/pi1'')
        @ [''/b in/c''] @ client_args ''mtls'')"
  by (rule client_cmd_words) (simp add: MN_PROTOCOLS_def)

section \<open>The EDHOC allowlist\<close>

lemma path_name_last: "CHR ''/'' \<notin> set n \<Longrightarrow> path_name (d @ CHR ''/'' # n) = n"
  by (simp add: path_name_def)

lemma path_name_assigned:
  assumes "assigned dir mix gc i a"
  shows "path_name (a_client_workdir a) = ''pi'' @ show_nat i"
proof -
  have "a_client_workdir a = dir @ CHR ''/'' # ''pi'' @ show_nat i" using assms by (simp add: assigned_def)
  moreover have "CHR ''/'' \<notin> set (''pi'' @ show_nat i)" using digits_show_nat [of i] by (auto simp: is_digit_def)
  ultimately show ?thesis using path_name_last by metis
qed

lemma edhoc_allowed_iff: "''pi'' @ show_nat i \<in> set edhoc_allowed_ids \<longleftrightarrow> 1 \<le> i \<and> i \<le> 500"
proof -
  have "''pi'' @ show_nat i \<in> set edhoc_allowed_ids \<longleftrightarrow> i \<in> set [1..<501]"
    unfolding edhoc_allowed_ids_def set_map using show_nat_inject by (auto simp del: upt_Suc set_upt)
  also have "\<dots> \<longleftrightarrow> 1 \<le> i \<and> i \<le> 500" unfolding set_upt atLeastLessThan_iff by linarith
  finally show ?thesis .
qed

lemma edhoc_server_words:
  "\<exists>cmd. server_cmd ''edhoc'' bin sd = Inr cmd \<and> shlex_split cmd = Inr
     ([''cd'', sd, ''&&'', ''EDHOC_MAX_ACTIVE_CONNECTIONS=128'', ''EDHOC_TIMEOUT_SECS=5'',
       ''EDHOC_ALLOWED_DEVICE_IDS='' @ join_str '','' edhoc_allowed_ids, bin, ''10.0.0.1:5688'',
       ''>'', ''/tmp/edhoc_tests123_server.log'', ''2>&1'', ''&''])"
proof -
  obtain cfg where "map_of MN_PROTOCOLS ''edhoc'' = Some cfg" by (simp add: MN_PROTOCOLS_def)
  then show ?thesis using server_addrs(3) [of cfg]
    by (simp add: server_cmd_def mn_protocol_of_def shlex_split_def quoted_words sh_space_def server_log_def)
qed

text \<open>The EDHOC server is given the device ids it accepts as one word, a comma-separated list, and every
  client of a run is on it exactly when there are at most 500 clients.\<close>

lemma edhoc_allowlist_covers:
  assumes "unit_draws g" and "make_assignments n dir mix gc g = (Inr as, g')"
  shows "(\<exists>cmd ws. server_cmd ''edhoc'' bin sd = Inr cmd \<and> shlex_split cmd = Inr ws
        \<and> ''EDHOC_ALLOWED_DEVICE_IDS='' @ join_str '','' edhoc_allowed_ids \<in> set ws)
    \<and> (list_all (\<lambda>a. path_name (a_client_workdir a) \<in> set edhoc_allowed_ids) as \<longleftrightarrow> n \<le> 500)"
proof
  show "\<exists>cmd ws. server_cmd ''edhoc'' bin sd = Inr cmd \<and> shlex_split cmd = Inr ws
        \<and> ''EDHOC_ALLOWED_DEVICE_IDS='' @ join_str '','' edhoc_allowed_ids \<in> set ws"
    using edhoc_server_words [of bin sd] by fastforce
  from make_assignments_assigned [OF assms(1), of n dir mix gc] assms(2)
  have as: "length as = n" "\<forall>j < n. assigned dir mix gc (Suc j) (as ! j)" by auto
  have one: "path_name (a_client_workdir (as ! j)) \<in> set edhoc_allowed_ids \<longleftrightarrow> Suc j \<le> 500" if "j < n" for j
  proof -
    have "assigned dir mix gc (Suc j) (as ! j)" using as(2) that by blast
    from path_name_assigned [OF this] show ?thesis by (simp only: edhoc_allowed_iff) simp
  qed
  have "list_all (\<lambda>a. path_name (a_client_workdir a) \<in> set edhoc_allowed_ids) as \<longleftrightarrow> (\<forall>j < n. Suc j \<le> 500)"
    unfolding list_all_length as(1) using one by blast
  also have "\<dots> \<longleftrightarrow> n \<le> 500" by (cases n) (auto simp: less_Suc_eq_le)
  finally show "list_all (\<lambda>a. path_name (a_client_workdir a) \<in> set edhoc_allowed_ids) as \<longleftrightarrow> n \<le> 500" .
qed

lemma edhoc_allowlist_covers_witness:
  "\<exists>as g'. make_assignments 50 ''/c'' ''heterogeneous-iot'' 4 (\<lambda>_. 1/2) = (Inr as, g')
    \<and> list_all (\<lambda>a. path_name (a_client_workdir a) \<in> set edhoc_allowed_ids) as"
proof -
  obtain as g' where as: "make_assignments 50 ''/c'' ''heterogeneous-iot'' 4 (\<lambda>_. 1/2) = (Inr as, g')"
    using make_assignments_demo by blast
  have "unit_draws (\<lambda>_. 1/2)" by (simp add: unit_draws_def)
  from edhoc_allowlist_covers [OF this as] as show ?thesis by simp
qed

section \<open>Building\<close>

lemma missing_file_result:
  "missing_file e dir ns h = (Inr (\<exists>n \<in> set ns. \<not> te_exists e h (dir @ ''/'' @ n)), h)"
  by (induction ns) (simp_all add: path_exists_def andthen_def)

lemma certs_missing_result:
  "certs_missing e dir h =
     (Inr (\<not> te_exists e h dir \<or> (\<exists>n \<in> set CERT_FILES. \<not> te_exists e h (dir @ ''/'' @ n))), h)"
  by (simp add: certs_missing_def path_exists_def andthen_def missing_file_result)

lemma run_local_Inr:
  "run_local e cmd cwd h = (Inr out, h') \<longleftrightarrow>
     h' = h @ [LocalRun cmd cwd]
     \<and> (\<exists>a. te_answer e (h @ [LocalRun cmd cwd]) = Inr a \<and> an_rc a = 0 \<and> out = strip (an_text a))"
  by (auto simp: run_local_def ask_def andthen_def split: sum.splits)

lemma protocol_bins_Inr:
  "protocol_bins e project protocol h = (Inr b, h') \<longleftrightarrow> h' = h \<and>
     (\<exists>cfg. map_of MN_PROTOCOLS protocol = Some cfg
        \<and> b = (project @ ''/target/release/'' @ mp_server_bin cfg, project @ ''/target/release/'' @ mp_client_bin cfg)
        \<and> te_exists e h (fst b) \<and> te_exists e h (snd b))"
  by (auto simp: protocol_bins_def mn_protocol_of_def path_exists_def andthen_def Let_def split: option.splits)

lemma all_bins_Inr:
  "map_eff (protocol_bins e project) ps h = (Inr bs, h')
   \<Longrightarrow> h' = h \<and> list_all2 (\<lambda>p b. protocol_bins e project p h = (Inr b, h)) ps bs"
proof (induction ps arbitrary: bs)
  case Nil
  then show ?case by simp
next
  case (Cons p ps)
  from Cons.prems obtain y h1 ys where *: "protocol_bins e project p h = (Inr y, h1)"
      "map_eff (protocol_bins e project) ps h1 = (Inr ys, h')" "bs = y # ys"
    unfolding map_eff_Inr by blast
  then have "h1 = h" using protocol_bins_Inr by blast
  then show ?case using * Cons.IH [of ys] by simp
qed

text \<open>When the preparation returns, the project had its manifest, the certificates were generated if
  mTLS was asked for and one was missing, the build ran last and succeeded, and the two binaries
  returned for each protocol are its own and exist.\<close>

lemma prepare_project_builds:
  assumes "prepare_project e project ps h = (Inr bins, h')"
  shows "te_exists e h (project @ ''/Cargo.toml'')
    \<and> h' = h @ (if ''mtls'' \<in> set ps \<and> (\<not> te_exists e h (project @ ''/certs'')
                  \<or> \<not> list_all (\<lambda>n. te_exists e h (project @ ''/certs/'' @ n)) CERT_FILES)
                then [LocalRun ''bash scripts/gen_certs.sh'' project] else [])
             @ [LocalRun ''cargo build --release --bins'' project]
    \<and> (\<exists>a. te_answer e h' = Inr a \<and> an_rc a = 0)
    \<and> list_all2 (\<lambda>p b. \<exists>cfg. map_of MN_PROTOCOLS p = Some cfg
         \<and> b = (project @ ''/target/release/'' @ mp_server_bin cfg, project @ ''/target/release/'' @ mp_client_bin cfg)
         \<and> te_exists e h' (fst b) \<and> te_exists e h' (snd b)) ps bins"
proof -
  define need where "need \<longleftrightarrow> ''mtls'' \<in> set ps \<and> (\<not> te_exists e h (project @ ''/certs'')
                  \<or> \<not> list_all (\<lambda>n. te_exists e h (project @ ''/certs/'' @ n)) CERT_FILES)"
  have toml: "te_exists e h (project @ ''/Cargo.toml'')"
    using assms by (auto simp: prepare_project_def path_exists_def andthen_def split: if_splits)
  define h1 where "h1 = h @ (if need then [LocalRun ''bash scripts/gen_certs.sh'' project] else [])"
  from assms toml have
    "andthen (run_local e ''cargo build --release --bins'' project) (\<lambda>_. map_eff (protocol_bins e project) ps) h1 = (Inr bins, h')"
    unfolding prepare_project_def h1_def need_def
    by (auto simp: andthen_Inr_iff path_exists_def certs_missing_result run_local_Inr list_all_iff Let_def split: if_splits)
  then obtain out h2 where b: "run_local e ''cargo build --release --bins'' project h1 = (Inr out, h2)"
    and m: "map_eff (protocol_bins e project) ps h2 = (Inr bins, h')" unfolding andthen_Inr_iff by blast
  from all_bins_Inr [OF m] have "h' = h2"
      and all: "list_all2 (\<lambda>p b. protocol_bins e project p h2 = (Inr b, h2)) ps bins" by auto
  moreover from b have "h2 = h1 @ [LocalRun ''cargo build --release --bins'' project]"
      and "\<exists>a. te_answer e h2 = Inr a \<and> an_rc a = 0" unfolding run_local_Inr by auto
  ultimately show ?thesis using toml
    by (simp add: h1_def need_def protocol_bins_Inr)
qed

lemma prepare_project_builds_witness:
  "\<exists>bins. prepare_project quiet_env ''/p'' [''mtls''] [] = (Inr bins, [LocalRun ''cargo build --release --bins'' ''/p''])"
proof -
  have "\<exists>bins h'. prepare_project quiet_env ''/p'' [''mtls''] [] = (Inr bins, h')"
    by (simp add: prepare_project_def path_exists_def andthen_def quiet_env_def certs_missing_def missing_file_result
      run_local_def ask_def quiet_answer_def protocol_bins_def mn_protocol_of_def MN_PROTOCOLS_def Let_def)
  then obtain bins h' where p: "prepare_project quiet_env ''/p'' [''mtls''] [] = (Inr bins, h')" by blast
  have "h' = [LocalRun ''cargo build --release --bins'' ''/p'']"
    using prepare_project_builds [OF p] by (simp add: quiet_env_def list_all_iff)
  with p show ?thesis by simp
qed

section \<open>Stopping the traffic\<close>

lemma emits_stop_background:
  assumes "\<And>p. P (Terminate p)" and "\<And>p. P (Poll p)" and "\<And>p. P (KillProc p)"
  shows "emits P (stop_background_traffic e procs)"
  unfolding stop_background_traffic_def using assms by (intro emits_intros)

lemma stop_background_returns:
  assumes "only_exceptions e"
  shows "fst (stop_background_traffic e procs h) = Inr ()"
proof -
  have t: "no_exit (tell e ev)" for ev by (rule no_exit_tell [OF assms])
  have k: "no_exit (andthen (ask e (Poll p)) (\<lambda>a. if an_running a then tell e (KillProc p) else ret ()))" for p
    by (intro no_exit_andthen no_exit_ask assms) (auto intro: t no_exit_ret)
  show ?thesis
    unfolding stop_background_traffic_def
    by (intro andthen_returns for_each_returns attempt_returns t k)
qed

end
