(* ===== verification/Lifecycle.thy ===== *)
theory Lifecycle
  imports Testbed
begin

text \<open>
  The testbed as a state machine: a network is down or up, commands and processes run on its hosts only
  while it is up, and a process is used only by the handle its own start gave, in the same
  network. The step relation is the contract Mininet expects of a script; the rules below prove that a script's
  effects follow it.
\<close>

section \<open>States and steps\<close>

text \<open>\<open>ticks\<close> counts the events so far, which names the next process.\<close>

datatype testbed = Testbed (net_up: bool) (handles: "nat set") (ticks: nat)

abbreviation down :: "nat \<Rightarrow> testbed" where
  "down n \<equiv> Testbed False {} n"

fun handle_of :: "tb_event \<Rightarrow> nat option" where
  "handle_of (Communicate k) = Some k"
| "handle_of (Terminate k) = Some k"
| "handle_of (Poll k) = Some k"
| "handle_of (KillProc k) = Some k"
| "handle_of _ = None"

inductive tb_step :: "testbed \<Rightarrow> tb_event \<Rightarrow> testbed \<Rightarrow> bool" where
  local: "local_event ev \<Longrightarrow> tb_step (Testbed u H n) ev (Testbed u H (Suc n))"
| start: "tb_step (Testbed False H n) NetStart (Testbed True {} (Suc n))"
| stop: "tb_step (Testbed True H n) NetStop (Testbed False {} (Suc n))"
| command: "tb_step (Testbed True H n) (HostCmd host cmd) (Testbed True H (Suc n))"
| launch: "tb_step (Testbed True H n) (HostPopen host cmd) (Testbed True (insert n H) (Suc n))"
| handle: "handle_of ev = Some k \<Longrightarrow> k \<in> H \<Longrightarrow> tb_step (Testbed True H n) ev (Testbed True H (Suc n))"

inductive tb_run :: "testbed \<Rightarrow> history \<Rightarrow> testbed \<Rightarrow> bool" where
  idle: "tb_run s [] s"
| moves: "tb_step s ev t \<Longrightarrow> tb_run t evs u \<Longrightarrow> tb_run s (ev # evs) u"

inductive_simps tb_run_simps [simp]: "tb_run s [] t" "tb_run s (ev # evs) t"

inductive_simps tb_step_simps [simp]:
  "tb_step (Testbed u H n) NetStart t" "tb_step (Testbed u H n) NetStop t"
  "tb_step (Testbed u H n) (HostCmd host cmd) t" "tb_step (Testbed u H n) (HostPopen host cmd) t"
  "tb_step (Testbed u H n) (LocalRun c d) t" "tb_step (Testbed u H n) (MakeDir d) t"
  "tb_step (Testbed u H n) (RemoveTree d) t" "tb_step (Testbed u H n) (CopyTree d d') t"
  "tb_step (Testbed u H n) (WriteFile d c) t" "tb_step (Testbed u H n) (Communicate k) t"
  "tb_step (Testbed u H n) (Terminate k) t" "tb_step (Testbed u H n) (Poll k) t"
  "tb_step (Testbed u H n) (KillProc k) t"

lemma tb_run_append: "tb_run s (evs @ evs2) u \<longleftrightarrow> (\<exists>t. tb_run s evs t \<and> tb_run t evs2 u)"
  by (induction evs arbitrary: s) auto

lemma tb_run_trans: "tb_run s evs t \<Longrightarrow> tb_run t evs2 u \<Longrightarrow> tb_run s (evs @ evs2) u"
  by (auto simp: tb_run_append)

text \<open>The machine is deterministic; it is an error of the script that is a missing step.\<close>

lemma tb_step_deterministic: "tb_step s ev t \<Longrightarrow> tb_step s ev u \<Longrightarrow> t = u"
  by (cases s; cases ev) auto

lemma tb_run_deterministic: "tb_run s evs t \<Longrightarrow> tb_run s evs u \<Longrightarrow> t = u"
proof (induction s evs t arbitrary: u rule: tb_run.induct)
  case (moves s ev t evs w)
  from moves.prems obtain t' where "tb_step s ev t'" "tb_run t' evs u" by auto
  moreover from tb_step_deterministic [OF moves.hyps(1) this(1)] have "t' = t" by simp
  ultimately show ?case using moves.IH by simp
qed simp

lemma tb_step_ticks: "tb_step s ev t \<Longrightarrow> ticks t = Suc (ticks s)"
  by (induction rule: tb_step.induct) simp_all

lemma tb_run_ticks: "tb_run s evs t \<Longrightarrow> ticks t = ticks s + length evs"
  by (induction rule: tb_run.induct) (simp_all add: tb_step_ticks)

section \<open>Invariants of the reachable states\<close>

definition wf_testbed :: "testbed \<Rightarrow> bool" where
  "wf_testbed s \<longleftrightarrow> handles s \<subseteq> {..<ticks s} \<and> (\<not> net_up s \<longrightarrow> handles s = {})"

lemma tb_step_wf: "tb_step s ev t \<Longrightarrow> wf_testbed s \<Longrightarrow> wf_testbed t"
  by (induction rule: tb_step.induct) (auto simp: wf_testbed_def)

lemma tb_run_wf: "tb_run s evs t \<Longrightarrow> wf_testbed s \<Longrightarrow> wf_testbed t"
  by (induction rule: tb_run.induct) (auto dest: tb_step_wf)

text \<open>The handles are exactly the processes started since the network is up.\<close>

definition started_since :: "history \<Rightarrow> nat \<Rightarrow> nat set" where
  "started_since h i = {k. i \<le> k \<and> k < length h \<and> (\<exists>host cmd. h ! k = HostPopen host cmd)}"

text \<open>The position after the network's last start, if it has not been stopped since.\<close>

fun since_last :: "tb_event list \<Rightarrow> nat option" where
  "since_last [] = None"
| "since_last (ev # evs) =
     (if ev = NetStart then Some (Suc (length evs)) else if ev = NetStop then None else since_last evs)"

definition network_since :: "history \<Rightarrow> nat option" where
  "network_since h = since_last (rev h)"

lemma network_since_Nil [simp]: "network_since [] = None"
  by (simp add: network_since_def)

lemma network_since_snoc [simp]:
  "network_since (h @ [ev]) = (if ev = NetStart then Some (Suc (length h)) else if ev = NetStop then None else network_since h)"
  by (simp add: network_since_def)

lemma network_since_le: "network_since h = Some i \<Longrightarrow> 0 < i \<and> i \<le> length h \<and> h ! (i - 1) = NetStart \<and> NetStop \<notin> set (drop i h)"
proof (induction h arbitrary: i rule: rev_induct)
  case Nil
  then show ?case by simp
next
  case (snoc ev h)
  then show ?case by (auto simp: nth_append split: if_splits)
qed

text \<open>After a run from a fresh testbed the state is the one its history tells.\<close>

definition state_after :: "history \<Rightarrow> testbed" where
  "state_after h = (case network_since h of None \<Rightarrow> down (length h) | Some i \<Rightarrow> Testbed True (started_since h i) (length h))"

lemma started_since_snoc:
  "i \<le> length h \<Longrightarrow> started_since (h @ [ev]) i
     = (if \<exists>host cmd. ev = HostPopen host cmd then insert (length h) (started_since h i) else started_since h i)"
  unfolding started_since_def by (auto simp: nth_append less_Suc_eq)

lemma started_since_none: "started_since h (length h) = {}"
  by (auto simp: started_since_def)

lemma tb_step_state_after:
  assumes "tb_step (state_after h) ev t"
  shows "t = state_after (h @ [ev])"
proof (cases "network_since h")
  case None
  then show ?thesis using assms by (cases ev) (auto simp: state_after_def started_since_none [of "h @ [NetStart]", simplified])
next
  case (Some i)
  then show ?thesis using assms network_since_le [of h i] by (cases ev) (auto simp: state_after_def started_since_snoc)
qed

lemma reachable_state:
  assumes "tb_run (down 0) h t"
  shows "t = state_after h"
  using assms
proof (induction h arbitrary: t rule: rev_induct)
  case Nil
  then show ?case by (simp add: state_after_def)
next
  case (snoc ev h)
  then obtain s where "tb_run (down 0) h s" "tb_step s ev t" by (auto simp: tb_run_append)
  then show ?case using snoc.IH tb_step_state_after by blast
qed

text \<open>What a legal run means for its events: a command or process finds a network up, and a handle is that of a process
  started before in the same network.\<close>

lemma legal_history:
  assumes "tb_run (down 0) h t" and "i < length h"
  shows "(\<exists>host cmd. h ! i = HostCmd host cmd \<or> h ! i = HostPopen host cmd) \<Longrightarrow> network_since (take i h) \<noteq> None"
    and "handle_of (h ! i) = Some k
      \<Longrightarrow> k < i \<and> (\<exists>host cmd. h ! k = HostPopen host cmd) \<and> NetStop \<notin> set (drop k (take i h))"
proof -
  have "h = take i h @ h ! i # drop (Suc i) h" using assms(2) by (rule id_take_nth_drop)
  with assms(1) obtain s u where s: "tb_run (down 0) (take i h) s" "tb_step s (h ! i) u"
    by (metis tb_run_append tb_run_simps(2))
  from reachable_state [OF s(1)] s(2) have step: "tb_step (state_after (take i h)) (h ! i) u" by simp
  show "network_since (take i h) \<noteq> None" if "\<exists>host cmd. h ! i = HostCmd host cmd \<or> h ! i = HostPopen host cmd"
    using step that by (auto simp: state_after_def split: option.splits)
  show "k < i \<and> (\<exists>host cmd. h ! k = HostPopen host cmd) \<and> NetStop \<notin> set (drop k (take i h))"
    if "handle_of (h ! i) = Some k"
  proof -
    from step that obtain j where j: "network_since (take i h) = Some j" "k \<in> started_since (take i h) j"
      by (cases "h ! i") (auto simp: state_after_def split: option.splits)
    have "set (drop k (take i h)) \<subseteq> set (drop j (take i h))"
      using j(2) by (intro set_drop_subset_set_drop) (simp add: started_since_def)
    with j network_since_le [OF j(1)] assms(2) show ?thesis by (auto simp: started_since_def)
  qed
qed

section \<open>The order of the states within a network\<close>

text \<open>A session only adds processes.\<close>

instantiation testbed :: order
begin

definition less_eq_testbed :: "testbed \<Rightarrow> testbed \<Rightarrow> bool" where
  "less_eq_testbed s t \<longleftrightarrow> net_up s = net_up t \<and> handles s \<subseteq> handles t \<and> ticks s \<le> ticks t"

definition less_testbed :: "testbed \<Rightarrow> testbed \<Rightarrow> bool" where
  "less_testbed s t \<longleftrightarrow> s \<le> t \<and> \<not> t \<le> s"

instance
  by standard (auto simp: less_eq_testbed_def less_testbed_def intro: testbed.expand)

end

lemma tb_step_grows: "tb_step s ev t \<Longrightarrow> keeps_net ev \<Longrightarrow> s \<le> t"
  by (induction rule: tb_step.induct) (auto simp: less_eq_testbed_def keeps_net_def)

lemma tb_run_grows: "tb_run s evs t \<Longrightarrow> list_all keeps_net evs \<Longrightarrow> s \<le> t"
proof (induction rule: tb_run.induct)
  case (moves s ev t evs u)
  then have "s \<le> t" "t \<le> u" by (simp_all add: tb_step_grows)
  then show ?case by (rule order_trans)
qed simp

section \<open>Operations within a network\<close>

text \<open>\<open>uses H m R\<close>: while a network is up in which the handles \<open>H\<close> are known, \<open>m\<close> makes legal steps of that
  network, and the handles \<open>R x\<close> are known after a normal end with \<open>x\<close>.\<close>

definition uses :: "nat set \<Rightarrow> (history, 'a) eff \<Rightarrow> ('a \<Rightarrow> nat set) \<Rightarrow> bool" where
  "uses H m R \<longleftrightarrow> (\<forall>h s r h'. net_up s \<longrightarrow> ticks s = length h \<longrightarrow> H \<subseteq> handles s \<longrightarrow> m h = (r, h') \<longrightarrow>
     (\<exists>evs t. h' = h @ evs \<and> list_all keeps_net evs \<and> tb_run s evs t \<and> (\<forall>x. r = Inr x \<longrightarrow> R x \<subseteq> handles t)))"

abbreviation uses_only :: "nat set \<Rightarrow> (history, 'a) eff \<Rightarrow> bool" where
  "uses_only H m \<equiv> uses H m (\<lambda>_. {})"

named_theorems uses_intros \<open>rules for the operations within a network\<close>

lemma usesD:
  assumes "uses H m R" and "net_up s" and "ticks s = length h" and "H \<subseteq> handles s" and "m h = (r, h')"
  obtains evs t where "h' = h @ evs" "list_all keeps_net evs" "tb_run s evs t" "s \<le> t" "ticks t = length h'"
    "\<And>x. r = Inr x \<Longrightarrow> R x \<subseteq> handles t"
proof -
  from assms(1) [unfolded uses_def, rule_format, OF assms(2-5)]
  obtain evs t where *: "h' = h @ evs" "list_all keeps_net evs" "tb_run s evs t"
      "\<And>x. r = Inr x \<Longrightarrow> R x \<subseteq> handles t" by blast
  from tb_run_grows [OF *(3,2)] tb_run_ticks [OF *(3)] *(1) assms(3) that [OF *(1-3) _ _ *(4)] show thesis by simp
qed

lemma uses_keeps: "uses H m R \<Longrightarrow> emits keeps_net m"
  unfolding emits_def
proof
  fix h assume "uses H m R"
  then show "\<exists>evs. snd (m h) = h @ evs \<and> list_all keeps_net evs"
    by (rule usesD [where s = "Testbed True H (length h)" and h = h]) (auto intro: prod.collapse [symmetric])
qed

lemma uses_mono: "uses H m R \<Longrightarrow> H \<subseteq> H' \<Longrightarrow> (\<And>x. R' x \<subseteq> R x) \<Longrightarrow> uses H' m R'"
  unfolding uses_def by (meson order_trans)

lemma tb_run_plain: "list_all plain_event evs \<Longrightarrow> tb_run (Testbed True H n) evs (Testbed True H (n + length evs))"
proof (induction evs arbitrary: n)
  case (Cons ev evs)
  then have "tb_step (Testbed True H n) ev (Testbed True H (Suc n))" by (cases ev) simp_all
  then show ?case using Cons.IH [of "Suc n"] Cons.prems by auto
qed simp

lemma uses_plain:
  assumes "emits plain_event m"
  shows "uses_only H m"
  unfolding uses_def
proof (intro allI impI)
  fix h s r h' assume s: "net_up s" and m: "m h = (r, h')"
  obtain evs where evs: "h' = h @ evs" "list_all plain_event evs" using emitsD [OF assms m] by blast
  moreover have "list_all keeps_net evs" using evs(2) by (rule list.pred_mono_strong) (simp add: plain_keeps_net)
  moreover have "tb_run s evs (Testbed True (handles s) (ticks s + length evs))"
    using tb_run_plain [OF evs(2)] s by (metis testbed.collapse)
  ultimately show "\<exists>evs t. h' = h @ evs \<and> list_all keeps_net evs \<and> tb_run s evs t \<and> (\<forall>x. r = Inr x \<longrightarrow> {} \<subseteq> handles t)"
    by blast
qed

lemma uses_ret [uses_intros]: "R x \<subseteq> H \<Longrightarrow> uses H (ret x) R"
  unfolding uses_def by (auto intro!: exI [of _ "[]"])

lemma uses_raise [uses_intros]: "uses H (raise x) R"
  unfolding uses_def by (auto intro!: exI [of _ "[]"])

lemma uses_from_res [uses_intros]: "uses_only H (from_res r)"
  by (intro uses_plain emits_intros)

lemma uses_clock [uses_intros]: "uses_only H (clock e)"
  by (intro uses_plain emits_intros)

lemma uses_handle [uses_intros]:
  assumes "handle_of ev = Some k" and "k \<in> H"
  shows "uses_only H (ask e ev)"
  unfolding uses_def
proof (intro allI impI)
  fix h s r h' assume s: "net_up s" "H \<subseteq> handles s" and m: "ask e ev h = (r, h')"
  obtain L n where L: "s = Testbed True L n" using s(1) by (cases s) auto
  have "keeps_net ev" using assms(1) by (cases ev) simp_all
  moreover have "tb_step s ev (Testbed True L (Suc n))"
    unfolding L using assms s(2) by (intro tb_step.handle) (auto simp: L)
  ultimately show "\<exists>evs t. h' = h @ evs \<and> list_all keeps_net evs \<and> tb_run s evs t \<and> (\<forall>x. r = Inr x \<longrightarrow> {} \<subseteq> handles t)"
    using m by (intro exI [of _ "[ev]"]) (auto simp: ask_def)
qed

lemma uses_popen [uses_intros]: "uses H (popen e host cmd) (\<lambda>p. {p})"
  unfolding uses_def
proof (intro allI impI)
  fix h s r h' assume s: "net_up s" "ticks s = length h" and m: "popen e host cmd h = (r, h')"
  obtain L where L: "s = Testbed True L (length h)" using s by (cases s) auto
  have "h' = h @ [HostPopen host cmd]" "\<And>x. r = Inr x \<Longrightarrow> x = length h"
    using m by (auto simp: popen_def ask_def andthen_def split: sum.splits)
  then show "\<exists>evs t. h' = h @ evs \<and> list_all keeps_net evs \<and> tb_run s evs t \<and> (\<forall>x. r = Inr x \<longrightarrow> {x} \<subseteq> handles t)"
    unfolding L by (intro exI [of _ "[HostPopen host cmd]"]) auto
qed

lemma uses_andthen:
  assumes m: "uses H m R" and f: "\<And>x. uses (H \<union> R x) (f x) R'"
  shows "uses H (andthen m f) R'"
  unfolding uses_def
proof (intro allI impI)
  fix h s r h' assume s: "net_up s" "ticks s = length h" "H \<subseteq> handles s" and run: "andthen m f h = (r, h')"
  obtain q h1 where q: "m h = (q, h1)" by (cases "m h")
  obtain evs t where t: "h1 = h @ evs" "list_all keeps_net evs" "tb_run s evs t" "s \<le> t" "ticks t = length h1"
      "\<And>x. q = Inr x \<Longrightarrow> R x \<subseteq> handles t" using usesD [OF m s q] by metis
  show "\<exists>evs u. h' = h @ evs \<and> list_all keeps_net evs \<and> tb_run s evs u \<and> (\<forall>x. r = Inr x \<longrightarrow> R' x \<subseteq> handles u)"
  proof (cases q)
    case (Inl x)
    then show ?thesis using run q t by (auto simp: andthen_def)
  next
    case (Inr x)
    have "net_up t" "H \<union> R x \<subseteq> handles t" using s t(4) t(6) [OF Inr] by (auto simp: less_eq_testbed_def)
    moreover have "f x h1 = (r, h')" using run q Inr by (simp add: andthen_def)
    ultimately obtain evs2 u where "h' = h1 @ evs2" "list_all keeps_net evs2" "tb_run t evs2 u"
        "\<And>y. r = Inr y \<Longrightarrow> R' y \<subseteq> handles u" using usesD [OF f _ t(5)] by metis
    then show ?thesis using t tb_run_trans [OF t(3)] by (intro exI [of _ "evs @ evs2"] exI [of _ u]) simp
  qed
qed

lemma uses_seq [uses_intros]: "uses_only H m \<Longrightarrow> (\<And>x. uses H (f x) R) \<Longrightarrow> uses H (andthen m f) R"
  by (rule uses_andthen) (assumption, unfold Un_empty_right)

lemma uses_tell [uses_intros]: "handle_of ev = Some k \<Longrightarrow> k \<in> H \<Longrightarrow> uses_only H (tell e ev)"
  unfolding tell_def by (intro uses_intros) simp_all

lemma uses_attempt [uses_intros]: "uses_only H m \<Longrightarrow> uses_only H (attempt m)"
  unfolding uses_def attempt_def by (simp split: prod.splits sum.splits pyerr.splits)

lemma uses_map_eff:
  "(\<And>x. x \<in> set xs \<Longrightarrow> uses H (f x) R) \<Longrightarrow> uses H (map_eff f xs) (\<lambda>ys. \<Union> (R ` set ys))"
proof (induction xs)
  case Nil
  then show ?case by (simp only: map_eff.simps) (rule uses_ret, simp)
next
  case (Cons x xs)
  have x: "uses H (f x) R" and xs: "uses (H \<union> A) (map_eff f xs) (\<lambda>ys. \<Union> (R ` set ys))" for A
    using Cons by (auto intro: uses_mono)
  show ?case
    unfolding map_eff.simps by (rule uses_andthen [OF x], rule uses_andthen [OF xs], rule uses_ret) auto
qed

lemma uses_map_only: "(\<And>x. x \<in> set xs \<Longrightarrow> uses_only H (f x)) \<Longrightarrow> uses_only H (map_eff f xs)"
  using uses_mono [OF uses_map_eff [of xs H f "\<lambda>_. {}"] subset_refl, of "\<lambda>_. {}"] by simp

lemma uses_for_each: "(\<And>x. x \<in> set xs \<Longrightarrow> uses_only H (f x)) \<Longrightarrow> uses_only H (for_each f xs)"
  unfolding for_each_def by (intro uses_seq uses_map_only uses_ret) simp_all

lemma uses_if [uses_intros]: "uses H a R \<Longrightarrow> uses H b R \<Longrightarrow> uses H (if c then a else b) R"
  by simp

lemma uses_case_prod [uses_intros]: "(\<And>a b. uses H (f a b) R) \<Longrightarrow> uses H (case x of (a, b) \<Rightarrow> f a b) R"
  by (simp add: case_prod_unfold)

lemma uses_case_list [uses_intros]:
  "uses H m R \<Longrightarrow> (\<And>y ys. uses H (f y ys) R) \<Longrightarrow> uses H (case xs of [] \<Rightarrow> m | y # ys \<Rightarrow> f y ys) R"
  by (cases xs) simp_all

section \<open>Scripts\<close>

text \<open>\<open>drives m\<close>: started without a network, \<open>m\<close> makes legal steps only and ends without one.\<close>

definition drives :: "(history, 'a) eff \<Rightarrow> bool" where
  "drives m \<longleftrightarrow> (\<forall>h r h'. m h = (r, h') \<longrightarrow> (\<exists>evs. h' = h @ evs \<and> tb_run (down (length h)) evs (down (length h'))))"

named_theorems drives_intros \<open>rules for what a script does outside its network\<close>

lemma drivesD: "drives m \<Longrightarrow> m h = (r, h') \<Longrightarrow> \<exists>evs. h' = h @ evs \<and> tb_run (down (length h)) evs (down (length h'))"
  unfolding drives_def by blast

lemma tb_run_local: "list_all local_event evs \<Longrightarrow> tb_run (down n) evs (down (n + length evs))"
proof (induction evs arbitrary: n)
  case (Cons ev evs)
  then have "tb_step (down n) ev (down (Suc n))" by (cases ev) simp_all
  then show ?case using Cons.IH [of "Suc n"] Cons.prems by auto
qed simp

lemma drives_local: "emits local_event m \<Longrightarrow> drives m"
  unfolding drives_def by (metis emitsD tb_run_local length_append)

lemma drives_ret [drives_intros]: "drives (ret x)"
  by (intro drives_local emits_intros)

lemma drives_raise [drives_intros]: "drives (raise x)"
  by (intro drives_local emits_intros)

lemma drives_andthen [drives_intros]:
  assumes m: "drives m" and f: "\<And>x. drives (f x)"
  shows "drives (andthen m f)"
  unfolding drives_def
proof (intro allI impI)
  fix h r h' assume run: "andthen m f h = (r, h')"
  obtain q h1 where q: "m h = (q, h1)" by (cases "m h")
  from drivesD [OF m q] obtain evs where evs: "h1 = h @ evs" "tb_run (down (length h)) evs (down (length h1))" by blast
  show "\<exists>evs. h' = h @ evs \<and> tb_run (down (length h)) evs (down (length h'))"
  proof (cases q)
    case (Inl x)
    then show ?thesis using run q evs by (auto simp: andthen_def)
  next
    case (Inr x)
    then have "f x h1 = (r, h')" using run q by (simp add: andthen_def)
    from drivesD [OF f this] obtain evs2 where "h' = h1 @ evs2" "tb_run (down (length h1)) evs2 (down (length h'))" by blast
    then show ?thesis using evs tb_run_trans by (metis append.assoc)
  qed
qed

lemma drives_tell [drives_intros]: "local_event ev \<Longrightarrow> drives (tell e ev)"
  by (intro drives_local emits_intros)

lemma drives_exists [drives_intros]: "drives (path_exists e p)"
  by (intro drives_local emits_intros)

lemma drives_from_res [drives_intros]: "drives (from_res r)"
  by (intro drives_local emits_intros)

lemma drives_map_eff [drives_intros]: "(\<And>x. drives (f x)) \<Longrightarrow> drives (map_eff f xs)"
  by (induction xs) (simp_all only: map_eff.simps drives_ret drives_andthen)

lemma drives_for_each [drives_intros]: "(\<And>x. drives (f x)) \<Longrightarrow> drives (for_each f xs)"
  unfolding for_each_def by (intro drives_intros)

lemma drives_if [drives_intros]: "drives a \<Longrightarrow> drives b \<Longrightarrow> drives (if c then a else b)"
  by simp

lemma drives_case_prod [drives_intros]: "(\<And>a b. drives (f a b)) \<Longrightarrow> drives (case x of (a, b) \<Rightarrow> f a b)"
  by (simp add: case_prod_unfold)

lemma drives_case_sum [drives_intros]:
  "(\<And>a. drives (f a)) \<Longrightarrow> (\<And>b. drives (g b)) \<Longrightarrow> drives (case x of Inl a \<Rightarrow> f a | Inr b \<Rightarrow> g b)"
  by (cases x) simp_all

text \<open>A session on a network that is up, closed by a cleanup that uses the session's processes and by the stop of
  the network.\<close>

lemma session_closes:
  assumes "only_exceptions e" and session: "uses_only H session" and before: "uses_only H before"
    and returns: "\<And>h. fst (before h) = Inr ()"
    and s: "net_up s" "ticks s = length h" "H \<subseteq> handles s"
    and run: "try_finally session (andthen before (\<lambda>_. stop_network e pkill)) h = (r, h')"
  shows "\<exists>evs. h' = h @ evs \<and> tb_run s evs (down (length h'))"
proof -
  obtain q h1 where q: "session h = (q, h1)" by (cases "session h")
  obtain evs t where t: "h1 = h @ evs" "tb_run s evs t" "s \<le> t" "ticks t = length h1" using usesD [OF session s q] by metis
  obtain h2 where b: "before h1 = (Inr (), h2)" using returns [of h1] by (cases "before h1") simp
  have "net_up t" "H \<subseteq> handles t" using s t(3) by (auto simp: less_eq_testbed_def)
  with t(4) obtain evs2 u where u: "h2 = h1 @ evs2" "tb_run t evs2 u" "t \<le> u" "ticks u = length h2"
    using usesD [OF before _ _ _ b] by metis
  obtain L where L: "u = Testbed True L (length h2)" using \<open>net_up t\<close> u(3,4) by (cases u) (auto simp: less_eq_testbed_def)
  have "h' = snd (stop_network e pkill h2)"
    using run q b by (auto simp: try_finally_def andthen_def split: prod.splits sum.splits)
  then have h': "h' = h2 @ [HostCmd ''server'' pkill, NetStop]" using stop_network_history [OF assms(1)] by simp
  have "tb_run u [HostCmd ''server'' pkill, NetStop] (down (length h'))" unfolding L h' by simp
  from tb_run_trans [OF t(2) tb_run_trans [OF u(2) this]] show ?thesis using t(1) u(1) h' by simp
qed

text \<open>The contract of a script with one session: the session uses no process it has not started. Such a script is a
  \<open>network_script\<close>, and it drives the testbed legally.\<close>

locale testbed_session =
  fixes e :: tb_env and session :: "(history, 'a) eff" and pkill :: string
  assumes session_uses: "uses_only {} session"

sublocale testbed_session \<subseteq> network_script e session pkill
  by unfold_locales (auto intro: uses_keeps session_uses emits_ret)

context testbed_session
begin

lemma script_drives:
  assumes "only_exceptions e"
  shows "drives (try_finally (andthen (tell e NetStart) (\<lambda>_. session)) (stop_network e pkill))"
  unfolding drives_def
proof (intro allI impI)
  fix h r h' assume run: "try_finally (andthen (tell e NetStart) (\<lambda>_. session)) (stop_network e pkill) h = (r, h')"
  have skip: "andthen (ret ()) (\<lambda>_. m) = m" for m :: "(history, unit) eff" by (simp add: fun_eq_iff andthen_def)
  obtain m :: "(history, 'a) eff" where m: "uses_only {} m"
      "fst (try_finally m (stop_network e pkill) (h @ [NetStart])) = r"
      "snd (try_finally m (stop_network e pkill) (h @ [NetStart])) = h'"
  proof (cases "te_answer e (h @ [NetStart])")
    case (Inl x)
    then show ?thesis using run that [of "raise x"]
      by (auto simp: try_finally_def andthen_def tell_def ask_def intro: uses_raise split: prod.splits sum.splits)
  next
    case (Inr a)
    then show ?thesis using run that [of session] session_uses
      by (auto simp: try_finally_def andthen_def tell_def ask_def split: prod.splits sum.splits)
  qed
  then have "try_finally m (andthen (ret ()) (\<lambda>_. stop_network e pkill)) (h @ [NetStart]) = (r, h')"
    unfolding skip by (simp add: prod_eq_iff)
  moreover have "uses_only {} (ret ())" by (rule uses_ret) simp
  ultimately have "\<exists>evs. h' = (h @ [NetStart]) @ evs \<and> tb_run (Testbed True {} (Suc (length h))) evs (down (length h'))"
    by (intro session_closes [OF assms m(1)]) simp_all
  then obtain evs where "h' = (h @ [NetStart]) @ evs" "tb_run (Testbed True {} (Suc (length h))) evs (down (length h'))"
    by blast
  then show "\<exists>evs. h' = h @ evs \<and> tb_run (down (length h)) evs (down (length h'))"
    by (intro exI [of _ "NetStart # evs"]) simp
qed

end

end
