(* ===== verification/MininetControl.thy ===== *)
theory MininetControl
  imports MininetRun MininetCommands Lifecycle
begin

text \<open>
  The control flow of \<open>experiments/mininet/mininet_tests_123.py\<close> over the testbed: the workloads as
  they start and await processes, the enrollment, the collection of server metrics, a protocol's run with
  its cleanup and the main program. The pure parts are those of \<open>MininetRun\<close>; the lemmas show
  that the effects refine them. The hosts of the clients are named by the assignments, so a client is
  given by its assignment. What is printed is not modelled.
\<close>

section \<open>Workloads\<close>

record started =
  st_index :: nat
  st_proc :: nat
  st_time :: real

definition start_client :: "tb_env \<Rightarrow> string \<Rightarrow> string \<Rightarrow> nat \<times> assignment \<Rightarrow> (history, started) eff" where
  "start_client e protocol client_bin ia = (case ia of (i, a) \<Rightarrow>
     andthen (from_res (client_auth_cmd protocol client_bin (a_client_workdir a))) (\<lambda>cmd.
     andthen (popen e (a_client_host a) (wrapped_shell_cmd cmd)) (\<lambda>p.
     andthen (clock e) (\<lambda>t. ret \<lparr>st_index = i, st_proc = p, st_time = t\<rparr>))))"

definition await_client ::
  "tb_env \<Rightarrow> string \<Rightarrow> assignment list \<Rightarrow> string \<Rightarrow> string \<Rightarrow> int \<Rightarrow> real \<Rightarrow> started \<Rightarrow> (history, row) eff" where
  "await_client e protocol as test_id workload round_index batch_start s =
     andthen (ask e (Communicate (st_proc s))) (\<lambda>out.
     andthen (clock e) (\<lambda>end_time.
       from_res (batch_row protocol test_id workload round_index (st_index s) (as ! st_index s)
         \<lparr>bp_output = an_text out, bp_wall_s = end_time - st_time s, bp_batch_s = end_time - batch_start\<rparr>)))"

definition run_batch ::
  "tb_env \<Rightarrow> string \<Rightarrow> string \<Rightarrow> assignment list \<Rightarrow> string \<Rightarrow> string \<Rightarrow> int \<Rightarrow> (history, row list) eff" where
  "run_batch e protocol client_bin as test_id workload round_index =
     andthen (clock e) (\<lambda>batch_start.
     andthen (map_eff (start_client e protocol client_bin) (List.enumerate 0 as)) (\<lambda>procs.
       map_eff (await_client e protocol as test_id workload round_index batch_start) procs))"

definition timed_cmd :: "tb_env \<Rightarrow> string \<Rightarrow> string \<Rightarrow> (history, string \<times> real) eff" where
  "timed_cmd e host cmd =
     andthen (clock e) (\<lambda>start.
     andthen (ask e (HostCmd host (wrapped_shell_cmd cmd))) (\<lambda>out.
     andthen (clock e) (\<lambda>stop. ret (an_text out, stop - start))))"

definition run_single :: "tb_env \<Rightarrow> string \<Rightarrow> string \<Rightarrow> assignment \<Rightarrow> nat \<Rightarrow> (history, row) eff" where
  "run_single e protocol client_bin a k =
     andthen (from_res (client_auth_cmd protocol client_bin (a_client_workdir a))) (\<lambda>cmd.
     andthen (timed_cmd e (a_client_host a) cmd) (\<lambda>(out, elapsed).
       from_res (single_row protocol a k out elapsed)))"

definition run_sequential ::
  "tb_env \<Rightarrow> string option \<Rightarrow> string \<Rightarrow> string \<Rightarrow> assignment \<Rightarrow> nat \<Rightarrow> (history, row list) eff" where
  "run_sequential e repeat_env protocol client_bin a iterations =
     (if protocol = ''zkarche'' \<and> (case repeat_env of Some v \<Rightarrow> v | None \<Rightarrow> ''1'') \<noteq> ''0'' then
        andthen (from_res (repeat_cmd client_bin (a_client_workdir a) iterations)) (\<lambda>cmd.
        andthen (timed_cmd e (a_client_host a) cmd) (\<lambda>run.
          from_res (execute_sequential protocol repeat_env a iterations (\<lambda>_. run))))
      else map_eff (run_single e protocol client_bin a) [1..<iterations + 1])"

section \<open>Server metrics and files\<close>

definition read_log :: "tb_env \<Rightarrow> string \<Rightarrow> (history, string) eff" where
  "read_log e protocol = andthen (ask e (HostCmd ''server'' (log_cmd (server_log protocol)))) (\<lambda>a. ret (an_text a))"

definition collect_server ::
  "tb_env \<Rightarrow> string \<Rightarrow> nat \<Rightarrow> string \<Rightarrow> string \<Rightarrow> int \<Rightarrow> (history, server_row list \<times> nat) eff" where
  "collect_server e protocol offset test_id workload round_index =
     andthen (read_log e protocol) (\<lambda>text.
       case collect_server_metrics protocol text test_id workload round_index offset of
         (Inl x, _) \<Rightarrow> raise x
       | (Inr rows, new_offset) \<Rightarrow> ret (rows, new_offset))"

definition server_row_cells :: "server_row \<Rightarrow> row" where
  "server_row_cells r =
     [(''protocol'', VStr (sr_protocol r)), (''test_id'', VStr (sr_test_id r)), (''workload'', VStr (sr_workload r)),
      (''round_index'', VInt (sr_round_index r)), (''server_peer'', v_str (sr_peer r)),
      (''server_auth_duration_ms'', v_float (sr_auth_duration_ms r)), (''server_sent_bytes'', v_int (sr_sent_bytes r)),
      (''server_received_bytes'', v_int (sr_received_bytes r)), (''server_device_id'', v_str (sr_device_id r)),
      (''server_client_cert_sha256'', v_str (sr_client_cert_sha256 r)),
      (''server_request_bytes'', v_int (sr_request_bytes r)), (''server_response_bytes'', v_int (sr_response_bytes r)),
      (''server_payload_bytes'', v_int (sr_payload_bytes r)), (''server_timestamp_ms'', v_int (sr_timestamp_ms r)),
      (''server_status'', VStr (sr_status r)), (''server_stdout_tail'', v_str (sr_stdout_tail r))]"

definition session_row_cells :: "session_row \<Rightarrow> row" where
  "session_row_cells r = server_row_cells (server_row.truncate r) @
     [(''server_setup_duration_ms'', v_float (ss_setup_duration_ms r)),
      (''server_setup_sent_bytes'', v_int (ss_setup_sent_bytes r)),
      (''server_setup_received_bytes'', v_int (ss_setup_received_bytes r)),
      (''server_full_session_duration_ms'', v_float (ss_full_session_duration_ms r)),
      (''server_full_session_sent_bytes'', v_int (ss_full_session_sent_bytes r)),
      (''server_full_session_received_bytes'', v_int (ss_full_session_received_bytes r)),
      (''server_full_session_total_bytes'', v_int (ss_full_session_total_bytes r))]"

definition server_table :: "string \<Rightarrow> assignment list \<Rightarrow> server_row list \<Rightarrow> row list" where
  "server_table protocol as rows =
     (if protocol = ''zkarche'' then map session_row_cells (add_zkarche_server_full_session_fields rows as)
      else map server_row_cells rows)"

text \<open>\<open>write_csv\<close> with its effects: the directory is made in any case, the file is opened only if there are
  rows. A row with a key the first row does not have raises after the rows before it are written.\<close>

definition fits :: "string list \<Rightarrow> row \<Rightarrow> bool" where
  "fits fieldnames r \<longleftrightarrow> set (map fst r) \<subseteq> set fieldnames"

definition write_rows :: "tb_env \<Rightarrow> string \<Rightarrow> string list \<Rightarrow> row list \<Rightarrow> (history, unit) eff" where
  "write_rows e path fieldnames rows =
     (let good = takeWhile (fits fieldnames) rows in
      andthen (tell e (WriteFile path (csv_write (fieldnames # map (cells fieldnames) good)))) (\<lambda>_.
        if good = rows then ret () else raise (ValueError ''dict contains fields not in fieldnames'')))"

definition save_csv :: "tb_env \<Rightarrow> string \<Rightarrow> string \<Rightarrow> row list \<Rightarrow> (history, unit) eff" where
  "save_csv e dir name rows =
     andthen (tell e (MakeDir dir)) (\<lambda>_.
       case rows of
         [] \<Rightarrow> ret ()
       | r # _ \<Rightarrow> write_rows e (dir @ ''/'' @ name) (map fst r) rows)"

lemma write_rows_aligned:
  "\<forall>x \<in> set rows. map fst x = cols \<Longrightarrow>
   write_rows e path cols rows = tell e (WriteFile path (csv_write (cols # map (cells cols) rows)))"
proof -
  assume "\<forall>x \<in> set rows. map fst x = cols"
  then have good: "takeWhile (fits cols) rows = rows" by (simp add: takeWhile_eq_all_conv fits_def)
  have unit: "andthen (tell e ev) (\<lambda>_. ret ()) = tell e ev" for ev
    by (auto simp: fun_eq_iff andthen_def tell_def split: prod.splits sum.splits)
  show ?thesis unfolding write_rows_def Let_def good by (simp only: if_True refl unit)
qed

lemma local_write_rows: "emits local_event (write_rows e path cols rows)"
  unfolding write_rows_def Let_def by (intro emits_intros) simp

section \<open>Enrollment\<close>

definition enroll_on_host :: "tb_env \<Rightarrow> mn_protocol \<Rightarrow> string \<Rightarrow> string \<Rightarrow> assignment \<Rightarrow> (history, assignment) eff" where
  "enroll_on_host e cfg client_bin server_pub a =
     andthen (ask e (HostCmd (a_client_host a) (wrapped_shell_cmd (pin_cmd client_bin (a_client_workdir a) server_pub)))) (\<lambda>p.
     andthen (from_res (pin_result (an_text p) a)) (\<lambda>_.
     andthen (timed_cmd e (a_client_host a) (setup_cmd cfg client_bin (a_client_workdir a))) (\<lambda>(out, elapsed).
       from_res (setup_result out elapsed a))))"

fun poll_setup :: "tb_env \<Rightarrow> nat \<Rightarrow> nat \<Rightarrow> nat \<Rightarrow> server_row list \<Rightarrow> (history, server_row list) eff" where
  "poll_setup e 0 start expected rows = ret rows"
| "poll_setup e (Suc n) start expected rows =
     andthen (read_log e ''zkarche'') (\<lambda>text.
     andthen (from_res (parse_server_metrics_log ''zkarche'' text start ''setup'' ''setup'' 0)) (\<lambda>(rows', _).
       if expected \<le> length rows' then ret rows' else poll_setup e n start expected rows'))"

definition enroll_all :: "tb_env \<Rightarrow> string \<Rightarrow> string \<Rightarrow> string \<Rightarrow> assignment list \<Rightarrow> (history, assignment list) eff" where
  "enroll_all e server_bin client_bin workdir as =
     andthen (from_res (mn_protocol_of ''zkarche'')) (\<lambda>cfg.
     andthen (run_local e (shlex_quote server_bin @ '' --print-pubkey'') (workdir @ ''/server'')) (\<lambda>out.
     andthen (from_res (server_pubkey out)) (\<lambda>pub.
     andthen (read_log e ''zkarche'') (\<lambda>before.
     andthen (map_eff (enroll_on_host e cfg client_bin pub) as) (\<lambda>as'.
     andthen (poll_setup e 20 (length (splitlines before)) (length as) []) (\<lambda>rows.
       ret (fold store_setup_row rows as')))))))"

section \<open>A protocol's run\<close>

record mn_args =
  ma_project :: string
  ma_protocol :: string
  ma_test :: string
  ma_clients :: nat
  ma_iterations :: nat
  ma_workdir :: string
  ma_results_dir :: string
  ma_seed :: "int option"
  ma_network_model :: string
  ma_gateway_count :: int
  ma_device_mix :: string
  ma_background_hosts :: nat
  ma_background_traffic :: string
  ma_zkarche_device_only :: bool
  ma_zkarche_full :: bool

definition selected_tests :: "mn_args \<Rightarrow> string list" where
  "selected_tests args = (if ma_test args = ''all'' then [''1'', ''2'', ''3''] else [ma_test args])"

definition launch_server :: "tb_env \<Rightarrow> string \<Rightarrow> string \<Rightarrow> string \<Rightarrow> (history, unit) eff" where
  "launch_server e protocol server_bin workdir =
     andthen (from_res (mn_protocol_of protocol)) (\<lambda>_.
     andthen (tell e (MakeDir (workdir @ ''/server''))) (\<lambda>_.
     andthen (from_res (server_cmd protocol server_bin (workdir @ ''/server''))) (\<lambda>cmd.
       tell e (HostCmd ''server'' cmd))))"

text \<open>Tests 1 and 2 take the log offset and return the new one.\<close>

definition test_1 :: "tb_env \<Rightarrow> mn_args \<Rightarrow> string \<Rightarrow> string \<Rightarrow> assignment list \<Rightarrow> nat \<Rightarrow> (history, nat) eff" where
  "test_1 e args protocol client_bin as offset =
     andthen (run_batch e protocol client_bin as ''1'' ''concurrent'' 1) (\<lambda>rows.
     andthen (save_csv e (ma_results_dir args) (protocol @ ''_test1_concurrent.csv'') rows) (\<lambda>_.
     andthen (collect_server e protocol offset ''1'' ''concurrent'' 1) (\<lambda>(server_rows, new_offset).
     andthen (save_csv e (ma_results_dir args) (protocol @ ''_test1_concurrent_server.csv'') (server_table protocol as server_rows)) (\<lambda>_.
       ret new_offset))))"

definition test_2 ::
  "tb_env \<Rightarrow> mn_args \<Rightarrow> string option \<Rightarrow> string \<Rightarrow> string \<Rightarrow> assignment list \<Rightarrow> nat \<Rightarrow> (history, nat) eff" where
  "test_2 e args repeat_env protocol client_bin as offset =
     (case as of
        [] \<Rightarrow> raise IndexError
      | a # _ \<Rightarrow>
          andthen (run_sequential e repeat_env protocol client_bin a (ma_iterations args)) (\<lambda>rows.
          andthen (save_csv e (ma_results_dir args) (protocol @ ''_test2_sequential.csv'') rows) (\<lambda>_.
          andthen (collect_server e protocol offset ''2'' ''sequential'' 1) (\<lambda>(server_rows, new_offset).
          andthen (save_csv e (ma_results_dir args) (protocol @ ''_test2_sequential_server.csv'') (server_table protocol as server_rows)) (\<lambda>_.
            ret new_offset)))))"

fun test_3_rounds ::
  "tb_env \<Rightarrow> string \<Rightarrow> string \<Rightarrow> assignment list \<Rightarrow> nat \<Rightarrow> nat list \<Rightarrow> (history, row list \<times> row list) eff" where
  "test_3_rounds e protocol client_bin as offset [] = ret ([], [])"
| "test_3_rounds e protocol client_bin as offset (r # rs) =
     andthen (run_batch e protocol client_bin as ''3'' ''high_load'' (int r)) (\<lambda>rows.
     andthen (collect_server e protocol offset ''3'' ''high_load'' (int r)) (\<lambda>(server_rows, new_offset).
     andthen (test_3_rounds e protocol client_bin as new_offset rs) (\<lambda>(more, more_server).
       ret (rows @ more, server_table protocol as server_rows @ more_server))))"

definition test_3 :: "tb_env \<Rightarrow> mn_args \<Rightarrow> string \<Rightarrow> string \<Rightarrow> assignment list \<Rightarrow> nat \<Rightarrow> (history, unit) eff" where
  "test_3 e args protocol client_bin as offset =
     andthen (test_3_rounds e protocol client_bin as offset [1..<ma_iterations args + 1]) (\<lambda>(rows, server_rows).
     andthen (save_csv e (ma_results_dir args) (protocol @ ''_test3_high_load.csv'') rows) (\<lambda>_.
       save_csv e (ma_results_dir args) (protocol @ ''_test3_high_load_server.csv'') server_rows))"

text \<open>Everything between the start of the traffic and the cleanup.\<close>

definition workloads ::
  "tb_env \<Rightarrow> mn_args \<Rightarrow> string option \<Rightarrow> string \<Rightarrow> string \<times> string \<Rightarrow> string \<Rightarrow> assignment list \<Rightarrow> (history, unit) eff" where
  "workloads e args repeat_env protocol bins workdir as =
     andthen (launch_server e protocol (fst bins) workdir) (\<lambda>_.
     andthen
       (if protocol = ''zkarche'' then
          andthen (enroll_all e (fst bins) (snd bins) workdir as) (\<lambda>as'.
          andthen (read_log e protocol) (\<lambda>text. ret (as', length (splitlines text))))
        else ret (as, 0)) (\<lambda>(as, offset0).
     andthen (if ''1'' \<in> set (selected_tests args) then test_1 e args protocol (snd bins) as offset0 else ret offset0) (\<lambda>offset1.
     andthen (if ''2'' \<in> set (selected_tests args) then test_2 e args repeat_env protocol (snd bins) as offset1 else ret offset1) (\<lambda>offset2.
       if ''3'' \<in> set (selected_tests args) then test_3 e args protocol (snd bins) as offset2 else ret ()))))"

text \<open>The \<open>try\<close> statement. \<open>locals().get("bg_procs", [])\<close> is empty until the traffic has started as a
  whole; \<open>flows\<close> are the generators to start.\<close>

definition start_traffic :: "tb_env \<Rightarrow> flow list \<Rightarrow> (history, nat list) eff" where
  "start_traffic e flows = andthen (tell e NetStart) (\<lambda>_. launch_flows e flows)"

definition clean_up :: "tb_env \<Rightarrow> mn_protocol \<Rightarrow> nat list \<Rightarrow> (history, unit) eff" where
  "clean_up e cfg procs =
     andthen (attempt (stop_background_traffic e procs)) (\<lambda>_. stop_network e (pkill_cmd cfg))"

definition on_network ::
  "tb_env \<Rightarrow> mn_args \<Rightarrow> string option \<Rightarrow> string \<Rightarrow> string \<times> string \<Rightarrow> string \<Rightarrow> mn_protocol \<Rightarrow> flow list
   \<Rightarrow> assignment list \<Rightarrow> (history, unit) eff" where
  "on_network e args repeat_env protocol bins workdir cfg flows as = (\<lambda>h.
     case start_traffic e flows h of
       (Inl x, h1) \<Rightarrow> try_finally (raise x) (clean_up e cfg []) h1
     | (Inr procs, h1) \<Rightarrow> try_finally (workloads e args repeat_env protocol bins workdir as) (clean_up e cfg procs) h1)"

definition run_protocol_tests ::
  "tb_env \<Rightarrow> mn_args \<Rightarrow> string option \<Rightarrow> string \<Rightarrow> string \<Rightarrow> string \<times> string \<Rightarrow> rng \<Rightarrow> (history, rng) eff" where
  "run_protocol_tests e args repeat_env project protocol bins g =
     andthen (from_res (mn_protocol_of protocol)) (\<lambda>cfg.
     let workdir = ma_workdir args @ ''/'' @ protocol; clients_dir = workdir @ ''/clients'' in
     andthen (path_exists e workdir) (\<lambda>there.
     andthen (if there then tell e (RemoveTree workdir) else ret ()) (\<lambda>_.
     andthen (tell e (MakeDir (workdir @ ''/server''))) (\<lambda>_.
     andthen (tell e (MakeDir clients_dir)) (\<lambda>_.
     case make_assignments (ma_clients args) clients_dir (ma_device_mix args) (ma_gateway_count args) g of
       (Inl x, _) \<Rightarrow> raise x
     | (Inr as, g1) \<Rightarrow>
     andthen (for_each (\<lambda>a. tell e (MakeDir (a_client_workdir a))) as) (\<lambda>_.
     andthen (copy_certs_if_needed e project protocol workdir as) (\<lambda>_.
     andthen (if protocol = ''mtls'' then andthen (prepare_mtls_authorized_clients e project workdir) (\<lambda>_. ret ()) else ret ()) (\<lambda>_.
     andthen (from_res (build_network (ma_network_model args) (ma_gateway_count args) (ma_background_hosts args) as g1)) (\<lambda>(net, g2).
     case start_background_traffic (ma_background_traffic args) (n_background_hosts net) g2 of (flows, g3) \<Rightarrow>
     andthen (on_network e args repeat_env protocol bins workdir cfg flows as) (\<lambda>_. ret g3))))))))))"

section \<open>The main program\<close>

text \<open>The options' defaults and choices; the project has no default.\<close>

definition default_args :: "string \<Rightarrow> mn_args" where
  "default_args project = \<lparr>ma_project = project, ma_protocol = ''zkarche'', ma_test = ''all'', ma_clients = 50,
     ma_iterations = 50, ma_workdir = ''/tmp/zkcompare-mininet-tests123'', ma_results_dir = ''results/mininet'',
     ma_seed = None, ma_network_model = ''multi-tier'', ma_gateway_count = 4, ma_device_mix = ''heterogeneous-iot'',
     ma_background_hosts = 16, ma_background_traffic = ''medium'', ma_zkarche_device_only = False,
     ma_zkarche_full = False\<rparr>"

definition accepted_args :: "mn_args \<Rightarrow> bool" where
  "accepted_args args \<longleftrightarrow> ma_protocol args \<in> {''zkarche'', ''mtls'', ''edhoc'', ''all''}
     \<and> ma_test args \<in> {''1'', ''2'', ''3'', ''all''} \<and> ma_network_model args \<in> {''simple'', ''multi-tier''}
     \<and> ma_device_mix args \<in> {''raspberry-pi'', ''heterogeneous-iot''}
     \<and> ma_background_traffic args \<in> {''none'', ''light'', ''medium'', ''heavy'', ''burst''}"

text \<open>The environment variables the program sets before it runs anything.\<close>

definition session_environ :: "mn_args \<Rightarrow> (string \<Rightarrow> string option) \<Rightarrow> string \<Rightarrow> string option" where
  "session_environ args environ =
     (let e1 = (if ma_zkarche_device_only args then environ(''ZKARCHE_DEVICE_ONLY'' \<mapsto> ''1'') else environ);
          e2 = (if ma_zkarche_full args then e1(''ZKARCHE_DEVICE_ONLY'' \<mapsto> ''0'') else e1);
          setdefault = (\<lambda>k v m. if m k = None then m(k \<mapsto> v) else m)
      in setdefault ''ZKARCHE_ALLOW_DEVICE_ONLY'' ''1'' (setdefault ''ZKARCHE_BENCH_MODE'' ''1''
           (setdefault ''ZKARCHE_FAST_LOOKUP'' ''1'' e2)))"

fun run_protocols ::
  "tb_env \<Rightarrow> mn_args \<Rightarrow> string option \<Rightarrow> string \<Rightarrow> (string \<times> string \<times> string) list \<Rightarrow> rng \<Rightarrow> (history, unit) eff" where
  "run_protocols e args repeat_env project [] g = ret ()"
| "run_protocols e args repeat_env project ((protocol, bins) # rest) g =
     andthen (run_protocol_tests e args repeat_env project protocol bins g) (\<lambda>g'.
       run_protocols e args repeat_env project rest g')"

definition mininet_main :: "tb_env \<Rightarrow> mn_args \<Rightarrow> (string \<Rightarrow> string option) \<Rightarrow> (history, int) eff" where
  "mininet_main e args environ =
     (let repeat_env = session_environ args environ ''ZKARCHE_CLIENT_REPEAT'';
          protocols = (if ma_protocol args = ''all'' then [''zkarche'', ''mtls'', ''edhoc''] else [ma_protocol args])
      in andthen (prepare_project e (ma_project args) protocols) (\<lambda>bins.
         andthen (run_protocols e args repeat_env (ma_project args) (zip protocols bins) (te_seeded e (ma_seed args))) (\<lambda>_.
           ret 0)))"

section \<open>What the operations do to the network\<close>

text \<open>Most operations only send commands to hosts and write files; a batch also uses the processes it starts.\<close>

lemma start_client_uses: "uses H (start_client e protocol bin ia) (\<lambda>s. {st_proc s})"
  unfolding start_client_def
  by (intro uses_case_prod uses_seq [OF uses_from_res] uses_andthen [OF uses_popen] uses_seq [OF uses_clock] uses_ret) simp

lemma await_client_uses: "st_proc s \<in> H \<Longrightarrow> uses_only H (await_client e protocol as t w r b s)"
  unfolding await_client_def by (intro uses_seq uses_clock uses_from_res uses_handle) simp_all

lemma run_batch_uses: "uses_only H (run_batch e protocol bin as t w r)"
  unfolding run_batch_def
  by (intro uses_seq [OF uses_clock] uses_andthen [OF uses_map_eff [OF start_client_uses]] uses_map_only await_client_uses) auto

lemma plain_timed_cmd: "emits plain_event (timed_cmd e host cmd)"
  unfolding timed_cmd_def by (intro emits_intros) simp

lemma plain_run_sequential: "emits plain_event (run_sequential e renv protocol bin a n)"
  unfolding run_sequential_def run_single_def by (intro emits_intros plain_timed_cmd)

lemma plain_read_log: "emits plain_event (read_log e protocol)"
  unfolding read_log_def by (intro emits_intros) simp

lemma plain_collect_server: "emits plain_event (collect_server e protocol off t w r)"
  unfolding collect_server_def by (intro emits_intros plain_read_log)

lemma local_save_csv: "emits local_event (save_csv e dir name rows)"
  unfolding save_csv_def by (intro emits_intros local_write_rows) simp

lemma plain_save_csv: "emits plain_event (save_csv e dir name rows)"
  by (rule emits_local_plain [OF local_save_csv])

lemma plain_poll_setup: "emits plain_event (poll_setup e n start expected rows)"
  by (induction n arbitrary: rows) (auto intro!: emits_intros plain_read_log)

lemma plain_enroll_all: "emits plain_event (enroll_all e sb cb workdir as)"
  unfolding enroll_all_def enroll_on_host_def run_local_def
  by (intro emits_intros plain_read_log plain_poll_setup plain_timed_cmd) simp_all

lemma plain_launch_server: "emits plain_event (launch_server e protocol bin workdir)"
  unfolding launch_server_def by (intro emits_intros) simp_all

lemmas step_uses = run_batch_uses uses_plain [OF plain_save_csv] uses_plain [OF plain_collect_server]
  uses_plain [OF plain_run_sequential] uses_plain [OF plain_enroll_all] uses_plain [OF plain_read_log]
  uses_plain [OF plain_launch_server]

lemma test_1_uses: "uses_only H (test_1 e args protocol bin as off)"
  unfolding test_1_def by (intro uses_seq uses_case_prod uses_ret step_uses) simp

lemma test_2_uses: "uses_only H (test_2 e args renv protocol bin as off)"
  unfolding test_2_def by (intro uses_case_list uses_raise uses_seq uses_case_prod uses_ret step_uses) simp

lemma test_3_rounds_uses: "uses_only H (test_3_rounds e protocol bin as off rs)"
  by (induction rs arbitrary: off)
    (auto simp only: test_3_rounds.simps intro!: uses_seq uses_case_prod uses_ret step_uses)

lemma test_3_uses: "uses_only H (test_3 e args protocol bin as off)"
  unfolding test_3_def by (intro uses_seq uses_case_prod test_3_rounds_uses step_uses)

lemma workloads_uses: "uses_only H (workloads e args renv protocol bins workdir as)"
  unfolding workloads_def
  by (intro uses_seq uses_if uses_case_prod test_1_uses test_2_uses test_3_uses step_uses uses_ret) simp_all

lemma launch_flows_uses: "uses {} (launch_flows e flows) set"
proof -
  have "uses {} (case flow_command f of (host, cmd) \<Rightarrow> popen e host cmd) (\<lambda>p. {p})" for f
    by (intro uses_case_prod uses_popen)
  from uses_map_eff [OF this] show ?thesis unfolding launch_flows_def by simp
qed

lemma stop_background_uses: "set procs \<subseteq> H \<Longrightarrow> uses_only H (stop_background_traffic e procs)"
  unfolding stop_background_traffic_def
  by (intro uses_seq uses_for_each uses_attempt uses_if) (auto intro!: uses_tell uses_handle uses_ret)

lemma net_workloads: "emits keeps_net (workloads e args renv protocol bins workdir as)"
  by (rule uses_keeps [OF workloads_uses])

lemma net_test_3_rounds: "emits keeps_net (test_3_rounds e protocol bin as off rs)"
  by (rule uses_keeps [OF test_3_rounds_uses])

lemma net_save_csv: "emits keeps_net (save_csv e dir name rows)"
  by (rule emits_local_keeps [OF local_save_csv])

lemma net_launch_flows: "emits keeps_net (launch_flows e flows)"
  by (rule uses_keeps [OF launch_flows_uses])

lemma net_stop_background: "emits keeps_net (stop_background_traffic e procs)"
  by (rule uses_keeps [OF stop_background_uses [OF subset_refl]])

interpretation protocol_session: cleaned_session e "workloads e args renv protocol bins workdir as"
    "attempt (stop_background_traffic e procs)" pkill
  for e args renv protocol bins workdir as procs pkill
proof unfold_locales
  show "emits keeps_net (workloads e args renv protocol bins workdir as)" by (rule net_workloads)
  show "emits keeps_net (attempt (stop_background_traffic e procs))"
    by (intro emits_attempt net_stop_background)
  show "only_exceptions e \<Longrightarrow> fst (attempt (stop_background_traffic e procs) h) = Inr ()" for h
    using stop_background_returns [of e procs h] by (auto simp: attempt_def split: prod.splits)
qed

interpretation failed_start: cleaned_session e "raise x :: (history, unit) eff"
    "attempt (stop_background_traffic e [])" pkill for e x pkill
proof unfold_locales
  show "emits keeps_net (raise x)" by (rule emits_raise)
  show "emits keeps_net (attempt (stop_background_traffic e []))"
    by (intro emits_attempt net_stop_background)
  show "only_exceptions e \<Longrightarrow> fst (attempt (stop_background_traffic e []) h) = Inr ()" for h
    using stop_background_returns [of e "[]" h] by (auto simp: attempt_def split: prod.splits)
qed

lemma start_traffic_events:
  assumes "start_traffic e flows h = (q, h1)"
  shows "\<exists>evs. h1 = h @ NetStart # evs \<and> list_all keeps_net evs"
proof (cases "te_answer e (h @ [NetStart])")
  case (Inl x)
  then show ?thesis using assms by (auto simp: start_traffic_def tell_def ask_def andthen_def)
next
  case (Inr a)
  then have "launch_flows e flows (h @ [NetStart]) = (q, h1)"
    using assms by (simp add: start_traffic_def tell_def ask_def andthen_def)
  from emitsD [OF net_launch_flows this] show ?thesis by auto
qed

lemma on_network_runs:
  assumes "only_exceptions e"
  shows "runs_network (pkill_cmd cfg) (on_network e args renv protocol bins workdir cfg flows as)"
  unfolding runs_network_def
proof (intro allI impI disjI2)
  fix h r h' assume run: "on_network e args renv protocol bins workdir cfg flows as h = (r, h')"
  obtain q h1 where 1: "start_traffic e flows h = (q, h1)" by (cases "start_traffic e flows h")
  then obtain evs where evs: "h1 = h @ NetStart # evs" "list_all keeps_net evs" using start_traffic_events by blast
  have "\<exists>evs2. h' = h1 @ evs2 @ [HostCmd ''server'' (pkill_cmd cfg), NetStop] \<and> list_all keeps_net evs2"
  proof (cases q)
    case (Inl x)
    then show ?thesis using run 1 failed_start.net_stopped_last [OF assms, of x "pkill_cmd cfg" h1]
      by (simp add: on_network_def clean_up_def)
  next
    case (Inr procs)
    then show ?thesis
      using run 1 protocol_session.net_stopped_last [OF assms, of args renv protocol bins workdir as procs "pkill_cmd cfg" h1]
      by (simp add: on_network_def clean_up_def)
  qed
  then obtain evs2 where evs2: "h' = h1 @ evs2 @ [HostCmd ''server'' (pkill_cmd cfg), NetStop]" "list_all keeps_net evs2" by blast
  have "h' = h @ [] @ NetStart # (evs @ evs2) @ [HostCmd ''server'' (pkill_cmd cfg), NetStop]" using evs evs2 by simp
  moreover have "list_all keeps_net (evs @ evs2)" using evs(2) evs2(2) by simp
  ultimately show "\<exists>pre evs. h' = h @ pre @ NetStart # evs @ [HostCmd ''server'' (pkill_cmd cfg), NetStop]
          \<and> list_all keeps_net pre \<and> list_all keeps_net evs" by fastforce
qed

lemma local_copy_certs: "emits local_event (copy_certs_if_needed e project protocol workdir as)"
  unfolding copy_certs_if_needed_def by (intro emits_intros) simp_all

lemma local_mtls_allowlist: "emits local_event (prepare_mtls_authorized_clients e project workdir)"
  unfolding prepare_mtls_authorized_clients_def cert_fingerprint_def by (intro emits_intros) simp_all

lemmas net_copy_certs = emits_local_keeps [OF local_copy_certs]
lemmas net_mtls_allowlist = emits_local_keeps [OF local_mtls_allowlist]

lemma run_protocol_runs:
  assumes "only_exceptions e" and "map_of MN_PROTOCOLS protocol = Some cfg"
  shows "runs_network (pkill_cmd cfg) (run_protocol_tests e args renv project protocol bins g)"
proof -
  have "mn_protocol_of protocol = Inr cfg" using assms(2) by (simp add: mn_protocol_of_def)
  then have cfg: "andthen (from_res (mn_protocol_of protocol)) f = f cfg" for f :: "mn_protocol \<Rightarrow> (history, rng) eff"
    by (simp add: fun_eq_iff andthen_def)
  show ?thesis
    unfolding run_protocol_tests_def cfg Let_def
    by (intro runs_network_before emits_exists emits_if emits_tell emits_ret emits_for_each emits_from_res emits_andthen
        net_copy_certs net_mtls_allowlist)
      (auto split: prod.splits sum.splits intro!: runs_network_before runs_network_raise runs_network_then_ret on_network_runs
        emits_for_each emits_tell emits_if emits_ret emits_andthen emits_from_res net_copy_certs net_mtls_allowlist assms(1))
qed

text \<open>C1: However a protocol's run ends, it either raised before the network was started, or it ends
  with the command that kills the server and with the stop of the network, which is not stopped
  anywhere before. The environment's calls raise subclasses of \<open>Exception\<close> only.\<close>

theorem network_always_stopped:
  assumes "only_exceptions e" and "map_of MN_PROTOCOLS protocol = Some cfg"
    and "run_protocol_tests e args renv project protocol bins g h = (r, h')"
  shows "(\<exists>x evs. r = Inl x \<and> h' = h @ evs \<and> NetStart \<notin> set evs \<and> NetStop \<notin> set evs)
    \<or> (\<exists>pre evs. h' = h @ pre @ NetStart # evs @ [HostCmd ''server'' (pkill_cmd cfg), NetStop]
         \<and> NetStart \<notin> set pre \<and> NetStop \<notin> set (pre @ evs))"
proof -
  have quiet: "NetStart \<notin> set evs \<and> NetStop \<notin> set evs" if "list_all keeps_net evs" for evs
    using that by (auto simp: list_all_iff keeps_net_def)
  from run_protocol_runs [OF assms(1,2), of args renv project bins g] assms(3)
  consider x evs where "r = Inl x" "h' = h @ evs" "list_all keeps_net evs"
    | pre evs where "h' = h @ pre @ NetStart # evs @ [HostCmd ''server'' (pkill_cmd cfg), NetStop]"
        "list_all keeps_net pre" "list_all keeps_net evs"
    unfolding runs_network_def by blast
  then show ?thesis
  proof cases
    case 1
    then show ?thesis using quiet by blast
  next
    case 2
    then show ?thesis using quiet [OF 2(2)] quiet [OF 2(3)] by (intro disjI2 exI [of _ pre] exI [of _ evs]) simp
  qed
qed

end
