(* ===== verification/IotScripts.thy ===== *)
theory IotScripts
  imports MininetControl
begin

text \<open>
  The three single-protocol scripts under \<open>experiments/mininet\<close>, \<open>mtls_mininet_50_iot.py\<close>,
  \<open>edhoc_mininet_50_iot.py\<close> and \<open>zkarche_mininet_50_iot.py\<close>. They repeat most of their code: what they
  share is defined once here with the script's tables as parameters, and each script's
  functions are its instances. The scripts differ in their metrics parsers, commands, rows and in
  what a failing client does to the run.
\<close>

section \<open>Profiles and assignments\<close>

definition iot_weighted_random_device :: "(string \<times> link_profile) list \<Rightarrow> rng \<Rightarrow> string \<times> rng" where
  "iot_weighted_random_device profiles g =
     (let weights = map (\<lambda>(n, p). (n, lp_weight p)) profiles in
      case draw g of (u, g') \<Rightarrow> (pick_weighted 0 (u * sum_list (map snd weights)) weights, g'))"

record iot_client =
  ic_run :: nat
  ic_client_host :: string
  ic_client_ip :: string
  ic_client_type :: string
  ic_bw_mbps :: nat
  ic_network_delay_ms :: real
  ic_network_jitter_ms :: real
  ic_packet_loss_percent :: real
  ic_client_workdir :: string

definition iot_assign_one :: "(string \<times> link_profile) list \<Rightarrow> string \<Rightarrow> nat \<Rightarrow> rng \<Rightarrow> iot_client res \<times> rng" where
  "iot_assign_one profiles clients_dir i g =
     (case iot_weighted_random_device profiles g of (dtype, g1) \<Rightarrow>
      case map_of profiles dtype of
        None \<Rightarrow> (Inl (KeyError dtype), g1)
      | Some p \<Rightarrow>
          (case rand_range (lp_delay_ms_range p) g1 of (delay, g2) \<Rightarrow>
           case rand_range (lp_jitter_ms_range p) g2 of (jitter, g3) \<Rightarrow>
           case rand_range (lp_loss_percent_range p) g3 of (loss, g4) \<Rightarrow>
             (Inr \<lparr>ic_run = i, ic_client_host = ''pi'' @ show_nat i, ic_client_ip = client_addr (i + 1),
                ic_client_type = dtype, ic_bw_mbps = lp_bw_mbps p, ic_network_delay_ms = delay,
                ic_network_jitter_ms = jitter, ic_packet_loss_percent = loss,
                ic_client_workdir = clients_dir @ ''/pi'' @ show_nat i\<rparr>, g4)))"

fun iot_assign_from :: "(string \<times> link_profile) list \<Rightarrow> string \<Rightarrow> nat \<Rightarrow> nat \<Rightarrow> (rng, iot_client list) eff" where
  "iot_assign_from profiles clients_dir i 0 = ret []"
| "iot_assign_from profiles clients_dir i (Suc n) =
     andthen (iot_assign_one profiles clients_dir i) (\<lambda>c.
     andthen (iot_assign_from profiles clients_dir (Suc i) n) (\<lambda>cs. ret (c # cs)))"

text \<open>The directories are made as the clients are assigned; the generator does not depend on them.\<close>

definition iot_make_assignments ::
  "tb_env \<Rightarrow> (string \<times> link_profile) list \<Rightarrow> nat \<Rightarrow> string \<Rightarrow> rng \<Rightarrow> (history, iot_client list \<times> rng) eff" where
  "iot_make_assignments e profiles num_clients clients_dir g =
     (case iot_assign_from profiles clients_dir 1 num_clients g of
        (Inl x, _) \<Rightarrow> raise x
      | (Inr cs, g') \<Rightarrow> andthen (for_each (\<lambda>c. tell e (MakeDir (ic_client_workdir c))) cs) (\<lambda>_. ret (cs, g')))"

section \<open>The network\<close>

text \<open>The hosts' names and addresses are those of their places, counted from 1.\<close>

fun iot_add_clients :: "nat \<Rightarrow> iot_client list \<Rightarrow> network \<Rightarrow> network" where
  "iot_add_clients i [] net = net"
| "iot_add_clients i (c # cs) net =
     iot_add_clients (Suc i) cs
       (add_link (''pi'' @ show_nat i) ''s1'' (ic_bw_mbps c) (ic_network_delay_ms c) (ic_network_jitter_ms c)
         (ic_packet_loss_percent c) (add_host (''pi'' @ show_nat i) (client_addr (i + 1)) net))"

definition iot_build_network :: "iot_client list \<Rightarrow> network" where
  "iot_build_network cs =
     iot_add_clients 1 cs
       (add_link ''server'' ''s1'' 1000 1 0.2 0 (add_host ''server'' SERVER_IP (add_switch ''s1'' empty_net)))"

section \<open>Protocol configuration and build\<close>

text \<open>The argument templates are functions of the bind address and the server address.\<close>

record iot_config =
  io_server_bin :: string
  io_client_bin :: string
  io_port :: nat
  io_server_args :: "string \<Rightarrow> string \<Rightarrow> string"
  io_client_args :: "string \<Rightarrow> string \<Rightarrow> string"
  io_default_csv :: string
  io_title :: string
  io_needs_certs :: bool

definition iot_config_of :: "(string \<times> iot_config) list \<Rightarrow> string \<Rightarrow> iot_config res" where
  "iot_config_of table protocol = (case map_of table protocol of
       Some cfg \<Rightarrow> Inr cfg
     | None \<Rightarrow> Inl (KeyError protocol))"

definition iot_addr :: "iot_config \<Rightarrow> string" where
  "iot_addr cfg = SERVER_IP @ '':'' @ show_nat (io_port cfg)"

definition debug_bins :: "tb_env \<Rightarrow> string \<Rightarrow> string \<Rightarrow> string \<Rightarrow> (history, string \<times> string) eff" where
  "debug_bins e project server client =
     (let server_bin = project @ ''/target/debug/'' @ server; client_bin = project @ ''/target/debug/'' @ client in
      andthen (path_exists e server_bin) (\<lambda>s.
        if \<not> s then raise (FileNotFoundError (''Missing server binary: '' @ server_bin))
        else andthen (path_exists e client_bin) (\<lambda>c.
          if \<not> c then raise (FileNotFoundError (''Missing client binary: '' @ client_bin))
          else ret (server_bin, client_bin))))"

definition iot_protocol_bins :: "tb_env \<Rightarrow> (string \<times> iot_config) list \<Rightarrow> string \<Rightarrow> string \<Rightarrow> (history, string \<times> string) eff" where
  "iot_protocol_bins e table project protocol =
     andthen (from_res (iot_config_of table protocol)) (\<lambda>cfg.
       debug_bins e project (io_server_bin cfg) (io_client_bin cfg))"

definition iot_prepare_project ::
  "tb_env \<Rightarrow> (string \<times> iot_config) list \<Rightarrow> string \<Rightarrow> string list \<Rightarrow> (history, (string \<times> string) list) eff" where
  "iot_prepare_project e table project protocols =
     andthen (path_exists e (project @ ''/Cargo.toml'')) (\<lambda>there.
       if \<not> there then raise (FileNotFoundError (''Cargo.toml not found in '' @ project))
       else
         andthen
           (if ''mtls'' \<in> set protocols then
              andthen (certs_missing e (project @ ''/certs'')) (\<lambda>missing.
                if missing then andthen (run_local e ''bash scripts/gen_certs.sh'' project) (\<lambda>_. ret ()) else ret ())
            else ret ()) (\<lambda>_.
         andthen (run_local e ''cargo build --bins'' project) (\<lambda>_.
           map_eff (iot_protocol_bins e table project) protocols)))"

definition iot_copy_certs_if_needed ::
  "tb_env \<Rightarrow> (string \<times> iot_config) list \<Rightarrow> string \<Rightarrow> string \<Rightarrow> string \<Rightarrow> iot_client list \<Rightarrow> (history, unit) eff" where
  "iot_copy_certs_if_needed e table project protocol workdir cs =
     andthen (from_res (iot_config_of table protocol)) (\<lambda>cfg.
       if \<not> io_needs_certs cfg then ret ()
       else andthen (tell e (MakeDir (workdir @ ''/server''))) (\<lambda>_.
            andthen (tell e (CopyTree (project @ ''/certs'') (workdir @ ''/server/certs''))) (\<lambda>_.
              for_each (\<lambda>c. tell e (CopyTree (project @ ''/certs'') (ic_client_workdir c @ ''/certs''))) cs)))"

section \<open>Commands and outputs\<close>

definition iot_wrapped :: "string \<Rightarrow> string" where
  "iot_wrapped cmd = ''('' @ cmd @ '') 2>&1; rc=$?; echo __RC_${rc}__''"

definition iot_host_cmd_with_status :: "tb_env \<Rightarrow> string \<Rightarrow> string \<Rightarrow> (history, int \<times> string) eff" where
  "iot_host_cmd_with_status e host cmd =
     andthen (ask e (HostCmd host (iot_wrapped cmd))) (\<lambda>a. from_res (host_cmd_with_status (an_text a)))"

text \<open>The metrics parser of the EDHOC and ZK-ARCHE scripts knows only the original line.\<close>

record counters =
  ct_duration_ms :: "real option"
  ct_sent_bytes :: "int option"
  ct_received_bytes :: "int option"

definition no_counters :: counters where
  "no_counters = \<lparr>ct_duration_ms = None, ct_sent_bytes = None, ct_received_bytes = None\<rparr>"

definition rx_plain_client :: rx where
  "rx_plain_client = Seq (lit ''CLIENT METRICS'') (Seq (Star is_space) (Seq (lit ''->'') (Seq (Star is_space) rx_counters)))"

text \<open>\<open>finish\<close> is what the script does with the parsed duration.\<close>

definition plain_client_line :: "(real option \<Rightarrow> real option res) \<Rightarrow> string \<Rightarrow> counters \<Rightarrow> counters res" where
  "plain_client_line finish line m = (case re_search rx_plain_client line of
       None \<Rightarrow> Inr m
     | Some (_, c, _) \<Rightarrow>
         bind_res (parse_duration_to_ms (group ''dur'' c)) (\<lambda>parsed.
         bind_res (finish parsed) (\<lambda>duration.
         bind_res (int_res (group ''sent'' c)) (\<lambda>sent.
         bind_res (int_res (group ''recv'' c)) (\<lambda>recv.
           Inr \<lparr>ct_duration_ms = duration, ct_sent_bytes = Some sent, ct_received_bytes = Some recv\<rparr>)))))"

fun plain_client_lines :: "(real option \<Rightarrow> real option res) \<Rightarrow> string list \<Rightarrow> counters \<Rightarrow> counters res" where
  "plain_client_lines finish [] m = Inr m"
| "plain_client_lines finish (l # ls) m = bind_res (plain_client_line finish l m) (plain_client_lines finish ls)"

text \<open>\<open>round(parsed, 4) if parsed is not None else None\<close>, and \<open>round(parsed, 4)\<close>, which raises on \<open>None\<close>.\<close>

definition round_if_parsed :: "real option \<Rightarrow> real option res" where
  "round_if_parsed parsed = Inr (rounded parsed)"

definition round_parsed :: "real option \<Rightarrow> real option res" where
  "round_parsed parsed = (case parsed of
       Some d \<Rightarrow> Inr (Some (py_round d 4))
     | None \<Rightarrow> Inl (TypeError ''type NoneType doesn't define __round__ method''))"

definition e50_parse_client_metrics :: "string \<Rightarrow> counters res" where
  "e50_parse_client_metrics output = plain_client_lines round_if_parsed (splitlines output) no_counters"

definition z50_parse_client_metrics :: "string \<Rightarrow> counters res" where
  "z50_parse_client_metrics output = plain_client_lines round_parsed (splitlines output) no_counters"

text \<open>The mTLS script's parser is that of the combined runner under other key names.\<close>

definition m50_parse_client_metrics :: "string \<Rightarrow> client_metrics res" where
  "m50_parse_client_metrics output = client_lines (splitlines output) no_metrics"

text \<open>\<open>open(output_csv, "w")\<close> comes before \<open>results[0]\<close>: without rows the file is left empty.\<close>

definition iot_save :: "tb_env \<Rightarrow> string \<Rightarrow> row list \<Rightarrow> (history, unit) eff" where
  "iot_save e path rows = (case rows of
       [] \<Rightarrow> andthen (tell e (WriteFile path [])) (\<lambda>_. raise IndexError)
     | r # _ \<Rightarrow> write_rows e path (map fst r) rows)"

end
