(* ===== verification/IotRuns.thy ===== *)
theory IotRuns
  imports IotScripts
begin

text \<open>
  The runs of the three single-protocol Mininet scripts: their tables, commands and rows, the loop over the
  clients inside the network's lifetime, and the main programs. The mTLS and EDHOC scripts share
  one run with the script as a parameter; the ZK-ARCHE script has its own, in which every command of
  a client must succeed. What is printed is not modelled.
\<close>

section \<open>The mTLS and EDHOC scripts\<close>

record iot_script =
  is_protocol :: string
  is_table :: "(string \<times> iot_config) list"
  is_profiles :: "(string \<times> link_profile) list"
  is_server_env :: string
  is_prepare :: "tb_env \<Rightarrow> string \<Rightarrow> string \<Rightarrow> (history, unit) eff"
  is_auth_cmd :: "iot_client \<Rightarrow> string \<Rightarrow> string \<Rightarrow> string"
  is_row :: "iot_client \<Rightarrow> int \<Rightarrow> string \<Rightarrow> real \<Rightarrow> row res"

definition iot_server_cmd :: "iot_script \<Rightarrow> iot_config \<Rightarrow> string \<Rightarrow> string \<Rightarrow> string" where
  "iot_server_cmd S cfg server_bin server_dir =
     ''cd '' @ shlex_quote server_dir @ '' && '' @ is_server_env S @ shlex_quote server_bin @ '' ''
     @ io_server_args cfg (iot_addr cfg) (iot_addr cfg) @ '' > /tmp/'' @ is_protocol S @ ''_server_mininet.log 2>&1 &''"

definition iot_run_client ::
  "tb_env \<Rightarrow> iot_script \<Rightarrow> iot_config \<Rightarrow> string \<Rightarrow> string \<times> iot_client \<Rightarrow> (history, row) eff" where
  "iot_run_client e S cfg client_bin hc = (case hc of (host, c) \<Rightarrow>
     andthen (clock e) (\<lambda>start.
     andthen (iot_host_cmd_with_status e host
        (is_auth_cmd S c client_bin (io_client_args cfg (iot_addr cfg) (iot_addr cfg)))) (\<lambda>(rc, output).
     andthen (clock e) (\<lambda>stop.
       from_res (is_row S c rc output (py_round ((stop - start) * 1000) 4))))))"

text \<open>The hosts Mininet returned for the clients, in order: all but the server.\<close>

definition client_hosts :: "network \<Rightarrow> string list" where
  "client_hosts net = map fst (drop 1 (n_hosts net))"

definition iot_session ::
  "tb_env \<Rightarrow> iot_script \<Rightarrow> iot_config \<Rightarrow> string \<times> string \<Rightarrow> string \<Rightarrow> string \<Rightarrow> iot_client list \<Rightarrow> (history, unit) eff" where
  "iot_session e S cfg bins workdir output_csv cs =
     andthen (tell e (HostCmd ''server'' (iot_server_cmd S cfg (fst bins) (workdir @ ''/server'')))) (\<lambda>_.
     andthen (map_eff (iot_run_client e S cfg (snd bins)) (zip (client_hosts (iot_build_network cs)) cs)) (\<lambda>rows.
       iot_save e output_csv rows))"

definition iot_pkill :: "iot_config \<Rightarrow> string" where
  "iot_pkill cfg = ''pkill -f '' @ shlex_quote (io_server_bin cfg) @ '' || true''"

definition iot_run_protocol ::
  "tb_env \<Rightarrow> iot_script \<Rightarrow> string \<Rightarrow> string \<times> string \<Rightarrow> nat \<Rightarrow> string \<Rightarrow> string \<Rightarrow> rng \<Rightarrow> (history, unit) eff" where
  "iot_run_protocol e S project bins num_clients output_csv base_workdir g =
     andthen (from_res (iot_config_of (is_table S) (is_protocol S))) (\<lambda>cfg.
     let workdir = base_workdir @ ''/'' @ is_protocol S in
     andthen (path_exists e workdir) (\<lambda>there.
     andthen (if there then tell e (RemoveTree workdir) else ret ()) (\<lambda>_.
     andthen (tell e (MakeDir (workdir @ ''/server''))) (\<lambda>_.
     andthen (tell e (MakeDir (workdir @ ''/clients''))) (\<lambda>_.
     andthen (iot_make_assignments e (is_profiles S) num_clients (workdir @ ''/clients'') g) (\<lambda>(cs, _).
     andthen (iot_copy_certs_if_needed e (is_table S) project (is_protocol S) workdir cs) (\<lambda>_.
     andthen (is_prepare S e project workdir) (\<lambda>_.
       try_finally (andthen (tell e NetStart) (\<lambda>_. iot_session e S cfg bins workdir output_csv cs))
         (stop_network e (iot_pkill cfg))))))))))"

record iot_args =
  ia_project :: string
  ia_clients :: nat
  ia_output :: string
  ia_workdir :: string
  ia_seed :: "int option"

definition iot_main :: "tb_env \<Rightarrow> iot_script \<Rightarrow> iot_args \<Rightarrow> (history, unit) eff" where
  "iot_main e S args =
     andthen (iot_prepare_project e (is_table S) (ia_project args) [is_protocol S]) (\<lambda>bins.
       iot_run_protocol e S (ia_project args) (hd bins) (ia_clients args) (ia_output args) (ia_workdir args)
         (te_seeded e (ia_seed args)))"

text \<open>The columns every row of these scripts begins with, after the protocol.\<close>

definition iot_base_cells :: "iot_client \<Rightarrow> row" where
  "iot_base_cells c =
     [(''run'', VInt (int (ic_run c))), (''client_host'', VStr (ic_client_host c)), (''client_ip'', VStr (ic_client_ip c)),
      (''client_type'', VStr (ic_client_type c)), (''server_cpu'', VStr SERVER_CPU),
      (''network_delay_ms'', VFloat (ic_network_delay_ms c)), (''network_jitter_ms'', VFloat (ic_network_jitter_ms c)),
      (''packet_loss_percent'', VFloat (ic_packet_loss_percent c))]"

subsection \<open>mTLS\<close>

definition m50_CONFIG :: "(string \<times> iot_config) list" where
  "m50_CONFIG = [(''mtls'', \<lparr>io_server_bin = ''mtls_server'', io_client_bin = ''mtls_client'', io_port = 7443,
     io_server_args = (\<lambda>bind server. bind), io_client_args = (\<lambda>bind server. server @ '' localhost''),
     io_default_csv = ''mtls_mininet_results.csv'', io_title = ''mTLS'', io_needs_certs = True\<rparr>)]"

definition m50_auth_cmd :: "iot_client \<Rightarrow> string \<Rightarrow> string \<Rightarrow> string" where
  "m50_auth_cmd c client_bin cargs =
     ''cd '' @ shlex_quote (ic_client_workdir c) @ '' && MTLS_DEVICE_ID='' @ shlex_quote (ic_client_host c)
     @ '' MTLS_PAYLOAD='' @ shlex_quote ''mininet-industry-style-mtls-auth-check''
     @ '' '' @ shlex_quote client_bin @ '' '' @ cargs"

definition m50_row :: "iot_client \<Rightarrow> int \<Rightarrow> string \<Rightarrow> real \<Rightarrow> row res" where
  "m50_row c rc output wall_elapsed_ms =
     bind_res (m50_parse_client_metrics output) (\<lambda>m.
       Inr ((''protocol'', VStr ''mtls'') # iot_base_cells c @
         [(''auth_duration_ms'', v_float (cm_auth_duration_ms m)), (''auth_sent_bytes'', v_int (cm_auth_sent_bytes m)),
          (''auth_received_bytes'', v_int (cm_auth_received_bytes m)),
          (''client_cert_sha256'', v_str (cm_client_cert_sha256 m)), (''request_bytes'', v_int (cm_request_bytes m)),
          (''response_bytes'', v_int (cm_response_bytes m)), (''device_id'', v_str (cm_device_id m)),
          (''auth_wall_elapsed_ms'', VFloat wall_elapsed_ms), (''status'', VStr (auth_status rc m)),
          (''return_code'', VInt rc)]))"

definition m50_script :: iot_script where
  "m50_script = \<lparr>is_protocol = ''mtls'', is_table = m50_CONFIG, is_profiles = DEVICE_PROFILES,
     is_server_env = ''MTLS_MAX_ACTIVE_CONNECTIONS=128 MTLS_ALLOWED_CLIENTS_FILE=certs/authorized_clients.txt '',
     is_prepare = (\<lambda>e project workdir. andthen (prepare_mtls_authorized_clients e project workdir) (\<lambda>_. ret ())),
     is_auth_cmd = m50_auth_cmd, is_row = m50_row\<rparr>"

definition m50_main :: "tb_env \<Rightarrow> iot_args \<Rightarrow> (history, unit) eff" where
  "m50_main e args = iot_main e m50_script args"

subsection \<open>EDHOC\<close>

definition e50_CONFIG :: "(string \<times> iot_config) list" where
  "e50_CONFIG = [(''edhoc'', \<lparr>io_server_bin = ''edhoc_server'', io_client_bin = ''edhoc_client'', io_port = 5688,
     io_server_args = (\<lambda>bind server. bind), io_client_args = (\<lambda>bind server. server),
     io_default_csv = ''edhoc_mininet_results.csv'', io_title = ''EDHOC-over-TCP'', io_needs_certs = False\<rparr>)]"

definition e50_auth_cmd :: "iot_client \<Rightarrow> string \<Rightarrow> string \<Rightarrow> string" where
  "e50_auth_cmd c client_bin cargs =
     ''cd '' @ shlex_quote (ic_client_workdir c) @ '' && '' @ shlex_quote client_bin @ '' '' @ cargs"

definition e50_row :: "iot_client \<Rightarrow> int \<Rightarrow> string \<Rightarrow> real \<Rightarrow> row res" where
  "e50_row c rc output wall_elapsed_ms =
     bind_res (e50_parse_client_metrics output) (\<lambda>m.
       Inr ((''protocol'', VStr ''edhoc'') # iot_base_cells c @
         [(''auth_duration_ms'', v_float (ct_duration_ms m)), (''auth_sent_bytes'', v_int (ct_sent_bytes m)),
          (''auth_received_bytes'', v_int (ct_received_bytes m)), (''auth_wall_elapsed_ms'', VFloat wall_elapsed_ms),
          (''status'', VStr (if rc = 0 \<and> ct_duration_ms m \<noteq> None then ''AUTH_SUCCESS'' else ''AUTH_FAILED'')),
          (''return_code'', VInt rc)]))"

definition e50_script :: iot_script where
  "e50_script = \<lparr>is_protocol = ''edhoc'', is_table = e50_CONFIG, is_profiles = DEVICE_PROFILES, is_server_env = [],
     is_prepare = (\<lambda>e project workdir. ret ()), is_auth_cmd = e50_auth_cmd, is_row = e50_row\<rparr>"

definition e50_main :: "tb_env \<Rightarrow> iot_args \<Rightarrow> (history, unit) eff" where
  "e50_main e args = iot_main e e50_script args"

section \<open>The ZK-ARCHE script\<close>

definition z50_PAIRING_TOKEN :: string where
  "z50_PAIRING_TOKEN = ''mininet-pairing-token''"

definition z50_addr :: string where
  "z50_addr = SERVER_IP @ '':'' @ show_nat 4000"

definition z50_prepare_binaries :: "tb_env \<Rightarrow> string \<Rightarrow> (history, string \<times> string) eff" where
  "z50_prepare_binaries e project =
     andthen (path_exists e (project @ ''/Cargo.toml'')) (\<lambda>there.
       if \<not> there then raise (FileNotFoundError (''Cargo.toml not found in '' @ project))
       else andthen (run_local e ''cargo build --bins'' project) (\<lambda>_.
         debug_bins e project ''zkarche_server'' ''zkarche_client''))"

definition z50_server_pub :: "string \<Rightarrow> string res" where
  "z50_server_pub output =
     (let lines = splitlines output in
      if lines = [] then Inl IndexError
      else let pub = strip (last lines) in
        if length pub = 64 \<and> list_all is_hex pub then Inr pub
        else Inl (RuntimeError (''Could not parse server public key. Output was: '' @ pub)))"

definition z50_prepare_workdirs :: "tb_env \<Rightarrow> string \<Rightarrow> string \<Rightarrow> (history, string \<times> string \<times> string) eff" where
  "z50_prepare_workdirs e workdir server_bin =
     andthen (path_exists e workdir) (\<lambda>there.
     andthen (if there then tell e (RemoveTree workdir) else ret ()) (\<lambda>_.
     andthen (tell e (MakeDir (workdir @ ''/server''))) (\<lambda>_.
     andthen (tell e (MakeDir (workdir @ ''/clients''))) (\<lambda>_.
     andthen (run_local e (shlex_quote server_bin @ '' --print-pubkey'') (workdir @ ''/server'')) (\<lambda>out.
     andthen (from_res (z50_server_pub out)) (\<lambda>pub.
       ret (workdir @ ''/server'', workdir @ ''/clients'', pub)))))))"

text \<open>\<open>s.replace(pat, "")\<close> for a text \<open>pat\<close> that is not empty.\<close>

function remove_all :: "string \<Rightarrow> string \<Rightarrow> string" where
  "remove_all pat s =
     (if pat = [] \<or> s = [] then s
      else if starts_with pat s then remove_all pat (drop (length pat) s)
      else hd s # remove_all pat (tl s))"
  by pat_completeness auto
termination by (relation "measure (\<lambda>(pat, s). length s)") auto

declare remove_all.simps [simp del]

definition host_cmd_checked :: "tb_env \<Rightarrow> string \<Rightarrow> string \<Rightarrow> string \<Rightarrow> (history, string) eff" where
  "host_cmd_checked e host cmd label =
     andthen (ask e (HostCmd host cmd)) (\<lambda>a.
       let out = strip (an_text a) in
       if \<not> is_infix ''__EXIT_0__'' out then raise (RuntimeError (label @ '' failed. Command output:'' @ [LF] @ out))
       else ret (strip (remove_all ''__EXIT_0__'' out)))"

definition z50_pin_cmd :: "string \<Rightarrow> string \<Rightarrow> string \<Rightarrow> string \<Rightarrow> string" where
  "z50_pin_cmd client_bin cdir server_pub host =
     ''cd '' @ shlex_quote cdir @ '' && '' @ shlex_quote client_bin @ '' --pin-server-pub '' @ server_pub
     @ '' >/tmp/'' @ host @ ''_pin.log 2>&1 && echo __EXIT_0__''"

definition z50_setup_cmd :: "string \<Rightarrow> string \<Rightarrow> string" where
  "z50_setup_cmd client_bin cdir =
     ''cd '' @ shlex_quote cdir @ '' && '' @ shlex_quote client_bin @ '' --server '' @ z50_addr
     @ '' --setup --pairing-token '' @ shlex_quote z50_PAIRING_TOKEN @ '' 2>&1 && echo __EXIT_0__''"

definition z50_auth_cmd :: "string \<Rightarrow> string \<Rightarrow> string" where
  "z50_auth_cmd client_bin cdir =
     ''cd '' @ shlex_quote cdir @ '' && '' @ shlex_quote client_bin @ '' --server '' @ z50_addr
     @ '' 2>&1 && echo __EXIT_0__''"

definition z50_server_cmd :: "string \<Rightarrow> string \<Rightarrow> string" where
  "z50_server_cmd server_bin server_dir =
     ''cd '' @ shlex_quote server_dir @ '' && '' @ shlex_quote server_bin @ '' --bind '' @ z50_addr
     @ '' --pairing --pairing-token '' @ shlex_quote z50_PAIRING_TOKEN @ '' > /tmp/zkarche_server_mininet.log 2>&1 &''"

definition z50_row :: "iot_client \<Rightarrow> counters \<Rightarrow> counters \<Rightarrow> real \<Rightarrow> row" where
  "z50_row c su m wall_elapsed_ms = iot_base_cells c @
     [(''setup_duration_ms'', v_float (ct_duration_ms su)), (''setup_sent_bytes'', v_int (ct_sent_bytes su)),
      (''setup_received_bytes'', v_int (ct_received_bytes su)), (''auth_duration_ms'', v_float (ct_duration_ms m)),
      (''auth_sent_bytes'', v_int (ct_sent_bytes m)), (''auth_received_bytes'', v_int (ct_received_bytes m)),
      (''auth_wall_elapsed_ms'', VFloat wall_elapsed_ms), (''status'', VStr ''AUTH_SUCCESS'')]"

definition z50_run_client :: "tb_env \<Rightarrow> string \<Rightarrow> string \<Rightarrow> string \<times> iot_client \<Rightarrow> (history, row) eff" where
  "z50_run_client e client_bin server_pub hc = (case hc of (host, c) \<Rightarrow>
     andthen (host_cmd_checked e host (z50_pin_cmd client_bin (ic_client_workdir c) server_pub host)
       (''pin server key for '' @ host)) (\<lambda>_.
     andthen (host_cmd_checked e host (z50_setup_cmd client_bin (ic_client_workdir c)) (''setup for '' @ host)) (\<lambda>setup_output.
     andthen (from_res (z50_parse_client_metrics setup_output)) (\<lambda>su.
     andthen (clock e) (\<lambda>start.
     andthen (host_cmd_checked e host (z50_auth_cmd client_bin (ic_client_workdir c)) (''auth for '' @ host)) (\<lambda>auth_output.
     andthen (clock e) (\<lambda>stop.
     andthen (from_res (z50_parse_client_metrics auth_output)) (\<lambda>m.
       ret (z50_row c su m (py_round ((stop - start) * 1000) 4))))))))))"

definition z50_session ::
  "tb_env \<Rightarrow> string \<times> string \<Rightarrow> string \<Rightarrow> string \<Rightarrow> string \<Rightarrow> iot_client list \<Rightarrow> (history, unit) eff" where
  "z50_session e bins server_dir server_pub output_csv cs =
     andthen (tell e (HostCmd ''server'' (z50_server_cmd (fst bins) server_dir))) (\<lambda>_.
     andthen (map_eff (z50_run_client e (snd bins) server_pub) (zip (client_hosts (iot_build_network cs)) cs)) (\<lambda>rows.
       iot_save e output_csv rows))"

definition z50_pkill :: string where
  "z50_pkill = ''pkill -f zkarche_server || true''"

definition z50_main :: "tb_env \<Rightarrow> iot_args \<Rightarrow> (history, unit) eff" where
  "z50_main e args =
     andthen (z50_prepare_binaries e (ia_project args)) (\<lambda>bins.
     andthen (z50_prepare_workdirs e (ia_workdir args) (fst bins)) (\<lambda>(server_dir, clients_dir, server_pub).
     andthen (iot_make_assignments e DEVICE_PROFILES (ia_clients args) clients_dir (te_seeded e (ia_seed args))) (\<lambda>(cs, _).
       try_finally (andthen (tell e NetStart) (\<lambda>_. z50_session e bins server_dir server_pub (ia_output args) cs))
         (stop_network e z50_pkill))))"

end
