(* ===== verification/MininetRefine.thy ===== *)
theory MininetRefine
  imports MininetControl
begin

text \<open>
  The effects of \<open>MininetControl\<close> against the pure workloads of \<open>MininetRun\<close>: a batch starts every
  client before it waits for one and computes the rows of the pure batch, the enrollment on the
  testbed is an instance of the pure enrollment, the traffic generators are stopped, and the high-load
  table is complete.
\<close>

section \<open>A run without clients\<close>

definition demo_args :: mn_args where
  "demo_args = \<lparr>ma_project = ''/p'', ma_protocol = ''edhoc'', ma_test = ''2'', ma_clients = 0, ma_iterations = 2,
     ma_workdir = ''/w'', ma_results_dir = ''/r'', ma_seed = None, ma_network_model = ''simple'', ma_gateway_count = 4,
     ma_device_mix = ''raspberry-pi'', ma_background_hosts = 0, ma_background_traffic = ''none'',
     ma_zkarche_device_only = False, ma_zkarche_full = False\<rparr>"

lemma quiet_only_exceptions: "only_exceptions quiet_env"
  by (simp add: only_exceptions_def quiet_env_def)

lemma tell_quiet: "tell quiet_env ev h = (Inr (), h @ [ev])"
  by (simp add: tell_def ask_def andthen_def quiet_env_def)

lemma popen_quiet: "popen quiet_env host cmd h = (Inr (length h), h @ [HostPopen host cmd])"
  by (simp add: popen_def ask_def andthen_def quiet_env_def)

lemma ask_quiet: "ask quiet_env ev h = (Inr quiet_answer, h @ [ev])"
  by (simp add: ask_def quiet_env_def)

lemma clock_quiet: "clock quiet_env h = (Inr 0, h)"
  by (simp add: clock_def quiet_env_def)

lemma quiet_exists: "te_exists quiet_env h p"
  by (simp add: quiet_env_def)

lemma network_always_stopped_witness:
  "\<exists>cfg pre evs. map_of MN_PROTOCOLS ''edhoc'' = Some cfg
    \<and> run_protocol_tests quiet_env demo_args None ''/p'' ''edhoc'' (''s'', ''c'') (\<lambda>_. 1/2) []
      = (Inl IndexError, pre @ NetStart # evs @ [HostCmd ''server'' (pkill_cmd cfg), NetStop])"
proof -
  obtain cfg where cfg: "map_of MN_PROTOCOLS ''edhoc'' = Some cfg" by (simp add: MN_PROTOCOLS_def)
  obtain cmd where cmd: "server_cmd ''edhoc'' ''s'' ''/w/edhoc/server'' = Inr cmd" using edhoc_server_words by blast
  have certs: "\<not> mp_needs_certs cfg" using cfg by (auto simp: MN_PROTOCOLS_def)
  have run: "\<exists>h'. run_protocol_tests quiet_env demo_args None ''/p'' ''edhoc'' (''s'', ''c'') (\<lambda>_. 1/2) []
      = (Inl IndexError, h') \<and> NetStart \<in> set h'"
    using cfg cmd certs
    by (simp add: run_protocol_tests_def mn_protocol_of_def demo_args_def Let_def path_exists_def andthen_def quiet_exists
      tell_quiet make_assignments_def for_each_def copy_certs_if_needed_def build_network_def start_background_traffic_def
      on_network_def start_traffic_def launch_flows_def workloads_def launch_server_def selected_tests_def test_2_def
      try_finally_def clean_up_def stop_background_traffic_def attempt_def stop_network_def)
  then obtain h' where h': "run_protocol_tests quiet_env demo_args None ''/p'' ''edhoc'' (''s'', ''c'') (\<lambda>_. 1/2) []
      = (Inl IndexError, h')" "NetStart \<in> set h'" by blast
  from network_always_stopped [OF quiet_only_exceptions cfg h'(1)] h' cfg show ?thesis by auto
qed

section \<open>The traffic generators\<close>

lemma terminate_all:
  assumes "only_exceptions e"
  shows "for_each (\<lambda>p. attempt (tell e (Terminate p))) procs h = (Inr (), h @ map Terminate procs)"
proof -
  have one: "attempt (tell e ev) h = (Inr (), h @ [ev])" for ev h
  proof -
    have "fst (attempt (tell e ev) h) = Inr ()" by (intro attempt_returns no_exit_tell assms)
    moreover have "snd (attempt (tell e ev) h) = h @ [ev]"
      by (auto simp: attempt_def tell_def ask_def andthen_def split: sum.splits pyerr.splits)
    ultimately show ?thesis by (metis prod.collapse)
  qed
  have "map_eff (\<lambda>p. attempt (tell e (Terminate p))) procs h = (Inr (map (\<lambda>_. ()) procs), h @ map Terminate procs)"
    by (induction procs arbitrary: h) (auto simp: one andthen_def)
  then show ?thesis by (auto simp: for_each_def andthen_def)
qed

lemma stop_background_events:
  assumes "only_exceptions e"
  shows "\<exists>evs. snd (stop_background_traffic e procs h) = h @ map Terminate procs @ evs"
proof -
  let ?poll = "for_each (\<lambda>p. attempt (andthen (ask e (Poll p)) (\<lambda>a. if an_running a then tell e (KillProc p) else ret ()))) procs"
  have "emits (\<lambda>_. True) ?poll" by (intro emits_intros) simp_all
  then obtain evs where "snd (?poll (h @ map Terminate procs)) = (h @ map Terminate procs) @ evs"
    unfolding emits_def by blast
  then show ?thesis using terminate_all [OF assms, of procs h]
    by (auto simp: stop_background_traffic_def andthen_def)
qed

definition no_terminate :: "tb_event \<Rightarrow> bool" where
  "no_terminate ev \<longleftrightarrow> (\<forall>p. ev \<noteq> Terminate p)"

text \<open>C36: The traffic generators are all terminated once they were all started, before the server is
  killed; but if one of them cannot be started, the cleanup does not know of those already running and
  terminates none.\<close>

theorem traffic_stopped_if_all_started:
  assumes "only_exceptions e" and "start_traffic e flows h = (q, h1)"
    and "on_network e args renv protocol bins workdir cfg flows as h = (r, h')"
  shows "(case q of
       Inr procs \<Rightarrow> \<exists>evs evs2. h' = h1 @ evs @ map Terminate procs @ evs2 @ [HostCmd ''server'' (pkill_cmd cfg), NetStop]
     | Inl x \<Rightarrow> \<exists>evs. h' = h1 @ evs \<and> list_all no_terminate evs)"
proof (cases q)
  case (Inl x)
  have "emits no_terminate (try_finally (raise x :: (history, unit) eff) (clean_up e cfg []))"
    unfolding clean_up_def stop_background_traffic_def stop_network_def for_each_def map_eff.simps
    by (intro emits_intros) (simp_all add: no_terminate_def)
  moreover have "try_finally (raise x) (clean_up e cfg []) h1 = (r, h')" using assms(2,3) Inl by (simp add: on_network_def)
  ultimately show ?thesis using Inl by (auto elim: emitsD)
next
  case (Inr procs)
  obtain q1 h2 where w: "workloads e args renv protocol bins workdir as h1 = (q1, h2)"
    by (cases "workloads e args renv protocol bins workdir as h1")
  obtain evs where evs: "h2 = h1 @ evs" using emitsD [OF net_workloads w] by blast
  obtain q2 h3 where s: "attempt (stop_background_traffic e procs) h2 = (q2, h3)"
    by (cases "attempt (stop_background_traffic e procs) h2")
  have sb: "fst (stop_background_traffic e procs h2) = Inr ()" by (rule stop_background_returns [OF assms(1)])
  then have q2: "q2 = Inr ()" and h3: "h3 = snd (stop_background_traffic e procs h2)"
    using s by (auto simp: attempt_def split: prod.splits)
  obtain evs2 where "h3 = h2 @ map Terminate procs @ evs2" using stop_background_events [OF assms(1)] h3 by blast
  moreover have "h' = snd (stop_network e (pkill_cmd cfg) h3)"
    using assms(2,3) Inr w s q2
    by (auto simp: on_network_def try_finally_def clean_up_def andthen_def split: prod.splits sum.splits)
  ultimately have "h' = h1 @ evs @ map Terminate procs @ evs2 @ [HostCmd ''server'' (pkill_cmd cfg), NetStop]"
    using stop_network_history [OF assms(1)] evs by simp
  then show ?thesis using Inr by auto
qed

lemma traffic_stopped_if_all_started_witness:
  "\<exists>cfg r evs evs2. on_network quiet_env demo_args None ''edhoc'' (''s'', ''c'') ''/w'' cfg [Sink 5201] [] []
     = (r, [NetStart, HostPopen ''server'' (snd (flow_command (Sink 5201)))] @ evs @ [Terminate 1] @ evs2
         @ [HostCmd ''server'' (pkill_cmd cfg), NetStop])"
proof -
  obtain cfg where "map_of MN_PROTOCOLS ''edhoc'' = Some cfg" by (simp add: MN_PROTOCOLS_def)
  have start: "start_traffic quiet_env [Sink 5201] [] = (Inr [1], [NetStart, HostPopen ''server'' (snd (flow_command (Sink 5201)))])"
    by (simp add: start_traffic_def launch_flows_def tell_quiet popen_quiet andthen_def)
  obtain r h' where run: "on_network quiet_env demo_args None ''edhoc'' (''s'', ''c'') ''/w'' cfg [Sink 5201] [] [] = (r, h')"
    by fastforce
  from traffic_stopped_if_all_started [OF quiet_only_exceptions start run] run show ?thesis by auto
qed

section \<open>Batches\<close>

text \<open>The texts the environment answers to consecutive events.\<close>

fun replies :: "tb_env \<Rightarrow> history \<Rightarrow> tb_event list \<Rightarrow> string list" where
  "replies e h [] = []"
| "replies e h (ev # evs) = (case te_answer e (h @ [ev]) of Inr a \<Rightarrow> an_text a | Inl _ \<Rightarrow> []) # replies e (h @ [ev]) evs"

definition client_start :: "string \<Rightarrow> string \<Rightarrow> assignment \<Rightarrow> tb_event" where
  "client_start protocol client_bin a = HostPopen (a_client_host a)
     (case client_auth_cmd protocol client_bin (a_client_workdir a) of Inr cmd \<Rightarrow> wrapped_shell_cmd cmd | Inl _ \<Rightarrow> [])"

lemma start_client_Inr:
  "start_client e protocol bin (i, a) h = (Inr s, h') \<Longrightarrow>
     h' = h @ [client_start protocol bin a] \<and> st_index s = i \<and> st_proc s = length h"
  by (auto simp: start_client_def client_start_def popen_def ask_def clock_def andthen_def split: sum.splits)

lemma start_clients_Inr:
  "map_eff (start_client e protocol bin) (List.enumerate k as) h = (Inr ss, h') \<Longrightarrow>
     h' = h @ map (client_start protocol bin) as \<and> map st_index ss = [k..<k + length as]
     \<and> map st_proc ss = [length h..<length h + length as]"
proof (induction as arbitrary: k h ss)
  case Nil
  then show ?case by simp
next
  case (Cons a as)
  then obtain s h1 ss' where s: "start_client e protocol bin (k, a) h = (Inr s, h1)"
    and rest: "map_eff (start_client e protocol bin) (List.enumerate (Suc k) as) h1 = (Inr ss', h')" "ss = s # ss'"
    unfolding enumerate_simps map_eff_Inr by blast
  from start_client_Inr [OF s] have 1: "h1 = h @ [client_start protocol bin a]" "st_index s = k" "st_proc s = length h" by auto
  from Cons.IH [OF rest(1)] show ?case using 1 rest(2) by (simp add: upt_conv_Cons del: upt_Suc)
qed

lemma await_client_Inr:
  assumes "await_client e protocol as t w r b s h = (Inr x, h')"
  shows "\<exists>a p. te_answer e (h @ [Communicate (st_proc s)]) = Inr a \<and> h' = h @ [Communicate (st_proc s)]
    \<and> bp_output p = an_text a \<and> batch_row protocol t w r (st_index s) (as ! st_index s) p = Inr x"
proof (cases "te_answer e (h @ [Communicate (st_proc s)])")
  case (Inl y)
  then show ?thesis using assms by (simp add: await_client_def ask_def andthen_def)
next
  case (Inr a)
  let ?p = "\<lparr>bp_output = an_text a, bp_wall_s = te_clock e h' - st_time s, bp_batch_s = te_clock e h' - b\<rparr>"
  have "h' = h @ [Communicate (st_proc s)] \<and> batch_row protocol t w r (st_index s) (as ! st_index s) ?p = Inr x"
    using assms Inr by (auto simp: await_client_def ask_def clock_def andthen_def)
  then show ?thesis using Inr by (intro exI [of _ a] exI [of _ ?p] conjI) auto
qed

lemma await_clients_Inr:
  assumes "map_eff (await_client e protocol as t w r b) ss h = (Inr rows, h')"
    and "map st_index ss = [i..<i + length ss]" and "i + length ss \<le> length as"
  shows "h' = h @ map (\<lambda>s. Communicate (st_proc s)) ss
    \<and> (\<exists>procs. map bp_output procs = replies e h (map (\<lambda>s. Communicate (st_proc s)) ss)
         \<and> execute_batch_from i protocol t w r as procs = Inr rows)"
  using assms
proof (induction ss arbitrary: i h rows)
  case Nil
  then show ?case by simp
next
  case (Cons s ss)
  have i: "st_index s = i" "map st_index ss = [Suc i..<Suc i + length ss]" using Cons.prems(2)
    by (simp_all add: upt_conv_Cons del: upt_Suc)
  from Cons.prems(1) obtain x h1 rows' where x: "await_client e protocol as t w r b s h = (Inr x, h1)"
    and rest: "map_eff (await_client e protocol as t w r b) ss h1 = (Inr rows', h')" "rows = x # rows'"
    unfolding map_eff_Inr by blast
  from await_client_Inr [OF x] obtain a p where
      a: "te_answer e (h @ [Communicate (st_proc s)]) = Inr a" "h1 = h @ [Communicate (st_proc s)]"
    and p: "bp_output p = an_text a" "batch_row protocol t w r i (as ! i) p = Inr x"
    unfolding i(1) by blast
  from Cons.IH [OF rest(1) i(2)] Cons.prems(3) obtain procs where
    "h' = h1 @ map (\<lambda>s. Communicate (st_proc s)) ss"
    "map bp_output procs = replies e h1 (map (\<lambda>s. Communicate (st_proc s)) ss)"
    "execute_batch_from (Suc i) protocol t w r as procs = Inr rows'" by auto
  then show ?case using a p rest(2) Cons.prems(3) by (intro conjI exI [of _ "p # procs"]) simp_all
qed

lemma run_batch_events:
  assumes "run_batch e protocol bin as t w r h = (Inr rows, h')"
  shows "h' = h @ map (client_start protocol bin) as @ map Communicate [length h..<length h + length as]
    \<and> (\<exists>procs. map bp_output procs = replies e (h @ map (client_start protocol bin) as)
                  (map Communicate [length h..<length h + length as])
         \<and> execute_concurrent_batch protocol as t w r procs = Inr rows)"
proof -
  from assms obtain ss h1 where s: "map_eff (start_client e protocol bin) (List.enumerate 0 as) h = (Inr ss, h1)"
    and a: "map_eff (await_client e protocol as t w r (te_clock e h)) ss h1 = (Inr rows, h')"
    unfolding run_batch_def andthen_Inr_iff clock_def by auto
  from start_clients_Inr [OF s] have 1: "h1 = h @ map (client_start protocol bin) as"
      "map st_index ss = [0..<length as]" "map st_proc ss = [length h..<length h + length as]" by auto
  from arg_cong [OF 1(2), of length] have n: "length ss = length as" by simp
  have c: "map (\<lambda>s. Communicate (st_proc s)) ss = map Communicate [length h..<length h + length as]"
    unfolding 1(3) [symmetric] by simp
  from await_clients_Inr [OF a, of 0] 1(1,2) n c show ?thesis
    by (simp add: execute_concurrent_batch_def)
qed

text \<open>C7: A batch on the testbed refines the pure batch: every client is started, in order, before the first
  is waited for; they are waited for in the same order; and the rows are those of the pure
  batch on the outputs the environment gave.\<close>

theorem batch_refines:
  assumes "run_batch e protocol bin as t w r h = (Inr rows, h')"
  shows "h' = h @ map (client_start protocol bin) as @ map Communicate [length h..<length h + length as]
    \<and> (\<exists>procs. map bp_output procs = replies e (h @ map (client_start protocol bin) as)
                  (map Communicate [length h..<length h + length as])
         \<and> execute_concurrent_batch protocol as t w r procs = Inr rows)"
  by (rule run_batch_events [OF assms])

lemma no_output: "parse_rc_output [] = Inr (999, [])" "parse_client_metrics [] = Inr no_metrics"
  by (simp_all add: parse_rc_output_def parse_client_metrics_def drop_rc.simps text_defs rx_rc_def plus_def re_match_def)

lemma batch_refines_witness:
  "\<exists>rows procs. run_batch quiet_env ''mtls'' ''/c'' [demo_assignment 1, demo_assignment 2] ''1'' ''concurrent'' 1 []
      = (Inr rows, map (client_start ''mtls'' ''/c'') [demo_assignment 1, demo_assignment 2] @ [Communicate 0, Communicate 1])
    \<and> execute_concurrent_batch ''mtls'' [demo_assignment 1, demo_assignment 2] ''1'' ''concurrent'' 1 procs = Inr rows
    \<and> map bp_output procs = [[], []]"
proof -
  obtain cfg where cfg: "map_of MN_PROTOCOLS ''mtls'' = Some cfg" by (simp add: MN_PROTOCOLS_def)
  have "\<exists>rows h'. run_batch quiet_env ''mtls'' ''/c'' [demo_assignment 1, demo_assignment 2] ''1'' ''concurrent'' 1 []
      = (Inr rows, h')"
    using cfg
    by (simp add: run_batch_def clock_quiet start_client_def await_client_def client_auth_cmd_def mn_protocol_of_def Let_def
      andthen_def popen_quiet ask_quiet quiet_answer_def batch_row_def no_output)
  then obtain rows h' where run: "run_batch quiet_env ''mtls'' ''/c'' [demo_assignment 1, demo_assignment 2] ''1'' ''concurrent'' 1 []
      = (Inr rows, h')" by blast
  from batch_refines [OF run] run show ?thesis
    by (auto simp: quiet_env_def quiet_answer_def)
qed

section \<open>The high-load table\<close>

text \<open>The row of client \<open>i\<close> in round \<open>r\<close>.\<close>

definition row_of :: "assignment list \<Rightarrow> int \<Rightarrow> nat \<Rightarrow> row \<Rightarrow> bool" where
  "row_of as r i x \<longleftrightarrow> map fst x = BATCH_COLUMNS \<and> map_of x ''round_index'' = Some (VInt r)
     \<and> map_of x ''client_host'' = Some (VStr (a_client_host (as ! i)))"

lemma batch_rows_of:
  assumes "execute_concurrent_batch protocol as t w r procs = Inr rows" and "length procs = length as"
  shows "length rows = length as \<and> (\<forall>i < length as. row_of as r i (rows ! i))"
proof -
  have n: "length rows = length procs"
    "\<forall>i < length procs. batch_row protocol t w r i (as ! i) (procs ! i) = Inr (rows ! i)"
    using execute_batch_from_nth [of 0 protocol t w r as procs rows] assms(1) by (auto simp: execute_concurrent_batch_def)
  have "row_of as r i (rows ! i)" if "i < length as" for i
  proof -
    from n(2) assms(2) that obtain rc cleaned m xs where
      row: "rows ! i = base_row protocol t w (as ! i) (i + 1) r (i + 1) @ session_cells protocol (as ! i) m @ xs"
        "map fst xs = [''client_cert_sha256'', ''request_bytes'', ''response_bytes'',
          ''device_id'', ''auth_wall_elapsed_ms'', ''batch_elapsed_ms'', ''status'', ''return_code'', ''stdout_tail'']"
      unfolding batch_row_cells by auto
    then show ?thesis
      by (simp add: row_of_def BATCH_COLUMNS_def fst_base_row fst_session_cells) (simp add: base_row_def)
  qed
  then show ?thesis using n(1) assms(2) by simp
qed

lemma run_batch_rows:
  assumes "run_batch e protocol bin as t w r h = (Inr rows, h')"
  shows "length rows = length as \<and> (\<forall>i < length as. row_of as r i (rows ! i))"
proof -
  have len: "length (replies e g evs) = length evs" for g evs by (induction evs arbitrary: g) simp_all
  from run_batch_events [OF assms] obtain procs where
    "map bp_output procs = replies e (h @ map (client_start protocol bin) as) (map Communicate [length h..<length h + length as])"
    and x: "execute_concurrent_batch protocol as t w r procs = Inr rows" by blast
  then have "length procs = length as" using len by (metis length_map length_upt add_diff_cancel_left')
  from batch_rows_of [OF x this] show ?thesis .
qed

lemma test_3_rounds_rows:
  assumes "test_3_rounds e protocol bin as off rs h = (Inr (rows, srows), h')"
  shows "length rows = length rs * length as
    \<and> (\<forall>k < length rs. \<forall>i < length as. row_of as (int (rs ! k)) i (rows ! (k * length as + i)))"
  using assms
proof (induction rs arbitrary: off h rows srows)
  case Nil
  then show ?case by simp
next
  case (Cons r rs)
  then obtain b h1 off' h2 rows' srows' where b: "run_batch e protocol bin as ''3'' ''high_load'' (int r) h = (Inr b, h1)"
    and rest: "test_3_rounds e protocol bin as off' rs h2 = (Inr (rows', srows'), h')" "rows = b @ rows'"
    by (auto simp: andthen_Inr_iff)
  from run_batch_rows [OF b] have b1: "length b = length as" "\<forall>i < length as. row_of as (int r) i (b ! i)" by auto
  from Cons.IH [OF rest(1)] have IH: "length rows' = length rs * length as"
    "\<forall>k < length rs. \<forall>i < length as. row_of as (int (rs ! k)) i (rows' ! (k * length as + i))" by auto
  have "row_of as (int ((r # rs) ! k)) i (rows ! (k * length as + i))"
    if "k < length (r # rs)" "i < length as" for k i
    using that b1 IH rest(2) by (cases k) (auto simp: nth_append)
  then show ?case using b1 IH rest(2) by simp
qed

lemma save_csv_Inr:
  assumes "save_csv e dir name rows h = (Inr (), h')" and "r \<in> set rows"
    and "\<forall>x \<in> set rows. map fst x = cols"
  shows "WriteFile (dir @ ''/'' @ name) (csv_write (cols # map (cells cols) rows)) \<in> set (drop (length h) h')"
proof -
  obtain x xs where rows: "rows = x # xs" using assms(2) by (cases rows) auto
  have "map fst x = cols" using assms(3) rows by simp
  then show ?thesis using assms(1) rows write_rows_aligned [OF assms(3)]
    by (auto simp: save_csv_def andthen_Inr_iff tell_def ask_def)
qed

lemma all_rows_of:
  assumes "length rows = m * n" and "\<forall>k < m. \<forall>i < n. P (rows ! (k * n + i))"
  shows "\<forall>x \<in> set rows. P x"
proof
  fix x assume "x \<in> set rows"
  then obtain j where j: "j < m * n" "x = rows ! j" using assms(1) by (auto simp: in_set_conv_nth)
  then have "0 < n" by (cases n) auto
  then have "j mod n < n" "j div n < m" using j(1) by (simp_all add: less_mult_imp_div_less)
  then have "P (rows ! (j div n * n + j mod n))" using assms(2) by blast
  then show "P x" using j(2) by simp
qed

text \<open>C9: A high-load test that returns has written a table with a row for every client in every round,
  round by round and in the clients' order, all with the same columns.\<close>

theorem high_load_table_complete:
  assumes "test_3 e args protocol bin as off h = (Inr (), h')" and "as \<noteq> []" and "0 < ma_iterations args"
  shows "\<exists>rows. WriteFile (ma_results_dir args @ ''/'' @ protocol @ ''_test3_high_load.csv'')
        (csv_write (BATCH_COLUMNS # map (cells BATCH_COLUMNS) rows)) \<in> set (drop (length h) h')
    \<and> length rows = ma_iterations args * length as
    \<and> (\<forall>k < ma_iterations args. \<forall>i < length as. row_of as (int (k + 1)) i (rows ! (k * length as + i)))"
proof -
  from assms(1) obtain rows srows h1 h2 where
    r: "test_3_rounds e protocol bin as off [1..<ma_iterations args + 1] h = (Inr (rows, srows), h1)"
    and s: "save_csv e (ma_results_dir args) (protocol @ ''_test3_high_load.csv'') rows h1 = (Inr (), h2)"
    and s2: "save_csv e (ma_results_dir args) (protocol @ ''_test3_high_load_server.csv'') srows h2 = (Inr (), h')"
    by (auto simp: test_3_def andthen_Inr_iff simp del: upt_Suc)
  obtain e1 e2 e3 where hs: "h1 = h @ e1" "h2 = h1 @ e2" "h' = h2 @ e3"
    using emitsD [OF net_test_3_rounds r] emitsD [OF net_save_csv s] emitsD [OF net_save_csv s2] by metis
  from test_3_rounds_rows [OF r] have rows: "length rows = ma_iterations args * length as"
    "\<forall>k < ma_iterations args. \<forall>i < length as. row_of as (int (k + 1)) i (rows ! (k * length as + i))"
    by (auto simp del: upt_Suc)
  have "\<forall>x \<in> set rows. map fst x = BATCH_COLUMNS"
    by (rule all_rows_of [OF rows(1)]) (use rows(2) in \<open>auto simp: row_of_def\<close>)
  moreover obtain x where "x \<in> set rows" using rows(1) assms(2,3) by (cases rows) auto
  ultimately have "WriteFile (ma_results_dir args @ ''/'' @ protocol @ ''_test3_high_load.csv'')
      (csv_write (BATCH_COLUMNS # map (cells BATCH_COLUMNS) rows)) \<in> set (drop (length h1) h2)"
    using save_csv_Inr [OF s] by simp
  then show ?thesis using rows hs by (intro exI [of _ rows]) auto
qed

lemma high_load_table_complete_witness:
  "\<exists>rows h'. test_3 quiet_env (demo_args\<lparr>ma_iterations := 1\<rparr>) ''mtls'' ''/c'' [demo_assignment 1] 0 [] = (Inr (), h')
    \<and> WriteFile ''/r/mtls_test3_high_load.csv'' (csv_write (BATCH_COLUMNS # map (cells BATCH_COLUMNS) rows)) \<in> set h'
    \<and> length rows = 1"
proof -
  obtain cfg where cfg: "map_of MN_PROTOCOLS ''mtls'' = Some cfg" by (simp add: MN_PROTOCOLS_def)
  have "\<exists>rows h1. run_batch quiet_env ''mtls'' ''/c'' [demo_assignment 1] ''3'' ''high_load'' 1 [] = (Inr rows, h1)"
    using cfg
    by (simp add: run_batch_def clock_quiet start_client_def await_client_def client_auth_cmd_def mn_protocol_of_def Let_def
      andthen_def popen_quiet ask_quiet quiet_answer_def batch_row_def no_output)
  then obtain rows h1 where b: "run_batch quiet_env ''mtls'' ''/c'' [demo_assignment 1] ''3'' ''high_load'' 1 [] = (Inr rows, h1)"
    by blast
  have all: "\<forall>x \<in> set rows. map fst x = BATCH_COLUMNS"
    using run_batch_rows [OF b] by (auto simp: in_set_conv_nth row_of_def)
  have save: "fst (save_csv quiet_env dir name rows h) = Inr ()" for dir name h
  proof (cases rows)
    case Nil
    then show ?thesis by (simp add: save_csv_def andthen_def tell_quiet)
  next
    case (Cons x xs)
    then have "map fst x = BATCH_COLUMNS" using all by simp
    then show ?thesis using Cons write_rows_aligned [OF all] by (simp add: save_csv_def andthen_def tell_quiet)
  qed
  have "fst (test_3 quiet_env (demo_args\<lparr>ma_iterations := 1\<rparr>) ''mtls'' ''/c'' [demo_assignment 1] 0 []) = Inr ()"
    using b save [of "''/r''" "''mtls_test3_high_load.csv''" "h1 @ [HostCmd ''server'' (log_cmd (server_log ''mtls''))]"]
    by (auto simp: test_3_def demo_args_def andthen_def collect_server_def read_log_def ask_quiet quiet_answer_def
      collect_server_metrics_def parse_server_metrics_log_def server_table_def save_csv_def [of _ _ _ "[]"] tell_quiet
      split: prod.splits sum.splits)
  then obtain h' where run: "test_3 quiet_env (demo_args\<lparr>ma_iterations := 1\<rparr>) ''mtls'' ''/c'' [demo_assignment 1] 0 [] = (Inr (), h')"
    by (metis prod.collapse)
  from high_load_table_complete [OF run] run show ?thesis by (auto simp: demo_args_def)
qed

section \<open>Enrollment\<close>

text \<open>The text the environment answers to an event, and the two commands that enroll a client. The
  outcome of a client is computed from the answers at its own place: after the commands of the clients
  before it.\<close>

definition reply :: "tb_env \<Rightarrow> history \<Rightarrow> tb_event \<Rightarrow> string" where
  "reply e h ev = (case te_answer e (h @ [ev]) of Inr a \<Rightarrow> an_text a | Inl _ \<Rightarrow> [])"

definition pin_event :: "string \<Rightarrow> string \<Rightarrow> assignment \<Rightarrow> tb_event" where
  "pin_event cb pub a = HostCmd (a_client_host a) (wrapped_shell_cmd (pin_cmd cb (a_client_workdir a) pub))"

definition setup_event :: "mn_protocol \<Rightarrow> string \<Rightarrow> assignment \<Rightarrow> tb_event" where
  "setup_event cfg cb a = HostCmd (a_client_host a) (wrapped_shell_cmd (setup_cmd cfg cb (a_client_workdir a)))"

definition host_enrollment :: "mn_protocol \<Rightarrow> string \<Rightarrow> string \<Rightarrow> assignment \<Rightarrow> tb_event list" where
  "host_enrollment cfg cb pub a = [pin_event cb pub a, setup_event cfg cb a]"

definition timed_reply :: "tb_env \<Rightarrow> history \<Rightarrow> tb_event \<Rightarrow> string \<times> real" where
  "timed_reply e h ev = (reply e h ev, te_clock e (h @ [ev]) - te_clock e h)"

definition before_client :: "mn_protocol \<Rightarrow> string \<Rightarrow> string \<Rightarrow> assignment list \<Rightarrow> history \<Rightarrow> assignment \<Rightarrow> history" where
  "before_client cfg cb pub as h a = h @ concat (map (host_enrollment cfg cb pub) (takeWhile (\<lambda>x. x \<noteq> a) as))"

lemma enroll_on_host_Inr:
  assumes "enroll_on_host e cfg cb pub a h = (Inr a', h')"
  shows "enroll_mn_client (reply e h (pin_event cb pub a))
      (timed_reply e (h @ [pin_event cb pub a]) (setup_event cfg cb a)) a = Inr a'
    \<and> h' = h @ host_enrollment cfg cb pub a"
  using assms
  by (auto simp: enroll_on_host_def timed_cmd_def andthen_Inr_iff ask_def clock_def host_enrollment_def
    pin_event_def setup_event_def timed_reply_def reply_def enroll_mn_client_def)

lemma before_client_Cons:
  "before_client cfg cb pub (a # as) h x =
     (if x = a then h else before_client cfg cb pub as (h @ host_enrollment cfg cb pub a) x)"
  by (simp add: before_client_def)

lemma enroll_hosts_Inr:
  assumes "map_eff (enroll_on_host e cfg cb pub) as h = (Inr as', h')" and "distinct as"
  shows "map_res (\<lambda>a. enroll_mn_client (reply e (before_client cfg cb pub as h a) (pin_event cb pub a))
        (timed_reply e (before_client cfg cb pub as h a @ [pin_event cb pub a]) (setup_event cfg cb a)) a) as = Inr as'
    \<and> h' = h @ concat (map (host_enrollment cfg cb pub) as)"
  using assms
proof (induction as arbitrary: h as')
  case (Cons a as)
  then obtain a' h1 as1 where a: "enroll_on_host e cfg cb pub a h = (Inr a', h1)"
    and rest: "map_eff (enroll_on_host e cfg cb pub) as h1 = (Inr as1, h')" "as' = a' # as1"
    unfolding map_eff_Inr by blast
  from enroll_on_host_Inr [OF a] have h1: "h1 = h @ host_enrollment cfg cb pub a" by blast
  from Cons.prems(2) have "x \<in> set as \<Longrightarrow> x \<noteq> a" for x by auto
  then show ?case using enroll_on_host_Inr [OF a] Cons.IH [OF rest(1)] Cons.prems(2) rest(2)
    unfolding map_res_Inr h1 by (auto simp: before_client_Cons elim!: list.rel_mono_strong)
qed simp


definition setup_log :: tb_event where
  "setup_log = HostCmd ''server'' (log_cmd (server_log ''zkarche''))"

lemma poll_setup_Inr:
  assumes "poll_setup e n start ex rows h = (Inr rows', h')"
    and "\<forall>i. logs (k + i) = reply e (h @ replicate i setup_log) setup_log"
  shows "poll_setup_rows n k logs start ex rows = Inr rows' \<and> (\<exists>j \<le> n. h' = h @ replicate j setup_log)"
  using assms
proof (induction n arbitrary: k rows h)
  case (Suc n)
  then obtain a rows1 off where a: "te_answer e (h @ [setup_log]) = Inr a"
    and p: "parse_server_metrics_log ''zkarche'' (an_text a) start ''setup'' ''setup'' 0 = Inr (rows1, off)"
    and rest: "(if ex \<le> length rows1 then ret rows1 else poll_setup e n start ex rows1) (h @ [setup_log]) = (Inr rows', h')"
    by (auto simp: andthen_Inr_iff read_log_def ask_def setup_log_def)
  have k: "logs k = an_text a" using Suc.prems(2) [rule_format, of 0] a by (simp add: reply_def)
  show ?case
  proof (cases "ex \<le> length rows1")
    case True
    then show ?thesis using p rest k by (intro conjI exI [of _ 1]) simp_all
  next
    case False
    have "\<forall>i. logs (Suc k + i) = reply e ((h @ [setup_log]) @ replicate i setup_log) setup_log"
      using Suc.prems(2) [rule_format, of "Suc i" for i] by simp
    from Suc.IH [OF _ this] rest False obtain j where "poll_setup_rows n (Suc k) logs start ex rows1 = Inr rows'"
        "j \<le> n" "h' = (h @ [setup_log]) @ replicate j setup_log" by auto
    then show ?thesis using p k False by (intro conjI exI [of _ "Suc j"]) simp_all
  qed
qed auto

text \<open>C6: Enrollment on the testbed refines the pure enrollment: the server's key is read first and must be well formed, then
  the server log is read, then every client is pinned and set up once, in order, then the log is read at most 20 times. The
  clients that result are those of the pure enrollment on the environment's own answers: the key and the first log text, each
  client's pin and setup output at its place in the order with the time its setup took, and the text of each later log read.\<close>

theorem enrollment_refines:
  assumes "distinct as" and "map_of MN_PROTOCOLS ''zkarche'' = Some cfg"
    and "enroll_all e sb cb wd as h = (Inr as', h')"
    and "key = LocalRun (shlex_quote sb @ '' --print-pubkey'') (wd @ ''/server'')" and "h0 = h @ [key, setup_log]"
  shows "\<exists>pub j. server_pubkey (strip (reply e h key)) = Inr pub \<and> j \<le> 20
    \<and> h' = h0 @ concat (map (host_enrollment cfg cb pub) as) @ replicate j setup_log
    \<and> prepare_zkarche_state (strip (reply e h key)) (reply e (h @ [key]) setup_log)
        (\<lambda>a. reply e (before_client cfg cb pub as h0 a) (pin_event cb pub a))
        (\<lambda>a. timed_reply e (before_client cfg cb pub as h0 a @ [pin_event cb pub a]) (setup_event cfg cb a))
        (\<lambda>k. reply e (h0 @ concat (map (host_enrollment cfg cb pub) as) @ replicate k setup_log) setup_log)
        as = Inr as'"
proof -
  from assms(2,3) obtain out before pub as1 rows h1 h2 h3 where
    o: "run_local e (shlex_quote sb @ '' --print-pubkey'') (wd @ ''/server'') h = (Inr out, h1)"
      "server_pubkey out = Inr pub" "read_log e ''zkarche'' h1 = (Inr before, h2)"
    and hosts: "map_eff (enroll_on_host e cfg cb pub) as h2 = (Inr as1, h3)"
    and poll: "poll_setup e 20 (length (splitlines before)) (length as) [] h3 = (Inr rows, h')"
    and as': "as' = fold store_setup_row rows as1"
    by (auto simp: enroll_all_def andthen_Inr_iff mn_protocol_of_def simp del: poll_setup.simps)
  have h: "h2 = h0" "out = strip (reply e h key)" "before = reply e (h @ [key]) setup_log"
    using o assms(4,5) by (auto simp: run_local_Inr read_log_def ask_def andthen_Inr_iff reply_def setup_log_def)
  from enroll_hosts_Inr [OF hosts assms(1)] have h3: "h3 = h0 @ concat (map (host_enrollment cfg cb pub) as)"
    and clients: "map_res (\<lambda>a. enroll_mn_client (reply e (before_client cfg cb pub as h0 a) (pin_event cb pub a))
        (timed_reply e (before_client cfg cb pub as h0 a @ [pin_event cb pub a]) (setup_event cfg cb a)) a) as = Inr as1"
    using h(1) by auto
  let ?logs = "\<lambda>k. reply e (h0 @ concat (map (host_enrollment cfg cb pub) as) @ replicate k setup_log) setup_log"
  have "poll_setup_rows 20 0 ?logs (length (splitlines before)) (length as) [] = Inr rows
      \<and> (\<exists>j \<le> 20. h' = h3 @ replicate j setup_log)"
    by (rule poll_setup_Inr [OF poll]) (simp add: h3)
  then show ?thesis using o(2) h clients as' h3
    by (auto simp: prepare_zkarche_state_def simp del: poll_setup_rows.simps)
qed

definition enroll_env :: tb_env where
  "enroll_env = quiet_env\<lparr>te_answer := \<lambda>h. Inr (quiet_answer\<lparr>an_text :=
     (case last h of LocalRun c d \<Rightarrow> demo_key | HostCmd n c \<Rightarrow> if n = ''server'' then [] else ''__RC_0__'' | _ \<Rightarrow> [])\<rparr>)\<rparr>"

lemma enrollment_refines_witness:
  "\<exists>cfg as' h' pub j. map_of MN_PROTOCOLS ''zkarche'' = Some cfg
    \<and> enroll_all enroll_env ''/s'' ''/c'' ''/w'' [demo_assignment 1] [] = (Inr as', h') \<and> j \<le> 20
    \<and> h' = [LocalRun (shlex_quote ''/s'' @ '' --print-pubkey'') ''/w/server'', setup_log]
        @ host_enrollment cfg ''/c'' pub (demo_assignment 1) @ replicate j setup_log"
proof -
  obtain cfg where cfg: "map_of MN_PROTOCOLS ''zkarche'' = Some cfg" by (simp add: MN_PROTOCOLS_def)
  have rc: "host_cmd_with_status ''__RC_0__'' = Inr (0, [])" by code_simp
  have key: "server_pubkey demo_key = Inr demo_key" "strip demo_key = demo_key" by code_simp+
  have ask: "ask enroll_env (LocalRun c d) h = (Inr (quiet_answer\<lparr>an_text := demo_key\<rparr>), h @ [LocalRun c d])"
    "ask enroll_env (HostCmd n c) h = (Inr (quiet_answer\<lparr>an_text := if n = ''server'' then [] else ''__RC_0__''\<rparr>), h @ [HostCmd n c])"
    "clock enroll_env h = (Inr 0, h)" for c d n h
    by (simp_all add: ask_def clock_def enroll_env_def quiet_env_def)
  have "\<exists>h'. poll_setup enroll_env n 0 1 [] h = (Inr [], h')" for n h
    by (induction n arbitrary: h) (auto simp: read_log_def ask andthen_def parse_server_metrics_log_def)
  then obtain p where poll: "poll_setup enroll_env n 0 1 [] h = (Inr [], p n h)" for n h by metis
  have host: "a_client_host (demo_assignment 1) \<noteq> ''server''" by (simp add: demo_assignment_def)
  have "\<exists>as' h1. enroll_on_host enroll_env cfg ''/c'' demo_key (demo_assignment 1) h = (Inr as', h1)" for h
    using host by (simp add: enroll_on_host_def timed_cmd_def ask andthen_def pin_result_def setup_result_def rc no_output)
  then obtain f g where one: "enroll_on_host enroll_env cfg ''/c'' demo_key (demo_assignment 1) h = (Inr (f h), g h)" for h
    by metis
  have "fst (enroll_all enroll_env ''/s'' ''/c'' ''/w'' [demo_assignment 1] []) \<in> range Inr"
    using cfg
    by (simp add: enroll_all_def mn_protocol_of_def run_local_def read_log_def ask andthen_def key quiet_answer_def
      one [unfolded One_nat_def] poll [unfolded One_nat_def] del: poll_setup.simps)
  then obtain as' h' where run: "enroll_all enroll_env ''/s'' ''/c'' ''/w'' [demo_assignment 1] [] = (Inr as', h')"
    by (cases "enroll_all enroll_env ''/s'' ''/c'' ''/w'' [demo_assignment 1] []") auto
  from enrollment_refines [OF _ cfg run refl refl] run cfg show ?thesis by auto
qed

section \<open>The whole program\<close>

lemma local_prepare_project: "emits local_event (prepare_project e project ps)"
proof -
  have missing: "emits local_event (missing_file e dir ns)" for dir ns
    by (induction ns) (auto intro!: emits_intros)
  have bins: "emits local_event (protocol_bins e project p)" for p
    unfolding protocol_bins_def Let_def by (intro emits_intros)
  show ?thesis
    unfolding prepare_project_def certs_missing_def run_local_def by (intro emits_intros missing bins) simp_all
qed

lemmas net_prepare_project = emits_local_keeps [OF local_prepare_project]

lemma run_protocols_one:
  assumes "only_exceptions e" and "\<forall>p \<in> set ps. map_of MN_PROTOCOLS (fst p) \<noteq> None"
    and "run_protocols e args renv project ps g h = (r, h')"
  shows "\<exists>evs. h' = h @ evs \<and> one_network False evs"
  using assms(2,3)
proof (induction ps arbitrary: g h)
  case Nil
  then show ?case by (auto intro!: exI [of _ "[]"])
next
  case (Cons p ps)
  obtain protocol bins where p: "p = (protocol, bins)" by (cases p)
  with Cons.prems(1) obtain cfg where cfg: "map_of MN_PROTOCOLS protocol = Some cfg" by auto
  obtain q h1 where q: "run_protocol_tests e args renv project protocol bins g h = (q, h1)"
    by (cases "run_protocol_tests e args renv project protocol bins g h")
  from runs_network_one [OF run_protocol_runs [OF assms(1) cfg] q]
  obtain evs where evs: "h1 = h @ evs" "one_network False evs" by blast
  show ?case
  proof (cases q)
    case (Inl x)
    then show ?thesis using Cons.prems(2) p q evs by (auto simp: andthen_def)
  next
    case (Inr g1)
    then have "run_protocols e args renv project ps g1 h1 = (r, h')" using Cons.prems(2) p q by (simp add: andthen_def)
    from Cons.IH [OF _ this] Cons.prems(1) obtain evs2 where "h' = h1 @ evs2" "one_network False evs2" by auto
    then show ?thesis using evs one_network_append by fastforce
  qed
qed

text \<open>For every command line the parser accepts, the whole program has at most one network up at any
  time, and none when it ends, by a result or by an exception.\<close>

lemma main_one_network:
  assumes "only_exceptions e" and "accepted_args args" and "mininet_main e args environ h = (r, h')"
  shows "\<exists>evs. h' = h @ evs \<and> one_network False evs"
proof -
  define ps where "ps = (if ma_protocol args = ''all'' then [''zkarche'', ''mtls'', ''edhoc''] else [ma_protocol args])"
  have ps: "\<forall>p \<in> set ps. map_of MN_PROTOCOLS p \<noteq> None"
    using assms(2) by (auto simp: ps_def accepted_args_def MN_PROTOCOLS_def)
  obtain q h1 where q: "prepare_project e (ma_project args) ps h = (q, h1)" by (cases "prepare_project e (ma_project args) ps h")
  obtain evs where evs: "h1 = h @ evs" "list_all keeps_net evs" using emitsD [OF net_prepare_project q] by blast
  show ?thesis
  proof (cases q)
    case (Inl x)
    then have "h' = h1" using assms(3) q by (simp add: mininet_main_def ps_def Let_def andthen_def)
    then show ?thesis using evs one_network_keeps [of evs False "[]"] by auto
  next
    case (Inr bins)
    define renv where "renv = session_environ args environ ''ZKARCHE_CLIENT_REPEAT''"
    obtain q2 h2 where q2: "run_protocols e args renv (ma_project args) (zip ps bins) (te_seeded e (ma_seed args)) h1 = (q2, h2)"
      by (cases "run_protocols e args renv (ma_project args) (zip ps bins) (te_seeded e (ma_seed args)) h1")
    have "h' = h2" using assms(3) q q2 Inr
      by (auto simp: mininet_main_def ps_def renv_def Let_def andthen_def split: sum.splits)
    moreover have "\<forall>p \<in> set (zip ps bins). map_of MN_PROTOCOLS (fst p) \<noteq> None" using ps by (auto dest: set_zip_leftD)
    from run_protocols_one [OF assms(1) this q2] obtain evs2 where "h2 = h1 @ evs2" "one_network False evs2" by blast
    ultimately show ?thesis using evs one_network_keeps [of evs False evs2] by (intro exI [of _ "evs @ evs2"]) simp
  qed
qed

lemma main_one_network_witness:
  "accepted_args (default_args ''/p'')
   \<and> (\<exists>r evs. mininet_main quiet_env (default_args ''/p'') (\<lambda>_. None) [] = (r, evs) \<and> one_network False evs)"
proof -
  have acc: "accepted_args (default_args ''/p'')" by (simp add: accepted_args_def default_args_def)
  obtain r h' where run: "mininet_main quiet_env (default_args ''/p'') (\<lambda>_. None) [] = (r, h')" by fastforce
  from main_one_network [OF quiet_only_exceptions acc run] run acc show ?thesis by simp
qed

end
