(* ===== verification/IotAgree.thy ===== *)
theory IotAgree
  imports IotRuns MininetRefine
begin

text \<open>
  The single-protocol Mininet scripts against the combined runner they were copied from and to: the testbed a
  seed gives, the metrics parsers on the lines both know, and the tagged line the EDHOC script does
  not know.
\<close>

section \<open>The same testbed\<close>

definition iot_of :: "assignment \<Rightarrow> iot_client" where
  "iot_of a = \<lparr>ic_run = a_client_index a, ic_client_host = a_client_host a, ic_client_ip = a_client_ip a,
     ic_client_type = a_client_type a, ic_bw_mbps = a_bw_mbps a, ic_network_delay_ms = a_network_delay_ms a,
     ic_network_jitter_ms = a_network_jitter_ms a, ic_packet_loss_percent = a_packet_loss_percent a,
     ic_client_workdir = a_client_workdir a\<rparr>"

lemma iot_assign_one_same:
  assumes "device_mix \<noteq> ''heterogeneous-iot''" and "assign_one dir device_mix gc i g = (r, g')"
  shows "iot_assign_one DEVICE_PROFILES dir i g = (map_sum id iot_of r, g')"
    and "\<And>a. r = Inr a \<Longrightarrow> a_client_host a = ''pi'' @ show_nat i \<and> a_client_ip a = client_addr (i + 1)"
  using assms
  by (auto simp: assign_one_def iot_assign_one_def weighted_random_device_def iot_weighted_random_device_def
      selected_device_profiles_def iot_of_def Let_def split: prod.splits option.splits)

lemma iot_assign_from_same:
  assumes "device_mix \<noteq> ''heterogeneous-iot''"
  shows "assign_from dir device_mix gc i n g = (r, g') \<Longrightarrow>
    iot_assign_from DEVICE_PROFILES dir i n g = (map_sum id (map iot_of) r, g')
    \<and> (\<forall>as net. r = Inr as \<longrightarrow> iot_add_clients i (map iot_of as) net = fold (add_client ''s1'') as net)"
proof (induction n arbitrary: i g r g')
  case (Suc n)
  obtain r1 g1 where one: "assign_one dir device_mix gc i g = (r1, g1)" by fastforce
  note same = iot_assign_one_same [OF assms one]
  show ?case
  proof (cases r1)
    case (Inl x)
    then show ?thesis using Suc.prems one same(1) by (auto simp: andthen_def)
  next
    case (Inr a)
    obtain r2 g2 where rest: "assign_from dir device_mix gc (Suc i) n g1 = (r2, g2)" by fastforce
    note IH = Suc.IH [OF rest]
    have "iot_of a = iot_of a" "ic_bw_mbps (iot_of a) = a_bw_mbps a" "ic_network_delay_ms (iot_of a) = a_network_delay_ms a"
      "ic_network_jitter_ms (iot_of a) = a_network_jitter_ms a" "ic_packet_loss_percent (iot_of a) = a_packet_loss_percent a"
      by (simp_all add: iot_of_def)
    then show ?thesis using Suc.prems one rest same(1) same(2) [OF Inr] Inr IH
      by (cases r2) (auto simp: andthen_def ret_def add_client_def)
  qed
qed (auto simp: ret_def)

lemma assigns_known_devices:
  assumes "profiles \<noteq> []"
  shows "\<exists>cs g'. iot_assign_from profiles dir i n g = (Inr cs, g')"
proof (induction n arbitrary: i g)
  case (Suc n)
  have "\<exists>c g1. iot_assign_one profiles dir i g = (Inr c, g1)"
  proof -
    obtain dtype g1 where d: "iot_weighted_random_device profiles g = (dtype, g1)" by fastforce
    have "dtype \<in> fst ` set (map (\<lambda>(n, p). (n, lp_weight p)) profiles)"
      using d assms pick_weighted_mem [of "map (\<lambda>(n, p). (n, lp_weight p)) profiles"]
      by (auto simp: iot_weighted_random_device_def Let_def split: prod.splits)
    then have "dtype \<in> fst ` set profiles" by force
    then obtain p where "map_of profiles dtype = Some p" using weak_map_of_SomeI by fastforce
    then show ?thesis using d by (auto simp: iot_assign_one_def split: prod.splits)
  qed
  then obtain c g1 where "iot_assign_one profiles dir i g = (Inr c, g1)" by blast
  moreover obtain cs g2 where "iot_assign_from profiles dir (Suc i) n g1 = (Inr cs, g2)" using Suc.IH by blast
  ultimately show ?case by (simp add: andthen_def)
qed simp

lemma tells_Inr: "for_each (\<lambda>x. tell e (f x)) xs h = (Inr u, h') \<Longrightarrow> h' = h @ map f xs"
proof -
  have "map_eff (\<lambda>x. tell e (f x)) xs h = (Inr us, h') \<Longrightarrow> h' = h @ map f xs" for us
  proof (induction xs arbitrary: h us)
    case (Cons x xs)
    then obtain h1 us' where 1: "tell e (f x) h = (Inr (), h1)" and 2: "map_eff (\<lambda>x. tell e (f x)) xs h1 = (Inr us', h')"
      unfolding map_eff_Inr by auto
    from 1 have "h1 = h @ [f x]" by (auto simp: tell_def ask_def andthen_Inr_iff)
    with Cons.IH [OF 2] show ?case by simp
  qed simp
  then show "for_each (\<lambda>x. tell e (f x)) xs h = (Inr u, h') \<Longrightarrow> h' = h @ map f xs"
    unfolding for_each_def andthen_Inr_iff by auto
qed

lemma simple_network_hosts: "map fst (n_hosts (simple_network as)) = ''server'' # map a_client_host as"
proof -
  have "map fst (n_hosts (fold (add_client ''s1'') as net)) = map fst (n_hosts net) @ map a_client_host as" for net
    by (induction as arbitrary: net) (simp_all add: add_client_def add_link_def add_host_def)
  then show ?thesis by (simp add: simple_network_def add_link_def add_host_def add_switch_def empty_net_def)
qed

text \<open>C22: a single-protocol script and the combined runner, seeded alike, experiment on the same testbed: with any
  device mix but the heterogeneous one the script makes the client directories in order and assigns
  the clients the combined runner assigns, leaves the generator in the same state, and builds the simple network,
  whose hosts in order are the clients' names.\<close>

theorem same_seed_same_testbed:
  assumes "device_mix \<noteq> ''heterogeneous-iot''"
    and "iot_make_assignments e DEVICE_PROFILES n dir g h = (Inr (cs, g'), h')"
  shows "h' = h @ map (\<lambda>c. MakeDir (ic_client_workdir c)) cs
    \<and> (\<exists>as. make_assignments n dir device_mix gc g = (Inr as, g') \<and> cs = map iot_of as
         \<and> build_network ''simple'' gc bg as g' = Inr (iot_build_network cs, g')
         \<and> client_hosts (iot_build_network cs) = map a_client_host as)"
proof -
  obtain r g1 where as: "assign_from dir device_mix gc 1 n g = (r, g1)" by fastforce
  note same = iot_assign_from_same [OF assms(1) as]
  from assms(2) have cs: "iot_assign_from DEVICE_PROFILES dir 1 n g = (Inr cs, g')"
    and h': "for_each (\<lambda>c. tell e (MakeDir (ic_client_workdir c))) cs h = (Inr (), h')"
    by (auto simp: iot_make_assignments_def andthen_Inr_iff split: prod.splits sum.splits)
  obtain as' where as': "r = Inr as'" using same cs by (cases r) auto
  then have 1: "make_assignments n dir device_mix gc g = (Inr as', g')" "cs = map iot_of as'"
    using same as cs by (auto simp: make_assignments_def)
  then have net: "iot_build_network cs = simple_network as'"
    using same as' by (simp add: iot_build_network_def simple_network_def)
  have "client_hosts (iot_build_network cs) = map a_client_host as'"
    unfolding net client_hosts_def drop_map [symmetric] simple_network_hosts by simp
  then show ?thesis using 1 net tells_Inr [OF h'] by (auto simp: build_network_def)
qed

lemma same_seed_same_testbed_witness:
  "\<exists>cs g' as. iot_make_assignments quiet_env DEVICE_PROFILES 2 ''/w/clients'' (\<lambda>_. 1/2) []
      = (Inr (cs, g'), map (\<lambda>c. MakeDir (ic_client_workdir c)) cs)
    \<and> make_assignments 2 ''/w/clients'' ''raspberry-pi'' 4 (\<lambda>_. 1/2) = (Inr as, g') \<and> cs = map iot_of as"
proof -
  have told: "\<exists>h'. for_each (\<lambda>c. tell quiet_env (MakeDir (ic_client_workdir c))) cs h = (Inr (), h')" for cs h
    using for_each_returns [of "\<lambda>c. tell quiet_env (MakeDir (ic_client_workdir c))" cs h] by (metis tell_quiet fst_conv prod.collapse)
  have ne: "DEVICE_PROFILES \<noteq> []" by (simp add: DEVICE_PROFILES_def)
  obtain cs g' where "iot_assign_from DEVICE_PROFILES ''/w/clients'' 1 2 (\<lambda>_. 1/2) = (Inr cs, g')"
    using assigns_known_devices [of DEVICE_PROFILES] ne by blast
  then obtain h' where "iot_make_assignments quiet_env DEVICE_PROFILES 2 ''/w/clients'' (\<lambda>_. 1/2) [] = (Inr (cs, g'), h')"
    using told [of cs "[]"] by (auto simp: iot_make_assignments_def andthen_def)
  from same_seed_same_testbed [OF _ this, of "''raspberry-pi''" 4 0] this show ?thesis by auto
qed

section \<open>The parsers on untagged lines\<close>

text \<open>The patterns of the scripts differ in the optional protocol tag. Where no text that is
  left to match can begin with the tag, they match alike.\<close>

definition alike_on :: "string \<Rightarrow> rx \<Rightarrow> rx \<Rightarrow> bool" where
  "alike_on s r q \<longleftrightarrow> (\<forall>u v c k. s = u @ v \<longrightarrow> rmatch r c v k = rmatch q c v k)"

lemma star_greedy_cong: "(\<And>u v. s = u @ v \<Longrightarrow> k v = k' v) \<Longrightarrow> star_greedy P s k = star_greedy P s k'"
proof (induction s)
  case (Cons c s)
  have "k v = k' v" if "s = u @ v" for u v using Cons.prems [of "c # u" v] that by simp
  with Cons.IH have "star_greedy P s k = star_greedy P s k'" .
  then show ?case using Cons.prems [of "[]" "c # s"] by simp
qed simp

lemma star_lazy_cong: "(\<And>u v. s = u @ v \<Longrightarrow> k v = k' v) \<Longrightarrow> star_lazy P s k = star_lazy P s k'"
proof (induction s)
  case (Cons c s)
  have "k v = k' v" if "s = u @ v" for u v using Cons.prems [of "c # u" v] that by simp
  with Cons.IH have "star_lazy P s k = star_lazy P s k'" .
  then show ?case using Cons.prems [of "[]" "c # s"] by simp
qed simp

text \<open>A continuation is only called at the ends of the text it is given.\<close>

lemma rmatch_cong:
  "(\<And>u v d. s = u @ v \<Longrightarrow> k d v = k' d v) \<Longrightarrow> rmatch r c s k = rmatch r c s k'"
proof (induction r arbitrary: c s k k')
  case Eps
  then show ?case by simp
next
  case (Cls P)
  then show ?case using Cls [of "[hd s]" "tl s"] by (cases s) auto
next
  case (Star P)
  then show ?case using star_greedy_cong [of s "k c" "k' c"] by simp
next
  case (Lazy P)
  then show ?case using star_lazy_cong [of s "k c" "k' c"] by simp
next
  case (Seq a b)
  have "rmatch b d v k = rmatch b d v k'" if v: "s = u @ v" for u v d
  proof (rule Seq.IH(2))
    fix u' v' d' assume "v = u' @ v'"
    then show "k d' v' = k' d' v'" using Seq.prems [of "u @ u'" v' d'] v by simp
  qed
  then show ?case by (auto intro: Seq.IH(1))
next
  case (Alt a b)
  have "rmatch a c s k = rmatch a c s k'" by (rule Alt.IH(1)) (rule Alt.prems)
  moreover have "rmatch b c s k = rmatch b c s k'" by (rule Alt.IH(2)) (rule Alt.prems)
  ultimately show ?case by simp
next
  case (Grp n r)
  show ?case unfolding rmatch.simps by (rule Grp.IH) (simp add: Grp.prems)
qed

lemma alike_Seq: "alike_on s b q \<Longrightarrow> alike_on s (Seq a b) (Seq a q)"
  unfolding alike_on_def rmatch.simps
proof (intro allI impI)
  fix u v c k
  assume alike: "\<forall>u v c k. s = u @ v \<longrightarrow> rmatch b c v k = rmatch q c v k" and v: "s = u @ v"
  show "rmatch a c v (\<lambda>c' s'. rmatch b c' s' k) = rmatch a c v (\<lambda>c' s'. rmatch q c' s' k)"
  proof (rule rmatch_cong)
    fix u' v' d assume "v = u' @ v'"
    then have "s = (u @ u') @ v'" using v by simp
    then show "rmatch b d v' k = rmatch q d v' k" using alike by blast
  qed
qed

lemma alike_search: "alike_on s r q \<Longrightarrow> re_search r s = re_search q s"
proof (induction s)
  case Nil
  then show ?case by (simp add: alike_on_def re_match_def)
next
  case (Cons c s)
  have "alike_on s r q"
    unfolding alike_on_def
  proof (intro allI impI)
    fix u v d k assume "s = u @ v"
    then have "c # s = (c # u) @ v" by simp
    then show "rmatch r d v k = rmatch q d v k" using Cons.prems unfolding alike_on_def by blast
  qed
  moreover have "re_match r (c # s) = re_match q (c # s)"
    using Cons.prems unfolding alike_on_def re_match_def by (metis append_Nil)
  ultimately show ?case using Cons.IH by (cases "re_match q (c # s)") simp_all
qed

lemma untagged_search:
  assumes "\<not> is_infix ''Protocol:'' line"
  shows "re_search rx_client line = re_search rx_plain_client line"
proof -
  have "alike_on line (Seq (opt rx_protocol) rx_counters) rx_counters"
    unfolding alike_on_def
  proof (intro allI impI)
    fix u v c k assume v: "line = u @ v"
    have "\<not> starts_with ''Protocol:'' v" using assms v unfolding is_infix_iff starts_with_iff by blast
    then have "fails rx_protocol v"
      unfolding rx_protocol_def seqs.simps by (intro fails_Seq fails_lit_prefix)
    then show "rmatch (Seq (opt rx_protocol) rx_counters) c v k = rmatch rx_counters c v k"
      by (simp add: opt_def fails_def)
  qed
  then show ?thesis unfolding rx_client_def rx_plain_client_def by (intro alike_search alike_Seq)
qed

definition counters_of :: "client_metrics \<Rightarrow> counters" where
  "counters_of m = \<lparr>ct_duration_ms = cm_auth_duration_ms m, ct_sent_bytes = cm_auth_sent_bytes m,
     ct_received_bytes = cm_auth_received_bytes m\<rparr>"

lemma untagged_line:
  assumes "\<not> is_infix ''Protocol:'' line"
  shows "plain_client_line round_if_parsed line (counters_of m) = map_sum id counters_of (client_line line m)"
  unfolding plain_client_line_def client_line_def untagged_search [OF assms]
  by (auto simp: round_if_parsed_def counters_of_def bind_res_def split: option.splits sum.splits)

lemma untagged_lines:
  "\<forall>l \<in> set ls. \<not> is_infix ''Protocol:'' l \<Longrightarrow>
     plain_client_lines round_if_parsed ls (counters_of m) = map_sum id counters_of (client_lines ls m)"
proof (induction ls arbitrary: m)
  case (Cons l ls)
  then have "plain_client_line round_if_parsed l (counters_of m) = map_sum id counters_of (client_line l m)"
    by (intro untagged_line) simp
  then show ?case using Cons by (cases "client_line l m") (auto simp del: is_infix.simps)
qed simp

lemma strict_lines:
  "plain_client_lines round_parsed ls m = Inr c \<Longrightarrow> plain_client_lines round_if_parsed ls m = Inr c"
proof (induction ls arbitrary: m)
  case (Cons l ls)
  then obtain c1 where "plain_client_line round_parsed l m = Inr c1" "plain_client_lines round_parsed ls c1 = Inr c"
    by (auto simp: bind_res_Inr_iff)
  moreover from this(1) have "plain_client_line round_if_parsed l m = Inr c1"
    by (auto simp: plain_client_line_def bind_res_Inr_iff round_parsed_def round_if_parsed_def rounded_def
        split: option.splits)
  ultimately show ?case using Cons.IH by simp
qed simp

text \<open>C23: on output without protocol tags the parsers of the EDHOC and ZK-ARCHE scripts are the
  combined runner's parser restricted to the duration and the byte counts: the EDHOC script's gives the
  same counters or the same exception, and what the ZK-ARCHE script's returns, if it returns, is that as well.\<close>

theorem plain_parsers_agree:
  assumes "\<forall>l \<in> set (splitlines out). \<not> is_infix ''Protocol:'' l"
  shows "e50_parse_client_metrics out = map_sum id counters_of (parse_client_metrics out)
    \<and> (\<forall>c. z50_parse_client_metrics out = Inr c \<longrightarrow> (\<exists>m. parse_client_metrics out = Inr m \<and> c = counters_of m))"
proof -
  have "counters_of no_metrics = no_counters" by (simp add: counters_of_def no_metrics_def no_counters_def)
  with untagged_lines [OF assms, of no_metrics]
  have e: "e50_parse_client_metrics out = map_sum id counters_of (parse_client_metrics out)"
    by (simp add: e50_parse_client_metrics_def parse_client_metrics_def)
  moreover have "\<exists>m. parse_client_metrics out = Inr m \<and> c = counters_of m" if "z50_parse_client_metrics out = Inr c" for c
  proof -
    from that have "e50_parse_client_metrics out = Inr c"
      by (simp add: z50_parse_client_metrics_def e50_parse_client_metrics_def strict_lines)
    with e show ?thesis by (cases "parse_client_metrics out") auto
  qed
  ultimately show ?thesis by blast
qed

lemma plain_parsers_agree_witness:
  "\<exists>m. parse_client_metrics (unlines [print_client ''5'' ''25'' ''ms'' 310 42]) = Inr m
    \<and> e50_parse_client_metrics (unlines [print_client ''5'' ''25'' ''ms'' 310 42]) = Inr (counters_of m)"
proof -
  let ?l = "print_client ''5'' ''25'' ''ms'' 310 42"
  have d: "is_decimal ''5'' ''25''" "is_unit ''ms''" by (simp_all add: is_decimal_def is_unit_def)
  have l: "?l = ''CLIENT METRICS -> Duration: 5.25ms, Sent: 310 bytes, Received: 42 bytes''"
    by (simp add: print_client_def counters_text_def dec_text_def show_nat.simps)
  then have "line_text ?l" by (simp add: is_linebreak_def)
  then have lines: "splitlines (unlines [?l]) = [?l]" using splitlines_unlines [of "[?l]" "[]"] by simp
  obtain m where "client_line ?l no_metrics = Inr m"
    using client_line_caps [OF d takes_client_plain [OF d, of 310 42 "[]"], of no_metrics] by auto
  then have "parse_client_metrics (unlines [?l]) = Inr m" by (simp add: parse_client_metrics_def lines)
  moreover have "\<forall>l \<in> set (splitlines (unlines [?l])). \<not> is_infix ''Protocol:'' l" unfolding lines by (simp add: l)
  ultimately show ?thesis using plain_parsers_agree [of "unlines [?l]"] by simp
qed

section \<open>Tagged lines\<close>

lemma plain_lang:
  assumes "v \<in> lang rx_plain_client"
  obtains p sp t where "v = p @ CHR ''>'' # sp @ ''Duration:'' @ t" "\<forall>c \<in> set sp. is_space c"
proof -
  from assms obtain s1 sp x where v: "v = ''CLIENT METRICS'' @ s1 @ ''->'' @ sp @ x" "\<forall>c \<in> set sp. is_space c" "x \<in> lang rx_counters"
    by (auto simp: rx_plain_client_def lang_lit)
  from v(3) obtain t where "x = ''Duration:'' @ t" by (auto simp: rx_counters_def lang_lit)
  with v that [of "''CLIENT METRICS'' @ s1 @ ''-''" sp t] show ?thesis by simp
qed

lemma plain_search_tagged:
  assumes "CHR ''>'' \<notin> set t"
  shows "re_search rx_plain_client (''CLIENT METRICS -'' @ CHR ''>'' # '' Protocol: '' @ t) = None"
proof (rule ccontr)
  assume "re_search rx_plain_client (''CLIENT METRICS -'' @ CHR ''>'' # '' Protocol: '' @ t) \<noteq> None"
  then obtain x v y where l: "''CLIENT METRICS -'' @ CHR ''>'' # '' Protocol: '' @ t = x @ v @ y" and v: "v \<in> lang rx_plain_client"
    unfolding re_search_iff by blast
  from plain_lang [OF v] obtain p sp z where z: "v = p @ CHR ''>'' # sp @ ''Duration:'' @ z" "\<forall>c \<in> set sp. is_space c" .
  have "''CLIENT METRICS -'' @ CHR ''>'' # '' Protocol: '' @ t = (x @ p) @ CHR ''>'' # (sp @ ''Duration:'' @ z @ y)"
    using l z(1) by simp
  from append_Cons_eq_iff [THEN iffD1, OF _ _ this] have "'' Protocol: '' @ t = sp @ ''Duration:'' @ z @ y"
    using assms by simp
  with z(2) show False by (cases sp; cases "tl sp") (auto simp: is_space_def)
qed

text \<open>C37: the EDHOC script does not understand the line its own client prints: a client that exits
  with status zero after printing its tagged metrics line gets a row marked as failed without any duration,
  while the combined runner, given the same output, records the duration and a success.\<close>

theorem edhoc50_rejects_own_lines:
  assumes d: "is_decimal ip fp" and u: "is_unit u" and "line_text extra" and "CHR ''>'' \<notin> set extra"
    and out: "out = unlines [print_client_tagged ''EDHOC/TCP'' ip fp u s r extra]"
  shows "(\<exists>row. e50_row c 0 out wall = Inr row \<and> map_of row ''auth_duration_ms'' = Some VNone
      \<and> map_of row ''status'' = Some (VStr ''AUTH_FAILED''))
    \<and> (\<exists>m. parse_client_metrics out = Inr m \<and> auth_status 0 m = ''AUTH_SUCCESS''
      \<and> cm_auth_duration_ms m = Some (py_round (dec_value ip fp * unit_ms u) 4))"
proof -
  let ?l = "print_client_tagged ''EDHOC/TCP'' ip fp u s r extra"
  have "line_text ?l" using assms(3) by (intro line_text_tagged [OF _ d u]) simp_all
  then have lines: "splitlines out = [?l]" using splitlines_unlines [of "[?l]" "[]"] out by simp
  have "re_search rx_plain_client ?l = None"
    using plain_search_tagged [of "''EDHOC/TCP'' @ '', '' @ counters_text ip fp u s r @ '', '' @ extra"] assms(4) no_gt_counters [OF d u]
    by (simp add: print_client_tagged_def)
  then have e: "e50_parse_client_metrics out = Inr no_counters"
    by (simp add: e50_parse_client_metrics_def lines plain_client_line_def)
  obtain m where "client_line ?l no_metrics = Inr m" "counted m (dec_value ip fp * unit_ms u) s r"
    using client_line_caps [OF d u takes_client_tagged [OF d u, of "''EDHOC/TCP''" s r extra "[]"], of no_metrics]
    by (auto simp: not_comma_def is_space_def)
  then have "parse_client_metrics out = Inr m" "auth_status 0 m = ''AUTH_SUCCESS''"
    "cm_auth_duration_ms m = Some (py_round (dec_value ip fp * unit_ms u) 4)"
    by (simp_all add: parse_client_metrics_def lines auth_status_def counted_def)
  moreover have "\<exists>row. e50_row c 0 out wall = Inr row \<and> map_of row ''auth_duration_ms'' = Some VNone
      \<and> map_of row ''status'' = Some (VStr ''AUTH_FAILED'')"
    by (simp add: e50_row_def e no_counters_def v_float_def iot_base_cells_def)
  ultimately show ?thesis by blast
qed

lemma edhoc50_rejects_own_lines_witness:
  "\<exists>row. e50_row (iot_of (demo_assignment 1)) 0
      (unlines [print_client_tagged ''EDHOC/TCP'' ''5'' ''25'' ''ms'' 310 42 ''DeviceID: pi1'']) 9 = Inr row
    \<and> map_of row ''status'' = Some (VStr ''AUTH_FAILED'')"
proof -
  have "is_decimal ''5'' ''25''" "is_unit ''ms''" "line_text ''DeviceID: pi1''" "CHR ''>'' \<notin> set ''DeviceID: pi1''"
    by (simp_all add: is_decimal_def is_unit_def is_linebreak_def)
  from edhoc50_rejects_own_lines [OF this refl] show ?thesis by blast
qed

end
