(* ===== verification/IotTables.thy ===== *)
theory IotTables
  imports IotAgree
begin

text \<open>
  The result tables of the single-protocol Mininet scripts: which events a session that returns has made, which
  rows its table has, and when no table or an empty one is written.
\<close>

section \<open>Sequences of client runs\<close>

text \<open>An operation that adds fixed events to the history when it returns, mapped over a list.\<close>

lemma map_eff_trace:
  assumes "map_eff f xs h = (Inr ys, h')"
    and "\<And>x h y h1. f x h = (Inr y, h1) \<Longrightarrow> h1 = h @ ev x \<and> P x y \<and> Q h (ev x)"
    and "\<And>h. Q h []" and "\<And>h a b. Q h a \<Longrightarrow> Q (h @ a) b \<Longrightarrow> Q h (a @ b)"
  shows "h' = h @ concat (map ev xs) \<and> list_all2 P xs ys \<and> Q h (concat (map ev xs))"
  using assms(1)
proof (induction xs arbitrary: h ys)
  case Nil
  then show ?case using assms(3) by simp
next
  case (Cons x xs)
  from Cons.prems obtain y h1 ys' where 1: "f x h = (Inr y, h1)" and 2: "map_eff f xs h1 = (Inr ys', h')" "ys = y # ys'"
    unfolding map_eff_Inr by blast
  from assms(2) [OF 1] Cons.IH [OF 2(1)] 2(2) assms(4) [of h "ev x" "concat (map ev xs)"] show ?case by auto
qed

text \<open>An operation that adds one event when it returns, mapped over a list: what holds of a result holds of it at
  its own history, after the events of the elements before it.\<close>

lemma map_eff_at:
  assumes "map_eff f xs h = (Inr ys, h')"
    and "\<And>h x y h1. f x h = (Inr y, h1) \<Longrightarrow> h1 = h @ [ev x] \<and> P h x y"
  shows "h' = h @ map ev xs \<and> length ys = length xs
    \<and> (\<forall>i < length xs. P (h @ map ev (take i xs)) (xs ! i) (ys ! i))"
  using assms(1)
proof (induction xs arbitrary: h ys)
  case (Cons x xs)
  from Cons.prems obtain y h1 ys' where 1: "f x h = (Inr y, h1)" and 2: "map_eff f xs h1 = (Inr ys', h')" "ys = y # ys'"
    unfolding map_eff_Inr by blast
  have h1: "h1 = h @ [ev x]" "P h x y" using assms(2) [OF 1] by auto
  have "P (h @ map ev (take i (x # xs))) ((x # xs) ! i) (ys ! i)" if "i < length (x # xs)" for i
    using that Cons.IH [OF 2(1)] 2(2) h1 by (cases i) auto
  then show ?case using Cons.IH [OF 2(1)] 2(2) h1 by simp
qed simp

lemma iot_hosts: "client_hosts (iot_build_network cs) = map (\<lambda>i. ''pi'' @ show_nat i) [1..<length cs + 1]"
proof -
  have "map fst (n_hosts (iot_add_clients i cs net)) = map fst (n_hosts net) @ map (\<lambda>i. ''pi'' @ show_nat i) [i..<i + length cs]"
    for i net
    by (induction cs arbitrary: i net) (simp_all add: add_link_def add_host_def upt_conv_Cons del: upt_Suc)
  from this [of 1] show ?thesis
    by (simp add: client_hosts_def drop_map [symmetric] iot_build_network_def add_link_def add_host_def add_switch_def
        empty_net_def del: upt_Suc)
qed

lemma iot_hosts_zip: "map snd (zip (client_hosts (iot_build_network cs)) cs) = cs"
  by (simp add: iot_hosts del: upt_Suc)

definition iot_client_event :: "iot_script \<Rightarrow> iot_config \<Rightarrow> string \<Rightarrow> string \<times> iot_client \<Rightarrow> tb_event" where
  "iot_client_event S cfg client_bin hc =
     HostCmd (fst hc) (iot_wrapped (is_auth_cmd S (snd hc) client_bin (io_client_args cfg (iot_addr cfg) (iot_addr cfg))))"

definition wall_ms :: "tb_env \<Rightarrow> history \<Rightarrow> tb_event \<Rightarrow> real" where
  "wall_ms e h ev = py_round ((te_clock e (h @ [ev]) - te_clock e h) * 1000) 4"

lemma iot_run_client_Inr:
  "iot_run_client e S cfg bin hc h = (Inr row, h1) \<Longrightarrow>
     h1 = h @ [iot_client_event S cfg bin hc]
     \<and> (\<exists>a rc out. te_answer e h1 = Inr a \<and> host_cmd_with_status (an_text a) = Inr (rc, out)
          \<and> is_row S (snd hc) rc out (wall_ms e h (iot_client_event S cfg bin hc)) = Inr row)"
  by (auto simp: iot_run_client_def iot_client_event_def iot_host_cmd_with_status_def andthen_Inr_iff ask_def clock_def
      wall_ms_def split: prod.splits)

text \<open>What a row says of its client: the columns of the script, the client's name, run, address, device and link.\<close>

definition reports :: "string list \<Rightarrow> iot_client \<Rightarrow> row \<Rightarrow> bool" where
  "reports cols c row \<longleftrightarrow> map fst row = cols \<and> map_of row ''client_host'' = Some (VStr (ic_client_host c))
     \<and> map_of row ''run'' = Some (VInt (int (ic_run c)))
     \<and> map_of row ''client_ip'' = Some (VStr (ic_client_ip c)) \<and> map_of row ''client_type'' = Some (VStr (ic_client_type c))
     \<and> map_of row ''network_delay_ms'' = Some (VFloat (ic_network_delay_ms c))
     \<and> map_of row ''network_jitter_ms'' = Some (VFloat (ic_network_jitter_ms c))
     \<and> map_of row ''packet_loss_percent'' = Some (VFloat (ic_packet_loss_percent c))"

text \<open>The duration and byte counts that the parser of the script reads in an output.\<close>

definition output_counters :: "string \<Rightarrow> string \<Rightarrow> (real option \<times> int option \<times> int option) res" where
  "output_counters protocol out =
     (if protocol = ''mtls'' then bind_res (m50_parse_client_metrics out) (\<lambda>m.
        Inr (cm_auth_duration_ms m, cm_auth_sent_bytes m, cm_auth_received_bytes m))
      else bind_res (e50_parse_client_metrics out) (\<lambda>m. Inr (ct_duration_ms m, ct_sent_bytes m, ct_received_bytes m)))"

text \<open>A row of the values of one client's run: its exit status, counters and time, and success exactly for a client that
  exited with zero and whose duration was read.\<close>

definition shows_run :: "int \<Rightarrow> real option \<times> int option \<times> int option \<Rightarrow> real \<Rightarrow> row \<Rightarrow> bool" where
  "shows_run rc m wall row \<longleftrightarrow> (case m of (d, s, r) \<Rightarrow>
     map_of row ''return_code'' = Some (VInt rc) \<and> map_of row ''auth_duration_ms'' = Some (v_float d)
     \<and> map_of row ''auth_sent_bytes'' = Some (v_int s) \<and> map_of row ''auth_received_bytes'' = Some (v_int r)
     \<and> map_of row ''auth_wall_elapsed_ms'' = Some (VFloat wall)
     \<and> map_of row ''status'' = Some (VStr (if rc = 0 \<and> d \<noteq> None then ''AUTH_SUCCESS'' else ''AUTH_FAILED'')))"

text \<open>The row is that of the environment's answer to the client's command at its own place in the session. The text of
  the answer is the command's output and the status the shell wrapper appended; an output that holds no marker
  of its own gives back that status and that output.\<close>

definition row_from_answer :: "string \<Rightarrow> tb_env \<Rightarrow> history \<Rightarrow> tb_event \<Rightarrow> row \<Rightarrow> bool" where
  "row_from_answer protocol e h ev row \<longleftrightarrow> (\<exists>a rc out m. te_answer e (h @ [ev]) = Inr a
     \<and> host_cmd_with_status (an_text a) = Inr (rc, out) \<and> output_counters protocol out = Inr m
     \<and> shows_run rc m (wall_ms e h ev) row
     \<and> (\<forall>n body. \<not> is_infix ''__RC_'' body \<and> an_text a = body @ ''__RC_'' @ show_nat n @ ''__'' @ [LF]
          \<longrightarrow> rc = int n \<and> out = strip body))"

definition m50_COLUMNS :: "string list" where
  "m50_COLUMNS = [''protocol'', ''run'', ''client_host'', ''client_ip'', ''client_type'', ''server_cpu'', ''network_delay_ms'',
     ''network_jitter_ms'', ''packet_loss_percent'', ''auth_duration_ms'', ''auth_sent_bytes'', ''auth_received_bytes'',
     ''client_cert_sha256'', ''request_bytes'', ''response_bytes'', ''device_id'', ''auth_wall_elapsed_ms'', ''status'',
     ''return_code'']"

definition e50_COLUMNS :: "string list" where
  "e50_COLUMNS = [''protocol'', ''run'', ''client_host'', ''client_ip'', ''client_type'', ''server_cpu'', ''network_delay_ms'',
     ''network_jitter_ms'', ''packet_loss_percent'', ''auth_duration_ms'', ''auth_sent_bytes'', ''auth_received_bytes'',
     ''auth_wall_elapsed_ms'', ''status'', ''return_code'']"

lemma m50_row_reports:
  assumes "m50_row c rc out wall = Inr row"
  shows "reports m50_COLUMNS c row \<and> (\<exists>m. output_counters ''mtls'' out = Inr m \<and> shows_run rc m wall row)"
proof -
  from assms obtain m where m: "m50_parse_client_metrics out = Inr m"
    and row: "row = (''protocol'', VStr ''mtls'') # iot_base_cells c @
      [(''auth_duration_ms'', v_float (cm_auth_duration_ms m)), (''auth_sent_bytes'', v_int (cm_auth_sent_bytes m)),
       (''auth_received_bytes'', v_int (cm_auth_received_bytes m)),
       (''client_cert_sha256'', v_str (cm_client_cert_sha256 m)), (''request_bytes'', v_int (cm_request_bytes m)),
       (''response_bytes'', v_int (cm_response_bytes m)), (''device_id'', v_str (cm_device_id m)),
       (''auth_wall_elapsed_ms'', VFloat wall), (''status'', VStr (auth_status rc m)), (''return_code'', VInt rc)]"
    unfolding m50_row_def bind_res_Inr_iff by blast
  have "reports m50_COLUMNS c row" by (simp add: row iot_base_cells_def m50_COLUMNS_def reports_def)
  moreover have "shows_run rc (cm_auth_duration_ms m, cm_auth_sent_bytes m, cm_auth_received_bytes m) wall row"
    by (simp add: row iot_base_cells_def shows_run_def auth_status_def)
  ultimately show ?thesis using m by (simp add: output_counters_def)
qed

lemma e50_row_reports:
  assumes "e50_row c rc out wall = Inr row"
  shows "reports e50_COLUMNS c row \<and> (\<exists>m. output_counters ''edhoc'' out = Inr m \<and> shows_run rc m wall row)"
proof -
  from assms obtain m :: counters where m: "e50_parse_client_metrics out = Inr m"
    and row: "row = (''protocol'', VStr ''edhoc'') # iot_base_cells c @
      [(''auth_duration_ms'', v_float (ct_duration_ms m)), (''auth_sent_bytes'', v_int (ct_sent_bytes m)),
       (''auth_received_bytes'', v_int (ct_received_bytes m)), (''auth_wall_elapsed_ms'', VFloat wall),
       (''status'', VStr (if rc = 0 \<and> ct_duration_ms m \<noteq> None then ''AUTH_SUCCESS'' else ''AUTH_FAILED'')),
       (''return_code'', VInt rc)]"
    unfolding e50_row_def bind_res_Inr_iff sum.inject by blast
  have "reports e50_COLUMNS c row" by (simp add: row iot_base_cells_def e50_COLUMNS_def reports_def)
  moreover have "shows_run rc (ct_duration_ms m, ct_sent_bytes m, ct_received_bytes m) wall row"
    by (simp add: row iot_base_cells_def shows_run_def)
  ultimately show ?thesis using m by (simp add: output_counters_def)
qed

lemma iot_save_Inr:
  assumes "iot_save e path rows h = (Inr u, h')" and "\<forall>x \<in> set rows. map fst x = cols"
  shows "rows \<noteq> [] \<and> h' = h @ [WriteFile path (csv_write (cols # map (cells cols) rows))]"
proof (cases rows)
  case Nil
  then show ?thesis using assms(1) by (simp add: iot_save_def andthen_Inr_iff)
next
  case (Cons r rs)
  then have "map fst r = cols" using assms(2) by simp
  then show ?thesis using assms Cons write_rows_aligned [OF assms(2)]
    by (auto simp: iot_save_def andthen_Inr_iff tell_def ask_def)
qed

lemma iot_clients_trace:
  assumes S: "S = m50_script \<and> cols = m50_COLUMNS \<or> S = e50_script \<and> cols = e50_COLUMNS"
    and m: "map_eff (iot_run_client e S cfg bin) (zip (client_hosts (iot_build_network cs)) cs) h = (Inr rows, h1)"
    and evs: "evs = map (iot_client_event S cfg bin) (zip (client_hosts (iot_build_network cs)) cs)"
  shows "h1 = h @ evs \<and> list_all2 (reports cols) cs rows \<and> (\<forall>x \<in> set rows. map fst x = cols)
    \<and> (\<forall>i < length cs. row_from_answer (is_protocol S) e (h @ take i evs) (evs ! i) (rows ! i))"
proof -
  define hs where "hs = zip (client_hosts (iot_build_network cs)) cs"
  have clients: "map snd hs = cs" unfolding hs_def by (rule iot_hosts_zip)
  then have len: "length hs = length cs" by (metis length_map)
  have row: "reports cols c row \<and> (\<exists>m. output_counters (is_protocol S) out = Inr m \<and> shows_run rc m wall row)"
    if "is_row S c rc out wall = Inr row" for c rc out wall row
    using S that m50_row_reports [of c rc out wall row] e50_row_reports [of c rc out wall row]
    by (auto simp: m50_script_def e50_script_def)
  have one: "h1 = h @ [iot_client_event S cfg bin x] \<and> reports cols (snd x) y
      \<and> row_from_answer (is_protocol S) e h (iot_client_event S cfg bin x) y"
    if r: "iot_run_client e S cfg bin x h = (Inr y, h1)" for x h y h1
  proof -
    from iot_run_client_Inr [OF r] obtain a rc out where h1: "h1 = h @ [iot_client_event S cfg bin x]"
      and a: "te_answer e h1 = Inr a" "host_cmd_with_status (an_text a) = Inr (rc, out)"
      and y: "is_row S (snd x) rc out (wall_ms e h (iot_client_event S cfg bin x)) = Inr y" by blast
    from row [OF y] obtain m where m: "reports cols (snd x) y" "output_counters (is_protocol S) out = Inr m"
      "shows_run rc m (wall_ms e h (iot_client_event S cfg bin x)) y" by blast
    have "\<forall>n body. \<not> is_infix ''__RC_'' body \<and> an_text a = body @ ''__RC_'' @ show_nat n @ ''__'' @ [LF]
        \<longrightarrow> rc = int n \<and> out = strip body" using a(2) host_cmd_wrapped by auto
    with h1 a m show ?thesis unfolding row_from_answer_def by blast
  qed
  from map_eff_at [OF m [folded hs_def], of "iot_client_event S cfg bin" "\<lambda>h x y. reports cols (snd x) y
      \<and> row_from_answer (is_protocol S) e h (iot_client_event S cfg bin x) y", OF one]
  have h1: "h1 = h @ evs" and rows: "length rows = length cs"
    and each: "\<forall>i < length cs. reports cols (snd (hs ! i)) (rows ! i)
      \<and> row_from_answer (is_protocol S) e (h @ take i evs) (iot_client_event S cfg bin (hs ! i)) (rows ! i)"
    by (simp_all add: evs hs_def [symmetric] len take_map)
  have "snd (hs ! i) = cs ! i" if "i < length cs" for i using that len clients by (metis nth_map)
  with each rows have "list_all2 (reports cols) cs rows" by (simp add: list_all2_conv_all_nth)
  moreover from this have "\<forall>x \<in> set rows. map fst x = cols"
    by (auto simp: list_all2_conv_all_nth in_set_conv_nth reports_def)
  moreover have "evs ! i = iot_client_event S cfg bin (hs ! i)" if "i < length cs" for i using that len by (simp add: evs hs_def [symmetric])
  ultimately show ?thesis using h1 each by simp
qed

text \<open>C19: a session of the mTLS or EDHOC script that returns had clients, started the server, ran every client's
  command once, one after the other and on its own host, and then wrote a table with one row per client in that
  order, all with the script's columns and each with its client's name, run, address, device and link. The row is computed from
  the answer to that client's own command: it has the exit status the shell wrapper appended to the output, the duration and
  byte counts read in the output, and the time measured around the command; it reports success exactly for exit status
  zero with a duration read.\<close>

theorem iot_table_complete:
  assumes "S = m50_script \<and> cols = m50_COLUMNS \<or> S = e50_script \<and> cols = e50_COLUMNS"
    and "iot_session e S cfg bins workdir csv cs h = (Inr (), h')"
    and "h0 = h @ [HostCmd ''server'' (iot_server_cmd S cfg (fst bins) (workdir @ ''/server''))]"
    and "evs = map (iot_client_event S cfg (snd bins)) (zip (map (\<lambda>i. ''pi'' @ show_nat i) [1..<length cs + 1]) cs)"
  shows "cs \<noteq> [] \<and> (\<exists>rows. list_all2 (reports cols) cs rows
    \<and> (\<forall>i < length cs. row_from_answer (is_protocol S) e (h0 @ take i evs) (evs ! i) (rows ! i))
    \<and> h' = h0 @ evs @ [WriteFile csv (csv_write (cols # map (cells cols) rows))])"
proof -
  from assms(2,3) obtain rows h1 where
    m: "map_eff (iot_run_client e S cfg (snd bins)) (zip (client_hosts (iot_build_network cs)) cs) h0 = (Inr rows, h1)"
    and s: "iot_save e csv rows h1 = (Inr (), h')"
    by (auto simp: iot_session_def andthen_Inr_iff tell_def ask_def)
  have "evs = map (iot_client_event S cfg (snd bins)) (zip (client_hosts (iot_build_network cs)) cs)"
    using assms(4) by (simp add: iot_hosts del: upt_Suc)
  from iot_clients_trace [OF assms(1) m this] iot_save_Inr [OF s, of cols] show ?thesis
    by (intro conjI exI [of _ rows]) auto
qed

lemma quiet_client:
  "\<exists>row. iot_run_client quiet_env e50_script cfg bin hc h = (Inr row, h @ [iot_client_event e50_script cfg bin hc])"
proof -
  have "\<exists>row. e50_row c 999 [] wall = Inr row" for c wall
    by (simp add: e50_row_def e50_parse_client_metrics_def)
  then show ?thesis
    by (cases hc) (simp add: iot_run_client_def iot_client_event_def iot_host_cmd_with_status_def andthen_def clock_quiet
      ask_quiet quiet_answer_def host_cmd_with_status_def no_output(1) strip_def lstrip_def rstrip_def
      e50_script_def)
qed

lemma iot_table_complete_witness:
  "\<exists>cfg rows. iot_session quiet_env e50_script cfg (''/s'', ''/c'') ''/w'' ''/r.csv'' [iot_of (demo_assignment 1)] []
     = (Inr (), [HostCmd ''server'' (iot_server_cmd e50_script cfg ''/s'' ''/w/server''),
          iot_client_event e50_script cfg ''/c'' (''pi1'', iot_of (demo_assignment 1)),
          WriteFile ''/r.csv'' (csv_write (e50_COLUMNS # map (cells e50_COLUMNS) rows))]) \<and> length rows = 1"
proof -
  let ?a = "iot_of (demo_assignment 1)" let ?cfg = "snd (hd e50_CONFIG)"
  let ?h = "[HostCmd ''server'' (iot_server_cmd e50_script ?cfg ''/s'' ''/w/server'')]"
  have hosts: "zip (client_hosts (iot_build_network [?a])) [?a] = [(''pi1'', ?a)]" by (simp add: iot_hosts show_nat.simps)
  obtain row where row: "iot_run_client quiet_env e50_script ?cfg ''/c'' (''pi1'', ?a) ?h
      = (Inr row, ?h @ [iot_client_event e50_script ?cfg ''/c'' (''pi1'', ?a)])" using quiet_client by blast
  have "\<exists>h'. iot_session quiet_env e50_script ?cfg (''/s'', ''/c'') ''/w'' ''/r.csv'' [?a] [] = (Inr (), h')"
    using row [unfolded One_nat_def]
    by (simp add: iot_session_def andthen_def tell_quiet hosts [unfolded One_nat_def] iot_save_def write_rows_def fits_def)
  then obtain h' where run: "iot_session quiet_env e50_script ?cfg (''/s'', ''/c'') ''/w'' ''/r.csv'' [?a] [] = (Inr (), h')"
    by blast
  from iot_table_complete [OF _ run refl refl, of e50_COLUMNS] obtain rows where
    "list_all2 (reports e50_COLUMNS) [?a] rows"
    "h' = HostCmd ''server'' (iot_server_cmd e50_script ?cfg ''/s'' ''/w/server'')
        # map (iot_client_event e50_script ?cfg ''/c'') (zip (map (\<lambda>i. ''pi'' @ show_nat i) [1..<length [?a] + 1]) [?a])
        @ [WriteFile ''/r.csv'' (csv_write (e50_COLUMNS # map (cells e50_COLUMNS) rows))]" by auto
  then show ?thesis using run list_all2_lengthD by (intro exI [of _ ?cfg] exI [of _ rows]) (force simp: show_nat.simps)
qed

text \<open>Asked for no clients, the session of each script, inside the network it started, starts the server, empties the
  output file and ends with an index error.\<close>

lemma no_clients_truncate_table:
  assumes "\<And>h. \<exists>a. te_answer e h = Inr a"
  shows "iot_session e S cfg bins workdir csv [] h
      = (Inl IndexError, h @ [HostCmd ''server'' (iot_server_cmd S cfg (fst bins) (workdir @ ''/server'')), WriteFile csv []])
    \<and> z50_session e bins server_dir pub csv [] h
      = (Inl IndexError, h @ [HostCmd ''server'' (z50_server_cmd (fst bins) server_dir), WriteFile csv []])"
proof -
  have "tell e ev h = (Inr (), h @ [ev])" for ev h
    using assms [of "h @ [ev]"] by (auto simp: tell_def ask_def andthen_def)
  then show ?thesis by (simp add: iot_session_def z50_session_def andthen_def iot_save_def)
qed

lemma no_clients_truncate_table_witness:
  "iot_session quiet_env e50_script (snd (hd e50_CONFIG)) (''/s'', ''/c'') ''/w'' ''/r.csv'' [] []
     = (Inl IndexError, [HostCmd ''server'' (iot_server_cmd e50_script (snd (hd e50_CONFIG)) ''/s'' ''/w/server''),
         WriteFile ''/r.csv'' []])"
  using no_clients_truncate_table [of quiet_env e50_script "snd (hd e50_CONFIG)" "(''/s'', ''/c'')" "''/w''" "''/r.csv''" "[]"]
  by (simp add: quiet_env_def)

section \<open>The ZK-ARCHE script stops at the first failure\<close>

text \<open>Every command of the list, sent after \<open>h\<close>, was answered with the success marker.\<close>

fun all_marked :: "tb_env \<Rightarrow> history \<Rightarrow> tb_event list \<Rightarrow> bool" where
  "all_marked e h [] = True"
| "all_marked e h (ev # evs) =
     ((\<exists>a. te_answer e (h @ [ev]) = Inr a \<and> is_infix ''__EXIT_0__'' (strip (an_text a))) \<and> all_marked e (h @ [ev]) evs)"

lemma all_marked_append: "all_marked e h (a @ b) \<longleftrightarrow> all_marked e h a \<and> all_marked e (h @ a) b"
  by (induction a arbitrary: h) (auto simp del: is_infix.simps)

lemma checked_Inr:
  "host_cmd_checked e host cmd label h = (Inr out, h') \<Longrightarrow>
     h' = h @ [HostCmd host cmd] \<and> all_marked e h [HostCmd host cmd]"
  by (auto simp: host_cmd_checked_def andthen_Inr_iff ask_def Let_def simp del: is_infix.simps split: if_splits)

definition z50_client_events :: "string \<Rightarrow> string \<Rightarrow> string \<times> iot_client \<Rightarrow> tb_event list" where
  "z50_client_events client_bin pub hc =
     map (HostCmd (fst hc)) [z50_pin_cmd client_bin (ic_client_workdir (snd hc)) pub (fst hc),
       z50_setup_cmd client_bin (ic_client_workdir (snd hc)), z50_auth_cmd client_bin (ic_client_workdir (snd hc))]"

lemma z50_run_client_Inr:
  assumes "z50_run_client e bin pub hc h = (Inr row, h')"
  shows "h' = h @ z50_client_events bin pub hc \<and> True \<and> all_marked e h (z50_client_events bin pub hc)"
proof -
  obtain host c where hc: "hc = (host, c)" by fastforce
  from assms obtain o1 o2 o3 h1 h2 where
    1: "host_cmd_checked e host (z50_pin_cmd bin (ic_client_workdir c) pub host) (''pin server key for '' @ host) h = (Inr o1, h1)"
    and 2: "host_cmd_checked e host (z50_setup_cmd bin (ic_client_workdir c)) (''setup for '' @ host) h1 = (Inr o2, h2)"
    and 3: "host_cmd_checked e host (z50_auth_cmd bin (ic_client_workdir c)) (''auth for '' @ host) h2 = (Inr o3, h')"
    by (auto simp: z50_run_client_def hc andthen_Inr_iff clock_def)
  from checked_Inr [OF 1] checked_Inr [OF 2] checked_Inr [OF 3] show ?thesis
    by (simp add: z50_client_events_def hc del: is_infix.simps)
qed

definition no_file :: "tb_event \<Rightarrow> bool" where
  "no_file ev \<longleftrightarrow> (\<forall>p t. ev \<noteq> WriteFile p t)"

lemma z50_run_client_no_file: "emits no_file (z50_run_client e bin pub hc)"
  unfolding z50_run_client_def host_cmd_checked_def Let_def
  by (intro emits_intros) (simp_all add: no_file_def)

text \<open>C20: if a session of the ZK-ARCHE script writes its table at all, then every client was pinned, enrolled and
  authenticated, in this order and one client after the other, and each of these commands was answered
  with the success marker; a failure on any client leaves the previous table untouched.\<close>

theorem zk50_table_only_if_all_succeed:
  assumes "z50_session e bins server_dir pub csv cs h = (r, h')" and "WriteFile path text \<in> set (drop (length h) h')"
  shows "\<exists>evs. evs = concat (map (z50_client_events (snd bins) pub) (zip (map (\<lambda>i. ''pi'' @ show_nat i) [1..<length cs + 1]) cs))
    \<and> h' = h @ HostCmd ''server'' (z50_server_cmd (fst bins) server_dir) # evs @ [WriteFile csv text] \<and> path = csv
    \<and> all_marked e (h @ [HostCmd ''server'' (z50_server_cmd (fst bins) server_dir)]) evs"
proof -
  let ?hs = "zip (client_hosts (iot_build_network cs)) cs"
  let ?s = "HostCmd ''server'' (z50_server_cmd (fst bins) server_dir)"
  let ?run = "map_eff (z50_run_client e (snd bins) pub) ?hs"
  obtain q h1 where run: "?run (h @ [?s]) = (q, h1)" by fastforce
  have "emits no_file ?run" by (intro emits_map_eff z50_run_client_no_file)
  from emitsD [OF this run] obtain evs where evs: "h1 = h @ ?s # evs" "list_all no_file evs" by auto
  then have none: "WriteFile path text \<notin> set evs" by (auto simp: list_all_iff no_file_def)
  show ?thesis
  proof (cases q)
    case (Inl x)
    then have "h' = h @ [?s] \<or> h' = h @ ?s # evs" using assms(1) run evs(1)
      by (auto simp: z50_session_def andthen_def tell_def ask_def split: sum.splits)
    then have False using assms(2) none by auto
    then show ?thesis ..
  next
    case (Inr rows)
    have one: "h1 = h @ z50_client_events (snd bins) pub x \<and> True \<and> all_marked e h (z50_client_events (snd bins) pub x)"
      if "z50_run_client e (snd bins) pub x h = (Inr y, h1)" for x h y h1 using z50_run_client_Inr [OF that] .
    have "h1 = (h @ [?s]) @ concat (map (z50_client_events (snd bins) pub) ?hs)
        \<and> all_marked e (h @ [?s]) (concat (map (z50_client_events (snd bins) pub) ?hs))"
      using map_eff_trace [OF run [unfolded Inr], where P = "\<lambda>_ _. True" and Q = "all_marked e"
          and ev = "z50_client_events (snd bins) pub", OF one]
      by (simp add: all_marked_append)
    moreover have "h' = h @ [?s] \<or> (\<exists>t. h' = h1 @ [WriteFile csv t])"
      using assms(1) run Inr
      by (auto simp: z50_session_def iot_save_def write_rows_def Let_def andthen_def tell_def ask_def split: sum.splits list.splits if_splits)
    ultimately show ?thesis using assms(2) evs(1) none by (auto simp: iot_hosts simp del: upt_Suc)
  qed
qed

text \<open>A testbed on which every command prints just the marker.\<close>

definition marked_env :: tb_env where
  "marked_env = quiet_env\<lparr>te_answer := \<lambda>_. Inr (quiet_answer\<lparr>an_text := ''__EXIT_0__''\<rparr>)\<rparr>"

lemma zk50_table_only_if_all_succeed_witness:
  "\<exists>r h' evs table. z50_session marked_env (''/s'', ''/c'') ''/w/server'' ''ab'' ''/r.csv'' [iot_of (demo_assignment 1)] [] = (r, h')
    \<and> h' = HostCmd ''server'' (z50_server_cmd ''/s'' ''/w/server'') # evs @ [WriteFile ''/r.csv'' table]
    \<and> length evs = 3 \<and> all_marked marked_env [HostCmd ''server'' (z50_server_cmd ''/s'' ''/w/server'')] evs"
proof -
  let ?a = "iot_of (demo_assignment 1)"
  have marker: "strip ''__EXIT_0__'' = ''__EXIT_0__''" "remove_all ''__EXIT_0__'' ''__EXIT_0__'' = []" "strip [] = []"
    by (simp_all add: strip_def lstrip_def rstrip_def remove_all.simps)
  have found: "is_infix ''__EXIT_0__'' ''__EXIT_0__''" by simp
  have tell: "tell marked_env ev h = (Inr (), h @ [ev])" for ev h by (simp add: tell_def ask_def andthen_def marked_env_def)
  have checked: "host_cmd_checked marked_env host cmd label h = (Inr [], h @ [HostCmd host cmd])" for host cmd label h
    using marker found by (simp add: host_cmd_checked_def ask_def andthen_def Let_def marked_env_def del: is_infix.simps)
  have empty: "z50_parse_client_metrics [] = Inr no_counters" by (simp add: z50_parse_client_metrics_def)
  have run: "\<exists>row. z50_run_client marked_env bin pub hc h = (Inr row, h @ z50_client_events bin pub hc)" for bin pub hc h
    by (cases hc) (simp add: z50_run_client_def z50_client_events_def andthen_def checked empty clock_def)
  have hosts: "zip (client_hosts (iot_build_network [?a])) [?a] = [(''pi1'', ?a)]" by (simp add: iot_hosts show_nat.simps)
  let ?h = "[HostCmd ''server'' (z50_server_cmd ''/s'' ''/w/server'')]"
  obtain row where row: "z50_run_client marked_env ''/c'' ''ab'' (''pi1'', ?a) ?h = (Inr row, ?h @ z50_client_events ''/c'' ''ab'' (''pi1'', ?a))"
    using run by blast
  let ?t = "csv_write [map fst row, cells (map fst row) row]"
  let ?h' = "?h @ z50_client_events ''/c'' ''ab'' (''pi1'', ?a) @ [WriteFile ''/r.csv'' ?t]"
  have "z50_session marked_env (''/s'', ''/c'') ''/w/server'' ''ab'' ''/r.csv'' [?a] [] = (Inr (), ?h')"
    using row [unfolded One_nat_def]
    by (simp add: z50_session_def andthen_def tell hosts [unfolded One_nat_def] iot_save_def write_rows_def fits_def)
  moreover have "WriteFile ''/r.csv'' ?t \<in> set (drop (length []) ?h')" by simp
  ultimately show ?thesis
    using zk50_table_only_if_all_succeed [of marked_env "(''/s'', ''/c'')" "''/w/server''" "''ab''" "''/r.csv''" "[?a]" "[]" "Inr ()" ?h' "''/r.csv''" ?t]
    by (auto simp: z50_client_events_def show_nat.simps simp del: all_marked.simps)
qed

text \<open>The ZK-ARCHE script marks a client as successful without looking at its metrics: output without
  any metrics line gives a row with status success and no duration, for which the combined runner's status
  is a failure; and a metrics line whose duration cannot be read raises a type error where the other scripts
  record an empty duration.\<close>

lemma zk50_success_without_metrics:
  assumes "\<forall>l \<in> set (splitlines out). \<not> is_infix ''CLIENT METRICS'' l"
  shows "(\<exists>m. z50_parse_client_metrics out = Inr m \<and> map_of (z50_row c su m wall) ''status'' = Some (VStr ''AUTH_SUCCESS'')
      \<and> map_of (z50_row c su m wall) ''auth_duration_ms'' = Some VNone)
    \<and> (\<exists>m. parse_client_metrics out = Inr m \<and> auth_status 0 m = ''AUTH_FAILED'')
    \<and> (\<forall>line cp. re_search rx_plain_client line = Some cp \<and> parse_duration_to_ms (group ''dur'' (fst (snd cp))) = Inr None \<longrightarrow>
         (\<exists>msg. plain_client_line round_parsed line no_counters = Inl (TypeError msg)))"
proof -
  have none: "plain_client_lines f ls m = Inr m" if "\<forall>l \<in> set ls. \<not> is_infix ''CLIENT METRICS'' l" for f ls m
    using that
    by (induction ls) (simp_all add: plain_client_line_def rx_plain_client_def re_search_lit_None del: is_infix.simps lit.simps)
  have "z50_parse_client_metrics out = Inr no_counters" using none [OF assms] by (simp add: z50_parse_client_metrics_def)
  moreover have "map_of (z50_row c su no_counters wall) ''status'' = Some (VStr ''AUTH_SUCCESS'')"
    "map_of (z50_row c su no_counters wall) ''auth_duration_ms'' = Some VNone"
    by (simp_all add: z50_row_def iot_base_cells_def no_counters_def v_float_def)
  moreover have "parse_client_metrics out = Inr no_metrics" using assms
    by (simp add: parse_client_metrics_def client_lines_other)
  moreover have "auth_status 0 no_metrics = ''AUTH_FAILED''" by (simp add: auth_status_def no_metrics_def)
  ultimately show ?thesis
    by (auto simp: plain_client_line_def round_parsed_def split: prod.splits)
qed

lemma zk50_success_without_metrics_witness:
  "\<exists>m. z50_parse_client_metrics ''done'' = Inr m
    \<and> map_of (z50_row (iot_of (demo_assignment 1)) no_counters m 3) ''status'' = Some (VStr ''AUTH_SUCCESS'')"
proof -
  have "splitlines ''done'' = [''done'']" using splitlines_partial [of "''done''"] by (simp add: is_linebreak_def)
  then have "\<forall>l \<in> set (splitlines ''done''). \<not> is_infix ''CLIENT METRICS'' l" by simp
  from zk50_success_without_metrics [OF this] show ?thesis by blast
qed

section \<open>A run on a testbed that answers\<close>

text \<open>Nothing raises, every local command succeeds, every path exists and every output of a host can be read.\<close>

definition cooperative :: "tb_env \<Rightarrow> bool" where
  "cooperative e \<longleftrightarrow> (\<forall>h. \<exists>a rc out m. te_answer e h = Inr a \<and> an_rc a = 0
     \<and> host_cmd_with_status (an_text a) = Inr (rc, out) \<and> e50_parse_client_metrics out = Inr m) \<and> (\<forall>h p. te_exists e h p)"

lemma cooperative_answer:
  assumes "cooperative e"
  obtains a rc out m where "te_answer e h = Inr a" "an_rc a = 0" "host_cmd_with_status (an_text a) = Inr (rc, out)"
    "e50_parse_client_metrics out = Inr m"
  using assms unfolding cooperative_def by blast

lemma cooperative_tell: "cooperative e \<Longrightarrow> tell e ev h = (Inr (), h @ [ev])"
  by (rule cooperative_answer [of e "h @ [ev]"]) (auto simp: tell_def ask_def andthen_def)

lemma cooperative_exists: "cooperative e \<Longrightarrow> path_exists e p h = (Inr True, h)"
  by (simp add: cooperative_def path_exists_def)

lemma cooperative_local: "cooperative e \<Longrightarrow> \<exists>out. run_local e cmd cwd h = (Inr out, h @ [LocalRun cmd cwd])"
  by (rule cooperative_answer [of e "h @ [LocalRun cmd cwd]"]) (auto simp: run_local_def ask_def andthen_def)

lemma cooperative_client: "cooperative e \<Longrightarrow> \<exists>row h1. iot_run_client e e50_script cfg bin hc h = (Inr row, h1)"
proof -
  assume e: "cooperative e"
  let ?ev = "iot_client_event e50_script cfg bin hc"
  obtain a rc out m where a: "te_answer e (h @ [?ev]) = Inr a" "host_cmd_with_status (an_text a) = Inr (rc, out)"
    "e50_parse_client_metrics out = Inr m" using cooperative_answer [OF e] .
  have "\<exists>row. e50_row c rc out wall = Inr row" for c wall using a(3) by (simp add: e50_row_def)
  then show ?thesis using a(1,2)
    by (cases hc) (auto simp: iot_run_client_def iot_client_event_def iot_host_cmd_with_status_def andthen_def clock_def ask_def e50_script_def)
qed

lemma cooperative_session:
  assumes "cooperative e" and "cs \<noteq> []"
  shows "\<exists>evs table. iot_session e e50_script cfg bins workdir csv cs h = (Inr (), h @ evs @ [WriteFile csv table])"
proof -
  let ?hs = "zip (client_hosts (iot_build_network cs)) cs"
  let ?h = "h @ [HostCmd ''server'' (iot_server_cmd e50_script cfg (fst bins) (workdir @ ''/server''))]"
  have "\<exists>rows. fst (map_eff (iot_run_client e e50_script cfg (snd bins)) ?hs ?h) = Inr rows"
    by (intro map_eff_returns) (metis cooperative_client [OF assms(1)] fst_conv)
  then obtain rows h1 where m: "map_eff (iot_run_client e e50_script cfg (snd bins)) ?hs ?h = (Inr rows, h1)"
    by (metis prod.collapse)
  from iot_clients_trace [OF _ m refl, of e50_COLUMNS] have cols: "\<forall>x \<in> set rows. map fst x = e50_COLUMNS"
    and all: "list_all2 (reports e50_COLUMNS) cs rows"
    and h1: "h1 = ?h @ map (iot_client_event e50_script cfg (snd bins)) ?hs" by simp_all
  obtain r rs where rows: "rows = r # rs" using assms(2) all by (cases rows) auto
  then have "map fst r = e50_COLUMNS" using cols by simp
  then have "iot_save e csv rows = tell e (WriteFile csv (csv_write (e50_COLUMNS # map (cells e50_COLUMNS) rows)))"
    using write_rows_aligned [OF cols] rows by (simp add: iot_save_def)
  then show ?thesis using m h1 by (simp add: iot_session_def andthen_def cooperative_tell [OF assms(1)])
qed

lemma iot_assign_from_length: "iot_assign_from profiles dir i n g = (Inr cs, g') \<Longrightarrow> length cs = n"
  by (induction n arbitrary: i g cs) (auto simp: andthen_Inr_iff)

lemma cooperative_assignments:
  assumes "cooperative e"
  shows "\<exists>cs g' evs. iot_make_assignments e DEVICE_PROFILES n dir g h = (Inr (cs, g'), h @ evs) \<and> length cs = n"
proof -
  have "DEVICE_PROFILES \<noteq> []" by (simp add: DEVICE_PROFILES_def)
  then obtain cs g' where cs: "iot_assign_from DEVICE_PROFILES dir 1 n g = (Inr cs, g')"
    using assigns_known_devices by blast
  have "fst (for_each (\<lambda>c. tell e (MakeDir (ic_client_workdir c))) cs h) = Inr ()"
    by (rule for_each_returns) (simp add: cooperative_tell [OF assms])
  then obtain h1 where f: "for_each (\<lambda>c. tell e (MakeDir (ic_client_workdir c))) cs h = (Inr (), h1)" by (metis prod.collapse)
  from tells_Inr [OF f] f cs iot_assign_from_length [OF cs] show ?thesis
    by (auto simp: iot_make_assignments_def andthen_def)
qed

lemma cooperative_prepare:
  assumes "cooperative e"
  shows "\<exists>bins evs. iot_prepare_project e e50_CONFIG project [''edhoc''] h = (Inr [bins], h @ evs)"
proof -
  obtain out where "run_local e ''cargo build --bins'' project h = (Inr out, h @ [LocalRun ''cargo build --bins'' project])"
    using cooperative_local [OF assms] by blast
  then show ?thesis
    by (simp add: iot_prepare_project_def iot_protocol_bins_def iot_config_of_def e50_CONFIG_def debug_bins_def andthen_def Let_def
      cooperative_exists [OF assms])
qed

definition demo_iot_args :: iot_args where
  "demo_iot_args = \<lparr>ia_project = ''/p'', ia_clients = 2, ia_output = ''/r.csv'', ia_workdir = ''/w'', ia_seed = None\<rparr>"

text \<open>On a testbed that answers, the EDHOC script with at least one client runs to its end: it returns, with the network
  stopped and a table written.\<close>

lemma edhoc50_completes:
  assumes "cooperative e" and "0 < ia_clients args"
  shows "\<exists>evs table. e50_main e args h
    = (Inr (), h @ evs @ [WriteFile (ia_output args) table, HostCmd ''server'' (iot_pkill (snd (hd e50_CONFIG))), NetStop])"
proof -
  note told = cooperative_tell [OF assms(1)]
  let ?cfg = "snd (hd e50_CONFIG)" and ?w = "ia_workdir args @ ''/edhoc''"
  obtain bins e1 where prep: "iot_prepare_project e e50_CONFIG (ia_project args) [''edhoc''] h = (Inr [bins], h @ e1)"
    using cooperative_prepare [OF assms(1)] by blast
  let ?h2 = "h @ e1 @ [RemoveTree ?w, MakeDir (?w @ ''/server''), MakeDir (?w @ ''/clients'')]"
  obtain cs g' e2 where cs: "iot_make_assignments e DEVICE_PROFILES (ia_clients args) (?w @ ''/clients'') (te_seeded e (ia_seed args)) ?h2
      = (Inr (cs, g'), ?h2 @ e2)" "length cs = ia_clients args"
    using cooperative_assignments [OF assms(1)] by blast
  have ne: "cs \<noteq> []" using cs(2) assms(2) by auto
  obtain e3 table where run: "iot_session e e50_script ?cfg bins ?w (ia_output args) cs (?h2 @ e2 @ [NetStart])
      = (Inr (), (?h2 @ e2 @ [NetStart]) @ e3 @ [WriteFile (ia_output args) table])"
    using cooperative_session [OF assms(1) ne, of ?cfg bins ?w "ia_output args" "?h2 @ e2 @ [NetStart]"] by blast
  have own: "is_protocol e50_script = ''edhoc''" "is_table e50_script = e50_CONFIG" "is_profiles e50_script = DEVICE_PROFILES"
    "is_prepare e50_script = (\<lambda>e project workdir. ret ())" by (simp_all add: e50_script_def)
  have cfg: "iot_config_of e50_CONFIG ''edhoc'' = Inr ?cfg" by (simp add: iot_config_of_def e50_CONFIG_def)
  have certs: "\<not> io_needs_certs ?cfg" by (simp add: e50_CONFIG_def)
  have main: "e50_main e args h = iot_run_protocol e e50_script (ia_project args) bins (ia_clients args) (ia_output args)
      (ia_workdir args) (te_seeded e (ia_seed args)) (h @ e1)"
    by (simp add: e50_main_def iot_main_def own andthen_def prep)
  have stop: "stop_network e pkill h = (Inr (), h @ [HostCmd ''server'' pkill, NetStop])" for pkill h
    by (simp add: stop_network_def attempt_def andthen_def told)
  have copy: "iot_copy_certs_if_needed e e50_CONFIG project ''edhoc'' w cs = ret ()" for project w
    by (simp add: iot_copy_certs_if_needed_def cfg certs fun_eq_iff andthen_def)
  have inner: "try_finally (andthen (tell e NetStart) (\<lambda>_. iot_session e e50_script ?cfg bins ?w (ia_output args) cs))
      (stop_network e (iot_pkill ?cfg)) (?h2 @ e2)
      = (Inr (), (?h2 @ e2 @ [NetStart]) @ e3 @ [WriteFile (ia_output args) table, HostCmd ''server'' (iot_pkill ?cfg), NetStop])"
    using run by (simp add: try_finally_def andthen_def told stop)
  have "e50_main e args h
      = (Inr (), (?h2 @ e2 @ [NetStart]) @ e3 @ [WriteFile (ia_output args) table, HostCmd ''server'' (iot_pkill ?cfg), NetStop])"
    unfolding main iot_run_protocol_def own
    using cs(1) inner
    by (simp add: cfg Let_def copy andthen_def cooperative_exists [OF assms(1)] told)
  then show ?thesis
    by (intro exI [of _ "e1 @ [RemoveTree ?w, MakeDir (?w @ ''/server''), MakeDir (?w @ ''/clients'')] @ e2 @ [NetStart] @ e3"]
        exI [of _ table]) simp
qed

lemma edhoc50_completes_witness:
  "\<exists>evs table. e50_main quiet_env demo_iot_args []
    = (Inr (), evs @ [WriteFile ''/r.csv'' table, HostCmd ''server'' (iot_pkill (snd (hd e50_CONFIG))), NetStop])"
proof -
  have "cooperative quiet_env"
    by (simp add: cooperative_def quiet_env_def quiet_answer_def host_cmd_with_status_def no_output strip_def lstrip_def rstrip_def
      e50_parse_client_metrics_def)
  from edhoc50_completes [OF this, of demo_iot_args "[]"] show ?thesis by (simp add: demo_iot_args_def)
qed

end
