(* ===== verification/IotCorrect.thy ===== *)
theory IotCorrect
  imports IotTables
begin

text \<open>
  The single-protocol Mininet scripts against the testbed's state machine: every run is legal, the network is
  stopped last on every path, and there is never a second one.
\<close>

section \<open>The lifetime of the network\<close>

lemma plain_iot_save: "emits plain_event (iot_save e path rows)"
  unfolding iot_save_def by (intro emits_intros emits_local_plain [OF local_write_rows]) simp

lemma plain_iot_session: "emits plain_event (iot_session e S cfg bins workdir csv cs)"
  unfolding iot_session_def iot_run_client_def iot_host_cmd_with_status_def
  by (intro emits_intros plain_iot_save) simp_all

lemma plain_host_cmd_checked: "emits plain_event (host_cmd_checked e host cmd label)"
  unfolding host_cmd_checked_def Let_def by (intro emits_intros) simp

lemma plain_z50_session: "emits plain_event (z50_session e bins sd pub csv cs)"
  unfolding z50_session_def z50_run_client_def
  by (intro emits_intros plain_iot_save plain_host_cmd_checked) simp

interpretation iot: testbed_session e "iot_session e S cfg bins workdir csv cs" pkill
  for e S cfg bins workdir csv cs pkill
  by unfold_locales (rule uses_plain [OF plain_iot_session])

interpretation zkarche: testbed_session e "z50_session e bins sd pub csv cs" pkill for e bins sd pub csv cs pkill
  by unfold_locales (rule uses_plain [OF plain_z50_session])

lemma local_iot_assignments: "emits local_event (iot_make_assignments e profiles n dir g)"
  unfolding iot_make_assignments_def
  by (auto split: prod.splits sum.splits intro!: emits_intros)

lemma local_debug_bins: "emits local_event (debug_bins e project s c)"
  unfolding debug_bins_def Let_def by (intro emits_intros)

lemma local_certs_missing: "emits local_event (certs_missing e dir)"
proof -
  have "emits local_event (missing_file e dir ns)" for ns by (induction ns) (auto intro!: emits_intros)
  then show ?thesis unfolding certs_missing_def by (intro emits_intros)
qed

lemma local_run_local: "emits local_event (run_local e cmd cwd)"
  unfolding run_local_def by (intro emits_intros) simp

lemma local_iot_prepare: "emits local_event (iot_prepare_project e table project ps)"
  unfolding iot_prepare_project_def iot_protocol_bins_def
  by (intro emits_intros local_certs_missing local_run_local local_debug_bins)

lemma local_iot_certs: "emits local_event (iot_copy_certs_if_needed e table project p workdir cs)"
  unfolding iot_copy_certs_if_needed_def by (intro emits_intros) simp_all

lemmas before_network = local_iot_assignments local_debug_bins local_certs_missing local_run_local local_iot_prepare
  local_iot_certs local_mtls_allowlist

lemmas net_before_network = before_network [THEN emits_local_keeps]

lemma iot_run_protocol_runs:
  assumes "only_exceptions e" and "\<And>e project workdir. emits keeps_net (is_prepare S e project workdir)"
    and "iot_config_of (is_table S) (is_protocol S) = Inr cfg"
  shows "runs_network (iot_pkill cfg) (iot_run_protocol e S project bins n csv base g)"
proof -
  have cfg: "andthen (from_res (iot_config_of (is_table S) (is_protocol S))) f = f cfg" for f :: "iot_config \<Rightarrow> (history, unit) eff"
    using assms(3) by (simp add: fun_eq_iff andthen_def)
  show ?thesis
    unfolding iot_run_protocol_def cfg Let_def
    by (intro runs_network_before emits_exists emits_if emits_tell emits_ret net_before_network)
      (auto split: prod.splits intro!: runs_network_before net_before_network assms(2) iot.started_then_stopped [OF assms(1)])
qed

lemma scripts_registered:
  "iot_config_of (is_table m50_script) (is_protocol m50_script) = Inr (snd (hd m50_CONFIG))"
  "iot_config_of (is_table e50_script) (is_protocol e50_script) = Inr (snd (hd e50_CONFIG))"
  by (simp_all add: iot_config_of_def m50_script_def e50_script_def m50_CONFIG_def e50_CONFIG_def)

lemma scripts_prepare:
  "emits keeps_net (is_prepare m50_script e project workdir)" "emits keeps_net (is_prepare e50_script e project workdir)"
  by (auto simp: m50_script_def e50_script_def intro!: emits_intros net_mtls_allowlist)

lemma iot_main_runs:
  assumes "only_exceptions e"
  shows "runs_network (iot_pkill (snd (hd m50_CONFIG))) (m50_main e args)"
    and "runs_network (iot_pkill (snd (hd e50_CONFIG))) (e50_main e args)"
    and "runs_network z50_pkill (z50_main e args)"
proof -
  show "runs_network (iot_pkill (snd (hd m50_CONFIG))) (m50_main e args)"
    unfolding m50_main_def iot_main_def
    by (intro runs_network_before net_before_network iot_run_protocol_runs assms scripts_prepare scripts_registered)
  show "runs_network (iot_pkill (snd (hd e50_CONFIG))) (e50_main e args)"
    unfolding e50_main_def iot_main_def
    by (intro runs_network_before net_before_network iot_run_protocol_runs assms scripts_prepare scripts_registered)
  show "runs_network z50_pkill (z50_main e args)"
    unfolding z50_main_def z50_prepare_binaries_def z50_prepare_workdirs_def
    by (intro runs_network_before emits_intros net_before_network net_before_network)
      (auto split: prod.splits intro!: runs_network_before net_before_network zkarche.started_then_stopped [OF assms])
qed

section \<open>The use of the testbed\<close>

lemma iot_script_drives:
  assumes "only_exceptions e" and "\<And>e project workdir. emits local_event (is_prepare S e project workdir)"
  shows "drives (iot_main e S args)"
  unfolding iot_main_def iot_run_protocol_def Let_def
  by (intro drives_intros before_network [THEN drives_local] drives_local [OF assms(2)] iot.script_drives [OF assms(1)]) simp_all

lemma iot_scripts_drive:
  assumes "only_exceptions e"
  shows "drives (m50_main e args)" and "drives (e50_main e args)" and "drives (z50_main e args)"
proof -
  have p: "emits local_event (is_prepare m50_script e project workdir)" "emits local_event (is_prepare e50_script e project workdir)"
    for e project workdir by (auto simp: m50_script_def e50_script_def intro!: emits_intros local_mtls_allowlist)
  show "drives (m50_main e args)" unfolding m50_main_def by (rule iot_script_drives [OF assms p(1)])
  show "drives (e50_main e args)" unfolding e50_main_def by (rule iot_script_drives [OF assms p(2)])
  show "drives (z50_main e args)"
    unfolding z50_main_def z50_prepare_binaries_def z50_prepare_workdirs_def
    by (intro drives_intros before_network [THEN drives_local] zkarche.script_drives [OF assms]) simp_all
qed

text \<open>C21: Each of the three single-protocol scripts uses the testbed legally: what it adds to the history is a run
  of the testbed's state machine from no network to no network, so commands reach hosts of a network that is up
  only. A network is stopped on every path, last, after the command that kills the server, and there are never two.\<close>

theorem iot_scripts_stop_network:
  assumes "only_exceptions e" and "m = m50_main e args \<or> m = e50_main e args \<or> m = z50_main e args"
    and "m h = (r, h')"
  shows "\<exists>evs. h' = h @ evs \<and> tb_run (down (length h)) evs (down (length h')) \<and> one_network False evs
    \<and> (NetStart \<in> set evs \<longrightarrow> last evs = NetStop \<and> (\<exists>c. last (butlast evs) = HostCmd ''server'' c))"
proof -
  have "drives m" using iot_scripts_drive [OF assms(1)] assms(2) by blast
  from drivesD [OF this assms(3)] have run: "h' = h @ evs \<Longrightarrow> tb_run (down (length h)) evs (down (length h'))" for evs by auto
  obtain pk where "runs_network pk m" using iot_main_runs [OF assms(1)] assms(2) by blast
  with assms(3) consider evs where "h' = h @ evs" "list_all keeps_net evs"
    | pre evs where "h' = h @ pre @ NetStart # evs @ [HostCmd ''server'' pk, NetStop]"
        "list_all keeps_net pre" "list_all keeps_net evs"
    unfolding runs_network_def by blast
  then show ?thesis
  proof cases
    case 1
    then have "NetStart \<notin> set evs" by (auto simp: list_all_iff keeps_net_def)
    then show ?thesis using 1 one_network_keeps [of evs False "[]"] run by (intro exI [of _ evs]) simp
  next
    case 2
    have "tb_run (down (length h)) (pre @ NetStart # evs @ [HostCmd ''server'' pk, NetStop]) (down (length h'))"
      by (rule run) (simp add: 2(1))
    with 2 show ?thesis
      by (intro exI [of _ "pre @ NetStart # evs @ [HostCmd ''server'' pk, NetStop]"])
        (simp add: one_network_keeps butlast_append)
  qed
qed

lemma iot_scripts_stop_network_witness:
  "\<exists>r evs. e50_main quiet_env demo_iot_args [] = (r, evs) \<and> tb_run (down 0) evs (down (length evs)) \<and> one_network False evs"
proof -
  obtain r h' where run: "e50_main quiet_env demo_iot_args [] = (r, h')" by fastforce
  from iot_scripts_stop_network [of quiet_env "e50_main quiet_env demo_iot_args" demo_iot_args "[]" r h'] run
  show ?thesis by (auto simp: quiet_only_exceptions)
qed

end
