(* ===== verification/IotOwn.thy ===== *)
theory IotOwn
  imports IotRuns
begin

text \<open>
  The copies of the shared functions in each single-protocol script. The scripts do not import one
  another: each has its own text of the profile table, the random helpers, the local commands, the
  duration parser, the assignments and the network. They are named here per script as the instances
  of the shared definitions, and the equations compose each script's run from its own copies.
\<close>

section \<open>The mTLS script\<close>

definition m50_DEVICE_PROFILES :: "(string \<times> link_profile) list" where
  "m50_DEVICE_PROFILES = DEVICE_PROFILES"

definition m50_rand_range :: "real \<times> real \<Rightarrow> rng \<Rightarrow> real \<times> rng" where
  "m50_rand_range = rand_range"

definition m50_run_local :: "tb_env \<Rightarrow> string \<Rightarrow> string \<Rightarrow> (history, string) eff" where
  "m50_run_local = run_local"

definition m50_cert_fingerprint :: "tb_env \<Rightarrow> string \<Rightarrow> (history, string) eff" where
  "m50_cert_fingerprint = cert_fingerprint"

definition m50_prepare_mtls_authorized_clients :: "tb_env \<Rightarrow> string \<Rightarrow> string \<Rightarrow> (history, string) eff" where
  "m50_prepare_mtls_authorized_clients = prepare_mtls_authorized_clients"

definition m50_parse_duration_to_ms :: "string \<Rightarrow> real option res" where
  "m50_parse_duration_to_ms = parse_duration_to_ms"

section \<open>The EDHOC script\<close>

definition e50_DEVICE_PROFILES :: "(string \<times> link_profile) list" where
  "e50_DEVICE_PROFILES = DEVICE_PROFILES"

definition e50_weighted_random_device :: "rng \<Rightarrow> string \<times> rng" where
  "e50_weighted_random_device = iot_weighted_random_device e50_DEVICE_PROFILES"

definition e50_rand_range :: "real \<times> real \<Rightarrow> rng \<Rightarrow> real \<times> rng" where
  "e50_rand_range = rand_range"

definition e50_run_local :: "tb_env \<Rightarrow> string \<Rightarrow> string \<Rightarrow> (history, string) eff" where
  "e50_run_local = run_local"

definition e50_parse_duration_to_ms :: "string \<Rightarrow> real option res" where
  "e50_parse_duration_to_ms = parse_duration_to_ms"

definition e50_prepare_project :: "tb_env \<Rightarrow> string \<Rightarrow> string list \<Rightarrow> (history, (string \<times> string) list) eff" where
  "e50_prepare_project e = iot_prepare_project e e50_CONFIG"

text \<open>The copy makes the directory of the clients itself.\<close>

definition e50_make_assignments :: "tb_env \<Rightarrow> nat \<Rightarrow> string \<Rightarrow> rng \<Rightarrow> (history, iot_client list \<times> rng) eff" where
  "e50_make_assignments e n workdir g =
     andthen (tell e (MakeDir (workdir @ ''/clients''))) (\<lambda>_.
       iot_make_assignments e e50_DEVICE_PROFILES n (workdir @ ''/clients'') g)"

definition e50_copy_certs_if_needed ::
  "tb_env \<Rightarrow> string \<Rightarrow> string \<Rightarrow> string \<Rightarrow> iot_client list \<Rightarrow> (history, unit) eff" where
  "e50_copy_certs_if_needed e = iot_copy_certs_if_needed e e50_CONFIG"

definition e50_build_network :: "iot_client list \<Rightarrow> network" where
  "e50_build_network = iot_build_network"

definition e50_host_cmd_with_status :: "tb_env \<Rightarrow> string \<Rightarrow> string \<Rightarrow> (history, int \<times> string) eff" where
  "e50_host_cmd_with_status = iot_host_cmd_with_status"

definition e50_run_client :: "tb_env \<Rightarrow> iot_config \<Rightarrow> string \<Rightarrow> string \<times> iot_client \<Rightarrow> (history, row) eff" where
  "e50_run_client e cfg client_bin hc = (case hc of (host, c) \<Rightarrow>
     andthen (clock e) (\<lambda>start.
     andthen (e50_host_cmd_with_status e host
        (e50_auth_cmd c client_bin (io_client_args cfg (iot_addr cfg) (iot_addr cfg)))) (\<lambda>(rc, output).
     andthen (clock e) (\<lambda>stop.
       from_res (e50_row c rc output (py_round ((stop - start) * 1000) 4))))))"

definition e50_session ::
  "tb_env \<Rightarrow> iot_config \<Rightarrow> string \<times> string \<Rightarrow> string \<Rightarrow> string \<Rightarrow> iot_client list \<Rightarrow> (history, unit) eff" where
  "e50_session e cfg bins workdir output_csv cs =
     andthen (tell e (HostCmd ''server'' (iot_server_cmd e50_script cfg (fst bins) (workdir @ ''/server'')))) (\<lambda>_.
     andthen (map_eff (e50_run_client e cfg (snd bins)) (zip (client_hosts (e50_build_network cs)) cs)) (\<lambda>rows.
       iot_save e output_csv rows))"

definition e50_run_protocol ::
  "tb_env \<Rightarrow> string \<Rightarrow> string \<times> string \<Rightarrow> nat \<Rightarrow> string \<Rightarrow> string \<Rightarrow> rng \<Rightarrow> (history, unit) eff" where
  "e50_run_protocol e project bins num_clients output_csv base_workdir g =
     andthen (from_res (iot_config_of e50_CONFIG ''edhoc'')) (\<lambda>cfg.
     let workdir = base_workdir @ ''/edhoc'' in
     andthen (path_exists e workdir) (\<lambda>there.
     andthen (if there then tell e (RemoveTree workdir) else ret ()) (\<lambda>_.
     andthen (tell e (MakeDir (workdir @ ''/server''))) (\<lambda>_.
     andthen (e50_make_assignments e num_clients workdir g) (\<lambda>(cs, _).
     andthen (e50_copy_certs_if_needed e project ''edhoc'' workdir cs) (\<lambda>_.
       try_finally (andthen (tell e NetStart) (\<lambda>_. e50_session e cfg bins workdir output_csv cs))
         (stop_network e (iot_pkill cfg))))))))"

text \<open>The EDHOC run, written with the script's own functions, is the shared run on the EDHOC tables.\<close>

lemma andthen_assoc: "andthen (andthen m f) k = andthen m (\<lambda>x. andthen (f x) k)"
  by (auto simp: fun_eq_iff andthen_def split: prod.splits sum.splits)

lemma andthen_ret_unit: "andthen (ret ()) f = f ()"
  by (intro ext) (simp add: andthen_def)

lemma e50_session_shared: "e50_session e cfg = iot_session e e50_script cfg"
proof -
  have "e50_run_client e cfg = iot_run_client e e50_script cfg"
    by (intro ext) (simp add: e50_run_client_def iot_run_client_def e50_host_cmd_with_status_def e50_script_def)
  then show ?thesis by (intro ext) (simp add: e50_session_def iot_session_def e50_build_network_def)
qed

lemma e50_run_protocol_shared: "e50_run_protocol e = iot_run_protocol e e50_script"
proof -
  have own: "is_protocol e50_script = ''edhoc''" "is_table e50_script = e50_CONFIG" "is_profiles e50_script = DEVICE_PROFILES"
    "is_prepare e50_script = (\<lambda>e project workdir. ret ())" by (simp_all add: e50_script_def)
  show ?thesis
    unfolding e50_run_protocol_def [abs_def] iot_run_protocol_def [abs_def] Let_def e50_make_assignments_def andthen_assoc
      e50_session_shared e50_copy_certs_if_needed_def own e50_DEVICE_PROFILES_def andthen_ret_unit append.simps
    by simp
qed

lemma e50_main_own:
  "e50_main e args =
     andthen (e50_prepare_project e (ia_project args) [''edhoc'']) (\<lambda>bins.
       e50_run_protocol e (ia_project args) (hd bins) (ia_clients args) (ia_output args) (ia_workdir args)
         (te_seeded e (ia_seed args)))"
  by (simp add: e50_main_def iot_main_def e50_prepare_project_def e50_run_protocol_shared) (simp add: e50_script_def)

section \<open>The ZK-ARCHE script\<close>

definition z50_DEVICE_PROFILES :: "(string \<times> link_profile) list" where
  "z50_DEVICE_PROFILES = DEVICE_PROFILES"

definition z50_weighted_random_device :: "rng \<Rightarrow> string \<times> rng" where
  "z50_weighted_random_device = iot_weighted_random_device z50_DEVICE_PROFILES"

definition z50_rand_range :: "real \<times> real \<Rightarrow> rng \<Rightarrow> real \<times> rng" where
  "z50_rand_range = rand_range"

definition z50_run_local :: "tb_env \<Rightarrow> string \<Rightarrow> string \<Rightarrow> (history, string) eff" where
  "z50_run_local = run_local"

definition z50_parse_duration_to_ms :: "string \<Rightarrow> real option res" where
  "z50_parse_duration_to_ms = parse_duration_to_ms"

definition z50_build_network :: "iot_client list \<Rightarrow> network" where
  "z50_build_network = iot_build_network"

definition z50_assign_one :: "string \<Rightarrow> nat \<Rightarrow> rng \<Rightarrow> iot_client res \<times> rng" where
  "z50_assign_one clients_dir i g =
     (case z50_weighted_random_device g of (dtype, g1) \<Rightarrow>
      case map_of z50_DEVICE_PROFILES dtype of
        None \<Rightarrow> (Inl (KeyError dtype), g1)
      | Some p \<Rightarrow>
          (case z50_rand_range (lp_delay_ms_range p) g1 of (delay, g2) \<Rightarrow>
           case z50_rand_range (lp_jitter_ms_range p) g2 of (jitter, g3) \<Rightarrow>
           case z50_rand_range (lp_loss_percent_range p) g3 of (loss, g4) \<Rightarrow>
             (Inr \<lparr>ic_run = i, ic_client_host = ''pi'' @ show_nat i, ic_client_ip = client_addr (i + 1),
                ic_client_type = dtype, ic_bw_mbps = lp_bw_mbps p, ic_network_delay_ms = delay,
                ic_network_jitter_ms = jitter, ic_packet_loss_percent = loss,
                ic_client_workdir = clients_dir @ ''/pi'' @ show_nat i\<rparr>, g4)))"

lemma z50_assign_one_shared: "z50_assign_one = iot_assign_one DEVICE_PROFILES"
  unfolding z50_assign_one_def [abs_def] iot_assign_one_def [abs_def] z50_weighted_random_device_def z50_DEVICE_PROFILES_def
    z50_rand_range_def by (rule refl)

end
