(* ===== verification/MininetLife.thy ===== *)
theory MininetLife
  imports MininetRefine
begin

text \<open>
  The combined runner against the state machine of \<open>Lifecycle\<close>: whatever the environment answers, what
  the program does is a legal run of the testbed from no network to no network.
\<close>

lemma on_network_drives:
  assumes "only_exceptions e"
  shows "drives (on_network e args renv protocol bins workdir cfg flows as)"
  unfolding drives_def
proof (intro allI impI)
  fix h r h' assume run: "on_network e args renv protocol bins workdir cfg flows as h = (r, h')"
  let ?up = "Testbed True {} (Suc (length h))"
  have started: "\<exists>evs t. h1 = (h @ [NetStart]) @ evs \<and> tb_run ?up evs t \<and> net_up t \<and> ticks t = length h1
      \<and> (\<forall>procs. q = Inr procs \<longrightarrow> set procs \<subseteq> handles t)"
    if q: "start_traffic e flows h = (q, h1)" for q h1
  proof (cases "te_answer e (h @ [NetStart])")
    case (Inl x)
    then show ?thesis using q
      by (intro exI [of _ "[]"] exI [of _ ?up]) (auto simp: start_traffic_def tell_def ask_def andthen_def)
  next
    case (Inr a)
    then have flows: "launch_flows e flows (h @ [NetStart]) = (q, h1)"
      using q by (simp add: start_traffic_def tell_def ask_def andthen_def)
    obtain evs t where "h1 = (h @ [NetStart]) @ evs" "tb_run ?up evs t" "?up \<le> t"
        "ticks t = length h1" "\<And>procs. q = Inr procs \<Longrightarrow> set procs \<subseteq> handles t"
      by (rule usesD [OF launch_flows_uses _ _ _ flows, of ?up]) simp_all
    then show ?thesis by (intro exI [of _ evs] exI [of _ t]) (simp add: less_eq_testbed_def)
  qed
  have closes: "\<exists>evs. h' = h @ evs \<and> tb_run (down (length h)) evs (down (length h'))"
    if "h1 = (h @ [NetStart]) @ evs" "tb_run ?up evs t" "net_up t" "ticks t = length h1" "set procs \<subseteq> handles t"
      and m: "uses_only (set procs) m" and "try_finally m (clean_up e cfg procs) h1 = (r, h')" for h1 evs t procs m
  proof -
    have "\<exists>evs2. h' = h1 @ evs2 \<and> tb_run t evs2 (down (length h'))"
      using that(3-5,7) unfolding clean_up_def
      by (intro session_closes [OF assms m]) (auto intro: uses_attempt stop_background_uses
        attempt_returns simp: no_exit_def stop_background_returns [OF assms])
    then obtain evs2 where "h' = h1 @ evs2" "tb_run t evs2 (down (length h'))" by blast
    with that(1) tb_run_trans [OF that(2) this(2)] show ?thesis by (intro exI [of _ "NetStart # evs @ evs2"]) simp
  qed
  obtain q h1 where q: "start_traffic e flows h = (q, h1)" by (cases "start_traffic e flows h")
  from started [OF q] obtain evs t where t: "h1 = (h @ [NetStart]) @ evs" "tb_run ?up evs t" "net_up t" "ticks t = length h1"
      "\<And>procs. q = Inr procs \<Longrightarrow> set procs \<subseteq> handles t" by blast
  show "\<exists>evs. h' = h @ evs \<and> tb_run (down (length h)) evs (down (length h'))"
  proof (cases q)
    case (Inl x)
    then have "try_finally (raise x) (clean_up e cfg []) h1 = (r, h')" using run q by (simp add: on_network_def)
    from closes [OF t(1-4) _ _ this] show ?thesis by (simp add: uses_raise)
  next
    case (Inr procs)
    then have "try_finally (workloads e args renv protocol bins workdir as) (clean_up e cfg procs) h1 = (r, h')"
      using run q by (simp add: on_network_def)
    from closes [OF t(1-4) t(5) [OF Inr] workloads_uses this] show ?thesis .
  qed
qed

lemma run_protocol_drives:
  assumes "only_exceptions e"
  shows "drives (run_protocol_tests e args renv project protocol bins g)"
  unfolding run_protocol_tests_def Let_def
  by (intro drives_intros drives_local [OF local_copy_certs] drives_local [OF local_mtls_allowlist] on_network_drives assms)
    simp_all

lemma run_protocols_drives: "only_exceptions e \<Longrightarrow> drives (run_protocols e args renv project ps g)"
proof (induction ps arbitrary: g)
  case (Cons p ps)
  then show ?case by (cases p) (auto intro!: drives_andthen run_protocol_drives)
qed (simp add: drives_ret)

text \<open>C2: The whole combined program uses the testbed legally, by its result or by an exception: what it adds to the
  history is a run of the testbed's state machine that ends with no network up. In particular no command
  or process is started on a host while no network is up, and a process is awaited, polled or
  killed only through the handle of its own start, in the same network.\<close>

theorem main_drives_testbed:
  assumes "only_exceptions e" and "mininet_main e args environ [] = (r, h)"
  shows "tb_run (down 0) h (down (length h))
    \<and> (\<forall>i < length h. (\<exists>host cmd. h ! i \<in> {HostCmd host cmd, HostPopen host cmd}) \<longrightarrow> network_since (take i h) \<noteq> None)
    \<and> (\<forall>i < length h. \<forall>k. handle_of (h ! i) = Some k \<longrightarrow>
         k < i \<and> (\<exists>host cmd. h ! k = HostPopen host cmd) \<and> NetStop \<notin> set (drop k (take i h)))"
proof -
  have "drives (mininet_main e args environ)"
    unfolding mininet_main_def Let_def
    by (intro drives_andthen drives_ret run_protocols_drives assms drives_local local_prepare_project)
  from drivesD [OF this assms(2)] have run: "tb_run (down 0) h (down (length h))" by simp
  then show ?thesis using legal_history [OF run] by (intro conjI allI impI) auto
qed

lemma main_drives_testbed_witness:
  "\<exists>r h. mininet_main quiet_env (default_args ''/p'') (\<lambda>_. None) [] = (r, h) \<and> tb_run (down 0) h (down (length h))"
proof -
  obtain r h where run: "mininet_main quiet_env (default_args ''/p'') (\<lambda>_. None) [] = (r, h)" by fastforce
  from main_drives_testbed [OF quiet_only_exceptions run] run show ?thesis by blast
qed

end
