(* ===== verification/MininetLive.thy ===== *)
theory MininetLive
  imports MininetLife
begin

text \<open>
  The combined runner on a testbed that answers: it returns, and the result file of every selected protocol
  and test is written. The rules below are for operations that cannot raise in such a testbed.
\<close>

section \<open>Operations that return\<close>

text \<open>\<open>completes m Q F\<close>: \<open>m\<close> returns a value in \<open>Q\<close> and writes the files \<open>F\<close>.\<close>

definition completes :: "(history, 'a) eff \<Rightarrow> ('a \<Rightarrow> bool) \<Rightarrow> string set \<Rightarrow> bool" where
  "completes m Q F \<longleftrightarrow> (\<forall>h. \<exists>x evs. m h = (Inr x, h @ evs) \<and> Q x \<and> (\<forall>f \<in> F. \<exists>t. WriteFile f t \<in> set evs))"

abbreviation returns :: "(history, 'a) eff \<Rightarrow> bool" where
  "returns m \<equiv> completes m (\<lambda>_. True) {}"

named_theorems completes_intros \<open>rules for operations that return\<close>

lemma completesI: "(\<And>h. \<exists>x evs. m h = (Inr x, h @ evs) \<and> Q x) \<Longrightarrow> completes m Q {}"
  by (simp add: completes_def)

lemma completes_weaken: "completes m Q F \<Longrightarrow> (\<And>x. Q x \<Longrightarrow> Q' x) \<Longrightarrow> F' \<subseteq> F \<Longrightarrow> completes m Q' F'"
  unfolding completes_def by (meson subsetD)

lemma completes_ret [completes_intros]: "Q x \<Longrightarrow> completes (ret x) Q {}"
  by (rule completesI) (auto intro!: exI [of _ "[]"])

lemma completes_from_res [completes_intros]: "r = Inr x \<Longrightarrow> Q x \<Longrightarrow> completes (from_res r) Q {}"
  by (rule completesI) (auto intro!: exI [of _ "[]"])

lemma completes_clock [completes_intros]: "returns (clock e)"
  by (rule completesI) (auto simp: clock_def intro!: exI [of _ "[]"])

lemma completes_andthen:
  assumes m: "completes m P F" and f: "\<And>x. P x \<Longrightarrow> completes (f x) Q G"
  shows "completes (andthen m f) Q (F \<union> G)"
  unfolding completes_def
proof
  fix h
  obtain x evs where x: "m h = (Inr x, h @ evs)" "P x" "\<forall>f \<in> F. \<exists>t. WriteFile f t \<in> set evs"
    using m unfolding completes_def by blast
  obtain y evs2 where y: "f x (h @ evs) = (Inr y, (h @ evs) @ evs2)" "Q y" "\<forall>f \<in> G. \<exists>t. WriteFile f t \<in> set evs2"
    using f [OF x(2)] unfolding completes_def by blast
  have "\<forall>g \<in> F \<union> G. \<exists>t. WriteFile g t \<in> set (evs @ evs2)" using x(3) y(3) by fastforce
  then show "\<exists>y evs. andthen m f h = (Inr y, h @ evs) \<and> Q y \<and> (\<forall>f \<in> F \<union> G. \<exists>t. WriteFile f t \<in> set evs)"
    using x(1) y(1,2) by (intro exI [of _ y] exI [of _ "evs @ evs2"]) (simp add: andthen_def)
qed

text \<open>Steps that write no file of interest.\<close>

lemma completes_seq: "completes m P {} \<Longrightarrow> (\<And>x. P x \<Longrightarrow> completes (f x) Q F) \<Longrightarrow> completes (andthen m f) Q F"
  using completes_andthen [of m P "{}" f Q F] by simp

lemma completes_map_eff:
  "(\<And>x. x \<in> set xs \<Longrightarrow> completes (f x) Q {}) \<Longrightarrow> completes (map_eff f xs) (\<lambda>ys. length ys = length xs \<and> (\<forall>y \<in> set ys. Q y)) {}"
proof (induction xs)
  case Nil
  show ?case unfolding map_eff.simps by (rule completes_ret) simp
next
  case (Cons x xs)
  then show ?case
    unfolding map_eff.simps by (intro completes_seq [where P = Q] completes_seq [OF Cons.IH] completes_ret) auto
qed

lemma completes_for_each: "(\<And>x. x \<in> set xs \<Longrightarrow> returns (f x)) \<Longrightarrow> returns (for_each f xs)"
  unfolding for_each_def by (rule completes_seq [OF completes_map_eff]) (auto intro: completes_ret)

lemma completes_attempt: "completes m Q F \<Longrightarrow> completes (attempt m) (\<lambda>_. True) F"
  unfolding completes_def attempt_def
proof
  fix h assume "\<forall>h. \<exists>x evs. m h = (Inr x, h @ evs) \<and> Q x \<and> (\<forall>f \<in> F. \<exists>t. WriteFile f t \<in> set evs)"
  then obtain x evs where "m h = (Inr x, h @ evs)" "\<forall>f \<in> F. \<exists>t. WriteFile f t \<in> set evs" by blast
  then show "\<exists>x evs. (case m h of (Inl (SystemExit s), h') \<Rightarrow> (Inl (SystemExit s), h') | (_, h') \<Rightarrow> (Inr (), h')) = (Inr x, h @ evs)
      \<and> True \<and> (\<forall>f \<in> F. \<exists>t. WriteFile f t \<in> set evs)" by auto
qed

lemma completes_if: "(c \<Longrightarrow> completes a Q F) \<Longrightarrow> (\<not> c \<Longrightarrow> completes b Q F) \<Longrightarrow> completes (if c then a else b) Q F"
  by simp

lemma completes_case_prod: "(\<And>a b. x = (a, b) \<Longrightarrow> completes (f a b) Q F) \<Longrightarrow> completes (case x of (a, b) \<Rightarrow> f a b) Q F"
  by (cases x) simp

lemma completes_finally:
  assumes m: "completes m Q F" and c: "returns c"
  shows "completes (try_finally m c) Q F"
  unfolding completes_def
proof
  fix h
  obtain x evs where x: "m h = (Inr x, h @ evs)" "Q x" "\<forall>f \<in> F. \<exists>t. WriteFile f t \<in> set evs"
    using m unfolding completes_def by blast
  have "\<exists>u evs2. c (h @ evs) = (Inr u, (h @ evs) @ evs2)" using c unfolding completes_def by blast
  then obtain evs2 where "c (h @ evs) = (Inr (), (h @ evs) @ evs2)" by auto
  then show "\<exists>x evs. try_finally m c h = (Inr x, h @ evs) \<and> Q x \<and> (\<forall>f \<in> F. \<exists>t. WriteFile f t \<in> set evs)"
    using x by (intro exI [of _ x] exI [of _ "evs @ evs2"]) (auto simp: try_finally_def)
qed

section \<open>A testbed that answers\<close>

definition MN_NAMES :: "string list" where
  "MN_NAMES = [''zkarche'', ''mtls'', ''edhoc'']"

definition log_answer :: "string \<Rightarrow> bool" where
  "log_answer t \<longleftrightarrow> (\<forall>p \<in> set MN_NAMES. \<forall>l \<in> set (splitlines t). readable p l)"

definition client_answer :: "string \<Rightarrow> bool" where
  "client_answer t \<longleftrightarrow> (\<exists>out m ms. host_cmd_with_status t = Inr (0, out) \<and> parse_client_metrics out = Inr m
     \<and> parse_all_client_metrics out = Inr ms)"

definition process_answer :: "string \<Rightarrow> bool" where
  "process_answer t \<longleftrightarrow> (\<exists>rc out m. parse_rc_output t = Inr (rc, out) \<and> parse_client_metrics out = Inr m)"

text \<open>Nothing raises, local commands succeed, the server prints its key, commands on clients succeed with metrics that
  can be read, and so can the server's log.\<close>

definition answers_to :: "tb_event \<Rightarrow> answer \<Rightarrow> bool" where
  "answers_to ev a \<longleftrightarrow> an_rc a = 0 \<and> (case ev of
       LocalRun c d \<Rightarrow> (\<forall>b. c = b @ '' --print-pubkey'' \<longrightarrow> (\<exists>pub. server_pubkey (strip (an_text a)) = Inr pub))
     | HostCmd n c \<Rightarrow> if n = ''server'' then log_answer (an_text a) else client_answer (an_text a)
     | Communicate k \<Rightarrow> process_answer (an_text a)
     | _ \<Rightarrow> True)"

definition answering :: "tb_env \<Rightarrow> bool" where
  "answering e \<longleftrightarrow> (\<forall>h ev. \<exists>a. te_answer e (h @ [ev]) = Inr a \<and> answers_to ev a) \<and> (\<forall>h p. te_exists e h p)"

lemma completes_ask: "answering e \<Longrightarrow> completes (ask e ev) (answers_to ev) {}"
  by (rule completesI) (auto simp: answering_def ask_def)

lemma completes_tell: "answering e \<Longrightarrow> completes (tell e ev) (\<lambda>_. True) (case ev of WriteFile f t \<Rightarrow> {f} | _ \<Rightarrow> {})"
proof -
  assume e: "answering e"
  have "tell e ev h = (Inr (), h @ [ev])" for h
  proof -
    obtain a where "te_answer e (h @ [ev]) = Inr a" using e unfolding answering_def by blast
    then show ?thesis by (simp add: tell_def ask_def andthen_def)
  qed
  then show ?thesis by (auto simp: completes_def split: tb_event.splits)
qed

lemma returns_tell: "answering e \<Longrightarrow> returns (tell e ev)"
  by (rule completes_weaken [OF completes_tell]) simp_all

lemma completes_popen: "answering e \<Longrightarrow> returns (popen e host cmd)"
proof (rule completesI)
  fix h assume "answering e"
  then obtain a where "te_answer e (h @ [HostPopen host cmd]) = Inr a" unfolding answering_def by blast
  then show "\<exists>x evs. popen e host cmd h = (Inr x, h @ evs) \<and> True" by (simp add: popen_def ask_def andthen_def)
qed

lemma completes_exists: "answering e \<Longrightarrow> completes (path_exists e p) (\<lambda>x. x) {}"
  by (rule completesI) (auto simp: path_exists_def answering_def)

lemma completes_run_local: "answering e \<Longrightarrow>
    completes (run_local e cmd cwd) (\<lambda>out. \<forall>b. cmd = b @ '' --print-pubkey'' \<longrightarrow> (\<exists>pub. server_pubkey out = Inr pub)) {}"
  unfolding run_local_def
  by (rule completes_seq [OF completes_ask]) (auto simp: answers_to_def intro: completes_ret)

section \<open>Rows\<close>

lemma single_row_batch:
  "single_row protocol a (Suc i) out elapsed
     = batch_row protocol ''2'' ''sequential'' 1 i a \<lparr>bp_output = strip out, bp_wall_s = elapsed, bp_batch_s = elapsed\<rparr>"
  by (simp add: single_row_def batch_row_def host_cmd_with_status_def Let_def)

lemma batch_row_columns: "batch_row protocol t w r i a p = Inr x \<Longrightarrow> map fst x = BATCH_COLUMNS"
  by (auto simp: batch_row_cells BATCH_COLUMNS_def fst_base_row fst_session_cells)

lemma completes_batch_row:
  assumes "process_answer (bp_output p)"
  shows "completes (from_res (batch_row protocol t w r i a p)) (\<lambda>x. map fst x = BATCH_COLUMNS) {}"
proof -
  obtain x where x: "batch_row protocol t w r i a p = Inr x" using assms by (auto simp: process_answer_def batch_row_def)
  show ?thesis by (rule completes_from_res [OF x]) (rule batch_row_columns [OF x])
qed

lemma client_answer_process: "client_answer t \<Longrightarrow> process_answer (strip t)"
  by (auto simp: client_answer_def process_answer_def host_cmd_with_status_def)

lemma repeat_row_columns: "map fst (repeat_row protocol a n rc output elapsed ms k) = REPEAT_COLUMNS"
proof -
  obtain m w where "repeat_row protocol a n rc output elapsed ms k
     = base_row protocol ''2'' ''sequential'' a k 1 k @ session_cells protocol a m @
        [(''request_bytes'', v_int (cm_request_bytes m)), (''response_bytes'', v_int (cm_response_bytes m)),
         (''device_id'', v_str (cm_device_id m)), (''client_cert_sha256'', v_str (cm_client_cert_sha256 m)),
         (''auth_wall_elapsed_ms'', w), (''batch_elapsed_ms'', w),
         (''status'', VStr (auth_status rc m)), (''return_code'', VInt rc), (''stdout_tail'', VStr (tail_300 output))]"
    using repeat_row_cells by blast
  then show ?thesis by (simp add: REPEAT_COLUMNS_def fst_base_row fst_session_cells)
qed

definition aligned :: "row list \<Rightarrow> bool" where
  "aligned rows \<longleftrightarrow> (\<exists>cols. \<forall>x \<in> set rows. map fst x = cols)"

lemma alignedI: "(\<And>x. x \<in> set rows \<Longrightarrow> map fst x = cols) \<Longrightarrow> aligned rows"
  by (auto simp: aligned_def)

lemma server_row_keys: "\<exists>cols. \<forall>r. map fst (server_row_cells r) = cols"
  by (simp add: server_row_cells_def)

lemma session_row_keys: "\<exists>cols. \<forall>r. map fst (session_row_cells r) = cols"
  by (simp add: session_row_cells_def server_row_cells_def)

definition SERVER_COLUMNS :: "string \<Rightarrow> string list" where
  "SERVER_COLUMNS protocol =
     (if protocol = ''zkarche'' then map fst (session_row_cells undefined) else map fst (server_row_cells undefined))"

lemma server_table_columns: "x \<in> set (server_table protocol as rows) \<Longrightarrow> map fst x = SERVER_COLUMNS protocol"
  by (auto simp: server_table_def SERVER_COLUMNS_def session_row_cells_def server_row_cells_def split: if_splits)

lemma completes_save_csv:
  assumes "answering e" and "aligned rows"
  shows "completes (save_csv e dir name rows) (\<lambda>_. True) (if rows = [] then {} else {dir @ ''/'' @ name})"
proof (cases rows)
  case Nil
  then show ?thesis unfolding save_csv_def
    by (auto intro!: completes_seq [OF returns_tell [OF assms(1)]] completes_ret simp del: ret_simp)
next
  case (Cons r rs)
  with assms(2) have "\<forall>x \<in> set rows. map fst x = map fst r" by (auto simp: aligned_def)
  then have w: "write_rows e p (map fst r) rows = tell e (WriteFile p (csv_write (map fst r # map (cells (map fst r)) rows)))" for p
    by (rule write_rows_aligned)
  have "completes (write_rows e (dir @ ''/'' @ name) (map fst r) rows) (\<lambda>_. True) {dir @ ''/'' @ name}"
    unfolding w by (rule completes_weaken [OF completes_tell [OF assms(1)]]) simp_all
  with Cons show ?thesis unfolding save_csv_def
    by (auto intro: completes_seq [OF returns_tell [OF assms(1)]])
qed

lemma returns_save_csv: "answering e \<Longrightarrow> aligned rows \<Longrightarrow> returns (save_csv e dir name rows)"
  by (rule completes_weaken [OF completes_save_csv]) simp_all

section \<open>The workloads return\<close>

lemma known_protocol: "protocol \<in> set MN_NAMES \<Longrightarrow> \<exists>cfg. map_of MN_PROTOCOLS protocol = Some cfg \<and> mn_protocol_of protocol = Inr cfg"
  by (auto simp: MN_NAMES_def MN_PROTOCOLS_def mn_protocol_of_def)

lemma commands_known:
  assumes "protocol \<in> set MN_NAMES"
  shows "\<exists>cmd. client_auth_cmd protocol bin dir = Inr cmd" and "\<exists>cmd. server_cmd protocol bin dir = Inr cmd"
    and "\<exists>cmd. repeat_cmd bin dir n = Inr cmd"
  using assms by (auto simp: MN_NAMES_def MN_PROTOCOLS_def mn_protocol_of_def client_auth_cmd_def server_cmd_def repeat_cmd_def Let_def)

lemma completes_start_client:
  assumes "answering e" and "protocol \<in> set MN_NAMES"
  shows "returns (start_client e protocol bin ia)"
proof -
  obtain i a where ia: "ia = (i, a)" by fastforce
  obtain cmd where "client_auth_cmd protocol bin (a_client_workdir a) = Inr cmd" using commands_known(1) [OF assms(2)] by blast
  then show ?thesis unfolding start_client_def ia
    by (auto intro!: completes_seq [OF completes_from_res] completes_seq [OF completes_popen [OF assms(1)]]
      completes_seq [OF completes_clock] completes_ret simp del: ret_simp)
qed

lemma completes_await_client:
  assumes "answering e"
  shows "completes (await_client e protocol as t w r b s) (\<lambda>x. map fst x = BATCH_COLUMNS) {}"
  unfolding await_client_def
  by (rule completes_seq [OF completes_ask [OF assms]], rule completes_seq [OF completes_clock], rule completes_batch_row)
    (simp add: answers_to_def)

lemma completes_run_batch:
  assumes "answering e" and "protocol \<in> set MN_NAMES"
  shows "completes (run_batch e protocol bin as t w r) (\<lambda>rows. length rows = length as \<and> (\<forall>x \<in> set rows. map fst x = BATCH_COLUMNS)) {}"
  unfolding run_batch_def
  by (rule completes_seq [OF completes_clock],
      rule completes_seq [OF completes_map_eff [OF completes_start_client [OF assms]]],
      rule completes_weaken [OF completes_map_eff [OF completes_await_client [OF assms(1)]]])
    simp_all

lemma completes_timed_cmd:
  assumes "answering e" and "host \<noteq> ''server''"
  shows "completes (timed_cmd e host cmd) (\<lambda>(out, elapsed). client_answer out) {}"
  unfolding timed_cmd_def
  by (rule completes_seq [OF completes_clock], rule completes_seq [OF completes_ask [OF assms(1)]],
      rule completes_seq [OF completes_clock], rule completes_ret)
    (use assms(2) in \<open>simp add: answers_to_def\<close>)

lemma completes_run_single:
  assumes "answering e" and "protocol \<in> set MN_NAMES" and "a_client_host a \<noteq> ''server''" and "0 < k"
  shows "completes (run_single e protocol bin a k) (\<lambda>x. map fst x = BATCH_COLUMNS) {}"
proof -
  obtain i where k: "k = Suc i" using assms(4) by (cases k) simp_all
  obtain cmd where cmd: "client_auth_cmd protocol bin (a_client_workdir a) = Inr cmd" using commands_known(1) [OF assms(2)] by blast
  have "completes (from_res (single_row protocol a k out elapsed)) (\<lambda>x. map fst x = BATCH_COLUMNS) {}"
    if "client_answer out" for out elapsed
    unfolding k single_row_batch using client_answer_process [OF that] by (intro completes_batch_row) simp
  then show ?thesis unfolding run_single_def
    by (intro completes_seq [OF completes_from_res [OF cmd TrueI]] completes_seq [OF completes_timed_cmd [OF assms(1,3)]] completes_case_prod)
      auto
qed

lemma completes_run_sequential:
  assumes "answering e" and "protocol \<in> set MN_NAMES" and "a_client_host a \<noteq> ''server''"
  shows "completes (run_sequential e renv protocol bin a n) (\<lambda>rows. length rows = n \<and> aligned rows) {}"
  unfolding run_sequential_def
proof (rule completes_if)
  assume zk: "protocol = ''zkarche'' \<and> (case renv of Some v \<Rightarrow> v | None \<Rightarrow> ''1'') \<noteq> ''0''"
  obtain cmd where cmd: "repeat_cmd bin (a_client_workdir a) n = Inr cmd" using commands_known(3) [OF assms(2)] by blast
  have "completes (from_res (execute_sequential protocol renv a n (\<lambda>_. run))) (\<lambda>rows. length rows = n \<and> aligned rows) {}"
    if answer: "case run of (out, elapsed) \<Rightarrow> client_answer out" for run :: "string \<times> real"
  proof -
    obtain out ms where "host_cmd_with_status (fst run) = Inr (0, out)" "parse_all_client_metrics out = Inr ms"
      using answer by (auto simp: client_answer_def)
    then have x: "execute_sequential protocol renv a n (\<lambda>_. run)
        = Inr (map (repeat_row protocol a n 0 out (py_round (snd run * 1000) 4) ms) [1..<n + 1])"
      using zk by (simp add: execute_sequential_def)
    show ?thesis
      by (rule completes_from_res [OF x]) (auto intro!: alignedI [where cols = REPEAT_COLUMNS] simp: repeat_row_columns simp del: upt_Suc)
  qed
  then show "completes (andthen (from_res (repeat_cmd bin (a_client_workdir a) n)) (\<lambda>cmd.
      andthen (timed_cmd e (a_client_host a) cmd) (\<lambda>run. from_res (execute_sequential protocol renv a n (\<lambda>_. run)))))
      (\<lambda>rows. length rows = n \<and> aligned rows) {}"
    by (intro completes_seq [OF completes_from_res [OF cmd TrueI]] completes_seq [OF completes_timed_cmd [OF assms(1,3)]])
next
  have "completes (map_eff (run_single e protocol bin a) [1..<n + 1])
      (\<lambda>ys. length ys = length [1..<n + 1] \<and> (\<forall>y \<in> set ys. map fst y = BATCH_COLUMNS)) {}"
    by (intro completes_map_eff completes_run_single assms) auto
  then show "completes (map_eff (run_single e protocol bin a) [1..<n + 1]) (\<lambda>rows. length rows = n \<and> aligned rows) {}"
    by (rule completes_weaken) (auto intro: alignedI)
qed

lemma completes_read_log: "answering e \<Longrightarrow> completes (read_log e protocol) log_answer {}"
  unfolding read_log_def
  by (rule completes_seq [OF completes_ask]) (auto simp: answers_to_def intro: completes_ret simp del: ret_simp)

lemma log_rows:
  assumes "log_answer t" and "protocol \<in> set MN_NAMES"
  shows "\<exists>rows. parse_server_metrics_log protocol t off test_id w r = Inr (rows, length (splitlines t))"
proof -
  have "\<forall>l \<in> set (drop off (splitlines t)). readable protocol l"
    using assms by (auto simp: log_answer_def dest: in_set_dropD)
  from server_rows_of_readable [OF this] show ?thesis by (simp add: parse_server_metrics_log_def Let_def)
qed

lemma completes_collect_server:
  assumes "answering e" and "protocol \<in> set MN_NAMES"
  shows "returns (collect_server e protocol off t w r)"
  unfolding collect_server_def
proof (rule completes_seq [OF completes_read_log [OF assms(1)]])
  fix s assume "log_answer s"
  from log_rows [OF this assms(2), of off t w r] show "returns (case collect_server_metrics protocol s t w r off of
      (Inl x, _) \<Rightarrow> raise x | (Inr rows, new_offset) \<Rightarrow> ret (rows, new_offset))"
    by (auto simp: collect_server_metrics_def intro: completes_ret simp del: ret_simp)
qed

lemma completes_save_server_table: "answering e \<Longrightarrow> returns (save_csv e dir name (server_table protocol as rows))"
  by (rule returns_save_csv) (auto intro: alignedI server_table_columns)

lemma finish_test:
  assumes "answering e" and "protocol \<in> set MN_NAMES" and "aligned rows" and "rows \<noteq> []"
  shows "completes (andthen (save_csv e dir name rows) (\<lambda>_.
      andthen (collect_server e protocol off t w r) (\<lambda>(server_rows, new_offset).
      andthen (save_csv e dir server_name (server_table protocol as server_rows)) (\<lambda>_. ret new_offset))))
      (\<lambda>_. True) {dir @ ''/'' @ name}"
proof -
  have "returns (andthen (collect_server e protocol off t w r) (\<lambda>(server_rows, new_offset).
      andthen (save_csv e dir server_name (server_table protocol as server_rows)) (\<lambda>_. ret new_offset)))"
    by (intro completes_seq [OF completes_collect_server [OF assms(1,2)]] completes_case_prod
        completes_seq [OF completes_save_server_table [OF assms(1)]] completes_ret TrueI)
  from completes_andthen [OF completes_save_csv [OF assms(1,3), of dir name] this] assms(4) show ?thesis by simp
qed

definition result_file :: "mn_args \<Rightarrow> string \<Rightarrow> string \<Rightarrow> string" where
  "result_file args protocol test = ma_results_dir args @ ''/'' @ protocol @
     (if test = ''1'' then ''_test1_concurrent.csv'' else if test = ''2'' then ''_test2_sequential.csv'' else ''_test3_high_load.csv'')"

lemma completes_test_1:
  assumes "answering e" and "protocol \<in> set MN_NAMES" and "as \<noteq> []"
  shows "completes (test_1 e args protocol bin as off) (\<lambda>_. True) {result_file args protocol ''1''}"
  unfolding test_1_def
proof (rule completes_seq [OF completes_run_batch [OF assms(1,2)]])
  fix rows :: "row list" assume "length rows = length as \<and> (\<forall>x \<in> set rows. map fst x = BATCH_COLUMNS)"
  with assms(3) have "aligned rows" "rows \<noteq> []" by (auto intro: alignedI)
  from finish_test [OF assms(1,2) this] show "completes (andthen (save_csv e (ma_results_dir args) (protocol @ ''_test1_concurrent.csv'') rows) (\<lambda>_.
      andthen (collect_server e protocol off ''1'' ''concurrent'' 1) (\<lambda>(server_rows, new_offset).
      andthen (save_csv e (ma_results_dir args) (protocol @ ''_test1_concurrent_server.csv'') (server_table protocol as server_rows)) (\<lambda>_.
        ret new_offset)))) (\<lambda>_. True) {result_file args protocol ''1''}"
    by (simp add: result_file_def)
qed

lemma completes_test_2:
  assumes "answering e" and "protocol \<in> set MN_NAMES" and "as \<noteq> []" and "\<forall>a \<in> set as. a_client_host a \<noteq> ''server''"
    and "0 < ma_iterations args"
  shows "completes (test_2 e args renv protocol bin as off) (\<lambda>_. True) {result_file args protocol ''2''}"
proof -
  obtain a as' where as: "as = a # as'" using assms(3) by (cases as) auto
  with assms(4) have host: "a_client_host a \<noteq> ''server''" by simp
  have finish: "completes (andthen (save_csv e (ma_results_dir args) (protocol @ ''_test2_sequential.csv'') rows) (\<lambda>_.
      andthen (collect_server e protocol off ''2'' ''sequential'' 1) (\<lambda>(server_rows, new_offset).
      andthen (save_csv e (ma_results_dir args) (protocol @ ''_test2_sequential_server.csv'') (server_table protocol as server_rows)) (\<lambda>_.
        ret new_offset)))) (\<lambda>_. True) {result_file args protocol ''2''}"
    if "length rows = ma_iterations args \<and> aligned rows" for rows
  proof -
    have "aligned rows" "rows \<noteq> []" using that assms(5) by auto
    from finish_test [OF assms(1,2) this, of "ma_results_dir args" "protocol @ ''_test2_sequential.csv''"]
    show ?thesis by (simp add: result_file_def)
  qed
  show ?thesis unfolding test_2_def as list.case
    by (rule completes_seq [OF completes_run_sequential [OF assms(1,2) host]]) (rule finish [unfolded as])
qed

lemma completes_test_3_rounds:
  assumes "answering e" and "protocol \<in> set MN_NAMES" and "as \<noteq> []"
  shows "completes (test_3_rounds e protocol bin as off rs) (\<lambda>(rows, srows).
      (rs \<noteq> [] \<longrightarrow> rows \<noteq> []) \<and> (\<forall>x \<in> set rows. map fst x = BATCH_COLUMNS) \<and> (\<forall>x \<in> set srows. map fst x = SERVER_COLUMNS protocol)) {}"
proof (induction rs arbitrary: off)
  case Nil
  show ?case unfolding test_3_rounds.simps by (rule completes_ret) simp
next
  case (Cons r rs)
  show ?case unfolding test_3_rounds.simps
    by (rule completes_seq [OF completes_run_batch [OF assms(1,2)]],
        rule completes_seq [OF completes_collect_server [OF assms(1,2)]], rule completes_case_prod,
        rule completes_seq [OF Cons.IH], rule completes_case_prod, rule completes_ret)
      (use assms(3) in \<open>auto dest: server_table_columns\<close>)
qed

lemma completes_test_3:
  assumes "answering e" and "protocol \<in> set MN_NAMES" and "as \<noteq> []" and "0 < ma_iterations args"
  shows "completes (test_3 e args protocol bin as off) (\<lambda>_. True) {result_file args protocol ''3''}"
  unfolding test_3_def
proof (rule completes_seq [OF completes_test_3_rounds [OF assms(1-3)]], rule completes_case_prod)
  fix x and rows srows :: "row list"
  assume q: "case x of (rows, srows) \<Rightarrow> ([1..<ma_iterations args + 1] \<noteq> [] \<longrightarrow> rows \<noteq> [])
      \<and> (\<forall>x \<in> set rows. map fst x = BATCH_COLUMNS) \<and> (\<forall>x \<in> set srows. map fst x = SERVER_COLUMNS protocol)" and x: "x = (rows, srows)"
  have "aligned rows" "rows \<noteq> []" "aligned srows" using q x assms(4) by (auto intro: alignedI simp del: upt_Suc)
  from completes_andthen [OF completes_save_csv [OF assms(1) this(1)] returns_save_csv [OF assms(1) this(3)]] this(2)
  show "completes (andthen (save_csv e (ma_results_dir args) (protocol @ ''_test3_high_load.csv'') rows) (\<lambda>_.
      save_csv e (ma_results_dir args) (protocol @ ''_test3_high_load_server.csv'') srows)) (\<lambda>_. True) {result_file args protocol ''3''}"
    by (simp add: result_file_def)
qed

section \<open>Enrollment returns\<close>

definition on_clients :: "assignment list \<Rightarrow> bool" where
  "on_clients as \<longleftrightarrow> as \<noteq> [] \<and> (\<forall>a \<in> set as. a_client_host a \<noteq> ''server'')"

lemma on_clients_hosts: "map a_client_host as' = map a_client_host as \<Longrightarrow> on_clients as \<Longrightarrow> on_clients as'"
  unfolding on_clients_def by (metis (no_types, lifting) list.map_disc_iff list.set_map image_iff)

lemma completes_enroll_on_host:
  assumes "answering e" and "a_client_host a \<noteq> ''server''"
  shows "completes (enroll_on_host e cfg bin pub a) (\<lambda>a'. a_client_host a' \<noteq> ''server'') {}"
proof -
  have pin: "returns (from_res (pin_result t a))" if "client_answer t" for t
    using that by (intro completes_from_res) (auto simp: client_answer_def pin_result_def)
  have set_up: "completes (from_res (setup_result t elapsed a)) (\<lambda>a'. a_client_host a' \<noteq> ''server'') {}" if t: "client_answer t" for t elapsed
  proof -
    obtain a' where "setup_result t elapsed a = Inr a'" "a_client_host a' = a_client_host a"
      using t by (auto simp: client_answer_def setup_result_def)
    then show ?thesis using assms(2) by (intro completes_from_res [of _ a']) simp_all
  qed
  show ?thesis unfolding enroll_on_host_def
    by (rule completes_seq [OF completes_ask [OF assms(1)]],
        rule completes_seq [OF pin], use assms(2) in \<open>simp add: answers_to_def\<close>,
        rule completes_seq [OF completes_timed_cmd [OF assms]], rule completes_case_prod, rule set_up)
      simp
qed

lemma completes_poll_setup: "answering e \<Longrightarrow> returns (poll_setup e n start expected rows)"
proof (induction n arbitrary: rows)
  case 0
  show ?case unfolding poll_setup.simps by (rule completes_ret) simp
next
  case (Suc n)
  have zk: "''zkarche'' \<in> set MN_NAMES" by (simp add: MN_NAMES_def)
  have "returns (andthen (from_res (parse_server_metrics_log ''zkarche'' t start ''setup'' ''setup'' 0)) (\<lambda>(rows', _).
       if expected \<le> length rows' then ret rows' else poll_setup e n start expected rows'))" if "log_answer t" for t
  proof -
    from log_rows [OF that zk] obtain rows' k where
      r: "parse_server_metrics_log ''zkarche'' t start ''setup'' ''setup'' 0 = Inr (rows', k)" by blast
    show ?thesis by (rule completes_seq [OF completes_from_res [OF r TrueI]], rule completes_case_prod)
      (simp add: Suc.IH [OF Suc.prems] completes_ret del: ret_simp)
  qed
  then show ?case unfolding poll_setup.simps by (rule completes_seq [OF completes_read_log [OF Suc.prems]])
qed

lemma store_rows_hosts: "map a_client_host (fold store_setup_row rows as) = map a_client_host as"
  by (rule map_store_rows) simp

lemma completes_enroll_all:
  assumes "answering e" and "on_clients as"
  shows "completes (enroll_all e sb cb workdir as) on_clients {}"
proof -
  have zk: "''zkarche'' \<in> set MN_NAMES" by (simp add: MN_NAMES_def)
  obtain cfg where cfg: "mn_protocol_of ''zkarche'' = Inr cfg" using known_protocol [OF zk] by blast
  have key: "completes (run_local e (shlex_quote sb @ '' --print-pubkey'') dir) (\<lambda>out. \<exists>pub. server_pubkey out = Inr pub) {}" for dir
    by (rule completes_weaken [OF completes_run_local [OF assms(1)]]) simp_all
  have hosts: "completes (map_eff (enroll_on_host e cfg cb pub) as)
      (\<lambda>as'. length as' = length as \<and> (\<forall>a' \<in> set as'. a_client_host a' \<noteq> ''server'')) {}" for pub
    using assms(2) by (intro completes_map_eff completes_enroll_on_host assms(1)) (simp add: on_clients_def)
  have fin: "on_clients (fold store_setup_row rows as')"
    if "length as' = length as \<and> (\<forall>a' \<in> set as'. a_client_host a' \<noteq> ''server'')" for rows as'
    using that assms(2) by (intro on_clients_hosts [OF store_rows_hosts]) (auto simp: on_clients_def)
  have rest: "completes (andthen (from_res (server_pubkey out)) (\<lambda>pub. andthen (read_log e ''zkarche'') (\<lambda>before.
      andthen (map_eff (enroll_on_host e cfg cb pub) as) (\<lambda>as'.
      andthen (poll_setup e 20 (length (splitlines before)) (length as) []) (\<lambda>rows. ret (fold store_setup_row rows as')))))) on_clients {}"
    if "\<exists>pub. server_pubkey out = Inr pub" for out
    using that by (elim exE) (rule completes_seq [OF completes_from_res [where Q = "\<lambda>_. True"]], assumption, rule TrueI,
      rule completes_seq [OF completes_read_log [OF assms(1)]], rule completes_seq [OF hosts],
      rule completes_seq [OF completes_poll_setup [OF assms(1)]], rule completes_ret, rule fin, assumption)
  show ?thesis unfolding enroll_all_def
    by (rule completes_seq [OF completes_from_res [OF cfg, where Q = "\<lambda>c. c = cfg"]], rule refl, simp only:)
      (rule completes_seq [OF key], rule rest)
qed

section \<open>A protocol's run returns\<close>

definition result_files :: "mn_args \<Rightarrow> string \<Rightarrow> string set" where
  "result_files args protocol = result_file args protocol ` set (selected_tests args)"

lemma completes_launch_server:
  assumes "answering e" and "protocol \<in> set MN_NAMES"
  shows "returns (launch_server e protocol bin workdir)"
proof -
  obtain cfg where cfg: "mn_protocol_of protocol = Inr cfg" using known_protocol [OF assms(2)] by blast
  obtain cmd where cmd: "server_cmd protocol bin (workdir @ ''/server'') = Inr cmd" using commands_known(2) [OF assms(2)] by blast
  show ?thesis unfolding launch_server_def
    by (intro completes_seq [OF completes_from_res [OF cfg TrueI]] completes_seq [OF returns_tell [OF assms(1)]]
      completes_seq [OF completes_from_res [OF cmd TrueI]] returns_tell [OF assms(1)])
qed

text \<open>A test that may not be selected.\<close>

lemma completes_optional:
  "(t \<in> set ts \<Longrightarrow> completes m (\<lambda>_. True) {f t}) \<Longrightarrow>
     completes (if t \<in> set ts then m else ret x) (\<lambda>_. True) (f ` ({t} \<inter> set ts))"
  by (auto intro: completes_ret simp del: ret_simp)

lemma completes_workloads:
  assumes "answering e" and "protocol \<in> set MN_NAMES" and "on_clients as" and "0 < ma_iterations args"
    and "set (selected_tests args) \<subseteq> {''1'', ''2'', ''3''}"
  shows "completes (workloads e args renv protocol bins workdir as) (\<lambda>_. True) (result_files args protocol)"
proof -
  let ?f = "result_file args protocol" and ?ts = "selected_tests args"
  have enrolled: "completes (if protocol = ''zkarche'' then
          andthen (enroll_all e (fst bins) (snd bins) workdir as) (\<lambda>as'.
          andthen (read_log e protocol) (\<lambda>text. ret (as', length (splitlines text))))
        else ret (as, 0)) (\<lambda>(as, offset). on_clients as) {}"
    by (rule completes_if, rule completes_seq [OF completes_enroll_all [OF assms(1,3)]],
        rule completes_seq [OF completes_read_log [OF assms(1)]])
      (simp_all add: completes_ret assms(3) del: ret_simp)
  have files: "?f ` ({''1''} \<inter> set ?ts) \<union> (?f ` ({''2''} \<inter> set ?ts) \<union> ?f ` ({''3''} \<inter> set ?ts)) = result_files args protocol"
    using assms(5) by (auto simp: result_files_def)
  have tests: "completes (case x of (as, offset0) \<Rightarrow>
     andthen (if ''1'' \<in> set ?ts then test_1 e args protocol (snd bins) as offset0 else ret offset0) (\<lambda>offset1.
     andthen (if ''2'' \<in> set ?ts then test_2 e args renv protocol (snd bins) as offset1 else ret offset1) (\<lambda>offset2.
       if ''3'' \<in> set ?ts then test_3 e args protocol (snd bins) as offset2 else ret ()))) (\<lambda>_. True) (result_files args protocol)"
    if "case x of (as, offset0) \<Rightarrow> on_clients as" for x
  proof (rule completes_case_prod)
    fix as offset0 assume "x = (as, offset0)"
    then have as: "as \<noteq> []" "\<forall>a \<in> set as. a_client_host a \<noteq> ''server''" using that by (simp_all add: on_clients_def)
    show "completes (andthen (if ''1'' \<in> set ?ts then test_1 e args protocol (snd bins) as offset0 else ret offset0) (\<lambda>offset1.
     andthen (if ''2'' \<in> set ?ts then test_2 e args renv protocol (snd bins) as offset1 else ret offset1) (\<lambda>offset2.
       if ''3'' \<in> set ?ts then test_3 e args protocol (snd bins) as offset2 else ret ()))) (\<lambda>_. True) (result_files args protocol)"
      unfolding files [symmetric]
      by (intro completes_andthen [where P = "\<lambda>_. True"] completes_optional completes_test_1 completes_test_2 completes_test_3
        assms(1,2,4) as)
  qed
  show ?thesis unfolding workloads_def
    by (rule completes_seq [OF completes_launch_server [OF assms(1,2)]], rule completes_seq [OF enrolled], rule tests)
qed

lemma returns_stop_background: "answering e \<Longrightarrow> returns (stop_background_traffic e procs)"
proof -
  assume e: "answering e"
  have "returns (andthen (ask e (Poll p)) (\<lambda>a. if an_running a then tell e (KillProc p) else ret ()))" for p
    by (intro completes_seq [OF completes_ask [OF e]] completes_if returns_tell [OF e] completes_ret TrueI)
  then have "returns (for_each (\<lambda>p. attempt (andthen (ask e (Poll p)) (\<lambda>a. if an_running a then tell e (KillProc p) else ret ()))) procs)"
    by (intro completes_for_each completes_attempt)
  moreover have "returns (for_each (\<lambda>p. attempt (tell e (Terminate p))) procs)"
    by (intro completes_for_each completes_attempt [where Q = "\<lambda>_. True"] returns_tell [OF e])
  ultimately show ?thesis unfolding stop_background_traffic_def by (intro completes_seq)
qed

lemma returns_clean_up: "answering e \<Longrightarrow> returns (clean_up e cfg procs)"
  unfolding clean_up_def stop_network_def
  by (rule completes_seq [OF completes_attempt [OF returns_stop_background]], assumption,
      rule completes_seq [OF completes_attempt [OF returns_tell]], assumption, rule returns_tell)

lemma returns_start_traffic: "answering e \<Longrightarrow> returns (start_traffic e flows)"
  unfolding start_traffic_def launch_flows_def
  by (rule completes_seq [OF returns_tell], assumption, rule completes_weaken [OF completes_map_eff [where Q = "\<lambda>_. True"]])
    (auto intro: completes_case_prod completes_popen)

lemma completes_on_network:
  assumes "answering e" and "completes (workloads e args renv protocol bins workdir as) (\<lambda>_. True) F"
  shows "completes (on_network e args renv protocol bins workdir cfg flows as) (\<lambda>_. True) F"
proof -
  have on: "on_network e args renv protocol bins workdir cfg flows as h
      = andthen (start_traffic e flows) (\<lambda>procs. try_finally (workloads e args renv protocol bins workdir as) (clean_up e cfg procs)) h" for h
  proof -
    have "\<exists>procs h1. start_traffic e flows h = (Inr procs, h1)"
      using returns_start_traffic [OF assms(1), of flows] unfolding completes_def by blast
    then show ?thesis by (auto simp: on_network_def andthen_def)
  qed
  have "completes (andthen (start_traffic e flows)
      (\<lambda>procs. try_finally (workloads e args renv protocol bins workdir as) (clean_up e cfg procs))) (\<lambda>_. True) F"
    by (rule completes_seq [OF returns_start_traffic [OF assms(1)]])
      (intro completes_finally assms(2) returns_clean_up assms(1))
  then show ?thesis unfolding completes_def on .
qed

text \<open>Whatever the generator draws, the clients and the network can be built.\<close>

lemma assign_one_returns:
  "1 \<le> i \<Longrightarrow> \<exists>a g'. assign_one dir mix gc i g = (Inr a, g') \<and> a_client_host a = ''pi'' @ show_nat i
     \<and> a_gateway_index a = (i - 1) mod max 1 (nat gc) + 1"
proof -
  assume i: "1 \<le> i"
  obtain d g1 where d: "weighted_random_device mix g = (d, g1)" by fastforce
  let ?ws = "map (\<lambda>(n, p). (n, lp_weight p)) (selected_device_profiles mix)"
  have "?ws \<noteq> []" using selected_profiles_nonempty by simp
  from pick_weighted_mem [OF this] have "d \<in> fst ` set ?ws"
    using d by (auto simp: weighted_random_device_def Let_def draw_def)
  then have "d \<in> fst ` set (selected_device_profiles mix)" by force
  then obtain p where "map_of (selected_device_profiles mix) d = Some p" using weak_map_of_SomeI by fastforce
  then show ?thesis using d gateway_index_nat [OF i, of gc]
    by (simp add: assign_one_def Let_def split: prod.split)
qed

lemma assign_from_returns:
  "1 \<le> i \<Longrightarrow> \<exists>as g'. assign_from dir mix gc i n g = (Inr as, g') \<and> length as = n
     \<and> (\<forall>a \<in> set as. a_client_host a \<noteq> ''server'' \<and> (1 \<le> gc \<longrightarrow> a_gateway_index a - 1 < nat gc))"
proof (induction n arbitrary: i g)
  case (Suc n)
  from assign_one_returns [OF Suc.prems, of dir mix gc g] obtain a g1 where a: "assign_one dir mix gc i g = (Inr a, g1)"
    "a_client_host a = ''pi'' @ show_nat i" "a_gateway_index a = (i - 1) mod max 1 (nat gc) + 1" by blast
  have gw: "a_gateway_index a - 1 < nat gc" if "1 \<le> gc"
  proof -
    have "max 1 (nat gc) = nat gc" "0 < nat gc" using that by simp_all
    then show ?thesis by (simp only: a(3)) simp
  qed
  obtain as g2 where as: "assign_from dir mix gc (Suc i) n g1 = (Inr as, g2)" "length as = n"
    "\<forall>a \<in> set as. a_client_host a \<noteq> ''server'' \<and> (1 \<le> gc \<longrightarrow> a_gateway_index a - 1 < nat gc)" using Suc.IH [of "Suc i" g1] by auto
  have "assign_from dir mix gc i (Suc n) g = (Inr (a # as), g2)" using a(1) as(1) by (simp add: andthen_Inr)
  then show ?case using as a(2) gw by (intro exI [of _ "a # as"] exI [of _ g2]) simp
qed simp

lemma add_clients_returns:
  "\<forall>a \<in> set as. a_gateway_index a - 1 < length edges \<Longrightarrow> \<exists>net'. add_clients edges as net = Inr net'"
  by (induction as arbitrary: net) simp_all

lemma add_background_returns: "edges \<noteq> [] \<Longrightarrow> \<exists>r. add_background edges i n (net, g) = Inr r"
  by (induction n arbitrary: i net g) (simp_all add: Let_def split: prod.split)

lemma build_network_returns:
  assumes "\<forall>a \<in> set as. 1 \<le> gc \<longrightarrow> a_gateway_index a - 1 < nat gc" and "model = ''simple'' \<or> 1 \<le> gc"
  shows "\<exists>net g'. build_network model gc bg as g = Inr (net, g')"
proof (cases "model = ''simple''")
  case True
  then show ?thesis by (simp add: build_network_def)
next
  case False
  let ?edges = "map edge_name [1..<nat gc + 1]"
  have gc: "1 \<le> gc" using assms(2) False by simp
  obtain net1 g1 where e: "add_edges [1..<nat gc + 1] (multi_tier_core, g) = (net1, g1)" by fastforce
  have "\<forall>a \<in> set as. a_gateway_index a - 1 < length ?edges" using assms(1) gc by (simp del: upt_Suc)
  then obtain net2 where c: "add_clients ?edges as net1 = Inr net2" using add_clients_returns by blast
  have "?edges \<noteq> []" using gc by simp
  then obtain r where "add_background ?edges 1 bg (net2, g1) = Inr r" using add_background_returns by blast
  then show ?thesis using False e c by (cases r) (simp add: build_network_def Let_def)
qed

lemma returns_copy_certs:
  assumes "answering e" and "protocol \<in> set MN_NAMES"
  shows "returns (copy_certs_if_needed e project protocol workdir as)"
proof -
  obtain cfg where cfg: "mn_protocol_of protocol = Inr cfg" using known_protocol [OF assms(2)] by blast
  show ?thesis unfolding copy_certs_if_needed_def
    by (intro completes_seq [OF completes_from_res [OF cfg TrueI]] completes_if completes_ret TrueI
      completes_seq [OF returns_tell [OF assms(1)]] completes_for_each returns_tell [OF assms(1)])
qed

lemma returns_mtls_allowlist:
  assumes "answering e"
  shows "returns (prepare_mtls_authorized_clients e project workdir)"
proof -
  have "returns (cert_fingerprint e p)" for p
    unfolding cert_fingerprint_def
    by (rule completes_seq [OF completes_ask [OF assms]]) (simp add: answers_to_def completes_ret del: ret_simp)
  then show ?thesis unfolding prepare_mtls_authorized_clients_def
    by (intro completes_seq [where P = "\<lambda>_. True"] returns_tell [OF assms] completes_ret TrueI)
qed

definition runnable_args :: "mn_args \<Rightarrow> bool" where
  "runnable_args args \<longleftrightarrow> accepted_args args \<and> 0 < ma_clients args \<and> 0 < ma_iterations args
     \<and> (ma_network_model args = ''simple'' \<or> 1 \<le> ma_gateway_count args)"

lemma completes_run_protocol:
  assumes "answering e" and "protocol \<in> set MN_NAMES" and "runnable_args args"
  shows "completes (run_protocol_tests e args renv project protocol bins g) (\<lambda>_. True) (result_files args protocol)"
proof -
  obtain cfg where cfg: "mn_protocol_of protocol = Inr cfg" using known_protocol [OF assms(2)] by blast
  let ?dir = "ma_workdir args @ ''/'' @ protocol"
  obtain as g1 where as: "make_assignments (ma_clients args) (?dir @ ''/clients'') (ma_device_mix args) (ma_gateway_count args) g = (Inr as, g1)"
      "length as = ma_clients args" "\<forall>a \<in> set as. a_client_host a \<noteq> ''server''
        \<and> (1 \<le> ma_gateway_count args \<longrightarrow> a_gateway_index a - 1 < nat (ma_gateway_count args))"
    using assign_from_returns [of 1 "?dir @ ''/clients''" "ma_device_mix args" "ma_gateway_count args" "ma_clients args" g]
    unfolding make_assignments_def by auto
  have "on_clients as" "0 < ma_iterations args" using as assms(3) by (auto simp: on_clients_def runnable_args_def)
  moreover have "set (selected_tests args) \<subseteq> {''1'', ''2'', ''3''}"
    using assms(3) by (auto simp: runnable_args_def accepted_args_def selected_tests_def)
  ultimately have on: "completes (on_network e args renv protocol bins ?dir cfg flows as) (\<lambda>_. True) (result_files args protocol)" for flows
    by (intro completes_on_network completes_workloads assms(1,2))
  obtain net g2 where net: "build_network (ma_network_model args) (ma_gateway_count args) (ma_background_hosts args) as g1 = Inr (net, g2)"
    using build_network_returns [of as "ma_gateway_count args" "ma_network_model args" "ma_background_hosts args" g1] as(3) assms(3)
    by (auto simp: runnable_args_def)
  obtain flows g3 where bg: "start_background_traffic (ma_background_traffic args) (n_background_hosts net) g2 = (flows, g3)" by fastforce
  have last: "completes (andthen (on_network e args renv protocol bins ?dir cfg flows as) (\<lambda>_. ret g3)) (\<lambda>_. True) (result_files args protocol)"
    using completes_andthen [OF on completes_ret [where Q = "\<lambda>_. True", OF TrueI]] by (simp only: Un_empty_right)
  have mtls: "returns (if protocol = ''mtls'' then andthen (prepare_mtls_authorized_clients e project ?dir) (\<lambda>_. ret ()) else ret ())"
    by (intro completes_if completes_seq [OF returns_mtls_allowlist [OF assms(1)]] completes_ret TrueI)
  have wipe: "returns (if there then tell e (RemoveTree ?dir) else ret ())" for there
    by (intro completes_if returns_tell [OF assms(1)] completes_ret TrueI)
  have rest: "completes (andthen (for_each (\<lambda>a. tell e (MakeDir (a_client_workdir a))) as) (\<lambda>_.
     andthen (copy_certs_if_needed e project protocol ?dir as) (\<lambda>_.
     andthen (if protocol = ''mtls'' then andthen (prepare_mtls_authorized_clients e project ?dir) (\<lambda>_. ret ()) else ret ()) (\<lambda>_.
     andthen (from_res (Inr (net, g2))) (\<lambda>(net, g2).
     case start_background_traffic (ma_background_traffic args) (n_background_hosts net) g2 of (flows, g3) \<Rightarrow>
     andthen (on_network e args renv protocol bins ?dir cfg flows as) (\<lambda>_. ret g3)))))) (\<lambda>_. True) (result_files args protocol)"
    by (rule completes_seq [OF completes_for_each [OF returns_tell [OF assms(1)]]],
        rule completes_seq [OF returns_copy_certs [OF assms(1,2)]], rule completes_seq [OF mtls],
        rule completes_seq [OF completes_from_res [where x = "(net, g2)" and Q = "\<lambda>p. p = (net, g2)"]],
        rule refl, rule refl)
      (simp only: prod.case bg last)
  show ?thesis
    unfolding run_protocol_tests_def Let_def
    by (rule completes_seq [OF completes_from_res [OF cfg, where Q = "\<lambda>c. c = cfg"]], rule refl,
        rule completes_seq [OF completes_exists [OF assms(1)]], rule completes_seq [OF wipe],
        rule completes_seq [OF returns_tell [OF assms(1)]], rule completes_seq [OF returns_tell [OF assms(1)]])
      (use as(1) net rest in simp)
qed

section \<open>The program returns\<close>

lemma returns_prepare:
  assumes "answering e" and "set ps \<subseteq> set MN_NAMES"
  shows "completes (prepare_project e project ps) (\<lambda>bins. length bins = length ps) {}"
proof -
  have run: "returns (run_local e cmd cwd)" for cmd cwd by (rule completes_weaken [OF completes_run_local [OF assms(1)]]) simp_all
  have missing: "returns (missing_file e dir ns)" for dir ns
    by (rule completesI) (simp add: missing_file_result)
  have certs: "returns (certs_missing e dir)" for dir
    unfolding certs_missing_def
    by (intro completes_seq [OF completes_exists [OF assms(1)]] completes_if missing completes_ret TrueI)
  have bins: "returns (protocol_bins e project p)" if "p \<in> set ps" for p
  proof -
    have "p \<in> set MN_NAMES" using assms(2) that by blast
    then obtain cfg where cfg: "mn_protocol_of p = Inr cfg" using known_protocol by blast
    show ?thesis unfolding protocol_bins_def Let_def
      by (intro completes_seq [OF completes_from_res [OF cfg TrueI]] completes_seq [OF completes_exists [OF assms(1)]])
        (simp add: completes_ret completes_seq [OF completes_exists [OF assms(1)]] del: ret_simp)
  qed
  have gen: "returns (if ''mtls'' \<in> set ps then
      andthen (certs_missing e (project @ ''/certs'')) (\<lambda>missing.
        if missing then andthen (run_local e ''bash scripts/gen_certs.sh'' project) (\<lambda>_. ret ()) else ret ()) else ret ())"
    by (intro completes_if completes_seq [OF certs] completes_seq [OF run] completes_ret TrueI)
  have all: "completes (map_eff (protocol_bins e project) ps) (\<lambda>bins. length bins = length ps) {}"
    by (rule completes_weaken [OF completes_map_eff [OF bins]]) simp_all
  show ?thesis unfolding prepare_project_def
    by (rule completes_seq [OF completes_exists [OF assms(1)]])
      (simp add: completes_seq [OF gen] completes_seq [OF run] all)
qed

lemma completes_run_protocols:
  assumes "answering e" and "runnable_args args"
  shows "fst ` set ps \<subseteq> set MN_NAMES \<Longrightarrow>
    completes (run_protocols e args renv project ps g) (\<lambda>_. True) (\<Union>p \<in> fst ` set ps. result_files args p)"
proof (induction ps arbitrary: g)
  case Nil
  then show ?case by (simp add: completes_ret del: ret_simp)
next
  case (Cons x ps)
  obtain p bins where x: "x = (p, bins)" by (cases x)
  from Cons.prems x have p: "p \<in> set MN_NAMES" and ps: "fst ` set ps \<subseteq> set MN_NAMES" by auto
  have "completes (andthen (run_protocol_tests e args renv project p bins g) (run_protocols e args renv project ps)) (\<lambda>_. True)
      (result_files args p \<union> (\<Union>p \<in> fst ` set ps. result_files args p))"
    by (intro completes_andthen [OF completes_run_protocol [OF assms(1) p assms(2)]] Cons.IH ps)
  then show ?case by (simp add: x)
qed

definition selected_protocols :: "mn_args \<Rightarrow> string list" where
  "selected_protocols args = (if ma_protocol args = ''all'' then MN_NAMES else [ma_protocol args])"

text \<open>C8: On a testbed that answers, the combined program with at least one client, one iteration and, for the
  multi-tier network, one gateway returns 0, whatever the random generator draws, and it has then written the result
  file of every selected protocol and test.\<close>

theorem main_completes:
  assumes "answering e" and "runnable_args args"
  shows "\<exists>evs. mininet_main e args environ h = (Inr 0, h @ evs)
    \<and> (\<forall>p \<in> set (selected_protocols args). \<forall>t \<in> set (selected_tests args).
         \<exists>table. WriteFile (result_file args p t) table \<in> set evs)"
proof -
  let ?ps = "selected_protocols args"
  have ps: "set ?ps \<subseteq> set MN_NAMES"
    using assms(2) by (auto simp: selected_protocols_def runnable_args_def accepted_args_def MN_NAMES_def)
  have run: "completes (run_protocols e args renv project (zip ?ps bins) g) (\<lambda>_. True) (\<Union>p \<in> set ?ps. result_files args p)"
    if "length bins = length ?ps" for renv project bins g
  proof -
    have "map fst (zip ?ps bins) = ?ps" using that by simp
    then have "fst ` set (zip ?ps bins) = set ?ps" by (metis list.set_map)
    with completes_run_protocols [OF assms, of "zip ?ps bins"] ps show ?thesis by simp
  qed
  have then_ret: "completes (andthen m (\<lambda>_. ret 0)) (\<lambda>x. x = (0::int)) F" if "completes m (\<lambda>_. True) F" for m :: "(history, unit) eff" and F
    using completes_andthen [OF that completes_ret [where x = "0::int" and Q = "\<lambda>x. x = 0", OF refl]] by (simp only: Un_empty_right)
  have "completes (mininet_main e args environ) (\<lambda>x. x = 0) (\<Union>p \<in> set ?ps. result_files args p)"
    unfolding mininet_main_def Let_def MN_NAMES_def [symmetric] selected_protocols_def [symmetric]
    by (rule completes_seq [OF returns_prepare [OF assms(1) ps]], rule then_ret, erule run)
  then have "\<exists>x evs. mininet_main e args environ h = (Inr x, h @ evs) \<and> x = 0
      \<and> (\<forall>f \<in> \<Union>p \<in> set ?ps. result_files args p. \<exists>t. WriteFile f t \<in> set evs)" unfolding completes_def by (rule spec)
  then show ?thesis unfolding result_files_def by auto
qed

lemma enroll_env_answers: "answering enroll_env"
proof -
  have "host_cmd_with_status ''__RC_0__'' = Inr (0, [])" by code_simp
  then have "client_answer ''__RC_0__''" by (simp add: client_answer_def no_output parse_all_client_metrics_def)
  moreover have "server_pubkey (strip demo_key) = Inr demo_key" by code_simp
  ultimately show ?thesis
    by (auto simp: answering_def enroll_env_def quiet_env_def quiet_answer_def answers_to_def log_answer_def process_answer_def
      no_output split: tb_event.split)
qed

lemma main_completes_witness:
  "\<exists>evs table. mininet_main enroll_env (default_args ''/p'') (\<lambda>_. None) [] = (Inr 0, evs)
    \<and> WriteFile ''results/mininet/zkarche_test3_high_load.csv'' table \<in> set evs"
proof -
  have "runnable_args (default_args ''/p'')" by (simp add: runnable_args_def accepted_args_def default_args_def)
  from main_completes [OF enroll_env_answers this, of "\<lambda>_. None" "[]"] show ?thesis
    by (auto simp: selected_protocols_def selected_tests_def default_args_def result_file_def)
qed

end
