(* ===== verification/Hardware.thy ===== *)
theory Hardware
  imports Metrics
begin

text \<open>
  \<open>experiments/hardware/hardware_resource_benchmark.py\<close>: a command is run a number of times under
  \<open>/usr/bin/time\<close>, and each run gives one row of a table that is written as the runs end. What a run
  of the command does is a parameter; the table is kept as the values of its cells, so that the text of
  a float is left out, and so is what is printed.
\<close>

section \<open>The time file\<close>

record usage =
  us_cpu_user_s :: pyfloat
  us_cpu_system_s :: pyfloat
  us_peak_rss_mb :: pyfloat

definition no_usage :: usage where
  "no_usage = \<lparr>us_cpu_user_s = Fin 0, us_cpu_system_s = Fin 0, us_peak_rss_mb = Fin 0\<rparr>"

definition float_res :: "string \<Rightarrow> pyfloat res" where
  "float_res s = (case py_float s of
       Some x \<Rightarrow> Inr x
     | None \<Rightarrow> Inl (ValueError (''could not convert string to float: '' @ s)))"

text \<open>\<open>line.split("=", 1)[1]\<close>, for a line with an equals sign.\<close>

definition after_equals :: "string \<Rightarrow> string" where
  "after_equals line = snd (snd (partition_at (CHR ''='') line))"

definition usage_line :: "string \<Rightarrow> usage \<Rightarrow> usage res" where
  "usage_line line u =
     (if starts_with ''TIME_USER_S='' line
      then bind_res (float_res (after_equals line)) (\<lambda>x. Inr (u\<lparr>us_cpu_user_s := x\<rparr>))
      else if starts_with ''TIME_SYSTEM_S='' line
      then bind_res (float_res (after_equals line)) (\<lambda>x. Inr (u\<lparr>us_cpu_system_s := x\<rparr>))
      else if starts_with ''TIME_MAX_RSS_KB='' line
      then bind_res (float_res (after_equals line)) (\<lambda>kb. Inr (u\<lparr>us_peak_rss_mb := f_mul kb (Fin (1 / 1024))\<rparr>))
      else Inr u)"

fun usage_lines :: "string list \<Rightarrow> usage \<Rightarrow> usage res" where
  "usage_lines [] u = Inr u"
| "usage_lines (l # ls) u = bind_res (usage_line l u) (usage_lines ls)"

definition parse_time_file :: "string \<Rightarrow> usage res" where
  "parse_time_file text = usage_lines (splitlines text) no_usage"

text \<open>\<open>s[-max_len:]\<close> is the whole text when \<open>max_len\<close> is zero.\<close>

definition tail_text :: "string \<Rightarrow> nat \<Rightarrow> string" where
  "tail_text s max_len =
     (let t = replace_char (CHR 0x0A) '' | '' s in if max_len = 0 then t else last_n max_len t)"

section \<open>Runs and rows\<close>

record hw_args =
  ha_protocol :: string
  ha_role :: string
  ha_device :: string
  ha_server :: string
  ha_runs :: int
  ha_cmd :: string
  ha_power_mode :: string
  ha_fixed_power_watts :: "pyfloat option"

text \<open>What one run gives: the text of the time file and whether the file can be removed, the clock,
  the exit status and the outputs.\<close>

record hw_run =
  hr_time_text :: string
  hr_removable :: bool
  hr_start_epoch :: real
  hr_wall_s :: real
  hr_returncode :: int
  hr_stdout :: string
  hr_stderr :: string

datatype hw_cell = CInt int | CFloat pyfloat | CText string

definition HW_FIELDS :: "string list" where
  "HW_FIELDS = [''run'', ''protocol'', ''role'', ''device'', ''hostname'', ''server'', ''cmd'', ''status'', ''start_epoch'',
     ''wall_elapsed_ms'', ''cpu_user_s'', ''cpu_system_s'', ''cpu_total_s'', ''cpu_norm_percent'', ''peak_rss_mb'',
     ''avg_power_watts'', ''peak_power_watts'', ''energy_mj'', ''power_source'', ''returncode'', ''stdout_tail'', ''stderr_tail'']"

definition wrapped_time_cmd :: "string \<Rightarrow> string \<Rightarrow> string list" where
  "wrapped_time_cmd time_file cmd =
     [''/usr/bin/time'', ''-f'', ''TIME_USER_S=%U'' @ [CHR 0x0A] @ ''TIME_SYSTEM_S=%S'' @ [CHR 0x0A] @ ''TIME_MAX_RSS_KB=%M'',
      ''-o'', time_file, ''bash'', ''-lc'', cmd]"

definition cpu_percent :: "pyfloat \<Rightarrow> real \<Rightarrow> pyfloat" where
  "cpu_percent cpu_total wall_s = (if wall_s > 0 then f_mul (f_mul cpu_total (Fin (1 / wall_s))) (Fin 100) else Fin 0)"

text \<open>The power cells: empty texts, or the fixed power twice and the energy in millijoules.\<close>

definition power_cells :: "hw_args \<Rightarrow> real \<Rightarrow> (hw_cell \<times> hw_cell \<times> hw_cell) res" where
  "power_cells args wall_s =
     (if ha_power_mode args = ''fixed'' then
        (case ha_fixed_power_watts args of
           None \<Rightarrow> Inl (SystemExit ''--fixed-power-watts is required when --power-mode fixed'')
         | Some w \<Rightarrow> Inr (CFloat w, CFloat w, CFloat (f_mul (f_mul w (Fin wall_s)) (Fin 1000))))
      else Inr (CText [], CText [], CText []))"

definition hw_row :: "hw_args \<Rightarrow> string \<Rightarrow> int \<Rightarrow> hw_run \<Rightarrow> usage \<Rightarrow> hw_cell \<times> hw_cell \<times> hw_cell \<Rightarrow> (string \<times> hw_cell) list" where
  "hw_row args hostname i r u pw =
     (case pw of (avg_power, peak_power, energy_mj) \<Rightarrow>
      let cpu_total = f_add (us_cpu_user_s u) (us_cpu_system_s u) in
      [(''run'', CInt i), (''protocol'', CText (ha_protocol args)), (''role'', CText (ha_role args)),
       (''device'', CText (ha_device args)), (''hostname'', CText hostname), (''server'', CText (ha_server args)),
       (''cmd'', CText (ha_cmd args)), (''status'', CText (if hr_returncode r = 0 then ''SUCCESS'' else ''FAIL'')),
       (''start_epoch'', CFloat (Fin (hr_start_epoch r))), (''wall_elapsed_ms'', CFloat (Fin (hr_wall_s r * 1000))),
       (''cpu_user_s'', CFloat (us_cpu_user_s u)), (''cpu_system_s'', CFloat (us_cpu_system_s u)),
       (''cpu_total_s'', CFloat cpu_total), (''cpu_norm_percent'', CFloat (cpu_percent cpu_total (hr_wall_s r))),
       (''peak_rss_mb'', CFloat (us_peak_rss_mb u)), (''avg_power_watts'', avg_power), (''peak_power_watts'', peak_power),
       (''energy_mj'', energy_mj), (''power_source'', CText (ha_power_mode args)), (''returncode'', CInt (hr_returncode r)),
       (''stdout_tail'', CText (tail_text (hr_stdout r) 500)), (''stderr_tail'', CText (tail_text (hr_stderr r) 500))])"

section \<open>The benchmark\<close>

text \<open>The table as far as it was written, header first, the command lines run and the time files
  that exist.\<close>

record hw_state =
  hw_header :: "string list"
  hw_rows :: "(string \<times> hw_cell) list list"
  hw_commands :: "string list list"
  hw_temps :: "string list"

text \<open>\<open>subprocess.run\<close> may raise (when \<open>/usr/bin/time\<close> is missing): \<open>runs i\<close> is the \<open>i\<close>th
  outcome, with the name of the time file made before it.\<close>

definition hw_step :: "hw_args \<Rightarrow> string \<Rightarrow> (nat \<Rightarrow> string \<times> hw_run res) \<Rightarrow> nat \<Rightarrow> (hw_state, unit) eff" where
  "hw_step args hostname runs i =
     (let time_file = fst (runs i) in
      andthen (modify (\<lambda>s. s\<lparr>hw_temps := time_file # hw_temps s\<rparr>)) (\<lambda>_.
      andthen (modify (\<lambda>s. s\<lparr>hw_commands := hw_commands s @ [wrapped_time_cmd time_file (ha_cmd args)]\<rparr>)) (\<lambda>_.
      andthen (from_res (snd (runs i))) (\<lambda>r.
      andthen (from_res (parse_time_file (hr_time_text r))) (\<lambda>u.
      andthen (if hr_removable r then modify (\<lambda>s. s\<lparr>hw_temps := removeAll time_file (hw_temps s)\<rparr>) else ret ()) (\<lambda>_.
      andthen (from_res (power_cells args (hr_wall_s r))) (\<lambda>pw.
        modify (\<lambda>s. s\<lparr>hw_rows := hw_rows s @ [hw_row args hostname (int i) r u pw]\<rparr>))))))))"

text \<open>\<open>for i in range(first, first + n)\<close>.\<close>

fun hw_loop :: "hw_args \<Rightarrow> string \<Rightarrow> (nat \<Rightarrow> string \<times> hw_run res) \<Rightarrow> nat \<Rightarrow> nat \<Rightarrow> (hw_state, unit) eff" where
  "hw_loop args hostname runs i 0 = ret ()"
| "hw_loop args hostname runs i (Suc n) =
     andthen (hw_step args hostname runs i) (\<lambda>_. hw_loop args hostname runs (Suc i) n)"

definition hw_main :: "hw_args \<Rightarrow> string \<Rightarrow> (nat \<Rightarrow> string \<times> hw_run res) \<Rightarrow> (hw_state, unit) eff" where
  "hw_main args hostname runs =
     andthen (modify (\<lambda>s. s\<lparr>hw_header := HW_FIELDS, hw_rows := []\<rparr>)) (\<lambda>_.
       hw_loop args hostname runs 1 (nat (ha_runs args)))"

section \<open>What the table holds\<close>

text \<open>The row of run \<open>i\<close> alone, or the exception it ends with.\<close>

definition hw_result :: "hw_args \<Rightarrow> string \<Rightarrow> (nat \<Rightarrow> string \<times> hw_run res) \<Rightarrow> nat \<Rightarrow> (string \<times> hw_cell) list res" where
  "hw_result args hostname runs i =
     bind_res (snd (runs i)) (\<lambda>r.
     bind_res (parse_time_file (hr_time_text r)) (\<lambda>u.
     bind_res (power_cells args (hr_wall_s r)) (\<lambda>pw.
       Inr (hw_row args hostname (int i) r u pw))))"

definition hw_command :: "hw_args \<Rightarrow> (nat \<Rightarrow> string \<times> hw_run res) \<Rightarrow> nat \<Rightarrow> string list" where
  "hw_command args runs i = wrapped_time_cmd (fst (runs i)) (ha_cmd args)"

lemma hw_step_result:
  assumes "hw_step args hostname runs i s = (q, s')"
  shows "hw_header s' = hw_header s \<and> hw_commands s' = hw_commands s @ [hw_command args runs i]
    \<and> (case hw_result args hostname runs i of
         Inl x \<Rightarrow> q = Inl x \<and> hw_rows s' = hw_rows s
       | Inr row \<Rightarrow> q = Inr () \<and> hw_rows s' = hw_rows s @ [row])"
proof (cases "snd (runs i)")
  case (Inl x)
  then show ?thesis using assms by (auto simp: hw_step_def Let_def andthen_def hw_result_def hw_command_def)
next
  case (Inr r)
  then show ?thesis using assms
    by (cases "parse_time_file (hr_time_text r)"; cases "power_cells args (hr_wall_s r)"; cases "hr_removable r")
      (auto simp: hw_step_def Let_def andthen_def hw_result_def hw_command_def)
qed

lemma hw_loop_result:
  assumes "hw_loop args hostname runs i n s = (q, s')"
  shows "\<exists>k rows. hw_header s' = hw_header s \<and> hw_rows s' = hw_rows s @ rows
    \<and> map (hw_result args hostname runs) [i..<i + k] = map Inr rows
    \<and> (case q of
         Inr _ \<Rightarrow> k = n \<and> hw_commands s' = hw_commands s @ map (hw_command args runs) [i..<i + n]
       | Inl x \<Rightarrow> k < n \<and> hw_result args hostname runs (i + k) = Inl x
           \<and> hw_commands s' = hw_commands s @ map (hw_command args runs) [i..<i + k + 1])"
  using assms
proof (induction n arbitrary: i s)
  case 0
  then show ?case by (intro exI [of _ 0] exI [of _ "[]"]) auto
next
  case (Suc n)
  obtain q1 s1 where step: "hw_step args hostname runs i s = (q1, s1)" by fastforce
  note r = hw_step_result [OF step]
  show ?case
  proof (cases "hw_result args hostname runs i")
    case (Inl x)
    then have "q = Inl x" "s' = s1" "hw_rows s' = hw_rows s" "hw_header s' = hw_header s"
      "hw_commands s' = hw_commands s @ [hw_command args runs i]"
      using r Suc.prems step by (auto simp: andthen_def)
    then show ?thesis using Inl by (intro exI [of _ 0] exI [of _ "[]"]) auto
  next
    case (Inr row)
    then have "hw_loop args hostname runs (Suc i) n s1 = (q, s')" using r Suc.prems step by (auto simp: andthen_def)
    from Suc.IH [OF this] obtain k rows where k: "hw_header s' = hw_header s1" "hw_rows s' = hw_rows s1 @ rows"
      "map (hw_result args hostname runs) [Suc i..<Suc i + k] = map Inr rows"
      "case q of Inr _ \<Rightarrow> k = n \<and> hw_commands s' = hw_commands s1 @ map (hw_command args runs) [Suc i..<Suc i + n]
       | Inl x \<Rightarrow> k < n \<and> hw_result args hostname runs (Suc i + k) = Inl x
           \<and> hw_commands s' = hw_commands s1 @ map (hw_command args runs) [Suc i..<Suc i + k + 1]" by blast
    show ?thesis using k r Inr
      by (intro exI [of _ "Suc k"] exI [of _ "row # rows"])
        (auto simp: upt_conv_Cons [of i] simp del: upt_Suc split: sum.splits)
  qed
qed

text \<open>C33: the table is at every end the one of the runs before the first that failed: when the benchmark
  returns, it ran the command the asked number of times and wrote the header and one row per run, in order; when it raises,
  the exception is that of the first run that has no row, the rows before it are written, and no run
  after it was started.\<close>

theorem hw_table_until_failure:
  assumes "hw_main args hostname runs s = (q, s')"
  shows "hw_header s' = HW_FIELDS \<and> (\<exists>k. map (hw_result args hostname runs) [1..<k + 1] = map Inr (hw_rows s')
    \<and> (case q of
         Inr _ \<Rightarrow> k = nat (ha_runs args) \<and> hw_commands s' = hw_commands s @ map (hw_command args runs) [1..<k + 1]
       | Inl x \<Rightarrow> k < nat (ha_runs args) \<and> hw_result args hostname runs (k + 1) = Inl x
           \<and> hw_commands s' = hw_commands s @ map (hw_command args runs) [1..<k + 2]))"
proof -
  from assms have "hw_loop args hostname runs 1 (nat (ha_runs args)) (s\<lparr>hw_header := HW_FIELDS, hw_rows := []\<rparr>) = (q, s')"
    by (simp add: hw_main_def andthen_def)
  from hw_loop_result [OF this] show ?thesis
    by (auto simp del: upt_Suc split: sum.splits)
qed

text \<open>A row has the columns of the header; its status says whether the command exited with zero; for finite times
  and a positive wall time the processor share times the wall time is a hundred times the processor time, and the
  energy in fixed mode is the given power times the wall time in milliseconds.\<close>

lemma hw_row_arithmetic:
  assumes "hw_result args hostname runs i = Inr row" and "snd (runs i) = Inr r"
    and "parse_time_file (hr_time_text r) = Inr \<lparr>us_cpu_user_s = Fin a, us_cpu_system_s = Fin b, us_peak_rss_mb = Fin m\<rparr>"
  shows "map fst row = HW_FIELDS
    \<and> map_of row ''status'' = Some (CText (if hr_returncode r = 0 then ''SUCCESS'' else ''FAIL''))
    \<and> map_of row ''cpu_total_s'' = Some (CFloat (Fin (a + b)))
    \<and> (\<exists>p. map_of row ''cpu_norm_percent'' = Some (CFloat (Fin p))
         \<and> (if hr_wall_s r > 0 then p * hr_wall_s r = 100 * (a + b) else p = 0))
    \<and> (\<forall>w. ha_power_mode args = ''fixed'' \<and> ha_fixed_power_watts args = Some (Fin w) \<longrightarrow>
         map_of row ''energy_mj'' = Some (CFloat (Fin (w * (hr_wall_s r * 1000)))))"
proof -
  from assms obtain pw where pw: "power_cells args (hr_wall_s r) = Inr pw"
    and row: "row = hw_row args hostname (int i) r \<lparr>us_cpu_user_s = Fin a, us_cpu_system_s = Fin b, us_peak_rss_mb = Fin m\<rparr> pw"
    by (auto simp: hw_result_def bind_res_Inr_iff)
  obtain x y z where p: "pw = (x, y, z)" by (cases pw)
  have cols: "map fst row = HW_FIELDS" by (simp add: row p hw_row_def Let_def HW_FIELDS_def)
  have cells: "map_of row ''status'' = Some (CText (if hr_returncode r = 0 then ''SUCCESS'' else ''FAIL''))"
    "map_of row ''cpu_total_s'' = Some (CFloat (Fin (a + b)))"
    "map_of row ''cpu_norm_percent'' = Some (CFloat (cpu_percent (Fin (a + b)) (hr_wall_s r)))"
    "map_of row ''energy_mj'' = Some z"
    by (simp_all add: row p hw_row_def Let_def)
  have "\<exists>p. cpu_percent (Fin (a + b)) (hr_wall_s r) = Fin p \<and> (if hr_wall_s r > 0 then p * hr_wall_s r = 100 * (a + b) else p = 0)"
    by (simp add: cpu_percent_def)
  moreover have "z = CFloat (Fin (w * (hr_wall_s r * 1000)))"
    if "ha_power_mode args = ''fixed''" "ha_fixed_power_watts args = Some (Fin w)" for w
    using pw p that by (auto simp: power_cells_def)
  ultimately show ?thesis using cols cells by auto
qed

section \<open>Reading the time file\<close>

definition time_lines :: "string \<times> string \<Rightarrow> string \<times> string \<Rightarrow> nat \<Rightarrow> string list" where
  "time_lines user system kb = [''TIME_USER_S='' @ dec_text (fst user) (snd user),
     ''TIME_SYSTEM_S='' @ dec_text (fst system) (snd system), ''TIME_MAX_RSS_KB='' @ show_nat kb]"

definition not_time_line :: "string \<Rightarrow> bool" where
  "not_time_line l \<longleftrightarrow> line_text l \<and> \<not> starts_with ''TIME_USER_S='' l \<and> \<not> starts_with ''TIME_SYSTEM_S='' l
     \<and> \<not> starts_with ''TIME_MAX_RSS_KB='' l"

lemma usage_lines_append: "usage_lines (a @ b) u = bind_res (usage_lines a u) (usage_lines b)"
proof (induction a arbitrary: u)
  case (Cons l a)
  then show ?case by (cases "usage_line l u") auto
qed simp

lemma usage_lines_other: "\<forall>l \<in> set ls. not_time_line l \<Longrightarrow> usage_lines ls u = Inr u"
  by (induction ls) (simp_all add: usage_line_def not_time_line_def del: starts_with.simps)

lemma time_file_usage:
  assumes "is_decimal (fst user) (snd user)" and "is_decimal (fst system) (snd system)"
    and "\<forall>l \<in> set (before @ after). not_time_line l"
  shows "parse_time_file (unlines (before @ time_lines user system kb @ after))
    = Inr \<lparr>us_cpu_user_s = Fin (dec_value (fst user) (snd user)), us_cpu_system_s = Fin (dec_value (fst system) (snd system)),
        us_peak_rss_mb = Fin (real kb / 1024)\<rparr>"
proof -
  have number: "float_res (dec_text ip fp) = Inr (Fin (dec_value ip fp))" if "is_decimal ip fp" for ip fp
    using that py_float_dec [of ip fp] by (simp add: float_res_def is_decimal_def list_all_iff)
  have nat: "float_res (show_nat kb) = Inr (Fin (real kb))"
  proof -
    have "is_decimal (show_nat kb) []" using digits_show_nat [of kb] by (simp add: is_decimal_def list_all_iff)
    from number [OF this] show ?thesis by (simp add: dec_text_def dec_value_def)
  qed
  have digits: "line_text (dec_text ip fp)" if "is_decimal ip fp" for ip fp
    using that by (auto simp: is_decimal_def dec_text_def list_all_iff is_linebreak_def line_text_digits)
  have kb: "line_text (show_nat kb)" using digits_show_nat by (rule line_text_digits)
  have "\<forall>l \<in> set (before @ time_lines user system kb @ after). line_text l"
    using assms digits [OF assms(1)] digits [OF assms(2)] kb by (auto simp: time_lines_def not_time_line_def is_linebreak_def)
  from splitlines_unlines [OF this, of "[]"]
  have lines: "splitlines (unlines (before @ time_lines user system kb @ after)) = before @ time_lines user system kb @ after"
    by simp
  show ?thesis
    unfolding parse_time_file_def lines usage_lines_append
    using assms(3) number [OF assms(1)] number [OF assms(2)] nat
    by (simp add: usage_lines_other time_lines_def usage_line_def after_equals_def partition_at_def no_usage_def)
qed

text \<open>What \<open>/usr/bin/time\<close> writes is read back exactly, whatever other lines (such as its note on a non-zero
  exit status) stand before or after its three: the two times as the decimals printed, and the peak memory in
  mebibytes, whose multiple by 1024 is the printed number of kibibytes.\<close>

lemma time_file_read:
  assumes "is_decimal (fst user) (snd user)" and "is_decimal (fst system) (snd system)"
    and "\<forall>l \<in> set (before @ after). not_time_line l"
  shows "\<exists>u. parse_time_file (unlines (before @ time_lines user system kb @ after)) = Inr u
    \<and> us_cpu_user_s u = Fin (dec_value (fst user) (snd user)) \<and> us_cpu_system_s u = Fin (dec_value (fst system) (snd system))
    \<and> (\<exists>mb. us_peak_rss_mb u = Fin mb \<and> mb * 1024 = real kb)"
  using time_file_usage [OF assms, of kb] by (auto intro: exI [of _ "real kb / 1024"])

lemma time_file_read_witness:
  "\<exists>u. parse_time_file (unlines ([''Command exited with non-zero status 1''] @ time_lines (''0'', ''03'') (''1'', ''50'') 2048 @ [])) = Inr u
    \<and> us_cpu_system_s u = Fin (dec_value ''1'' ''50'')"
proof -
  have "is_decimal (fst (''0'', ''03'')) (snd (''0'', ''03''))" "is_decimal (fst (''1'', ''50'')) (snd (''1'', ''50''))"
    "\<forall>l \<in> set ([''Command exited with non-zero status 1''] @ []). not_time_line l"
    by (simp_all add: is_decimal_def not_time_line_def is_linebreak_def)
  from time_file_read [OF this, of 2048] show ?thesis by auto
qed

text \<open>The tail kept of an output is one line of at most the asked number of characters, and is the end of the output
  with its line feeds replaced.\<close>

lemma tail_text_bounds:
  shows "length (tail_text s (Suc n)) \<le> Suc n \<and> CHR 0x0A \<notin> set (tail_text s (Suc n))
    \<and> (\<exists>t. replace_char (CHR 0x0A) '' | '' s = t @ tail_text s (Suc n))"
proof -
  have "CHR 0x0A \<notin> set (replace_char (CHR 0x0A) '' | '' s)" by (auto simp: replace_char_def)
  then show ?thesis
    by (auto simp: tail_text_def Let_def length_last_n last_n_def dest: in_set_dropD
        intro: exI [of _ "take (length (replace_char (CHR 0x0A) '' | '' s) - Suc n) (replace_char (CHR 0x0A) '' | '' s)"])
qed

text \<open>A time file that cannot be read is not removed.\<close>

lemma unreadable_time_file_left:
  assumes "runs i = (f, Inr r)" and "parse_time_file (hr_time_text r) = Inl x"
  shows "hw_step args hostname runs i s = (Inl x, s\<lparr>hw_temps := f # hw_temps s,
    hw_commands := hw_commands s @ [wrapped_time_cmd f (ha_cmd args)]\<rparr>)"
  using assms by (simp add: hw_step_def andthen_def)

section \<open>Witnesses\<close>

definition demo_hw_args :: hw_args where
  "demo_hw_args = \<lparr>ha_protocol = ''edhoc'', ha_role = ''client'', ha_device = ''pi4'', ha_server = ''i7'', ha_runs = 2,
     ha_cmd = ''true'', ha_power_mode = ''fixed'', ha_fixed_power_watts = Some (Fin 3)\<rparr>"

definition demo_hw_run :: hw_run where
  "demo_hw_run = \<lparr>hr_time_text = unlines (time_lines (''0'', ''03'') (''1'', ''50'') 2048), hr_removable = True, hr_start_epoch = 0,
     hr_wall_s = 2, hr_returncode = 0, hr_stdout = [], hr_stderr = []\<rparr>"

text \<open>Two runs, of which the second cannot be started.\<close>

definition demo_hw_runs :: "nat \<Rightarrow> string \<times> hw_run res" where
  "demo_hw_runs i = (''/tmp/t'' @ show_nat i, if i = 1 then Inr demo_hw_run else Inl (FileNotFoundError ''/usr/bin/time''))"

lemma demo_time_text:
  "parse_time_file (hr_time_text demo_hw_run)
     = Inr \<lparr>us_cpu_user_s = Fin (3 / 100), us_cpu_system_s = Fin (150 / 100), us_peak_rss_mb = Fin 2\<rparr>"
proof -
  have "is_decimal (fst (''0'', ''03'')) (snd (''0'', ''03''))" "is_decimal (fst (''1'', ''50'')) (snd (''1'', ''50''))"
    "\<forall>l \<in> set ([] @ []). not_time_line l"
    by (simp_all add: is_decimal_def)
  from time_file_usage [OF this, of 2048] show ?thesis
    by (simp add: demo_hw_run_def dec_value_def digit_val_def)
qed

lemma hw_row_arithmetic_witness:
  "\<exists>row. hw_result demo_hw_args ''h'' demo_hw_runs 1 = Inr row
    \<and> map_of row ''energy_mj'' = Some (CFloat (Fin (3 * (2 * 1000))))"
proof -
  obtain row where row: "hw_result demo_hw_args ''h'' demo_hw_runs 1 = Inr row"
    by (simp add: hw_result_def demo_hw_runs_def demo_time_text power_cells_def demo_hw_args_def)
  have run: "snd (demo_hw_runs 1) = Inr demo_hw_run" by (simp add: demo_hw_runs_def)
  have "hr_wall_s demo_hw_run = 2" "ha_power_mode demo_hw_args = ''fixed''" "ha_fixed_power_watts demo_hw_args = Some (Fin 3)"
    by (simp_all add: demo_hw_run_def demo_hw_args_def)
  with hw_row_arithmetic [OF row run demo_time_text] row show ?thesis by auto
qed

lemma hw_table_until_failure_witness:
  "\<exists>q s'. hw_main demo_hw_args ''h'' demo_hw_runs \<lparr>hw_header = [], hw_rows = [], hw_commands = [], hw_temps = []\<rparr> = (q, s')
    \<and> hw_header s' = HW_FIELDS"
proof -
  obtain q s' where run: "hw_main demo_hw_args ''h'' demo_hw_runs
      \<lparr>hw_header = [], hw_rows = [], hw_commands = [], hw_temps = []\<rparr> = (q, s')" by fastforce
  from hw_table_until_failure [OF run] run show ?thesis by blast
qed

end
