(* ===== verification/PlotMain.thy ===== *)
theory PlotMain
  imports Driver
begin

text \<open>
  \<open>benchmarks/plot.py\<close> from the result files to the figures: the loader of the JSON summaries, the comparison
  table, \<open>collect\<close>, \<open>collect_multi\<close> and \<open>main\<close> with the eight \<open>.tex\<close> files it writes for one tree of results or
  for several. Shown here: what a run writes with \<open>write_summary_json\<close> is loaded as it was,
  and a tree of written results gives the figures of exactly these results; \<open>PlotPlatforms\<close> has several trees.
  The PNG previews are in \<open>PlotPreviews\<close>.
\<close>

section \<open>Loading\<close>

definition load_summary :: "string option \<Rightarrow> json option" where
  "load_summary file = (case file of None \<Rightarrow> None | Some text \<Rightarrow> json_loads (universal_newlines text))"

text \<open>\<open>s and s.get(k)\<close> needs a dictionary or something false.\<close>

definition summary_of :: "json option \<Rightarrow> summary option res" where
  "summary_of s = (case s of
       None \<Rightarrow> Inr None
     | Some (JObj kvs) \<Rightarrow> Inr (Some kvs)
     | Some v \<Rightarrow> if json_true v then Inl (AttributeError ''get'') else Inr None)"

section \<open>The comparison table\<close>

definition json_positive :: "json \<Rightarrow> bool res" where
  "json_positive v = (case v of
       JInt i \<Rightarrow> Inr (0 < i)
     | JNum x \<Rightarrow> Inr (f_lt (Fin 0) x)
     | JBool b \<Rightarrow> Inr b
     | _ \<Rightarrow> Inl (TypeError ''>''))"

text \<open>The least and greatest latency of one test, if it has successes.\<close>

definition latency_bounds :: "summary option \<Rightarrow> (pyfloat \<times> pyfloat) option res" where
  "latency_bounds s = (case s of
       None \<Rightarrow> Inr None
     | Some kvs \<Rightarrow> (case map_of kvs ''latency_ms'' of
         None \<Rightarrow> Inr None
       | Some l \<Rightarrow> if \<not> json_true l then Inr None
           else bind_res (json_item (JObj kvs) ''n_success'') (\<lambda>n.
                bind_res (json_positive n) (\<lambda>some.
                if \<not> some then Inr None
                else bind_res (bind_res (json_item l ''min'') json_float) (\<lambda>lo.
                     bind_res (bind_res (json_item l ''max'') json_float) (\<lambda>hi. Inr (Some (lo, hi))))))))"

definition f_min2 :: "pyfloat \<Rightarrow> pyfloat \<Rightarrow> pyfloat" where
  "f_min2 x y = (if f_lt y x then y else x)"

definition LATENCY_TESTS :: "string list" where
  "LATENCY_TESTS = [''test1_concurrent'', ''test2_sequential'', ''test3_highload'']"

definition range_text :: "(pyfloat \<times> pyfloat) list \<Rightarrow> string" where
  "range_text bounds = (case bounds of
       [] \<Rightarrow> ''n/a''
     | (lo, hi) # bs \<Rightarrow> format_fixed 2 (foldl f_min2 lo (map fst bs)) @ ''--'' @ format_fixed 2 (foldl f_max2 hi (map snd bs)))"

definition latency_cell :: "(string \<Rightarrow> json option) \<Rightarrow> string res" where
  "latency_cell by_test =
     bind_res (map_res (\<lambda>t. bind_res (summary_of (by_test t)) latency_bounds) LATENCY_TESTS) (\<lambda>bounds.
       Inr (range_text (List.map_filter (\<lambda>b. b) bounds)))"

text \<open>\<open>f"{v:.nf}"\<close>.\<close>

definition format_json :: "nat \<Rightarrow> json \<Rightarrow> string res" where
  "format_json d v = (case v of
       JInt i \<Rightarrow> Inr (show_fixed d (of_int i))
     | JNum x \<Rightarrow> Inr (format_fixed d x)
     | JBool b \<Rightarrow> Inr (show_fixed d (if b then 1 else 0))
     | JStr _ \<Rightarrow> Inl (ValueError ''Unknown format code f'')
     | _ \<Rightarrow> Inl (TypeError ''unsupported format string''))"

definition get_or_nan :: "(string \<times> json) list \<Rightarrow> string \<Rightarrow> json" where
  "get_or_nan kvs k = (case map_of kvs k of None \<Rightarrow> JNum NaN | Some v \<Rightarrow> v)"

definition resource_cells :: "summary option \<Rightarrow> (string \<times> string) res" where
  "resource_cells s =
     (let rb = (case s of None \<Rightarrow> JNull | Some kvs \<Rightarrow> (case map_of kvs ''resources'' of None \<Rightarrow> JNull | Some v \<Rightarrow> v)) in
      if \<not> json_true rb then Inr (''n/a'', ''n/a'')
      else (case rb of
          JObj r \<Rightarrow> bind_res (format_json 0 (get_or_nan r ''mean_cpu_pct'')) (\<lambda>lo.
                   bind_res (format_json 0 (get_or_nan r ''peak_cpu_pct'')) (\<lambda>hi.
                   bind_res (format_json 1 (get_or_nan r ''peak_rss_mb'')) (\<lambda>mem. Inr (lo @ ''--'' @ hi, mem))))
        | _ \<Rightarrow> Inl (AttributeError ''get'')))"

definition bytes_cell :: "summary option \<Rightarrow> string res" where
  "bytes_cell s =
     (let v = (case s of None \<Rightarrow> JNull | Some kvs \<Rightarrow> (case map_of kvs ''total_bytes_mean'' of None \<Rightarrow> JNull | Some v \<Rightarrow> v)) in
      if v = JNull then Inr ''n/a''
      else (case json_float v of
          Inr x \<Rightarrow> Inr (''$'' @ cmd ''sim$'' @ format_fixed 0 x)
        | Inl (TypeError _) \<Rightarrow> Inr ''n/a''
        | Inl (ValueError _) \<Rightarrow> Inr ''n/a''
        | Inl e \<Rightarrow> Inl e))"

definition rtt_count :: "string \<Rightarrow> string" where
  "rtt_count p = (if p = ''zkarche'' then ''2'' else if p = ''edhoc'' then ''1--1.5'' else ''2--3'')"

definition table_row :: "(string \<Rightarrow> string \<Rightarrow> json option) \<Rightarrow> string \<Rightarrow> string list res" where
  "table_row summaries p =
     bind_res (latency_cell (\<lambda>t. summaries t p)) (\<lambda>lat.
     bind_res (bind_res (summary_of (summaries ''test4_memory'' p)) resource_cells) (\<lambda>(cpu, mem).
     bind_res (bind_res (summary_of (summaries ''test1_concurrent'' p)) bytes_cell) (\<lambda>bts.
       Inr [PROTO_DISPLAY p, lat, cpu, mem, bts, rtt_count p])))"

definition row_text :: "string list \<Rightarrow> string" where
  "row_text row = join_str '' & '' row @ '' '' @ [BSLASH, BSLASH]"

definition table_head :: "string list" where
  "table_head = [''Protocol'', ''Latency (ms)'', ''CPU ('' @ cmd ''%)'', ''Memory (MB)'', ''Bytes (B)'', ''RTT'']"

definition emit_summary_table :: "(string \<Rightarrow> string \<Rightarrow> json option) \<Rightarrow> string res" where
  "emit_summary_table summaries =
     bind_res (map_res (table_row summaries) PROTOS_ORDER) (\<lambda>rows.
       Inr (file_of ([PREAMBLE_NOTE, cmd ''begin{tabular}{lccccc}'', cmd ''hline'', row_text table_head, cmd ''hline'']
         @ map row_text rows @ [cmd ''hline'', cmd ''end{tabular}''])))"

section \<open>Collecting and writing\<close>

definition ALL_RESULTS :: "string list" where
  "ALL_RESULTS = LATENCY_TESTS @ [''test4_memory'', ''test5_cpu'', ''test6_energy'']"

definition raw_file :: "string \<Rightarrow> string \<Rightarrow> string \<Rightarrow> string" where
  "raw_file rdir test proto = rdir @ ''/raw/'' @ test @ ''_'' @ proto @ ''.csv''"

definition summary_file :: "string \<Rightarrow> string \<Rightarrow> string \<Rightarrow> string" where
  "summary_file rdir test proto = rdir @ ''/summary/'' @ test @ ''_'' @ proto @ ''.json''"

type_synonym collected = "(string \<Rightarrow> string \<Rightarrow> iter_row list) \<times> (string \<Rightarrow> string \<Rightarrow> json option)"

definition collect :: "(string \<Rightarrow> string option) \<Rightarrow> string \<Rightarrow> collected res" where
  "collect files rdir =
     bind_res (map_res (\<lambda>(t, p). load_csv (files (raw_file rdir t p))) (List.product ALL_RESULTS PROTOS_ORDER)) (\<lambda>tables.
       Inr (\<lambda>t p. the (map_of (zip (List.product ALL_RESULTS PROTOS_ORDER) tables) (t, p)),
            \<lambda>t p. load_summary (files (summary_file rdir t p))))"

definition resource_figure :: "(string \<Rightarrow> json option) \<Rightarrow> string \<Rightarrow> string \<Rightarrow> string \<Rightarrow> string res" where
  "resource_figure summaries key title ylabel =
     bind_res (map_res (\<lambda>p. summary_of (summaries p)) PROTOS_ORDER) (\<lambda>ss.
       Inr (emit_resource_bars (\<lambda>p. the (map_of (zip PROTOS_ORDER ss) p)) [key] title ylabel (Fin 1)))"

text \<open>Several trees. \<open>str_of\<close> is \<open>str\<close> of the values that are no strings. Trees with the label of an earlier
  one take its place.\<close>

type_synonym loaded = "string \<Rightarrow> string \<Rightarrow> json option"

fun first_device :: "(json \<Rightarrow> string) \<Rightarrow> json option list \<Rightarrow> string res" where
  "first_device str_of [] = Inr ''unknown device''"
| "first_device str_of (s # ss) =
     bind_res (summary_of s) (\<lambda>d. case d of
         None \<Rightarrow> first_device str_of ss
       | Some kvs \<Rightarrow> (case map_of kvs ''device'' of
           None \<Rightarrow> first_device str_of ss
         | Some v \<Rightarrow> if json_true v then Inr (case v of JStr t \<Rightarrow> t | _ \<Rightarrow> str_of v) else first_device str_of ss))"

definition detect_device_label :: "(json \<Rightarrow> string) \<Rightarrow> loaded \<Rightarrow> string res" where
  "detect_device_label str_of summaries = first_device str_of (map (\<lambda>(t, p). summaries t p) (List.product ALL_RESULTS PROTOS_ORDER))"

definition load_tree :: "(json \<Rightarrow> string) \<Rightarrow> (string \<Rightarrow> string option) \<Rightarrow> string \<Rightarrow> (string \<times> collected) res" where
  "load_tree str_of files rdir =
     bind_res (collect files rdir) (\<lambda>c. bind_res (detect_device_label str_of (snd c)) (\<lambda>device. Inr (device, c)))"

definition per_device :: "(string \<times> collected) list \<Rightarrow> (string \<times> loaded) list" where
  "per_device trees = fold (\<lambda>(device, c). AList.update device (snd c)) trees []"

text \<open>\<open>--results\<close> takes at least one directory.\<close>

definition collect_multi :: "(json \<Rightarrow> string) \<Rightarrow> (string \<Rightarrow> string option) \<Rightarrow> string list
    \<Rightarrow> (collected \<times> (string \<times> loaded) list \<times> string list) res" where
  "collect_multi str_of files rdirs =
     bind_res (map_res (load_tree str_of files) rdirs) (\<lambda>trees.
       Inr (snd (hd trees), per_device trees, device_order (map fst (per_device trees))))"

definition resource_figure_multi :: "(string \<times> loaded) list \<Rightarrow> string list \<Rightarrow> string \<Rightarrow> string \<Rightarrow> string \<Rightarrow> string res" where
  "resource_figure_multi by_device order key title ylabel =
     (let cells = List.product order PROTOS_ORDER in
      bind_res (map_res (\<lambda>(d, p). case map_of by_device d of None \<Rightarrow> Inr None | Some s \<Rightarrow> summary_of (s ''test4_memory'' p)) cells) (\<lambda>ss.
        Inr (emit_resource_bars_multi (\<lambda>d p. the (map_of (zip cells ss) (d, p))) order [key] title ylabel (Fin 1))))"

text \<open>The files written so far, in order.\<close>

type_synonym written = "(string \<times> string) list"

definition write_tex :: "string \<Rightarrow> string \<Rightarrow> string res \<Rightarrow> (written, unit) eff" where
  "write_tex out name r = andthen (from_res r) (\<lambda>text. modify (\<lambda>w. w @ [(out @ ''/'' @ name, text)]))"

text \<open>The resource figures of one host and of several have the same metrics; the titles of the latter end in \<open>across\<close>.\<close>

definition write_figures :: "string \<Rightarrow> collected \<Rightarrow> (string \<Rightarrow> string \<Rightarrow> string \<Rightarrow> string res) \<Rightarrow> string \<Rightarrow> (written, unit) eff" where
  "write_figures out c bars across = (case c of (rows, summaries) \<Rightarrow>
     andthen (write_tex out ''test_1_graph.tex'' (Inr (emit_test1_zkarche (rows ''test1_concurrent'' ''zkarche'')))) (\<lambda>_.
     andthen (write_tex out ''test_2_graph.tex'' (Inr (emit_test2_zkarche (rows ''test2_sequential'' ''zkarche'')))) (\<lambda>_.
     andthen (write_tex out ''test_3_graph.tex'' (Inr (emit_test3_zkarche (rows ''test3_highload'' ''zkarche'')))) (\<lambda>_.
     andthen (write_tex out ''comparison_graph.tex'' (Inr (emit_comparison (\<lambda>t p. successful_durations (rows t p))))) (\<lambda>_.
     andthen (write_tex out ''test_4_graph.tex''
       (bars ''peak_rss_mb'' (''Peak RSS during authentication'' @ across) ''Peak RSS (MB)'')) (\<lambda>_.
     andthen (write_tex out ''test_5_graph.tex''
       (bars ''peak_cpu_pct'' (''Peak CPU utilisation during authentication'' @ across) (''Peak CPU ('' @ cmd ''%)''))) (\<lambda>_.
     andthen (write_tex out ''test_6_graph.tex''
       (bars ''energy_per_auth_mJ'' (''Per-authentication energy'' @ across) ''Energy (mJ)'')) (\<lambda>_.
       write_tex out ''summary_table.tex'' (emit_summary_table summaries)))))))))"

definition plot_main :: "(json \<Rightarrow> string) \<Rightarrow> (string \<Rightarrow> string option) \<Rightarrow> string list \<Rightarrow> string \<Rightarrow> (written, int) eff" where
  "plot_main str_of files rdirs out =
     andthen (from_res (collect_multi str_of files rdirs)) (\<lambda>(first, by_device, order).
     andthen (if 1 < length rdirs then write_figures out first (resource_figure_multi by_device order) '' across platforms''
              else write_figures out first (resource_figure (snd first ''test4_memory'')) []) (\<lambda>_. ret 0))"

section \<open>A summary is loaded as it was written\<close>

lemma float_token_no_cr: "float_token s \<Longrightarrow> CR \<notin> set s"
proof -
  have "CR \<notin> set d" if "digits_text d" for d
    using that by (auto simp: digits_text_def is_digit_def)
  then show "float_token s \<Longrightarrow> CR \<notin> set s" unfolding float_token_def by fastforce
qed

lemma json_string_no_cr: "CR \<notin> set (json_string s)"
proof -
  have hex: "hex_digit d \<noteq> CR" if "d < 16" for d
  proof
    assume "hex_digit d = CR"
    then have "hex_val CR = Some d" using hex_val_digit [OF that] by simp
    then show False by (simp add: hex_val_def is_digit_def)
  qed
  have "(of_char c :: nat) div 16 < 16" for c :: char
    using of_char_mod_256 [of c, where 'a = nat] mod_less_divisor [of 256 "of_char c :: nat"] by (simp add: div_less_iff_less_mult)
  then have "CR \<notin> set (escape_char c)" for c
    using hex [of "of_char c div 16"] hex [of "of_char c mod 16"] by (auto simp: escape_char_def Let_def)
  then show ?thesis by (simp add: json_string_def)
qed

lemma bracket_no_cr: "\<forall>i \<in> set items. CR \<notin> set i \<Longrightarrow> CR \<notin> {a, b} \<Longrightarrow> CR \<notin> set (bracket indent level a items b)"
proof -
  assume i: "\<forall>i \<in> set items. CR \<notin> set i" and ab: "CR \<notin> {a, b}"
  have br: "CR \<notin> set (break_to indent l)" for l by (auto simp: break_to_def split: option.splits)
  moreover have "CR \<notin> set (item_separator indent)" by (auto simp: item_separator_def split: option.splits)
  ultimately have "CR \<notin> set (join_str (item_separator indent) (map (\<lambda>i. break_to indent (Suc level) @ i) items))"
    using i by (intro join_plain) auto
  then show ?thesis using br ab by (simp add: bracket_def)
qed

lemma dumps_no_cr:
  "literals fr v \<Longrightarrow> CR \<notin> set (json_dumps fr indent level v)"
  "\<forall>x \<in> set xs. literals fr x \<Longrightarrow> \<forall>i \<in> set (json_items fr indent level xs). CR \<notin> set i"
  "\<forall>kv \<in> set kvs. literals fr (snd kv) \<Longrightarrow> \<forall>i \<in> set (json_members fr indent level kvs). CR \<notin> set i"
proof (induction fr indent level v and fr indent level xs and fr indent level kvs
    rule: json_dumps_json_items_json_members.induct)
  case (3 fr indent level i)
  then show ?case using plain_show_int by (simp add: plain_field_def)
next
  case (4 fr indent level x)
  then show ?case using float_token_no_cr by (cases x) (auto simp: json_float_text_def literal_def)
next
  case (11 fr indent level k v kvs)
  then show ?case using json_string_no_cr by simp
qed (simp_all add: json_string_no_cr bracket_no_cr)

lemma load_written_summary:
  assumes "writable fr (JObj (to_dict s))"
  shows "load_summary (Some (write_summary_json fr s)) = Some (JObj (to_dict s))"
  using dumps_no_cr(1) [OF conjunct1 [OF writable_literals [OF assms]]] json_loads_dumps [OF assms]
  by (simp add: load_summary_def write_summary_json_def universal_newlines_id)

text \<open>Where a loaded summary has each value of the run: a path of keys and what is found there.\<close>

definition energy_fields :: "energy_result \<Rightarrow> (string list \<times> json res) list" where
  "energy_fields e = map (map_prod (\<lambda>k. [''resources'', ''energy_measurement'', k]) Inr)
     [(''method'', JStr (er_method e)), (''duration_s'', JNum (Fin (er_duration_s e))), (''samples'', JInt (int (er_samples e))),
      (''mean_power_w'', JNum (mean_power_w e)), (''peak_power_w'', JNum (peak_power_w e)), (''energy_j'', JNum (energy_j e)),
      (''energy_per_auth_mJ'', JNum (energy_per_auth_mJ e)), (''note'', JStr (er_note e))]"

definition block_fields :: "resource_block \<Rightarrow> (string list \<times> json res) list" where
  "block_fields b = map (map_prod (\<lambda>k. [''resources'', k]) Inr)
     [(''peak_rss_mb'', JNum (Fin (rb_peak_rss_mb b))), (''mean_cpu_pct'', JNum (Fin (rb_mean_cpu_pct b))),
      (''peak_cpu_pct'', JNum (Fin (rb_peak_cpu_pct b))), (''cpu_pct_normalised'', JNum (Fin (rb_cpu_pct_normalised b))),
      (''samples'', JInt (int (rb_samples b))), (''duration_s'', JNum (Fin (rb_duration_s b))),
      (''energy_per_auth_mJ'', JNum (rb_energy_per_auth_mJ b)), (''energy_method'', JStr (rb_energy_method b))]
   @ map (map_prod (\<lambda>k. [''resources'', ''device_profile'', k]) Inr)
     [(''name'', JStr (profile_name (rb_device_profile b))), (''idle_w'', JNum (Fin (idle_w (rb_device_profile b)))),
      (''max_w'', JNum (Fin (max_w (rb_device_profile b)))), (''cpu_cores'', JInt (int (cpu_cores (rb_device_profile b))))]
   @ [([''resources'', ''energy_per_auth_mJ_modelled''], case rb_energy_modelled b of
         None \<Rightarrow> Inl (KeyError ''energy_per_auth_mJ_modelled'') | Some x \<Rightarrow> Inr (JNum x))]
   @ (case rb_energy_measurement b of
         None \<Rightarrow> [([''resources'', ''energy_measurement''], Inl (KeyError ''energy_measurement''))] | Some e \<Rightarrow> energy_fields e)"

definition summary_fields :: "summary_record \<Rightarrow> (string list \<times> json res) list" where
  "summary_fields s = map (map_prod (\<lambda>k. [k]) Inr)
     [(''test'', JStr (sr_test s)), (''protocol'', JStr (sr_protocol s)), (''host'', JStr (sr_host s)), (''device'', JStr (sr_device s)),
      (''n'', JInt (int (sr_n s))), (''n_success'', JInt (int (sr_n_success s))),
      (''sent_bytes_mean'', JNum (sr_sent_bytes_mean s)), (''recv_bytes_mean'', JNum (sr_recv_bytes_mean s)),
      (''total_bytes_mean'', JNum (sr_total_bytes_mean s)), (''notes'', JObj (sr_notes s))]
   @ map (map_prod (\<lambda>k. [''latency_ms'', k]) Inr)
     [(''mean'', JNum (ls_mean (sr_latency_ms s))), (''median'', JNum (ls_median (sr_latency_ms s))),
      (''p95'', JNum (ls_p95 (sr_latency_ms s))), (''p99'', JNum (ls_p99 (sr_latency_ms s))),
      (''min'', JNum (ls_min (sr_latency_ms s))), (''max'', JNum (ls_max (sr_latency_ms s))),
      (''stdev'', JNum (Fin (ls_stdev (sr_latency_ms s))))]
   @ (case sr_resources s of None \<Rightarrow> [([''resources''], Inr JNull)] | Some b \<Rightarrow> block_fields b)"

definition found_at :: "json \<Rightarrow> string list \<times> json res \<Rightarrow> bool" where
  "found_at j f \<longleftrightarrow> json_path j (fst f) = snd f"

lemma found_under:
  assumes "json_item j k = Inr (JObj m)"
  shows "list_all (found_at j) (map (map_prod (\<lambda>k'. [k, k']) Inr) fs) \<longleftrightarrow> list_all (\<lambda>f. map_of m (fst f) = Some (snd f)) fs"
    and "list_all (found_at j) (map (map_prod (\<lambda>k''. [k, k', k'']) Inr) fs)
      \<longleftrightarrow> list_all (\<lambda>f. json_path (JObj m) [k', fst f] = Inr (snd f)) fs"
  using assms by (induction fs) (auto simp: found_at_def json_item_def split: option.splits)

lemma energy_at:
  assumes "json_item j ''resources'' = Inr (JObj m)" and "map_of m ''energy_measurement'' = Some (energy_json e)"
  shows "list_all (found_at j) (energy_fields e)"
  unfolding energy_fields_def found_under(2) [OF assms(1)]
  by (simp add: json_item_def assms(2) energy_json_def)

lemma block_at:
  assumes j: "json_item j ''resources'' = Inr (resource_json b)"
  shows "list_all (found_at j) (block_fields b)"
proof -
  obtain m where m: "resource_json b = JObj m" by (simp add: resource_json_def)
  have measured: "map_of m ''energy_measurement'' = map_option energy_json (rb_energy_measurement b)"
    and modelled: "map_of m ''energy_per_auth_mJ_modelled'' = map_option JNum (rb_energy_modelled b)"
    and profile: "map_of m ''device_profile'' = Some (profile_json (rb_device_profile b))"
    using m by (simp_all add: resource_json_def split: option.splits) auto
  note under = found_under [OF j [unfolded m]]
  have 1: "list_all (found_at j) (map (map_prod (\<lambda>k. [''resources'', k]) Inr)
     [(''peak_rss_mb'', JNum (Fin (rb_peak_rss_mb b))), (''mean_cpu_pct'', JNum (Fin (rb_mean_cpu_pct b))),
      (''peak_cpu_pct'', JNum (Fin (rb_peak_cpu_pct b))), (''cpu_pct_normalised'', JNum (Fin (rb_cpu_pct_normalised b))),
      (''samples'', JInt (int (rb_samples b))), (''duration_s'', JNum (Fin (rb_duration_s b))),
      (''energy_per_auth_mJ'', JNum (rb_energy_per_auth_mJ b)), (''energy_method'', JStr (rb_energy_method b))])"
    unfolding under using m by (simp add: resource_json_def) auto
  have 2: "list_all (found_at j) (map (map_prod (\<lambda>k. [''resources'', ''device_profile'', k]) Inr)
     [(''name'', JStr (profile_name (rb_device_profile b))), (''idle_w'', JNum (Fin (idle_w (rb_device_profile b)))),
      (''max_w'', JNum (Fin (max_w (rb_device_profile b)))), (''cpu_cores'', JInt (int (cpu_cores (rb_device_profile b))))])"
    unfolding under by (simp add: json_item_def profile profile_json_def)
  have 3: "found_at j ([''resources'', ''energy_per_auth_mJ_modelled''], case rb_energy_modelled b of
         None \<Rightarrow> Inl (KeyError ''energy_per_auth_mJ_modelled'') | Some x \<Rightarrow> Inr (JNum x))"
    using j [unfolded m] modelled by (simp add: found_at_def json_item_def [of "JObj _"] split: option.split)
  have 4: "list_all (found_at j) (case rb_energy_measurement b of
         None \<Rightarrow> [([''resources'', ''energy_measurement''], Inl (KeyError ''energy_measurement''))] | Some e \<Rightarrow> energy_fields e)"
    using j [unfolded m] measured energy_at [OF j [unfolded m]]
    by (cases "rb_energy_measurement b") (simp_all add: found_at_def json_item_def [of "JObj _"])
  show ?thesis unfolding block_fields_def list_all_append list.pred_inject(2)
    using 1 2 3 4 by - (intro conjI list.pred_inject(1))
qed

lemma to_dict_at: "list_all (found_at (JObj (to_dict s))) (summary_fields s)"
proof -
  let ?j = "JObj (to_dict s)"
  have "list_all (found_at ?j) (map (map_prod (\<lambda>k. [k]) Inr)
     [(''test'', JStr (sr_test s)), (''protocol'', JStr (sr_protocol s)), (''host'', JStr (sr_host s)), (''device'', JStr (sr_device s)),
      (''n'', JInt (int (sr_n s))), (''n_success'', JInt (int (sr_n_success s))),
      (''sent_bytes_mean'', JNum (sr_sent_bytes_mean s)), (''recv_bytes_mean'', JNum (sr_recv_bytes_mean s)),
      (''total_bytes_mean'', JNum (sr_total_bytes_mean s)), (''notes'', JObj (sr_notes s))])"
    by (simp add: found_at_def json_item_def to_dict_def)
  moreover have "list_all (found_at ?j) (map (map_prod (\<lambda>k. [''latency_ms'', k]) Inr)
     [(''mean'', JNum (ls_mean (sr_latency_ms s))), (''median'', JNum (ls_median (sr_latency_ms s))),
      (''p95'', JNum (ls_p95 (sr_latency_ms s))), (''p99'', JNum (ls_p99 (sr_latency_ms s))),
      (''min'', JNum (ls_min (sr_latency_ms s))), (''max'', JNum (ls_max (sr_latency_ms s))),
      (''stdev'', JNum (Fin (ls_stdev (sr_latency_ms s))))])"
    by (simp add: found_at_def json_item_def to_dict_def latency_json_def)
  moreover have "json_item ?j ''resources'' = Inr (case sr_resources s of None \<Rightarrow> JNull | Some b \<Rightarrow> resource_json b)"
    by (simp add: json_item_def to_dict_def)
  then have "list_all (found_at ?j) (case sr_resources s of None \<Rightarrow> [([''resources''], Inr JNull)] | Some b \<Rightarrow> block_fields b)"
    using block_at by (cases "sr_resources s") (simp_all add: found_at_def)
  ultimately show ?thesis unfolding summary_fields_def list_all_append by blast
qed

text \<open>C26: What a run writes as its summary, with floats whose texts read back, is loaded with every value of the run under its
  own key: the test, the device and the counts, the seven latency figures, the byte means and the notes; without sampled
  resources a null, otherwise each sampled figure, the energy with its method, the device's profile, and the modelled
  energy and the eight figures of the measurement exactly when a meter measured. No value is lost, changed or
  put under another key, undefined ones included.\<close>

theorem summary_json_roundtrip:
  assumes "writable fr (JObj (to_dict s))"
  shows "\<exists>d. load_summary (Some (write_summary_json fr s)) = Some (JObj d)
    \<and> map fst d = [''test'', ''protocol'', ''host'', ''device'', ''n'', ''n_success'', ''latency_ms'', ''sent_bytes_mean'',
         ''recv_bytes_mean'', ''total_bytes_mean'', ''resources'', ''notes'']
    \<and> (\<forall>(ks, v) \<in> set (summary_fields s). json_path (JObj d) ks = v)"
proof (intro exI conjI)
  show "load_summary (Some (write_summary_json fr s)) = Some (JObj (to_dict s))" using assms by (rule load_written_summary)
  show "map fst (to_dict s) = [''test'', ''protocol'', ''host'', ''device'', ''n'', ''n_success'', ''latency_ms'', ''sent_bytes_mean'',
      ''recv_bytes_mean'', ''total_bytes_mean'', ''resources'', ''notes'']" by (simp add: to_dict_def)
  show "\<forall>(ks, v) \<in> set (summary_fields s). json_path (JObj (to_dict s)) ks = v"
    using to_dict_at [of s] by (auto simp: list_all_iff found_at_def)
qed

text \<open>A summary with its floats as they read back, where the texts of floats are float literals only.\<close>

definition read_float :: "(real \<Rightarrow> string) \<Rightarrow> pyfloat \<Rightarrow> pyfloat" where
  "read_float fr x = (case x of Fin r \<Rightarrow> Fin (read_back fr r) | _ \<Rightarrow> x)"

definition reread_latency :: "(real \<Rightarrow> string) \<Rightarrow> latency_stats \<Rightarrow> latency_stats" where
  "reread_latency fr l = \<lparr>ls_mean = read_float fr (ls_mean l), ls_median = read_float fr (ls_median l), ls_p95 = read_float fr (ls_p95 l),
     ls_p99 = read_float fr (ls_p99 l), ls_min = read_float fr (ls_min l), ls_max = read_float fr (ls_max l),
     ls_stdev = read_back fr (ls_stdev l)\<rparr>"

definition reread_energy :: "(real \<Rightarrow> string) \<Rightarrow> energy_result \<Rightarrow> energy_result" where
  "reread_energy fr e = e\<lparr>er_duration_s := read_back fr (er_duration_s e), mean_power_w := read_float fr (mean_power_w e),
     peak_power_w := read_float fr (peak_power_w e), energy_j := read_float fr (energy_j e),
     energy_per_auth_mJ := read_float fr (energy_per_auth_mJ e)\<rparr>"

definition reread_block :: "(real \<Rightarrow> string) \<Rightarrow> resource_block \<Rightarrow> resource_block" where
  "reread_block fr b = b\<lparr>rb_peak_rss_mb := read_back fr (rb_peak_rss_mb b), rb_mean_cpu_pct := read_back fr (rb_mean_cpu_pct b),
     rb_peak_cpu_pct := read_back fr (rb_peak_cpu_pct b), rb_cpu_pct_normalised := read_back fr (rb_cpu_pct_normalised b),
     rb_duration_s := read_back fr (rb_duration_s b), rb_energy_per_auth_mJ := read_float fr (rb_energy_per_auth_mJ b),
     rb_device_profile := (rb_device_profile b)\<lparr>idle_w := read_back fr (idle_w (rb_device_profile b)),
       max_w := read_back fr (max_w (rb_device_profile b))\<rparr>,
     rb_energy_modelled := map_option (read_float fr) (rb_energy_modelled b),
     rb_energy_measurement := map_option (reread_energy fr) (rb_energy_measurement b)\<rparr>"

definition reread_summary :: "(real \<Rightarrow> string) \<Rightarrow> summary_record \<Rightarrow> summary_record" where
  "reread_summary fr s = s\<lparr>sr_latency_ms := reread_latency fr (sr_latency_ms s),
     sr_sent_bytes_mean := read_float fr (sr_sent_bytes_mean s), sr_recv_bytes_mean := read_float fr (sr_recv_bytes_mean s),
     sr_total_bytes_mean := read_float fr (sr_total_bytes_mean s), sr_resources := map_option (reread_block fr) (sr_resources s),
     sr_notes := map (\<lambda>kv. (fst kv, reread fr (snd kv))) (sr_notes s)\<rparr>"

lemma reread_num [simp]: "reread fr (JNum x) = JNum (read_float fr x)"
  by (cases x) (simp_all add: read_float_def)

lemma read_float_Fin [simp]: "read_float fr (Fin x) = Fin (read_back fr x)"
  by (simp add: read_float_def)

lemma reread_resource: "reread fr (resource_json b) = resource_json (reread_block fr b)"
  by (cases "rb_energy_modelled b"; cases "rb_energy_measurement b")
     (simp_all add: resource_json_def reread_block_def profile_json_def energy_json_def reread_energy_def)

lemma reread_to_dict: "reread fr (JObj (to_dict s)) = JObj (to_dict (reread_summary fr s))"
  by (cases "sr_resources s")
     (simp_all add: to_dict_def latency_json_def reread_latency_def reread_summary_def reread_resource)

lemma literals_num: "\<forall>x. literal fr x \<Longrightarrow> literals fr (JNum x)"
  by (cases x) simp_all

lemma literals_resource: "\<forall>x. literal fr x \<Longrightarrow> literals fr (resource_json b)"
  by (cases "rb_energy_modelled b"; cases "rb_energy_measurement b")
     (simp_all add: resource_json_def profile_json_def energy_json_def literals_num)

lemma literals_to_dict:
  assumes "\<forall>x. literal fr x" and "literals fr (JObj (sr_notes s))"
  shows "literals fr (JObj (to_dict s))"
  using assms literals_resource [OF assms(1)]
  by (cases "sr_resources s") (simp_all add: to_dict_def latency_json_def literals_num)

lemma load_literal_summary:
  assumes "\<forall>x. literal fr x" and "literals fr (JObj (sr_notes s))"
  shows "load_summary (Some (write_summary_json fr s)) = Some (JObj (to_dict (reread_summary fr s)))"
  using dumps_no_cr(1) [OF literals_to_dict [OF assms]] json_loads_literals [OF literals_to_dict [OF assms]]
  unfolding load_summary_def write_summary_json_def option.case reread_to_dict
  by (simp add: universal_newlines_id del: json_dumps.simps)

text \<open>Fixed-point texts with at least one decimal are float literals, so decimals of that many places
  printed so are an instance of what is asked of \<open>repr\<close>.\<close>

lemma float_token_point:
  assumes "m = [] \<or> m = ''-''" and "i = ''0'' \<or> digits_text i \<and> hd i \<noteq> CHR ''0''" and "digits_text f"
  shows "float_token (m @ i @ CHR ''.'' # f)"
  unfolding float_token_def using assms
  by (intro exI [of _ m] exI [of _ i] exI [of _ "CHR ''.'' # f"] exI [of _ "[]"] conjI) simp_all

lemma show_scaled_token:
  assumes "m = [] \<or> m = ''-''"
  shows "float_token (m @ show_scaled (Suc d) n)"
proof -
  let ?s = "zero_pad (Suc (Suc d)) (show_nat n)"
  let ?k = "length ?s - Suc d"
  have len: "Suc d < length ?s" by (simp add: zero_pad_def)
  have digits: "\<forall>c \<in> set ?s. is_digit c" using zero_pad_digits by blast
  have "digits_text (drop ?k ?s)" using len digits by (auto simp: digits_text_def dest: in_set_dropD)
  moreover have "take ?k ?s = ''0'' \<or> digits_text (take ?k ?s) \<and> hd (take ?k ?s) \<noteq> CHR ''0''"
  proof (cases "length (show_nat n) < Suc (Suc d)")
    case True
    then have "length ?s = Suc (Suc d)" by (simp add: zero_pad_def)
    moreover obtain m where "?s = CHR ''0'' # m" using True by (cases "Suc (Suc d) - length (show_nat n)") (auto simp: zero_pad_def)
    ultimately show ?thesis by simp
  next
    case False
    then have s: "?s = show_nat n" by (simp add: zero_pad_def)
    have "show_nat n \<noteq> ''0''" using False by auto
    with show_nat_lead [of n] have "digits_text ?s" "hd ?s \<noteq> CHR ''0''" by (simp_all add: s)
    then show ?thesis using len by (auto simp: digits_text_def hd_take dest: in_set_takeD)
  qed
  ultimately have "float_token (m @ take ?k ?s @ CHR ''.'' # drop ?k ?s)" by (intro float_token_point assms)
  moreover have "drop ?k ?s \<noteq> []" using len by simp
  ultimately show ?thesis by (simp only: show_scaled_def Let_def dec_text_def if_False)
qed

lemma float_text_fixed: "0 \<le> x \<Longrightarrow> py_round x (Suc d) = x \<Longrightarrow> float_text (show_fixed (Suc d)) x"
  unfolding float_text_def by (intro conjI) (unfold show_fixed_def, intro show_scaled_token, simp, fold show_fixed_def, simp only: py_float_show_fixed)

lemma py_float_minus:
  assumes "\<forall>c \<in> set s. is_digit c \<or> c = CHR ''.''" and "s \<noteq> []"
  shows "py_float (CHR ''-'' # s) = map_option f_neg (py_float s)"
proof -
  have plain: "strip t = t" "CHR ''_'' \<notin> set t" "filter (\<lambda>c. c \<noteq> CHR ''_'') t = t"
    if "\<forall>c \<in> set t. is_digit c \<or> c = CHR ''.'' \<or> c = CHR ''-''" for t
  proof -
    show "strip t = t" using that by (intro strip_no_space) (fastforce dest: digit_not_space)
    show us: "CHR ''_'' \<notin> set t" using that by fastforce
    show "filter (\<lambda>c. c \<noteq> CHR ''_'') t = t" using us by (auto simp: filter_id_conv)
  qed
  have p: "\<forall>c \<in> set (CHR ''-'' # s). is_digit c \<or> c = CHR ''.'' \<or> c = CHR ''-''"
    "\<forall>c \<in> set s. is_digit c \<or> c = CHR ''.'' \<or> c = CHR ''-''" using assms(1) by auto
  have "parse_sign s = (1, s)" using assms by (cases s) (auto simp: parse_sign_def)
  moreover have "parse_sign (CHR ''-'' # s) = (- 1, s)" by (simp add: parse_sign_def)
  ultimately show ?thesis
    by (simp only: py_float_def Let_def plain [OF p(1)] plain [OF p(2)] underscores_ok_plain plain(2) [OF p(1)] plain(2) [OF p(2)]
        if_True prod.case option.map_comp comp_def) (simp add: option.map_ident)
qed

text \<open>All fixed-point texts are float literals.\<close>

lemma literal_fixed: "literal (show_fixed (Suc d)) x"
proof -
  let ?t = "show_scaled (Suc d) (nat \<bar>round_half_even (x * 10 ^ Suc d)\<bar>)"
  have "\<exists>y. py_float (show_fixed (Suc d) x) = Some (Fin y)"
    using py_float_minus [of ?t] show_scaled_chars show_scaled_nonempty by (auto simp: show_fixed_def py_float_show_scaled)
  moreover have "float_token (show_fixed (Suc d) x)"
    unfolding show_fixed_def by (intro show_scaled_token) simp
  ultimately show ?thesis by (auto simp: literal_def read_back_def)
qed

lemma float_text_nat: "float_text (show_fixed (Suc d)) (real n)"
proof -
  have "real n * 10 ^ Suc d = of_int (int (n * 10 ^ Suc d))" by simp
  then have "py_round (real n) (Suc d) = real n" by (simp only: py_round_def round_half_even_of_int) simp
  then show ?thesis by (simp add: float_text_fixed)
qed

lemmas float_text_numeral = float_text_nat [of _ "numeral k" for k, unfolded of_nat_numeral]
  float_text_nat [of _ 0, unfolded of_nat_0] float_text_nat [of _ 1, unfolded of_nat_1]

definition demo_summary :: summary_record where
  "demo_summary = summarise ''h'' ''test1_concurrent'' ''edhoc'' [demo_result True, demo_result False] None None (profile None ''pi4'')
     [(''n_clients'', JInt 2)]"

lemma demo_summary_writable: "writable (show_fixed 6) (JObj (to_dict demo_summary))"
proof -
  have "successful_results [demo_result True, demo_result False] = [demo_result True]"
    by (simp add: successful_results_def demo_result_def)
  moreover have "float_text (show_fixed 6) (numeral k)" "float_text (show_fixed 6) 0" for k
    using float_text_numeral [of 5] by (simp_all add: numeral_eq_Suc)
  ultimately show ?thesis
    by (simp add: demo_summary_def summarise_def Let_def to_dict_def latency_json_def from_values_def median_def
        percentile_def safe_stdev_def safe_mean_def mean_of_def demo_result_def map_filter_simps)
qed

section \<open>The figures of a tree of results\<close>

lemma map_of_zip_mem: "x \<in> set xs \<Longrightarrow> map_of (zip xs (map f xs)) x = Some (f x)"
  by (induction xs) auto

text \<open>A tree of results: for every test and protocol the table and the summary a run wrote.\<close>

definition written_tree :: "(string \<Rightarrow> string option) \<Rightarrow> string \<Rightarrow> (real \<Rightarrow> string)
    \<Rightarrow> (string \<Rightarrow> string \<Rightarrow> client_result list) \<Rightarrow> (string \<Rightarrow> string \<Rightarrow> summary_record) \<Rightarrow> bool" where
  "written_tree files rdir fr results summaries \<longleftrightarrow> (\<forall>t \<in> set ALL_RESULTS. \<forall>p \<in> set PROTOS_ORDER.
     files (raw_file rdir t p) = Some (write_iterations_csv (results t p))
     \<and> (\<forall>r \<in> set (results t p). times_nonneg r)
     \<and> files (summary_file rdir t p) = Some (write_summary_json fr (summaries t p))
     \<and> writable fr (JObj (to_dict (summaries t p))))"

lemma written_tree_loads:
  assumes "written_tree files rdir fr results summaries" and "t \<in> set ALL_RESULTS" and "p \<in> set PROTOS_ORDER"
  shows "load_csv (files (raw_file rdir t p)) = Inr (map row_of_result (results t p))"
    and "load_summary (files (summary_file rdir t p)) = Some (JObj (to_dict (summaries t p)))"
proof -
  from assms have a: "files (raw_file rdir t p) = Some (write_iterations_csv (results t p))" "\<forall>r \<in> set (results t p). times_nonneg r"
    "files (summary_file rdir t p) = Some (write_summary_json fr (summaries t p))" "writable fr (JObj (to_dict (summaries t p)))"
    unfolding written_tree_def by blast+
  from load_written_iterations [OF a(2)] show "load_csv (files (raw_file rdir t p)) = Inr (map row_of_result (results t p))"
    by (simp only: a(1))
  from load_written_summary [OF a(4)] show "load_summary (files (summary_file rdir t p)) = Some (JObj (to_dict (summaries t p)))"
    by (simp only: a(3))
qed

lemma collect_loads:
  assumes "\<And>t p. t \<in> set ALL_RESULTS \<Longrightarrow> p \<in> set PROTOS_ORDER \<Longrightarrow>
      load_csv (files (raw_file rdir t p)) = Inr (map row_of_result (results t p))
      \<and> load_summary (files (summary_file rdir t p)) = Some (JObj (to_dict (summaries t p)))"
  shows "\<exists>rows loaded. collect files rdir = Inr (rows, loaded)
    \<and> (\<forall>t \<in> set ALL_RESULTS. \<forall>p \<in> set PROTOS_ORDER. rows t p = map row_of_result (results t p)
        \<and> loaded t p = Some (JObj (to_dict (summaries t p))))"
proof -
  let ?pairs = "List.product ALL_RESULTS PROTOS_ORDER"
  let ?rows = "\<lambda>(t, p). map row_of_result (results t p)"
  have "map_res (\<lambda>(t, p). load_csv (files (raw_file rdir t p))) ?pairs = Inr (map ?rows ?pairs)"
    using assms by (intro map_res_total) auto
  moreover have "map_of (zip ?pairs (map ?rows ?pairs)) (t, p) = Some (?rows (t, p))"
    if "t \<in> set ALL_RESULTS" "p \<in> set PROTOS_ORDER" for t p
    using that by (intro map_of_zip_mem) simp
  ultimately show ?thesis using assms by (auto simp: collect_def)
qed

lemma collect_written:
  assumes "written_tree files rdir fr results summaries"
  shows "\<exists>rows loaded. collect files rdir = Inr (rows, loaded)
    \<and> (\<forall>t \<in> set ALL_RESULTS. \<forall>p \<in> set PROTOS_ORDER. rows t p = map row_of_result (results t p)
        \<and> loaded t p = Some (JObj (to_dict (summaries t p))))"
  using written_tree_loads [OF assms] by (intro collect_loads) blast

lemma resource_figure_dicts:
  assumes "\<forall>p \<in> set PROTOS_ORDER. loaded p = Some (JObj (kvs p))"
  shows "resource_figure loaded key title ylabel = Inr (emit_resource_bars (\<lambda>p. Some (kvs p)) [key] title ylabel (Fin 1))"
proof -
  have "map_res (\<lambda>p. summary_of (loaded p)) PROTOS_ORDER = Inr (map (\<lambda>p. Some (kvs p)) PROTOS_ORDER)"
    using assms by (intro map_res_total) (simp add: summary_of_def)
  moreover have "emit_resource_bars (\<lambda>p. the (map_of (zip PROTOS_ORDER (map (\<lambda>p. Some (kvs p)) PROTOS_ORDER)) p)) [key] title ylabel (Fin 1)
      = emit_resource_bars (\<lambda>p. Some (kvs p)) [key] title ylabel (Fin 1)"
    by (simp add: emit_resource_bars_def PROTOS_ORDER_def Let_def)
  ultimately show ?thesis by (simp add: resource_figure_def)
qed

text \<open>The value plotted for a resource is that of the summary; the energy is replaced by zero where it is undefined.\<close>

lemma resource_value_written:
  assumes "sr_resources s = Some b"
  shows "resource_value (Some (to_dict s)) [''peak_rss_mb''] (Fin 1) = Fin (rb_peak_rss_mb b)"
    and "resource_value (Some (to_dict s)) [''peak_cpu_pct''] (Fin 1) = Fin (rb_peak_cpu_pct b)"
    and "resource_value (Some (to_dict s)) [''energy_per_auth_mJ''] (Fin 1)
      = (if rb_energy_per_auth_mJ b = NaN then Fin 0 else rb_energy_per_auth_mJ b)"
  using assms
  by (cases "rb_energy_per_auth_mJ b";
      simp add: resource_value_def to_dict_def resource_json_def json_true_def json_item_def json_float_def is_nan_def f_inf_times_def)+

lemma write_tex_Inr [simp]: "write_tex out name (Inr t) w = (Inr (), w @ [(out @ ''/'' @ name, t)])"
  by (simp add: write_tex_def andthen_def)

section \<open>The comparison table of written summaries\<close>

lemma latency_bounds_written:
  "latency_bounds (Some (to_dict s))
   = Inr (if sr_n_success s = 0 then None else Some (ls_min (sr_latency_ms s), ls_max (sr_latency_ms s)))"
  by (simp add: latency_bounds_def to_dict_def latency_json_def json_true_def json_item_def json_positive_def json_float_def)

lemma latency_cell_written:
  assumes "\<forall>t \<in> set LATENCY_TESTS. loaded t = Some (JObj (to_dict (s t)))"
  shows "latency_cell loaded = Inr (range_text
    (map (\<lambda>t. (ls_min (sr_latency_ms (s t)), ls_max (sr_latency_ms (s t)))) (filter (\<lambda>t. sr_n_success (s t) \<noteq> 0) LATENCY_TESTS)))"
proof -
  have "map_res (\<lambda>t. bind_res (summary_of (loaded t)) latency_bounds) LATENCY_TESTS
      = Inr (map (\<lambda>t. if sr_n_success (s t) = 0 then None else Some (ls_min (sr_latency_ms (s t)), ls_max (sr_latency_ms (s t)))) LATENCY_TESTS)"
    using assms by (intro map_res_total) (simp add: summary_of_def latency_bounds_written)
  moreover have "List.map_filter (\<lambda>b. b) (map (\<lambda>t. if P t then None else Some (g t)) ts) = map g (filter (\<lambda>t. \<not> P t) ts)"
    for P :: "string \<Rightarrow> bool" and g :: "string \<Rightarrow> pyfloat \<times> pyfloat" and ts
    by (induction ts) (simp_all add: map_filter_simps)
  ultimately show ?thesis by (simp add: latency_cell_def)
qed

lemma resource_cells_written:
  "resource_cells (Some (to_dict s)) = Inr (case sr_resources s of
       None \<Rightarrow> (''n/a'', ''n/a'')
     | Some b \<Rightarrow> (show_fixed 0 (rb_mean_cpu_pct b) @ ''--'' @ show_fixed 0 (rb_peak_cpu_pct b), show_fixed 1 (rb_peak_rss_mb b)))"
  by (cases "sr_resources s")
     (simp_all add: resource_cells_def to_dict_def resource_json_def json_true_def get_or_nan_def format_json_def)

lemma bytes_cell_written:
  "bytes_cell (Some (to_dict s)) = Inr (''$'' @ cmd ''sim$'' @ format_fixed 0 (sr_total_bytes_mean s))"
  by (simp add: bytes_cell_def to_dict_def json_float_def)

lemma table_row_written:
  assumes "\<forall>t \<in> set ALL_RESULTS. loaded t p = Some (JObj (to_dict (s t)))"
  shows "\<exists>lat cpu mem. table_row loaded p = Inr [PROTO_DISPLAY p, lat, cpu, mem,
      ''$'' @ cmd ''sim$'' @ format_fixed 0 (sr_total_bytes_mean (s ''test1_concurrent'')), rtt_count p]
    \<and> latency_cell (\<lambda>t. loaded t p) = Inr lat \<and> resource_cells (Some (to_dict (s ''test4_memory''))) = Inr (cpu, mem)"
proof -
  have "loaded ''test4_memory'' p = Some (JObj (to_dict (s ''test4_memory'')))"
    "loaded ''test1_concurrent'' p = Some (JObj (to_dict (s ''test1_concurrent'')))"
    "\<forall>t \<in> set LATENCY_TESTS. loaded t p = Some (JObj (to_dict (s t)))"
    using assms by (simp_all add: ALL_RESULTS_def LATENCY_TESTS_def)
  then show ?thesis
    using latency_cell_written [of "\<lambda>t. loaded t p" s]
    by (simp add: table_row_def summary_of_def bytes_cell_written resource_cells_written split: prod.splits option.splits)
qed

lemma emit_summary_table_total:
  assumes "\<forall>p \<in> set PROTOS_ORDER. \<exists>row. table_row loaded p = Inr row"
  shows "\<exists>table. emit_summary_table loaded = Inr table"
proof -
  from assms obtain f where "\<forall>p \<in> set PROTOS_ORDER. table_row loaded p = Inr (f p)" by metis
  then have "map_res (table_row loaded) PROTOS_ORDER = Inr (map f PROTOS_ORDER)" by (intro map_res_total) simp
  then show ?thesis by (simp add: emit_summary_table_def)
qed

text \<open>The least and the greatest of several non-empty lists of latencies.\<close>

lemma foldl_f_min2_Fin: "foldl f_min2 (Fin a) (map Fin xs) = Fin (Min (insert a (set xs)))"
proof (induction xs arbitrary: a)
  case (Cons x xs)
  have "f_min2 (Fin a) (Fin x) = Fin (min a x)" by (auto simp: f_min2_def min_def)
  moreover have "Min (insert (min a x) (set xs)) = Min (insert a (insert x (set xs)))"
    by (cases "xs = []") (simp_all add: min.assoc)
  ultimately show ?case using Cons by simp
qed simp

lemma foldl_f_max2_Max: "foldl f_max2 (Fin a) (map Fin xs) = Fin (Max (insert a (set xs)))"
proof (induction xs arbitrary: a)
  case (Cons x xs)
  have "f_max2 (Fin a) (Fin x) = Fin (max a x)" by (auto simp: f_max2_def max_def)
  moreover have "Max (insert (max a x) (set xs)) = Max (insert a (insert x (set xs)))"
    by (cases "xs = []") (simp_all add: max.assoc)
  ultimately show ?case using Cons by simp
qed simp

lemma Min_of_Mins:
  fixes vs :: "real list list"
  assumes "\<forall>v \<in> set vs. v \<noteq> []" and "vs \<noteq> []"
  shows "Min (set (map (\<lambda>v. Min (set v)) vs)) = Min (set (concat vs))" and "Max (set (map (\<lambda>v. Max (set v)) vs)) = Max (set (concat vs))"
proof -
  from assms(2,1) have "Min (set (map (\<lambda>v. Min (set v)) vs)) = Min (set (concat vs))
      \<and> Max (set (map (\<lambda>v. Max (set v)) vs)) = Max (set (concat vs))"
  proof (induction vs rule: list_nonempty_induct)
    case (cons v vs)
    then have "set (concat vs) \<noteq> {}" by (cases vs) auto
    with cons show ?case by (simp add: Min_Un Max_Un)
  qed simp
  then show "Min (set (map (\<lambda>v. Min (set v)) vs)) = Min (set (concat vs))"
    "Max (set (map (\<lambda>v. Max (set v)) vs)) = Max (set (concat vs))" by blast+
qed

lemma range_text_values:
  assumes "\<forall>v \<in> set vs. v \<noteq> []" and "vs \<noteq> []"
  shows "range_text (map (\<lambda>v. (Fin (Min (set v)), Fin (Max (set v)))) vs)
    = show_fixed 2 (Min (set (concat vs))) @ ''--'' @ show_fixed 2 (Max (set (concat vs)))"
proof -
  obtain v vs' where vs: "vs = v # vs'" using assms(2) by (cases vs) auto
  have "map fst (map (\<lambda>v. (Fin (Min (set v)), Fin (Max (set v)))) vs') = map Fin (map (\<lambda>v. Min (set v)) vs')"
    "map snd (map (\<lambda>v. (Fin (Min (set v)), Fin (Max (set v)))) vs') = map Fin (map (\<lambda>v. Max (set v)) vs')" by simp_all
  then have "range_text (map (\<lambda>v. (Fin (Min (set v)), Fin (Max (set v)))) vs)
      = show_fixed 2 (Min (set (map (\<lambda>v. Min (set v)) vs))) @ ''--'' @ show_fixed 2 (Max (set (map (\<lambda>v. Max (set v)) vs)))"
    by (simp only: vs range_text_def list.map list.case prod.case foldl_f_min2_Fin foldl_f_max2_Max list.set format_fixed.simps)
  then show ?thesis by (simp only: Min_of_Mins [OF assms])
qed

definition durations_of :: "client_result list \<Rightarrow> real list" where
  "durations_of results = List.map_filter cr_duration_ms (successful_results results)"

lemma durations_of_Nil: "durations_of results = [] \<longleftrightarrow> successful_results results = []"
proof -
  have "\<forall>r \<in> set (successful_results results). cr_duration_ms r \<noteq> None" by (simp add: successful_results_def)
  then show ?thesis
    by (cases "successful_results results") (auto simp: durations_of_def map_filter_simps)
qed

lemma summarise_latency:
  "sr_n_success (summarise host t p results res en prof notes) = 0 \<longleftrightarrow> durations_of results = []"
  "durations_of results \<noteq> [] \<Longrightarrow> ls_min (sr_latency_ms (summarise host t p results res en prof notes)) = Fin (Min (set (durations_of results)))"
  "durations_of results \<noteq> [] \<Longrightarrow> ls_max (sr_latency_ms (summarise host t p results res en prof notes)) = Fin (Max (set (durations_of results)))"
  unfolding durations_of_Nil by (simp_all add: summarise_def Let_def durations_of_Nil durations_of_def [symmetric] from_values_def)

text \<open>The latency range of the table, read from the summaries the runs of the three tests of a protocol
  wrote, runs from the least to the greatest latency of all successful authentications of these tests; with no
  success in any test the table says so.\<close>

lemma latency_range_of_tests:
  assumes "\<forall>t \<in> set LATENCY_TESTS. s t = summarise host t p (results t) (res t) (en t) prof (extra t)"
    and "\<forall>t \<in> set LATENCY_TESTS. writable fr (JObj (to_dict (s t))) \<and> file t = Some (write_summary_json fr (s t))"
    and "ds = concat (map (\<lambda>t. durations_of (results t)) LATENCY_TESTS)"
  shows "latency_cell (\<lambda>t. load_summary (file t)) = Inr (if ds = [] then ''n/a''
    else show_fixed 2 (Min (set ds)) @ ''--'' @ show_fixed 2 (Max (set ds)))"
proof -
  let ?some = "filter (\<lambda>t. durations_of (results t) \<noteq> []) LATENCY_TESTS"
  let ?vs = "map (\<lambda>t. durations_of (results t)) ?some"
  have loaded: "\<forall>t \<in> set LATENCY_TESTS. load_summary (file t) = Some (JObj (to_dict (s t)))"
    using assms(2) load_written_summary by metis
  have some: "filter (\<lambda>t. sr_n_success (s t) \<noteq> 0) LATENCY_TESTS = ?some"
    using assms(1) by (intro filter_cong) (auto simp: summarise_latency)
  have pairs: "map (\<lambda>t. (ls_min (sr_latency_ms (s t)), ls_max (sr_latency_ms (s t)))) ?some = map (\<lambda>v. (Fin (Min (set v)), Fin (Max (set v)))) ?vs"
    using assms(1) by (auto simp: summarise_latency)
  have cell: "latency_cell (\<lambda>t. load_summary (file t)) = Inr (range_text (map (\<lambda>v. (Fin (Min (set v)), Fin (Max (set v)))) ?vs))"
    by (simp only: latency_cell_written [OF loaded] some pairs)
  have ds: "concat ?vs = ds"
  proof -
    have "concat (map f (filter (\<lambda>t. f t \<noteq> []) ts)) = concat (map f ts)" for f :: "string \<Rightarrow> real list" and ts
      by (induction ts) auto
    then show ?thesis by (simp add: assms(3))
  qed
  show ?thesis
  proof (cases "?vs = []")
    case True
    then show ?thesis using cell ds by (simp add: range_text_def)
  next
    case False
    have ne: "\<forall>v \<in> set ?vs. v \<noteq> []" by auto
    with False have "ds \<noteq> []" unfolding ds [symmetric] by (cases ?some) auto
    then show ?thesis using cell by (simp only: range_text_values [OF ne False] ds if_False)
  qed
qed

definition demo_of :: "string \<Rightarrow> summary_record" where
  "demo_of t = demo_summary\<lparr>sr_test := t\<rparr>"

lemma demo_of_summarise:
  "demo_of t = summarise ''h'' t ''edhoc'' [demo_result True, demo_result False] None None (profile None ''pi4'') [(''n_clients'', JInt 2)]"
  by (simp add: demo_of_def demo_summary_def summarise_def Let_def)

lemma demo_of_writable: "writable (show_fixed 6) (JObj (to_dict (demo_of t)))"
  using demo_summary_writable by (simp add: demo_of_def to_dict_def)

lemma latency_range_of_tests_witness:
  "latency_cell (\<lambda>t. load_summary (Some (write_summary_json (show_fixed 6) (demo_of t)))) = Inr (show_fixed 2 12 @ ''--'' @ show_fixed 2 12)"
proof -
  let ?ds = "concat (map (\<lambda>t. durations_of [demo_result True, demo_result False]) LATENCY_TESTS)"
  have "?ds = [12, 12, 12]"
    by (simp add: durations_of_def successful_results_def demo_result_def map_filter_simps LATENCY_TESTS_def)
  moreover have "latency_cell (\<lambda>t. load_summary (Some (write_summary_json (show_fixed 6) (demo_of t))))
      = Inr (if ?ds = [] then ''n/a'' else show_fixed 2 (Min (set ?ds)) @ ''--'' @ show_fixed 2 (Max (set ?ds)))"
    by (rule latency_range_of_tests [where s = demo_of and fr = "show_fixed 6" and host = "''h''" and p = "''edhoc''" and res = "\<lambda>t. None"
          and en = "\<lambda>t. None" and prof = "profile None ''pi4''" and extra = "\<lambda>t. [(''n_clients'', JInt 2)]"])
      (simp_all add: demo_of_writable demo_of_summarise [symmetric] del: writable.simps)
  ultimately show ?thesis by simp
qed

text \<open>A protocol none of whose authentications succeeded has no latency in the table, but its bytes are printed as
  \<open>nan\<close>: the mean is undefined, not missing, and the table tests only for a missing one.\<close>

lemma failed_protocol_prints_nan:
  assumes "\<forall>t \<in> set ALL_RESULTS. durations_of (results t) = []
      \<and> loaded t p = Some (JObj (to_dict (summarise host t p (results t) None None prof (extra t))))"
  shows "table_row loaded p = Inr [PROTO_DISPLAY p, ''n/a'', ''n/a'', ''n/a'', ''$'' @ cmd ''sim$nan'', rtt_count p]"
proof -
  let ?s = "\<lambda>t. summarise host t p (results t) None None prof (extra t)"
  obtain lat cpu mem where row: "table_row loaded p = Inr [PROTO_DISPLAY p, lat, cpu, mem,
      ''$'' @ cmd ''sim$'' @ format_fixed 0 (sr_total_bytes_mean (?s ''test1_concurrent'')), rtt_count p]"
    and lat: "latency_cell (\<lambda>t. loaded t p) = Inr lat" and res: "resource_cells (Some (to_dict (?s ''test4_memory''))) = Inr (cpu, mem)"
    using table_row_written [of loaded p ?s] assms by auto
  have "\<forall>t \<in> set LATENCY_TESTS. loaded t p = Some (JObj (to_dict (?s t))) \<and> sr_n_success (?s t) = 0"
    using assms by (auto simp: ALL_RESULTS_def summarise_latency)
  then have "filter (\<lambda>t. sr_n_success (?s t) \<noteq> 0) LATENCY_TESTS = []" "lat = ''n/a''"
    using lat latency_cell_written [of "\<lambda>t. loaded t p" ?s] by (simp_all add: filter_empty_conv range_text_def)
  moreover have "cpu = ''n/a''" "mem = ''n/a''" using res by (auto simp: resource_cells_written summarise_def Let_def)
  moreover have "successful_results (results ''test1_concurrent'') = []"
    using assms by (simp add: ALL_RESULTS_def LATENCY_TESTS_def durations_of_Nil)
  then have "sr_total_bytes_mean (?s ''test1_concurrent'') = NaN" by (simp add: summarise_def Let_def map_filter_simps)
  ultimately show ?thesis using row by (simp add: cmd_def)
qed

lemma failed_protocol_prints_nan_witness:
  "table_row (\<lambda>t p. Some (JObj (to_dict (summarise ''h'' t p [demo_result False] None None (profile None ''pi4'') [])))) ''edhoc''
   = Inr [''EDHOC'', ''n/a'', ''n/a'', ''n/a'', ''$'' @ cmd ''sim$nan'', ''1--1.5'']"
proof -
  have "\<forall>t \<in> set ALL_RESULTS. durations_of [demo_result False] = []
      \<and> Some (JObj (to_dict (summarise ''h'' t ''edhoc'' [demo_result False] None None (profile None ''pi4'') [])))
        = Some (JObj (to_dict (summarise ''h'' t ''edhoc'' [demo_result False] None None (profile None ''pi4'') [])))"
    by (simp add: durations_of_def successful_results_def demo_result_def map_filter_simps)
  from failed_protocol_prints_nan [where results = "\<lambda>t. [demo_result False]" and p = "''edhoc''" and host = "''h''" and extra = "\<lambda>t. []"
      and prof = "profile None ''pi4''" and loaded = "\<lambda>t p. Some (JObj (to_dict (summarise ''h'' t p [demo_result False] None None (profile None ''pi4'') [])))",
      OF this]
  show ?thesis by (simp add: PROTO_DISPLAY_def rtt_count_def)
qed

section \<open>All figures of a tree of results\<close>

lemma emit_comparison_cong:
  assumes "\<forall>t \<in> set ALL_RESULTS. \<forall>p \<in> set PROTOS_ORDER. f t p = g t p"
  shows "emit_comparison f = emit_comparison g"
proof -
  have "\<forall>(t, l) \<in> set COMPARED_TESTS. \<forall>p \<in> set PROTOS_ORDER. compared_mean f t p = compared_mean g t p"
    using assms by (simp add: COMPARED_TESTS_def ALL_RESULTS_def LATENCY_TESTS_def compared_mean_def)
  then have "concat (map (\<lambda>(t, _). map (compared_mean f t) PROTOS_ORDER) COMPARED_TESTS)
      = concat (map (\<lambda>(t, _). map (compared_mean g t) PROTOS_ORDER) COMPARED_TESTS)"
    and same: "\<And>p. p \<in> set PROTOS_ORDER \<Longrightarrow> map (\<lambda>(t, l). point l 4 (compared_mean f t p)) COMPARED_TESTS
      = map (\<lambda>(t, l). point l 4 (compared_mean g t p)) COMPARED_TESTS"
    by (auto intro!: arg_cong [where f = concat] map_cong simp: case_prod_unfold)
  moreover have "concat (map (\<lambda>p. bars_of p (join_str '' '' (map (\<lambda>(t, l). point l 4 (compared_mean f t p)) COMPARED_TESTS))) PROTOS_ORDER)
      = concat (map (\<lambda>p. bars_of p (join_str '' '' (map (\<lambda>(t, l). point l 4 (compared_mean g t p)) COMPARED_TESTS))) PROTOS_ORDER)"
    by (intro arg_cong [where f = concat] map_cong refl) (simp only: same)
  ultimately show ?thesis unfolding emit_comparison_def by (simp only:)
qed

lemma detect_device_label_total:
  assumes "\<And>t p. t \<in> set ALL_RESULTS \<Longrightarrow> p \<in> set PROTOS_ORDER \<Longrightarrow> loaded t p = Some (JObj (to_dict (summaries t p)))"
  shows "\<exists>label. detect_device_label str_of loaded = Inr label"
proof -
  have "\<exists>label. first_device str_of ss = Inr label" if "\<forall>s \<in> set ss. \<exists>kvs. s = Some (JObj kvs)" for ss
    using that by (induction ss) (auto simp: summary_of_def split: option.split)
  then show ?thesis using assms unfolding detect_device_label_def by fastforce
qed

text \<open>The eight files from loaded results, given the texts of the resource figures.\<close>

lemma emit_summary_table_cong:
  assumes "\<And>t p. t \<in> set ALL_RESULTS \<Longrightarrow> p \<in> set PROTOS_ORDER \<Longrightarrow> f t p = g t p"
  shows "emit_summary_table f = emit_summary_table g"
proof -
  have "table_row f p = table_row g p" if "p \<in> set PROTOS_ORDER" for p
  proof -
    have "\<forall>t \<in> set ALL_RESULTS. f t p = g t p" using assms that by blast
    then show ?thesis by (simp add: table_row_def latency_cell_def ALL_RESULTS_def LATENCY_TESTS_def)
  qed
  then have "map_res (table_row f) PROTOS_ORDER = map_res (table_row g) PROTOS_ORDER" by (simp add: PROTOS_ORDER_def)
  then show ?thesis by (simp add: emit_summary_table_def)
qed

lemma figures_written:
  assumes tree: "\<forall>t \<in> set ALL_RESULTS. \<forall>p \<in> set PROTOS_ORDER. rows t p = map row_of_result (results t p)
        \<and> loaded t p = Some (JObj (to_dict (summaries t p)))"
    and bars: "\<And>key title ylabel. bars key title ylabel = Inr (text_of key title ylabel)"
  shows "\<exists>table. emit_summary_table (\<lambda>t p. Some (JObj (to_dict (summaries t p)))) = Inr table \<and> write_figures out (rows, loaded) bars across [] = (Inr (),
      [(out @ ''/test_1_graph.tex'', emit_test1_zkarche (map row_of_result (results ''test1_concurrent'' ''zkarche''))),
       (out @ ''/test_2_graph.tex'', emit_test2_zkarche (map row_of_result (results ''test2_sequential'' ''zkarche''))),
       (out @ ''/test_3_graph.tex'', emit_test3_zkarche (map row_of_result (results ''test3_highload'' ''zkarche''))),
       (out @ ''/comparison_graph.tex'', emit_comparison (\<lambda>t p. map (\<lambda>r. Fin (py_round (the (cr_duration_ms r)) 6)) (successful_results (results t p)))),
       (out @ ''/test_4_graph.tex'', text_of ''peak_rss_mb'' (''Peak RSS during authentication'' @ across) ''Peak RSS (MB)''),
       (out @ ''/test_5_graph.tex'', text_of ''peak_cpu_pct'' (''Peak CPU utilisation during authentication'' @ across) (''Peak CPU ('' @ cmd ''%)'')),
       (out @ ''/test_6_graph.tex'', text_of ''energy_per_auth_mJ'' (''Per-authentication energy'' @ across) ''Energy (mJ)''),
       (out @ ''/summary_table.tex'', table)])"
proof -
  have rows: "\<And>t p. t \<in> set ALL_RESULTS \<Longrightarrow> p \<in> set PROTOS_ORDER \<Longrightarrow> rows t p = map row_of_result (results t p)"
    and loaded: "\<And>t p. t \<in> set ALL_RESULTS \<Longrightarrow> p \<in> set PROTOS_ORDER \<Longrightarrow> loaded t p = Some (JObj (to_dict (summaries t p)))"
    using tree by blast+
  have zk: "''zkarche'' \<in> set PROTOS_ORDER" by (simp add: PROTOS_ORDER_def)
  have tests: "''test1_concurrent'' \<in> set ALL_RESULTS" "''test2_sequential'' \<in> set ALL_RESULTS" "''test3_highload'' \<in> set ALL_RESULTS"
    by (simp_all add: ALL_RESULTS_def LATENCY_TESTS_def)
  have comparison: "emit_comparison (\<lambda>t p. successful_durations (rows t p))
      = emit_comparison (\<lambda>t p. map (\<lambda>r. Fin (py_round (the (cr_duration_ms r)) 6)) (successful_results (results t p)))"
    using rows by (intro emit_comparison_cong) (simp add: successful_durations_results)
  have "\<forall>p \<in> set PROTOS_ORDER. \<exists>row. table_row loaded p = Inr row"
    using table_row_written [of loaded _ "\<lambda>t. summaries t _"] loaded by blast
  then obtain table where "emit_summary_table loaded = Inr table" using emit_summary_table_total by blast
  moreover have "emit_summary_table loaded = emit_summary_table (\<lambda>t p. Some (JObj (to_dict (summaries t p))))"
    using loaded by (intro emit_summary_table_cong) blast
  ultimately show ?thesis
    by (intro exI [of _ table])
       (simp add: write_figures_def andthen_def bars comparison rows [OF tests(1) zk] rows [OF tests(2) zk] rows [OF tests(3) zk])
qed

lemma collected_figures:
  assumes c: "collect files rdir = Inr (rows, loaded)"
    and tree: "\<forall>t \<in> set ALL_RESULTS. \<forall>p \<in> set PROTOS_ORDER. rows t p = map row_of_result (results t p)
        \<and> loaded t p = Some (JObj (to_dict (summaries t p)))"
    and blocks: "\<forall>p \<in> set PROTOS_ORDER. sr_resources (summaries ''test4_memory'' p) = Some (block p)"
  shows "let bars = (\<lambda>key title ylabel. emit_resource_bars (\<lambda>p. Some (to_dict (summaries ''test4_memory'' p))) [key] title ylabel (Fin 1)) in
    (\<exists>table. emit_summary_table (\<lambda>t p. Some (JObj (to_dict (summaries t p)))) = Inr table
      \<and> plot_main str_of files [rdir] out [] = (Inr 0,
      [(out @ ''/test_1_graph.tex'', emit_test1_zkarche (map row_of_result (results ''test1_concurrent'' ''zkarche''))),
       (out @ ''/test_2_graph.tex'', emit_test2_zkarche (map row_of_result (results ''test2_sequential'' ''zkarche''))),
       (out @ ''/test_3_graph.tex'', emit_test3_zkarche (map row_of_result (results ''test3_highload'' ''zkarche''))),
       (out @ ''/comparison_graph.tex'', emit_comparison (\<lambda>t p. map (\<lambda>r. Fin (py_round (the (cr_duration_ms r)) 6)) (successful_results (results t p)))),
       (out @ ''/test_4_graph.tex'', bars ''peak_rss_mb'' ''Peak RSS during authentication'' ''Peak RSS (MB)''),
       (out @ ''/test_5_graph.tex'', bars ''peak_cpu_pct'' ''Peak CPU utilisation during authentication'' (''Peak CPU ('' @ cmd ''%)'')),
       (out @ ''/test_6_graph.tex'', bars ''energy_per_auth_mJ'' ''Per-authentication energy'' ''Energy (mJ)''),
       (out @ ''/summary_table.tex'', table)]))
    \<and> (\<forall>p \<in> set PROTOS_ORDER. let v = (\<lambda>key. resource_value (Some (to_dict (summaries ''test4_memory'' p))) [key] (Fin 1)) in
        v ''peak_rss_mb'' = Fin (rb_peak_rss_mb (block p)) \<and> v ''peak_cpu_pct'' = Fin (rb_peak_cpu_pct (block p))
        \<and> v ''energy_per_auth_mJ'' = (if rb_energy_per_auth_mJ (block p) = NaN then Fin 0 else rb_energy_per_auth_mJ (block p)))"
proof -
  define bars where "bars = (\<lambda>key title ylabel. emit_resource_bars (\<lambda>p. Some (to_dict (summaries ''test4_memory'' p))) [key] title ylabel (Fin 1))"
  have "\<forall>p \<in> set PROTOS_ORDER. loaded ''test4_memory'' p = Some (JObj (to_dict (summaries ''test4_memory'' p)))"
    using tree by (simp add: ALL_RESULTS_def)
  then have fig: "resource_figure (loaded ''test4_memory'') key title ylabel = Inr (bars key title ylabel)" for key title ylabel
    using resource_figure_dicts by (simp add: bars_def)
  obtain label where "detect_device_label str_of loaded = Inr label" using detect_device_label_total tree by blast
  then have "collect_multi str_of files [rdir] = Inr ((rows, loaded), [(label, loaded)], device_order [label])"
    using c by (simp add: collect_multi_def load_tree_def per_device_def)
  note run = this
  have "v ''peak_rss_mb'' = Fin (rb_peak_rss_mb (block p)) \<and> v ''peak_cpu_pct'' = Fin (rb_peak_cpu_pct (block p))
      \<and> v ''energy_per_auth_mJ'' = (if rb_energy_per_auth_mJ (block p) = NaN then Fin 0 else rb_energy_per_auth_mJ (block p))"
    if "p \<in> set PROTOS_ORDER" "v = (\<lambda>key. resource_value (Some (to_dict (summaries ''test4_memory'' p))) [key] (Fin 1))" for p v
    using blocks that(1) resource_value_written [of "summaries ''test4_memory'' p" "block p"] unfolding that(2) by simp
  then show ?thesis
    using figures_written [OF tree, where bars = "resource_figure (loaded ''test4_memory'')" and out = out and across = "[]", OF fig]
    unfolding Let_def bars_def by (auto simp: plot_main_def run andthen_def)
qed

text \<open>C12: From a tree of results that runs wrote, with the resources sampled in the memory test, the generator
  returns zero after writing its eight files: the latency figures and the comparison are those of the
  measured durations, rounded to six decimals, the resource figures show each protocol's measured peak
  memory and processor use and its energy, zero where that is undefined, and the table, written last, is that of the
  summaries.\<close>

theorem figures_from_results:
  assumes tree: "written_tree files rdir fr results summaries"
    and blocks: "\<forall>p \<in> set PROTOS_ORDER. sr_resources (summaries ''test4_memory'' p) = Some (block p)"
  shows "let bars = (\<lambda>key title ylabel. emit_resource_bars (\<lambda>p. Some (to_dict (summaries ''test4_memory'' p))) [key] title ylabel (Fin 1)) in
    (\<exists>table. emit_summary_table (\<lambda>t p. Some (JObj (to_dict (summaries t p)))) = Inr table
      \<and> plot_main str_of files [rdir] out [] = (Inr 0,
      [(out @ ''/test_1_graph.tex'', emit_test1_zkarche (map row_of_result (results ''test1_concurrent'' ''zkarche''))),
       (out @ ''/test_2_graph.tex'', emit_test2_zkarche (map row_of_result (results ''test2_sequential'' ''zkarche''))),
       (out @ ''/test_3_graph.tex'', emit_test3_zkarche (map row_of_result (results ''test3_highload'' ''zkarche''))),
       (out @ ''/comparison_graph.tex'', emit_comparison (\<lambda>t p. map (\<lambda>r. Fin (py_round (the (cr_duration_ms r)) 6)) (successful_results (results t p)))),
       (out @ ''/test_4_graph.tex'', bars ''peak_rss_mb'' ''Peak RSS during authentication'' ''Peak RSS (MB)''),
       (out @ ''/test_5_graph.tex'', bars ''peak_cpu_pct'' ''Peak CPU utilisation during authentication'' (''Peak CPU ('' @ cmd ''%)'')),
       (out @ ''/test_6_graph.tex'', bars ''energy_per_auth_mJ'' ''Per-authentication energy'' ''Energy (mJ)''),
       (out @ ''/summary_table.tex'', table)]))
    \<and> (\<forall>p \<in> set PROTOS_ORDER. let v = (\<lambda>key. resource_value (Some (to_dict (summaries ''test4_memory'' p))) [key] (Fin 1)) in
        v ''peak_rss_mb'' = Fin (rb_peak_rss_mb (block p)) \<and> v ''peak_cpu_pct'' = Fin (rb_peak_cpu_pct (block p))
        \<and> v ''energy_per_auth_mJ'' = (if rb_energy_per_auth_mJ (block p) = NaN then Fin 0 else rb_energy_per_auth_mJ (block p)))"
proof -
  obtain rows loaded where "collect files rdir = Inr (rows, loaded)"
    "\<forall>t \<in> set ALL_RESULTS. \<forall>p \<in> set PROTOS_ORDER. rows t p = map row_of_result (results t p) \<and> loaded t p = Some (JObj (to_dict (summaries t p)))"
    using collect_written [OF tree] by blast
  then show ?thesis using blocks by (rule collected_figures)
qed

definition demo_block :: resource_block where
  "demo_block = \<lparr>rb_peak_rss_mb = 5, rb_mean_cpu_pct = 20, rb_peak_cpu_pct = 40, rb_cpu_pct_normalised = 5, rb_samples = 10,
     rb_duration_s = 2, rb_energy_per_auth_mJ = NaN, rb_energy_method = ''static-model'',
     rb_device_profile = \<lparr>profile_name = ''Pi'', idle_w = 2, max_w = 4, cpu_cores = 4\<rparr>,
     rb_energy_modelled = None, rb_energy_measurement = None\<rparr>"

definition demo_full :: summary_record where
  "demo_full = demo_summary\<lparr>sr_resources := Some demo_block\<rparr>"

lemma demo_full_writable: "writable (show_fixed 6) (JObj (to_dict demo_full))"
proof -
  have "float_text (show_fixed 6) (numeral k)" for k
    using float_text_numeral [of 5] by (simp_all add: numeral_eq_Suc)
  then have "writable (show_fixed 6) (resource_json demo_block)"
    by (simp add: resource_json_def demo_block_def profile_json_def)
  then show ?thesis using demo_summary_writable by (simp add: demo_full_def to_dict_def)
qed

lemma summary_json_roundtrip_witness:
  "\<exists>d. load_summary (Some (write_summary_json (show_fixed 6) demo_full)) = Some (JObj d)
    \<and> json_path (JObj d) [''n_success''] = Inr (JInt 1)
    \<and> json_path (JObj d) [''latency_ms'', ''stdev''] = Inr (JNum (Fin (ls_stdev (sr_latency_ms demo_full))))
    \<and> json_path (JObj d) [''resources'', ''mean_cpu_pct''] = Inr (JNum (Fin 20))
    \<and> json_path (JObj d) [''resources'', ''device_profile'', ''max_w''] = Inr (JNum (Fin 4))"
proof -
  have ne: "sr_n_success demo_full = 1" "sr_resources demo_full = Some demo_block"
    by (simp_all add: demo_full_def demo_summary_def summarise_def Let_def successful_results_def demo_result_def)
  from summary_json_roundtrip [OF demo_full_writable] obtain d where
    d: "load_summary (Some (write_summary_json (show_fixed 6) demo_full)) = Some (JObj d)"
    and "\<forall>(ks, v) \<in> set (summary_fields demo_full). json_path (JObj d) ks = v" by blast
  then have at: "(ks, v) \<in> set (summary_fields demo_full) \<Longrightarrow> json_path (JObj d) ks = v" for ks v by fast
  have "([''n_success''], Inr (JInt 1)) \<in> set (summary_fields demo_full)"
    "([''latency_ms'', ''stdev''], Inr (JNum (Fin (ls_stdev (sr_latency_ms demo_full))))) \<in> set (summary_fields demo_full)"
    "([''resources'', ''mean_cpu_pct''], Inr (JNum (Fin 20))) \<in> set (summary_fields demo_full)"
    "([''resources'', ''device_profile'', ''max_w''], Inr (JNum (Fin 4))) \<in> set (summary_fields demo_full)"
    using ne by (simp_all add: summary_fields_def block_fields_def demo_block_def)
  with d show ?thesis by (intro exI [of _ d] conjI at)
qed

definition demo_tree :: "string \<Rightarrow> string option" where
  "demo_tree f = Some (if last f = CHR ''v'' then write_iterations_csv [demo_result True, demo_result False]
     else write_summary_json (show_fixed 6) demo_full)"

lemma figures_from_results_witness:
  "\<exists>w. plot_main (\<lambda>v. []) demo_tree [''results''] ''out'' [] = (Inr 0, w) \<and> length w = 8
    \<and> resource_value (Some (to_dict demo_full)) [''peak_rss_mb''] (Fin 1) = Fin 5
    \<and> resource_value (Some (to_dict demo_full)) [''energy_per_auth_mJ''] (Fin 1) = Fin 0"
proof -
  have "written_tree demo_tree ''results'' (show_fixed 6) (\<lambda>t p. [demo_result True, demo_result False]) (\<lambda>t p. demo_full)"
    unfolding written_tree_def
    using demo_full_writable by (simp add: demo_tree_def raw_file_def summary_file_def times_nonneg_def demo_result_def del: writable.simps)
  from figures_from_results [OF this, where block = "\<lambda>p. demo_block" and out = "''out''" and str_of = "\<lambda>v. []"]
  show ?thesis by (fastforce simp: demo_full_def demo_block_def Let_def PROTOS_ORDER_def)
qed

end
