(* ===== verification/RunLog.thy ===== *)
theory RunLog
  imports Testbed
begin

text \<open>
  \<open>experiments/security/archive/_run_util.py\<close>: running a command of the security suite and keeping its
  output in a log file with a header and a footer. How the command ends is a parameter; directories and files are the
  events of \<open>Testbed\<close>. What is printed is not modelled.
\<close>

text \<open>\<open>subprocess.run\<close> returns, finds no program (with the exception's text), or passes the timeout. The standard
  library documents \<open>TimeoutExpired.stdout\<close> as bytes whenever any output was captured, and as \<open>None\<close>
  otherwise, also with \<open>text=True\<close>.\<close>

datatype run_outcome =
    Completed int string
  | CommandNotFound string
  | TimedOut "string option"
  | Failed pyerr

definition log_header :: "string \<Rightarrow> string list \<Rightarrow> real \<Rightarrow> string list" where
  "log_header dir command epoch =
     [''=== Security Test Command ==='', ''cwd: '' @ dir, ''cmd: '' @ join_str '' '' command,
      ''started_epoch: '' @ show_fixed 3 epoch, []]"

definition log_footer :: "int \<Rightarrow> real \<Rightarrow> string list" where
  "log_footer rc elapsed =
     [[], ''=== Security Test Result ==='', ''return_code: '' @ show_int rc, ''elapsed_seconds: '' @ show_fixed 3 elapsed]"

text \<open>The exit status and body. \<open>(exc.stdout or "") + text\<close> adds a text to bytes when there are any.\<close>

definition timeout_text :: "int option \<Rightarrow> string" where
  "timeout_text timeout = (case timeout of Some t \<Rightarrow> show_int t | None \<Rightarrow> ''None'')"

definition run_result :: "run_outcome \<Rightarrow> int option \<Rightarrow> (int \<times> string) res" where
  "run_result outcome timeout = (case outcome of
       Completed rc out \<Rightarrow> Inr (rc, out)
     | CommandNotFound exc \<Rightarrow> Inr (127, ''ERROR: command not found: '' @ exc @ [LF])
     | TimedOut out \<Rightarrow>
         (if out = None \<or> out = Some [] then Inr (124, [LF] @ ''ERROR: timeout after '' @ timeout_text timeout @ '' seconds'' @ [LF])
          else Inl (TypeError ''can't concat str to bytes''))
     | Failed x \<Rightarrow> Inl x)"

definition log_text :: "string list \<Rightarrow> string \<Rightarrow> string list \<Rightarrow> string" where
  "log_text header body footer = join_str [LF] header @ body @ [LF] @ join_str [LF] footer @ [LF]"

record run_times =
  rt_epoch :: real
  rt_elapsed :: real

definition run_logged ::
  "tb_env \<Rightarrow> run_outcome \<Rightarrow> run_times \<Rightarrow> string list \<Rightarrow> string \<Rightarrow> string \<Rightarrow> string \<Rightarrow> int option \<Rightarrow> (history, int) eff" where
  "run_logged e outcome clk command project log_dir log_name timeout =
     (let out_dir = project @ ''/'' @ log_dir in
      andthen (tell e (MakeDir out_dir)) (\<lambda>_.
      andthen (from_res (run_result outcome timeout)) (\<lambda>(rc, body).
      andthen (tell e (WriteFile (out_dir @ ''/'' @ log_name)
          (log_text (log_header project command (rt_epoch clk)) body (log_footer rc (rt_elapsed clk))))) (\<lambda>_.
        ret rc))))"

record log_args =
  la_project :: string
  la_log_dir :: string
  la_log_name :: string

definition cargo_test_filter ::
  "tb_env \<Rightarrow> run_outcome \<Rightarrow> run_times \<Rightarrow> log_args \<Rightarrow> string \<Rightarrow> string \<Rightarrow> (history, int) eff" where
  "cargo_test_filter e outcome clk args test_filter log_name =
     run_logged e outcome clk [''cargo'', ''test'', ''--test'', ''security_zkarche'', test_filter, ''--'', ''--nocapture'']
       (la_project args) (la_log_dir args) (if la_log_name args = [] then log_name else la_log_name args) None"

section \<open>What the log keeps\<close>

lemma splitlines_acc_lf: "splitlines_acc acc (x @ LF # y) = splitlines_acc acc (x @ [LF]) @ splitlines_acc [] y"
proof (induction acc x rule: splitlines_acc.induct)
  case (1 acc)
  then show ?case by simp
next
  case (2 acc c s)
  show ?case
  proof (cases "c = CHR 0x0D")
    case True
    show ?thesis
    proof (cases s)
      case Nil
      then show ?thesis using True by simp
    next
      case (Cons d t)
      then show ?thesis using True 2(1) [OF True Cons] 2(2) [OF True Cons] by (cases "d = LF") simp_all
    qed
  next
    case False
    then show ?thesis using 2(3,4) by (cases "is_linebreak c") simp_all
  qed
qed

lemma splitlines_lf: "splitlines (x @ LF # y) = splitlines (x @ [LF]) @ splitlines y"
  unfolding splitlines_def by (rule splitlines_acc_lf)

lemma line_text_show: "line_text (show_int i)" "line_text (show_fixed d x)"
proof -
  have "line_text (show_nat n)" for n using digits_show_nat [of n] by (auto simp: line_text_def is_linebreak_def is_digit_def)
  then show "line_text (show_int i)" by (simp add: show_int_def is_linebreak_def)
  have "\<not> is_linebreak c" if "is_digit c \<or> c = CHR ''.'' \<or> c = CHR ''-''" for c
    using that by (auto simp: is_linebreak_def is_digit_def)
  with show_fixed_chars [of _ d x] show "line_text (show_fixed d x)" by (simp add: line_text_def)
qed

lemma log_last_lines:
  "\<exists>ls. splitlines (log_text header body (log_footer rc elapsed))
     = ls @ [''=== Security Test Result ==='', ''return_code: '' @ show_int rc, ''elapsed_seconds: '' @ show_fixed 3 elapsed]"
proof -
  let ?tail = "unlines [''=== Security Test Result ==='', ''return_code: '' @ show_int rc, ''elapsed_seconds: '' @ show_fixed 3 elapsed]"
  have "log_text header body (log_footer rc elapsed) = (join_str [LF] header @ body @ [LF]) @ LF # ?tail"
    by (simp add: log_text_def log_footer_def unlines_def)
  moreover have "splitlines ?tail = [''=== Security Test Result ==='', ''return_code: '' @ show_int rc, ''elapsed_seconds: '' @ show_fixed 3 elapsed]"
    using splitlines_unlines [of "[''=== Security Test Result ==='', ''return_code: '' @ show_int rc, ''elapsed_seconds: '' @ show_fixed 3 elapsed]" "[]"]
    by (simp add: line_text_show is_linebreak_def)
  ultimately show ?thesis using splitlines_lf by metis
qed

text \<open>When it returns, a logged run has made the log directory and then the log file, and the exit status it
  returns, that of the command, 127 for a missing program or 124 for a timeout, can be read back from
  the last line but one of the log, whatever the command printed.\<close>

lemma run_log_keeps_status:
  assumes "run_logged e outcome clk command project log_dir log_name timeout h = (Inr rc, h')"
  shows "((\<exists>out. outcome = Completed rc out) \<or> (\<exists>exc. outcome = CommandNotFound exc \<and> rc = 127)
      \<or> (\<exists>out. outcome = TimedOut out \<and> rc = 124))
    \<and> (\<exists>contents ls t. h' = h @ [MakeDir (project @ ''/'' @ log_dir), WriteFile (project @ ''/'' @ log_dir @ ''/'' @ log_name) contents]
      \<and> splitlines contents = ls @ [''return_code: '' @ show_int rc, t])"
proof -
  from assms obtain body where r: "run_result outcome timeout = Inr (rc, body)"
    and h': "h' = h @ [MakeDir (project @ ''/'' @ log_dir), WriteFile (project @ ''/'' @ log_dir @ ''/'' @ log_name)
        (log_text (log_header project command (rt_epoch clk)) body (log_footer rc (rt_elapsed clk)))]"
    by (auto simp: run_logged_def Let_def andthen_Inr_iff tell_def ask_def)
  have "(\<exists>out. outcome = Completed rc out) \<or> (\<exists>exc. outcome = CommandNotFound exc \<and> rc = 127) \<or> (\<exists>out. outcome = TimedOut out \<and> rc = 124)"
    using r by (auto simp: run_result_def split: run_outcome.splits if_splits)
  moreover obtain ls where
    "splitlines (log_text (log_header project command (rt_epoch clk)) body (log_footer rc (rt_elapsed clk)))
     = ls @ [''=== Security Test Result ==='', ''return_code: '' @ show_int rc, ''elapsed_seconds: '' @ show_fixed 3 (rt_elapsed clk)]"
    using log_last_lines by blast
  then have "\<exists>ls t. splitlines (log_text (log_header project command (rt_epoch clk)) body (log_footer rc (rt_elapsed clk)))
      = ls @ [''return_code: '' @ show_int rc, t]"
    by (intro exI [of _ "ls @ [''=== Security Test Result ==='']"] exI [of _ "''elapsed_seconds: '' @ show_fixed 3 (rt_elapsed clk)"]) simp
  ultimately show ?thesis using h' by blast
qed

lemma run_log_keeps_status_witness:
  "\<exists>h' ls t contents. run_logged quiet_env (Completed 101 ''failures: 1'') \<lparr>rt_epoch = 0, rt_elapsed = 1\<rparr> [''cargo'', ''test''] ''/p'' ''logs''
      ''07.log'' None [] = (Inr 101, h') \<and> h' = [MakeDir ''/p/logs'', WriteFile ''/p/logs/07.log'' contents]
    \<and> splitlines contents = ls @ [''return_code: '' @ show_int 101, t]"
proof -
  obtain h' where run: "run_logged quiet_env (Completed 101 ''failures: 1'') \<lparr>rt_epoch = 0, rt_elapsed = 1\<rparr> [''cargo'', ''test'']
      ''/p'' ''logs'' ''07.log'' None [] = (Inr 101, h')"
    by (simp add: run_logged_def run_result_def andthen_def tell_def ask_def quiet_env_def)
  from run_log_keeps_status [OF run] run show ?thesis by auto
qed

text \<open>A command that printed anything before its timeout leaves no log: the error message is added to bytes, and
  the run ends with a type error after only the directory was made.\<close>

lemma timeout_with_output_loses_log:
  assumes "out \<noteq> []" and "te_answer e (h @ [MakeDir (project @ ''/'' @ log_dir)]) = Inr a"
  shows "\<exists>msg. run_logged e (TimedOut (Some out)) clk command project log_dir log_name timeout h
    = (Inl (TypeError msg), h @ [MakeDir (project @ ''/'' @ log_dir)])"
  using assms by (simp add: run_logged_def run_result_def andthen_def tell_def ask_def)

lemma timeout_with_output_loses_log_witness:
  "\<exists>msg. run_logged quiet_env (TimedOut (Some ''running 3 tests'')) \<lparr>rt_epoch = 0, rt_elapsed = 60\<rparr> [''cargo''] ''/p'' ''logs'' ''07.log'' (Some 60) []
    = (Inl (TypeError msg), [MakeDir ''/p/logs''])"
  using timeout_with_output_loses_log [of "''running 3 tests''" quiet_env "[]" "''/p''" "''logs''" quiet_answer]
  by (simp add: quiet_env_def)

end
