(* ===== verification/RngCheck.thy ===== *)
theory RngCheck
  imports Regex Csv PyFloat "HOL-Library.Word"
begin

text \<open>
  \<open>experiments/security/archive/rng_sidechannel_check.py\<close>: the smoke test of the system's random bytes,
  the search of the sources for secrets that are printed, the search of the dependency list, and the
  checklist written as CSV. The random bytes, the source files in the order they are listed, the output
  of \<open>cargo tree\<close> and the contents of \<open>Cargo.toml\<close> and \<open>/proc\<close> are parameters.
\<close>

section \<open>Random bytes\<close>

type_synonym byte = "8 word"

definition bit_count :: "byte \<Rightarrow> nat" where
  "bit_count w = sum_list (map (\<lambda>i. if bit w i then 1 else 0) [0..<8])"

text \<open>The loop over the samples with the set seen, the number of ones and whether a sample was seen before.\<close>

fun smoke_loop :: "byte list list \<Rightarrow> byte list set \<Rightarrow> nat \<Rightarrow> bool \<Rightarrow> bool \<times> nat" where
  "smoke_loop [] seen ones duplicate = (duplicate, ones)"
| "smoke_loop (b # bs) seen ones duplicate =
     smoke_loop bs (insert b seen) (ones + sum_list (map bit_count b)) (if b \<in> seen then True else duplicate)"

text \<open>\<open>urandom i\<close> is the result of the \<open>i\<close>th call of \<open>os.urandom(32)\<close>.\<close>

definition rng_smoke :: "(nat \<Rightarrow> byte list) \<Rightarrow> int \<Rightarrow> (bool \<times> real) res" where
  "rng_smoke urandom samples =
     (case smoke_loop (map urandom [0..<nat samples]) {} 0 False of (duplicate, ones) \<Rightarrow>
      let total_bits = samples * 32 * 8 in
      if total_bits = 0 then Inl ZeroDivisionError
      else Inr (duplicate, real ones / of_int total_bits))"

section \<open>Secrets that are printed\<close>

text \<open>A literal under \<open>re.IGNORECASE\<close>, and \<open>.*\<close>.\<close>

fun ilit :: "string \<Rightarrow> rx" where
  "ilit [] = Eps"
| "ilit (p # ps) = Seq (Cls (\<lambda>c. lower_char c = lower_char p)) (ilit ps)"

definition dots :: rx where
  "dots = Star (\<lambda>c. c \<noteq> CHR 0x0A)"

fun alts :: "rx list \<Rightarrow> rx" where
  "alts [] = Cls (\<lambda>c. False)"
| "alts [r] = r"
| "alts (r # rs) = Alt r (alts rs)"

definition SECRET_WORDS :: "string list" where
  "SECRET_WORDS = [''secret'', ''private'', ''scalar'', ''session_key'', ''pairing_token'', ''device_root'']"

definition rx_secret :: rx where
  "rx_secret = alts (map ilit SECRET_WORDS)"

definition SECRET_PATTERNS :: "rx list" where
  "SECRET_PATTERNS =
     [seqs [ilit ''println!'', dots, rx_secret],
      seqs [ilit ''log::'', alts (map ilit [''debug'', ''info'', ''warn'', ''error'']), ilit ''!'', dots, rx_secret],
      seqs [ilit ''dbg!('', dots, rx_secret]]"

definition finding :: "string \<Rightarrow> nat \<Rightarrow> string \<Rightarrow> string" where
  "finding path lineno line = path @ '':'' @ show_nat lineno @ '':'' @ strip line"

text \<open>The lines of a file, numbered from \<open>lineno\<close>; a line is listed once per pattern it matches.\<close>

fun grep_lines :: "rx list \<Rightarrow> string \<Rightarrow> nat \<Rightarrow> string list \<Rightarrow> string list" where
  "grep_lines patterns path lineno [] = []"
| "grep_lines patterns path lineno (l # ls) =
     map (\<lambda>_. finding path lineno l) (filter (\<lambda>p. re_search p l \<noteq> None) patterns)
     @ grep_lines patterns path (Suc lineno) ls"

text \<open>\<open>None\<close> when there is no \<open>src\<close> directory, otherwise the files with their texts.\<close>

definition grep_source :: "(string \<times> string) list option \<Rightarrow> rx list \<Rightarrow> string list" where
  "grep_source files patterns = (case files of
       None \<Rightarrow> [''src directory not found'']
     | Some fs \<Rightarrow> concat (map (\<lambda>(path, text). grep_lines patterns path 1 (splitlines text)) fs))"

section \<open>The checklist\<close>

text \<open>\<open>cargo tree\<close>: its two outputs, or \<open>None\<close> for any exception; the text of \<open>Cargo.toml\<close> if there is one.\<close>

definition cargo_tree_has :: "(string \<times> string) option \<Rightarrow> string option \<Rightarrow> string \<Rightarrow> bool" where
  "cargo_tree_has tree cargo_toml needle = (case tree of
       Some (out, err) \<Rightarrow> is_infix (lower needle) (lower (out @ err))
     | None \<Rightarrow> is_infix (lower needle) (lower (case cargo_toml of Some t \<Rightarrow> t | None \<Rightarrow> [])))"

definition read_entropy_avail :: "string option \<Rightarrow> string" where
  "read_entropy_avail p = (case p of Some t \<Rightarrow> strip t | None \<Rightarrow> ''unavailable'')"

record rng_env =
  re_urandom :: "nat \<Rightarrow> byte list"
  re_files :: "(string \<times> string) list option"
  re_tree :: "(string \<times> string) option"
  re_cargo_toml :: "string option"
  re_entropy :: "string option"

definition verdict :: "bool \<Rightarrow> string" where
  "verdict ok = (if ok then ''PASS'' else ''WARN'')"

definition rng_rows :: "rng_env \<Rightarrow> int \<Rightarrow> bool \<Rightarrow> real \<Rightarrow> string list list" where
  "rng_rows e samples duplicate bit_ratio =
     (let found = grep_source (re_files e) SECRET_PATTERNS;
          zeroize_present = cargo_tree_has (re_tree e) (re_cargo_toml e) ''zeroize'';
          subtle_present = cargo_tree_has (re_tree e) (re_cargo_toml e) ''subtle'' in
      [[''entropy_avail'', ''INFO'', read_entropy_avail (re_entropy e)],
       [''rng_duplicate_32byte_samples'', if duplicate then ''FAIL'' else ''PASS'', ''samples='' @ show_int samples],
       [''rng_bit_balance'', verdict (0.48 \<le> bit_ratio \<and> bit_ratio \<le> 0.52), ''ones_ratio='' @ show_fixed 6 bit_ratio],
       [''zeroize_dependency'', verdict zeroize_present, if zeroize_present then ''zeroize present'' else ''zeroize not found''],
       [''constant_time_dependency'', verdict subtle_present, if subtle_present then ''subtle present'' else ''subtle not found''],
       [''secret_logging_grep'', verdict (found = []), if found = [] then ''none'' else join_str '' | '' (take 20 found)],
       [''manual_side_channel_review'', ''TODO'',
        ''Review scalar multiplication, equality checks, logs, debug builds, power traces if available.'']])"

text \<open>The text of the output file, or the exception that ends the program before it is opened.\<close>

definition rng_main :: "rng_env \<Rightarrow> int \<Rightarrow> string res" where
  "rng_main e samples =
     bind_res (rng_smoke (re_urandom e) samples) (\<lambda>(duplicate, bit_ratio).
       Inr (csv_write ([''check'', ''status'', ''detail''] # rng_rows e samples duplicate bit_ratio)))"

section \<open>The smoke test\<close>

lemma bit_count_le: "bit_count w \<le> 8"
proof -
  have "sum_list (map (\<lambda>i. if bit w i then 1 else 0) is) \<le> length is" for "is"
    by (induction "is") auto
  from this [of "[0..<8]"] show ?thesis by (simp add: bit_count_def)
qed

lemma smoke_loop_result:
  "smoke_loop bs seen ones duplicate =
     (duplicate \<or> \<not> distinct bs \<or> set bs \<inter> seen \<noteq> {}, ones + sum_list (map (\<lambda>b. sum_list (map bit_count b)) bs))"
  by (induction bs arbitrary: seen ones duplicate) auto

lemma ones_le: "\<forall>b \<in> set bs. length b = 32 \<Longrightarrow> sum_list (map (\<lambda>b. sum_list (map bit_count b)) bs) \<le> length bs * 256"
proof (induction bs)
  case (Cons b bs)
  have "sum_list (map bit_count b) \<le> length b * 8" using bit_count_le by (induction b) (auto intro: add_mono)
  with Cons show ?case by simp
qed simp

text \<open>C35: for a positive number of samples of 32 bytes the smoke test reports a duplicate exactly when two of
  the samples are equal, and a ratio between 0 and 1 that times the number of bits is the number of ones;
  without samples it divides by zero.\<close>

theorem rng_smoke_exact:
  assumes "\<And>i. length (urandom i) = 32"
  shows "rng_smoke urandom 0 = Inl ZeroDivisionError
    \<and> (\<exists>ratio. rng_smoke urandom (int (Suc n)) = Inr (\<not> distinct (map urandom [0..<Suc n]), ratio) \<and> 0 \<le> ratio \<and> ratio \<le> 1
        \<and> ratio * real (Suc n * 256) = real (\<Sum>i < Suc n. sum_list (map bit_count (urandom i))))"
proof -
  let ?bs = "map urandom [0..<Suc n]"
  let ?ones = "sum_list (map (\<lambda>b. sum_list (map bit_count b)) ?bs)"
  have "?ones \<le> Suc n * 256" using ones_le [of ?bs] assms by auto
  then have "real ?ones / real (Suc n * 256) \<le> 1" by simp
  moreover have "?ones = (\<Sum>i < Suc n. sum_list (map bit_count (urandom i)))"
    by (simp add: sum_list_distinct_conv_sum_set lessThan_atLeast0 comp_def del: upt_Suc)
  moreover have "rng_smoke urandom (int m) = Inr (\<not> distinct (map urandom [0..<m]),
      real (sum_list (map (\<lambda>b. sum_list (map bit_count b)) (map urandom [0..<m]))) / real (m * 256))" if "0 < m" for m
    using that by (simp add: rng_smoke_def smoke_loop_result)
  from this [of "Suc n"] have "rng_smoke urandom (int (Suc n)) = Inr (\<not> distinct ?bs, real ?ones / real (Suc n * 256))"
    by (simp only: zero_less_Suc True_implies_equals)
  moreover have "rng_smoke urandom 0 = Inl ZeroDivisionError" by (simp add: rng_smoke_def)
  moreover have "0 \<le> real ?ones / real (Suc n * 256)" "real ?ones / real (Suc n * 256) * real (Suc n * 256) = real ?ones"
    by (simp_all del: upt_Suc)
  ultimately show ?thesis by (intro conjI exI [of _ "real ?ones / real (Suc n * 256)"]) (simp_all only:)
qed

lemma rng_smoke_exact_witness:
  "\<exists>ratio. rng_smoke (\<lambda>i. replicate 32 (if i = 0 then 0 else - 1)) (int (Suc 1)) = Inr (False, ratio) \<and> ratio * 512 = 256"
proof -
  let ?u = "\<lambda>i :: nat. replicate 32 (if i = 0 then 0 else - 1 :: byte)"
  have upt: "[0..<8] = [0, 1, 2, 3, 4, 5, 6, 7 :: nat]" by code_simp
  have bits: "bit_count 0 = 0" "bit_count (- 1) = 8" by (simp_all add: bit_count_def upt)
  have len: "length (?u i) = 32" for i by simp
  have "[0..<Suc 1] = [0, 1]" by (simp add: upt_rec)
  then have "distinct (map ?u [0..<Suc 1])" by simp
  moreover have "(\<Sum>i < Suc 1. sum_list (map bit_count (?u i))) = 256"
    by (simp add: sum_list_replicate bits lessThan_Suc)
  ultimately show ?thesis using rng_smoke_exact [of ?u 1, OF len] by auto
qed

section \<open>The search for secrets\<close>

definition PRINTERS :: "string list" where
  "PRINTERS = [''println!'', ''log::debug!'', ''log::info!'', ''log::warn!'', ''log::error!'', ''dbg!('']"

text \<open>A line that prints a secret: in lower case, a printing macro and after it one of the words.\<close>

definition leaks :: "string \<Rightarrow> bool" where
  "leaks line \<longleftrightarrow> (\<exists>p \<in> set PRINTERS. \<exists>w \<in> set SECRET_WORDS. \<exists>a b c. lower line = a @ p @ b @ w @ c)"

lemma lang_ilit: "lang (ilit p) = {s. lower s = lower p}"
proof (induction p)
  case Nil
  then show ?case by (simp add: lower_def)
next
  case (Cons x p)
  have "lang (ilit (x # p)) = {[c] @ v |c v. lower_char c = lower_char x \<and> lower v = lower p}"
    unfolding ilit.simps lang.simps Cons.IH by blast
  also have "\<dots> = {s. lower s = lower (x # p)}" by (auto simp: lower_def map_eq_Cons_conv)
  finally show ?case .
qed

lemma lang_alts: "lang (alts rs) = (\<Union>r \<in> set rs. lang r)"
  by (induction rs rule: alts.induct) auto

lemma lang_secret: "lang rx_secret = {s. lower s \<in> set SECRET_WORDS}"
proof -
  have "\<forall>w \<in> set SECRET_WORDS. lower w = w" by (simp add: SECRET_WORDS_def lower_def lower_char_def)
  then show ?thesis by (auto simp: rx_secret_def lang_alts lang_ilit)
qed

lemma lower_append: "lower s = a @ b \<longleftrightarrow> (\<exists>s1 s2. s = s1 @ s2 \<and> lower s1 = a \<and> lower s2 = b)"
  by (auto simp: lower_def map_eq_append_conv)

text \<open>A pattern that begins with a macro and, after any text, ends with a secret.\<close>

lemma search_secret:
  assumes "CHR 0x0A \<notin> set line" and "lang r = {s. lower s \<in> P}"
  shows "re_search (Seq r (Seq dots rx_secret)) line \<noteq> None
    \<longleftrightarrow> (\<exists>p \<in> P. \<exists>w \<in> set SECRET_WORDS. \<exists>a b c. lower line = a @ p @ b @ w @ c)"
proof -
  have lang: "lang (Seq r (Seq dots rx_secret))
      = {x @ y @ z |x y z. lower x \<in> P \<and> CHR 0x0A \<notin> set y \<and> lower z \<in> set SECRET_WORDS}"
    by (auto simp: assms(2) dots_def lang_secret)
  show ?thesis
  proof
    assume "re_search (Seq r (Seq dots rx_secret)) line \<noteq> None"
    then obtain u x y z v where "line = u @ x @ y @ z @ v" "lower x \<in> P" "lower z \<in> set SECRET_WORDS"
      unfolding re_search_iff lang by auto
    then show "\<exists>p \<in> P. \<exists>w \<in> set SECRET_WORDS. \<exists>a b c. lower line = a @ p @ b @ w @ c"
      by (intro bexI [of _ "lower x"] bexI [of _ "lower z"] exI [of _ "lower u"] exI [of _ "lower y"] exI [of _ "lower v"])
        (simp_all add: lower_def)
  next
    assume "\<exists>p \<in> P. \<exists>w \<in> set SECRET_WORDS. \<exists>a b c. lower line = a @ p @ b @ w @ c"
    then obtain u x y z v where l: "line = u @ x @ y @ z @ v" "lower x \<in> P" "lower z \<in> set SECRET_WORDS"
      unfolding lower_append by blast
    then have "x @ y @ z \<in> lang (Seq r (Seq dots rx_secret))" unfolding lang using assms(1) by auto
    then show "re_search (Seq r (Seq dots rx_secret)) line \<noteq> None"
      unfolding re_search_iff using l(1) by (intro exI [of _ u] exI [of _ "x @ y @ z"] exI [of _ v]) simp
  qed
qed

lemma lang_Seq_lower:
  assumes "lang a = {s. lower s \<in> A}" and "lang b = {s. lower s \<in> B}"
  shows "lang (Seq a b) = {s. lower s \<in> (\<Union>x \<in> A. (\<lambda>y. x @ y) ` B)}"
proof -
  have "s \<in> lang (Seq a b) \<longleftrightarrow> (\<exists>x \<in> A. \<exists>y \<in> B. lower s = x @ y)" for s
    by (simp add: assms) (auto simp: lower_def map_eq_append_conv)
  then show ?thesis by (intro set_eqI) (simp add: image_iff)
qed

lemma lang_Seq_assoc: "lang (Seq (Seq a b) c) = lang (Seq a (Seq b c))"
proof
  show "lang (Seq (Seq a b) c) \<subseteq> lang (Seq a (Seq b c))"
  proof
    fix s assume "s \<in> lang (Seq (Seq a b) c)"
    then obtain u v w where "s = u @ v @ w" "u \<in> lang a" "v \<in> lang b" "w \<in> lang c" by auto
    then show "s \<in> lang (Seq a (Seq b c))" unfolding lang.simps by blast
  qed
  show "lang (Seq a (Seq b c)) \<subseteq> lang (Seq (Seq a b) c)"
  proof
    fix s assume "s \<in> lang (Seq a (Seq b c))"
    then obtain u v w where "s = (u @ v) @ w" "u \<in> lang a" "v \<in> lang b" "w \<in> lang c" by auto
    then show "s \<in> lang (Seq (Seq a b) c)" unfolding lang.simps by blast
  qed
qed

lemma lang_ilit_lower: "lower p = p \<Longrightarrow> lang (ilit p) = {s. lower s \<in> {p}}"
  by (simp add: lang_ilit)

lemma pattern_found:
  assumes "CHR 0x0A \<notin> set line"
  shows "(\<exists>p \<in> set SECRET_PATTERNS. re_search p line \<noteq> None) \<longleftrightarrow> leaks line"
proof -
  let ?tail = "Seq dots rx_secret"
  let ?levels = "alts (map ilit [''debug'', ''info'', ''warn'', ''error''])"
  have low: "lower ''println!'' = ''println!''" "lower ''log::'' = ''log::''" "lower ''!'' = ''!''" "lower ''dbg!('' = ''dbg!(''"
    "lower ''debug'' = ''debug''" "lower ''info'' = ''info''" "lower ''warn'' = ''warn''" "lower ''error'' = ''error''"
    by code_simp+
  have levels: "lang ?levels = {s. lower s \<in> {''debug'', ''info'', ''warn'', ''error''}}"
    by (auto simp: lang_alts lang_ilit low simp del: ilit.simps)
  have macro: "lang (Seq (ilit ''log::'') (Seq ?levels (ilit ''!'')))
      = {s. lower s \<in> {''log::debug!'', ''log::info!'', ''log::warn!'', ''log::error!''}}"
    by (subst lang_Seq_lower [OF lang_ilit_lower [OF low(2)] lang_Seq_lower [OF levels lang_ilit_lower [OF low(3)]]]) auto
  have "lang (seqs [ilit ''log::'', ?levels, ilit ''!'', dots, rx_secret]) = lang (Seq (Seq (ilit ''log::'') (Seq ?levels (ilit ''!''))) ?tail)"
    unfolding lang_Seq_assoc seqs.simps lang.simps(5) [of "ilit ''log::''"] lang_Seq_assoc [of ?levels] by (rule refl)
  then have log: "re_search (seqs [ilit ''log::'', ?levels, ilit ''!'', dots, rx_secret]) line \<noteq> None
      \<longleftrightarrow> re_search (Seq (Seq (ilit ''log::'') (Seq ?levels (ilit ''!''))) ?tail) line \<noteq> None"
    unfolding re_search_iff by simp
  show ?thesis
    unfolding SECRET_PATTERNS_def list.set bex_simps leaks_def PRINTERS_def log
    unfolding seqs.simps search_secret [OF assms lang_ilit_lower [OF low(1)]] search_secret [OF assms lang_ilit_lower [OF low(4)]]
      search_secret [OF assms macro]
    by (simp only: list.set bex_simps(5) bex_empty simp_thms disj_assoc)
qed

text \<open>The lines of a text hold no line break.\<close>

lemma splitlines_acc_line_text: "l \<in> set (splitlines_acc acc s) \<Longrightarrow> line_text acc \<Longrightarrow> line_text l"
proof (induction acc s rule: splitlines_acc.induct)
  case (1 acc)
  then show ?case by (simp add: line_text_def split: if_splits)
next
  case (2 acc c s)
  have ends: "l = rev acc \<Longrightarrow> line_text l" using 2(6) by (simp add: line_text_def)
  show ?case
  proof (cases "c = CHR 0x0D")
    case True
    show ?thesis
    proof (cases s)
      case Nil
      then show ?thesis using 2(5) True ends by simp
    next
      case (Cons d t)
      then have "l = rev acc \<or> (d = CHR 0x0A \<and> l \<in> set (splitlines_acc [] t)) \<or> (d \<noteq> CHR 0x0A \<and> l \<in> set (splitlines_acc [] s))"
        using 2(5) True by (cases "d = CHR 0x0A") simp_all
      then show ?thesis using ends 2(1) [OF True Cons] 2(2) [OF True Cons] by auto
    qed
  next
    case False
    show ?thesis
    proof (cases "is_linebreak c")
      case True
      then have "l = rev acc \<or> l \<in> set (splitlines_acc [] s)" using 2(5) False by simp
      then show ?thesis using ends 2(3) [OF False True] by auto
    next
      case nobreak: False
      have "l \<in> set (splitlines_acc (c # acc) s)" using 2(5) False nobreak by simp
      then show ?thesis using 2(4) [OF False nobreak] 2(6) nobreak by simp
    qed
  qed
qed

lemma line_of_text: "l \<in> set (splitlines s) \<Longrightarrow> line_text l"
  using splitlines_acc_line_text [of l "[]" s] by (auto simp: splitlines_def)

definition flagged :: "rx list \<Rightarrow> string \<Rightarrow> bool" where
  "flagged patterns line \<longleftrightarrow> (\<exists>p \<in> set patterns. re_search p line \<noteq> None)"

lemma grep_lines_set:
  "f \<in> set (grep_lines ps path k ls) \<longleftrightarrow> (\<exists>i < length ls. flagged ps (ls ! i) \<and> f = finding path (k + i) (ls ! i))"
proof (induction ls arbitrary: k)
  case (Cons l ls)
  have "f \<in> set (map (\<lambda>_. finding path k l) (filter (\<lambda>p. re_search p l \<noteq> None) ps)) \<longleftrightarrow> flagged ps l \<and> f = finding path k l"
    by (auto simp: flagged_def simp del: not_None_eq)
  then show ?case using Cons by (simp only: grep_lines.simps set_append Un_iff length_Cons Ex_less_Suc2) simp
qed simp

text \<open>C34: the search lists exactly the lines of the sources that, in lower case, hold one of the printing macros
  and after it one of the secret words, each with its file, its number counted from one and its text without
  the blanks around it; and the checklist says that the search passed exactly when there is no such line.\<close>

theorem secret_lines_found:
  "set (grep_source (Some files) SECRET_PATTERNS)
     = {finding path (i + 1) (splitlines text ! i) |path text i.
          (path, text) \<in> set files \<and> i < length (splitlines text) \<and> leaks (splitlines text ! i)}
   \<and> ([''secret_logging_grep'', ''PASS'', ''none''] \<in> set (rng_rows (e\<lparr>re_files := Some files\<rparr>) samples duplicate ratio)
      \<longleftrightarrow> (\<forall>(path, text) \<in> set files. \<forall>l \<in> set (splitlines text). \<not> leaks l))"
proof -
  have line: "flagged SECRET_PATTERNS (splitlines src ! i) \<longleftrightarrow> leaks (splitlines src ! i)" if "i < length (splitlines src)" for src i
    using line_of_text [OF nth_mem [OF that]] unfolding flagged_def by (intro pattern_found) (auto simp: line_text_def)
  have "f \<in> set (grep_source (Some files) SECRET_PATTERNS) \<longleftrightarrow>
      (\<exists>path text i. f = finding path (i + 1) (splitlines text ! i)
         \<and> (path, text) \<in> set files \<and> i < length (splitlines text) \<and> leaks (splitlines text ! i))" for f
    unfolding grep_source_def option.case set_concat set_map
    by (auto simp: grep_lines_set line split: prod.splits) (use line in force)+
  then have found: "set (grep_source (Some files) SECRET_PATTERNS)
     = {finding path (i + 1) (splitlines text ! i) |path text i.
          (path, text) \<in> set files \<and> i < length (splitlines text) \<and> leaks (splitlines text ! i)}"
    by blast
  have "grep_source (Some files) SECRET_PATTERNS = [] \<longleftrightarrow> (\<forall>(path, text) \<in> set files. \<forall>l \<in> set (splitlines text). \<not> leaks l)"
    unfolding set_empty [symmetric] found by (fastforce simp: in_set_conv_nth)
  moreover have "[''secret_logging_grep'', ''PASS'', ''none''] \<in> set (rng_rows (e\<lparr>re_files := Some files\<rparr>) samples duplicate ratio)
      \<longleftrightarrow> grep_source (Some files) SECRET_PATTERNS = []"
    by (simp add: rng_rows_def Let_def verdict_def)
  ultimately show ?thesis using found by simp
qed

lemma secret_lines_found_witness:
  "set (grep_source (Some [(''src/a.rs'', ''println!(secret)'')]) SECRET_PATTERNS) = {''src/a.rs:1:println!(secret)''}
    \<and> [''secret_logging_grep'', ''PASS'', ''none'']
      \<notin> set (rng_rows \<lparr>re_urandom = \<lambda>_. [], re_files = Some [(''src/a.rs'', ''println!(secret)'')], re_tree = None, re_cargo_toml = None,
           re_entropy = None\<rparr> 1 False 0)"
proof -
  let ?files = "[(''src/a.rs'', ''println!(secret)'')]"
  let ?e = "\<lparr>re_urandom = \<lambda>_. [], re_files = None, re_tree = None, re_cargo_toml = None, re_entropy = None\<rparr>"
  have lines: "splitlines ''println!(secret)'' = [''println!(secret)'']" by (simp add: splitlines_def is_linebreak_def)
  have "lower ''println!(secret)'' = [] @ ''println!'' @ ''('' @ ''secret'' @ '')''" by code_simp
  then have leak: "leaks ''println!(secret)''" unfolding leaks_def
    by (intro bexI [of _ "''println!''"] bexI [of _ "''secret''"] exI) (assumption | simp add: PRINTERS_def SECRET_WORDS_def)+
  have found: "finding ''src/a.rs'' 1 ''println!(secret)'' = ''src/a.rs:1:println!(secret)''"
    by (simp add: finding_def show_nat.simps strip_def lstrip_def rstrip_def is_space_def)
  have "{finding path (i + 1) (splitlines src ! i) |path src i.
      (path, src) \<in> set ?files \<and> i < length (splitlines src) \<and> leaks (splitlines src ! i)} = {''src/a.rs:1:println!(secret)''}"
    using leak found by (auto simp: lines)
  with secret_lines_found [of ?files ?e 1 False 0] leak show ?thesis by (simp add: lines)
qed

section \<open>The report\<close>

lemma plain_finding: "plain_field path \<Longrightarrow> line_text l \<Longrightarrow> plain_field (finding path n l)"
proof -
  assume path: "plain_field path" and l: "line_text l"
  have "set (strip l) \<subseteq> set l" by (auto simp: strip_def lstrip_def rstrip_def dest!: set_dropWhileD)
  then have "CR \<notin> set (strip l)" using l by (auto simp: line_text_def is_linebreak_def)
  then show ?thesis using path plain_show_nat [of n] by (simp add: finding_def plain_field_def)
qed

lemma plain_grep:
  assumes "\<forall>(path, text) \<in> set (case files of Some fs \<Rightarrow> fs | None \<Rightarrow> []). plain_field path"
    and "f \<in> set (grep_source files ps)"
  shows "plain_field f"
proof (cases files)
  case None
  then show ?thesis using assms(2) by (simp add: grep_source_def plain_field_def)
next
  case (Some fs)
  then obtain path src where "(path, src) \<in> set fs" "f \<in> set (grep_lines ps path 1 (splitlines src))"
    using assms(2) by (auto simp: grep_source_def)
  moreover from this(2) obtain l n where "f = finding path n l" "l \<in> set (splitlines src)"
    unfolding grep_lines_set by (auto dest: nth_mem)
  ultimately show ?thesis using plain_finding line_of_text assms(1) Some by auto
qed

lemma plain_join: "plain_field sep \<Longrightarrow> \<forall>f \<in> set fs. plain_field f \<Longrightarrow> plain_field (join_str sep fs)"
  using join_plain [of sep fs] by (simp add: plain_field_def)

lemma plain_show_fixed: "plain_field (show_fixed d x)"
  using show_fixed_chars [of "CR" d x] by (auto simp: plain_field_def is_digit_def)

text \<open>The checklist file, read back as CSV, is the header and seven rows of three fields, the checks in their
  fixed order, provided no file name and no entropy text brings a carriage return; the duplicate row fails exactly for
  a duplicate, and the balance row passes exactly for a ratio of ones between 0.48 and 0.52.\<close>

lemma rng_report_reads_back:
  assumes "rng_main e samples = Inr out" and "rng_smoke (re_urandom e) samples = Inr (duplicate, ratio)"
    and "\<forall>(path, text) \<in> set (case re_files e of Some fs \<Rightarrow> fs | None \<Rightarrow> []). plain_field path"
    and "plain_field (read_entropy_avail (re_entropy e))"
  shows "\<exists>rows. csv_read (universal_newlines out) = [''check'', ''status'', ''detail''] # rows
    \<and> map hd rows = [''entropy_avail'', ''rng_duplicate_32byte_samples'', ''rng_bit_balance'', ''zeroize_dependency'',
        ''constant_time_dependency'', ''secret_logging_grep'', ''manual_side_channel_review'']
    \<and> (\<forall>r \<in> set rows. length r = 3)
    \<and> (rows ! 1) ! 1 = (if duplicate then ''FAIL'' else ''PASS'')
    \<and> ((rows ! 2) ! 1 = ''PASS'' \<longleftrightarrow> 0.48 \<le> ratio \<and> ratio \<le> 0.52)"
proof -
  let ?rows = "rng_rows e samples duplicate ratio"
  have found: "plain_field (join_str '' | '' (take 20 (grep_source (re_files e) SECRET_PATTERNS)))"
    using plain_grep [OF assms(3)] by (intro plain_join) (auto simp: plain_field_def dest: in_set_takeD)
  have "plain_field (''samples='' @ show_int samples)" using plain_show_int [of samples] by (simp add: plain_field_def)
  moreover have "plain_field (''ones_ratio='' @ show_fixed 6 ratio)" using plain_show_fixed [of 6 ratio] by (simp add: plain_field_def)
  ultimately have "\<forall>r \<in> set ?rows. plain_row r" using assms(4) found
    by (simp add: rng_rows_def Let_def verdict_def plain_row_def) (simp add: plain_field_def)
  moreover have "plain_row [''check'', ''status'', ''detail'']" by (simp add: plain_row_def plain_field_def)
  moreover have "out = csv_write ([''check'', ''status'', ''detail''] # ?rows)" using assms(1,2) by (simp add: rng_main_def)
  ultimately have "csv_read (universal_newlines out) = [''check'', ''status'', ''detail''] # ?rows"
    using csv_read_write [of "[''check'', ''status'', ''detail''] # ?rows"] by simp
  then show ?thesis by (intro exI [of _ ?rows]) (simp add: rng_rows_def Let_def verdict_def)
qed

definition demo_rng :: rng_env where
  "demo_rng = \<lparr>re_urandom = \<lambda>i. replicate 32 0, re_files = None, re_tree = None, re_cargo_toml = None, re_entropy = None\<rparr>"

lemma rng_report_reads_back_witness:
  "\<exists>out rows. rng_main demo_rng 1 = Inr out \<and> csv_read (universal_newlines out) = [''check'', ''status'', ''detail''] # rows"
proof -
  have smoke: "rng_smoke (re_urandom demo_rng) 1 = Inr (False, 0)"
    by (simp add: rng_smoke_def demo_rng_def bit_count_def sum_list_replicate)
  then obtain out where out: "rng_main demo_rng 1 = Inr out" by (simp add: rng_main_def)
  from rng_report_reads_back [OF out smoke] out show ?thesis
    by (auto simp: demo_rng_def read_entropy_avail_def plain_field_def)
qed

end
