(* ===== verification/Suite.thy ===== *)
theory Suite
  imports RunLog RngCheck Json
begin

text \<open>
  \<open>experiments/security/security_test.py\<close>: its world and its basic operations, which are the statuses, the
  embedded Rust files, the logged runs and the paths of the results. The state holds the text files, the commands
  run so far and the number of connections opened so far. The environment decides, from the state, how a
  command ends and which files it leaves, which writes fail, what the clocks show, and how a
  connection fares. The embedded Rust texts and the results of \<open>resolve()\<close> are parameters; paths are texts
  and are not normalised. What is printed is not modelled.
\<close>

section \<open>The world\<close>

record suite =
  su_files :: "string \<Rightarrow> string option"
  su_ran :: "string list list"
  su_conns :: nat

text \<open>A connection: refused, lost while sending, lost while receiving, or served.\<close>

datatype conn_outcome = ConnRefused | SendFails | RecvFails | Served

text \<open>The recovery command: its status and output, a timeout, or no start with the exception's text.\<close>

datatype recovery_outcome = RecoveryDone int string | RecoveryTimeout | RecoveryFailed string

record suite_env =
  se_root :: "string \<Rightarrow> string"
  se_resolve :: "string \<Rightarrow> string"
  se_security_rs :: string
  se_fuzz_toml :: string
  se_packet_rs :: string
  se_denied :: "suite \<Rightarrow> string \<Rightarrow> pyerr option"
  se_run :: "suite \<Rightarrow> string list \<Rightarrow> int option \<Rightarrow> run_outcome \<times> (string \<Rightarrow> string option)"
  se_epoch :: "suite \<Rightarrow> real"
  se_clock :: "suite \<Rightarrow> real"
  se_connect :: "nat \<Rightarrow> conn_outcome"
  se_shell :: "suite \<Rightarrow> string \<Rightarrow> recovery_outcome"
  se_rng :: "suite \<Rightarrow> rng_env"
  se_version :: "string list \<Rightarrow> string + int \<times> string"
  se_python :: string
  se_script :: string
  se_py_version :: string
  se_platform :: string
  se_repr :: "real \<Rightarrow> string"

record suite_args =
  sa_project :: string
  sa_log_dir :: string
  sa_test :: string
  sa_force_install :: bool
  sa_samples :: int
  sa_csv_dir :: string
  sa_csv :: string
  sa_seconds :: int
  sa_host :: string
  sa_port :: int
  sa_protocol :: string
  sa_random :: int
  sa_oversized :: int
  sa_idle :: int
  sa_slow :: int
  sa_hold :: real
  sa_output :: "string option"
  sa_recovery :: "string option"

definition default_suite_args :: suite_args where
  "default_suite_args = \<lparr>sa_project = ''.'', sa_log_dir = ''results/security/logs'', sa_test = ''all'', sa_force_install = False,
     sa_samples = 10000, sa_csv_dir = ''results/security/csv'',
     sa_csv = ''results/security/csv/08_side_channel_rng_analysis.csv'', sa_seconds = 60, sa_host = ''127.0.0.1'', sa_port = 4000,
     sa_protocol = ''zkarche'', sa_random = 100, sa_oversized = 50, sa_idle = 25, sa_slow = 25, sa_hold = 6,
     sa_output = None, sa_recovery = None\<rparr>"

definition SUITE_CHOICES :: "string list" where
  "SUITE_CHOICES = [''all'', ''install'', ''transcript'', ''mutation'', ''invalid-curve'', ''session'', ''replay'', ''side-channel'',
     ''fuzz'', ''dos'', ''_sidechannel_direct'']"

text \<open>\<open>p / q\<close>: an absolute \<open>q\<close> replaces \<open>p\<close>.\<close>

definition path_join :: "string \<Rightarrow> string \<Rightarrow> string" where
  "path_join p q = (if starts_with ''/'' q then q else p @ ''/'' @ q)"

definition make_dir :: "suite_env \<Rightarrow> string \<Rightarrow> (suite, unit) eff" where
  "make_dir e p s = (case se_denied e s p of Some x \<Rightarrow> (Inl x, s) | None \<Rightarrow> (Inr (), s))"

definition put_file :: "suite_env \<Rightarrow> string \<Rightarrow> string \<Rightarrow> (suite, unit) eff" where
  "put_file e p text s = (case se_denied e s p of
       Some x \<Rightarrow> (Inl x, s)
     | None \<Rightarrow> (Inr (), s\<lparr>su_files := (su_files s)(p \<mapsto> text)\<rparr>))"

text \<open>A value computed from the state.\<close>

definition look :: "(suite \<Rightarrow> 'a) \<Rightarrow> (suite, 'a) eff" where
  "look f s = (Inr (f s), s)"

definition subprocess :: "suite_env \<Rightarrow> string list \<Rightarrow> int option \<Rightarrow> (suite, run_outcome) eff" where
  "subprocess e command timeout s = (case se_run e s command timeout of (outcome, files) \<Rightarrow>
     (Inr outcome, s\<lparr>su_files := files, su_ran := su_ran s @ [command]\<rparr>))"

section \<open>Statuses and embedded files\<close>

definition status_from_rc :: "int \<Rightarrow> string" where
  "status_from_rc rc = (if rc = 0 then ''PASS'' else if rc = 77 then ''SKIP'' else if rc = 124 then ''TIMEOUT'' else ''FAIL'')"

text \<open>An existing file is compared as a text-mode reader sees it, and kept unless \<open>force\<close> is given.\<close>

definition write_file_if_needed :: "suite_env \<Rightarrow> string \<Rightarrow> string \<Rightarrow> string \<Rightarrow> bool \<Rightarrow> (suite, bool) eff" where
  "write_file_if_needed e dir name content force =
     (let p = dir @ ''/'' @ name in
      andthen (make_dir e dir) (\<lambda>_.
      andthen (look (\<lambda>s. su_files s p)) (\<lambda>old. case old of
        Some t \<Rightarrow> if universal_newlines t = content then ret False
                  else if \<not> force then ret False
                  else andthen (put_file e p content) (\<lambda>_. ret True)
      | None \<Rightarrow> andthen (put_file e p content) (\<lambda>_. ret True))))"

definition embedded_targets :: "suite_env \<Rightarrow> string \<Rightarrow> bool \<Rightarrow> (string \<times> string \<times> string) list" where
  "embedded_targets e project include_fuzz =
     (project @ ''/tests'', ''security_zkarche.rs'', se_security_rs e)
     # (if include_fuzz then
          [(project @ ''/fuzz'', ''Cargo.toml'', se_fuzz_toml e),
           (project @ ''/fuzz/fuzz_targets'', ''packet_parsers.rs'', se_packet_rs e)]
        else [])"

definition install_embedded_files :: "suite_env \<Rightarrow> string \<Rightarrow> bool \<Rightarrow> bool \<Rightarrow> (suite, string list) eff" where
  "install_embedded_files e project force include_fuzz =
     andthen (map_eff (\<lambda>(dir, name, content). andthen (write_file_if_needed e dir name content force) (\<lambda>w.
         ret (if w then [dir @ ''/'' @ name] else []))) (embedded_targets e project include_fuzz)) (\<lambda>written.
       ret (concat written))"

section \<open>Tests and their files\<close>

definition CARGO_TESTS :: "(string \<times> string \<times> string) list" where
  "CARGO_TESTS =
     [(''transcript'', ''transcript_domain_separation'', ''01_transcript_domain_separation.log''),
      (''mutation'', ''systematic_mutation'', ''02_systematic_mutation_property.log''),
      (''invalid-curve'', ''invalid_curve_parser'', ''03_invalid_curve_parser_boundaries.log''),
      (''session'', ''session_uniqueness'', ''05_session_hkdf_concurrency.log''),
      (''replay'', ''replay_cache_state_machine'', ''07_replay_state_machine_concurrency.log'')]"

definition ALL_TESTS :: "string list" where
  "ALL_TESTS = [''transcript'', ''mutation'', ''invalid-curve'', ''session'', ''replay'', ''side-channel'', ''fuzz'', ''dos'']"

definition SIDE_CHANNEL_LOG :: string where
  "SIDE_CHANNEL_LOG = ''08_side_channel_rng_analysis.log''"

definition FUZZ_LOG :: string where
  "FUZZ_LOG = ''06_packet_fuzzing.log''"

definition DOS_LOG :: string where
  "DOS_LOG = ''09_dos_resilence_test.log''"

definition log_path_for_test :: "string \<Rightarrow> suite_args \<Rightarrow> string \<Rightarrow> string option" where
  "log_path_for_test project a name =
     (let dir = path_join project (sa_log_dir a) in
      case map_of CARGO_TESTS name of
        Some (_, log_name) \<Rightarrow> Some (dir @ ''/'' @ log_name)
      | None \<Rightarrow>
          if name = ''side-channel'' then Some (dir @ ''/'' @ SIDE_CHANNEL_LOG)
          else if name = ''fuzz'' then Some (dir @ ''/'' @ FUZZ_LOG)
          else if name = ''dos'' then Some (dir @ ''/'' @ DOS_LOG)
          else None)"

definition CSV_NAMES :: "(string \<times> string) list" where
  "CSV_NAMES =
     [(''transcript'', ''01_transcript_domain_separation.csv''),
      (''mutation'', ''02_systematic_mutation_property.csv''),
      (''invalid-curve'', ''03_invalid_curve_parser_boundaries.csv''),
      (''session'', ''05_session_hkdf_concurrency.csv''),
      (''fuzz'', ''06_packet_fuzzing.csv''),
      (''replay'', ''07_replay_state_machine_concurrency.csv''),
      (''side-channel'', ''08_side_channel_rng_analysis.csv''),
      (''dos'', ''09_dos_resilence_test.csv'')]"

definition csv_name :: "string \<Rightarrow> string" where
  "csv_name name = (case map_of CSV_NAMES name of
       Some f \<Rightarrow> f
     | None \<Rightarrow> map (\<lambda>c. if c = CHR ''-'' then CHR ''_'' else c) name @ ''.csv'')"

definition csv_dir_of :: "string \<Rightarrow> suite_args \<Rightarrow> string" where
  "csv_dir_of project a = path_join project (sa_csv_dir a)"

definition per_test_csv_path :: "string \<Rightarrow> suite_args \<Rightarrow> string \<Rightarrow> string" where
  "per_test_csv_path project a name = csv_dir_of project a @ ''/'' @ csv_name name"

definition artifact_for_test :: "suite_env \<Rightarrow> string \<Rightarrow> suite_args \<Rightarrow> string \<Rightarrow> string" where
  "artifact_for_test e project a name = se_resolve e (per_test_csv_path project a name)"

section \<open>Logged runs\<close>

definition suite_run_logged :: "suite_env \<Rightarrow> string list \<Rightarrow> string \<Rightarrow> string \<Rightarrow> string \<Rightarrow> int option \<Rightarrow> (suite, int) eff" where
  "suite_run_logged e command project log_dir log_name timeout =
     (let out_dir = path_join project log_dir in
      andthen (make_dir e out_dir) (\<lambda>_.
      andthen (look (se_epoch e)) (\<lambda>epoch.
      andthen (look (se_clock e)) (\<lambda>start.
      andthen (subprocess e command timeout) (\<lambda>outcome.
      andthen (from_res (run_result outcome timeout)) (\<lambda>(rc, body).
      andthen (look (se_clock e)) (\<lambda>stop.
      andthen (put_file e (out_dir @ ''/'' @ log_name)
          (log_text (log_header project command epoch) body (log_footer rc (stop - start)))) (\<lambda>_.
        ret rc))))))))"

definition suite_cargo_test :: "suite_env \<Rightarrow> string \<Rightarrow> string \<Rightarrow> string \<Rightarrow> string \<Rightarrow> (suite, int) eff" where
  "suite_cargo_test e project log_dir test_filter log_name =
     andthen (install_embedded_files e project False False) (\<lambda>_.
       suite_run_logged e [''cargo'', ''test'', ''--test'', ''security_zkarche'', test_filter, ''--'', ''--nocapture'']
         project log_dir log_name None)"

definition run_fuzz :: "suite_env \<Rightarrow> string \<Rightarrow> string \<Rightarrow> int \<Rightarrow> (suite, int) eff" where
  "run_fuzz e project log_dir seconds =
     andthen (install_embedded_files e project False True) (\<lambda>_.
       suite_run_logged e [''cargo'', ''+nightly'', ''fuzz'', ''run'', ''packet_parsers'', ''--'', ''-max_total_time='' @ show_int seconds]
         project log_dir FUZZ_LOG (Some (seconds + 60)))"

section \<open>Secrets that are printed\<close>

text \<open>The first pattern also names \<open>eprintln!\<close>, which the one of the older script finds inside its name.\<close>

definition SUITE_SECRET_PATTERNS :: "rx list" where
  "SUITE_SECRET_PATTERNS =
     [seqs [alts (map ilit [''println'', ''eprintln'']), ilit ''!'', dots, rx_secret],
      seqs [ilit ''log::'', alts (map ilit [''debug'', ''info'', ''warn'', ''error'']), ilit ''!'', dots, rx_secret],
      seqs [ilit ''dbg!('', dots, rx_secret]]"

end
