(* ===== verification/SuiteEvidence.thy ===== *)
theory SuiteEvidence
  imports Suite "HOL-Library.Char_ord" "HOL-Library.List_Lexorder"
begin

text \<open>
  \<open>experiments/security/security_test.py\<close>: the evidence of a test, which is what its log or its raw CSV says,
  its parameters and its verdict, and the files it is written to. A dictionary is a list of pairs in insertion order.
\<close>

section \<open>Search\<close>

text \<open>\<open>re.findall\<close> and its form for a pattern that starts with \<open>^\<close> under \<open>re.MULTILINE\<close>: the groups of
  the matches that do not overlap, from the left.\<close>

function findall :: "rx \<Rightarrow> string \<Rightarrow> caps list" where
  "findall r s = (case re_search r s of
       None \<Rightarrow> []
     | Some (before, c, t) \<Rightarrow> if length t < length s then c # findall r t else [c])"
  by pat_completeness auto

termination
  by (relation "measure (\<lambda>(r, s). length s)") auto

function findall_lines :: "rx \<Rightarrow> bool \<Rightarrow> string \<Rightarrow> caps list" where
  "findall_lines r line_start s = (case (if line_start then re_match r s else None) of
       Some (c, t) \<Rightarrow> if length t < length s
         then c # findall_lines r (last (take (length s - length t) s) = LF) t else [c]
     | None \<Rightarrow> (case s of [] \<Rightarrow> [] | x # u \<Rightarrow> findall_lines r (x = LF) u))"
  by pat_completeness auto

termination
  by (relation "measure (\<lambda>(r, l, s). length s)") auto

declare findall.simps [simp del] findall_lines.simps [simp del]

text \<open>\<open>\w\<close> of a \<open>str\<close> pattern on the represented code points.\<close>

definition is_word :: "char \<Rightarrow> bool" where
  "is_word c = (let n = of_char c :: nat in
     is_digit c \<or> (65 \<le> n \<and> n \<le> 90) \<or> (97 \<le> n \<and> n \<le> 122) \<or> c = CHR ''_''
     \<or> n \<in> {0xAA, 0xB2, 0xB3, 0xB5, 0xB9, 0xBA, 0xBC, 0xBD, 0xBE}
     \<or> (0xC0 \<le> n \<and> n \<noteq> 0xD7 \<and> n \<noteq> 0xF7))"

definition update_dict :: "(string \<times> json) list \<Rightarrow> (string \<times> json) list \<Rightarrow> (string \<times> json) list" where
  "update_dict d kvs = fold (\<lambda>(k, v). AList.update k v) kvs d"

definition digits_group :: "string \<Rightarrow> caps \<Rightarrow> json" where
  "digits_group n c = JInt (int (digits_val 0 (group n c)))"

section \<open>The log of a cargo test\<close>

definition sp :: rx where
  "sp = plus is_space"

definition digits :: "string \<Rightarrow> rx" where
  "digits n = Grp n (plus is_digit)"

definition rx_running :: rx where
  "rx_running = seqs [lit ''running'', sp, digits ''1'', sp, lit ''test'', opt (lit ''s'')]"

definition rx_result :: rx where
  "rx_result = seqs [lit ''test result:'', sp, plus is_word, lit ''.'', sp, digits ''1'', lit '' passed;'', sp, digits ''2'',
     lit '' failed;'', sp, digits ''3'', lit '' ignored;'', sp, digits ''4'', lit '' measured;'', sp, digits ''5'',
     lit '' filtered out;'', sp, lit ''finished in'', sp, Grp ''6'' (plus (\<lambda>c. is_digit c \<or> c = CHR ''.'')), lit ''s'']"

definition rx_test_line :: rx where
  "rx_test_line = seqs [lit ''test'', sp, Grp ''1'' (plus (\<lambda>c. \<not> is_space c)), sp, lit ''...'', sp,
     Grp ''2'' (Alt (lit ''ok'') (lit ''FAILED''))]"

definition no_cargo_result :: "(string \<times> json) list" where
  "no_cargo_result = [(''cargo_tests_declared'', JNull), (''cargo_tests_passed'', JNull), (''cargo_tests_failed'', JNull),
     (''cargo_tests_filtered_out'', JNull), (''rust_test_names'', JList [])]"

definition float_json :: "string \<Rightarrow> json res" where
  "float_json t = (case py_float t of Some x \<Rightarrow> Inr (JNum x) | None \<Rightarrow> Inl (ValueError t))"

definition cargo_counts :: "string \<Rightarrow> (string \<times> json) list res" where
  "cargo_counts text = (case re_search rx_result text of
       None \<Rightarrow> Inr []
     | Some (_, c, _) \<Rightarrow> bind_res (float_json (group ''6'' c)) (\<lambda>secs.
         Inr [(''cargo_tests_passed'', digits_group ''1'' c), (''cargo_tests_failed'', digits_group ''2'' c),
           (''cargo_tests_ignored'', digits_group ''3'' c), (''cargo_tests_measured'', digits_group ''4'' c),
           (''cargo_tests_filtered_out'', digits_group ''5'' c), (''cargo_reported_seconds'', secs)]))"

definition parse_cargo_test_log :: "string option \<Rightarrow> (string \<times> json) list res" where
  "parse_cargo_test_log file = (case file of
       None \<Rightarrow> Inr no_cargo_result
     | Some raw \<Rightarrow>
         let text = universal_newlines raw;
             declared = (case re_search rx_running text of None \<Rightarrow> [] | Some (_, c, _) \<Rightarrow> [(''cargo_tests_declared'', digits_group ''1'' c)]);
             names = map (\<lambda>c. JList [JStr (group ''1'' c), JStr (group ''2'' c)]) (findall_lines rx_test_line True text)
         in bind_res (cargo_counts text) (\<lambda>counts.
              Inr (update_dict no_cargo_result (declared @ counts @ [(''rust_test_names'', JList names)]))))"

section \<open>Raw CSV files\<close>

text \<open>A file opened with \<open>newline=""\<close>: the reader sees the line ends as they are. Outside quotes a carriage
  return, with the line feed after it if there is one, ends the record; inside quotes both are kept.\<close>

fun csv_raw :: "csv_mode \<Rightarrow> string \<Rightarrow> string list \<Rightarrow> string \<Rightarrow> string list list" where
  "csv_raw m f fs [] = (if m = StartRecord then [] else [rev (rev f # fs)])"
| "csv_raw m f fs (c # s) =
     (if m = InQuoted then csv_raw (if c = DQUOTE then QuoteInQuoted else InQuoted) (if c = DQUOTE then f else c # f) fs s
      else if c = CR \<or> c = LF then
        (if m = StartRecord then [] else rev (rev f # fs))
        # csv_raw StartRecord [] [] (if c = CR \<and> s \<noteq> [] \<and> hd s = LF then tl s else s)
      else if c = DQUOTE \<and> m \<noteq> InField then
        csv_raw InQuoted (if m = QuoteInQuoted then c # f else f) fs s
      else if c = CHR '','' then csv_raw StartField [] (rev f # fs) s
      else csv_raw InField (c # f) fs s)"

definition csv_raw_dicts :: "string \<Rightarrow> dict_row list" where
  "csv_raw_dicts s = (case csv_raw StartRecord [] [] s of
       [] \<Rightarrow> []
     | header # rows \<Rightarrow> map (dict_row header) (filter (\<lambda>r. r \<noteq> []) rows))"

text \<open>\<open>row.get(k, "")\<close>: \<open>None\<close> for a cell a short row does not have.\<close>

definition cell_or_empty :: "dict_row \<Rightarrow> string \<Rightarrow> string option" where
  "cell_or_empty row k = (case row k of None \<Rightarrow> Some [] | Some v \<Rightarrow> v)"

definition opt_json :: "string option \<Rightarrow> json" where
  "opt_json v = (case v of None \<Rightarrow> JNull | Some t \<Rightarrow> JStr t)"

definition upper_char :: "char \<Rightarrow> string" where
  "upper_char c = (let n = of_char c :: nat in
     if (97 \<le> n \<and> n \<le> 122) \<or> (0xE0 \<le> n \<and> n \<le> 0xFE \<and> n \<noteq> 0xF7) then [char_of (n - 32)]
     else if n = 0xDF then ''SS'' else [c])"

definition upper :: "string \<Rightarrow> string" where
  "upper s = concat (map upper_char s)"

text \<open>The side-channel checklist: the number of checks and of each verdict, and the checks by name.\<close>

record side_counts =
  sc_checks :: nat
  sc_pass :: nat
  sc_warn :: nat
  sc_fail :: nat
  sc_todo :: nat
  sc_table :: "(string \<times> json) list"

definition no_checks :: side_counts where
  "no_checks = \<lparr>sc_checks = 0, sc_pass = 0, sc_warn = 0, sc_fail = 0, sc_todo = 0, sc_table = []\<rparr>"

definition count_check :: "dict_row \<Rightarrow> side_counts \<Rightarrow> side_counts res" where
  "count_check row n = (case cell_or_empty row ''status'' of
       None \<Rightarrow> Inl (AttributeError ''upper'')
     | Some st \<Rightarrow>
         let status = upper st; check = cell_or_empty row ''check''; detail = cell_or_empty row ''detail'' in
         (case check of
            None \<Rightarrow> Inl (TypeError ''a check without a name'')
          | Some k \<Rightarrow> Inr (n\<lparr>sc_checks := sc_checks n + 1,
              sc_table := AList.update k (JObj [(''status'', JStr status), (''detail'', opt_json detail)]) (sc_table n),
              sc_pass := sc_pass n + (if status = ''PASS'' then 1 else 0),
              sc_warn := sc_warn n + (if status = ''WARN'' then 1 else 0),
              sc_fail := sc_fail n + (if status = ''FAIL'' then 1 else 0),
              sc_todo := sc_todo n + (if status = ''TODO'' then 1 else 0)\<rparr>)))"

fun count_checks :: "dict_row list \<Rightarrow> side_counts \<Rightarrow> side_counts res" where
  "count_checks [] n = Inr n"
| "count_checks (row # rows) n = bind_res (count_check row n) (count_checks rows)"

definition side_dict :: "side_counts \<Rightarrow> (string \<times> json) list" where
  "side_dict n = [(''check_count'', JInt (int (sc_checks n))), (''pass_count'', JInt (int (sc_pass n))),
     (''warn_count'', JInt (int (sc_warn n))), (''fail_count'', JInt (int (sc_fail n))), (''todo_count'', JInt (int (sc_todo n))),
     (''checks'', JObj (sc_table n))]"

definition rx_ones_ratio :: rx where
  "rx_ones_ratio = seqs [lit ''ones_ratio='', Grp ''1'' (plus (\<lambda>c. is_digit c \<or> c = CHR ''.''))]"

text \<open>The detail of the bit balance, and the ratio in it.\<close>

definition balance_detail :: "(string \<times> json) list \<Rightarrow> json" where
  "balance_detail table = (case map_of table ''rng_bit_balance'' of Some (JObj d) \<Rightarrow>
       (case map_of d ''detail'' of Some v \<Rightarrow> v | None \<Rightarrow> JStr []) | _ \<Rightarrow> JStr [])"

definition ones_ratio :: "json \<Rightarrow> (string \<times> json) list res" where
  "ones_ratio detail = (case detail of
       JStr t \<Rightarrow> (case re_search rx_ones_ratio t of
           None \<Rightarrow> Inr []
         | Some (_, c, _) \<Rightarrow> bind_res (float_json (group ''1'' c)) (\<lambda>x. Inr [(''rng_ones_ratio'', x)]))
     | _ \<Rightarrow> Inl (TypeError ''expected string''))"

definition parse_side_channel_csv :: "string option \<Rightarrow> (string \<times> json) list res" where
  "parse_side_channel_csv file = (case file of
       None \<Rightarrow> Inr (side_dict no_checks @ [(''csv_missing'', JBool True)])
     | Some text \<Rightarrow> bind_res (count_checks (csv_raw_dicts text) no_checks) (\<lambda>n.
         bind_res (ones_ratio (balance_detail (sc_table n))) (\<lambda>r. Inr (side_dict n @ r))))"

text \<open>The metrics of the resilience harness.\<close>

definition dos_metric :: "dict_row \<Rightarrow> (string \<times> json) list \<Rightarrow> (string \<times> json) list res" where
  "dos_metric row metrics = (case cell_or_empty row ''test'' of
       None \<Rightarrow> Inl (TypeError ''a metric without a name'')
     | Some k \<Rightarrow> Inr (AList.update k (JObj [(''value'', opt_json (cell_or_empty row ''value'')),
         (''note'', opt_json (cell_or_empty row ''note''))]) metrics))"

fun dos_metrics :: "dict_row list \<Rightarrow> (string \<times> json) list \<Rightarrow> (string \<times> json) list res" where
  "dos_metrics [] metrics = Inr metrics"
| "dos_metrics (row # rows) metrics = bind_res (dos_metric row metrics) (dos_metrics rows)"

definition reach_entry :: "(string \<times> json) list \<Rightarrow> string \<Rightarrow> (string \<times> json) list" where
  "reach_entry metrics key = (case map_of metrics key of
       Some (JObj d) \<Rightarrow> (case map_of d ''value'' of
           Some (JStr t) \<Rightarrow> [(key, case py_int t of Some i \<Rightarrow> JInt i | None \<Rightarrow> JStr t)]
         | Some v \<Rightarrow> [(key, v)]
         | None \<Rightarrow> [])
     | _ \<Rightarrow> [])"

definition parse_dos_csv :: "string option \<Rightarrow> (string \<times> json) list res" where
  "parse_dos_csv file = (case file of
       None \<Rightarrow> Inr [(''metric_count'', JInt 0), (''metrics'', JObj []), (''csv_missing'', JBool True)]
     | Some text \<Rightarrow> bind_res (dos_metrics (csv_raw_dicts text) []) (\<lambda>metrics.
         Inr ([(''metric_count'', JInt (int (length (csv_raw_dicts text)))), (''metrics'', JObj metrics)]
           @ reach_entry metrics ''initial_reachability'' @ reach_entry metrics ''final_reachability'')))"

section \<open>The log of the fuzzer\<close>

definition rx_crash :: rx where
  "rx_crash = alts (map ilit [''panic'', ''crash'', ''ERROR: AddressSanitizer'', ''==ERROR'', ''Test unit written to''])"

definition rx_units :: "rx list" where
  "rx_units =
     [seqs [lit ''stat::number_of_executed_units:'', Star is_space, digits ''1''],
      seqs [lit ''Done'', sp, digits ''1'', sp, lit ''runs''],
      seqs [lit ''#'', digits ''1'', sp, lit ''DONE''],
      seqs [lit ''#'', digits ''1'', sp, lit ''INITED'']]"

definition parse_fuzz_log :: "string option \<Rightarrow> (string \<times> json) list" where
  "parse_fuzz_log file = (case file of
       None \<Rightarrow> [(''crash_detected'', JNull), (''executed_units'', JNull), (''artifact_mentioned'', JBool False), (''log_missing'', JBool True)]
     | Some raw \<Rightarrow>
         let text = universal_newlines raw;
             nums = concat (map (\<lambda>p. map (\<lambda>c. digits_val 0 (group ''1'' c)) (findall p text)) rx_units)
         in [(''crash_detected'', JBool (re_search rx_crash text \<noteq> None)),
             (''executed_units'', if nums = [] then JNull else JInt (int (Max (set nums)))),
             (''artifact_mentioned'', JBool (is_infix ''artifact_prefix'' text \<or> is_infix ''Test unit written to'' text))])"

section \<open>What each test shows\<close>

record test_spec =
  ts_claim :: string
  ts_input :: "(string \<times> json) list"
  ts_meaning :: string

definition strings :: "string list \<Rightarrow> json" where
  "strings ss = JList (map JStr ss)"

definition TEST_EVIDENCE_SPEC :: "(string \<times> test_spec) list" where
  "TEST_EVIDENCE_SPEC =
    [(''transcript'', \<lparr>ts_claim = ''Client authentication proofs are bound to the intended transcript domain, role, and session fields.'',
       ts_input =
        [(''valid_proof_cases'', JInt 1),
         (''wrong_domain_cases'', JInt 3),
         (''wrong_domains'', strings [''server_schnorr_v2'', ''setup_schnorr_v2'', ''client_schnorr_v1'']),
         (''tampered_field_cases'', JInt 6),
         (''tampered_fields'', strings [''pid'', ''nonce_c'', ''pubkey'', ''eph_c'', ''commitment_a'', ''scalar_s'']),
         (''expected_rejection_cases'', JInt 9)],
       ts_meaning = ''A PASS means the valid proof verified once and all cross-domain or tampered-context verification attempts were rejected.''\<rparr>),
     (''mutation'', \<lparr>ts_claim = ''Near-valid authentication messages are rejected by parsing or cryptographic verification.'',
       ts_input =
        [(''auth_message_length_bytes'', JInt 193),
         (''one_byte_bit_flip_cases'', JInt 193),
         (''truncation_cases'', JInt 193),
         (''trailing_data_cases'', JInt 16),
         (''field_zeroing_cases'', JInt 7),
         (''randomized_mutation_cases'', JInt 512),
         (''total_negative_cases'', JInt 921),
         (''valid_baseline_cases'', JInt 1)],
       ts_meaning = ''A PASS means every systematic and randomized mutation either failed parsing or failed Schnorr verification.''\<rparr>),
     (''invalid-curve'', \<lparr>ts_claim = ''Invalid Ristretto encodings, identity points, and scalar boundary values are rejected or fail verification.'',
       ts_input =
        [(''direct_invalid_decode_cases'', JInt 3),
         (''identity_point_field_cases'', JInt 3),
         (''invalid_compressed_point_field_cases'', JInt 3),
         (''scalar_boundary_cases'', JInt 2),
         (''total_negative_cases'', JInt 11),
         (''point_fields_checked'', strings [''pubkey'', ''commitment_a'', ''eph_c''])],
       ts_meaning = ''A PASS means invalid points/scalars are not accepted as usable authentication material.''\<rparr>),
     (''session'', \<lparr>ts_claim = ''Session keys are mutually derived, transcript-bound, unique across many sessions, and safe under concurrent generation.'',
       ts_input =
        [(''hkdf_agreement_cases'', JInt 1),
         (''hkdf_tamper_cases'', JInt 4),
         (''tampered_inputs'', strings [''pid'', ''nonce_c'', ''nonce_s'', ''eph_s'']),
         (''sequential_session_keys_checked'', JInt 2000),
         (''concurrency_threads'', JInt 8),
         (''keys_per_thread'', JInt 250),
         (''concurrent_session_keys_checked'', JInt 2000),
         (''rng_nonce_samples'', JInt 20000),
         (''rng_total_bits_checked'', JInt 5120000),
         (''rng_ones_ratio_acceptance_range'', JList [JNum (Fin 0.485), JNum (Fin 0.515)])],
       ts_meaning = ''A PASS means client/server keys matched for valid input, changed under transcript tampering, and no duplicate/nonzero failures were found in the sampled key and nonce sets.''\<rparr>),
     (''replay'', \<lparr>ts_claim = ''Replay-cache logic rejects live duplicate nonces, handles bounded eviction, avoids poisoning on invalid proofs, and admits only one concurrent claimant.'',
       ts_input =
        [(''bounded_cache_capacity'', JInt 4),
         (''state_machine_cache_capacity'', JInt 128),
         (''concurrent_duplicate_insert_threads'', JInt 32),
         (''expected_concurrent_accept_count'', JInt 1),
         (''invalid_proof_poisoning_cases'', JInt 1),
         (''valid_replay_rejection_cases'', JInt 1)],
       ts_meaning = ''A PASS means duplicate live nonces were rejected, old entries were evicted according to policy, invalid proofs did not mark a nonce as used, and exactly one concurrent insert won.''\<rparr>),
     (''side-channel'', \<lparr>ts_claim = ''The implementation passes lightweight RNG, dependency, and source-hygiene checks used as side-channel screening evidence.'',
       ts_input =
        [(''rng_sample_bytes'', JInt 32),
         (''rng_bit_balance_acceptance_range'', JList [JNum (Fin 0.48), JNum (Fin 0.52)]),
         (''dependency_checks'', strings [''zeroize'', ''subtle'']),
         (''secret_logging_pattern_count'', JInt (int (length SUITE_SECRET_PATTERNS)))],
       ts_meaning = ''A PASS means the RNG duplicate check had no failures and no hard-fail source-hygiene condition was found; WARN rows remain review items.''\<rparr>),
     (''fuzz'', \<lparr>ts_claim = ''Coverage-guided fuzzing did not find parser crashes, sanitizer failures, or panics within the configured campaign.'',
       ts_input =
        [(''fuzz_target'', JStr ''packet_parsers''),
         (''fuzz_engine'', JStr ''cargo-fuzz/libFuzzer''),
         (''toolchain'', JStr ''nightly''),
         (''parser_entry_points'', strings [''parse_len_prefixed_frame'', ''parse_setup_like'', ''parse_auth_v2_like'']),
         (''max_frame_length_bytes'', JInt 4096)],
       ts_meaning = ''A PASS means cargo-fuzz exited successfully for the configured run length and produced no crash artifact.''\<rparr>),
     (''dos'', \<lparr>ts_claim = ''The server remains reachable, and optionally still completes valid authentication, after malformed and resource-stressing local TCP traffic.'',
       ts_input =
        [(''traffic_classes'', strings [''random_bytes'', ''oversized_frame'', ''idle_connections'', ''slow_drip_connections'']),
         (''random_payload_bytes'', JInt 128),
         (''oversized_claimed_frame_length'', JInt 10000000),
         (''slow_drip_bytes_per_connection'', JInt 16),
         (''slow_drip_delay_seconds'', JNum (Fin 0.35))],
       ts_meaning = ''A PASS means the server was reachable before and after the stress phase and recovery authentication succeeded when a recovery command was supplied.''\<rparr>)]"

definition spec_of :: "string \<Rightarrow> test_spec" where
  "spec_of name = (case map_of TEST_EVIDENCE_SPEC name of
       Some t \<Rightarrow> t
     | None \<Rightarrow> \<lparr>ts_claim = [], ts_input = [], ts_meaning = []\<rparr>)"

section \<open>Evidence\<close>

text \<open>\<open>sort_keys\<close>: dictionaries at every level in the order of their keys.\<close>

fun sort_json :: "json \<Rightarrow> json"
  and sort_all :: "json list \<Rightarrow> json list"
  and sort_values :: "(string \<times> json) list \<Rightarrow> (string \<times> json) list" where
  "sort_json (JList xs) = JList (sort_all xs)"
| "sort_json (JObj kvs) = JObj (sort_key fst (sort_values kvs))"
| "sort_json v = v"
| "sort_all [] = []"
| "sort_all (x # xs) = sort_json x # sort_all xs"
| "sort_values [] = []"
| "sort_values ((k, v) # kvs) = (k, sort_json v) # sort_values kvs"

record evidence =
  ev_test :: string
  ev_claim :: string
  ev_status :: string
  ev_rc :: int
  ev_elapsed :: real
  ev_artifact :: string
  ev_log :: string
  ev_input :: "(string \<times> json) list"
  ev_observed :: "(string \<times> json) list"
  ev_meaning :: string

definition recovery_text :: "suite_args \<Rightarrow> string" where
  "recovery_text a = (case sa_recovery a of Some c \<Rightarrow> if c = [] then ''none'' else c | None \<Rightarrow> ''none'')"

definition dos_parameters :: "suite_args \<Rightarrow> (string \<times> json) list" where
  "dos_parameters a = [(''host'', JStr (sa_host a)), (''port'', JInt (sa_port a)), (''protocol'', JStr (sa_protocol a)),
     (''random_connections'', JInt (sa_random a)), (''oversized_connections'', JInt (sa_oversized a)),
     (''idle_connections'', JInt (sa_idle a)), (''slow_connections'', JInt (sa_slow a)),
     (''hold_seconds'', JNum (Fin (sa_hold a)))]"

definition dos_output :: "string \<Rightarrow> suite_args \<Rightarrow> string" where
  "dos_output project a = (case sa_output a of
       Some p \<Rightarrow> if p = [] then per_test_csv_path project a ''dos'' else path_join project p
     | None \<Rightarrow> per_test_csv_path project a ''dos'')"

text \<open>The raw result of a test, as its log or its CSV file gives it.\<close>

definition collect_observed_results :: "string \<Rightarrow> suite_args \<Rightarrow> string \<Rightarrow> (string \<Rightarrow> string option) \<Rightarrow> (string \<times> json) list res" where
  "collect_observed_results project a name files =
     (let log = (case log_path_for_test project a name of Some p \<Rightarrow> files p | None \<Rightarrow> None) in
      if map_of CARGO_TESTS name \<noteq> None then parse_cargo_test_log log
      else if name = ''side-channel'' then parse_side_channel_csv (files (path_join project (sa_csv a)))
      else if name = ''fuzz'' then Inr (update_dict (parse_fuzz_log log) [(''configured_seconds'', JInt (sa_seconds a))])
      else if name = ''dos'' then
        bind_res (parse_dos_csv (files (dos_output project a))) (\<lambda>observed.
          Inr (update_dict observed (dos_parameters a
            @ [(''recovery_cmd_provided'', JBool (sa_recovery a \<noteq> None \<and> sa_recovery a \<noteq> Some []))])))
      else Inr [])"

definition input_parameters :: "suite_args \<Rightarrow> string \<Rightarrow> (string \<times> json) list" where
  "input_parameters a name = update_dict (ts_input (spec_of name))
     (if name = ''side-channel'' then [(''rng_samples_requested'', JInt (sa_samples a)), (''csv_output'', JStr (sa_csv a))]
      else if name = ''fuzz'' then [(''max_total_time_seconds'', JInt (sa_seconds a))]
      else if name = ''dos'' then dos_parameters a @ [(''recovery_cmd'', JStr (recovery_text a))]
      else [])"

definition build_evidence :: "suite_env \<Rightarrow> string \<Rightarrow> suite_args \<Rightarrow> string \<Rightarrow> int \<Rightarrow> real \<Rightarrow> string \<Rightarrow> (string \<Rightarrow> string option) \<Rightarrow> evidence res" where
  "build_evidence e project a name rc elapsed artifact files =
     bind_res (collect_observed_results project a name files) (\<lambda>observed.
       Inr \<lparr>ev_test = name, ev_claim = ts_claim (spec_of name), ev_status = status_from_rc rc, ev_rc = rc,
         ev_elapsed = py_round elapsed 3, ev_artifact = artifact,
         ev_log = (case log_path_for_test project a name of Some p \<Rightarrow> se_resolve e p | None \<Rightarrow> []),
         ev_input = input_parameters a name, ev_observed = observed, ev_meaning = ts_meaning (spec_of name)\<rparr>)"

text \<open>The dictionary, with the path of the test's own CSV file that is added after it was written.\<close>

definition evidence_dict :: "evidence \<Rightarrow> (string \<times> json) list" where
  "evidence_dict v = [(''test'', JStr (ev_test v)), (''claim'', JStr (ev_claim v)), (''status'', JStr (ev_status v)),
     (''return_code'', JInt (ev_rc v)), (''elapsed_seconds'', JNum (Fin (ev_elapsed v))), (''artifact'', JStr (ev_artifact v)),
     (''log'', JStr (ev_log v)), (''input_parameters'', JObj (ev_input v)), (''observed_results'', JObj (ev_observed v)),
     (''evidence_interpretation'', JStr (ev_meaning v))]"

definition evidence_json :: "evidence \<Rightarrow> string \<Rightarrow> json" where
  "evidence_json v csv = JObj (evidence_dict v @ [(''evidence_csv'', JStr csv)])"

section \<open>The evidence as CSV\<close>

text \<open>\<open>str\<close> and the type name of a scalar.\<close>

definition py_str :: "(real \<Rightarrow> string) \<Rightarrow> json \<Rightarrow> string" where
  "py_str fr v = (case v of
       JStr t \<Rightarrow> t
     | JInt i \<Rightarrow> show_int i
     | JBool b \<Rightarrow> if b then ''True'' else ''False''
     | JNum NaN \<Rightarrow> ''nan''
     | JNum PInf \<Rightarrow> ''inf''
     | JNum NInf \<Rightarrow> ''-inf''
     | JNum (Fin x) \<Rightarrow> fr x
     | _ \<Rightarrow> [])"

definition type_name :: "json \<Rightarrow> string" where
  "type_name v = (case v of JNull \<Rightarrow> ''NoneType'' | JBool _ \<Rightarrow> ''bool'' | JInt _ \<Rightarrow> ''int'' | JNum _ \<Rightarrow> ''float''
     | JStr _ \<Rightarrow> ''str'' | JList _ \<Rightarrow> ''list'' | JObj _ \<Rightarrow> ''dict'')"

text \<open>\<open>prefix.rsplit(".", 1)[0]\<close>, the prefix itself without a point.\<close>

definition section_of :: "string \<Rightarrow> string" where
  "section_of prefix = (case rpartition_at (CHR ''.'') prefix of (before, found, after) \<Rightarrow> if found then before else prefix)"

fun flatten_for_csv :: "(real \<Rightarrow> string) \<Rightarrow> string \<Rightarrow> json \<Rightarrow> string list list"
  and flatten_entries :: "(real \<Rightarrow> string) \<Rightarrow> string \<Rightarrow> (string \<times> json) list \<Rightarrow> string list list" where
  "flatten_for_csv fr prefix (JObj kvs) = flatten_entries fr prefix kvs"
| "flatten_for_csv fr prefix (JList xs) = [[section_of prefix, prefix, json_dumps fr None 0 (JList xs), ''list'']]"
| "flatten_for_csv fr prefix v = [[section_of prefix, prefix, if v = JNull then [] else py_str fr v, type_name v]]"
| "flatten_entries fr prefix [] = []"
| "flatten_entries fr prefix ((k, v) # kvs) =
     flatten_for_csv fr (if prefix = [] then k else prefix @ ''.'' @ k) v @ flatten_entries fr prefix kvs"

definition METADATA_KEYS :: "string list" where
  "METADATA_KEYS = [''test'', ''claim'', ''status'', ''return_code'', ''elapsed_seconds'', ''artifact'', ''log'', ''evidence_interpretation'']"

definition metadata_row :: "(real \<Rightarrow> string) \<Rightarrow> evidence \<Rightarrow> string \<Rightarrow> string list" where
  "metadata_row fr v key = (let x = the (map_of (evidence_dict v) key) in [''metadata'', key, py_str fr x, type_name x])"

definition EVIDENCE_HEADER :: "string list" where
  "EVIDENCE_HEADER = [''section'', ''key'', ''value'', ''type'']"

definition evidence_table :: "(real \<Rightarrow> string) \<Rightarrow> evidence \<Rightarrow> string list list" where
  "evidence_table fr v = EVIDENCE_HEADER # map (metadata_row fr v) METADATA_KEYS
     @ flatten_for_csv fr ''input_parameters'' (JObj (ev_input v)) @ flatten_for_csv fr ''observed_results'' (JObj (ev_observed v))"

definition write_test_evidence_csv :: "suite_env \<Rightarrow> string \<Rightarrow> suite_args \<Rightarrow> evidence \<Rightarrow> (suite, string) eff" where
  "write_test_evidence_csv e project a v =
     (let path = per_test_csv_path project a (ev_test v) in
      andthen (make_dir e (csv_dir_of project a)) (\<lambda>_.
      andthen (put_file e path (csv_write (evidence_table (se_repr e) v))) (\<lambda>_. ret path)))"

text \<open>A log that exists gets the evidence at its end.\<close>

definition append_evidence_to_log :: "suite_env \<Rightarrow> string \<Rightarrow> suite_args \<Rightarrow> evidence \<Rightarrow> string \<Rightarrow> (suite, unit) eff" where
  "append_evidence_to_log e project a v csv = (case log_path_for_test project a (ev_test v) of
       None \<Rightarrow> ret ()
     | Some p \<Rightarrow> andthen (look (\<lambda>s. su_files s p)) (\<lambda>old. case old of
           None \<Rightarrow> ret ()
         | Some t \<Rightarrow> put_file e p (t @ [LF] @ ''=== Quantitative Evidence Summary ==='' @ [LF]
             @ json_dumps (se_repr e) (Some 2) 0 (sort_json (evidence_json v csv)) @ [LF])))"

section \<open>The summary and the collected evidence\<close>

definition SUMMARY_HEADER :: "string list" where
  "SUMMARY_HEADER = [''test'', ''status'', ''return_code'', ''elapsed_seconds'', ''artifact'', ''log'', ''evidence_csv'']"

definition results_file :: "string \<Rightarrow> string \<Rightarrow> string" where
  "results_file project name = path_join project (''results/security/'' @ name)"

definition write_summary_csv :: "suite_env \<Rightarrow> string \<Rightarrow> string list list \<Rightarrow> (suite, unit) eff" where
  "write_summary_csv e project rows =
     andthen (make_dir e (path_join project ''results/security'')) (\<lambda>_.
       put_file e (results_file project ''security_summary.csv'') (csv_write (SUMMARY_HEADER # rows)))"

definition version_text :: "string + int \<times> string \<Rightarrow> string" where
  "version_text out = (case out of
       Inl exc \<Rightarrow> ''unavailable: '' @ exc
     | Inr (rc, text) \<Rightarrow> if strip text = [] then ''rc='' @ show_int rc else hd (splitlines (strip text)))"

definition runtime_environment :: "suite_env \<Rightarrow> string \<Rightarrow> (string \<times> json) list" where
  "runtime_environment e project = [(''python_version'', JStr (se_py_version e)), (''platform'', JStr (se_platform e)),
     (''project'', JStr project), (''rustc_version'', JStr (version_text (se_version e [''rustc'', ''--version'']))),
     (''cargo_version'', JStr (version_text (se_version e [''cargo'', ''--version'']))),
     (''cargo_fuzz_version'', JStr (version_text (se_version e [''cargo'', ''+nightly'', ''fuzz'', ''--version''])))]"

definition EVIDENCE_COLUMNS :: "string list" where
  "EVIDENCE_COLUMNS = [''test'', ''status'', ''return_code'', ''elapsed_seconds'', ''claim'', ''input_parameters'', ''observed_results'',
     ''artifact'', ''log'', ''evidence_csv'']"

definition evidence_row :: "(real \<Rightarrow> string) \<Rightarrow> evidence \<times> string \<Rightarrow> string list" where
  "evidence_row fr vc = (case vc of (v, csv) \<Rightarrow>
     [ev_test v, ev_status v, show_int (ev_rc v), fr (ev_elapsed v), ev_claim v,
      json_dumps fr None 0 (sort_json (JObj (ev_input v))), json_dumps fr None 0 (sort_json (JObj (ev_observed v))),
      ev_artifact v, ev_log v, csv])"

definition write_evidence_artifacts :: "suite_env \<Rightarrow> string \<Rightarrow> (evidence \<times> string) list \<Rightarrow> (suite, unit) eff" where
  "write_evidence_artifacts e project vs =
     andthen (make_dir e (path_join project ''results/security'')) (\<lambda>_.
     andthen (look (se_epoch e)) (\<lambda>epoch.
     andthen (put_file e (results_file project ''security_evidence.json'')
       (json_dumps (se_repr e) (Some 2) 0 (sort_json (JObj
          [(''generated_epoch'', JNum (Fin epoch)), (''environment'', JObj (runtime_environment e project)),
           (''tests'', JList (map (\<lambda>(v, csv). evidence_json v csv) vs))])))) (\<lambda>_.
       put_file e (results_file project ''security_evidence.csv'') (csv_write (EVIDENCE_COLUMNS # map (evidence_row (se_repr e)) vs)))))"

section \<open>Reading a written table with its line ends\<close>

lemma csv_raw_quoted: "csv_raw InQuoted acc fs (double_quotes f @ t) = csv_raw InQuoted (rev f @ acc) fs t"
  by (induction f arbitrary: acc) (auto simp: double_quotes_def)

lemma csv_raw_unquoted: "\<not> needs_quotes f \<Longrightarrow> csv_raw InField acc fs (f @ t) = csv_raw InField (rev f @ acc) fs t"
  by (induction f arbitrary: acc) (auto simp: needs_quotes_def)

lemma csv_raw_field:
  assumes "m = StartRecord \<or> m = StartField"
  shows "\<exists>q. csv_raw m [] fs (csv_field f @ t) = csv_raw q (rev f) fs t
    \<and> (q = QuoteInQuoted \<or> q = InField \<or> q = m \<and> f = [])"
proof (cases "needs_quotes f")
  case True
  then have "csv_field f = DQUOTE # double_quotes f @ [DQUOTE]" by (simp add: csv_field_def)
  then show ?thesis using assms by (intro exI [of _ QuoteInQuoted]) (auto simp: csv_raw_quoted)
next
  case False
  then have f: "csv_field f = f" by (simp add: csv_field_def)
  show ?thesis
  proof (cases f)
    case Nil
    then show ?thesis using f by auto
  next
    case (Cons c g)
    then have "c \<noteq> CR" "c \<noteq> LF" "c \<noteq> DQUOTE" "c \<noteq> CHR '',''" "\<not> needs_quotes g"
      using False by (auto simp: needs_quotes_def)
    then have "csv_raw m [] fs (f @ t) = csv_raw InField [c] fs (g @ t)" using assms Cons by auto
    then show ?thesis using csv_raw_unquoted [OF \<open>\<not> needs_quotes g\<close>, of "[c]" fs t] f Cons by (intro exI [of _ InField]) simp
  qed
qed

lemma csv_raw_field_comma:
  "m = StartRecord \<or> m = StartField \<Longrightarrow> csv_raw m [] fs (csv_field f @ CHR '','' # t) = csv_raw StartField [] (f # fs) t"
  using csv_raw_field [of m fs f "CHR '','' # t"] by auto

lemma csv_raw_field_end:
  "m = StartField \<or> (m = StartRecord \<and> f \<noteq> []) \<Longrightarrow>
   csv_raw m [] fs (csv_field f @ CR # LF # t) = rev (f # fs) # csv_raw StartRecord [] [] t"
  using csv_raw_field [of m fs f "CR # LF # t"] by auto

lemma csv_raw_fields:
  "row \<noteq> [] \<Longrightarrow> csv_raw StartField [] fs (join_str '','' (map csv_field row) @ CR # LF # t)
     = (rev fs @ row) # csv_raw StartRecord [] [] t"
proof (induction row arbitrary: fs)
  case (Cons f row)
  then show ?case by (cases row) (simp_all add: csv_raw_field_comma csv_raw_field_end del: csv_raw.simps)
qed simp

lemma csv_raw_row: "row \<noteq> [] \<Longrightarrow> csv_raw StartRecord [] [] (csv_row row @ t) = row # csv_raw StartRecord [] [] t"
proof (cases "row = [[]]")
  case True
  then show ?thesis by (simp add: csv_row_def)
next
  case False
  assume "row \<noteq> []"
  then obtain f row' where "row = f # row'" by (cases row) auto
  then show ?thesis using False csv_raw_fields [of row' "[f]" t]
    by (cases row') (simp_all add: csv_row_def csv_raw_field_comma csv_raw_field_end del: csv_raw.simps)
qed

lemma csv_raw_write: "\<forall>r \<in> set rows. r \<noteq> [] \<Longrightarrow> csv_raw StartRecord [] [] (csv_write rows) = rows"
  by (induction rows) (simp_all add: csv_write_def csv_raw_row)

lemma csv_raw_dicts_write:
  "\<forall>r \<in> set rows. r \<noteq> [] \<Longrightarrow> header \<noteq> [] \<Longrightarrow> csv_raw_dicts (csv_write (header # rows)) = map (dict_row header) rows"
proof -
  assume "\<forall>r \<in> set rows. r \<noteq> []" "header \<noteq> []"
  moreover from this have "filter (\<lambda>r. r \<noteq> []) rows = rows" by (simp add: filter_id_conv)
  ultimately show ?thesis by (simp add: csv_raw_dicts_def csv_raw_write)
qed

end
