(* ===== verification/SecuritySuite.thy ===== *)
theory SecuritySuite
  imports SuiteEvidence
begin

text \<open>
  \<open>experiments/security/security_test.py\<close>: the checklist, the resilience harness, the choice of the test and
  \<open>main\<close>. A connection's fate is that of the environment at its number; the threads that only hold connections
  open swallow every error, so that what is left of them are their connections.
\<close>

section \<open>The side-channel checklist\<close>

definition suite_rng_rows :: "rng_env \<Rightarrow> int \<Rightarrow> bool \<Rightarrow> real \<Rightarrow> string list list" where
  "suite_rng_rows e samples duplicate bit_ratio =
     (let found = grep_source (re_files e) SUITE_SECRET_PATTERNS;
          zeroize_present = cargo_tree_has (re_tree e) (re_cargo_toml e) ''zeroize'';
          subtle_present = cargo_tree_has (re_tree e) (re_cargo_toml e) ''subtle'' in
      [[''entropy_avail'', ''INFO'', read_entropy_avail (re_entropy e)],
       [''rng_duplicate_32byte_samples'', if duplicate then ''FAIL'' else ''PASS'', ''samples='' @ show_int samples],
       [''rng_bit_balance'', verdict (0.48 \<le> bit_ratio \<and> bit_ratio \<le> 0.52), ''ones_ratio='' @ show_fixed 6 bit_ratio],
       [''zeroize_dependency'', verdict zeroize_present, if zeroize_present then ''zeroize present'' else ''zeroize not found''],
       [''constant_time_dependency'', verdict subtle_present, if subtle_present then ''subtle present'' else ''subtle not found''],
       [''secret_logging_grep'', verdict (found = []), if found = [] then ''none'' else join_str '' | '' (take 20 found)],
       [''manual_side_channel_review'', ''TODO'',
        ''Review scalar multiplication, equality checks, logs, debug builds, and power traces if available.'']])"

definition CHECK_HEADER :: "string list" where
  "CHECK_HEADER = [''check'', ''status'', ''detail'']"

text \<open>The output's directory is made for its parent; only a duplicate sample fails.\<close>

definition run_rng_sidechannel :: "suite_env \<Rightarrow> string \<Rightarrow> int \<Rightarrow> string \<Rightarrow> (suite, int) eff" where
  "run_rng_sidechannel e project samples csv =
     andthen (look (se_rng e)) (\<lambda>r.
     andthen (from_res (rng_smoke (re_urandom r) samples)) (\<lambda>(duplicate, bit_ratio).
       let rows = suite_rng_rows r samples duplicate bit_ratio; output = path_join project csv in
       andthen (make_dir e (fst (rpartition_at (CHR ''/'') output))) (\<lambda>_.
       andthen (put_file e output (csv_write (CHECK_HEADER # rows))) (\<lambda>_.
         ret (if filter (\<lambda>row. row ! 1 = ''FAIL'') rows \<noteq> [] then 1 else 0)))))"

section \<open>Connections\<close>

text \<open>The next connection.\<close>

definition open_conn :: "suite_env \<Rightarrow> (suite, conn_outcome) eff" where
  "open_conn e s = (Inr (se_connect e (su_conns s)), s\<lparr>su_conns := su_conns s + 1\<rparr>)"

definition sending_failed :: "conn_outcome \<Rightarrow> bool" where
  "sending_failed c \<longleftrightarrow> c = ConnRefused \<or> c = SendFails"

text \<open>The two loops differ in what they send; an error while receiving is swallowed.\<close>

fun send_loop :: "suite_env \<Rightarrow> nat \<Rightarrow> int \<Rightarrow> (suite, int) eff" where
  "send_loop e 0 failures = ret failures"
| "send_loop e (Suc n) failures =
     andthen (open_conn e) (\<lambda>c. send_loop e n (if sending_failed c then failures + 1 else failures))"

definition send_random_bytes :: "suite_env \<Rightarrow> int \<Rightarrow> (suite, int) eff" where
  "send_random_bytes e count = send_loop e (nat count) 0"

definition send_oversized_frames :: "suite_env \<Rightarrow> int \<Rightarrow> (suite, int) eff" where
  "send_oversized_frames e count = send_loop e (nat count) 0"

definition hold_connections :: "suite_env \<Rightarrow> int \<Rightarrow> (suite, unit) eff" where
  "hold_connections e count = andthen (map_eff (\<lambda>_. open_conn e) (replicate (nat count) ())) (\<lambda>_. ret ())"

definition reachability_probe :: "suite_env \<Rightarrow> (suite, bool) eff" where
  "reachability_probe e = andthen (open_conn e) (\<lambda>c. ret (c \<noteq> ConnRefused))"

section \<open>The resilience harness\<close>

text \<open>A row: the metric, its value and a note.\<close>

definition recovery_note :: "string \<Rightarrow> string" where
  "recovery_note out = take 500 (replace_char LF '' | '' (strip out))"

definition run_recovery_command :: "suite_env \<Rightarrow> string option \<Rightarrow> string \<Rightarrow> (suite, string list \<times> bool) eff" where
  "run_recovery_command e command label = (case command of
       None \<Rightarrow> ret ([label, ''SKIP'', ''no --recovery-cmd provided''], True)
     | Some c \<Rightarrow> if c = [] then ret ([label, ''SKIP'', ''no --recovery-cmd provided''], True)
         else andthen (look (\<lambda>s. se_shell e s c)) (\<lambda>r. case r of
             RecoveryDone rc out \<Rightarrow>
               ret ([label, show_int rc, if recovery_note out = [] then ''command completed'' else recovery_note out], rc = 0)
           | RecoveryTimeout \<Rightarrow> ret ([label, ''124'', ''recovery command timed out''], False)
           | RecoveryFailed exc \<Rightarrow> ret ([label, ''127'', ''recovery command failed to launch: '' @ exc], False)))"

definition bit_text :: "bool \<Rightarrow> string" where
  "bit_text b = (if b then ''1'' else ''0'')"

definition pass_text :: "bool \<Rightarrow> string" where
  "pass_text b = (if b then ''PASS'' else ''FAIL'')"

definition dos_log_head :: "suite_env \<Rightarrow> string \<Rightarrow> suite_args \<Rightarrow> string \<Rightarrow> real \<Rightarrow> string list" where
  "dos_log_head e project a output epoch =
     [''=== Security Test Command ==='', ''cwd: '' @ project, ''test: dos'', ''host: '' @ sa_host a, ''port: '' @ show_int (sa_port a),
      ''protocol: '' @ sa_protocol a, ''random_connections: '' @ show_int (sa_random a),
      ''oversized_connections: '' @ show_int (sa_oversized a), ''idle_connections: '' @ show_int (sa_idle a),
      ''slow_connections: '' @ show_int (sa_slow a), ''hold_seconds: '' @ se_repr e (sa_hold a),
      ''recovery_cmd: '' @ recovery_text a, ''csv_output: '' @ se_resolve e output,
      ''started_epoch: '' @ show_fixed 3 epoch, [], ''=== DoS Test Events ===='']"

text \<open>What the harness observed.\<close>

record dos_observed =
  do_before :: "string list \<times> bool"
  do_started :: bool
  do_random :: int
  do_oversized :: int
  do_finished :: bool
  do_after :: "string list \<times> bool"
  do_elapsed :: real

definition dos_events :: "suite_args \<Rightarrow> dos_observed \<Rightarrow> string list" where
  "dos_events a x =
     [''valid_auth_recovery_before: '' @ pass_text (snd (do_before x)),
      ''initial_reachability: '' @ bit_text (do_started x),
      ''random_bytes_failures: '' @ show_int (do_random x) @ ''/'' @ show_int (sa_random a),
      ''oversized_frame_failures: '' @ show_int (do_oversized x) @ ''/'' @ show_int (sa_oversized a),
      ''starting_idle_connections: '' @ show_int (sa_idle a),
      ''starting_slow_drip_connections: '' @ show_int (sa_slow a),
      ''final_reachability: '' @ bit_text (do_finished x),
      ''valid_auth_recovery_after: '' @ pass_text (snd (do_after x))]"

definition dos_rows :: "suite_args \<Rightarrow> dos_observed \<Rightarrow> string list list" where
  "dos_rows a x =
     [fst (do_before x),
      [''initial_reachability'', bit_text (do_started x), ''1 means TCP port accepted connection''],
      [''random_bytes'', show_int (do_random x), ''failures out of '' @ show_int (sa_random a)],
      [''oversized_frame'', show_int (do_oversized x), ''failures out of '' @ show_int (sa_oversized a)],
      [''final_reachability'', bit_text (do_finished x), ''1 means server remained reachable''],
      fst (do_after x),
      [''elapsed_ms'', show_fixed 3 (do_elapsed x * 1000), ''total DoS harness wall time'']]"

definition dos_rc :: "dos_observed \<Rightarrow> int" where
  "dos_rc x = (if do_started x \<and> do_finished x \<and> snd (do_before x) \<and> snd (do_after x) then 0 else 2)"

definition dos_log_tail :: "suite_env \<Rightarrow> suite_args \<Rightarrow> string \<Rightarrow> dos_observed \<Rightarrow> string list" where
  "dos_log_tail e a output x =
     [[], ''=== DoS CSV Rows ===''] @ map (\<lambda>r. r ! 0 @ '': '' @ r ! 1 @ '' ('' @ r ! 2 @ '')'') (dos_rows a x)
     @ [[], ''=== Security Test Result ==='', ''return_code: '' @ show_int (dos_rc x),
        ''elapsed_seconds: '' @ show_fixed 3 (do_elapsed x), ''csv_output: '' @ se_resolve e output]"

definition dos_traffic :: "suite_env \<Rightarrow> suite_args \<Rightarrow> (suite, dos_observed) eff" where
  "dos_traffic e a =
     andthen (look (se_clock e)) (\<lambda>start.
     andthen (run_recovery_command e (sa_recovery a) ''valid_auth_recovery_before'') (\<lambda>before.
     andthen (reachability_probe e) (\<lambda>started.
     andthen (send_random_bytes e (sa_random a)) (\<lambda>random.
     andthen (send_oversized_frames e (sa_oversized a)) (\<lambda>oversized.
     andthen (hold_connections e (sa_idle a)) (\<lambda>_.
     andthen (hold_connections e (sa_slow a)) (\<lambda>_.
     andthen (look (se_clock e)) (\<lambda>stop.
     andthen (reachability_probe e) (\<lambda>finished.
     andthen (run_recovery_command e (sa_recovery a) ''valid_auth_recovery_after'') (\<lambda>after.
       ret \<lparr>do_before = before, do_started = started, do_random = random, do_oversized = oversized, do_finished = finished,
            do_after = after, do_elapsed = stop - start\<rparr>))))))))))"

definition DOS_HEADER :: "string list" where
  "DOS_HEADER = [''test'', ''value'', ''note'']"

definition run_dos :: "suite_env \<Rightarrow> suite_args \<Rightarrow> (suite, int) eff" where
  "run_dos e a =
     (let project = se_root e (sa_project a); log_dir = path_join project (sa_log_dir a); output = dos_output project a in
      andthen (make_dir e log_dir) (\<lambda>_.
      andthen (make_dir e (fst (rpartition_at (CHR ''/'') output))) (\<lambda>_.
      andthen (look (se_epoch e)) (\<lambda>epoch.
      andthen (dos_traffic e a) (\<lambda>x.
      andthen (put_file e output (csv_write (DOS_HEADER # dos_rows a x))) (\<lambda>_.
      andthen (put_file e (log_dir @ ''/'' @ DOS_LOG)
          (unlines (dos_log_head e project a output epoch @ dos_events a x @ dos_log_tail e a output x))) (\<lambda>_.
        ret (dos_rc x))))))))"

section \<open>The program\<close>

definition run_one :: "suite_env \<Rightarrow> string \<Rightarrow> suite_args \<Rightarrow> (suite, int) eff" where
  "run_one e name a =
     (let project = se_root e (sa_project a) in
      case map_of CARGO_TESTS name of
        Some (test_filter, log_name) \<Rightarrow> suite_cargo_test e project (sa_log_dir a) test_filter log_name
      | None \<Rightarrow>
          if name = ''side-channel'' then
            suite_run_logged e [se_python e, se_script e, ''--test'', ''_sidechannel_direct'', ''--project'', project,
              ''--samples'', show_int (sa_samples a), ''--csv'', sa_csv a] project (sa_log_dir a) SIDE_CHANNEL_LOG None
          else if name = ''_sidechannel_direct'' then run_rng_sidechannel e project (sa_samples a) (sa_csv a)
          else if name = ''fuzz'' then run_fuzz e project (sa_log_dir a) (sa_seconds a)
          else if name = ''dos'' then run_dos e a
          else raise (ValueError (''unknown test: '' @ name)))"

text \<open>A test with its evidence: the status, the evidence, the time it took and the path of its CSV file.\<close>

definition run_with_evidence :: "suite_env \<Rightarrow> suite_args \<Rightarrow> string \<Rightarrow> (suite, int \<times> evidence \<times> real \<times> string) eff" where
  "run_with_evidence e a name =
     (let project = se_root e (sa_project a) in
      andthen (look (se_clock e)) (\<lambda>start.
      andthen (run_one e name a) (\<lambda>rc.
      andthen (look (se_clock e)) (\<lambda>stop.
      andthen (\<lambda>s. (build_evidence e project a name rc (stop - start) (artifact_for_test e project a name) (su_files s), s)) (\<lambda>v.
      andthen (write_test_evidence_csv e project a v) (\<lambda>csv.
      andthen (append_evidence_to_log e project a v (se_resolve e csv)) (\<lambda>_.
        ret (rc, v, stop - start, se_resolve e csv))))))))"

definition summary_row :: "suite_env \<Rightarrow> string \<Rightarrow> suite_args \<Rightarrow> int \<times> evidence \<times> real \<times> string \<Rightarrow> string list" where
  "summary_row e project a r = (case r of (rc, v, elapsed, csv) \<Rightarrow>
     [ev_test v, status_from_rc rc, show_int rc, show_fixed 3 elapsed, artifact_for_test e project a (ev_test v), ev_log v, csv])"

definition run_all :: "suite_env \<Rightarrow> suite_args \<Rightarrow> (suite, int) eff" where
  "run_all e a =
     (let project = se_root e (sa_project a) in
      andthen (map_eff (run_with_evidence e a) ALL_TESTS) (\<lambda>done.
      andthen (write_summary_csv e project (map (summary_row e project a) done)) (\<lambda>_.
      andthen (write_evidence_artifacts e project (map (\<lambda>(rc, v, elapsed, csv). (v, csv)) done)) (\<lambda>_.
        ret (if \<exists>r \<in> set done. fst r \<notin> {0, 77} then 1 else 0)))))"

definition suite_main :: "suite_env \<Rightarrow> suite_args \<Rightarrow> (suite, int) eff" where
  "suite_main e a =
     (let project = se_root e (sa_project a) in
      if sa_test a = ''install'' then
        andthen (install_embedded_files e project (sa_force_install a) True) (\<lambda>_. ret 0)
      else if sa_test a = ''all'' then run_all e a
      else if sa_test a = ''_sidechannel_direct'' then run_one e (sa_test a) a
      else andthen (run_with_evidence e a (sa_test a)) (\<lambda>(rc, v, elapsed, csv).
           andthen (write_evidence_artifacts e project [(v, csv)]) (\<lambda>_. ret rc)))"

end
