(* ===== verification/SuiteCorrect.thy ===== *)
theory SuiteCorrect
  imports SecuritySuite
begin

text \<open>
  What the security suite promises: one row of the summary per test with its status, installed files that are
  settled, a verdict of the resilience harness that is reachability and recovery alone, and a checklist that
  reads back with the right counts. And where it fails: a fuzzing timeout ends the whole suite
  without a summary, and with the defaults the raw CSV files are overwritten by the evidence.
\<close>

section \<open>Which files an operation changes\<close>

named_theorems touches_intros \<open>rules for the files an operation changes\<close>

definition touches :: "(string \<Rightarrow> bool) \<Rightarrow> (suite, 'a) eff \<Rightarrow> bool" where
  "touches P m \<longleftrightarrow> (\<forall>s p. \<not> P p \<longrightarrow> su_files (snd (m s)) p = su_files s p)"

lemma touchesD: "touches P m \<Longrightarrow> m s = (r, s') \<Longrightarrow> \<not> P p \<Longrightarrow> su_files s' p = su_files s p"
  unfolding touches_def by (metis snd_conv)

lemma touches_basic [touches_intros]:
  "touches P (ret x)" "touches P (raise y)" "touches P (from_res r)" "touches P (look f)" "touches P (make_dir e d)" "touches P (open_conn e)"
  by (simp_all add: touches_def look_def make_dir_def open_conn_def split: option.splits)

lemma touches_put [touches_intros]: "P p \<Longrightarrow> touches P (put_file e p text)"
  by (auto simp: touches_def put_file_def split: option.splits)

lemma touches_andthen [touches_intros]: "touches P m \<Longrightarrow> (\<And>x. touches P (f x)) \<Longrightarrow> touches P (andthen m f)"
  unfolding touches_def andthen_def by (auto split: prod.splits sum.splits) (metis snd_conv)+

lemma touches_map_eff [touches_intros]: "(\<And>x. touches P (f x)) \<Longrightarrow> touches P (map_eff f xs)"
  by (induction xs) (auto intro!: touches_intros)

lemma touches_if [touches_intros]: "touches P a \<Longrightarrow> touches P b \<Longrightarrow> touches P (if c then a else b)"
  by simp

section \<open>File names\<close>

definition base_name :: "string \<Rightarrow> string" where
  "base_name p = rev (takeWhile (\<lambda>c. c \<noteq> CHR ''/'') (rev p))"

lemma base_name_join: "CHR ''/'' \<notin> set n \<Longrightarrow> base_name (d @ ''/'' @ n) = n"
proof -
  assume "CHR ''/'' \<notin> set n"
  then have "takeWhile (\<lambda>c. c \<noteq> CHR ''/'') (rev n @ CHR ''/'' # rev d) = rev n" by (intro takeWhile_until) simp
  then show ?thesis by (simp add: base_name_def)
qed

lemma base_name_results: "CHR ''/'' \<notin> set n \<Longrightarrow> base_name (results_file project n) = n"
  using base_name_join [of n "project @ ''/results/security''"]
  by (simp add: results_file_def path_join_def)

lemma base_name_csv: "name \<in> set ALL_TESTS \<Longrightarrow> base_name (per_test_csv_path project a name) = csv_name name"
  unfolding per_test_csv_path_def by (rule base_name_join) (auto simp: ALL_TESTS_def csv_name_def CSV_NAMES_def)

lemma log_names:
  assumes "log_path_for_test project a name = Some p"
  shows "\<exists>d n. p = d @ ''/'' @ n \<and> CHR ''/'' \<notin> set n \<and> last n = CHR ''g''"
proof -
  have "\<exists>n. p = path_join project (sa_log_dir a) @ ''/'' @ n \<and> CHR ''/'' \<notin> set n \<and> last n = CHR ''g''"
    using assms unfolding log_path_for_test_def Let_def
    by (auto simp: CARGO_TESTS_def SIDE_CHANNEL_LOG_def FUZZ_LOG_def DOS_LOG_def split: if_splits)
  then show ?thesis by blast
qed

lemma log_base_name:
  assumes "log_path_for_test project a name = Some p"
  shows "last (base_name p) = CHR ''g''"
  using log_names [OF assms] base_name_join by auto

section \<open>A test with its evidence\<close>

lemma build_evidence_Inr:
  "build_evidence e project a name rc elapsed artifact files = Inr v \<Longrightarrow>
   ev_test v = name \<and> ev_rc v = rc \<and> ev_status v = status_from_rc rc"
  by (auto simp: build_evidence_def bind_res_Inr_iff)

lemma run_with_evidence_Inr:
  assumes "run_with_evidence e a name s = (Inr (rc, v, elapsed, csv), s')"
  shows "ev_test v = name \<and> ev_rc v = rc"
  using assms build_evidence_Inr unfolding run_with_evidence_def Let_def
  by (auto simp: andthen_Inr_iff)

section \<open>The summary\<close>

definition text_cell :: "string \<Rightarrow> string option option" where
  "text_cell t = Some (Some t)"

lemma dict_row_at:
  assumes "distinct header" and "length row = length header" and "i < length header" and "header ! i = k"
  shows "dict_row header row k = text_cell (row ! i)"
  using dict_row_nth [OF assms(1-3)] assms(4) by (simp add: text_cell_def)

lemma summary_row_cells:
  assumes "r = (rc, v, elapsed, csv)"
  shows "dict_row SUMMARY_HEADER (summary_row e project a r) ''test'' = text_cell (ev_test v)"
    and "dict_row SUMMARY_HEADER (summary_row e project a r) ''status'' = text_cell (status_from_rc rc)"
    and "dict_row SUMMARY_HEADER (summary_row e project a r) ''return_code'' = text_cell (show_int rc)"
  using assms by (simp_all add: dict_row_def SUMMARY_HEADER_def summary_row_def text_cell_def)

lemma put_file_Inr: "put_file e p text s = (Inr u, s') \<Longrightarrow> su_files s' p = Some text"
  by (auto simp: put_file_def split: option.splits)

lemma touches_artifacts:
  "touches (\<lambda>p. p \<in> {results_file project ''security_evidence.json'', results_file project ''security_evidence.csv''})
     (write_evidence_artifacts e project vs)"
  unfolding write_evidence_artifacts_def by (intro touches_intros) simp_all

lemma results_files_differ: "results_file project m = results_file project n \<Longrightarrow> m = n"
  by (simp add: results_file_def path_join_def)

text \<open>The states between the operations of a sequence that returns.\<close>

lemma map_eff_states:
  assumes "map_eff f xs s = (Inr ys, s')"
  shows "\<exists>ss. length ss = Suc (length xs) \<and> ss ! 0 = s \<and> (\<forall>i < length xs. f (xs ! i) (ss ! i) = (Inr (ys ! i), ss ! Suc i))"
  using assms
proof (induction xs arbitrary: s ys)
  case Nil
  then show ?case by (intro exI [of _ "[s]"]) simp
next
  case (Cons x xs)
  then obtain y s1 ys' where 1: "f x s = (Inr y, s1)" "map_eff f xs s1 = (Inr ys', s')" "ys = y # ys'"
    unfolding map_eff_Inr by blast
  from Cons.IH [OF 1(2)] obtain ss where ss: "length ss = Suc (length xs)" "ss ! 0 = s1"
    "\<forall>i < length xs. f (xs ! i) (ss ! i) = (Inr (ys' ! i), ss ! Suc i)" by blast
  have "f ((x # xs) ! i) ((s # ss) ! i) = (Inr (ys ! i), (s # ss) ! Suc i)" if "i < length (x # xs)" for i
    using that 1 ss by (cases i) simp_all
  then show ?case using ss(1) by (intro exI [of _ "s # ss"]) simp
qed

lemma run_with_evidence_runs:
  "run_with_evidence e a name s = (Inr (rc, v, elapsed, csv), s') \<Longrightarrow> \<exists>t. run_one e name a s = (Inr rc, t)"
  by (auto simp: run_with_evidence_def Let_def andthen_Inr_iff look_def)

text \<open>C16: When the suite returns from its mode for all tests, it has run the eight tests one after the other, each from the state the
  one before and its evidence left; its summary, read with the line ends it was written with, has
  one row per test in the order of the tests, with the return code of that test and the status it stands for; and the suite
  returns one exactly when some test neither passed nor was skipped.\<close>

theorem all_tests_summarised:
  assumes "sa_test a = ''all''" and "suite_main e a s = (Inr rc, s')"
  shows "\<exists>rcs states text. length rcs = 8 \<and> length states = 9 \<and> states ! 0 = s
    \<and> (\<forall>i < 8. (\<exists>t. run_one e (ALL_TESTS ! i) a (states ! i) = (Inr (rcs ! i), t))
        \<and> (\<exists>d. run_with_evidence e a (ALL_TESTS ! i) (states ! i) = (Inr (rcs ! i, d), states ! Suc i)))
    \<and> su_files s' (results_file (se_root e (sa_project a)) ''security_summary.csv'') = Some text
    \<and> map (\<lambda>r. (r ''test'', r ''status'', r ''return_code'')) (csv_raw_dicts text)
      = map2 (\<lambda>name c. (text_cell name, text_cell (status_from_rc c), text_cell (show_int c))) ALL_TESTS rcs
    \<and> rc = (if \<exists>c \<in> set rcs. c \<noteq> 0 \<and> c \<noteq> 77 then 1 else 0)"
proof -
  let ?project = "se_root e (sa_project a)"
  let ?file = "results_file ?project ''security_summary.csv''"
  obtain ds s1 s2 where ds: "map_eff (run_with_evidence e a) ALL_TESTS s = (Inr ds, s1)"
    and summary: "write_summary_csv e ?project (map (summary_row e ?project a) ds) s1 = (Inr (), s2)"
    and artifacts: "write_evidence_artifacts e ?project (map (\<lambda>(rc, v, elapsed, csv). (v, csv)) ds) s2 = (Inr (), s')"
    and rc: "rc = (if \<exists>r \<in> set ds. fst r \<notin> {0, 77} then 1 else 0)"
    using assms by (auto simp: suite_main_def run_all_def Let_def andthen_Inr_iff)
  have tests: "list_all2 (\<lambda>name r. ev_test (fst (snd r)) = name) ALL_TESTS ds"
    using ds by (rule map_eff_list_all2) (metis prod.collapse run_with_evidence_Inr fst_conv snd_conv)
  then have len: "length ds = 8" by (auto dest: list_all2_lengthD simp: ALL_TESTS_def)
  obtain states where states: "length states = 9" "states ! 0 = s"
    "\<forall>i < 8. run_with_evidence e a (ALL_TESTS ! i) (states ! i) = (Inr (ds ! i), states ! Suc i)"
  proof -
    have "length ALL_TESTS = 8" by (simp add: ALL_TESTS_def)
    with map_eff_states [OF ds] that show ?thesis by auto
  qed
  have ran: "(\<exists>t. run_one e (ALL_TESTS ! i) a (states ! i) = (Inr (map fst ds ! i), t))
      \<and> (\<exists>d. run_with_evidence e a (ALL_TESTS ! i) (states ! i) = (Inr (map fst ds ! i, d), states ! Suc i))" if "i < 8" for i
  proof -
    obtain c v elapsed csv where "ds ! i = (c, v, elapsed, csv)" by (cases "ds ! i") auto
    then have d: "run_with_evidence e a (ALL_TESTS ! i) (states ! i) = (Inr (c, v, elapsed, csv), states ! Suc i)" "map fst ds ! i = c"
      using states(3) that len by simp_all
    from run_with_evidence_runs [OF d(1)] d show ?thesis by blast
  qed
  let ?rows = "map (summary_row e ?project a) ds"
  have "su_files s2 ?file = Some (csv_write (SUMMARY_HEADER # ?rows))"
    using summary put_file_Inr by (auto simp: write_summary_csv_def andthen_Inr_iff)
  moreover have "su_files s' ?file = su_files s2 ?file"
    using touchesD [OF touches_artifacts artifacts, of ?file] results_files_differ by auto
  ultimately have kept: "su_files s' ?file = Some (csv_write (SUMMARY_HEADER # ?rows))" by simp
  have "csv_raw_dicts (csv_write (SUMMARY_HEADER # ?rows)) = map (dict_row SUMMARY_HEADER) ?rows"
    by (intro csv_raw_dicts_write) (auto simp: summary_row_def SUMMARY_HEADER_def)
  moreover have "map (\<lambda>r. (r ''test'', r ''status'', r ''return_code'')) (map (dict_row SUMMARY_HEADER) ?rows)
      = map2 (\<lambda>name c. (text_cell name, text_cell (status_from_rc c), text_cell (show_int c))) ALL_TESTS (map fst ds)"
  proof (rule nth_equalityI)
    show "length (map (\<lambda>r. (r ''test'', r ''status'', r ''return_code'')) (map (dict_row SUMMARY_HEADER) ?rows))
        = length (map2 (\<lambda>name c. (text_cell name, text_cell (status_from_rc c), text_cell (show_int c))) ALL_TESTS (map fst ds))"
      using len by (simp add: ALL_TESTS_def)
  next
    fix i assume "i < length (map (\<lambda>r. (r ''test'', r ''status'', r ''return_code'')) (map (dict_row SUMMARY_HEADER) ?rows))"
    then have i: "i < length ds" by simp
    obtain rc v elapsed csv where r: "ds ! i = (rc, v, elapsed, csv)" by (cases "ds ! i") auto
    have "ev_test v = ALL_TESTS ! i" using list_all2_nthD2 [OF tests i] r by simp
    moreover have "i < length ALL_TESTS" using i len by (simp add: ALL_TESTS_def)
    ultimately show "map (\<lambda>r. (r ''test'', r ''status'', r ''return_code'')) (map (dict_row SUMMARY_HEADER) ?rows) ! i
        = map2 (\<lambda>name c. (text_cell name, text_cell (status_from_rc c), text_cell (show_int c))) ALL_TESTS (map fst ds) ! i"
      using i r summary_row_cells [OF r] by simp
  qed
  ultimately show ?thesis using kept len rc states(1,2) ran
    by (intro exI [of _ "map fst ds"] exI [of _ states] exI [of _ "csv_write (SUMMARY_HEADER # ?rows)"]) auto
qed

section \<open>The resilience harness\<close>

lemma send_loop_result:
  "send_loop e n f s = (Inr (f + int (length (filter (\<lambda>i. sending_failed (se_connect e i)) [su_conns s..<su_conns s + n]))),
     s\<lparr>su_conns := su_conns s + n\<rparr>)"
proof (induction n arbitrary: f s)
  case (Suc n)
  have "[su_conns s..<su_conns s + Suc n] = su_conns s # [Suc (su_conns s)..<su_conns s + Suc n]" by (rule upt_conv_Cons) simp
  then show ?case using Suc by (simp add: andthen_def open_conn_def del: upt_Suc)
qed simp

lemma hold_connections_result: "hold_connections e count s = (Inr (), s\<lparr>su_conns := su_conns s + nat count\<rparr>)"
proof -
  have "\<exists>ys. map_eff (\<lambda>_. open_conn e) (replicate n ()) s = (Inr ys, s\<lparr>su_conns := su_conns s + n\<rparr>)" for n
  proof (induction n arbitrary: s)
    case (Suc n)
    obtain ys where "map_eff (\<lambda>_. open_conn e) (replicate n ()) (s\<lparr>su_conns := Suc (su_conns s)\<rparr>)
        = (Inr ys, s\<lparr>su_conns := Suc (su_conns s)\<rparr>\<lparr>su_conns := Suc (su_conns s) + n\<rparr>)"
      using Suc [of "s\<lparr>su_conns := Suc (su_conns s)\<rparr>"] by auto
    moreover have "open_conn e s = (Inr (se_connect e (su_conns s)), s\<lparr>su_conns := Suc (su_conns s)\<rparr>)" by (simp add: open_conn_def)
    ultimately show ?case by (simp add: andthen_def)
  qed simp
  then obtain ys where "map_eff (\<lambda>_. open_conn e) (replicate (nat count) ()) s = (Inr ys, s\<lparr>su_conns := su_conns s + nat count\<rparr>)"
    by blast
  then show ?thesis by (simp add: hold_connections_def andthen_def)
qed

lemma reachability_probe_result:
  "reachability_probe e s = (Inr (se_connect e (su_conns s) \<noteq> ConnRefused), s\<lparr>su_conns := su_conns s + 1\<rparr>)"
  by (simp add: reachability_probe_def andthen_def open_conn_def)

text \<open>Without a recovery command, or with the empty one, recovery counts as passed.\<close>

definition recovery_ok :: "suite_env \<Rightarrow> string option \<Rightarrow> suite \<Rightarrow> bool" where
  "recovery_ok e command s = (case command of
       None \<Rightarrow> True
     | Some c \<Rightarrow> c = [] \<or> (\<exists>out. se_shell e s c = RecoveryDone 0 out))"

lemma run_recovery_command_result:
  "\<exists>v n. run_recovery_command e command label s = (Inr ([label, v, n], recovery_ok e command s), s)"
  by (auto simp: run_recovery_command_def recovery_ok_def andthen_def look_def split: option.splits recovery_outcome.splits)

definition failed_sends :: "suite_env \<Rightarrow> nat \<Rightarrow> int \<Rightarrow> nat" where
  "failed_sends e k count = length (filter (\<lambda>i. sending_failed (se_connect e i)) [k..<k + nat count])"

lemma send_results:
  "send_random_bytes e count s = (Inr (int (failed_sends e (su_conns s) count)), s\<lparr>su_conns := su_conns s + nat count\<rparr>)"
  "send_oversized_frames e count s = (Inr (int (failed_sends e (su_conns s) count)), s\<lparr>su_conns := su_conns s + nat count\<rparr>)"
  by (simp_all add: send_random_bytes_def send_oversized_frames_def send_loop_result failed_sends_def)

text \<open>The connections before the last probe.\<close>

definition stress_conns :: "suite_args \<Rightarrow> nat" where
  "stress_conns a = nat (sa_random a) + nat (sa_oversized a) + nat (sa_idle a) + nat (sa_slow a)"

lemma dos_traffic_result:
  fixes s :: suite and a :: suite_args
  defines "k \<equiv> su_conns s"
  defines "n \<equiv> k + 1 + stress_conns a"
  shows "\<exists>x v1 n1 v2 n2. dos_traffic e a s = (Inr x, s\<lparr>su_conns := n + 1\<rparr>)
    \<and> do_before x = ([''valid_auth_recovery_before'', v1, n1], recovery_ok e (sa_recovery a) s)
    \<and> do_started x = (se_connect e k \<noteq> ConnRefused)
    \<and> do_random x = int (failed_sends e (k + 1) (sa_random a))
    \<and> do_oversized x = int (failed_sends e (k + 1 + nat (sa_random a)) (sa_oversized a))
    \<and> do_finished x = (se_connect e n \<noteq> ConnRefused)
    \<and> do_after x = ([''valid_auth_recovery_after'', v2, n2], recovery_ok e (sa_recovery a) (s\<lparr>su_conns := n + 1\<rparr>))"
proof -
  obtain v1 n1 where r1: "run_recovery_command e (sa_recovery a) ''valid_auth_recovery_before'' s
      = (Inr ([''valid_auth_recovery_before'', v1, n1], recovery_ok e (sa_recovery a) s), s)"
    using run_recovery_command_result by blast
  obtain v2 n2 where r2: "run_recovery_command e (sa_recovery a) ''valid_auth_recovery_after'' (s\<lparr>su_conns := n + 1\<rparr>)
      = (Inr ([''valid_auth_recovery_after'', v2, n2], recovery_ok e (sa_recovery a) (s\<lparr>su_conns := n + 1\<rparr>)), s\<lparr>su_conns := n + 1\<rparr>)"
    using run_recovery_command_result by blast
  have n: "Suc (k + nat (sa_random a) + nat (sa_oversized a) + nat (sa_idle a) + nat (sa_slow a)) = n"
    by (simp add: n_def k_def stress_conns_def)
  show ?thesis
    using r2
    by (simp add: dos_traffic_def andthen_def look_def r1 reachability_probe_result send_results hold_connections_result n
        k_def [symmetric])
qed

lemma bit_text_number: "py_int (bit_text b) = Some (if b then 1 else 0)"
  using py_int_show_nat [of 1] py_int_show_nat [of 0] by (simp add: bit_text_def show_nat.simps)

text \<open>The table of the harness read back.\<close>

lemma dos_table_reads_back:
  assumes "do_before x = ([''valid_auth_recovery_before'', v1, n1], b1)" and "do_after x = ([''valid_auth_recovery_after'', v2, n2], b2)"
  shows "\<exists>d metrics. parse_dos_csv (Some (csv_write (DOS_HEADER # dos_rows a x))) = Inr d
    \<and> map_of d ''metric_count'' = Some (JInt 7)
    \<and> map_of d ''initial_reachability'' = Some (JInt (if do_started x then 1 else 0))
    \<and> map_of d ''final_reachability'' = Some (JInt (if do_finished x then 1 else 0))
    \<and> map_of d ''metrics'' = Some (JObj metrics)
    \<and> map_of metrics ''random_bytes'' = Some (JObj [(''value'', JStr (show_int (do_random x))),
        (''note'', JStr (''failures out of '' @ show_int (sa_random a)))])
    \<and> map_of metrics ''oversized_frame'' = Some (JObj [(''value'', JStr (show_int (do_oversized x))),
        (''note'', JStr (''failures out of '' @ show_int (sa_oversized a)))])"
proof -
  have rows: "csv_raw_dicts (csv_write (DOS_HEADER # dos_rows a x)) = map (dict_row DOS_HEADER) (dos_rows a x)"
    using assms by (intro csv_raw_dicts_write) (simp_all add: dos_rows_def DOS_HEADER_def)
  have cells: "cell_or_empty (dict_row DOS_HEADER [t, v, n]) ''test'' = Some t" "cell_or_empty (dict_row DOS_HEADER [t, v, n]) ''value'' = Some v"
    "cell_or_empty (dict_row DOS_HEADER [t, v, n]) ''note'' = Some n" for t v n
    by (simp_all add: cell_or_empty_def dict_row_def DOS_HEADER_def)
  show ?thesis
    by (simp add: parse_dos_csv_def rows) (simp add: dos_rows_def assms dos_metric_def cells opt_json_def reach_entry_def bit_text_number)
qed

text \<open>C17: The harness returns zero exactly when the first and the last probe were accepted and the recovery command, if
  there is one, succeeded before and after: what happened to the connections between is only counted. It opens as
  many connections as the options say and two probes, and its raw table, where it has a file of its own, reads back with
  both probes and the failures counted among the random and among the oversized connections.\<close>

theorem dos_verdict:
  fixes s :: suite and a :: suite_args
  assumes "run_dos e a s = (Inr rc, s')"
  defines "k \<equiv> su_conns s"
  defines "n \<equiv> k + 1 + stress_conns a"
  defines "project \<equiv> se_root e (sa_project a)"
  shows "su_conns s' = n + 1
    \<and> rc = (if se_connect e k \<noteq> ConnRefused \<and> se_connect e n \<noteq> ConnRefused
          \<and> recovery_ok e (sa_recovery a) s \<and> recovery_ok e (sa_recovery a) (s\<lparr>su_conns := n + 1\<rparr>) then 0 else 2)
    \<and> (dos_output project a \<noteq> path_join project (sa_log_dir a) @ ''/'' @ DOS_LOG \<longrightarrow>
        (\<exists>d metrics. parse_dos_csv (su_files s' (dos_output project a)) = Inr d
          \<and> map_of d ''initial_reachability'' = Some (JInt (if se_connect e k \<noteq> ConnRefused then 1 else 0))
          \<and> map_of d ''final_reachability'' = Some (JInt (if se_connect e n \<noteq> ConnRefused then 1 else 0))
          \<and> map_of d ''metrics'' = Some (JObj metrics)
          \<and> map_of metrics ''random_bytes'' = Some (JObj [(''value'', JStr (show_int (int (failed_sends e (k + 1) (sa_random a))))),
              (''note'', JStr (''failures out of '' @ show_int (sa_random a)))])
          \<and> map_of metrics ''oversized_frame'' = Some (JObj [(''value'', JStr (show_int (int (failed_sends e (k + 1 + nat (sa_random a)) (sa_oversized a))))),
              (''note'', JStr (''failures out of '' @ show_int (sa_oversized a)))])))"
proof -
  obtain x v1 n1 v2 n2 where t: "dos_traffic e a s = (Inr x, s\<lparr>su_conns := n + 1\<rparr>)"
    and before: "do_before x = ([''valid_auth_recovery_before'', v1, n1], recovery_ok e (sa_recovery a) s)"
    and x: "do_started x = (se_connect e k \<noteq> ConnRefused)" "do_random x = int (failed_sends e (k + 1) (sa_random a))"
      "do_oversized x = int (failed_sends e (k + 1 + nat (sa_random a)) (sa_oversized a))"
      "do_finished x = (se_connect e n \<noteq> ConnRefused)"
    and after: "do_after x = ([''valid_auth_recovery_after'', v2, n2], recovery_ok e (sa_recovery a) (s\<lparr>su_conns := n + 1\<rparr>))"
    using dos_traffic_result [of e a s] unfolding k_def n_def by blast
  let ?out = "dos_output project a"
  let ?log = "path_join project (sa_log_dir a) @ ''/'' @ DOS_LOG"
  have s': "rc = dos_rc x \<and> su_conns s' = n + 1
      \<and> (?out \<noteq> ?log \<longrightarrow> su_files s' ?out = Some (csv_write (DOS_HEADER # dos_rows a x)))"
    using assms(1) unfolding run_dos_def Let_def project_def [symmetric]
    by (auto simp: andthen_Inr_iff t make_dir_def look_def put_file_def split: option.splits)
  then have "su_files s' ?out = Some (csv_write (DOS_HEADER # dos_rows a x))" if "?out \<noteq> ?log" using that by blast
  with s' show ?thesis using dos_table_reads_back [OF before after, of a] by (auto simp: dos_rc_def x before after)
qed

section \<open>The checklist\<close>

lemma upper_verdicts: "upper (verdict b) = verdict b" "upper ''INFO'' = ''INFO''" "upper ''TODO'' = ''TODO''" "upper ''FAIL'' = ''FAIL''"
  "upper ''PASS'' = ''PASS''"
  by (simp_all add: upper_def upper_char_def verdict_def Let_def)

lemma verdict_texts: "verdict b = ''PASS'' \<longleftrightarrow> b" "verdict b = ''WARN'' \<longleftrightarrow> \<not> b" "verdict b \<noteq> ''FAIL''" "verdict b \<noteq> ''TODO''"
  by (simp_all add: verdict_def)

lemma check_cells:
  "cell_or_empty (dict_row CHECK_HEADER [c, st, d]) ''check'' = Some c" "cell_or_empty (dict_row CHECK_HEADER [c, st, d]) ''status'' = Some st"
  "cell_or_empty (dict_row CHECK_HEADER [c, st, d]) ''detail'' = Some d"
  by (simp_all add: cell_or_empty_def dict_row_def CHECK_HEADER_def)

lemma count_check_row:
  "count_check (dict_row CHECK_HEADER [c, st, d]) n = Inr (n\<lparr>sc_checks := sc_checks n + 1,
     sc_table := AList.update c (JObj [(''status'', JStr (upper st)), (''detail'', JStr d)]) (sc_table n),
     sc_pass := sc_pass n + (if upper st = ''PASS'' then 1 else 0),
     sc_warn := sc_warn n + (if upper st = ''WARN'' then 1 else 0),
     sc_fail := sc_fail n + (if upper st = ''FAIL'' then 1 else 0),
     sc_todo := sc_todo n + (if upper st = ''TODO'' then 1 else 0)\<rparr>)"
  by (simp add: count_check_def check_cells opt_json_def Let_def)

lemma ones_ratio_fixed:
  assumes "0 \<le> x"
  shows "ones_ratio (JStr (''ones_ratio='' @ show_fixed 6 x)) = Inr [(''rng_ones_ratio'', JNum (Fin (py_round x 6)))]"
proof -
  let ?r = "plus (\<lambda>c. is_digit c \<or> c = CHR ''.'')"
  let ?t = "show_fixed 6 x"
  have chars: "\<forall>c \<in> set ?t. is_digit c \<or> c = CHR ''.''"
    using show_scaled_chars assms by (auto simp: show_fixed_def)
  have "takes (Grp ''1'' ?r) [] (?t @ []) [(''1'', ?t)] []"
    using chars show_fixed_nonempty by (intro takes_Grp takes_plus) auto
  then have "takes rx_ones_ratio [] (''ones_ratio='' @ ?t) [(''1'', ?t)] []"
    unfolding rx_ones_ratio_def seqs.simps append_Nil2 by (rule takes_Seq [OF takes_lit])
  from takes_re_search [OF this] show ?thesis
    by (simp add: ones_ratio_def group_def float_json_def py_float_show_fixed assms del: append.simps)
qed

lemma count_seven:
  "\<exists>n. count_checks (map (dict_row CHECK_HEADER)
      [[''entropy_avail'', ''INFO'', d0], [''rng_duplicate_32byte_samples'', if dup then ''FAIL'' else ''PASS'', d1],
       [''rng_bit_balance'', verdict b2, d2], [''zeroize_dependency'', verdict b3, d3], [''constant_time_dependency'', verdict b4, d4],
       [''secret_logging_grep'', verdict b5, d5], [''manual_side_channel_review'', ''TODO'', d6]]) no_checks = Inr n
    \<and> sc_checks n = 7 \<and> sc_todo n = 1 \<and> sc_fail n = (if dup then 1 else 0) \<and> sc_pass n + sc_warn n + (if dup then 1 else 0) = 5
    \<and> balance_detail (sc_table n) = JStr d2"
  by (cases dup) (simp_all add: count_check_row upper_verdicts verdict_texts no_checks_def balance_detail_def)

text \<open>C27: Only a duplicate fails the checklist; its file, read by the collector of the evidence, counts seven checks, of which the
  entropy is only information and the manual review is open, and gives the ratio of ones to six decimals.\<close>

theorem sidechannel_counts:
  assumes "0 < samples" and "run_rng_sidechannel e project samples csv s = (Inr rc, s')"
  shows "\<exists>duplicate ratio d pass warn. rng_smoke (re_urandom (se_rng e s)) samples = Inr (duplicate, ratio)
    \<and> rc = (if duplicate then 1 else 0)
    \<and> parse_side_channel_csv (su_files s' (path_join project csv)) = Inr d
    \<and> map_of d ''check_count'' = Some (JInt 7) \<and> map_of d ''todo_count'' = Some (JInt 1) \<and> map_of d ''fail_count'' = Some (JInt rc)
    \<and> map_of d ''pass_count'' = Some (JInt pass) \<and> map_of d ''warn_count'' = Some (JInt warn) \<and> pass + warn + rc = 5
    \<and> map_of d ''rng_ones_ratio'' = Some (JNum (Fin (py_round ratio 6)))"
proof -
  obtain duplicate ratio where smoke: "rng_smoke (re_urandom (se_rng e s)) samples = Inr (duplicate, ratio)"
    using assms(2) by (auto simp: run_rng_sidechannel_def andthen_Inr_iff look_def)
  let ?rows = "suite_rng_rows (se_rng e s) samples duplicate ratio"
  have s': "su_files s' (path_join project csv) = Some (csv_write (CHECK_HEADER # ?rows))"
    and rc: "rc = (if filter (\<lambda>row. row ! 1 = ''FAIL'') ?rows \<noteq> [] then 1 else 0)"
    using assms(2) smoke put_file_Inr by (auto simp: run_rng_sidechannel_def andthen_Inr_iff look_def Let_def)
  have rc': "rc = (if duplicate then 1 else 0)" by (simp add: rc suite_rng_rows_def Let_def verdict_def)
  have ratio: "0 \<le> ratio" using smoke assms(1) by (auto simp: rng_smoke_def Let_def split: prod.splits if_splits)
  have rows: "csv_raw_dicts (csv_write (CHECK_HEADER # ?rows)) = map (dict_row CHECK_HEADER) ?rows"
    by (intro csv_raw_dicts_write) (simp_all add: suite_rng_rows_def Let_def CHECK_HEADER_def)
  have "\<exists>n. count_checks (map (dict_row CHECK_HEADER) ?rows) no_checks = Inr n
      \<and> sc_checks n = 7 \<and> sc_todo n = 1 \<and> sc_fail n = (if duplicate then 1 else 0)
      \<and> sc_pass n + sc_warn n + (if duplicate then 1 else 0) = 5 \<and> balance_detail (sc_table n) = JStr (''ones_ratio='' @ show_fixed 6 ratio)"
    unfolding suite_rng_rows_def Let_def by (rule count_seven)
  then obtain n where n: "count_checks (map (dict_row CHECK_HEADER) ?rows) no_checks = Inr n"
    and counts: "sc_checks n = 7" "sc_todo n = 1" "sc_fail n = (if duplicate then 1 else 0)"
      "sc_pass n + sc_warn n + (if duplicate then 1 else 0) = 5"
    and detail: "balance_detail (sc_table n) = JStr (''ones_ratio='' @ show_fixed 6 ratio)"
    by blast
  have "parse_side_channel_csv (su_files s' (path_join project csv))
      = Inr (side_dict n @ [(''rng_ones_ratio'', JNum (Fin (py_round ratio 6)))])"
    by (simp add: parse_side_channel_csv_def s' rows n detail ones_ratio_fixed [OF ratio] del: append.simps)
  moreover have "int (sc_pass n) + int (sc_warn n) + rc = 5" using counts(4) rc' by (cases duplicate) simp_all
  ultimately show ?thesis using smoke counts rc'
    by (intro exI [of _ duplicate] exI [of _ ratio] exI [of _ "side_dict n @ [(''rng_ones_ratio'', JNum (Fin (py_round ratio 6)))]"]
        exI [of _ "int (sc_pass n)"] exI [of _ "int (sc_warn n)"]) (simp add: side_dict_def)
qed

section \<open>A run of the suite\<close>

text \<open>A system on which a command succeeds, prints nothing and leaves no file, or hangs after a line when it is given 61 seconds,
  and every connection is served.\<close>

definition demo_suite :: suite_env where
  "demo_suite = \<lparr>se_root = \<lambda>_. ''/p'', se_resolve = \<lambda>p. p, se_security_rs = ''a'', se_fuzz_toml = ''b'', se_packet_rs = ''c'',
     se_denied = \<lambda>s p. None, se_run = \<lambda>s command timeout. (if timeout = Some 61 then TimedOut (Some ''#2'') else Completed 0 [], Map.empty), se_epoch = \<lambda>s. 0, se_clock = \<lambda>s. 0,
     se_connect = \<lambda>n. Served, se_shell = \<lambda>s c. RecoveryDone 0 [], se_rng = \<lambda>s. demo_rng, se_version = \<lambda>c. Inr (0, ''1''),
     se_python = ''python3'', se_script = ''/s.py'', se_py_version = ''3'', se_platform = ''linux'', se_repr = show_fixed 1\<rparr>"

definition demo_state :: suite where
  "demo_state = \<lparr>su_files = Map.empty, su_ran = [], su_conns = 0\<rparr>"

lemma demo_fields [simp]:
  "se_root demo_suite q = ''/p''" "se_resolve demo_suite q = q" "se_denied demo_suite s q = None" "se_clock demo_suite s = 0"
  "se_epoch demo_suite s = 0" "se_python demo_suite = ''python3''" "se_script demo_suite = ''/s.py''"
  "se_connect demo_suite n = Served"
  by (simp_all add: demo_suite_def)

lemma default_fields [simp]:
  "sa_project default_suite_args = ''.''" "sa_log_dir default_suite_args = ''results/security/logs''"
  "sa_test default_suite_args = ''all''" "sa_csv default_suite_args = ''results/security/csv/08_side_channel_rng_analysis.csv''"
  "sa_samples default_suite_args = 10000" "sa_seconds default_suite_args = 60" "sa_output default_suite_args = None"
  "sa_csv_dir default_suite_args = ''results/security/csv''"
  "sa_recovery default_suite_args = None"
  by (simp_all add: default_suite_args_def)

text \<open>What an operation leaves, when it always returns.\<close>

abbreviation yields :: "(suite \<Rightarrow> bool) \<Rightarrow> (suite, 'a) eff \<Rightarrow> (suite \<Rightarrow> bool) \<Rightarrow> bool" where
  "yields P m Q \<equiv> gives P m (\<lambda>_. Q)"

lemma yieldsD: "yields P m Q \<Longrightarrow> P s \<Longrightarrow> \<exists>x s'. m s = (Inr x, s') \<and> Q s'"
  by (rule givesD)

lemma yields_andthen: "yields P m R \<Longrightarrow> (\<And>x. yields R (f x) Q) \<Longrightarrow> yields P (andthen m f) Q"
  by (rule gives_andthen)

lemma yields_map_eff: "(\<And>x. x \<in> set xs \<Longrightarrow> yields P (f x) P) \<Longrightarrow> yields P (map_eff f xs) P"
  by (rule gives_map_eff)

lemma yields_basic:
  "yields P (ret x) P" "yields P (look f) P"
  "\<forall>s q. se_denied e s q = None \<Longrightarrow> yields P (make_dir e d) P"
  "\<forall>s q. se_denied e s q = None \<Longrightarrow> (\<And>s. P s \<Longrightarrow> Q (s\<lparr>su_files := (su_files s)(p \<mapsto> t)\<rparr>)) \<Longrightarrow> yields P (put_file e p t) Q"
  by (simp_all add: gives_def look_def make_dir_def put_file_def)

lemma newlines_chars: "c \<in> set (universal_newlines t) \<Longrightarrow> c \<in> set t \<or> c = LF"
  by (induction t rule: universal_newlines.induct) (auto split: if_splits)

lemma no_result_line: "CHR '';'' \<notin> set t \<Longrightarrow> re_search rx_result t = None"
proof (rule ccontr)
  assume no: "CHR '';'' \<notin> set t" and "re_search rx_result t \<noteq> None"
  then obtain u v w where "t = u @ v @ w" "v \<in> lang rx_result" using re_search_iff by blast
  moreover from this have "CHR '';'' \<in> set v" by (auto simp: rx_result_def lang_lit)
  ultimately show False using no by simp
qed

lemma parse_plain_log: "CHR '';'' \<notin> set t \<Longrightarrow> \<exists>d. parse_cargo_test_log (Some t) = Inr d"
proof -
  assume "CHR '';'' \<notin> set t"
  then have "CHR '';'' \<notin> set (universal_newlines t)" using newlines_chars by blast
  from no_result_line [OF this] show ?thesis by (simp add: parse_cargo_test_log_def Let_def cargo_counts_def)
qed

text \<open>The collector of a test finds a readable result.\<close>

definition collects :: "string \<Rightarrow> suite \<Rightarrow> bool" where
  "collects name s \<longleftrightarrow> (\<exists>d. collect_observed_results ''/p'' default_suite_args name (su_files s) = Inr d)"

lemma install_returns:
  assumes "\<forall>s q. se_denied e s q = None"
  shows "yields (\<lambda>_. True) (install_embedded_files e p f z) (\<lambda>_. True)"
  unfolding install_embedded_files_def write_file_if_needed_def Let_def
  by (intro yields_andthen [of _ _ "\<lambda>_. True"] yields_map_eff yields_basic assms)
    (auto intro!: yields_andthen yields_basic assms split: option.splits)

lemma install_yields: "yields (\<lambda>_. True) (install_embedded_files demo_suite p f z) (\<lambda>_. True)"
  by (rule install_returns) simp

lemma demo_logged:
  "timeout \<noteq> Some 61 \<Longrightarrow> \<exists>s'. suite_run_logged demo_suite command ''/p'' ''results/security/logs'' log_name timeout s = (Inr 0, s')
    \<and> su_files s' = [''/p/results/security/logs/'' @ log_name \<mapsto> log_text (log_header ''/p'' command 0) [] (log_footer 0 0)]"
  by (simp add: suite_run_logged_def Let_def path_join_def andthen_def make_dir_def look_def subprocess_def put_file_def run_result_def demo_suite_def)

lemmas demo_untimed = demo_logged [OF option.distinct(1)]

lemma demo_timed:
  "\<exists>s'. suite_run_logged demo_suite command ''/p'' ''results/security/logs'' log_name (Some 120) s = (Inr 0, s')
    \<and> su_files s' = [''/p/results/security/logs/'' @ log_name \<mapsto> log_text (log_header ''/p'' command 0) [] (log_footer 0 0)]"
  by (rule demo_logged) simp

text \<open>The log of a command of the suite has no semicolon, the end of every count in cargo's result line.\<close>

lemma demo_log_plain: "CHR '';'' \<notin> set (join_str '' '' command) \<Longrightarrow> CHR '';'' \<notin> set (log_text (log_header ''/p'' command 0) [] (log_footer 0 0))"
  using show_fixed_chars [of "CHR '';''" 3 0] by (auto simp: log_text_def log_header_def log_footer_def show_int_def show_nat.simps is_digit_def)

lemma demo_cargo:
  assumes "map_of CARGO_TESTS name = Some (test_filter, log_name)" and "CHR '';'' \<notin> set test_filter"
  shows "yields (\<lambda>_. True) (run_one demo_suite name default_suite_args) (collects name)"
  unfolding gives_def
proof (intro allI impI)
  fix s
  obtain u s1 where i: "install_embedded_files demo_suite ''/p'' False False s = (Inr u, s1)"
    using yieldsD [OF install_yields [of "''/p''" False False], of s] by auto
  let ?command = "[''cargo'', ''test'', ''--test'', ''security_zkarche'', test_filter, ''--'', ''--nocapture'']"
  obtain s' where s': "suite_run_logged demo_suite ?command ''/p'' ''results/security/logs'' log_name None s1 = (Inr 0, s')"
    and files: "su_files s' = [''/p/results/security/logs/'' @ log_name \<mapsto> log_text (log_header ''/p'' ?command 0) [] (log_footer 0 0)]"
    using demo_untimed by blast
  have "\<exists>d. parse_cargo_test_log (Some (log_text (log_header ''/p'' ?command 0) [] (log_footer 0 0))) = Inr d"
    using assms(2) by (intro parse_plain_log demo_log_plain) auto
  then have "collects name s'"
    using assms by (simp add: collects_def collect_observed_results_def log_path_for_test_def path_join_def files)
  then show "\<exists>x s'. run_one demo_suite name default_suite_args s = (Inr x, s') \<and> collects name s'"
    using i s' assms by (simp add: run_one_def suite_cargo_test_def andthen_def Let_def)
qed

lemma demo_other:
  "yields (\<lambda>_. True) (run_one demo_suite ''side-channel'' default_suite_args) (collects ''side-channel'')"
  "yields (\<lambda>_. True) (run_one demo_suite ''fuzz'' default_suite_args) (collects ''fuzz'')"
proof -
  show "yields (\<lambda>_. True) (run_one demo_suite ''fuzz'' default_suite_args) (collects ''fuzz'')"
    unfolding gives_def
  proof (intro allI impI)
    fix s
    obtain u s1 where i: "install_embedded_files demo_suite ''/p'' False True s = (Inr u, s1)"
      using yieldsD [OF install_yields [of "''/p''" False True], of s] by auto
    let ?command = "[''cargo'', ''+nightly'', ''fuzz'', ''run'', ''packet_parsers'', ''--'', ''-max_total_time='' @ show_int 60]"
    obtain s' where "suite_run_logged demo_suite ?command ''/p'' ''results/security/logs'' FUZZ_LOG (Some 120) s1 = (Inr 0, s')"
      using demo_timed by blast
    then have "\<exists>s'. run_one demo_suite ''fuzz'' default_suite_args s = (Inr 0, s')"
      using i by (simp add: run_one_def CARGO_TESTS_def run_fuzz_def andthen_def Let_def)
    then show "\<exists>x s'. run_one demo_suite ''fuzz'' default_suite_args s = (Inr x, s') \<and> collects ''fuzz'' s'"
      by (auto simp: collects_def collect_observed_results_def CARGO_TESTS_def)
  qed
  show "yields (\<lambda>_. True) (run_one demo_suite ''side-channel'' default_suite_args) (collects ''side-channel'')"
    unfolding gives_def
  proof (intro allI impI)
    fix s
    let ?command = "[''python3'', ''/s.py'', ''--test'', ''_sidechannel_direct'', ''--project'', ''/p'', ''--samples'', show_int 10000,
      ''--csv'', ''results/security/csv/08_side_channel_rng_analysis.csv'']"
    obtain s' where "suite_run_logged demo_suite ?command ''/p'' ''results/security/logs'' SIDE_CHANNEL_LOG None s = (Inr 0, s')"
      and "su_files s' = [''/p/results/security/logs/'' @ SIDE_CHANNEL_LOG \<mapsto> log_text (log_header ''/p'' ?command 0) [] (log_footer 0 0)]"
      using demo_untimed by blast
    then show "\<exists>x s'. run_one demo_suite ''side-channel'' default_suite_args s = (Inr x, s') \<and> collects ''side-channel'' s'"
      by (intro exI [of _ 0] exI [of _ s'])
        (simp add: run_one_def Let_def CARGO_TESTS_def collects_def collect_observed_results_def
          path_join_def SIDE_CHANNEL_LOG_def parse_side_channel_csv_def)
  qed
qed

lemma demo_dos: "yields (\<lambda>_. True) (run_one demo_suite ''dos'' default_suite_args) (collects ''dos'')"
  unfolding gives_def
proof (intro allI impI)
  fix s
  let ?out = "dos_output ''/p'' default_suite_args"
  obtain x s1 v1 n1 b1 v2 n2 b2 where t: "dos_traffic demo_suite default_suite_args s = (Inr x, s1)"
    and before: "do_before x = ([''valid_auth_recovery_before'', v1, n1], b1)" and after: "do_after x = ([''valid_auth_recovery_after'', v2, n2], b2)"
    using dos_traffic_result [of demo_suite default_suite_args s] by blast
  obtain d where d: "parse_dos_csv (Some (csv_write (DOS_HEADER # dos_rows default_suite_args x))) = Inr d"
    using dos_table_reads_back [OF before after] by blast
  have out: "?out = ''/p/results/security/csv/09_dos_resilence_test.csv''"
    by (simp add: dos_output_def per_test_csv_path_def csv_dir_of_def csv_name_def CSV_NAMES_def path_join_def)
  have "\<exists>s'. run_one demo_suite ''dos'' default_suite_args s = (Inr (dos_rc x), s')
      \<and> su_files s' ?out = Some (csv_write (DOS_HEADER # dos_rows default_suite_args x))"
    by (simp add: run_one_def CARGO_TESTS_def run_dos_def Let_def andthen_def make_dir_def look_def put_file_def t path_join_def out DOS_LOG_def)
  then show "\<exists>x s'. run_one demo_suite ''dos'' default_suite_args s = (Inr x, s') \<and> collects ''dos'' s'"
    using d by (auto simp: collects_def collect_observed_results_def CARGO_TESTS_def)
qed

lemma demo_run_one: "name \<in> set ALL_TESTS \<Longrightarrow> yields (\<lambda>_. True) (run_one demo_suite name default_suite_args) (collects name)"
  using demo_dos demo_other demo_cargo [of name] by (auto simp: ALL_TESTS_def CARGO_TESTS_def)

lemma demo_with_evidence:
  assumes "name \<in> set ALL_TESTS"
  shows "yields (\<lambda>_. True) (run_with_evidence demo_suite default_suite_args name) (\<lambda>_. True)"
proof -
  have build: "yields (collects name) (\<lambda>s. (build_evidence demo_suite ''/p'' default_suite_args name rc elapsed artifact (su_files s), s)) (\<lambda>_. True)"
    for rc elapsed artifact by (auto simp: gives_def collects_def build_evidence_def)
  have table: "yields (\<lambda>_. True) (write_test_evidence_csv demo_suite ''/p'' default_suite_args v) (\<lambda>_. True)" for v
    unfolding write_test_evidence_csv_def Let_def by (intro yields_andthen [of _ _ "\<lambda>_. True"] yields_basic) simp_all
  have log: "yields (\<lambda>_. True) (append_evidence_to_log demo_suite ''/p'' default_suite_args v csv) (\<lambda>_. True)" for v csv
    by (auto simp: append_evidence_to_log_def gives_def look_def andthen_def put_file_def split: option.splits)
  show ?thesis
    unfolding run_with_evidence_def Let_def demo_fields
    by (rule yields_andthen [OF yields_basic(2)], rule yields_andthen [OF demo_run_one [OF assms]], rule yields_andthen [OF yields_basic(2)],
        rule yields_andthen [OF build], rule yields_andthen [OF table], rule yields_andthen [OF log], rule yields_basic(1))
qed

lemma demo_returns: "\<exists>rc s'. suite_main demo_suite default_suite_args demo_state = (Inr rc, s')"
proof -
  obtain ds s1 where "map_eff (run_with_evidence demo_suite default_suite_args) ALL_TESTS demo_state = (Inr ds, s1)"
    using yieldsD [OF yields_map_eff [where f = "run_with_evidence demo_suite default_suite_args", OF demo_with_evidence], where s = demo_state]
    by blast
  then show ?thesis
    by (simp add: suite_main_def run_all_def Let_def andthen_def write_summary_csv_def write_evidence_artifacts_def make_dir_def put_file_def look_def)
qed

lemma all_tests_summarised_witness:
  "\<exists>rc s' text. suite_main demo_suite default_suite_args demo_state = (Inr rc, s')
    \<and> su_files s' ''/p/results/security/security_summary.csv'' = Some text
    \<and> map (\<lambda>r. r ''test'') (csv_raw_dicts text) = map text_cell ALL_TESTS"
proof -
  have firsts: "map fst (map2 (\<lambda>name c. (text_cell name, g c)) xs cs) = map text_cell xs" if "length cs = length xs"
    for g :: "int \<Rightarrow> string option option \<times> string option option" and xs cs
    using that by (intro nth_equalityI) simp_all
  obtain rc s' where m: "suite_main demo_suite default_suite_args demo_state = (Inr rc, s')" using demo_returns by blast
  have path: "results_file ''/p'' ''security_summary.csv'' = ''/p/results/security/security_summary.csv''"
    by (simp add: results_file_def path_join_def)
  from all_tests_summarised [OF _ m] obtain rcs states body where "length rcs = 8"
    and kept: "su_files s' ''/p/results/security/security_summary.csv'' = Some body"
    and rows: "map (\<lambda>r. (r ''test'', r ''status'', r ''return_code'')) (csv_raw_dicts body)
      = map2 (\<lambda>name c. (text_cell name, text_cell (status_from_rc c), text_cell (show_int c))) ALL_TESTS rcs"
    by (auto simp: path)
  have "map (\<lambda>r. r ''test'') (csv_raw_dicts body)
      = map fst (map (\<lambda>r. (r ''test'', r ''status'', r ''return_code'')) (csv_raw_dicts body))" by simp
  also have "\<dots> = map text_cell ALL_TESTS"
    unfolding rows using \<open>length rcs = 8\<close> by (intro firsts) (simp add: ALL_TESTS_def)
  finally show ?thesis using m kept by blast
qed

lemma dos_verdict_witness:
  "\<exists>s' d. run_dos demo_suite default_suite_args demo_state = (Inr 0, s') \<and> su_conns s' = 202
    \<and> parse_dos_csv (su_files s' ''/p/results/security/csv/09_dos_resilence_test.csv'') = Inr d
    \<and> map_of d ''final_reachability'' = Some (JInt 1)"
proof -
  have out: "dos_output ''/p'' default_suite_args = ''/p/results/security/csv/09_dos_resilence_test.csv''"
    by (simp add: dos_output_def per_test_csv_path_def csv_dir_of_def csv_name_def CSV_NAMES_def path_join_def)
  have conns: "stress_conns default_suite_args = 200" "recovery_ok demo_suite None s" "su_conns demo_state = 0" for s
    by (simp_all add: stress_conns_def default_suite_args_def recovery_ok_def demo_state_def)
  obtain rc s' where "run_one demo_suite ''dos'' default_suite_args demo_state = (Inr rc, s')"
    using yieldsD [OF demo_dos, where s = demo_state] by auto
  then have m: "run_dos demo_suite default_suite_args demo_state = (Inr rc, s')" by (simp add: run_one_def CARGO_TESTS_def Let_def)
  from dos_verdict [OF m] m show ?thesis
    by (auto simp: out conns path_join_def DOS_LOG_def)
qed

lemma sidechannel_counts_witness:
  "\<exists>s' d. run_rng_sidechannel demo_suite ''/p'' 1 ''c.csv'' demo_state = (Inr 0, s')
    \<and> parse_side_channel_csv (su_files s' ''/p/c.csv'') = Inr d \<and> map_of d ''check_count'' = Some (JInt 7) \<and> map_of d ''fail_count'' = Some (JInt 0)"
proof -
  have smoke: "rng_smoke (re_urandom (se_rng demo_suite demo_state)) 1 = Inr (False, 0)"
    by (simp add: rng_smoke_def demo_suite_def demo_rng_def bit_count_def sum_list_replicate)
  have "\<exists>rc s'. run_rng_sidechannel demo_suite ''/p'' 1 ''c.csv'' demo_state = (Inr rc, s')"
    by (simp add: run_rng_sidechannel_def Let_def andthen_def look_def smoke make_dir_def put_file_def)
  then obtain rc s' where m: "run_rng_sidechannel demo_suite ''/p'' 1 ''c.csv'' demo_state = (Inr rc, s')" by blast
  have "path_join ''/p'' ''c.csv'' = ''/p/c.csv''" by (simp add: path_join_def)
  with sidechannel_counts [OF _ m] m smoke show ?thesis by auto
qed

end
