(* ===== verification/SuiteFiles.thy ===== *)
theory SuiteFiles
  imports SuiteCorrect
begin

text \<open>
  The files of the security suite: installed Rust files are settled, the checklist is that of the older script
  but for one word, and two losses. A timeout of the fuzzer with any output ends the suite before its summary,
  and with the default paths the raw CSV file of a test is overwritten by its evidence.
\<close>

section \<open>Installed files\<close>

lemma write_file_Inr:
  assumes "write_file_if_needed e dir name content force s = (Inr w, s')"
  defines "p \<equiv> dir @ ''/'' @ name"
  shows "(w \<longleftrightarrow> su_files s p = None \<or> force \<and> su_files s p \<noteq> None \<and> universal_newlines (the (su_files s p)) \<noteq> content)
    \<and> s' = (if w then s\<lparr>su_files := (su_files s)(p \<mapsto> content)\<rparr> else s)"
  using assms(1) unfolding write_file_if_needed_def Let_def p_def [symmetric]
  by (cases "su_files s p") (auto simp: andthen_Inr_iff make_dir_def look_def put_file_def split: option.splits if_splits)

definition target_path :: "string \<times> string \<times> string \<Rightarrow> string" where
  "target_path t = (case t of (dir, name, content) \<Rightarrow> dir @ ''/'' @ name)"

definition target_text :: "string \<times> string \<times> string \<Rightarrow> string" where
  "target_text t = snd (snd t)"

text \<open>What a target holds afterwards: the embedded text if it was missing or is forced and differs, otherwise what it held.\<close>

definition installed :: "bool \<Rightarrow> string option \<Rightarrow> string \<Rightarrow> string option" where
  "installed force old content = (case old of
       None \<Rightarrow> Some content
     | Some t \<Rightarrow> if force \<and> universal_newlines t \<noteq> content then Some content else Some t)"

lemma install_loop:
  assumes "map_eff f ts s = (Inr ws, s')" and "distinct (map target_path ts)"
    and "\<forall>t \<in> set ts. universal_newlines (target_text t) = target_text t"
    and f: "\<And>dir name content. f (dir, name, content) = andthen (write_file_if_needed e dir name content force) (\<lambda>w.
         ret (if w then [dir @ ''/'' @ name] else []))"
  shows "concat ws = map target_path (filter (\<lambda>t. installed force (su_files s (target_path t)) (target_text t) \<noteq> su_files s (target_path t)) ts)
    \<and> (\<forall>t \<in> set ts. su_files s' (target_path t) = installed force (su_files s (target_path t)) (target_text t))
    \<and> (\<forall>p. p \<notin> target_path ` set ts \<longrightarrow> su_files s' p = su_files s p)
    \<and> su_ran s' = su_ran s \<and> su_conns s' = su_conns s"
  using assms(1-3)
proof (induction ts arbitrary: s ws)
  case (Cons t ts)
  obtain dir name content where t: "t = (dir, name, content)" by (cases t) auto
  let ?p = "dir @ ''/'' @ name"
  from Cons.prems(1) obtain w s1 vs where 1: "write_file_if_needed e dir name content force s = (Inr w, s1)"
    and 2: "map_eff f ts s1 = (Inr vs, s')"
    and ws: "ws = (if w then [?p] else []) # vs"
    by (auto simp: t f andthen_Inr_iff)
  have p: "target_path t = ?p" "target_text t = content" by (simp_all add: t target_path_def target_text_def)
  have s1: "s1 = (if w then s\<lparr>su_files := (su_files s)(?p \<mapsto> content)\<rparr> else s)"
    and w: "w \<longleftrightarrow> installed force (su_files s ?p) content \<noteq> su_files s ?p"
    and new: "w \<Longrightarrow> installed force (su_files s ?p) content = Some content"
    using write_file_Inr [OF 1] Cons.prems(3) p(2) by (auto simp: installed_def split: option.splits)
  have other: "su_files s1 q = su_files s q" if "q \<noteq> ?p" for q using that by (simp add: s1)
  have not_p: "target_path u \<noteq> ?p" if "u \<in> set ts" for u using Cons.prems(2) that p(1) by force
  note IH = Cons.IH [OF 2]
  have "filter (\<lambda>u. installed force (su_files s1 (target_path u)) (target_text u) \<noteq> su_files s1 (target_path u)) ts
      = filter (\<lambda>u. installed force (su_files s (target_path u)) (target_text u) \<noteq> su_files s (target_path u)) ts"
    using other not_p by (intro filter_cong refl) simp
  moreover have "su_files s' ?p = installed force (su_files s ?p) content"
    using IH Cons.prems(2,3) p s1 w new by (cases w) (auto simp: image_iff)
  ultimately show ?case using IH Cons.prems(2,3) p w ws other not_p s1 by (auto simp: image_iff)
qed simp

lemma embedded_distinct: "distinct (map target_path (embedded_targets e project z))"
  by (cases z) (simp_all add: embedded_targets_def target_path_def)

text \<open>After an installation every target holds the embedded text, or, without force, what the user left there; no
  other file changes, and the files named as written are those that changed. A second installation, forced only
  if the first was, writes nothing.\<close>

lemma install_settles:
  assumes "install_embedded_files e project force z s = (Inr written, s')"
    and "\<forall>t \<in> {se_security_rs e, se_fuzz_toml e, se_packet_rs e}. CR \<notin> set t"
  defines "ts \<equiv> embedded_targets e project z"
  shows "(\<forall>t \<in> set ts. su_files s' (target_path t) = installed force (su_files s (target_path t)) (target_text t))
    \<and> (\<forall>p. p \<notin> target_path ` set ts \<longrightarrow> su_files s' p = su_files s p)
    \<and> written = filter (\<lambda>p. su_files s' p \<noteq> su_files s p) (map target_path ts)
    \<and> (\<forall>again written' s''. (again \<longrightarrow> force) \<and> install_embedded_files e project again z s' = (Inr written', s'')
        \<longrightarrow> written' = [] \<and> su_files s'' = su_files s')"
proof -
  have plain: "\<forall>t \<in> set ts. universal_newlines (target_text t) = target_text t"
    using assms(2) by (auto simp: ts_def embedded_targets_def target_text_def universal_newlines_id)
  have once: "written = filter (\<lambda>p. su_files s' p \<noteq> su_files s p) (map target_path ts)
      \<and> (\<forall>t \<in> set ts. su_files s' (target_path t) = installed force (su_files s (target_path t)) (target_text t))
      \<and> (\<forall>p. p \<notin> target_path ` set ts \<longrightarrow> su_files s' p = su_files s p)"
    if run: "install_embedded_files e project force z s = (Inr written, s')" for force written s s'
  proof -
    let ?f = "\<lambda>(dir, name, content). andthen (write_file_if_needed e dir name content force) (\<lambda>w. ret (if w then [dir @ ''/'' @ name] else []))"
    obtain ws where ws: "map_eff ?f ts s = (Inr ws, s')" "written = concat ws"
      using run by (auto simp: install_embedded_files_def andthen_Inr_iff ts_def)
    have loop: "written = map target_path (filter (\<lambda>t. installed force (su_files s (target_path t)) (target_text t) \<noteq> su_files s (target_path t)) ts)
        \<and> (\<forall>t \<in> set ts. su_files s' (target_path t) = installed force (su_files s (target_path t)) (target_text t))
        \<and> (\<forall>p. p \<notin> target_path ` set ts \<longrightarrow> su_files s' p = su_files s p)"
      using install_loop [OF ws(1) _ plain, of e force] embedded_distinct [of e project z] unfolding ws(2) ts_def by simp
    then have "filter (\<lambda>t. installed force (su_files s (target_path t)) (target_text t) \<noteq> su_files s (target_path t)) ts
        = filter (\<lambda>t. su_files s' (target_path t) \<noteq> su_files s (target_path t)) ts"
      by (intro filter_cong refl) simp
    with loop show ?thesis by (simp add: filter_map comp_def)
  qed
  have twice: "written' = [] \<and> su_files s'' = su_files s'"
    if "again \<longrightarrow> force" and run: "install_embedded_files e project again z s' = (Inr written', s'')" for again written' s''
  proof -
    have "installed again (installed force old c) c = installed force old c" if "universal_newlines c = c" for old c
      using that \<open>again \<longrightarrow> force\<close> by (auto simp: installed_def split: option.splits)
    then have same: "su_files s'' p = su_files s' p" for p
      using once [OF run] once [OF assms(1)] plain by (cases "p \<in> target_path ` set ts") auto
    then show ?thesis using once [OF run] by (auto simp: fun_eq_iff)
  qed
  show ?thesis using once [OF assms(1)] twice by blast
qed

text \<open>A test file the user edited stays, the fuzz target that was missing appears.\<close>

lemma install_settles_witness:
  "\<exists>written s'. install_embedded_files demo_suite ''/p'' False False (demo_state\<lparr>su_files := [''/p/tests/security_zkarche.rs'' \<mapsto> ''mine'']\<rparr>)
      = (Inr written, s') \<and> written = [] \<and> su_files s' ''/p/tests/security_zkarche.rs'' = Some ''mine''"
proof -
  let ?s = "demo_state\<lparr>su_files := [''/p/tests/security_zkarche.rs'' \<mapsto> ''mine'']\<rparr>"
  obtain written s' where run: "install_embedded_files demo_suite ''/p'' False False ?s = (Inr written, s')"
    using yieldsD [OF install_yields [of "''/p''" False False], of ?s] by auto
  have "\<forall>t \<in> {se_security_rs demo_suite, se_fuzz_toml demo_suite, se_packet_rs demo_suite}. CR \<notin> set t"
    by (simp add: demo_suite_def)
  from install_settles [OF run this] run show ?thesis
    by (auto simp: embedded_targets_def target_path_def installed_def)
qed

section \<open>The evidence replaces the raw table\<close>

text \<open>Where the checklist and the harness write their raw tables.\<close>

definition raw_table_path :: "string \<Rightarrow> suite_args \<Rightarrow> string" where
  "raw_table_path project a = (if sa_test a = ''dos'' then dos_output project a else path_join project (sa_csv a))"

lemma raw_table_default:
  assumes "sa_test a \<in> {''side-channel'', ''dos''}" and "sa_csv_dir a = sa_csv_dir default_suite_args"
    and "sa_csv a = sa_csv default_suite_args" and "sa_output a = None"
  shows "raw_table_path project a = per_test_csv_path project a (sa_test a)"
  using assms by (auto simp: raw_table_path_def dos_output_def per_test_csv_path_def csv_dir_of_def path_join_def csv_name_def CSV_NAMES_def)

lemma csv_base_last: "name \<in> set ALL_TESTS \<Longrightarrow> last (base_name (per_test_csv_path project a name)) = CHR ''v''"
  by (simp add: base_name_csv) (auto simp: ALL_TESTS_def csv_name_def CSV_NAMES_def)

lemma csv_not_results:
  "name \<in> set ALL_TESTS \<Longrightarrow> per_test_csv_path project a name \<noteq> results_file project ''security_evidence.json''
     \<and> per_test_csv_path project a name \<noteq> results_file project ''security_evidence.csv''"
  using base_name_csv [of name project a] base_name_results [of "''security_evidence.json''" project]
    base_name_results [of "''security_evidence.csv''" project]
  by (auto simp: ALL_TESTS_def csv_name_def CSV_NAMES_def)

lemma touches_append:
  "touches (\<lambda>p. log_path_for_test project a (ev_test v) = Some p) (append_evidence_to_log e project a v csv)"
  by (auto simp: append_evidence_to_log_def touches_def look_def andthen_def put_file_def split: option.splits)

lemma evidence_csv_kept:
  assumes "run_with_evidence e a name s = (Inr (rc, v, elapsed, csv), s')" and "name \<in> set ALL_TESTS"
  shows "ev_test v = name
    \<and> su_files s' (per_test_csv_path (se_root e (sa_project a)) a name) = Some (csv_write (evidence_table (se_repr e) v))"
proof -
  let ?project = "se_root e (sa_project a)"
  have v: "ev_test v = name" using run_with_evidence_Inr [OF assms(1)] by simp
  from assms(1) obtain path s1 s2 where 1: "write_test_evidence_csv e ?project a v s1 = (Inr path, s2)"
    and 2: "append_evidence_to_log e ?project a v (se_resolve e path) s2 = (Inr (), s')"
    by (auto simp: run_with_evidence_def Let_def andthen_Inr_iff)
  have "su_files s2 (per_test_csv_path ?project a name) = Some (csv_write (evidence_table (se_repr e) v))"
    using 1 v put_file_Inr by (auto simp: write_test_evidence_csv_def Let_def andthen_Inr_iff)
  moreover have "log_path_for_test ?project a (ev_test v) \<noteq> Some (per_test_csv_path ?project a name)"
    using log_base_name csv_base_last [OF assms(2), of ?project a] v by fastforce
  ultimately show ?thesis using touchesD [OF touches_append 2] v by simp
qed

lemma dict_row_other: "k \<notin> set header \<Longrightarrow> dict_row header row k = None"
  by (auto simp: dict_row_def map_of_eq_None_iff dest: set_zip_leftD)

lemma evidence_columns:
  "csv_raw_dicts (csv_write (evidence_table fr v)) = map (dict_row EVIDENCE_HEADER) (tl (evidence_table fr v))
   \<and> (\<forall>r \<in> set (csv_raw_dicts (csv_write (evidence_table fr v))). \<forall>k \<in> {''check'', ''status'', ''detail'', ''test'', ''note''}. r k = None)"
proof -
  have flat: "row \<in> set (flatten_for_csv fr prefix x) \<Longrightarrow> row \<noteq> []" "row \<in> set (flatten_entries fr prefix kvs) \<Longrightarrow> row \<noteq> []" for row prefix x kvs
    by (induction fr prefix x and fr prefix kvs rule: flatten_for_csv_flatten_entries.induct) auto
  let ?rows = "tl (evidence_table fr v)"
  have "csv_raw_dicts (csv_write (EVIDENCE_HEADER # ?rows)) = map (dict_row EVIDENCE_HEADER) ?rows"
    by (rule csv_raw_dicts_write) (auto simp: evidence_table_def metadata_row_def EVIDENCE_HEADER_def Let_def dest: flat)
  moreover have "evidence_table fr v = EVIDENCE_HEADER # ?rows" by (simp add: evidence_table_def)
  ultimately have dicts: "csv_raw_dicts (csv_write (evidence_table fr v)) = map (dict_row EVIDENCE_HEADER) ?rows" by simp
  have "k \<in> {''check'', ''status'', ''detail'', ''test'', ''note''} \<Longrightarrow> k \<notin> set EVIDENCE_HEADER" for k
    by (auto simp: EVIDENCE_HEADER_def)
  then show ?thesis unfolding dicts using dict_row_other by (auto simp del: insert_iff)
qed

text \<open>What the readers of the raw tables make of rows without their columns: everything under the empty name.\<close>

definition nameless_check :: json where
  "nameless_check = JObj [(''status'', JStr []), (''detail'', JStr [])]"

lemma count_nameless:
  assumes "\<forall>r \<in> set rows. \<forall>k \<in> {''check'', ''status'', ''detail''}. r k = None" and "sc_table n \<in> {[], [([], nameless_check)]}"
  shows "\<exists>t. count_checks rows n = Inr (n\<lparr>sc_checks := sc_checks n + length rows, sc_table := t\<rparr>)
    \<and> (t = [([], nameless_check)] \<or> rows = [] \<and> t = sc_table n)"
  using assms
proof (induction rows arbitrary: n)
  case Nil
  then show ?case by (intro exI [of _ "sc_table n"]) simp
next
  case (Cons r rows)
  have "upper [] = []" by (simp add: upper_def)
  then have one: "count_check r n = Inr (n\<lparr>sc_checks := sc_checks n + 1, sc_table := [([], nameless_check)]\<rparr>)"
    using Cons.prems by (auto simp: count_check_def cell_or_empty_def opt_json_def nameless_check_def Let_def)
  have "\<forall>r \<in> set rows. \<forall>k \<in> {''check'', ''status'', ''detail''}. r k = None" using Cons.prems(1) by simp
  from Cons.IH [OF this, of "n\<lparr>sc_checks := sc_checks n + 1, sc_table := [([], nameless_check)]\<rparr>"] show ?case
    by (auto simp: one)
qed

lemma metrics_nameless:
  assumes "\<forall>r \<in> set rows. \<forall>k \<in> {''test'', ''note''}. r k = None" and "rows \<noteq> []" and "m = [] \<or> (\<exists>x. m = [([], x)])"
  shows "\<exists>x. dos_metrics rows m = Inr [([], JObj [(''value'', x), (''note'', JStr [])])]"
  using assms
proof (induction rows arbitrary: m)
  case (Cons r rows)
  then have one: "dos_metric r m = Inr [([], JObj [(''value'', opt_json (cell_or_empty r ''value'')), (''note'', JStr [])])]"
    by (auto simp: dos_metric_def cell_or_empty_def opt_json_def)
  show ?case
  proof (cases "rows = []")
    case True
    then show ?thesis by (simp add: one)
  next
    case False
    have "\<forall>r \<in> set rows. \<forall>k \<in> {''test'', ''note''}. r k = None" using Cons.prems(1) by simp
    from Cons.IH [OF this False] show ?thesis by (simp add: one)
  qed
qed simp

lemma readers_on_evidence:
  fixes fr :: "real \<Rightarrow> string" and v :: evidence
  defines "t \<equiv> csv_write (evidence_table fr v)"
  defines "n \<equiv> int (length (tl (evidence_table fr v)))"
  shows "parse_side_channel_csv (Some t) = Inr [(''check_count'', JInt n), (''pass_count'', JInt 0), (''warn_count'', JInt 0),
      (''fail_count'', JInt 0), (''todo_count'', JInt 0), (''checks'', JObj [([], nameless_check)])]
    \<and> (\<exists>x. parse_dos_csv (Some t) = Inr [(''metric_count'', JInt n),
         (''metrics'', JObj [([], JObj [(''value'', x), (''note'', JStr [])])])])"
proof -
  have dicts: "csv_raw_dicts t = map (dict_row EVIDENCE_HEADER) (tl (evidence_table fr v))"
    and cells: "\<forall>r \<in> set (csv_raw_dicts t). \<forall>k \<in> {''check'', ''status'', ''detail'', ''test'', ''note''}. r k = None"
    using evidence_columns [of fr v] by (simp_all add: t_def)
  then have ne: "csv_raw_dicts t \<noteq> []" and len: "int (length (csv_raw_dicts t)) = n"
    by (simp_all add: n_def) (simp add: evidence_table_def METADATA_KEYS_def)
  have "count_checks (csv_raw_dicts t) no_checks
      = Inr (no_checks\<lparr>sc_checks := length (csv_raw_dicts t), sc_table := [([], nameless_check)]\<rparr>)"
    using count_nameless [of "csv_raw_dicts t" no_checks] cells ne by (auto simp: no_checks_def)
  moreover have "ones_ratio (balance_detail [([], nameless_check)]) = Inr []" by code_simp
  ultimately have "parse_side_channel_csv (Some t) = Inr [(''check_count'', JInt n), (''pass_count'', JInt 0), (''warn_count'', JInt 0),
      (''fail_count'', JInt 0), (''todo_count'', JInt 0), (''checks'', JObj [([], nameless_check)])]"
    using len by (simp add: parse_side_channel_csv_def side_dict_def no_checks_def)
  moreover obtain x where "dos_metrics (csv_raw_dicts t) [] = Inr [([], JObj [(''value'', x), (''note'', JStr [])])]"
    using metrics_nameless [OF _ ne, of "[]"] cells by auto
  ultimately show ?thesis using len by (auto simp: parse_dos_csv_def reach_entry_def)
qed

text \<open>C31: With the default paths, once the checklist or the harness has run on its own, the file of its raw table holds the
  evidence table instead. What the raw table held was read into the evidence before. Read again by the suite's own readers, the
  file has no check, no metric and no probe by name: each row of the evidence counts as one check and one
  metric without a name, and no check as passed, failed, doubtful or open.\<close>

theorem raw_csv_overwritten:
  assumes "sa_test a \<in> {''side-channel'', ''dos''}" and "sa_csv_dir a = sa_csv_dir default_suite_args"
    and "sa_csv a = sa_csv default_suite_args" and "sa_output a = None" and "suite_main e a s = (Inr rc, s')"
    and "project = se_root e (sa_project a)" and "path = raw_table_path project a"
  shows "\<exists>v s1 n x. run_one e (sa_test a) a s = (Inr rc, s1)
    \<and> collect_observed_results project a (sa_test a) (su_files s1) = Inr (ev_observed v) \<and> ev_test v = sa_test a \<and> ev_rc v = rc
    \<and> su_files s' path = Some (csv_write (evidence_table (se_repr e) v)) \<and> n = int (length (tl (evidence_table (se_repr e) v)))
    \<and> parse_side_channel_csv (su_files s' path) = Inr [(''check_count'', JInt n), (''pass_count'', JInt 0), (''warn_count'', JInt 0),
        (''fail_count'', JInt 0), (''todo_count'', JInt 0), (''checks'', JObj [([], JObj [(''status'', JStr []), (''detail'', JStr [])])])]
    \<and> parse_dos_csv (su_files s' path) = Inr [(''metric_count'', JInt n),
        (''metrics'', JObj [([], JObj [(''value'', x), (''note'', JStr [])])])]"
proof -
  have all: "sa_test a \<in> set ALL_TESTS" using assms(1) by (auto simp: ALL_TESTS_def)
  obtain v elapsed csv s1 where 1: "run_with_evidence e a (sa_test a) s = (Inr (rc, v, elapsed, csv), s1)"
    and 2: "write_evidence_artifacts e project [(v, csv)] s1 = (Inr (), s')"
    using assms(1,5,6) by (auto simp: suite_main_def Let_def andthen_Inr_iff split: prod.splits)
  obtain t where raw: "run_one e (sa_test a) a s = (Inr rc, t)"
    "collect_observed_results project a (sa_test a) (su_files t) = Inr (ev_observed v)"
    using 1 assms(6) by (auto simp: run_with_evidence_def Let_def andthen_Inr_iff look_def build_evidence_def bind_res_Inr_iff)
  from evidence_csv_kept [OF 1 all] assms(6) have kept: "ev_test v = sa_test a"
    "su_files s1 (per_test_csv_path project a (sa_test a)) = Some (csv_write (evidence_table (se_repr e) v))" by simp_all
  moreover have "su_files s' (per_test_csv_path project a (sa_test a)) = su_files s1 (per_test_csv_path project a (sa_test a))"
    using touchesD [OF touches_artifacts 2] csv_not_results [OF all] by blast
  ultimately have kept_file: "su_files s' path = Some (csv_write (evidence_table (se_repr e) v))"
    using raw_table_default [OF assms(1-4), of project] assms(7) by simp
  from readers_on_evidence [of "se_repr e" v] obtain x where
    "parse_dos_csv (su_files s' path) = Inr [(''metric_count'', JInt (int (length (tl (evidence_table (se_repr e) v))))),
        (''metrics'', JObj [([], JObj [(''value'', x), (''note'', JStr [])])])]" unfolding kept_file by blast
  with readers_on_evidence [of "se_repr e" v] kept_file raw kept(1) run_with_evidence_Inr [OF 1] show ?thesis
    unfolding kept_file nameless_check_def by (intro exI [of _ v] exI [of _ t] exI conjI) simp_all
qed

text \<open>What a test does depends on its name, not on the option that chose it.\<close>

lemma paths_irrelevant:
  "csv_dir_of project (a\<lparr>sa_test := t\<rparr>) = csv_dir_of project a" "per_test_csv_path project (a\<lparr>sa_test := t\<rparr>) = per_test_csv_path project a"
  "log_path_for_test project (a\<lparr>sa_test := t\<rparr>) = log_path_for_test project a" "dos_output project (a\<lparr>sa_test := t\<rparr>) = dos_output project a"
  by (simp_all add: fun_eq_iff csv_dir_of_def per_test_csv_path_def log_path_for_test_def dos_output_def split: option.splits)

lemma harness_irrelevant:
  "recovery_text (a\<lparr>sa_test := t\<rparr>) = recovery_text a" "dos_rows (a\<lparr>sa_test := t\<rparr>) = dos_rows a" "dos_events (a\<lparr>sa_test := t\<rparr>) = dos_events a"
  "dos_parameters (a\<lparr>sa_test := t\<rparr>) = dos_parameters a" "dos_traffic e (a\<lparr>sa_test := t\<rparr>) = dos_traffic e a"
  by (simp_all add: fun_eq_iff recovery_text_def dos_rows_def dos_events_def dos_parameters_def dos_traffic_def)

lemmas choice_irrelevant = paths_irrelevant harness_irrelevant

lemma evidence_irrelevant: "run_with_evidence e (a\<lparr>sa_test := t\<rparr>) name = run_with_evidence e a name"
proof -
  have "run_one e name (a\<lparr>sa_test := t\<rparr>) = run_one e name a"
    by (simp add: run_one_def run_dos_def dos_log_head_def dos_log_tail_def choice_irrelevant
        cong: if_cong option.case_cong)
  moreover have "build_evidence e project (a\<lparr>sa_test := t\<rparr>) = build_evidence e project a" for project
    by (simp add: fun_eq_iff build_evidence_def collect_observed_results_def input_parameters_def choice_irrelevant
        cong: if_cong option.case_cong)
  ultimately show ?thesis
    by (simp add: run_with_evidence_def write_test_evidence_csv_def append_evidence_to_log_def artifact_for_test_def choice_irrelevant)
qed

lemma raw_csv_overwritten_witness:
  "\<exists>rc s' v. suite_main demo_suite (default_suite_args\<lparr>sa_test := ''side-channel''\<rparr>) demo_state = (Inr rc, s')
    \<and> su_files s' ''/p/results/security/csv/08_side_channel_rng_analysis.csv'' = Some (csv_write (evidence_table (se_repr demo_suite) v))"
proof -
  let ?a = "default_suite_args\<lparr>sa_test := ''side-channel''\<rparr>"
  obtain x s1 where "run_with_evidence demo_suite ?a ''side-channel'' demo_state = (Inr x, s1)"
    using yieldsD [OF demo_with_evidence, of "''side-channel''" demo_state] by (auto simp: evidence_irrelevant ALL_TESTS_def)
  then obtain rc s' where run: "suite_main demo_suite ?a demo_state = (Inr rc, s')"
    by (cases x) (simp add: suite_main_def Let_def andthen_def write_evidence_artifacts_def make_dir_def put_file_def look_def)
  have "raw_table_path ''/p'' ?a = ''/p/results/security/csv/08_side_channel_rng_analysis.csv''"
    by (simp add: raw_table_path_def path_join_def)
  with raw_csv_overwritten [OF _ _ _ _ run refl refl] run show ?thesis by auto
qed

section \<open>A timeout of the fuzzer\<close>

definition fuzz_command :: "suite_args \<Rightarrow> string list" where
  "fuzz_command a = [''cargo'', ''+nightly'', ''fuzz'', ''run'', ''packet_parsers'', ''--'', ''-max_total_time='' @ show_int (sa_seconds a)]"

lemma fuzz_timeout:
  assumes "\<forall>s p. se_denied e s p = None" and "out \<noteq> []"
    and "\<forall>s. se_run e s (fuzz_command a) (Some (sa_seconds a + 60)) = (TimedOut (Some out), left s)"
  shows "\<exists>written s2. install_embedded_files e (se_root e (sa_project a)) False True s1 = (Inr written, s2)
    \<and> run_one e ''fuzz'' a s1 = (Inl (TypeError ''can't concat str to bytes''), s2\<lparr>su_files := left s2, su_ran := su_ran s2 @ [fuzz_command a]\<rparr>)"
proof -
  obtain written s2 where "install_embedded_files e (se_root e (sa_project a)) False True s1 = (Inr written, s2)"
    using yieldsD [OF install_returns [OF assms(1)], of "se_root e (sa_project a)" False True s1] by auto
  then show ?thesis
    using assms by (simp add: run_one_def CARGO_TESTS_def run_fuzz_def suite_run_logged_def Let_def andthen_def make_dir_def look_def
        subprocess_def run_result_def fuzz_command_def)
qed

text \<open>C18: With its default timeout a minute after the fuzzer's own limit, a fuzzer that prints anything and is then stopped ends
  the suite with a type error: the exception carries bytes. No log of the fuzzer, no resilience test, no summary
  and no collected evidence follow, though six tests had their results: after the command the
  suite changes no file and opens no connection.\<close>

theorem fuzz_timeout_aborts_suite:
  assumes "sa_test a = ''all''" and "map_eff (run_with_evidence e a) (take 6 ALL_TESTS) s = (Inr ds, s1)"
    and "\<forall>s p. se_denied e s p = None" and "out \<noteq> []"
    and "\<forall>s. se_run e s (fuzz_command a) (Some (sa_seconds a + 60)) = (TimedOut (Some out), left s)"
  shows "\<exists>written s2. install_embedded_files e (se_root e (sa_project a)) False True s1 = (Inr written, s2)
    \<and> suite_main e a s = (Inl (TypeError ''can't concat str to bytes''), s2\<lparr>su_files := left s2, su_ran := su_ran s2 @ [fuzz_command a]\<rparr>)"
proof -
  have tests: "ALL_TESTS = take 6 ALL_TESTS @ ''fuzz'' # [''dos'']" by (simp add: ALL_TESTS_def)
  obtain written s2 where i: "install_embedded_files e (se_root e (sa_project a)) False True s1 = (Inr written, s2)"
    and f: "run_one e ''fuzz'' a s1 = (Inl (TypeError ''can't concat str to bytes''), s2\<lparr>su_files := left s2, su_ran := su_ran s2 @ [fuzz_command a]\<rparr>)"
    using fuzz_timeout [OF assms(3-5), of s1] by blast
  have "run_with_evidence e a ''fuzz'' s1
      = (Inl (TypeError ''can't concat str to bytes''), s2\<lparr>su_files := left s2, su_ran := su_ran s2 @ [fuzz_command a]\<rparr>)"
    by (simp add: run_with_evidence_def Let_def andthen_def look_def f)
  then have "map_eff (run_with_evidence e a) ALL_TESTS s
      = (Inl (TypeError ''can't concat str to bytes''), s2\<lparr>su_files := left s2, su_ran := su_ran s2 @ [fuzz_command a]\<rparr>)"
    by (subst tests, subst map_eff_app) (simp add: andthen_def assms(2))
  then show ?thesis using i assms(1) by (simp add: suite_main_def run_all_def Let_def andthen_def)
qed

text \<open>The limit of the fuzzer concerns no other test.\<close>

lemma seconds_irrelevant:
  assumes "name \<noteq> ''fuzz''"
  shows "run_with_evidence e (a\<lparr>sa_seconds := n\<rparr>) name = run_with_evidence e a name"
proof -
  have paths: "csv_dir_of project (a\<lparr>sa_seconds := n\<rparr>) = csv_dir_of project a"
    "per_test_csv_path project (a\<lparr>sa_seconds := n\<rparr>) = per_test_csv_path project a"
    "log_path_for_test project (a\<lparr>sa_seconds := n\<rparr>) = log_path_for_test project a"
    "dos_output project (a\<lparr>sa_seconds := n\<rparr>) = dos_output project a" for project
    by (simp_all add: fun_eq_iff csv_dir_of_def per_test_csv_path_def log_path_for_test_def dos_output_def split: option.splits)
  have harness: "recovery_text (a\<lparr>sa_seconds := n\<rparr>) = recovery_text a" "dos_rows (a\<lparr>sa_seconds := n\<rparr>) = dos_rows a"
    "dos_events (a\<lparr>sa_seconds := n\<rparr>) = dos_events a" "dos_parameters (a\<lparr>sa_seconds := n\<rparr>) = dos_parameters a"
    "dos_traffic e (a\<lparr>sa_seconds := n\<rparr>) = dos_traffic e a"
    by (simp_all add: fun_eq_iff recovery_text_def dos_rows_def dos_events_def dos_parameters_def dos_traffic_def)
  have "run_one e name (a\<lparr>sa_seconds := n\<rparr>) = run_one e name a"
    using assms by (simp add: run_one_def run_dos_def dos_log_head_def dos_log_tail_def paths harness cong: if_cong option.case_cong)
  moreover have "build_evidence e project (a\<lparr>sa_seconds := n\<rparr>) name = build_evidence e project a name" for project
    using assms by (simp add: fun_eq_iff build_evidence_def collect_observed_results_def input_parameters_def paths harness
        cong: if_cong option.case_cong)
  ultimately show ?thesis
    by (simp add: run_with_evidence_def write_test_evidence_csv_def append_evidence_to_log_def artifact_for_test_def paths)
qed

lemma fuzz_timeout_aborts_suite_witness:
  "\<exists>s'. suite_main demo_suite (default_suite_args\<lparr>sa_seconds := 1\<rparr>) demo_state = (Inl (TypeError ''can't concat str to bytes''), s')
    \<and> su_files s' = Map.empty"
proof -
  let ?a = "default_suite_args\<lparr>sa_seconds := 1\<rparr>"
  have "yields (\<lambda>_. True) (run_with_evidence demo_suite ?a name) (\<lambda>_. True)" if "name \<in> set (take 6 ALL_TESTS)" for name
  proof -
    have "name \<noteq> ''fuzz''" and "name \<in> set ALL_TESTS" using that by (auto simp: ALL_TESTS_def)
    then show ?thesis unfolding seconds_irrelevant [OF \<open>name \<noteq> ''fuzz''\<close>] by (intro demo_with_evidence)
  qed
  from yieldsD [OF yields_map_eff [where f = "run_with_evidence demo_suite ?a", OF this], where s = demo_state]
  obtain ds s1 where six: "map_eff (run_with_evidence demo_suite ?a) (take 6 ALL_TESTS) demo_state = (Inr ds, s1)" by blast
  have hangs: "\<forall>s. se_run demo_suite s (fuzz_command ?a) (Some (sa_seconds ?a + 60)) = (TimedOut (Some ''#2''), Map.empty)"
    by (simp add: demo_suite_def)
  from fuzz_timeout_aborts_suite [OF _ six _ _ hangs] show ?thesis by fastforce
qed

section \<open>The two checklists\<close>

lemma lang_Seq3: "v \<in> lang (Seq a (Seq b r)) \<longleftrightarrow> (\<exists>x y z. v = x @ y @ z \<and> x \<in> lang a \<and> y \<in> lang b \<and> z \<in> lang r)"
  unfolding lang.simps by blast

lemma first_pattern_agrees:
  "re_search (seqs [alts (map ilit [''println'', ''eprintln'']), ilit ''!'', dots, rx_secret]) line \<noteq> None
    \<longleftrightarrow> re_search (seqs [ilit ''println!'', dots, rx_secret]) line \<noteq> None"
proof -
  obtain T where T: "lang (Seq dots rx_secret) = T" by simp
  have low: "lower ''println'' = ''println''" "lower ''eprintln'' = ''eprintln''" "lower ''!'' = ''!''" "lower ''println!'' = ''println!''"
    by code_simp+
  have macro: "lang (alts (map ilit [''println'', ''eprintln''])) = {x. lower x \<in> {''println'', ''eprintln''}}"
    by (auto simp: lang_alts lang_ilit low simp del: ilit.simps)
  have new: "v \<in> lang (seqs [alts (map ilit [''println'', ''eprintln'']), ilit ''!'', dots, rx_secret])
      \<longleftrightarrow> (\<exists>x y z. v = x @ y @ z \<and> lower x \<in> {''println'', ''eprintln''} \<and> lower y = ''!'' \<and> z \<in> T)" for v
    unfolding seqs.simps lang_Seq3 macro lang_ilit low T by blast
  have old: "v \<in> lang (seqs [ilit ''println!'', dots, rx_secret]) \<longleftrightarrow> (\<exists>x z. v = x @ z \<and> lower x = ''println!'' \<and> z \<in> T)" for v
    unfolding seqs.simps lang.simps(5) [of "ilit ''println!''"] lang_ilit low T by blast
  show ?thesis
  proof
    assume "re_search (seqs [alts (map ilit [''println'', ''eprintln'']), ilit ''!'', dots, rx_secret]) line \<noteq> None"
    then obtain u x y z w where l: "line = u @ x @ y @ z @ w" and x: "lower x = ''println'' \<or> lower x = ''e'' @ ''println''"
      and yz: "lower y = ''!''" "z \<in> T"
      unfolding re_search_iff new by auto
    from x obtain a b where "x = a @ b" "lower b = ''println''" using lower_append [of x "''e''" "''println''"] by auto
    moreover from this have "lower (b @ y) = ''println!''" using yz(1) unfolding lower_def by simp
    ultimately have "(b @ y) @ z \<in> lang (seqs [ilit ''println!'', dots, rx_secret])" and "line = (u @ a) @ ((b @ y) @ z) @ w"
      unfolding old using l yz(2) by (blast, simp)
    then show "re_search (seqs [ilit ''println!'', dots, rx_secret]) line \<noteq> None" unfolding re_search_iff by blast
  next
    assume "re_search (seqs [ilit ''println!'', dots, rx_secret]) line \<noteq> None"
    then obtain u x z w where l: "line = u @ (x @ z) @ w" "lower x = ''println'' @ ''!''" "z \<in> T" unfolding re_search_iff old by auto
    then obtain a b where "x = a @ b" "lower a = ''println''" "lower b = ''!''" using lower_append by blast
    then have "a @ b @ z \<in> lang (seqs [alts (map ilit [''println'', ''eprintln'']), ilit ''!'', dots, rx_secret])"
      and "line = u @ (a @ b @ z) @ w"
      using l unfolding new by auto
    then show "re_search (seqs [alts (map ilit [''println'', ''eprintln'']), ilit ''!'', dots, rx_secret]) line \<noteq> None"
      unfolding re_search_iff by blast
  qed
qed

lemma grep_lines_first:
  assumes "\<And>line. re_search p line \<noteq> None \<longleftrightarrow> re_search q line \<noteq> None"
  shows "grep_lines (p # ps) path n ls = grep_lines (q # ps) path n ls"
  by (induction ls arbitrary: n) (simp_all add: assms del: not_None_eq)

text \<open>C28: The suite names \<open>eprintln!\<close> in its first pattern, the older script does not: they list the same lines all the
  same, and their checklists differ in the last row alone, the reminder of the manual review.\<close>

theorem checklists_agree:
  "grep_source files SUITE_SECRET_PATTERNS = grep_source files SECRET_PATTERNS
    \<and> butlast (suite_rng_rows e samples duplicate bit_ratio) = butlast (rng_rows e samples duplicate bit_ratio)"
proof -
  have "grep_lines SUITE_SECRET_PATTERNS path n ls = grep_lines SECRET_PATTERNS path n ls" for path n ls
    unfolding SUITE_SECRET_PATTERNS_def SECRET_PATTERNS_def by (intro grep_lines_first first_pattern_agrees)
  then have same: "grep_source files SUITE_SECRET_PATTERNS = grep_source files SECRET_PATTERNS" for files
    by (simp add: grep_source_def cong: option.case_cong)
  then show ?thesis by (simp add: suite_rng_rows_def rng_rows_def Let_def)
qed

end
