(* ===== verification/BenchScripts.thy ===== *)
theory BenchScripts
  imports PlotMain
begin

text \<open>
  The test scripts of \<open>benchmarks/tests/\<close>: the workloads of the three latency tests and of the resource test, the runs of
  the driver they start and their \<open>main\<close>. How a client process ends, and the order in which the tasks of a thread
  pool complete, are parameters that may depend on the state the workload starts in; what a client leaves
  in its own directory is not kept, because nothing reads it afterwards. Shown here: every authentication of a test
  is recorded once, whatever the order; the three resource tests hold one result; and from all four scripts run
  for all protocols the figures follow.
\<close>

section \<open>Clients\<close>

record clients =
  cl_outcome :: "world \<Rightarrow> string \<Rightarrow> string list \<Rightarrow> string \<Rightarrow> nat \<Rightarrow> nat \<Rightarrow> client_outcome \<times> real"
  cl_order :: "world \<Rightarrow> nat \<Rightarrow> nat list"
  cl_show :: "pyerr \<Rightarrow> string"

text \<open>\<open>ctx.client_workdirs[i]\<close>.\<close>

definition client_dir :: "test_context \<Rightarrow> nat \<Rightarrow> string res" where
  "client_dir ctx i = (if i < length (ctx_client_workdirs ctx) then Inr (ctx_client_workdirs ctx ! i) else Inl IndexError)"

definition client_at :: "clients \<Rightarrow> world \<Rightarrow> test_context \<Rightarrow> string \<Rightarrow> string \<Rightarrow> nat \<Rightarrow> nat \<Rightarrow> client_result res" where
  "client_at c w ctx timeout dir iteration client_id =
     (case cl_outcome c w (pr_client_bin (ctx_protocol ctx)) (pr_client_args (ctx_protocol ctx) dir) dir iteration client_id of
        (oc, elapsed) \<Rightarrow> run_client_once timeout iteration client_id oc elapsed)"

section \<open>Test 1: concurrent clients\<close>

definition tag_result :: "nat \<times> client_result option \<Rightarrow> client_result res" where
  "tag_result ir = (case ir of
       (i, None) \<Rightarrow> Inl (AttributeError ''iteration'')
     | (i, Some r) \<Rightarrow> Inr (r\<lparr>cr_iteration := 0, cr_client_id := i\<rparr>))"

definition test1_workload :: "clients \<Rightarrow> int \<Rightarrow> workload" where
  "test1_workload c n ctx w =
     (bind_res (run_clients_concurrent (cl_show c)
         (\<lambda>i. bind_res (client_dir ctx i) (\<lambda>d. client_at c w ctx ''60.0'' d 0 i)) (nat n) (Some (min n 64)) (cl_order c w (nat n)))
       (\<lambda>rs. map_res tag_result (List.enumerate 0 rs)), w)"

definition test1_run :: "bench_env \<Rightarrow> clients \<Rightarrow> sizes \<Rightarrow> string \<Rightarrow> (world, unit) eff" where
  "test1_run e c sz p =
     (let n = TEST1_CONCURRENT_CLIENTS sz in
      andthen (run_test e ''test1_concurrent'' p (nat n) (test1_workload c n) False
        [(''n_clients'', JInt n), (''pattern'', JStr ''concurrent_single_auth'')]) (\<lambda>_. ret ()))"

section \<open>Test 2: one client in sequence\<close>

definition test2_workload :: "clients \<Rightarrow> int \<Rightarrow> workload" where
  "test2_workload c runs ctx w =
     (bind_res (client_dir ctx 0) (\<lambda>d. run_clients_sequential (\<lambda>i. client_at c w ctx ''30.0'' d i 0) (nat runs)), w)"

definition test2_run :: "bench_env \<Rightarrow> clients \<Rightarrow> sizes \<Rightarrow> string \<Rightarrow> (world, unit) eff" where
  "test2_run e c sz p =
     (let n = TEST2_SEQUENTIAL_RUNS sz in
      andthen (run_test e ''test2_sequential'' p 1 (test2_workload c n) False
        [(''n_runs'', JInt n), (''pattern'', JStr ''sequential_single_client'')]) (\<lambda>_. ret ()))"

section \<open>Test 3: concurrent sessions\<close>

definition session_crash :: "clients \<Rightarrow> nat \<Rightarrow> pyerr \<Rightarrow> client_result" where
  "session_crash c i x = \<lparr>cr_iteration = 0, cr_client_id = i, cr_success = False, cr_duration_ms = None, cr_sent_bytes = None,
     cr_recv_bytes = None, cr_stderr_tail = ''session '' @ show_nat i @ '' crashed: '' @ cl_show c x, cr_elapsed_wall_s = 0\<rparr>"

definition session :: "clients \<Rightarrow> int \<Rightarrow> test_context \<Rightarrow> world \<Rightarrow> nat \<Rightarrow> client_result list res" where
  "session c runs ctx w i =
     bind_res (client_dir ctx i) (\<lambda>d. run_clients_sequential (\<lambda>j. client_at c w ctx ''60.0'' d j i) (nat runs))"

text \<open>The sessions' results, a session after the other in the order they complete.\<close>

definition test3_workload :: "clients \<Rightarrow> int \<Rightarrow> int \<Rightarrow> workload" where
  "test3_workload c n runs ctx w =
     (if min n 64 \<le> 0 then Inl (ValueError ''max_workers must be greater than 0'')
      else Inr (concat (map (\<lambda>i. case session c runs ctx w i of Inr rs \<Rightarrow> rs | Inl x \<Rightarrow> [session_crash c i x])
        (cl_order c w (nat n)))), w)"

definition test3_run :: "bench_env \<Rightarrow> clients \<Rightarrow> sizes \<Rightarrow> string \<Rightarrow> (world, unit) eff" where
  "test3_run e c sz p =
     (let n = TEST3_CLIENTS sz; runs = TEST3_RUNS_PER_CLIENT sz in
      andthen (run_test e ''test3_highload'' p (nat n) (test3_workload c n runs) False
        [(''n_clients'', JInt n), (''runs_per_client'', JInt runs), (''pattern'', JStr ''concurrent_sequential_highload'')]) (\<lambda>_. ret ()))"

section \<open>Tests 4 to 6: one run under three names\<close>

definition FOCUSES :: "string list" where
  "FOCUSES = [''test4_memory'', ''test5_cpu'', ''test6_energy'']"

text \<open>\<open>focus.split("_", 1)[1]\<close>.\<close>

definition focus_name :: "string \<Rightarrow> string" where
  "focus_name focus = tl (dropWhile (\<lambda>ch. ch \<noteq> CHR ''_'') focus)"

definition focus_summary :: "summary_record \<Rightarrow> string \<Rightarrow> summary_record" where
  "focus_summary s focus = s\<lparr>sr_test := focus, sr_notes := AList.update ''focus'' (JStr (focus_name focus)) (sr_notes s)\<rparr>"

definition save :: "string \<Rightarrow> string \<Rightarrow> (world, unit) eff" where
  "save f text = modify (\<lambda>w. w\<lparr>w_files := (w_files w)(f \<mapsto> text)\<rparr>)"

definition fanout_summary :: "bench_env \<Rightarrow> summary_record \<Rightarrow> (world, unit) eff" where
  "fanout_summary e s = andthen (map_eff (\<lambda>focus. save (summary_path e focus (sr_protocol s))
     (write_summary_json (be_repr e) (focus_summary s focus))) FOCUSES) (\<lambda>_. ret ())"

definition mirror_table :: "bench_env \<Rightarrow> string \<Rightarrow> (world, unit) eff" where
  "mirror_table e p w = (case w_files w (raw_csv e ''test4_memory'' p) of
       None \<Rightarrow> (Inr (), w)
     | Some t \<Rightarrow> andthen (map_eff (\<lambda>focus. save (raw_csv e focus p) t) [''test5_cpu'', ''test6_energy'']) (\<lambda>_. ret ()) w)"

definition resources_run :: "bench_env \<Rightarrow> clients \<Rightarrow> sizes \<Rightarrow> string \<Rightarrow> (world, unit) eff" where
  "resources_run e c sz p =
     (let n = TEST_RESOURCES_CLIENTS sz; runs = TEST_RESOURCES_RUNS_PER_CLIENT sz in
      andthen (run_test e ''test4_memory'' p (nat n) (test3_workload c n runs) True
        [(''n_clients'', JInt n), (''runs_per_client'', JInt runs), (''pattern'', JStr ''resource_sampling'')]) (\<lambda>s.
      andthen (mirror_table e p) (\<lambda>_. fanout_summary e s)))"

section \<open>The scripts\<close>

text \<open>The sizes are read when the configuration is imported; \<open>argv\<close> starts with the program's name.\<close>

definition script_main :: "bench_env \<Rightarrow> (sizes \<Rightarrow> string \<Rightarrow> (world, unit) eff) \<Rightarrow> string list \<Rightarrow> (world, int) eff" where
  "script_main e run argv =
     andthen (from_res (load_sizes (be_env e))) (\<lambda>sz.
       if length argv < 2 then ret 2
       else let target = lower (argv ! 1) in
         andthen (map_eff (run sz) (if target = ''all'' then [''zkarche'', ''edhoc'', ''mtls''] else [target])) (\<lambda>_. ret 0))"

definition SCRIPTS :: "bench_env \<Rightarrow> clients \<Rightarrow> (sizes \<Rightarrow> string \<Rightarrow> (world, unit) eff) list" where
  "SCRIPTS e c = [test1_run e c, test2_run e c, test3_run e c, resources_run e c]"

section \<open>Every authentication once\<close>

text \<open>A client that can be run, and the clock does not go backwards.\<close>

definition client_runs :: "clients \<Rightarrow> bool" where
  "client_runs c \<longleftrightarrow> (\<forall>w b args d i k. (\<forall>x. fst (cl_outcome c w b args d i k) \<noteq> ClientRaise x) \<and> 0 \<le> snd (cl_outcome c w b args d i k))"

text \<open>Every task of a pool completes once.\<close>

definition tasks_complete :: "clients \<Rightarrow> bool" where
  "tasks_complete c \<longleftrightarrow> (\<forall>w n. distinct (cl_order c w n) \<and> set (cl_order c w n) = {0..<n})"

lemma client_at_Inr:
  assumes "client_runs c" and "length timeout \<le> 480"
  shows "\<exists>r. client_at c w ctx timeout d i k = Inr r \<and> cr_iteration r = i \<and> cr_client_id r = k \<and> wf_client_result r \<and> times_nonneg r"
proof -
  obtain oc t where o: "cl_outcome c w (pr_client_bin (ctx_protocol ctx)) (pr_client_args (ctx_protocol ctx) d) d i k = (oc, t)" by fastforce
  have "\<forall>x. oc \<noteq> ClientRaise x" "0 \<le> t" using assms(1) o unfolding client_runs_def by (metis fst_conv, metis snd_conv)
  from run_client_once_result [OF this(1) assms(2), of i k t] this(2) show ?thesis
    by (auto simp: client_at_def o times_nonneg_def wf_client_result_def)
qed

text \<open>Which authentication a result is: the client and its iteration.\<close>

definition auth_of :: "client_result \<Rightarrow> nat \<times> nat" where
  "auth_of r = (cr_client_id r, cr_iteration r)"

definition sound :: "client_result \<Rightarrow> bool" where
  "sound r \<longleftrightarrow> wf_client_result r \<and> times_nonneg r"

lemma client_at_sound:
  assumes "client_runs c" and "timeout = ''60.0'' \<or> timeout = ''30.0''"
  shows "\<exists>r. client_at c w ctx timeout d i k = Inr r \<and> auth_of r = (k, i) \<and> sound r"
  using client_at_Inr [OF assms(1), of timeout w ctx d i k] assms(2) by (auto simp: auth_of_def sound_def)

lemma map_res_choice:
  assumes "\<And>x. x \<in> set xs \<Longrightarrow> \<exists>y. f x = Inr y \<and> Q x y"
  shows "\<exists>ys. map_res f xs = Inr ys \<and> list_all2 Q xs ys"
  using assms
proof (induction xs)
  case (Cons x xs)
  then obtain y ys where "f x = Inr y" "Q x y" "map_res f xs = Inr ys" "list_all2 Q xs ys" by (metis list.set_intros)
  then show ?case by simp
qed simp

lemma sequential_sound:
  assumes "client_runs c" and "timeout = ''60.0'' \<or> timeout = ''30.0''"
  shows "\<exists>rs. run_clients_sequential (\<lambda>i. client_at c w ctx timeout d i k) n = Inr rs
    \<and> map auth_of rs = map (Pair k) [0..<n] \<and> (\<forall>r \<in> set rs. sound r)"
proof -
  obtain rs where rs: "map_res (\<lambda>i. client_at c w ctx timeout d i k) [0..<n] = Inr rs"
    and all: "list_all2 (\<lambda>i r. auth_of r = (k, i) \<and> sound r) [0..<n] rs"
    using map_res_choice [of "[0..<n]" "\<lambda>i. client_at c w ctx timeout d i k" "\<lambda>i r. auth_of r = (k, i) \<and> sound r"]
      client_at_sound [OF assms] by blast
  from all have "map auth_of rs = map (Pair k) [0..<n]"
    by (auto simp: list_all2_conv_all_nth intro!: nth_equalityI)
  moreover have "\<forall>r \<in> set rs. sound r" using all by (auto simp: list_all2_conv_all_nth in_set_conv_nth)
  ultimately show ?thesis using rs by (simp add: run_clients_sequential_def)
qed

lemma test1_results:
  assumes "client_runs c" and "tasks_complete c" and "0 < n" and "length (ctx_client_workdirs ctx) = nat n"
  shows "\<exists>rs. test1_workload c n ctx w = (Inr rs, w) \<and> map auth_of rs = map (\<lambda>i. (i, 0)) [0..<nat n] \<and> (\<forall>r \<in> set rs. sound r)"
proof -
  let ?run = "\<lambda>i. bind_res (client_dir ctx i) (\<lambda>d. client_at c w ctx ''60.0'' d 0 i)"
  let ?got = "\<lambda>i. collect_result (cl_show c) i (?run i)"
  have got: "\<exists>r. ?run i = Inr r \<and> auth_of r = (i, 0) \<and> sound r" if "i < nat n" for i
    using that assms(4) client_at_sound [OF assms(1), of "''60.0''" w ctx "ctx_client_workdirs ctx ! i" 0 i] by (simp add: client_dir_def)
  have "run_clients_concurrent (cl_show c) ?run (nat n) (Some (min n 64)) (cl_order c w (nat n)) = Inr (map (\<lambda>i. Some (?got i)) [0..<nat n])"
    using assms(2,3) by (intro run_clients_concurrent_order_free) (auto simp: tasks_complete_def)
  moreover have "map_res tag_result (List.enumerate 0 (map (\<lambda>i. Some (?got i)) [0..<nat n])) = Inr (map ?got [0..<nat n])"
  proof -
    have "List.enumerate 0 (map (\<lambda>i. Some (?got i)) [0..<m]) = map (\<lambda>i. (i, Some (?got i))) [0..<m]" for m
      by (intro nth_equalityI) (simp_all add: nth_enumerate_eq)
    moreover have "map_res tag_result (map (\<lambda>i. (i, Some (?got i))) [0..<nat n]) = Inr (map ((\<lambda>(i, r). the r) \<circ> (\<lambda>i. (i, Some (?got i)))) [0..<nat n])"
      unfolding map_map [symmetric]
    proof (rule map_res_total)
      fix x assume "x \<in> set (map (\<lambda>i. (i, Some (?got i))) [0..<nat n])"
      then obtain i where i: "x = (i, Some (?got i))" "i < nat n" by auto
      with got [OF i(2)] show "tag_result x = Inr ((\<lambda>(i, r). the r) x)" by (auto simp: tag_result_def collect_result_def auth_of_def)
    qed
    ultimately show ?thesis by (simp add: comp_def)
  qed
  moreover have "map auth_of (map ?got [0..<nat n]) = map (\<lambda>i. (i, 0)) [0..<nat n]" "\<forall>r \<in> set (map ?got [0..<nat n]). sound r"
    using got by (fastforce simp: collect_result_def)+
  ultimately show ?thesis by (simp add: test1_workload_def)
qed

lemma test2_results:
  assumes "client_runs c" and "ctx_client_workdirs ctx \<noteq> []"
  shows "\<exists>rs. test2_workload c n ctx w = (Inr rs, w) \<and> map auth_of rs = map (Pair 0) [0..<nat n] \<and> (\<forall>r \<in> set rs. sound r)"
  using sequential_sound [OF assms(1), of "''30.0''" w ctx "ctx_client_workdirs ctx ! 0" 0 "nat n"] assms(2)
  by (simp add: test2_workload_def client_dir_def)

lemma test3_results:
  assumes "client_runs c" and "tasks_complete c" and "0 < n" and "length (ctx_client_workdirs ctx) = nat n"
  shows "\<exists>rs. test3_workload c n runs ctx w = (Inr rs, w)
    \<and> map auth_of rs = concat (map (\<lambda>i. map (Pair i) [0..<nat runs]) (cl_order c w (nat n))) \<and> (\<forall>r \<in> set rs. sound r)"
proof -
  define part where "part i = (case session c runs ctx w i of Inr rs \<Rightarrow> rs | Inl x \<Rightarrow> [session_crash c i x])" for i
  have part: "map auth_of (part i) = map (Pair i) [0..<nat runs] \<and> (\<forall>r \<in> set (part i). sound r)" if "i \<in> set (cl_order c w (nat n))" for i
  proof -
    have "i < nat n" using that assms(2) by (auto simp: tasks_complete_def)
    then show ?thesis
      using sequential_sound [OF assms(1), of "''60.0''" w ctx "ctx_client_workdirs ctx ! i" i "nat runs"] assms(4)
      by (auto simp: part_def session_def client_dir_def)
  qed
  have "map auth_of (concat (map part is)) = concat (map (\<lambda>i. map (Pair i) [0..<nat runs]) is) \<and> (\<forall>r \<in> set (concat (map part is)). sound r)"
    if "set is \<subseteq> set (cl_order c w (nat n))" for "is"
    using that part by (induction "is") auto
  moreover have "test3_workload c n runs ctx w = (Inr (concat (map part (cl_order c w (nat n)))), w)"
    using assms(3) by (simp add: test3_workload_def part_def [abs_def] del: map_concat)
  ultimately show ?thesis by blast
qed

lemma sessions_once:
  assumes "client_runs c" and "tasks_complete c" and "0 < n" and "length (ctx_client_workdirs ctx) = nat n"
  shows "\<exists>rs. test3_workload c n runs ctx w = (Inr rs, w) \<and> distinct (map auth_of rs)
    \<and> set (map auth_of rs) = {0..<nat n} \<times> {0..<nat runs} \<and> (\<forall>r \<in> set rs. sound r)"
proof -
  obtain rs where rs: "test3_workload c n runs ctx w = (Inr rs, w)" "\<forall>r \<in> set rs. sound r"
    and auths: "map auth_of rs = concat (map (\<lambda>i. map (Pair i) [0..<nat runs]) (cl_order c w (nat n)))"
    using test3_results [OF assms] by blast
  have "distinct (concat (map (\<lambda>i. map (Pair i) [0..<m]) is))" if "distinct is" for m and "is" :: "nat list"
    using that by (induction "is") (auto simp: distinct_map inj_on_def)
  then have "distinct (map auth_of rs)" using assms(2) by (simp only: auths tasks_complete_def)
  moreover have "set (map auth_of rs) = {0..<nat n} \<times> {0..<nat runs}"
    using assms(2) unfolding auths by (auto simp: tasks_complete_def)
  ultimately show ?thesis using rs by blast
qed

text \<open>C13: With clients that can be run and a pool that completes its tasks, the workloads of the tests return with every
  authentication of every client recorded exactly once, with measurements that are all there or all
  missing and not negative; the concurrent clients are listed in their own order, the sessions one after
  the other in the order they complete, each with its authentications in order.\<close>

theorem every_authentication_once:
  assumes "client_runs c" and "tasks_complete c" and "0 < n" and "length (ctx_client_workdirs ctx) = nat n"
  shows "(\<exists>rs. test1_workload c n ctx w = (Inr rs, w) \<and> map auth_of rs = map (\<lambda>i. (i, 0)) [0..<nat n] \<and> (\<forall>r \<in> set rs. sound r))
    \<and> (\<exists>rs. test2_workload c runs ctx w = (Inr rs, w) \<and> map auth_of rs = map (Pair 0) [0..<nat runs] \<and> (\<forall>r \<in> set rs. sound r))
    \<and> (\<exists>rs. test3_workload c n runs ctx w = (Inr rs, w)
        \<and> map auth_of rs = concat (map (\<lambda>i. map (Pair i) [0..<nat runs]) (cl_order c w (nat n)))
        \<and> distinct (map auth_of rs) \<and> set (map auth_of rs) = {0..<nat n} \<times> {0..<nat runs} \<and> (\<forall>r \<in> set rs. sound r))"
proof -
  have "ctx_client_workdirs ctx \<noteq> []" using assms(3,4) by auto
  moreover have "\<exists>rs. test3_workload c n runs ctx w = (Inr rs, w)
      \<and> map auth_of rs = concat (map (\<lambda>i. map (Pair i) [0..<nat runs]) (cl_order c w (nat n)))
      \<and> distinct (map auth_of rs) \<and> set (map auth_of rs) = {0..<nat n} \<times> {0..<nat runs} \<and> (\<forall>r \<in> set rs. sound r)"
    using sessions_once [OF assms, where runs = runs and w = w] test3_results [OF assms, where runs = runs and w = w] by auto
  ultimately show ?thesis using test1_results [OF assms] test2_results [OF assms(1)] by blast
qed

text \<open>The first client succeeds, the others time out, and the tasks complete in the opposite order.\<close>

definition demo_clients :: clients where
  "demo_clients = \<lparr>cl_outcome = \<lambda>w b args d i k.
      (if k = 0 then ClientExit 0 (print_client ''1'' ''5'' ''ms'' 40 50 @ [LF]) [] else ClientTimeout, 1), cl_order = \<lambda>w n. rev [0..<n], cl_show = \<lambda>x. []\<rparr>"

lemma demo_clients_run: "client_runs demo_clients" "tasks_complete demo_clients"
  by (auto simp: client_runs_def tasks_complete_def demo_clients_def)

definition demo_ctx :: test_context where
  "demo_ctx = \<lparr>ctx_protocol = snd (hd (registry demo_env)), ctx_server = \<lparr>sh_pid = 1, sh_addr = [], sh_log = [], sh_workdir = []\<rparr>,
     ctx_server_workdir = ''/s'', ctx_client_workdirs = [''/a'', ''/b'']\<rparr>"

lemma every_authentication_once_witness:
  "\<exists>rs. test3_workload demo_clients 2 3 demo_ctx demo_world = (Inr rs, demo_world)
    \<and> map auth_of rs = [(1, 0), (1, 1), (1, 2), (0, 0), (0, 1), (0, 2)]"
proof -
  have "length (ctx_client_workdirs demo_ctx) = nat 2" by (simp add: demo_ctx_def)
  from every_authentication_once [OF demo_clients_run _ this, where runs = 3 and w = demo_world] show ?thesis
    by (auto simp: demo_clients_def upt_rec)
qed

section \<open>What a run of a script writes\<close>

lemma try_finally_Inr_iff: "try_finally m c s = (Inr x, s') \<longleftrightarrow> (\<exists>s1 y. m s = (Inr x, s1) \<and> c s1 = (Inr y, s'))"
  by (auto simp: try_finally_def split: prod.splits sum.splits)

lemma frame_files:
  "frame w_files (on_os m)" "frame w_files (on_fs n)" "frame w_files (ret x)" "frame w_files (from_res y)"
  by (simp_all add: frame_def on_os_def on_fs_def split: prod.splits)

lemma frame_files_prepare: "frame w_files (prepare_clients e p work n lb)"
  unfolding prepare_clients_def enroll_phase_def stamp_clients_def launch_def halt_def
  by (intro frame_samplers_if frame_andthen frame_try_finally frame_files)

lemma frameD: "frame f m \<Longrightarrow> m w = (r, w') \<Longrightarrow> f w' = f w"
  unfolding frame_def by (metis snd_conv)

lemma start_sampling_files: "start_sampling e w = (r, w') \<Longrightarrow> w_files w' = w_files w"
  by (auto simp: start_sampling_def andthen_def sampler_start_def new_sampler_def power_start_def new_power_sampler_def
      split: prod.splits sum.splits)

lemma start_sampling_on: "start_sampling e w = (Inr u, w') \<Longrightarrow> \<exists>a b. w_sampler w' = Some a \<and> w_power w' = Some b"
  using start_sampling_cases [of e w "Inr u" w'] by auto

lemma stop_sampling_Inr:
  "stop_sampling e rs w = (Inr (a, b), w') \<Longrightarrow> w_files w' = w_files w
     \<and> (w_sampler w \<noteq> None \<and> w_power w \<noteq> None \<longrightarrow> a \<noteq> None)"
  by (auto simp: stop_sampling_def Let_def split: option.splits sum.splits)

lemma timed_phase_trace:
  assumes "timed_phase e workload sample ctx w = (Inr (results, resources, energy), w')" and pure: "\<And>ctx v. snd (workload ctx v) = v"
  shows "\<exists>v. workload ctx v = (Inr results, v) \<and> w_files w' = w_files w \<and> (sample \<longrightarrow> resources \<noteq> None)"
proof -
  from assms(1) obtain u v v1 where 1: "(if sample then start_sampling e else ret ()) w = (Inr u, v)"
    and 2: "workload ctx v = (Inr results, v1)" and 3: "(if sample then stop_sampling e results else ret (None, None)) v1 = (Inr (resources, energy), w')"
    by (auto simp: timed_phase_def andthen_Inr_iff)
  have v1: "v1 = v" using pure [of ctx v] 2 by simp
  show ?thesis
  proof (cases sample)
    case True
    then have "start_sampling e w = (Inr u, v)" "stop_sampling e results v = (Inr (resources, energy), w')" using 1 3 v1 by simp_all
    then show ?thesis using start_sampling_files start_sampling_on stop_sampling_Inr 2 v1 by fastforce
  next
    case False
    then show ?thesis using 1 2 3 v1 by auto
  qed
qed

lemma run_test_trace:
  assumes "run_test e t p n workload sample extra w = (Inr s, w')" and pure: "\<And>ctx v. snd (workload ctx v) = v"
  shows "\<exists>results resources energy ctx v. workload ctx v = (Inr results, v) \<and> length (ctx_client_workdirs ctx) = n
    \<and> s = summarise (be_hostname e) t p results resources energy (device e) extra \<and> (sample \<longrightarrow> resources \<noteq> None)
    \<and> w_files w' = (w_files w)(raw_csv e t p \<mapsto> write_iterations_csv results, summary_path e t p \<mapsto> write_summary_json (be_repr e) s)"
proof -
  let ?work = "bench_workdir t p" and ?lb = "log_base e t p"
  from assms(1) obtain pr dirs v1 results resources energy v2 where
    prep: "prepare_clients e pr ?work n ?lb (w\<lparr>w_fs := fresh_workdir ?work (w_fs w)\<rparr>) = (Inr dirs, v1)"
    and serve: "serve_and_measure e workload sample pr ?work ?lb dirs v1 = (Inr (results, resources, energy), v2)"
    and out: "write_results e t p extra (results, resources, energy) v2 = (Inr s, w')"
    by (auto simp: run_test_def andthen_Inr_iff Let_def)
  from serve obtain h v3 v4 y where launch: "launch pr False (?work @ ''/server'') (?lb @ ''.log'') v1 = (Inr h, v3)"
    and timed: "timed_phase e workload sample \<lparr>ctx_protocol = pr, ctx_server = h, ctx_server_workdir = ?work @ ''/server'',
        ctx_client_workdirs = dirs\<rparr> v3 = (Inr (results, resources, energy), v4)"
    and halt: "halt h v4 = (Inr y, v2)"
    by (auto simp: serve_and_measure_def andthen_Inr_iff try_finally_Inr_iff)
  from timed_phase_trace [OF timed pure] obtain v where work: "workload \<lparr>ctx_protocol = pr, ctx_server = h,
      ctx_server_workdir = ?work @ ''/server'', ctx_client_workdirs = dirs\<rparr> v = (Inr results, v)"
    and v4: "w_files v4 = w_files v3" "sample \<longrightarrow> resources \<noteq> None" by blast
  have "w_files v1 = w_files w" using frameD [OF frame_files_prepare prep] by simp
  moreover have "w_files v3 = w_files v1" using launch by (auto simp: launch_def on_os_def split: prod.splits)
  moreover have "w_files v2 = w_files v4" using halt by (auto simp: halt_def on_os_def split: prod.splits)
  ultimately have "w_files w' = (w_files w)(raw_csv e t p \<mapsto> write_iterations_csv results, summary_path e t p \<mapsto> write_summary_json (be_repr e) s)"
    and "s = summarise (be_hostname e) t p results resources energy (device e) extra"
    using out v4(1) by (auto simp: write_results_def Let_def)
  then show ?thesis
    using work v4(2) prepare_clients_dirs [OF prep]
    by (intro exI [of _ results] exI [of _ resources] exI [of _ energy] exI conjI) (simp_all, auto)
qed

section \<open>The tree of results\<close>

text \<open>The authentications a test plans, as client and iteration.\<close>

definition planned :: "sizes \<Rightarrow> string \<Rightarrow> (nat \<times> nat) set" where
  "planned sz t =
     (if t = ''test1_concurrent'' then {0..<nat (TEST1_CONCURRENT_CLIENTS sz)} \<times> {0}
      else if t = ''test2_sequential'' then {0} \<times> {0..<nat (TEST2_SEQUENTIAL_RUNS sz)}
      else if t = ''test3_highload'' then {0..<nat (TEST3_CLIENTS sz)} \<times> {0..<nat (TEST3_RUNS_PER_CLIENT sz)}
      else {0..<nat (TEST_RESOURCES_CLIENTS sz)} \<times> {0..<nat (TEST_RESOURCES_RUNS_PER_CLIENT sz)})"

definition covers :: "sizes \<Rightarrow> string \<Rightarrow> client_result list \<Rightarrow> bool" where
  "covers sz t results \<longleftrightarrow> distinct (map auth_of results) \<and> set (map auth_of results) = planned sz t \<and> (\<forall>r \<in> set results. sound r)"

text \<open>The results of a test of a protocol are in the tree: its table, with every planned authentication, and its summary,
  which counts them and has resources for the memory test.\<close>

definition saved :: "bench_env \<Rightarrow> sizes \<Rightarrow> world \<Rightarrow> string \<Rightarrow> string \<Rightarrow> client_result list \<Rightarrow> summary_record \<Rightarrow> bool" where
  "saved e sz w t p results s \<longleftrightarrow>
     w_files w (raw_csv e t p) = Some (write_iterations_csv results) \<and> covers sz t results
     \<and> w_files w (summary_path e t p) = Some (write_summary_json (be_repr e) s)
     \<and> sr_test s = t \<and> sr_protocol s = p \<and> sr_n s = length results \<and> sr_n_success s = length (successful_results results)
     \<and> (t = ''test4_memory'' \<longrightarrow> sr_resources s \<noteq> None) \<and> literals (be_repr e) (JObj (sr_notes s))"

definition has_results :: "bench_env \<Rightarrow> sizes \<Rightarrow> world \<Rightarrow> string \<times> string \<Rightarrow> bool" where
  "has_results e sz w tp \<longleftrightarrow> (\<exists>results s. saved e sz w (fst tp) (snd tp) results s)"

definition ALL_PAIRS :: "(string \<times> string) set" where
  "ALL_PAIRS = set ALL_RESULTS \<times> set PROTOS_ORDER"

text \<open>An operation that, if it returns, has saved the results of the pairs in \<open>D\<close> and left those of the others alone.\<close>

definition makes :: "bench_env \<Rightarrow> sizes \<Rightarrow> (string \<times> string) set \<Rightarrow> (world, 'a) eff \<Rightarrow> bool" where
  "makes e sz D m \<longleftrightarrow> (\<forall>w x w'. m w = (Inr x, w') \<longrightarrow> (\<forall>tp \<in> ALL_PAIRS.
     if tp \<in> D then has_results e sz w' tp
     else w_files w' (raw_csv e (fst tp) (snd tp)) = w_files w (raw_csv e (fst tp) (snd tp))
       \<and> w_files w' (summary_path e (fst tp) (snd tp)) = w_files w (summary_path e (fst tp) (snd tp))))"

lemma makesD:
  assumes "makes e sz D m" and "m w = (Inr x, w')" and "tp \<in> ALL_PAIRS"
  shows "if tp \<in> D then has_results e sz w' tp
     else w_files w' (raw_csv e (fst tp) (snd tp)) = w_files w (raw_csv e (fst tp) (snd tp))
       \<and> w_files w' (summary_path e (fst tp) (snd tp)) = w_files w (summary_path e (fst tp) (snd tp))"
  using assms unfolding makes_def by blast

lemma makes_same_files: "frame w_files m \<Longrightarrow> makes e sz {} m"
  using frameD [of w_files m] by (fastforce simp: makes_def)

lemma makes_andthen:
  assumes "makes e sz D m" and "\<And>x. makes e sz F (f x)"
  shows "makes e sz (D \<union> F) (andthen m f)"
  unfolding makes_def
proof (intro allI impI ballI)
  fix w x w' tp assume "andthen m f w = (Inr x, w')" and tp: "tp \<in> ALL_PAIRS"
  then obtain y w1 where 1: "m w = (Inr y, w1)" and 2: "f y w1 = (Inr x, w')" by (auto simp: andthen_Inr_iff)
  show "if tp \<in> D \<union> F then has_results e sz w' tp
     else w_files w' (raw_csv e (fst tp) (snd tp)) = w_files w (raw_csv e (fst tp) (snd tp))
       \<and> w_files w' (summary_path e (fst tp) (snd tp)) = w_files w (summary_path e (fst tp) (snd tp))"
    using makesD [OF assms(1) 1 tp] makesD [OF assms(2) 2 tp] by (auto simp: has_results_def saved_def split: if_splits)
qed

lemma makes_map_eff_Cons:
  assumes "makes e sz A (f x)" and "makes e sz B (map_eff f xs)"
  shows "makes e sz (A \<union> B) (map_eff f (x # xs))"
proof -
  have "makes e sz (A \<union> (B \<union> {})) (map_eff f (x # xs))"
    unfolding map_eff.simps by (intro makes_andthen makes_same_files frame_files(3) assms)
  then show ?thesis by simp
qed

lemma makes_map_eff: "(\<And>x. x \<in> set xs \<Longrightarrow> makes e sz (D x) (f x)) \<Longrightarrow> makes e sz (\<Union>x \<in> set xs. D x) (map_eff f xs)"
proof (induction xs)
  case (Cons x xs)
  then show ?case by (simp add: makes_map_eff_Cons del: map_eff.simps)
qed (simp add: makes_same_files frame_files(3))

text \<open>The files of different tests or protocols differ.\<close>

lemma paths_differ:
  assumes "tp \<in> ALL_PAIRS" and "tq \<in> ALL_PAIRS" and "tp \<noteq> tq"
  shows "raw_csv e (fst tp) (snd tp) \<noteq> raw_csv e (fst tq) (snd tq)" "summary_path e (fst tp) (snd tp) \<noteq> summary_path e (fst tq) (snd tq)"
proof -
  have "inj_on (\<lambda>(t, p). t @ CHR ''_'' # p) ALL_PAIRS"
    by (simp add: ALL_PAIRS_def inj_on_def ALL_RESULTS_def LATENCY_TESTS_def PROTOS_ORDER_def)
  then have "fst tp @ CHR ''_'' # snd tp \<noteq> fst tq @ CHR ''_'' # snd tq"
    using assms by (auto simp: inj_on_def case_prod_unfold)
  then show "raw_csv e (fst tp) (snd tp) \<noteq> raw_csv e (fst tq) (snd tq)" "summary_path e (fst tp) (snd tp) \<noteq> summary_path e (fst tq) (snd tq)"
    by (auto simp: raw_csv_def summary_path_def)
qed

lemma makes_run_test:
  assumes pure: "\<And>ctx v. snd (workload ctx v) = v"
    and full: "\<And>ctx v rs. workload ctx v = (Inr rs, v) \<Longrightarrow> length (ctx_client_workdirs ctx) = n \<Longrightarrow> covers sz t rs"
    and tp: "(t, p) \<in> ALL_PAIRS" and "t = ''test4_memory'' \<longrightarrow> sample" and extra: "literals (be_repr e) (JObj extra)"
  shows "makes e sz {(t, p)} (run_test e t p n workload sample extra)"
  unfolding makes_def
proof (intro allI impI ballI)
  fix w s w' tq assume run: "run_test e t p n workload sample extra w = (Inr s, w')" and tq: "tq \<in> ALL_PAIRS"
  from run_test_trace [OF run pure] obtain results resources energy ctx v where
    work: "workload ctx v = (Inr results, v)" "length (ctx_client_workdirs ctx) = n"
    and s: "s = summarise (be_hostname e) t p results resources energy (device e) extra" "sample \<longrightarrow> resources \<noteq> None"
    and files: "w_files w' = (w_files w)(raw_csv e t p \<mapsto> write_iterations_csv results, summary_path e t p \<mapsto> write_summary_json (be_repr e) s)"
    by blast
  have "saved e sz w' t p results s" using files full [OF work] s assms(4) extra
    by (auto simp: saved_def summarise_def Let_def simp del: literals.simps)
  then have "has_results e sz w' (t, p)" by (auto simp: has_results_def)
  then show "if tq \<in> {(t, p)} then has_results e sz w' tq
     else w_files w' (raw_csv e (fst tq) (snd tq)) = w_files w (raw_csv e (fst tq) (snd tq))
       \<and> w_files w' (summary_path e (fst tq) (snd tq)) = w_files w (summary_path e (fst tq) (snd tq))"
    using paths_differ [OF tq tp, of e] files by (auto simp: result_paths_differ [symmetric])
qed

lemma workloads_pure:
  "snd (test1_workload c n ctx v) = v" "snd (test2_workload c n ctx v) = v" "snd (test3_workload c n runs ctx v) = v"
  by (simp_all add: test1_workload_def test2_workload_def test3_workload_def)

lemma workload_complete:
  assumes "client_runs c" and "tasks_complete c"
  shows "test1_workload c (TEST1_CONCURRENT_CLIENTS sz) ctx v = (Inr rs, v) \<Longrightarrow>
      length (ctx_client_workdirs ctx) = nat (TEST1_CONCURRENT_CLIENTS sz) \<Longrightarrow> covers sz ''test1_concurrent'' rs"
    and "test2_workload c (TEST2_SEQUENTIAL_RUNS sz) ctx v = (Inr rs, v) \<Longrightarrow>
      length (ctx_client_workdirs ctx) = 1 \<Longrightarrow> covers sz ''test2_sequential'' rs"
    and "test3_workload c n runs ctx v = (Inr rs, v) \<Longrightarrow> length (ctx_client_workdirs ctx) = nat n \<Longrightarrow>
      distinct (map auth_of rs) \<and> set (map auth_of rs) = {0..<nat n} \<times> {0..<nat runs} \<and> (\<forall>r \<in> set rs. sound r)"
proof -
  let ?n = "TEST1_CONCURRENT_CLIENTS sz"
  assume run: "test1_workload c ?n ctx v = (Inr rs, v)" and len: "length (ctx_client_workdirs ctx) = nat ?n"
  have "0 < ?n"
  proof (rule ccontr)
    assume "\<not> 0 < ?n"
    then show False using run by (auto simp: test1_workload_def run_clients_concurrent_def Let_def split: if_splits)
  qed
  from test1_results [OF assms this len, of v] run have "map auth_of rs = map (\<lambda>i. (i, 0)) [0..<nat ?n]" "\<forall>r \<in> set rs. sound r" by auto
  then show "covers sz ''test1_concurrent'' rs" unfolding covers_def by (auto simp: planned_def distinct_map inj_on_def)
next
  assume run: "test2_workload c (TEST2_SEQUENTIAL_RUNS sz) ctx v = (Inr rs, v)" and "length (ctx_client_workdirs ctx) = 1"
  then have "ctx_client_workdirs ctx \<noteq> []" by auto
  from test2_results [OF assms(1) this, of "TEST2_SEQUENTIAL_RUNS sz" v] run
  have "map auth_of rs = map (Pair 0) [0..<nat (TEST2_SEQUENTIAL_RUNS sz)]" "\<forall>r \<in> set rs. sound r" by auto
  then show "covers sz ''test2_sequential'' rs" unfolding covers_def by (auto simp: planned_def distinct_map inj_on_def)
next
  assume run: "test3_workload c n runs ctx v = (Inr rs, v)" and len: "length (ctx_client_workdirs ctx) = nat n"
  then have "0 < n" by (auto simp: test3_workload_def split: if_splits)
  from sessions_once [OF assms this len, of runs v] run
  show "distinct (map auth_of rs) \<and> set (map auth_of rs) = {0..<nat n} \<times> {0..<nat runs} \<and> (\<forall>r \<in> set rs. sound r)" by auto
qed

lemma pairs: "p \<in> set PROTOS_ORDER \<Longrightarrow> t \<in> set ALL_RESULTS \<Longrightarrow> (t, p) \<in> ALL_PAIRS"
  by (simp add: ALL_PAIRS_def)

lemma test_names: "''test1_concurrent'' \<in> set ALL_RESULTS" "''test2_sequential'' \<in> set ALL_RESULTS" "''test3_highload'' \<in> set ALL_RESULTS"
  "set FOCUSES \<subseteq> set ALL_RESULTS"
  by (simp_all add: ALL_RESULTS_def LATENCY_TESTS_def FOCUSES_def)

lemma makes_latency_tests:
  assumes "client_runs c" and "tasks_complete c" and "p \<in> set PROTOS_ORDER"
  shows "makes e sz {(''test1_concurrent'', p)} (test1_run e c sz p)" "makes e sz {(''test2_sequential'', p)} (test2_run e c sz p)"
    "makes e sz {(''test3_highload'', p)} (test3_run e c sz p)"
proof -
  have drop: "makes e sz {tp} m \<Longrightarrow> makes e sz {tp} (andthen m (\<lambda>_. ret ()))" for tp and m :: "(world, summary_record) eff"
    using makes_andthen [of e sz "{tp}" m "{}" "\<lambda>_. ret ()"] by (simp add: makes_same_files frame_files(3))
  have full: "covers sz ''test3_highload'' rs" if "test3_workload c (TEST3_CLIENTS sz) (TEST3_RUNS_PER_CLIENT sz) ctx v = (Inr rs, v)"
      "length (ctx_client_workdirs ctx) = nat (TEST3_CLIENTS sz)" for ctx v rs
    using workload_complete(3) [OF assms(1,2) that] by (simp add: covers_def planned_def)
  show "makes e sz {(''test1_concurrent'', p)} (test1_run e c sz p)"
    unfolding test1_run_def Let_def
    by (intro drop makes_run_test pairs workloads_pure test_names assms(3)) (auto dest: workload_complete(1) [OF assms(1,2)])
  show "makes e sz {(''test2_sequential'', p)} (test2_run e c sz p)"
    unfolding test2_run_def Let_def
    by (intro drop makes_run_test pairs workloads_pure test_names assms(3)) (auto dest: workload_complete(2) [OF assms(1,2)])
  show "makes e sz {(''test3_highload'', p)} (test3_run e c sz p)"
    unfolding test3_run_def Let_def
    by (intro drop makes_run_test pairs workloads_pure test_names assms(3)) (auto dest: full)
qed

text \<open>The resource test: its table under three names, its summary under three names with a note of the focus.\<close>

lemma save_eff [simp]: "save f text w = (Inr (), w\<lparr>w_files := (w_files w)(f \<mapsto> text)\<rparr>)"
  by (simp add: save_def)

lemma focus_files_differ:
  "raw_csv e ''test4_memory'' p \<noteq> raw_csv e ''test5_cpu'' p" "raw_csv e ''test4_memory'' p \<noteq> raw_csv e ''test6_energy'' p"
  "raw_csv e ''test5_cpu'' p \<noteq> raw_csv e ''test6_energy'' p"
  "summary_path e ''test4_memory'' p \<noteq> summary_path e ''test5_cpu'' p" "summary_path e ''test4_memory'' p \<noteq> summary_path e ''test6_energy'' p"
  "summary_path e ''test5_cpu'' p \<noteq> summary_path e ''test6_energy'' p"
  by (simp_all add: raw_csv_def summary_path_def)

lemma resources_trace:
  assumes "resources_run e c sz p w = (Inr (), w')"
  shows "\<exists>results s ctx v. test3_workload c (TEST_RESOURCES_CLIENTS sz) (TEST_RESOURCES_RUNS_PER_CLIENT sz) ctx v = (Inr results, v)
    \<and> length (ctx_client_workdirs ctx) = nat (TEST_RESOURCES_CLIENTS sz) \<and> sr_resources s \<noteq> None \<and> sr_protocol s = p
    \<and> sr_n s = length results \<and> sr_n_success s = length (successful_results results)
    \<and> (\<forall>focus. literals (be_repr e) (JObj (sr_notes (focus_summary s focus))))
    \<and> (\<forall>focus \<in> set FOCUSES. w_files w' (raw_csv e focus p) = Some (write_iterations_csv results)
        \<and> w_files w' (summary_path e focus p) = Some (write_summary_json (be_repr e) (focus_summary s focus)))
    \<and> (\<forall>f. (\<forall>focus \<in> set FOCUSES. f \<noteq> raw_csv e focus p \<and> f \<noteq> summary_path e focus p) \<longrightarrow> w_files w' f = w_files w f)"
proof -
  let ?work = "test3_workload c (TEST_RESOURCES_CLIENTS sz) (TEST_RESOURCES_RUNS_PER_CLIENT sz)"
  let ?extra = "[(''n_clients'', JInt (TEST_RESOURCES_CLIENTS sz)), (''runs_per_client'', JInt (TEST_RESOURCES_RUNS_PER_CLIENT sz)),
    (''pattern'', JStr ''resource_sampling'')]"
  from assms obtain s w1 w2 where run: "run_test e ''test4_memory'' p (nat (TEST_RESOURCES_CLIENTS sz)) ?work True ?extra w = (Inr s, w1)"
    and mirror: "mirror_table e p w1 = (Inr (), w2)" and fan: "fanout_summary e s w2 = (Inr (), w')"
    by (auto simp: resources_run_def Let_def andthen_Inr_iff)
  from run_test_trace [OF run workloads_pure(3)] obtain results resources energy ctx v where
    work: "?work ctx v = (Inr results, v)" "length (ctx_client_workdirs ctx) = nat (TEST_RESOURCES_CLIENTS sz)"
    and s: "s = summarise (be_hostname e) ''test4_memory'' p results resources energy (device e) ?extra" "resources \<noteq> None"
    and w1: "w_files w1 = (w_files w)(raw_csv e ''test4_memory'' p \<mapsto> write_iterations_csv results,
        summary_path e ''test4_memory'' p \<mapsto> write_summary_json (be_repr e) s)"
    by blast
  have sr: "sr_protocol s = p" "sr_resources s \<noteq> None" "sr_n s = length results" "sr_n_success s = length (successful_results results)"
    "\<forall>focus. literals (be_repr e) (JObj (sr_notes (focus_summary s focus)))"
    using s by (auto simp: summarise_def Let_def focus_summary_def)
  have raw: "w_files w1 (raw_csv e ''test4_memory'' p) = Some (write_iterations_csv results)" by (simp add: w1)
  have w2: "w_files w2 = (w_files w1)(raw_csv e ''test5_cpu'' p \<mapsto> write_iterations_csv results, raw_csv e ''test6_energy'' p \<mapsto> write_iterations_csv results)"
    using mirror by (auto simp: mirror_table_def raw andthen_def)
  have w': "w_files w' = (w_files w2)(
      summary_path e ''test4_memory'' p \<mapsto> write_summary_json (be_repr e) (focus_summary s ''test4_memory''),
      summary_path e ''test5_cpu'' p \<mapsto> write_summary_json (be_repr e) (focus_summary s ''test5_cpu''),
      summary_path e ''test6_energy'' p \<mapsto> write_summary_json (be_repr e) (focus_summary s ''test6_energy''))"
    using fan by (auto simp: fanout_summary_def FOCUSES_def andthen_def sr)
  have "\<forall>focus \<in> set FOCUSES. w_files w' (raw_csv e focus p) = Some (write_iterations_csv results)
        \<and> w_files w' (summary_path e focus p) = Some (write_summary_json (be_repr e) (focus_summary s focus))"
    using focus_files_differ [of e p] by (simp add: FOCUSES_def w' w2 w1)
  moreover have "\<forall>f. (\<forall>focus \<in> set FOCUSES. f \<noteq> raw_csv e focus p \<and> f \<noteq> summary_path e focus p) \<longrightarrow> w_files w' f = w_files w f"
    by (simp add: FOCUSES_def w' w2 w1)
  ultimately show ?thesis using work sr by blast
qed

lemma makes_resources:
  assumes "client_runs c" and "tasks_complete c" and "p \<in> set PROTOS_ORDER"
  shows "makes e sz (set FOCUSES \<times> {p}) (resources_run e c sz p)"
  unfolding makes_def
proof (intro allI impI ballI)
  fix w x w' tq assume run: "resources_run e c sz p w = (Inr x, w')" and tq: "tq \<in> ALL_PAIRS"
  from run have "resources_run e c sz p w = (Inr (), w')" by simp
  from resources_trace [OF this] obtain results s ctx v where
    work: "test3_workload c (TEST_RESOURCES_CLIENTS sz) (TEST_RESOURCES_RUNS_PER_CLIENT sz) ctx v = (Inr results, v)"
      "length (ctx_client_workdirs ctx) = nat (TEST_RESOURCES_CLIENTS sz)" and sr: "sr_resources s \<noteq> None" "sr_protocol s = p"
      "sr_n s = length results" "sr_n_success s = length (successful_results results)"
      "\<forall>focus. literals (be_repr e) (JObj (sr_notes (focus_summary s focus)))"
    and new: "\<forall>focus \<in> set FOCUSES. w_files w' (raw_csv e focus p) = Some (write_iterations_csv results)
        \<and> w_files w' (summary_path e focus p) = Some (write_summary_json (be_repr e) (focus_summary s focus))"
    and old: "\<forall>f. (\<forall>focus \<in> set FOCUSES. f \<noteq> raw_csv e focus p \<and> f \<noteq> summary_path e focus p) \<longrightarrow> w_files w' f = w_files w f"
    by blast
  have "covers sz focus results" if "focus \<in> set FOCUSES" for focus
    using workload_complete(3) [OF assms(1,2) work] that by (auto simp: covers_def planned_def FOCUSES_def)
  note full = this
  show "if tq \<in> set FOCUSES \<times> {p} then has_results e sz w' tq
     else w_files w' (raw_csv e (fst tq) (snd tq)) = w_files w (raw_csv e (fst tq) (snd tq))
       \<and> w_files w' (summary_path e (fst tq) (snd tq)) = w_files w (summary_path e (fst tq) (snd tq))"
  proof (cases "tq \<in> set FOCUSES \<times> {p}")
    case True
    then obtain focus where f: "tq = (focus, p)" "focus \<in> set FOCUSES" by auto
    have "saved e sz w' focus p results (focus_summary s focus)"
      using new f(2) full [OF f(2)] sr(1-4) sr(5) [rule_format, of focus] by (simp add: saved_def focus_summary_def del: literals.simps)
    then show ?thesis using True f by (auto simp: has_results_def)
  next
    case False
    have "fst tq' \<in> set FOCUSES \<Longrightarrow> snd tq' = p \<Longrightarrow> tq' \<in> ALL_PAIRS \<and> tq \<noteq> tq'" for tq'
      using False assms(3) test_names(4) by (cases tq') (auto simp: ALL_PAIRS_def)
    then have "\<forall>focus \<in> set FOCUSES. raw_csv e (fst tq) (snd tq) \<noteq> raw_csv e focus p \<and> summary_path e (fst tq) (snd tq) \<noteq> summary_path e focus p"
      using paths_differ [OF tq, of "(_, p)" e] by fastforce
    then show ?thesis using False old by (auto simp: result_paths_differ [symmetric])
  qed
qed

section \<open>The runs return\<close>

text \<open>Every program can be started, and of any six server processes in a row one opens its port in time.\<close>

definition servers_answer :: "os \<Rightarrow> bool" where
  "servers_answer v \<longleftrightarrow> (\<forall>b. can_spawn v b) \<and> (\<forall>p \<ge> next_pid v. \<exists>i < 6. bh_wait (script v (p + i)) = Inr ())"

text \<open>What a run needs besides: the binaries and certificates, sizes with at least one client, a power meter and clients that
  enroll.\<close>

definition enrolls :: "enroll_client \<Rightarrow> bool" where
  "enrolls client \<longleftrightarrow> (\<forall>wd t oc t' elapsed. client wd t = (oc, t', elapsed) \<longrightarrow>
     (\<exists>r. run_client_once ''30.0'' 0 0 oc elapsed = Inr r \<and> (cr_success r \<or> t' device_root \<noteq> None)))"

definition bench_ready :: "bench_env \<Rightarrow> bool" where
  "bench_ready e \<longleftrightarrow> (\<forall>f. be_exists e f) \<and> enrolls (be_enroll e)
     \<and> (\<exists>m. make_power_meter (be_env e) (device e) (be_pmic e) (be_hwmon e) = Inr m)
     \<and> (\<exists>sz. load_sizes (be_env e) = Inr sz \<and> 0 < TEST1_CONCURRENT_CLIENTS sz \<and> 0 < TEST3_CLIENTS sz \<and> 0 < TEST_RESOURCES_CLIENTS sz)"

lemma stop_server_scripts:
  "\<exists>v'. stop_server h v = (Inr (), v') \<and> script v' = script v \<and> can_spawn v' = can_spawn v \<and> next_pid v' = next_pid v"
  by (simp add: stop_server_def Let_def process_ended_def send_signal_def)

lemma start_attempts_answer:
  assumes "\<forall>b. can_spawn v b" and "\<exists>i < n. bh_wait (script v (next_pid v + i)) = Inr ()"
  shows "\<exists>h v'. start_attempts n binary args addr wd lg v = (Inr h, v')
    \<and> script v' = script v \<and> can_spawn v' = can_spawn v \<and> next_pid v \<le> next_pid v'"
  using assms
proof (induction n arbitrary: v)
  case (Suc n)
  let ?v = "v\<lparr>next_pid := Suc (next_pid v), running := next_pid v # running v, os_log := os_log v @ [Spawned (next_pid v) binary args]\<rparr>"
  have spawn: "spawn binary args v = (Inr (next_pid v), ?v)" using Suc.prems(1) by (simp add: spawn_def)
  show ?case
  proof (cases "bh_wait (script v (next_pid v))")
    case (Inr u)
    then show ?thesis by (simp add: andthen_def spawn Let_def)
  next
    case (Inl x)
    let ?h = "\<lparr>sh_pid = next_pid v, sh_addr = addr, sh_log = lg, sh_workdir = wd\<rparr>"
    obtain v1 where v1: "stop_server ?h ?v = (Inr (), v1)" "script v1 = script v" "can_spawn v1 = can_spawn v" "next_pid v1 = Suc (next_pid v)"
      using stop_server_scripts [of ?h ?v] by auto
    obtain i where i: "i < Suc n" "bh_wait (script v (next_pid v + i)) = Inr ()" using Suc.prems(2) by blast
    with Inl obtain j where "i = Suc j" by (cases i) auto
    with i have "\<exists>j < n. bh_wait (script v1 (next_pid v1 + j)) = Inr ()" by (auto simp: v1)
    moreover have "\<forall>b. can_spawn v1 b" using Suc.prems(1) by (simp add: v1)
    ultimately obtain h v' where "start_attempts n binary args addr wd lg v1 = (Inr h, v')"
      "script v' = script v1 \<and> can_spawn v' = can_spawn v1 \<and> next_pid v1 \<le> next_pid v'" using Suc.IH by blast
    then show ?thesis using Inl v1 by (simp add: andthen_def spawn Let_def)
  qed
qed simp

text \<open>The steps of a run keep this and return.\<close>

abbreviation alive :: "world \<Rightarrow> bool" where
  "alive w \<equiv> servers_answer (w_os w)"

abbreviation returns :: "(world, 'a) eff \<Rightarrow> bool" where
  "returns m \<equiv> gives alive m (\<lambda>_. alive)"

lemma returns_launch: "returns (launch p pairing wd lg)"
proof (rule givesI)
  fix w assume w: "alive w"
  then obtain h v where "start_attempts 6 (pr_server_bin p) (pr_server_args p wd pairing) (pr_bind_addr p) wd lg (w_os w) = (Inr h, v)"
    "script v = script (w_os w)" "can_spawn v = can_spawn (w_os w)" "next_pid (w_os w) \<le> next_pid v"
    using start_attempts_answer [of "w_os w" 6 "pr_server_bin p" "pr_server_args p wd pairing" "pr_bind_addr p" wd lg]
    by (auto simp: servers_answer_def)
  then show "\<exists>h w'. launch p pairing wd lg w = (Inr h, w') \<and> alive w'"
    using w by (auto simp: launch_def on_os_def start_server_def servers_answer_def)
qed

lemma returns_halt: "returns (halt h)"
proof (rule givesI)
  fix w assume "alive w"
  then show "\<exists>u w'. halt h w = (Inr u, w') \<and> alive w'"
    using stop_server_scripts [of h "w_os w"] by (auto simp: halt_def on_os_def servers_answer_def)
qed

lemma returns_on_fs: "(\<And>v. \<exists>x v'. m v = (Inr x, v')) \<Longrightarrow> returns (on_fs m)"
proof (rule givesI)
  fix w assume m: "\<And>v. \<exists>x v'. m v = (Inr x, v')" and w: "alive w"
  from m obtain x v' where "m (w_fs w) = (Inr x, v')" by blast
  then show "\<exists>x w'. on_fs m w = (Inr x, w') \<and> alive w'" using w by (simp add: on_fs_def)
qed

lemma enroll_returns:
  assumes "enrolls client"
  shows "\<exists>n v'. enroll_zkarche_clients client True wds ok v = (Inr n, v')"
proof (induction wds arbitrary: ok v)
  case (Cons wd wds)
  obtain oc t elapsed where c: "client wd (wipe_state ''state'' (tree_at v wd)) = (oc, t, elapsed)" by (metis prod_cases3)
  then obtain r where r: "run_client_once ''30.0'' 0 0 oc elapsed = Inr r" "cr_success r \<or> t device_root \<noteq> None"
    using assms unfolding enrolls_def by meson
  then have "enroll_one client True wd v = (Inr True, v(wd \<mapsto> t))" by (auto simp: enroll_one_def c Let_def)
  then show ?case using Cons [of "Suc ok" "v(wd \<mapsto> t)"] by (simp add: andthen_def del: fun_upd_apply)
qed simp

lemma returns_andthen: "returns m \<Longrightarrow> (\<And>x. returns (f x)) \<Longrightarrow> returns (andthen m f)"
  by (rule gives_andthen)

lemma returns_ret: "returns (ret x)"
  by (rule gives_ret)

lemma returns_stamp: "returns (stamp_clients work n)"
  unfolding stamp_clients_def by (rule returns_on_fs) (simp add: stamp_workdirs_def Let_def stamp_all_empty)

lemma returns_try_finally: "returns m \<Longrightarrow> returns c \<Longrightarrow> returns (try_finally m c)"
  by (rule gives_try_finally)

lemma returns_from_res: "r = Inr x \<Longrightarrow> returns (from_res r)"
  by (rule gives_from_res)

lemma returns_andthen_from_res: "r = Inr x \<Longrightarrow> returns (f x) \<Longrightarrow> returns (andthen (from_res r) f)"
  by (simp add: gives_def andthen_def)

lemma returns_if: "returns a \<Longrightarrow> returns b \<Longrightarrow> returns (if c then a else b)"
  by simp

lemma returns_prepare_clients:
  assumes "enrolls (be_enroll e)"
  shows "returns (prepare_clients e p work n lb)"
  unfolding prepare_clients_def enroll_phase_def
  by (intro returns_if returns_andthen returns_try_finally returns_launch returns_halt returns_stamp returns_ret
      returns_on_fs enroll_returns assms)

text \<open>A step that returns from every state with the processes unchanged.\<close>

lemma returns_same_os: "(\<And>w. \<exists>x w'. m w = (Inr x, w') \<and> w_os w' = w_os w) \<Longrightarrow> returns m"
  by (rule givesI) metis

lemma returns_start_sampling:
  assumes "make_power_meter (be_env e) (device e) (be_pmic e) (be_hwmon e) = Inr m"
  shows "returns (start_sampling e)"
  by (rule returns_same_os)
     (simp add: start_sampling_def andthen_def sampler_start_def new_sampler_def power_start_def new_power_sampler_def assms)

lemma f_div_nat_positive: "0 < n \<Longrightarrow> \<exists>y. f_div_nat x n = Inr y"
  by (cases n; cases x) simp_all

lemma power_summary_returns: "\<exists>r. power_summary t1 t0 n s = Inr r"
proof (cases "pw_samples s = []")
  case True
  then show ?thesis by (simp add: power_summary_def Let_def)
next
  case False
  then obtain mean where "f_div_nat (f_sum (pw_samples s)) (length (pw_samples s)) = Inr mean" using f_div_nat_positive by fastforce
  moreover obtain peak where "f_max_list (pw_samples s) = Inr peak" using False by (cases "pw_samples s") auto
  moreover obtain per_auth where
    "f_div_nat (f_mul mean (Fin (time_or (pw_t1 s) t1 - time_or (pw_t0 s) t0))) (nat (max 1 n)) = Inr per_auth"
    using f_div_nat_positive [of "nat (max 1 n)"] by fastforce
  ultimately show ?thesis using False by (simp add: power_summary_def Let_def)
qed

lemma returns_stop_sampling: "returns (stop_sampling e results)"
  using power_summary_returns
  by (intro returns_same_os) (auto simp: stop_sampling_def Let_def split: option.splits sum.splits, metis Inl_Inr_False)

text \<open>A workload that returns where there are working directories for \<open>n\<close> clients.\<close>

definition works :: "nat \<Rightarrow> workload \<Rightarrow> bool" where
  "works n workload \<longleftrightarrow> (\<forall>ctx w. length (ctx_client_workdirs ctx) = n \<longrightarrow> (\<exists>rs. workload ctx w = (Inr rs, w)))"

lemma returns_serve:
  assumes "works n workload" and "length dirs = n"
    and "make_power_meter (be_env e) (device e) (be_pmic e) (be_hwmon e) = Inr m"
  shows "returns (serve_and_measure e workload sample p work lb dirs)"
proof -
  have "returns (workload \<lparr>ctx_protocol = p, ctx_server = h, ctx_server_workdir = work @ ''/server'', ctx_client_workdirs = dirs\<rparr>)" for h
  proof (rule returns_same_os)
    let ?ctx = "\<lparr>ctx_protocol = p, ctx_server = h, ctx_server_workdir = work @ ''/server'', ctx_client_workdirs = dirs\<rparr>"
    fix w
    obtain rs where "workload ?ctx w = (Inr rs, w)" using assms(1,2) unfolding works_def by fastforce
    then show "\<exists>x w'. workload ?ctx w = (Inr x, w') \<and> w_os w' = w_os w" by simp
  qed
  then show ?thesis unfolding serve_and_measure_def timed_phase_def
    by (intro returns_andthen returns_try_finally returns_launch returns_halt returns_if returns_ret returns_stop_sampling
        returns_start_sampling [OF assms(3)])
qed

lemma checks_ready:
  assumes "\<forall>f. be_exists e f" and "p \<in> set PROTOS_ORDER"
  shows "\<exists>pr. checks e p = Inr pr"
  using assms by (auto simp: checks_def registry_def PROTOCOLS_def require_binaries_def ensure_mtls_certs_def PROTOS_ORDER_def Let_def)

lemma returns_run_test:
  assumes "bench_ready e" and "p \<in> set PROTOS_ORDER" and "works n workload"
  shows "returns (run_test e t p n workload sample extra)"
proof -
  obtain m where m: "make_power_meter (be_env e) (device e) (be_pmic e) (be_hwmon e) = Inr m"
    and enrolls: "enrolls (be_enroll e)" and files: "\<forall>f. be_exists e f" using assms(1) unfolding bench_ready_def by blast
  obtain pr where pr: "checks e p = Inr pr" using checks_ready [OF files assms(2)] by blast
  have fresh: "returns (modify (\<lambda>w. w\<lparr>w_fs := fresh_workdir work (w_fs w)\<rparr>))" for work
    by (rule gives_modify) simp
  have out: "returns (write_results e t p extra x)" for x
    by (rule returns_same_os) (simp add: write_results_def Let_def split: prod.splits)
  have prepared: "gives alive (prepare_clients e pr work n lb) (\<lambda>dirs w. alive w \<and> length dirs = n)" for work lb
    using returns_prepare_clients [OF enrolls, of pr work n lb] prepare_clients_dirs by (fastforce simp: gives_def)
  have serve: "gives (\<lambda>w. alive w \<and> length dirs = n) (serve_and_measure e workload sample pr work lb dirs) (\<lambda>_. alive)" for work lb dirs
    using returns_serve [OF assms(3) _ m] by (simp add: gives_def)
  show ?thesis unfolding run_test_def Let_def
    by (intro returns_andthen_from_res [OF pr] returns_andthen [OF fresh] gives_andthen [OF prepared] gives_andthen [OF serve] out)
qed

text \<open>The scripts, run for all protocols.\<close>

lemma works_latency:
  assumes "client_runs c" and "tasks_complete c" and "0 < n"
  shows "works (nat n) (test1_workload c n)" "works 1 (test2_workload c runs)" "works (nat n) (test3_workload c n runs)"
proof -
  show "works (nat n) (test1_workload c n)" using test1_results [OF assms] by (fastforce simp: works_def)
  show "works (nat n) (test3_workload c n runs)" using test3_results [OF assms] by (fastforce simp: works_def)
  have "ctx_client_workdirs ctx \<noteq> []" if "length (ctx_client_workdirs ctx) = 1" for ctx using that by auto
  then show "works 1 (test2_workload c runs)" using test2_results [OF assms(1)] unfolding works_def by blast
qed

lemma returns_map_eff: "(\<And>x. x \<in> set xs \<Longrightarrow> returns (f x)) \<Longrightarrow> returns (map_eff f xs)"
  by (rule gives_weaken [OF gives_map_eff])

lemma returns_save: "returns (save f text)"
  by (rule returns_same_os) simp

lemma returns_resources:
  assumes "returns (run_test e ''test4_memory'' p (nat (TEST_RESOURCES_CLIENTS sz))
      (test3_workload c (TEST_RESOURCES_CLIENTS sz) (TEST_RESOURCES_RUNS_PER_CLIENT sz)) True
      [(''n_clients'', JInt (TEST_RESOURCES_CLIENTS sz)), (''runs_per_client'', JInt (TEST_RESOURCES_RUNS_PER_CLIENT sz)),
       (''pattern'', JStr ''resource_sampling'')])"
  shows "returns (resources_run e c sz p)"
proof -
  have "returns (fanout_summary e s)" for s
    unfolding fanout_summary_def by (intro returns_andthen returns_map_eff returns_save returns_ret)
  moreover have "returns (mirror_table e p)"
    by (rule returns_same_os) (auto simp: mirror_table_def andthen_def split: option.splits)
  ultimately show ?thesis unfolding resources_run_def Let_def by (intro returns_andthen assms)
qed

lemma script_main_all:
  assumes "load_sizes (be_env e) = Inr sz"
  shows "script_main e run [prog, ''all''] = andthen (map_eff (run sz) [''zkarche'', ''edhoc'', ''mtls'']) (\<lambda>_. ret 0)"
proof -
  have "lower ''all'' = ''all''" by (simp add: lower_def lower_char_def)
  then show ?thesis by (intro ext) (simp add: script_main_def assms andthen_def Let_def)
qed

lemma returns_scripts:
  assumes "bench_ready e" and "client_runs c" and "tasks_complete c" and "run \<in> set (SCRIPTS e c)"
  shows "gives alive (script_main e run [prog, ''all'']) (\<lambda>rc w. rc = 0 \<and> alive w)"
proof -
  obtain sz where sz: "load_sizes (be_env e) = Inr sz" and pos: "0 < TEST1_CONCURRENT_CLIENTS sz" "0 < TEST3_CLIENTS sz"
    "0 < TEST_RESOURCES_CLIENTS sz" using assms(1) unfolding bench_ready_def by blast
  note work = works_latency [OF assms(2,3)]
  have "returns (run sz p)" if "p \<in> set PROTOS_ORDER" for p
  proof -
    note test = returns_run_test [OF assms(1) that]
    have "returns (test1_run e c sz p)" "returns (test2_run e c sz p)" "returns (test3_run e c sz p)"
      unfolding test1_run_def test2_run_def test3_run_def Let_def
      by (intro returns_andthen returns_ret test work pos work(2) [OF pos(1)])+
    moreover have "returns (resources_run e c sz p)" by (intro returns_resources test work pos)
    ultimately show ?thesis using assms(4) by (auto simp: SCRIPTS_def)
  qed
  then have "returns (map_eff (run sz) [''zkarche'', ''edhoc'', ''mtls''])"
    by (intro returns_map_eff) (simp add: PROTOS_ORDER_def)
  then have "gives alive (andthen (map_eff (run sz) [''zkarche'', ''edhoc'', ''mtls'']) (\<lambda>_. ret (0 :: int))) (\<lambda>rc w. rc = 0 \<and> alive w)"
    by (rule gives_andthen) (simp add: gives_def)
  then show ?thesis by (simp only: script_main_all [OF sz])
qed

lemma all_scripts_return:
  assumes "bench_ready e" and "client_runs c" and "tasks_complete c" and "alive w"
  shows "\<exists>w'. map_eff (\<lambda>run. script_main e run [prog, ''all'']) (SCRIPTS e c) w = (Inr [0, 0, 0, 0], w') \<and> alive w'"
proof -
  have "\<exists>w'. map_eff (\<lambda>run. script_main e run [prog, ''all'']) runs w = (Inr (replicate (length runs) 0), w') \<and> alive w'"
    if "set runs \<subseteq> set (SCRIPTS e c)" "alive w" for runs w
    using that
  proof (induction runs arbitrary: w)
    case (Cons run runs)
    then have "run \<in> set (SCRIPTS e c)" by simp
    from givesD [OF returns_scripts [OF assms(1-3) this] Cons.prems(2), of prog] obtain w1 where
      1: "script_main e run [prog, ''all''] w = (Inr 0, w1)" "alive w1" by blast
    moreover obtain w2 where "map_eff (\<lambda>run. script_main e run [prog, ''all'']) runs w1 = (Inr (replicate (length runs) 0), w2)" "alive w2"
      using Cons.IH [OF _ 1(2)] Cons.prems(1) by auto
    ultimately show ?case by (simp add: andthen_def)
  qed simp
  from this [OF subset_refl assms(4)] show ?thesis by (simp add: SCRIPTS_def)
qed

section \<open>From the scripts to the figures\<close>

lemma makes_script:
  assumes "load_sizes (be_env e) = Inr sz" and "\<And>p. p \<in> set PROTOS_ORDER \<Longrightarrow> makes e sz (T \<times> {p}) (run sz p)"
  shows "makes e sz (T \<times> set PROTOS_ORDER) (script_main e run [prog, ''all''])"
proof -
  let ?ps = "[''zkarche'', ''edhoc'', ''mtls'']"
  have ps: "set ?ps = set PROTOS_ORDER" by (auto simp: PROTOS_ORDER_def)
  have "makes e sz (\<Union>p \<in> set ?ps. T \<times> {p}) (map_eff (run sz) ?ps)"
    using assms(2) ps by (intro makes_map_eff) blast
  then have "makes e sz ((\<Union>p \<in> set ?ps. T \<times> {p}) \<union> {}) (script_main e run [prog, ''all''])"
    unfolding script_main_all [OF assms(1)] by (intro makes_andthen makes_same_files frame_files(3))
  moreover have "(\<Union>p \<in> set ?ps. T \<times> {p}) \<union> {} = T \<times> set PROTOS_ORDER" unfolding ps by blast
  ultimately show ?thesis by (simp only:)
qed

lemma makes_all:
  assumes "load_sizes (be_env e) = Inr sz" and "client_runs c" and "tasks_complete c"
  shows "makes e sz ALL_PAIRS (map_eff (\<lambda>run. script_main e run [prog, ''all'']) (SCRIPTS e c))"
proof -
  let ?ps = "set PROTOS_ORDER"
  note test = makes_latency_tests [OF assms(2,3), where e = e and sz = sz]
  have "makes e sz ({''test1_concurrent''} \<times> ?ps) (script_main e (test1_run e c) [prog, ''all''])"
    "makes e sz ({''test2_sequential''} \<times> ?ps) (script_main e (test2_run e c) [prog, ''all''])"
    "makes e sz ({''test3_highload''} \<times> ?ps) (script_main e (test3_run e c) [prog, ''all''])"
    by (intro makes_script [OF assms(1)]; use test in simp)+
  moreover have "makes e sz (set FOCUSES \<times> ?ps) (script_main e (resources_run e c) [prog, ''all''])"
    using makes_resources [OF assms(2,3)] by (intro makes_script [OF assms(1)])
  moreover have "makes e sz {} (map_eff f [])" for f :: "(sizes \<Rightarrow> string \<Rightarrow> (world, unit) eff) \<Rightarrow> (world, int) eff"
    by (simp add: makes_same_files frame_files(3))
  ultimately have "makes e sz ({''test1_concurrent''} \<times> ?ps \<union> ({''test2_sequential''} \<times> ?ps \<union> ({''test3_highload''} \<times> ?ps
      \<union> (set FOCUSES \<times> ?ps \<union> {})))) (map_eff (\<lambda>run. script_main e run [prog, ''all'']) (SCRIPTS e c))"
    unfolding SCRIPTS_def by (intro makes_map_eff_Cons)
  moreover have "{''test1_concurrent''} \<times> ?ps \<union> ({''test2_sequential''} \<times> ?ps \<union> ({''test3_highload''} \<times> ?ps
      \<union> (set FOCUSES \<times> ?ps \<union> {}))) = ALL_PAIRS"
    by (auto simp: ALL_PAIRS_def ALL_RESULTS_def LATENCY_TESTS_def FOCUSES_def)
  ultimately show ?thesis by (simp only:)
qed

text \<open>C11: With the binaries and a power meter there, servers that open their ports, clients that can be run and enroll, and
  float literals as the texts of floats, the four test scripts run for all protocols one after the other return zero, and then
  the tree of results holds for every test and protocol a table with every planned authentication exactly
  once and a summary that counts them; and the figure generator, run on this tree, returns zero with the
  eight files that show exactly these results, each summary as its literals read back.\<close>

theorem benchmarks_to_figures:
  assumes "bench_ready e" and "servers_answer (w_os w)" and "client_runs c" and "tasks_complete c" and "\<forall>x. literal (be_repr e) x"
  shows "\<exists>w' sz results summaries. load_sizes (be_env e) = Inr sz
    \<and> map_eff (\<lambda>run. script_main e run [prog, ''all'']) (SCRIPTS e c) w = (Inr [0, 0, 0, 0], w')
    \<and> (\<forall>t \<in> set ALL_RESULTS. \<forall>p \<in> set PROTOS_ORDER. saved e sz w' t p (results t p) (summaries t p))
    \<and> (let bars = (\<lambda>key title ylabel. emit_resource_bars
          (\<lambda>p. Some (to_dict (reread_summary (be_repr e) (summaries ''test4_memory'' p)))) [key] title ylabel (Fin 1)) in
      \<exists>table. emit_summary_table (\<lambda>t p. Some (JObj (to_dict (reread_summary (be_repr e) (summaries t p))))) = Inr table
      \<and> plot_main str_of (w_files w') [results_dir e] out [] = (Inr 0,
      [(out @ ''/test_1_graph.tex'', emit_test1_zkarche (map row_of_result (results ''test1_concurrent'' ''zkarche''))),
       (out @ ''/test_2_graph.tex'', emit_test2_zkarche (map row_of_result (results ''test2_sequential'' ''zkarche''))),
       (out @ ''/test_3_graph.tex'', emit_test3_zkarche (map row_of_result (results ''test3_highload'' ''zkarche''))),
       (out @ ''/comparison_graph.tex'', emit_comparison (\<lambda>t p. map (\<lambda>r. Fin (py_round (the (cr_duration_ms r)) 6)) (successful_results (results t p)))),
       (out @ ''/test_4_graph.tex'', bars ''peak_rss_mb'' ''Peak RSS during authentication'' ''Peak RSS (MB)''),
       (out @ ''/test_5_graph.tex'', bars ''peak_cpu_pct'' ''Peak CPU utilisation during authentication'' (''Peak CPU ('' @ cmd ''%)'')),
       (out @ ''/test_6_graph.tex'', bars ''energy_per_auth_mJ'' ''Per-authentication energy'' ''Energy (mJ)''),
       (out @ ''/summary_table.tex'', table)]))"
proof -
  obtain sz where sz: "load_sizes (be_env e) = Inr sz" using assms(1) unfolding bench_ready_def by blast
  obtain w' where run: "map_eff (\<lambda>run. script_main e run [prog, ''all'']) (SCRIPTS e c) w = (Inr [0, 0, 0, 0], w')"
    using all_scripts_return [OF assms(1,3,4,2), of prog] by blast
  have "\<exists>results s. saved e sz w' t p results s" if "t \<in> set ALL_RESULTS" "p \<in> set PROTOS_ORDER" for t p
    using makesD [OF makes_all [OF sz assms(3,4)] run pairs [OF that(2,1)]] pairs [OF that(2,1)] by (simp add: has_results_def)
  then obtain results summaries where saved: "\<And>t p. t \<in> set ALL_RESULTS \<Longrightarrow> p \<in> set PROTOS_ORDER \<Longrightarrow>
      saved e sz w' t p (results t p) (summaries t p)"
    by metis
  let ?read = "\<lambda>t p. reread_summary (be_repr e) (summaries t p)"
  have "load_csv (w_files w' (raw_file (results_dir e) t p)) = Inr (map row_of_result (results t p))
      \<and> load_summary (w_files w' (summary_file (results_dir e) t p)) = Some (JObj (to_dict (?read t p)))"
    if "t \<in> set ALL_RESULTS" "p \<in> set PROTOS_ORDER" for t p
  proof -
    note s = saved [OF that, unfolded saved_def covers_def sound_def]
    have "\<forall>r \<in> set (results t p). times_nonneg r" using s by blast
    moreover have "w_files w' (raw_file (results_dir e) t p) = Some (write_iterations_csv (results t p))"
      "w_files w' (summary_file (results_dir e) t p) = Some (write_summary_json (be_repr e) (summaries t p))"
      using s by (simp_all add: raw_file_def raw_csv_def summary_file_def summary_path_def)
    moreover have "literals (be_repr e) (JObj (sr_notes (summaries t p)))" using s by blast
    ultimately show ?thesis using load_written_iterations load_literal_summary [OF assms(5)] by metis
  qed
  then obtain rows loaded where collected: "collect (w_files w') (results_dir e) = Inr (rows, loaded)"
    "\<forall>t \<in> set ALL_RESULTS. \<forall>p \<in> set PROTOS_ORDER. rows t p = map row_of_result (results t p) \<and> loaded t p = Some (JObj (to_dict (?read t p)))"
    using collect_loads [of "w_files w'" "results_dir e" results ?read] by blast
  have "\<forall>p \<in> set PROTOS_ORDER. sr_resources (?read ''test4_memory'' p) = Some (the (sr_resources (?read ''test4_memory'' p)))"
    using saved [of "''test4_memory''"] by (simp add: saved_def ALL_RESULTS_def reread_summary_def)
  from collected_figures [OF collected this, where out = out] show ?thesis
    using sz run saved unfolding Let_def by blast
qed

lemma demo_ready: "bench_ready demo_env" "servers_answer (w_os demo_world)" "\<forall>x. literal (be_repr demo_env) x"
proof -
  have "enrolls demo_client"
    by (auto simp: enrolls_def demo_client_def run_client_once_def first_client_metrics_def)
  moreover have "\<exists>m. make_power_meter (be_env demo_env) (device demo_env) (be_pmic demo_env) (be_hwmon demo_env) = Inr m"
    by (simp add: make_power_meter_def env_get_def demo_env_def Let_def is_space_def lower_def lower_char_def)
  moreover have "\<exists>sz. load_sizes (be_env demo_env) = Inr sz \<and> 0 < TEST1_CONCURRENT_CLIENTS sz \<and> 0 < TEST3_CLIENTS sz \<and> 0 < TEST_RESOURCES_CLIENTS sz"
    using py_float_dec [of "''0''" "''05''"] by (simp add: demo_env_def load_sizes_def env_int_def env_get_def dec_text_def)
  ultimately show "bench_ready demo_env" by (simp add: bench_ready_def demo_env_def)
  have "\<exists>i < 6. \<not> p + i < 8" if "7 \<le> p" for p :: nat using that by (intro exI [of _ 1]) simp
  then show "servers_answer (w_os demo_world)" by (auto simp: servers_answer_def demo_world_def demo_os_def)
  show "\<forall>x. literal (be_repr demo_env) x" using literal_fixed [of 5] by (simp add: demo_env_def numeral_eq_Suc)
qed

lemma benchmarks_to_figures_witness:
  "\<exists>w' ws. map_eff (\<lambda>run. script_main demo_env run [''t'', ''all'']) (SCRIPTS demo_env demo_clients) demo_world = (Inr [0, 0, 0, 0], w')
    \<and> plot_main (\<lambda>v. []) (w_files w') [results_dir demo_env] ''out'' [] = (Inr 0, ws) \<and> length ws = 8"
  using benchmarks_to_figures [OF demo_ready(1,2) demo_clients_run demo_ready(3), of "''t''" "\<lambda>v. []" "''out''"] by (fastforce simp: Let_def)

end
