(* ===== verification/PlotPlatforms.thy ===== *)
theory PlotPlatforms
  imports PlotMain
begin

text \<open>
  \<open>benchmarks/plot.py\<close> on the result trees of several hosts. Shown here: the resource figures compare the
  devices in display order, each with the results of the last tree of its label, and the other
  files are those of the first tree.
\<close>

lemma map_res_nth:
  assumes "\<And>i. i < length xs \<Longrightarrow> f (xs ! i) = Inr (g i)"
  shows "map_res f xs = Inr (map g [0..<length xs])"
  using assms
proof (induction xs arbitrary: g)
  case (Cons x xs)
  have "map_res f xs = Inr (map (g \<circ> Suc) [0..<length xs])" using Cons.prems by (intro Cons.IH) fastforce
  moreover have "f x = Inr (g 0)" using Cons.prems [of 0] by simp
  moreover have "map g [0..<Suc (length xs)] = g 0 # map (g \<circ> Suc) [0..<length xs]" by (simp add: map_upt_Suc comp_def del: upt_Suc)
  ultimately show ?case by (simp del: upt_Suc)
qed simp

section \<open>Trees by device\<close>

lemma map_of_per_device: "map_of (per_device trees) = map_of (rev (map (\<lambda>(d, c). (d, snd c)) trees))"
  by (induction trees rule: rev_induct) (simp_all add: per_device_def AList.update_conv' case_prod_unfold)

lemma keys_per_device: "distinct (map fst (per_device trees)) \<and> set (map fst (per_device trees)) = fst ` set trees"
proof (induction trees rule: rev_induct)
  case (snoc x trees)
  obtain d c where x: "x = (d, c)" by (cases x)
  let ?al = "per_device trees"
  have step: "per_device (trees @ [x]) = AList.update d (snd c) ?al" by (simp add: per_device_def x)
  have "dom (map_of (AList.update d (snd c) ?al)) = insert d (dom (map_of ?al))" by (simp add: AList.update_conv')
  then have "set (map fst (AList.update d (snd c) ?al)) = insert d (set (map fst ?al))" by (simp add: dom_map_of_conv_image_fst)
  then show ?case using snoc unfolding step by (simp add: AList.distinct_update x)
qed (simp add: per_device_def)

text \<open>The last of the numbers below \<open>n\<close> with a label.\<close>

definition latest :: "(nat \<Rightarrow> string) \<Rightarrow> nat \<Rightarrow> string \<Rightarrow> nat" where
  "latest dev n d = last (filter (\<lambda>i. dev i = d) [0..<n])"

lemma map_of_latest:
  "map_of (rev (map (\<lambda>i. (dev i, f i)) [0..<n])) d = (if d \<in> dev ` {..<n} then Some (f (latest dev n d)) else None)"
proof (induction n)
  case (Suc n)
  then show ?case by (auto simp: latest_def lessThan_Suc)
qed simp

lemma latest_prop: "d \<in> dev ` {..<n} \<Longrightarrow> latest dev n d < n \<and> dev (latest dev n d) = d"
proof -
  assume "d \<in> dev ` {..<n}"
  then have "filter (\<lambda>i. dev i = d) [0..<n] \<noteq> []" by (auto simp: filter_empty_conv)
  then have "latest dev n d \<in> set (filter (\<lambda>i. dev i = d) [0..<n])" unfolding latest_def by (rule last_in_set)
  then show ?thesis by simp
qed

text \<open>The display order depends on the set of the devices only.\<close>

lemma device_order_set:
  assumes "distinct xs" and "distinct ys" and "set xs = set ys"
  shows "device_order xs = device_order ys"
proof -
  have "mset xs = mset ys" using assms by (simp add: set_eq_iff_mset_eq_distinct)
  then have "mset (filter (\<lambda>d. d \<notin> set PI_ORDER) xs) = mset (filter (\<lambda>d. d \<notin> set PI_ORDER) ys)" by (simp add: mset_filter)
  then have "sort (filter (\<lambda>d. d \<notin> set PI_ORDER) xs) = sort (filter (\<lambda>d. d \<notin> set PI_ORDER) ys)"
    by (metis properties_for_sort mset_sort sorted_sort)
  then show ?thesis using assms(3) by (simp add: device_order_def)
qed

lemma emit_multi_cong:
  assumes "\<And>d p. d \<in> set order \<Longrightarrow> p \<in> set PROTOS_ORDER \<Longrightarrow> f d p = g d p"
  shows "emit_resource_bars_multi f order path title ylabel m = emit_resource_bars_multi g order path title ylabel m"
proof -
  have "concat (map (\<lambda>d. map (\<lambda>p. resource_value (f d p) path m) PROTOS_ORDER) order)
      = concat (map (\<lambda>d. map (\<lambda>p. resource_value (g d p) path m) PROTOS_ORDER) order)"
    using assms by (intro arg_cong [where f = concat] map_cong refl) simp
  moreover have "map (\<lambda>d. point (short_name d) 6 (resource_value (f d p) path m)) order
      = map (\<lambda>d. point (short_name d) 6 (resource_value (g d p) path m)) order" if "p \<in> set PROTOS_ORDER" for p
    using assms that by simp
  then have "concat (map (\<lambda>p. bars_of p (join_str '' '' (map (\<lambda>d. point (short_name d) 6 (resource_value (f d p) path m)) order))) PROTOS_ORDER)
      = concat (map (\<lambda>p. bars_of p (join_str '' '' (map (\<lambda>d. point (short_name d) 6 (resource_value (g d p) path m)) order))) PROTOS_ORDER)"
    by (intro arg_cong [where f = concat] map_cong refl) (simp only:)
  ultimately show ?thesis unfolding emit_resource_bars_multi_def Let_def by (simp only:)
qed

section \<open>Written trees\<close>

lemma device_label_written:
  assumes "\<And>t p. t \<in> set ALL_RESULTS \<Longrightarrow> p \<in> set PROTOS_ORDER \<Longrightarrow> loaded t p = Some (JObj (to_dict (s t p))) \<and> sr_device (s t p) = d"
    and "d \<noteq> []"
  shows "detect_device_label str_of loaded = Inr d"
proof -
  have "loaded ''test1_concurrent'' ''zkarche'' = Some (JObj (to_dict (s ''test1_concurrent'' ''zkarche'')))
      \<and> sr_device (s ''test1_concurrent'' ''zkarche'') = d"
    by (rule assms(1)) (simp_all add: ALL_RESULTS_def LATENCY_TESTS_def PROTOS_ORDER_def)
  then show ?thesis using assms(2)
    by (simp add: detect_device_label_def ALL_RESULTS_def LATENCY_TESTS_def PROTOS_ORDER_def summary_of_def to_dict_def json_true_def)
qed

lemma load_written_tree:
  assumes "written_tree files rdir fr results summaries" and "\<forall>t \<in> set ALL_RESULTS. \<forall>p \<in> set PROTOS_ORDER. sr_device (summaries t p) = d"
    and "d \<noteq> []"
  shows "\<exists>rows loaded. load_tree str_of files rdir = Inr (d, rows, loaded)
    \<and> (\<forall>t \<in> set ALL_RESULTS. \<forall>p \<in> set PROTOS_ORDER. rows t p = map row_of_result (results t p)
        \<and> loaded t p = Some (JObj (to_dict (summaries t p))))"
proof -
  obtain rows loaded where c: "collect files rdir = Inr (rows, loaded)"
    "\<forall>t \<in> set ALL_RESULTS. \<forall>p \<in> set PROTOS_ORDER. rows t p = map row_of_result (results t p) \<and> loaded t p = Some (JObj (to_dict (summaries t p)))"
    using collect_written [OF assms(1)] by blast
  then have "detect_device_label str_of loaded = Inr d"
    using assms(2) by (intro device_label_written [OF _ assms(3), where s = summaries]) blast
  then show ?thesis using c by (simp add: load_tree_def)
qed

lemma resource_figure_multi_dicts:
  assumes "\<And>d p. d \<in> set order \<Longrightarrow> p \<in> set PROTOS_ORDER \<Longrightarrow>
      \<exists>s. map_of by_device d = Some s \<and> s ''test4_memory'' p = Some (JObj (kvs d p))"
  shows "resource_figure_multi by_device order key title ylabel
    = Inr (emit_resource_bars_multi (\<lambda>d p. Some (kvs d p)) order [key] title ylabel (Fin 1))"
proof -
  let ?cells = "List.product order PROTOS_ORDER"
  let ?some = "\<lambda>(d, p). Some (kvs d p)"
  have "map_res (\<lambda>(d, p). case map_of by_device d of None \<Rightarrow> Inr None | Some s \<Rightarrow> summary_of (s ''test4_memory'' p)) ?cells
      = Inr (map ?some ?cells)"
    using assms by (intro map_res_total) (fastforce simp: summary_of_def)
  moreover have "emit_resource_bars_multi (\<lambda>d p. the (map_of (zip ?cells (map ?some ?cells)) (d, p))) order [key] title ylabel (Fin 1)
      = emit_resource_bars_multi (\<lambda>d p. Some (kvs d p)) order [key] title ylabel (Fin 1)"
    by (intro emit_multi_cong) (simp add: map_of_zip_mem)
  ultimately show ?thesis unfolding resource_figure_multi_def Let_def by (simp only: bind_res_simps)
qed

section \<open>The figures of several platforms\<close>

text \<open>C14: From at least two trees of results that runs wrote on labelled devices, the generator returns zero after
  writing its eight files. The latency figures, the comparison and the table are those of the first tree, as for one host.
  Each resource figure has all devices, once each and in display order, and shows for a device the resources of
  the last tree with its label.\<close>

theorem platforms_compared:
  assumes many: "1 < length rdirs"
    and trees: "\<forall>i < length rdirs. written_tree files (rdirs ! i) fr (results i) (summaries i)"
    and devices: "\<forall>i < length rdirs. dev i \<noteq> [] \<and> (\<forall>t \<in> set ALL_RESULTS. \<forall>p \<in> set PROTOS_ORDER. sr_device (summaries i t p) = dev i)"
  shows "let order = device_order (remdups (map dev [0..<length rdirs]));
      bars = (\<lambda>key title ylabel. emit_resource_bars_multi
        (\<lambda>d p. Some (to_dict (summaries (latest dev (length rdirs) d) ''test4_memory'' p))) order [key] title ylabel (Fin 1)) in
    mset order = mset (remdups (map dev [0..<length rdirs])) \<and>
    (\<exists>table. emit_summary_table (\<lambda>t p. Some (JObj (to_dict (summaries 0 t p)))) = Inr table
      \<and> plot_main str_of files rdirs out [] = (Inr 0,
      [(out @ ''/test_1_graph.tex'', emit_test1_zkarche (map row_of_result (results 0 ''test1_concurrent'' ''zkarche''))),
       (out @ ''/test_2_graph.tex'', emit_test2_zkarche (map row_of_result (results 0 ''test2_sequential'' ''zkarche''))),
       (out @ ''/test_3_graph.tex'', emit_test3_zkarche (map row_of_result (results 0 ''test3_highload'' ''zkarche''))),
       (out @ ''/comparison_graph.tex'', emit_comparison (\<lambda>t p. map (\<lambda>r. Fin (py_round (the (cr_duration_ms r)) 6)) (successful_results (results 0 t p)))),
       (out @ ''/test_4_graph.tex'', bars ''peak_rss_mb'' ''Peak RSS during authentication across platforms'' ''Peak RSS (MB)''),
       (out @ ''/test_5_graph.tex'', bars ''peak_cpu_pct'' ''Peak CPU utilisation during authentication across platforms'' (''Peak CPU ('' @ cmd ''%)'')),
       (out @ ''/test_6_graph.tex'', bars ''energy_per_auth_mJ'' ''Per-authentication energy across platforms'' ''Energy (mJ)''),
       (out @ ''/summary_table.tex'', table)]))"
proof -
  let ?n = "length rdirs" and ?is = "[0..<length rdirs]"
  let ?labels = "remdups (map dev ?is)"
  let ?good = "\<lambda>i rows loaded. \<forall>t \<in> set ALL_RESULTS. \<forall>p \<in> set PROTOS_ORDER. rows t p = map row_of_result (results i t p)
      \<and> loaded t p = Some (JObj (to_dict (summaries i t p)))"
  have "\<exists>c. load_tree str_of files (rdirs ! i) = Inr (dev i, c) \<and> ?good i (fst c) (snd c)" if "i < ?n" for i
    using load_written_tree [of files "rdirs ! i" fr "results i" "summaries i" "dev i" str_of] trees devices that by fastforce
  then obtain c where c: "\<And>i. i < ?n \<Longrightarrow> load_tree str_of files (rdirs ! i) = Inr (dev i, c i) \<and> ?good i (fst (c i)) (snd (c i))" by metis
  define by_device where "by_device = per_device (map (\<lambda>i. (dev i, c i)) ?is)"
  let ?order = "device_order (map fst by_device)"
  have "map_res (load_tree str_of files) rdirs = Inr (map (\<lambda>i. (dev i, c i)) ?is)" using c by (intro map_res_nth) simp
  moreover have "hd (map (\<lambda>i. (dev i, c i)) ?is) = (dev 0, c 0)" using many by (cases rdirs) (simp_all add: upt_conv_Cons del: upt_Suc)
  ultimately have load: "collect_multi str_of files rdirs = Inr (c 0, by_device, ?order)"
    by (simp add: collect_multi_def by_device_def del: map_eq_Cons_conv)
  have keys: "distinct (map fst by_device)" "set (map fst by_device) = dev ` {..<?n}"
    using keys_per_device [of "map (\<lambda>i. (dev i, c i)) ?is"] by (auto simp: by_device_def image_image)
  then have order: "?order = device_order ?labels" by (intro device_order_set) auto
  have perm: "mset (device_order ?labels) = mset ?labels" using device_order_permutation [of ?labels] by blast
  then have members: "set (device_order ?labels) = dev ` {..<?n}" by (metis mset_eq_setD set_remdups set_map set_upt atLeast_upt)
  have of_device: "map_of by_device d = Some (snd (c (latest dev ?n d)))" if "d \<in> dev ` {..<?n}" for d
    using that by (simp add: by_device_def map_of_per_device comp_def map_of_latest)
  have t4: "''test4_memory'' \<in> set ALL_RESULTS" by (simp add: ALL_RESULTS_def)
  define bars where "bars = (\<lambda>key title ylabel. emit_resource_bars_multi
        (\<lambda>d p. Some (to_dict (summaries (latest dev ?n d) ''test4_memory'' p))) (device_order ?labels) [key] title ylabel (Fin 1))"
  have fig: "resource_figure_multi by_device ?order key title ylabel = Inr (bars key title ylabel)" for key title ylabel
    unfolding order bars_def
  proof (rule resource_figure_multi_dicts)
    fix d p assume "d \<in> set (device_order ?labels)" "p \<in> set PROTOS_ORDER"
    then have "d \<in> dev ` {..<?n}" "p \<in> set PROTOS_ORDER" using members by blast+
    then show "\<exists>s. map_of by_device d = Some s \<and> s ''test4_memory'' p = Some (JObj (to_dict (summaries (latest dev ?n d) ''test4_memory'' p)))"
      using of_device c latest_prop t4 by blast
  qed
  obtain rows loaded where c0: "c 0 = (rows, loaded)" by (cases "c 0")
  have "0 < ?n" using many by linarith
  from c [OF this] have good: "?good 0 rows loaded" by (simp add: c0)
  from figures_written [OF good, where bars = "resource_figure_multi by_device ?order" and out = out and across = "'' across platforms''", OF fig]
  show ?thesis unfolding Let_def bars_def using perm many by (auto simp: plot_main_def load c0 andthen_def)
qed

text \<open>Two boards and a repeated label: the last tree of the first board counts.\<close>

definition demo_device :: "nat \<Rightarrow> string" where
  "demo_device i = (if i = 1 then ''x86'' else ''Raspberry Pi 4 (4GB)'')"

definition demo_trees :: "string \<Rightarrow> string option" where
  "demo_trees f = Some (if last f = CHR ''v'' then write_iterations_csv [demo_result True, demo_result False]
     else write_summary_json (show_fixed 6) (demo_full\<lparr>sr_device := demo_device (if hd f = CHR ''b'' then 1 else 0)\<rparr>))"

lemma platforms_compared_witness:
  "\<exists>w. plot_main (\<lambda>v. []) demo_trees [''a'', ''b'', ''c''] ''out'' [] = (Inr 0, w) \<and> length w = 8
    \<and> device_order (remdups (map demo_device [0..<3])) = [''Raspberry Pi 4 (4GB)'', ''x86''] \<and> latest demo_device 3 ''Raspberry Pi 4 (4GB)'' = 2"
proof -
  let ?sum = "\<lambda>i t p. demo_full\<lparr>sr_device := demo_device i\<rparr>"
  have writable: "writable (show_fixed 6) (JObj (to_dict (?sum i t p)))" for i t p
    using demo_full_writable by (simp add: to_dict_def)
  have tree: "written_tree demo_trees ([''a'', ''b'', ''c''] ! i) (show_fixed 6) (\<lambda>t p. [demo_result True, demo_result False]) (?sum i)"
    if "i < 3" for i
  proof -
    have "i = 0 \<or> i = 1 \<or> i = 2" using that by auto
    then show ?thesis unfolding written_tree_def using writable [of i]
      by (auto simp: demo_trees_def demo_device_def raw_file_def summary_file_def times_nonneg_def demo_result_def simp del: writable.simps)
  qed
  have "1 < length [''a'', ''b'', ''c'']" by simp
  moreover have "\<forall>i < length [''a'', ''b'', ''c'']. demo_device i \<noteq> [] \<and> (\<forall>t \<in> set ALL_RESULTS. \<forall>p \<in> set PROTOS_ORDER. sr_device (?sum i t p) = demo_device i)"
    by (simp add: demo_device_def)
  moreover have "\<forall>i < length [''a'', ''b'', ''c'']. written_tree demo_trees ([''a'', ''b'', ''c''] ! i) (show_fixed 6)
      ((\<lambda>i t p. [demo_result True, demo_result False]) i) (?sum i)"
    using tree by simp
  ultimately have "let order = device_order (remdups (map demo_device [0..<length [''a'', ''b'', ''c'']])) in
      \<exists>w. plot_main (\<lambda>v. []) demo_trees [''a'', ''b'', ''c''] ''out'' [] = (Inr 0, w) \<and> length w = 8"
    by - (drule (2) platforms_compared [where out = "''out''" and str_of = "\<lambda>v. []"], unfold Let_def, fastforce)
  then have "\<exists>w. plot_main (\<lambda>v. []) demo_trees [''a'', ''b'', ''c''] ''out'' [] = (Inr 0, w) \<and> length w = 8"
    by (simp only: Let_def)
  moreover have "[0..<3] = [0, 1, 2 :: nat]" by (simp add: upt_rec)
  ultimately show ?thesis by (simp add: demo_device_def device_order_def PI_ORDER_def latest_def)
qed

end
