(* ===== verification/PlotPreviews.thy ===== *)
theory PlotPreviews
  imports PlotMain
begin

text \<open>
  The PNG previews that \<open>benchmarks/plot.py\<close> draws last, and with them its whole \<open>main\<close>. A picture is
  what the code asks \<open>matplotlib\<close> to draw: its texts and its series with their values; whether the package can be
  imported and what it raises when a picture is drawn and saved are parameters. Sizes, grid lines and widths of bars are
  left out. Shown here: the previews never change the eight \<open>.tex\<close> files, and what each of them shows.
\<close>

section \<open>Pictures\<close>

datatype series =
    Line "real list" "pyfloat list" string string string
  | HLine pyfloat string
  | Bars "real list" "pyfloat list" string
  | NamedBars "string list" "pyfloat list" "string list"

record picture =
  pc_name :: string
  pc_title :: string
  pc_xlabel :: string
  pc_ylabel :: string
  pc_ticks :: "string list"
  pc_series :: "series list"

type_synonym pictures = "picture list"

definition save_picture :: "(picture \<Rightarrow> unit res) \<Rightarrow> picture \<Rightarrow> (pictures, unit) eff" where
  "save_picture paint pc = andthen (from_res (paint pc)) (\<lambda>_. modify (\<lambda>ps. ps @ [pc]))"

section \<open>Tests 1 to 3\<close>

text \<open>\<open>range(1, len(d) + 1)\<close>.\<close>

definition latency_picture :: "string \<Rightarrow> string \<Rightarrow> string \<Rightarrow> string \<Rightarrow> pyfloat list \<Rightarrow> picture" where
  "latency_picture name title xlabel marker d =
     \<lparr>pc_name = name, pc_title = title, pc_xlabel = xlabel, pc_ylabel = ''Latency (ms)'', pc_ticks = [],
      pc_series = [Line (map real [1..<Suc (length d)]) d marker ''C0'' [],
        HLine (mean d) (''mean = '' @ format_fixed 3 (mean d) @ '' ms'')]\<rparr>"

definition preview_test1 :: "(picture \<Rightarrow> unit res) \<Rightarrow> iter_row list \<Rightarrow> (pictures, unit) eff" where
  "preview_test1 paint rows =
     (let d = successful_durations rows in
      if d = [] then ret ()
      else save_picture paint (latency_picture ''test_1_graph.png'' (''Test 1 '' @ utf8_dash @ '' ZK-ARCHE (50 concurrent clients)'') ''Client #'' ''o'' d))"

definition preview_test2 :: "(picture \<Rightarrow> unit res) \<Rightarrow> iter_row list \<Rightarrow> (pictures, unit) eff" where
  "preview_test2 paint rows =
     (let d = successful_durations rows in
      if d = [] then ret ()
      else save_picture paint (latency_picture ''test_2_graph.png''
        (''Test 2 '' @ utf8_dash @ '' ZK-ARCHE (50 sequential authentications)'') ''Iteration'' ''o-'' d))"

definition preview_test3 :: "(picture \<Rightarrow> unit res) \<Rightarrow> iter_row list \<Rightarrow> (pictures, unit) eff" where
  "preview_test3 paint rows =
     (let by_iter = by_iteration rows []; iters = sort (map fst by_iter) in
      if by_iter = [] then ret ()
      else andthen (from_res (map_res (\<lambda>i. f_max_list (bucket by_iter i)) iters)) (\<lambda>maxes.
        save_picture paint
          \<lparr>pc_name = ''test_3_graph.png'', pc_title = ''Test 3 '' @ utf8_dash @ '' ZK-ARCHE (50'' @ utf8_times @ ''50 high load)'',
           pc_xlabel = ''Iteration index'', pc_ylabel = ''Latency (ms)'', pc_ticks = [],
           pc_series = [Line (map (\<lambda>i. of_int (i + 1)) iters) (map (\<lambda>i. mean (bucket by_iter i)) iters) ''o-'' ''C0'' ''Mean'',
             Line (map (\<lambda>i. of_int (i + 1)) iters) maxes ''--'' ''C3'' ''Max'']\<rparr>))"

section \<open>Comparison\<close>

definition latency_mean :: "summary option \<Rightarrow> pyfloat res" where
  "latency_mean s = (case s of
       None \<Rightarrow> Inr (Fin 0)
     | Some kvs \<Rightarrow> (case map_of kvs ''latency_ms'' of
         None \<Rightarrow> Inr (Fin 0)
       | Some l \<Rightarrow> if \<not> json_true l then Inr (Fin 0)
           else bind_res (json_item (JObj kvs) ''n_success'') (\<lambda>n.
                bind_res (json_positive n) (\<lambda>some.
                if \<not> some then Inr (Fin 0) else bind_res (json_item l ''mean'') json_float))))"

definition latency_means :: "loaded \<Rightarrow> string \<Rightarrow> pyfloat list res" where
  "latency_means summaries p = map_res (\<lambda>t. bind_res (summary_of (summaries t p)) latency_mean) LATENCY_TESTS"

text \<open>The bars of the protocol with index \<open>j\<close> start at \<open>xi + (j - 1) * width\<close>.\<close>

definition bar_group :: "nat \<Rightarrow> string \<Rightarrow> pyfloat list \<Rightarrow> series" where
  "bar_group j p means = Bars (map (\<lambda>xi. real xi + (real j - 1) * (1/4)) [0..<length LATENCY_TESTS]) means (PROTO_DISPLAY p)"

definition preview_comparison :: "(picture \<Rightarrow> unit res) \<Rightarrow> loaded \<Rightarrow> (pictures, unit) eff" where
  "preview_comparison paint summaries =
     andthen (from_res (map_res (\<lambda>(j, p). bind_res (latency_means summaries p) (\<lambda>ms. Inr (bar_group j p ms))) (List.enumerate 0 PROTOS_ORDER))) (\<lambda>groups.
       save_picture paint \<lparr>pc_name = ''comparison_graph.png'', pc_title = ''Latency comparison'', pc_xlabel = [],
         pc_ylabel = ''Mean latency (ms)'', pc_ticks = [''Concurrent'', ''Sequential'', ''High-load''], pc_series = groups\<rparr>)"

section \<open>Resources\<close>

text \<open>As in the figures, but an undefined value is drawn as it is.\<close>

definition preview_value :: "summary option \<Rightarrow> string \<Rightarrow> pyfloat" where
  "preview_value s key = (case s of
       None \<Rightarrow> Fin 0
     | Some kvs \<Rightarrow> (case map_of kvs ''resources'' of
         None \<Rightarrow> Fin 0
       | Some rb \<Rightarrow> if \<not> json_true rb then Fin 0
           else (case bind_res (json_item rb key) json_float of Inl _ \<Rightarrow> Fin 0 | Inr x \<Rightarrow> f_mul x (Fin 1))))"

definition preview_bars :: "(picture \<Rightarrow> unit res) \<Rightarrow> (string \<Rightarrow> json option) \<Rightarrow> string \<Rightarrow> string \<Rightarrow> string \<Rightarrow> string \<Rightarrow> (pictures, unit) eff" where
  "preview_bars paint by_proto name key title ylabel =
     andthen (from_res (map_res (\<lambda>p. bind_res (summary_of (by_proto p)) (\<lambda>s. Inr (preview_value s key))) PROTOS_ORDER)) (\<lambda>vals.
       save_picture paint \<lparr>pc_name = name, pc_title = title, pc_xlabel = [], pc_ylabel = ylabel, pc_ticks = [],
         pc_series = [NamedBars (map PROTO_DISPLAY PROTOS_ORDER) vals [''C0'', ''C2'', ''C3'']]\<rparr>)"

section \<open>All previews\<close>

text \<open>\<open>collect\<close> gives every test an entry for every protocol, so the tests for \<open>zkarche\<close> hold.\<close>

definition emit_matplotlib_previews :: "(picture \<Rightarrow> unit res) option \<Rightarrow> collected \<Rightarrow> (pictures, unit) eff" where
  "emit_matplotlib_previews plt c = (case plt of
       None \<Rightarrow> ret ()
     | Some paint \<Rightarrow> (case c of (rows, summaries) \<Rightarrow>
         andthen (preview_test1 paint (rows ''test1_concurrent'' ''zkarche'')) (\<lambda>_.
         andthen (preview_test2 paint (rows ''test2_sequential'' ''zkarche'')) (\<lambda>_.
         andthen (preview_test3 paint (rows ''test3_highload'' ''zkarche'')) (\<lambda>_.
         andthen (preview_comparison paint summaries) (\<lambda>_.
         andthen (preview_bars paint (summaries ''test4_memory'') ''test_4_graph.png'' ''peak_rss_mb''
           ''Peak RSS during authentication'' ''Memory (MB)'') (\<lambda>_.
         andthen (preview_bars paint (summaries ''test4_memory'') ''test_5_graph.png'' ''peak_cpu_pct''
           ''Peak CPU during authentication'' ''CPU (%)'') (\<lambda>_.
           preview_bars paint (summaries ''test4_memory'') ''test_6_graph.png'' ''energy_per_auth_mJ''
             ''Per-authentication energy'' ''Energy (mJ)''))))))))"

text \<open>The files written and the pictures saved.\<close>

definition on_tex :: "(written, 'a) eff \<Rightarrow> (written \<times> pictures, 'a) eff" where
  "on_tex m s = (case m (fst s) of (r, w) \<Rightarrow> (r, w, snd s))"

definition on_png :: "(pictures, 'a) eff \<Rightarrow> (written \<times> pictures, 'a) eff" where
  "on_png m s = (case m (snd s) of (r, ps) \<Rightarrow> (r, fst s, ps))"

text \<open>What was collected for the figures is drawn; collecting again gives the same, the result files being unchanged.\<close>

definition plot_program :: "(picture \<Rightarrow> unit res) option \<Rightarrow> (json \<Rightarrow> string) \<Rightarrow> (string \<Rightarrow> string option)
    \<Rightarrow> string list \<Rightarrow> string \<Rightarrow> (written \<times> pictures, int) eff" where
  "plot_program plt str_of files rdirs out =
     andthen (on_tex (plot_main str_of files rdirs out)) (\<lambda>rc.
     andthen (from_res (collect_multi str_of files rdirs)) (\<lambda>(first, _).
     andthen (on_png (emit_matplotlib_previews plt first)) (\<lambda>_. ret rc)))"

section \<open>What the previews show\<close>

text \<open>The values of a picture, series after series.\<close>

fun drawn_values :: "series \<Rightarrow> pyfloat list" where
  "drawn_values (Line xs ys m c l) = ys"
| "drawn_values (HLine y l) = [y]"
| "drawn_values (Bars xs ys l) = ys"
| "drawn_values (NamedBars ns ys cs) = ys"

definition shown :: "picture \<Rightarrow> string \<times> pyfloat list list" where
  "shown pc = (pc_name pc, map drawn_values (pc_series pc))"

lemma keys_append_at: "set (map fst (append_at k v d)) = insert k (set (map fst d))"
  by (auto simp: append_at_def update_keys)

lemma keys_by_iteration:
  "set (map fst (by_iteration rows d)) = set (map fst d) \<union> ir_iter ` {r \<in> set rows. ir_success r \<and> ir_duration_ms r \<noteq> None}"
proof (induction rows arbitrary: d)
  case (Cons r rows)
  show ?case
  proof (cases "ir_success r \<and> ir_duration_ms r \<noteq> None")
    case True
    then obtain v where v: "ir_duration_ms r = Some v" "ir_success r" by blast
    then have "set (map fst (by_iteration (r # rows) d)) = insert (ir_iter r) (set (map fst d))
        \<union> ir_iter ` {r \<in> set rows. ir_success r \<and> ir_duration_ms r \<noteq> None}"
      using Cons.IH [of "append_at (ir_iter r) v d"] keys_append_at [of "ir_iter r" v d] by simp
    then show ?thesis using v by auto
  next
    case False
    then have "by_iteration (r # rows) d = by_iteration rows d" by auto
    then show ?thesis using Cons.IH [of d] False by auto
  qed
qed simp

definition rounded :: "client_result list \<Rightarrow> pyfloat list" where
  "rounded rs = map (\<lambda>r. Fin (py_round (the (cr_duration_ms r)) 6)) (successful_results rs)"

definition iterations_of :: "client_result list \<Rightarrow> nat list" where
  "iterations_of rs = sorted_list_of_set (cr_iteration ` set (successful_results rs))"

definition at_iteration :: "client_result list \<Rightarrow> nat \<Rightarrow> client_result list" where
  "at_iteration rs k = filter (\<lambda>r. cr_iteration r = k) rs"

lemma bucket_results: "bucket (by_iteration (map row_of_result rs) []) (int k) = rounded (at_iteration rs k)"
proof -
  have "filter (\<lambda>r. ir_iter r = int k) (map row_of_result rs) = map row_of_result (at_iteration rs k)"
    by (simp add: filter_map at_iteration_def comp_def row_of_result_def)
  then show ?thesis using by_iteration_partition [of "map row_of_result rs" "int k"] by (simp add: successful_durations_results rounded_def)
qed

lemma timed_rows:
  "{r \<in> set (map row_of_result rs). ir_success r \<and> ir_duration_ms r \<noteq> None} = row_of_result ` set (successful_results rs)"
proof -
  have "ir_success (row_of_result r) = cr_success r" "(\<exists>y. ir_duration_ms (row_of_result r) = Some y) \<longleftrightarrow> (\<exists>y. cr_duration_ms r = Some y)" for r
    by (simp_all add: row_of_result_def)
  then show ?thesis by (simp add: successful_results_def) blast
qed

lemma iterations_results: "sort (map fst (by_iteration (map row_of_result rs) [])) = map int (iterations_of rs)"
proof -
  let ?ks = "map fst (by_iteration (map row_of_result rs) [])"
  have "set ?ks = int ` cr_iteration ` set (successful_results rs)"
    unfolding keys_by_iteration timed_rows by (simp add: image_image row_of_result_def)
  moreover have "distinct ?ks" using by_iteration_partition by blast
  moreover have "sorted (map int (iterations_of rs)) \<and> distinct (map int (iterations_of rs))
      \<and> set (map int (iterations_of rs)) = int ` cr_iteration ` set (successful_results rs)"
    by (simp add: iterations_of_def sorted_map distinct_map)
  ultimately show ?thesis by (intro sorted_distinct_set_unique) simp_all
qed

lemma rounded_at_iteration: "k \<in> set (iterations_of rs) \<Longrightarrow> rounded (at_iteration rs k) \<noteq> []"
  by (auto simp: iterations_of_def rounded_def at_iteration_def successful_results_def filter_empty_conv)

text \<open>Pictures one after the other.\<close>

fun draws :: "(picture \<Rightarrow> unit res) \<Rightarrow> picture list \<Rightarrow> (pictures, unit) eff" where
  "draws paint [] = ret ()"
| "draws paint (pc # pcs) = andthen (save_picture paint pc) (\<lambda>_. draws paint pcs)"

lemma draws_append: "andthen (draws paint a) (\<lambda>_. draws paint b) = draws paint (a @ b)"
proof (induction a)
  case (Cons pc a)
  have "andthen (draws paint (pc # a)) (\<lambda>_. draws paint b) = andthen (save_picture paint pc) (\<lambda>_. andthen (draws paint a) (\<lambda>_. draws paint b))"
    by (rule ext) (simp add: andthen_def split: prod.split sum.split)
  then show ?case by (simp add: Cons)
qed (simp add: andthen_def)

lemma draw_draws: "save_picture paint pc = draws paint [pc]"
  by (rule ext) (simp add: andthen_def split: prod.split sum.split)

lemma draws_result:
  "\<exists>k \<le> length pcs. (\<forall>i < k. paint (pcs ! i) = Inr ()) \<and> (k < length pcs \<longrightarrow> (\<exists>x. paint (pcs ! k) = Inl x))
    \<and> draws paint pcs ps = (if k = length pcs then Inr () else paint (pcs ! k), ps @ take k pcs)"
proof (induction pcs arbitrary: ps)
  case (Cons pc pcs)
  show ?case
  proof (cases "paint pc")
    case (Inl x)
    then show ?thesis by (intro exI [of _ 0]) (simp add: save_picture_def andthen_def)
  next
    case (Inr u)
    from Cons [of "ps @ [pc]"] obtain k where "k \<le> length pcs" "\<forall>i < k. paint (pcs ! i) = Inr ()"
      "k < length pcs \<longrightarrow> (\<exists>x. paint (pcs ! k) = Inl x)"
      "draws paint pcs (ps @ [pc]) = (if k = length pcs then Inr () else paint (pcs ! k), (ps @ [pc]) @ take k pcs)" by blast
    then show ?thesis using Inr by (intro exI [of _ "Suc k"]) (auto simp: save_picture_def andthen_def nth_Cons split: nat.split)
  qed
qed simp

lemma preview_test1_rows:
  "\<exists>pcs. (\<forall>paint. preview_test1 paint (map row_of_result rs) = draws paint pcs)
    \<and> map shown pcs = (if rounded rs = [] then [] else [(''test_1_graph.png'', [rounded rs, [mean (rounded rs)]])])"
proof (cases "rounded rs = []")
  case True
  then show ?thesis by (intro exI [of _ "[]"]) (simp add: preview_test1_def successful_durations_results rounded_def)
next
  case False
  then show ?thesis
    by (simp add: preview_test1_def successful_durations_results rounded_def [symmetric] draw_draws del: draws.simps)
       (rule exI, rule conjI, rule allI, rule refl, simp add: latency_picture_def shown_def)
qed

lemma preview_test2_rows:
  "\<exists>pcs. (\<forall>paint. preview_test2 paint (map row_of_result rs) = draws paint pcs)
    \<and> map shown pcs = (if rounded rs = [] then [] else [(''test_2_graph.png'', [rounded rs, [mean (rounded rs)]])])"
proof (cases "rounded rs = []")
  case True
  then show ?thesis by (intro exI [of _ "[]"]) (simp add: preview_test2_def successful_durations_results rounded_def)
next
  case False
  then show ?thesis
    by (simp add: preview_test2_def successful_durations_results rounded_def [symmetric] draw_draws del: draws.simps)
       (rule exI, rule conjI, rule allI, rule refl, simp add: latency_picture_def shown_def)
qed

lemma no_buckets: "by_iteration (map row_of_result rs) [] = [] \<longleftrightarrow> rounded rs = []"
proof -
  have "by_iteration (map row_of_result rs) [] = [] \<longleftrightarrow> set (map fst (by_iteration (map row_of_result rs) [])) = {}" by simp
  also have "\<dots> \<longleftrightarrow> set (successful_results rs) = {}"
    unfolding keys_by_iteration timed_rows by simp
  finally show ?thesis by (simp add: rounded_def)
qed

lemma f_max_list_safe: "vs \<noteq> [] \<Longrightarrow> f_max_list vs = Inr (safe_max vs)"
  by (cases vs) (simp_all add: safe_max_def)

lemma from_res_Inr_andthen: "andthen (from_res (Inr x)) f = f x"
  by (rule ext) (simp add: andthen_def)

lemma preview_test3_rows:
  "\<exists>pcs. (\<forall>paint. preview_test3 paint (map row_of_result rs) = draws paint pcs)
    \<and> map shown pcs = (if rounded rs = [] then []
      else [(''test_3_graph.png'', [map (\<lambda>k. mean (rounded (at_iteration rs k))) (iterations_of rs),
        map (\<lambda>k. safe_max (rounded (at_iteration rs k))) (iterations_of rs)])])"
proof (cases "rounded rs = []")
  case True
  then show ?thesis by (intro exI [of _ "[]"]) (simp add: preview_test3_def no_buckets)
next
  case False
  let ?d = "by_iteration (map row_of_result rs) []"
  have "map_res (\<lambda>i. f_max_list (bucket ?d i)) (map int (iterations_of rs)) = Inr (map (\<lambda>i. safe_max (bucket ?d i)) (map int (iterations_of rs)))"
    using rounded_at_iteration [of _ rs] by (intro map_res_total) (auto simp: bucket_results f_max_list_safe)
  then show ?thesis using False
    by (simp add: preview_test3_def Let_def iterations_results no_buckets from_res_Inr_andthen draw_draws del: draws.simps map_map)
       (rule exI, rule conjI, rule allI, rule refl, simp add: shown_def bucket_results)
qed

text \<open>The height of a protocol in the comparison of a test.\<close>

definition mean_shown :: "summary_record \<Rightarrow> pyfloat" where
  "mean_shown s = (if sr_n_success s = 0 then Fin 0 else ls_mean (sr_latency_ms s))"

lemma latency_mean_written: "latency_mean (Some (to_dict s)) = Inr (mean_shown s)"
  by (simp add: latency_mean_def to_dict_def latency_json_def json_true_def json_item_def json_positive_def json_float_def mean_shown_def)

lemma preview_comparison_rows:
  assumes "\<forall>t \<in> set LATENCY_TESTS. \<forall>p \<in> set PROTOS_ORDER. loaded t p = Some (JObj (to_dict (s t p)))"
  shows "\<exists>pc. (\<forall>paint. preview_comparison paint loaded = save_picture paint pc)
    \<and> shown pc = (''comparison_graph.png'', map (\<lambda>p. map (\<lambda>t. mean_shown (s t p)) LATENCY_TESTS) PROTOS_ORDER)"
proof -
  have means: "latency_means loaded p = Inr (map (\<lambda>t. mean_shown (s t p)) LATENCY_TESTS)" if "p \<in> set PROTOS_ORDER" for p
    unfolding latency_means_def using assms that by (intro map_res_total) (simp add: summary_of_def latency_mean_written)
  then have "map_res (\<lambda>(j, p). bind_res (latency_means loaded p) (\<lambda>ms. Inr (bar_group j p ms))) (List.enumerate 0 PROTOS_ORDER)
      = Inr (map (\<lambda>(j, p). bar_group j p (map (\<lambda>t. mean_shown (s t p)) LATENCY_TESTS)) (List.enumerate 0 PROTOS_ORDER))"
    by (intro map_res_total) (auto simp: in_set_enumerate_eq)
  then show ?thesis
    unfolding preview_comparison_def
    by (simp only: from_res_Inr_andthen) (rule exI, rule conjI, rule allI, rule refl, simp add: shown_def bar_group_def PROTOS_ORDER_def)
qed

definition value_of :: "summary_record \<Rightarrow> string \<Rightarrow> pyfloat" where
  "value_of s key = preview_value (Some (to_dict s)) key"

lemma value_of_written:
  assumes "sr_resources s = Some b"
  shows "value_of s ''peak_rss_mb'' = Fin (rb_peak_rss_mb b)"
    and "value_of s ''peak_cpu_pct'' = Fin (rb_peak_cpu_pct b)"
    and "value_of s ''energy_per_auth_mJ'' = rb_energy_per_auth_mJ b"
  using assms
  by (cases "rb_energy_per_auth_mJ b";
      simp add: value_of_def preview_value_def to_dict_def resource_json_def json_true_def json_item_def json_float_def f_inf_times_def)+

lemma preview_bars_rows:
  assumes "\<forall>p \<in> set PROTOS_ORDER. by_proto p = Some (JObj (to_dict (s p)))"
  shows "\<exists>pc. (\<forall>paint. preview_bars paint by_proto name key title ylabel = save_picture paint pc)
    \<and> shown pc = (name, [map (\<lambda>p. value_of (s p) key) PROTOS_ORDER])"
proof -
  have "map_res (\<lambda>p. bind_res (summary_of (by_proto p)) (\<lambda>s. Inr (preview_value s key))) PROTOS_ORDER
      = Inr (map (\<lambda>p. value_of (s p) key) PROTOS_ORDER)"
    using assms by (intro map_res_total) (simp add: summary_of_def value_of_def)
  then show ?thesis
    unfolding preview_bars_def
    by (simp only: from_res_Inr_andthen) (rule exI, rule conjI, rule allI, rule refl, simp add: shown_def)
qed

section \<open>The whole program\<close>

lemma previews_rows:
  assumes tree: "\<forall>t \<in> set ALL_RESULTS. \<forall>p \<in> set PROTOS_ORDER. rows t p = map row_of_result (results t p)
        \<and> loaded t p = Some (JObj (to_dict (summaries t p)))"
  shows "\<exists>pcs. (\<forall>paint. emit_matplotlib_previews (Some paint) (rows, loaded) = draws paint pcs) \<and> map shown pcs =
      (let d = (\<lambda>t. rounded (results t ''zkarche'')); it = results ''test3_highload'' ''zkarche'' in
      (if d ''test1_concurrent'' = [] then [] else [(''test_1_graph.png'', [d ''test1_concurrent'', [mean (d ''test1_concurrent'')]])])
      @ (if d ''test2_sequential'' = [] then [] else [(''test_2_graph.png'', [d ''test2_sequential'', [mean (d ''test2_sequential'')]])])
      @ (if d ''test3_highload'' = [] then [] else [(''test_3_graph.png'', [map (\<lambda>k. mean (rounded (at_iteration it k))) (iterations_of it),
          map (\<lambda>k. safe_max (rounded (at_iteration it k))) (iterations_of it)])])
      @ [(''comparison_graph.png'', map (\<lambda>p. map (\<lambda>t. mean_shown (summaries t p)) LATENCY_TESTS) PROTOS_ORDER),
         (''test_4_graph.png'', [map (\<lambda>p. value_of (summaries ''test4_memory'' p) ''peak_rss_mb'') PROTOS_ORDER]),
         (''test_5_graph.png'', [map (\<lambda>p. value_of (summaries ''test4_memory'' p) ''peak_cpu_pct'') PROTOS_ORDER]),
         (''test_6_graph.png'', [map (\<lambda>p. value_of (summaries ''test4_memory'' p) ''energy_per_auth_mJ'') PROTOS_ORDER])])"
proof -
  have rows: "rows t ''zkarche'' = map row_of_result (results t ''zkarche'')" if "t \<in> set LATENCY_TESTS" for t
    using tree that by (simp add: PROTOS_ORDER_def ALL_RESULTS_def)
  have lat: "\<forall>t \<in> set LATENCY_TESTS. \<forall>p \<in> set PROTOS_ORDER. loaded t p = Some (JObj (to_dict (summaries t p)))"
    and res: "\<forall>p \<in> set PROTOS_ORDER. loaded ''test4_memory'' p = Some (JObj (to_dict (summaries ''test4_memory'' p)))"
    using tree by (simp_all add: ALL_RESULTS_def)
  note bars = preview_bars_rows [OF res]
  obtain p1 p2 p3 c b4 b5 b6 where
    draws: "\<And>paint. preview_test1 paint (map row_of_result (results ''test1_concurrent'' ''zkarche'')) = draws paint p1"
      "\<And>paint. preview_test2 paint (map row_of_result (results ''test2_sequential'' ''zkarche'')) = draws paint p2"
      "\<And>paint. preview_test3 paint (map row_of_result (results ''test3_highload'' ''zkarche'')) = draws paint p3"
      "\<And>paint. preview_comparison paint loaded = save_picture paint c"
      "\<And>paint. preview_bars paint (loaded ''test4_memory'') ''test_4_graph.png'' ''peak_rss_mb'' ''Peak RSS during authentication'' ''Memory (MB)'' = save_picture paint b4"
      "\<And>paint. preview_bars paint (loaded ''test4_memory'') ''test_5_graph.png'' ''peak_cpu_pct'' ''Peak CPU during authentication'' ''CPU (%)'' = save_picture paint b5"
      "\<And>paint. preview_bars paint (loaded ''test4_memory'') ''test_6_graph.png'' ''energy_per_auth_mJ'' ''Per-authentication energy'' ''Energy (mJ)'' = save_picture paint b6"
    and shown: "map shown p1 = (let d = rounded (results ''test1_concurrent'' ''zkarche'') in if d = [] then [] else [(''test_1_graph.png'', [d, [mean d]])])"
      "map shown p2 = (let d = rounded (results ''test2_sequential'' ''zkarche'') in if d = [] then [] else [(''test_2_graph.png'', [d, [mean d]])])"
      "map shown p3 = (let it = results ''test3_highload'' ''zkarche'' in if rounded it = [] then []
        else [(''test_3_graph.png'', [map (\<lambda>k. mean (rounded (at_iteration it k))) (iterations_of it),
          map (\<lambda>k. safe_max (rounded (at_iteration it k))) (iterations_of it)])])"
      "shown c = (''comparison_graph.png'', map (\<lambda>p. map (\<lambda>t. mean_shown (summaries t p)) LATENCY_TESTS) PROTOS_ORDER)"
      "shown b4 = (''test_4_graph.png'', [map (\<lambda>p. value_of (summaries ''test4_memory'' p) ''peak_rss_mb'') PROTOS_ORDER])"
      "shown b5 = (''test_5_graph.png'', [map (\<lambda>p. value_of (summaries ''test4_memory'' p) ''peak_cpu_pct'') PROTOS_ORDER])"
      "shown b6 = (''test_6_graph.png'', [map (\<lambda>p. value_of (summaries ''test4_memory'' p) ''energy_per_auth_mJ'') PROTOS_ORDER])"
    using preview_test1_rows [of "results ''test1_concurrent'' ''zkarche''"] preview_test2_rows [of "results ''test2_sequential'' ''zkarche''"]
      preview_test3_rows [of "results ''test3_highload'' ''zkarche''"] preview_comparison_rows [OF lat]
      bars [of "''test_4_graph.png''" "''peak_rss_mb''" "''Peak RSS during authentication''" "''Memory (MB)''"]
      bars [of "''test_5_graph.png''" "''peak_cpu_pct''" "''Peak CPU during authentication''" "''CPU (%)''"]
      bars [of "''test_6_graph.png''" "''energy_per_auth_mJ''" "''Per-authentication energy''" "''Energy (mJ)''"]
    unfolding Let_def by blast
  have "emit_matplotlib_previews (Some paint) (rows, loaded) = draws paint (p1 @ p2 @ p3 @ [c, b4, b5, b6])" for paint
    by (simp add: emit_matplotlib_previews_def rows LATENCY_TESTS_def draws draw_draws draws_append del: draws.simps)
  moreover note shown
  ultimately show ?thesis by (intro exI [of _ "p1 @ p2 @ p3 @ [c, b4, b5, b6]"]) (simp add: Let_def)
qed

text \<open>C15: From a tree of results that runs wrote, the program writes the same files with and without the previews. Without
  \<open>matplotlib\<close> it saves no picture. With it there is a fixed sequence of pictures: of tests 1 to 3 if
  ZK-ARCHE had a success in them, with its durations and their mean or the mean and maximum of every iteration; of the mean
  latencies of the summaries, zero without a success; and of the three resources. It saves them in this order up to the first
  that cannot be drawn, and raises only what drawing it raises.\<close>

theorem previews_show_results:
  assumes tree: "written_tree files rdir fr results summaries"
    and blocks: "\<forall>p \<in> set PROTOS_ORDER. sr_resources (summaries ''test4_memory'' p) = Some (block p)"
  shows "let d = (\<lambda>t. rounded (results t ''zkarche'')); it = results ''test3_highload'' ''zkarche'' in
    \<exists>w pcs. plot_main str_of files [rdir] out [] = (Inr 0, w)
      \<and> plot_program None str_of files [rdir] out ([], []) = (Inr 0, w, [])
      \<and> (\<forall>paint. \<exists>k \<le> length pcs. (\<forall>i < k. paint (pcs ! i) = Inr ()) \<and> (k < length pcs \<longrightarrow> (\<exists>x. paint (pcs ! k) = Inl x))
          \<and> plot_program (Some paint) str_of files [rdir] out ([], [])
              = (if k = length pcs then Inr 0 else bind_res (paint (pcs ! k)) (\<lambda>_. Inr 0), w, take k pcs))
      \<and> map shown pcs =
          (if d ''test1_concurrent'' = [] then [] else [(''test_1_graph.png'', [d ''test1_concurrent'', [mean (d ''test1_concurrent'')]])])
          @ (if d ''test2_sequential'' = [] then [] else [(''test_2_graph.png'', [d ''test2_sequential'', [mean (d ''test2_sequential'')]])])
          @ (if d ''test3_highload'' = [] then [] else [(''test_3_graph.png'', [map (\<lambda>k. mean (rounded (at_iteration it k))) (iterations_of it),
              map (\<lambda>k. safe_max (rounded (at_iteration it k))) (iterations_of it)])])
          @ [(''comparison_graph.png'', map (\<lambda>p. map (\<lambda>t. mean_shown (summaries t p)) LATENCY_TESTS) PROTOS_ORDER),
             (''test_4_graph.png'', [map (\<lambda>p. Fin (rb_peak_rss_mb (block p))) PROTOS_ORDER]),
             (''test_5_graph.png'', [map (\<lambda>p. Fin (rb_peak_cpu_pct (block p))) PROTOS_ORDER]),
             (''test_6_graph.png'', [map (\<lambda>p. rb_energy_per_auth_mJ (block p)) PROTOS_ORDER])]"
proof -
  obtain rows loaded where c: "collect files rdir = Inr (rows, loaded)"
    "\<forall>t \<in> set ALL_RESULTS. \<forall>p \<in> set PROTOS_ORDER. rows t p = map row_of_result (results t p) \<and> loaded t p = Some (JObj (to_dict (summaries t p)))"
    using collect_written [OF tree] by blast
  obtain w where w: "plot_main str_of files [rdir] out [] = (Inr 0, w)"
    using collected_figures [OF c blocks, of str_of out] unfolding Let_def by blast
  obtain label where "detect_device_label str_of loaded = Inr label" using detect_device_label_total c(2) by blast
  then have first: "\<exists>order. collect_multi str_of files [rdir] = Inr ((rows, loaded), order)"
    using c(1) by (simp add: collect_multi_def load_tree_def)
  obtain pcs where pcs: "\<And>paint. emit_matplotlib_previews (Some paint) (rows, loaded) = draws paint pcs" and sh: "map shown pcs =
      (let d = (\<lambda>t. rounded (results t ''zkarche'')); it = results ''test3_highload'' ''zkarche'' in
      (if d ''test1_concurrent'' = [] then [] else [(''test_1_graph.png'', [d ''test1_concurrent'', [mean (d ''test1_concurrent'')]])])
      @ (if d ''test2_sequential'' = [] then [] else [(''test_2_graph.png'', [d ''test2_sequential'', [mean (d ''test2_sequential'')]])])
      @ (if d ''test3_highload'' = [] then [] else [(''test_3_graph.png'', [map (\<lambda>k. mean (rounded (at_iteration it k))) (iterations_of it),
          map (\<lambda>k. safe_max (rounded (at_iteration it k))) (iterations_of it)])])
      @ [(''comparison_graph.png'', map (\<lambda>p. map (\<lambda>t. mean_shown (summaries t p)) LATENCY_TESTS) PROTOS_ORDER),
         (''test_4_graph.png'', [map (\<lambda>p. value_of (summaries ''test4_memory'' p) ''peak_rss_mb'') PROTOS_ORDER]),
         (''test_5_graph.png'', [map (\<lambda>p. value_of (summaries ''test4_memory'' p) ''peak_cpu_pct'') PROTOS_ORDER]),
         (''test_6_graph.png'', [map (\<lambda>p. value_of (summaries ''test4_memory'' p) ''energy_per_auth_mJ'') PROTOS_ORDER])])"
    using previews_rows [OF c(2)] by blast
  have heights: "map (\<lambda>p. value_of (summaries ''test4_memory'' p) ''peak_rss_mb'') PROTOS_ORDER = map (\<lambda>p. Fin (rb_peak_rss_mb (block p))) PROTOS_ORDER"
    "map (\<lambda>p. value_of (summaries ''test4_memory'' p) ''peak_cpu_pct'') PROTOS_ORDER = map (\<lambda>p. Fin (rb_peak_cpu_pct (block p))) PROTOS_ORDER"
    "map (\<lambda>p. value_of (summaries ''test4_memory'' p) ''energy_per_auth_mJ'') PROTOS_ORDER = map (\<lambda>p. rb_energy_per_auth_mJ (block p)) PROTOS_ORDER"
    using blocks by (simp_all add: value_of_written)
  have none: "plot_program None str_of files [rdir] out ([], []) = (Inr 0, w, [])"
    using first by (auto simp: plot_program_def andthen_def on_tex_def on_png_def w emit_matplotlib_previews_def)
  have some: "plot_program (Some paint) str_of files [rdir] out ([], [])
      = (case draws paint pcs [] of (r, ps) \<Rightarrow> (bind_res r (\<lambda>_. Inr 0), w, ps))" for paint
    using first by (auto simp: plot_program_def andthen_def on_tex_def on_png_def w pcs split: prod.split sum.split)
  have "\<exists>k \<le> length pcs. (\<forall>i < k. paint (pcs ! i) = Inr ()) \<and> (k < length pcs \<longrightarrow> (\<exists>x. paint (pcs ! k) = Inl x))
          \<and> plot_program (Some paint) str_of files [rdir] out ([], [])
              = (if k = length pcs then Inr 0 else bind_res (paint (pcs ! k)) (\<lambda>_. Inr 0), w, take k pcs)" for paint
    using draws_result [of pcs paint "[]"] unfolding some by fastforce
  then show ?thesis using w none sh unfolding Let_def heights by blast
qed

text \<open>A disk that is full after the first picture.\<close>

definition demo_paint :: "picture \<Rightarrow> unit res" where
  "demo_paint pc = (if pc_name pc = ''test_1_graph.png'' then Inr () else Inl (RuntimeError ''No space left on device''))"

lemma previews_show_results_witness:
  "\<exists>w ps. plot_main (\<lambda>v. []) demo_tree [''results''] ''out'' [] = (Inr 0, w)
    \<and> plot_program (Some demo_paint) (\<lambda>v. []) demo_tree [''results''] ''out'' ([], []) = (Inl (RuntimeError ''No space left on device''), w, ps)
    \<and> map pc_name ps = [''test_1_graph.png'']"
proof -
  let ?rs = "[demo_result True, demo_result False]"
  have tree: "written_tree demo_tree ''results'' (show_fixed 6) (\<lambda>t p. ?rs) (\<lambda>t p. demo_full)"
    unfolding written_tree_def
    using demo_full_writable by (simp add: demo_tree_def raw_file_def summary_file_def times_nonneg_def demo_result_def del: writable.simps)
  have blocks: "\<forall>p \<in> set PROTOS_ORDER. sr_resources demo_full = Some demo_block" by (simp add: demo_full_def)
  have some: "rounded ?rs \<noteq> []" by (simp add: rounded_def successful_results_def demo_result_def)
  note claim = previews_show_results [OF tree blocks, of "\<lambda>v. []" "''out''", unfolded Let_def if_not_P [OF some]]
  obtain w pcs where w: "plot_main (\<lambda>v. []) demo_tree [''results''] ''out'' [] = (Inr 0, w)"
    and run: "\<forall>paint. \<exists>k \<le> length pcs. (\<forall>i < k. paint (pcs ! i) = Inr ()) \<and> (k < length pcs \<longrightarrow> (\<exists>x. paint (pcs ! k) = Inl x))
          \<and> plot_program (Some paint) (\<lambda>v. []) demo_tree [''results''] ''out'' ([], [])
              = (if k = length pcs then Inr 0 else bind_res (paint (pcs ! k)) (\<lambda>_. Inr 0), w, take k pcs)"
    and names: "map (fst \<circ> shown) pcs = [''test_1_graph.png'', ''test_2_graph.png'', ''test_3_graph.png'', ''comparison_graph.png'',
      ''test_4_graph.png'', ''test_5_graph.png'', ''test_6_graph.png'']"
    using claim by (elim exE conjE) (drule arg_cong [where f = "map fst"], simp only: map_map list.map append.simps fst_conv)
  from names have "map pc_name pcs = [''test_1_graph.png'', ''test_2_graph.png'', ''test_3_graph.png'', ''comparison_graph.png'',
      ''test_4_graph.png'', ''test_5_graph.png'', ''test_6_graph.png'']" by (simp add: shown_def comp_def)
  then obtain a b more where pcs: "pcs = a # b # more" "pc_name a = ''test_1_graph.png''" "pc_name b = ''test_2_graph.png''"
    by (auto simp: map_eq_Cons_conv)
  obtain k where k: "k \<le> length pcs" "\<forall>i < k. demo_paint (pcs ! i) = Inr ()" "k < length pcs \<longrightarrow> (\<exists>x. demo_paint (pcs ! k) = Inl x)"
    and r: "plot_program (Some demo_paint) (\<lambda>v. []) demo_tree [''results''] ''out'' ([], [])
              = (if k = length pcs then Inr 0 else bind_res (demo_paint (pcs ! k)) (\<lambda>_. Inr 0), w, take k pcs)" using run by blast
  have "k \<noteq> 0" using k(3) pcs by (intro notI) (simp add: demo_paint_def)
  moreover have "\<not> 1 < k" using k(2) pcs by (auto simp: demo_paint_def)
  ultimately have "k = 1" by linarith
  then show ?thesis using w r pcs by (auto simp: demo_paint_def)
qed

end
