(* ===== verification/DosHarness.thy ===== *)
theory DosHarness
  imports SuiteCorrect
begin

text \<open>
  The older resilience harness, \<open>experiments/security/archive/dos_resilience_test.py\<close>. Its functions that connect
  do what those of the suite do, and are not repeated. Shown here: without a recovery command the two harnesses
  open the same connections and write the same rows up to the measured time, and their verdicts differ exactly where
  the server was not reachable before the traffic and is reachable after it.
\<close>

section \<open>The harness\<close>

record archive_observed =
  ao_started :: bool
  ao_random :: int
  ao_oversized :: int
  ao_finished :: bool
  ao_elapsed :: real

text \<open>The arguments are those of the suite that the harness has too. The clock starts after the first probe.\<close>

definition archive_traffic :: "suite_env \<Rightarrow> suite_args \<Rightarrow> (suite, archive_observed) eff" where
  "archive_traffic e a =
     andthen (reachability_probe e) (\<lambda>started.
     andthen (look (se_clock e)) (\<lambda>start.
     andthen (send_random_bytes e (sa_random a)) (\<lambda>random.
     andthen (send_oversized_frames e (sa_oversized a)) (\<lambda>oversized.
     andthen (hold_connections e (sa_idle a)) (\<lambda>_.
     andthen (hold_connections e (sa_slow a)) (\<lambda>_.
     andthen (look (se_clock e)) (\<lambda>stop.
     andthen (reachability_probe e) (\<lambda>finished.
       ret \<lparr>ao_started = started, ao_random = random, ao_oversized = oversized, ao_finished = finished, ao_elapsed = stop - start\<rparr>))))))))"

definition archive_rows :: "suite_args \<Rightarrow> archive_observed \<Rightarrow> string list list" where
  "archive_rows a x =
     [[''initial_reachability'', bit_text (ao_started x), ''1 means TCP port accepted connection''],
      [''random_bytes'', show_int (ao_random x), ''failures out of '' @ show_int (sa_random a)],
      [''oversized_frame'', show_int (ao_oversized x), ''failures out of '' @ show_int (sa_oversized a)],
      [''final_reachability'', bit_text (ao_finished x), ''1 means server remained reachable''],
      [''elapsed_ms'', show_fixed 3 (ao_elapsed x * 1000), ''total DoS harness wall time'']]"

text \<open>\<open>args.output or ...\<close>: the empty path counts as none.\<close>

definition archive_output :: "suite_args \<Rightarrow> string" where
  "archive_output a = (case sa_output a of
       Some f \<Rightarrow> if f = [] then sa_protocol a @ ''_dos_resilience_results.csv'' else f
     | None \<Rightarrow> sa_protocol a @ ''_dos_resilience_results.csv'')"

definition archive_main :: "suite_env \<Rightarrow> suite_args \<Rightarrow> (suite, int) eff" where
  "archive_main e a =
     andthen (archive_traffic e a) (\<lambda>x.
     andthen (put_file e (archive_output a) (csv_write (DOS_HEADER # archive_rows a x))) (\<lambda>_.
       ret (if ao_finished x then 0 else 2)))"

section \<open>The two harnesses\<close>

lemma archive_traffic_result:
  fixes s :: suite and a :: suite_args
  defines "k \<equiv> su_conns s"
  defines "n \<equiv> k + 1 + stress_conns a"
  shows "\<exists>x. archive_traffic e a s = (Inr x, s\<lparr>su_conns := n + 1\<rparr>)
    \<and> ao_started x = (se_connect e k \<noteq> ConnRefused)
    \<and> ao_random x = int (failed_sends e (k + 1) (sa_random a))
    \<and> ao_oversized x = int (failed_sends e (k + 1 + nat (sa_random a)) (sa_oversized a))
    \<and> ao_finished x = (se_connect e n \<noteq> ConnRefused)"
proof -
  have n: "Suc (k + nat (sa_random a) + nat (sa_oversized a) + nat (sa_idle a) + nat (sa_slow a)) = n"
    by (simp add: n_def k_def stress_conns_def)
  show ?thesis
    by (simp add: archive_traffic_def andthen_def look_def reachability_probe_result send_results hold_connections_result n
        k_def [symmetric])
qed

definition no_recovery :: "suite_args \<Rightarrow> bool" where
  "no_recovery a \<longleftrightarrow> sa_recovery a = None \<or> sa_recovery a = Some []"

lemma recovery_skipped:
  assumes "no_recovery a"
  shows "run_recovery_command e (sa_recovery a) label = ret ([label, ''SKIP'', ''no --recovery-cmd provided''], True)"
    and "recovery_ok e (sa_recovery a) s"
  using assms by (auto simp: no_recovery_def run_recovery_command_def recovery_ok_def)

lemma dos_traffic_skips:
  assumes "no_recovery a" and "dos_traffic e a s = (Inr x, s')"
  shows "do_before x = ([''valid_auth_recovery_before'', ''SKIP'', ''no --recovery-cmd provided''], True)
    \<and> do_after x = ([''valid_auth_recovery_after'', ''SKIP'', ''no --recovery-cmd provided''], True)"
  using assms(2) unfolding dos_traffic_def recovery_skipped(1) [OF assms(1)] by (auto simp: andthen_Inr_iff look_def)

text \<open>C29: Run from the same state with the same arguments and no recovery command, the harness of the suite and the older
  one open the same connections. The older one writes the rows of the suite's table except the two of the
  recovery command and up to the measured time. If the suite's harness succeeds, so does the older one; the older one
  alone succeeds exactly if the first connection is refused and the last one is not.\<close>

theorem harnesses_agree:
  assumes "no_recovery a" and "run_dos e a s = (Inr rc, s1)" and "archive_main e a s = (Inr old_rc, s2)"
  shows "su_conns s1 = su_conns s2
    \<and> (\<exists>x y. su_files s2 (archive_output a) = Some (csv_write (DOS_HEADER # archive_rows a y))
        \<and> (dos_output (se_root e (sa_project a)) a \<noteq> path_join (se_root e (sa_project a)) (sa_log_dir a) @ ''/'' @ DOS_LOG \<longrightarrow>
            su_files s1 (dos_output (se_root e (sa_project a)) a) = Some (csv_write (DOS_HEADER # dos_rows a x)))
        \<and> butlast (archive_rows a y) = filter (\<lambda>r. r ! 1 \<noteq> ''SKIP'') (butlast (dos_rows a x)))
    \<and> (rc = 0 \<longrightarrow> old_rc = 0)
    \<and> (rc \<noteq> 0 \<and> old_rc = 0 \<longleftrightarrow> se_connect e (su_conns s) = ConnRefused
        \<and> se_connect e (su_conns s + 1 + stress_conns a) \<noteq> ConnRefused)"
proof -
  let ?k = "su_conns s" and ?n = "su_conns s + 1 + stress_conns a"
  obtain x where t: "dos_traffic e a s = (Inr x, s\<lparr>su_conns := ?n + 1\<rparr>)"
    and x: "do_started x = (se_connect e ?k \<noteq> ConnRefused)" "do_random x = int (failed_sends e (?k + 1) (sa_random a))"
      "do_oversized x = int (failed_sends e (?k + 1 + nat (sa_random a)) (sa_oversized a))"
      "do_finished x = (se_connect e ?n \<noteq> ConnRefused)"
    using dos_traffic_result [of e a s] by blast
  obtain y where u: "archive_traffic e a s = (Inr y, s\<lparr>su_conns := ?n + 1\<rparr>)"
    and y: "ao_started y = (se_connect e ?k \<noteq> ConnRefused)" "ao_random y = int (failed_sends e (?k + 1) (sa_random a))"
      "ao_oversized y = int (failed_sends e (?k + 1 + nat (sa_random a)) (sa_oversized a))"
      "ao_finished y = (se_connect e ?n \<noteq> ConnRefused)"
    using archive_traffic_result [of e a s] by blast
  note skip = dos_traffic_skips [OF assms(1) t]
  have s1: "rc = dos_rc x \<and> su_conns s1 = ?n + 1
      \<and> (dos_output (se_root e (sa_project a)) a \<noteq> path_join (se_root e (sa_project a)) (sa_log_dir a) @ ''/'' @ DOS_LOG \<longrightarrow>
          su_files s1 (dos_output (se_root e (sa_project a)) a) = Some (csv_write (DOS_HEADER # dos_rows a x)))"
    using assms(2) unfolding run_dos_def Let_def
    by (auto simp: andthen_Inr_iff t make_dir_def look_def put_file_def split: option.splits)
  have s2: "old_rc = (if ao_finished y then 0 else 2) \<and> su_conns s2 = ?n + 1
      \<and> su_files s2 (archive_output a) = Some (csv_write (DOS_HEADER # archive_rows a y))"
    using assms(3) by (auto simp: archive_main_def andthen_Inr_iff u put_file_def split: option.splits)
  have plain: "show_int i \<noteq> ''SKIP''" "bit_text b \<noteq> ''SKIP''" for i b
  proof -
    show "show_int i \<noteq> ''SKIP''"
    proof
      assume "show_int i = ''SKIP''"
      then have "CHR ''S'' \<in> set (show_int i)" by simp
      moreover have "is_digit c \<or> c = CHR ''-''" if "c \<in> set (show_int i)" for c
        using that digits_show_nat by (auto simp: show_int_def split: if_splits)
      ultimately have "is_digit (CHR ''S'') \<or> CHR ''S'' = CHR ''-''" by blast
      then show False by (simp add: is_digit_def)
    qed
  qed (simp add: bit_text_def)
  have "butlast (archive_rows a y) = filter (\<lambda>r. r ! 1 \<noteq> ''SKIP'') (butlast (dos_rows a x))"
    by (simp add: archive_rows_def dos_rows_def skip plain x y)
  then show ?thesis using s1 s2 skip by (auto simp: dos_rc_def x y)
qed

text \<open>A server that comes up during the test.\<close>

definition late_server :: suite_env where
  "late_server = demo_suite\<lparr>se_connect := (\<lambda>i. if i = 0 then ConnRefused else Served)\<rparr>"

lemma harnesses_agree_witness:
  "\<exists>rc s1 s2. run_dos late_server default_suite_args demo_state = (Inr rc, s1) \<and> rc \<noteq> 0
    \<and> archive_main late_server default_suite_args demo_state = (Inr 0, s2) \<and> su_conns s1 = su_conns s2"
proof -
  have none: "no_recovery default_suite_args" by (simp add: no_recovery_def default_suite_args_def)
  obtain x where "dos_traffic late_server default_suite_args demo_state = (Inr x, demo_state\<lparr>su_conns := su_conns demo_state + 1
      + stress_conns default_suite_args + 1\<rparr>)" using dos_traffic_result by blast
  then obtain rc s1 where m: "run_dos late_server default_suite_args demo_state = (Inr rc, s1)"
    by (simp add: run_dos_def Let_def andthen_def look_def make_dir_def put_file_def late_server_def demo_suite_def)
  obtain y where "archive_traffic late_server default_suite_args demo_state = (Inr y, demo_state\<lparr>su_conns := su_conns demo_state + 1
      + stress_conns default_suite_args + 1\<rparr>)" using archive_traffic_result by blast
  then obtain old_rc s2 where old: "archive_main late_server default_suite_args demo_state = (Inr old_rc, s2)"
    by (simp add: archive_main_def andthen_def put_file_def late_server_def demo_suite_def)
  have "se_connect late_server (su_conns demo_state) = ConnRefused"
    "se_connect late_server (su_conns demo_state + 1 + stress_conns default_suite_args) \<noteq> ConnRefused"
    by (simp_all add: late_server_def demo_state_def)
  with harnesses_agree [OF none m old] m old show ?thesis by blast
qed

end
