(* ===== verification/Calibrate.thy ===== *)
theory Calibrate
  imports Config Json
begin

text \<open>
  The calibration of the power profile, \<open>benchmarks/tests/calibrate_power.py\<close>: an idle phase and a phase with a
  busy process per core, each measured by a live meter if there is one, and the printed entry for the table of device
  profiles. What the meter reads in a phase is a parameter; the state is the busy processes and the lines that \<open>main\<close>
  prints, in their order. The countdown that a phase prints while it lasts is not kept. Shown here: no busy process is
  left, and everything that \<open>main\<close> prints.
\<close>

section \<open>State and parameters\<close>

record calib =
  ca_next :: nat
  ca_burning :: "nat list"
  ca_out :: "string list"

record calib_env =
  ce_profile :: power_profile
  ce_hostname :: string
  ce_cpus :: "nat option"
  ce_pmic :: bool
  ce_hwmon :: "hwmon_meter option res"
  ce_powers :: "string \<Rightarrow> pyfloat res list"
  ce_t0 :: "string \<Rightarrow> real"
  ce_t1 :: "string \<Rightarrow> real"

section \<open>Busy processes\<close>

fun spawn_burners :: "nat \<Rightarrow> (calib, nat list) eff" where
  "spawn_burners 0 = ret []"
| "spawn_burners (Suc n) =
     andthen (\<lambda>s. (Inr (ca_next s), s\<lparr>ca_next := Suc (ca_next s), ca_burning := ca_burning s @ [ca_next s]\<rparr>)) (\<lambda>p.
     andthen (spawn_burners n) (\<lambda>ps. ret (p # ps)))"

text \<open>A busy process does not catch \<open>SIGTERM\<close>.\<close>

definition stop_burners :: "nat list \<Rightarrow> (calib, unit) eff" where
  "stop_burners procs = modify (\<lambda>s. s\<lparr>ca_burning := filter (\<lambda>p. p \<notin> set procs) (ca_burning s)\<rparr>)"

text \<open>\<open>os.cpu_count() or 4\<close>.\<close>

definition cpus_or_4 :: "calib_env \<Rightarrow> nat" where
  "cpus_or_4 e = (case ce_cpus e of None \<Rightarrow> 4 | Some n \<Rightarrow> if n = 0 then 4 else n)"

section \<open>The phases\<close>

definition live_meter :: "calib_env \<Rightarrow> power_meter option res" where
  "live_meter e = (if ce_pmic e then Inr (Some VcgencmdPmicMeter) else bind_res (ce_hwmon e) (\<lambda>m. Inr (map_option HwmonInaMeter m)))"

definition measure_phase :: "calib_env \<Rightarrow> string \<Rightarrow> bool \<Rightarrow> (calib, energy_result option) eff" where
  "measure_phase e label burn =
     andthen (from_res (live_meter e)) (\<lambda>meter.
     andthen (if burn then spawn_burners (cpus_or_4 e) else ret []) (\<lambda>procs.
     andthen (stop_burners procs) (\<lambda>_. case meter of
         None \<Rightarrow> ret None
       | Some m \<Rightarrow> (case power_session (ce_t0 e label) (ce_t1 e label) (ce_powers e label) (new_power_sampler (method_name m)) of
             (Inl x, s) \<Rightarrow> raise x
           | (Inr _, s) \<Rightarrow> andthen (from_res (power_summary (ce_t1 e label) (ce_t0 e label) 1 s)) (\<lambda>r. ret (Some r))))))"

section \<open>The suggestion\<close>

definition quoted :: "string \<Rightarrow> string" where
  "quoted s = DQUOTE # s @ [DQUOTE]"

definition entry_line :: "string \<Rightarrow> string \<Rightarrow> string \<Rightarrow> string \<Rightarrow> nat \<Rightarrow> string" where
  "entry_line key label idle load cpus =
     ''    '' @ quoted key @ '': DevicePowerProfile('' @ quoted label @ '', idle_w='' @ idle @ '', max_w='' @ load
     @ '', cpu_cores='' @ show_nat cpus @ ''),''"

definition profile_key :: "string \<Rightarrow> string" where
  "profile_key label = replace_char (CHR '' '') ''_'' (lower label)"

definition plain_key :: "string \<Rightarrow> string" where
  "plain_key label = replace_char (CHR '')'') [] (replace_char (CHR ''('') [] (profile_key label))"

definition measured_line :: "string \<Rightarrow> energy_result \<Rightarrow> string" where
  "measured_line label r = ''  '' @ label @ '': mean = '' @ format_fixed 2 (mean_power_w r) @ '' W (peak ''
     @ format_fixed 2 (peak_power_w r) @ '' W)''"

definition put_lines :: "string list \<Rightarrow> (calib, unit) eff" where
  "put_lines ls = modify (\<lambda>s. s\<lparr>ca_out := ca_out s @ ls\<rparr>)"

text \<open>The lines \<open>main\<close> prints before the phases; a missing number of cores is printed as \<open>None\<close>.\<close>

definition host_lines :: "calib_env \<Rightarrow> string list" where
  "host_lines e =
     [''[calibrate] host: '' @ ce_hostname e @ '', detected: '' @ profile_name (ce_profile e),
      ''[calibrate] CPU cores: '' @ (case ce_cpus e of None \<Rightarrow> ''None'' | Some n \<Rightarrow> show_nat n), []]"

definition no_meter_lines :: "string list" where
  "no_meter_lines =
     [''[calibrate] no live power meter detected.'', [],
      ''Without a meter we can'' @ [CHR 0x27] @ ''t compute idle/max watts on-board. Please'',
      ''watch a wall-plug power meter during each phase and read off the'',
      ''steady-state value. Then update `_DEVICE_PROFILES` in'',
      ''`benchmarks/lib/config.py`:'', []]"

definition measured_lines :: "energy_result \<Rightarrow> energy_result \<Rightarrow> string list" where
  "measured_lines idle load =
     [''[calibrate] live measurement ('' @ er_method idle @ ''):'', measured_line ''idle'' idle, measured_line ''load'' load, [],
      ''Suggested entry for `_DEVICE_PROFILES` in `benchmarks/lib/config.py`:'', []]"

text \<open>The range in the last line is written with an en dash, of three bytes.\<close>

definition wall_meter_lines :: "string list" where
  "wall_meter_lines =
     [[], ''If you also have a wall-plug meter, prefer those numbers since they'',
      ''include PSU efficiency loss; the on-board PMIC reports SoC consumption'',
      ''only (typically 5'' @ [CHR 0xE2, CHR 0x80, CHR 0x93] @ ''10% lower than wall power).'']"

text \<open>\<open>args.device or profile.name\<close>.\<close>

definition device_label :: "calib_env \<Rightarrow> string option \<Rightarrow> string" where
  "device_label e device = (case device of
       Some d \<Rightarrow> if d = [] then profile_name (ce_profile e) else d
     | None \<Rightarrow> profile_name (ce_profile e))"

definition calibrate_main :: "calib_env \<Rightarrow> string option \<Rightarrow> (calib, int) eff" where
  "calibrate_main e device =
     (let label = device_label e device in
      andthen (put_lines (host_lines e)) (\<lambda>_.
      andthen (measure_phase e ''idle'' False) (\<lambda>idle.
      andthen (put_lines [[]]) (\<lambda>_.
      andthen (measure_phase e ''full load'' True) (\<lambda>load.
      andthen (put_lines [[]]) (\<lambda>_. case (idle, load) of
          (Some i, Some l) \<Rightarrow> andthen (put_lines (measured_lines i l
            @ [entry_line (plain_key label) label (format_fixed 2 (mean_power_w i)) (format_fixed 2 (mean_power_w l)) (cpus_or_4 e)]
            @ wall_meter_lines)) (\<lambda>_. ret 0)
        | _ \<Rightarrow> andthen (put_lines (no_meter_lines
            @ [entry_line (profile_key label) label ''<P_idle>'' ''<P_max>'' (cpus_or_4 e)])) (\<lambda>_. ret 0)))))))"

section \<open>Properties\<close>

lemma spawn_burners_result:
  "spawn_burners n s = (Inr [ca_next s..<ca_next s + n],
     s\<lparr>ca_next := ca_next s + n, ca_burning := ca_burning s @ [ca_next s..<ca_next s + n]\<rparr>)"
proof (induction n arbitrary: s)
  case (Suc n)
  then show ?case by (simp add: andthen_def upt_conv_Cons del: upt_Suc)
qed simp

text \<open>The result of a phase that ends.\<close>

definition phase_result :: "calib_env \<Rightarrow> string \<Rightarrow> energy_result option \<Rightarrow> bool" where
  "phase_result e label r = (case r of None \<Rightarrow> live_meter e = Inr None
     | Some en \<Rightarrow> \<exists>m q st. live_meter e = Inr (Some m)
         \<and> power_session (ce_t0 e label) (ce_t1 e label) (ce_powers e label) (new_power_sampler (method_name m)) = (q, st)
         \<and> power_summary (ce_t1 e label) (ce_t0 e label) 1 st = Inr en)"

text \<open>What the positive readings of a phase give: their mean and their peak, undefined without one.\<close>

definition kept_mean :: "pyfloat res list \<Rightarrow> pyfloat \<Rightarrow> bool" where
  "kept_mean rs x \<longleftrightarrow> (if kept_powers rs = [] then x = NaN
     else f_div_nat (f_sum (kept_powers rs)) (length (kept_powers rs)) = Inr x)"

definition kept_peak :: "pyfloat res list \<Rightarrow> pyfloat \<Rightarrow> bool" where
  "kept_peak rs x \<longleftrightarrow> (if kept_powers rs = [] then x = NaN else f_max_list (kept_powers rs) = Inr x)"

lemma phase_figures:
  assumes "phase_result e label (Some en)" and "live_meter e = Inr (Some m)"
  shows "kept_mean (ce_powers e label) (mean_power_w en) \<and> kept_peak (ce_powers e label) (peak_power_w en)
    \<and> (mean_power_w en = NaN \<longleftrightarrow> kept_powers (ce_powers e label) = []) \<and> er_method en = method_name m"
proof -
  from assms obtain q st where session:
    "power_session (ce_t0 e label) (ce_t1 e label) (ce_powers e label) (new_power_sampler (method_name m)) = (q, st)"
    and en: "power_summary (ce_t1 e label) (ce_t0 e label) 1 st = Inr en" by (auto simp: phase_result_def)
  from power_summary_total [OF session, of "ce_t1 e label" "ce_t0 e label" 1] en
  have "mean_power_w en = NaN \<longleftrightarrow> kept_powers (ce_powers e label) = []" by simp
  then show ?thesis using en power_session_state(1,4) [OF session]
    by (auto simp: power_summary_def Let_def kept_mean_def kept_peak_def bind_res_Inr_iff split: if_splits)
qed

lemma format_nan: "format_fixed d x = ''nan'' \<longleftrightarrow> x = NaN"
proof (cases x)
  case (Fin r)
  have "show_fixed d r \<noteq> ''nan''"
  proof
    assume "show_fixed d r = ''nan''"
    then have "CHR ''n'' \<in> set (show_fixed d r)" by simp
    from show_fixed_chars [OF this] show False by (simp add: is_digit_def)
  qed
  then show ?thesis using Fin by simp
qed simp_all

lemma measure_phase_cases:
  assumes "\<forall>p \<in> set (ca_burning s). p < ca_next s"
  shows "(\<exists>x. live_meter e = Inl x \<and> measure_phase e label burn s = (Inl x, s))
    \<or> (\<exists>r s'. measure_phase e label burn s = (Inr r, s') \<and> ca_burning s' = ca_burning s \<and> ca_out s' = ca_out s \<and> ca_next s \<le> ca_next s'
        \<and> phase_result e label r)"
proof (cases "live_meter e")
  case (Inl x)
  then show ?thesis by (simp add: measure_phase_def andthen_def)
next
  case (Inr meter)
  let ?n = "if burn then cpus_or_4 e else 0"
  let ?s = "s\<lparr>ca_next := ca_next s + ?n\<rparr>"
  have "filter (\<lambda>p. p \<notin> set [ca_next s..<ca_next s + ?n]) (ca_burning s @ [ca_next s..<ca_next s + ?n]) = ca_burning s"
    using assms by (auto intro!: filter_True simp: filter_empty_conv)
  then have run: "measure_phase e label burn s = (case meter of
         None \<Rightarrow> ret None
       | Some m \<Rightarrow> (case power_session (ce_t0 e label) (ce_t1 e label) (ce_powers e label) (new_power_sampler (method_name m)) of
             (Inl x, s) \<Rightarrow> raise x
           | (Inr _, s) \<Rightarrow> andthen (from_res (power_summary (ce_t1 e label) (ce_t0 e label) 1 s)) (\<lambda>r. ret (Some r)))) ?s"
    using Inr by (auto simp: measure_phase_def andthen_def spawn_burners_result stop_burners_def)
  show ?thesis
  proof (cases meter)
    case None
    then show ?thesis using run Inr by (simp add: phase_result_def)
  next
    case (Some m)
    obtain q st where session: "power_session (ce_t0 e label) (ce_t1 e label) (ce_powers e label) (new_power_sampler (method_name m)) = (q, st)"
      by fastforce
    then have "q = Inr ()" by (simp add: power_session_def andthen_def power_start_def new_power_sampler_def)
    moreover obtain en where "power_summary (ce_t1 e label) (ce_t0 e label) 1 st = Inr en" using power_summary_total [OF session] by blast
    ultimately show ?thesis using run Inr Some session by (simp add: andthen_def phase_result_def)
  qed
qed

text \<open>C30: However the calibration ends, the busy processes are those that ran before it. It raises only what the search for a
  sensor raises, having printed the host's lines, and otherwise returns zero. The entry it prints for the table of profiles is named
  by the device option, or by the detected profile without one. Without a meter it comes last and has placeholders. With a meter
  its two numbers are the means of the positive readings of the idle and of the loaded phase, printed before it
  with their peaks; a phase without a positive reading is suggested as \<open>nan\<close>. Three lines on wall-plug meters follow it.\<close>

theorem calibration_entry:
  assumes "\<forall>p \<in> set (ca_burning s). p < ca_next s" and "calibrate_main e device s = (r, s')"
    and "label = (if device = None \<or> device = Some [] then profile_name (ce_profile e) else the device)"
  shows "ca_burning s' = ca_burning s \<and> (case r of
      Inl x \<Rightarrow> live_meter e = Inl x \<and> ca_out s' = ca_out s @ host_lines e
    | Inr rc \<Rightarrow> rc = 0 \<and> (\<exists>pre entry post. ca_out s' = ca_out s @ host_lines e @ [[], []] @ pre @ [entry] @ post
        \<and> (live_meter e = Inr None \<and> post = [] \<and> pre = no_meter_lines
             \<and> entry = entry_line (profile_key label) label ''<P_idle>'' ''<P_max>'' (cpus_or_4 e)
           \<or> (\<exists>m i ip l lp. live_meter e = Inr (Some m)
             \<and> kept_mean (ce_powers e ''idle'') i \<and> kept_peak (ce_powers e ''idle'') ip
             \<and> kept_mean (ce_powers e ''full load'') l \<and> kept_peak (ce_powers e ''full load'') lp
             \<and> pre = [''[calibrate] live measurement ('' @ method_name m @ ''):'',
                  ''  idle: mean = '' @ format_fixed 2 i @ '' W (peak '' @ format_fixed 2 ip @ '' W)'',
                  ''  load: mean = '' @ format_fixed 2 l @ '' W (peak '' @ format_fixed 2 lp @ '' W)'', [],
                  ''Suggested entry for `_DEVICE_PROFILES` in `benchmarks/lib/config.py`:'', []]
             \<and> entry = entry_line (plain_key label) label (format_fixed 2 i) (format_fixed 2 l) (cpus_or_4 e)
             \<and> (format_fixed 2 i = ''nan'' \<longleftrightarrow> kept_powers (ce_powers e ''idle'') = [])
             \<and> (format_fixed 2 l = ''nan'' \<longleftrightarrow> kept_powers (ce_powers e ''full load'') = [])
             \<and> post = wall_meter_lines))))"
proof -
  have label: "device_label e device = label" using assms(3) by (auto simp: device_label_def split: option.splits)
  let ?s0 = "s\<lparr>ca_out := ca_out s @ host_lines e\<rparr>"
  have pids: "\<forall>p \<in> set (ca_burning s1). p < ca_next s1" if "ca_burning s1 = ca_burning s" "ca_next s \<le> ca_next s1" for s1
    using assms(1) that by fastforce
  show ?thesis
  proof (cases "live_meter e")
    case (Inl x)
    then have "measure_phase e ''idle'' False ?s0 = (Inl x, ?s0)" by (simp add: measure_phase_def andthen_def)
    then show ?thesis using assms(2) Inl by (auto simp: calibrate_main_def Let_def andthen_def put_lines_def)
  next
    case (Inr meter)
    obtain i s1 where i: "measure_phase e ''idle'' False ?s0 = (Inr i, s1)" "ca_burning s1 = ca_burning s"
      "ca_out s1 = ca_out ?s0" "ca_next s \<le> ca_next s1" and i_of: "phase_result e ''idle'' i"
      using measure_phase_cases [of ?s0 e "''idle''" False] assms(1) Inr by (auto simp: phase_result_def)
    let ?s1 = "s1\<lparr>ca_out := ca_out s1 @ [[]]\<rparr>"
    obtain l s2 where l: "measure_phase e ''full load'' True ?s1 = (Inr l, s2)" "ca_burning s2 = ca_burning s"
      "ca_out s2 = ca_out s @ host_lines e @ [[]]" and l_of: "phase_result e ''full load'' l"
      using measure_phase_cases [of ?s1 e "''full load''" True] pids [OF i(2,4)] i(2,3) Inr by (auto simp: phase_result_def)
    show ?thesis
    proof (cases meter)
      case None
      then have "i = None" using i_of Inr by (auto simp: phase_result_def split: option.splits)
      then have "r = Inr 0" "s' = s2\<lparr>ca_out := ca_out s2 @ [[]] @ no_meter_lines
          @ [entry_line (profile_key label) label ''<P_idle>'' ''<P_max>'' (cpus_or_4 e)]\<rparr>"
        using assms(2) i(1) l(1) by (simp_all add: calibrate_main_def Let_def andthen_def put_lines_def label)
      then show ?thesis using l(2,3) Inr None by auto
    next
      case (Some m)
      then obtain i' l' where il: "i = Some i'" "l = Some l'" using i_of l_of Inr by (auto simp: phase_result_def split: option.splits)
      let ?i = "mean_power_w i'" and ?l = "mean_power_w l'"
      let ?entry = "entry_line (plain_key label) label (format_fixed 2 ?i) (format_fixed 2 ?l) (cpus_or_4 e)"
      have "r = Inr 0" "s' = s2\<lparr>ca_out := ca_out s2 @ [[]] @ measured_lines i' l' @ [?entry] @ wall_meter_lines\<rparr>"
        using assms(2) i(1) l(1) il by (simp_all add: calibrate_main_def Let_def andthen_def put_lines_def label)
      then have out: "r = Inr 0" "ca_burning s' = ca_burning s"
        "ca_out s' = ca_out s @ host_lines e @ [[], []] @ measured_lines i' l' @ [?entry] @ wall_meter_lines"
        using l(2,3) by simp_all
      have meter: "live_meter e = Inr (Some m)" using Inr Some by simp
      note figures = phase_figures [OF i_of [unfolded il] meter] phase_figures [OF l_of [unfolded il] meter]
      have nan: "format_fixed 2 ?i = ''nan'' \<longleftrightarrow> kept_powers (ce_powers e ''idle'') = []"
        "format_fixed 2 ?l = ''nan'' \<longleftrightarrow> kept_powers (ce_powers e ''full load'') = []" using figures by (simp_all add: format_nan)
      have pre: "measured_lines i' l' = [''[calibrate] live measurement ('' @ method_name m @ ''):'',
          ''  idle: mean = '' @ format_fixed 2 ?i @ '' W (peak '' @ format_fixed 2 (peak_power_w i') @ '' W)'',
          ''  load: mean = '' @ format_fixed 2 ?l @ '' W (peak '' @ format_fixed 2 (peak_power_w l') @ '' W)'', [],
          ''Suggested entry for `_DEVICE_PROFILES` in `benchmarks/lib/config.py`:'', []]"
        using figures by (simp add: measured_lines_def measured_line_def)
      show ?thesis using out figures meter nan pre unfolding out(1) sum.case by blast
    qed
  qed
qed

text \<open>A meter that reads nothing while the board is idle.\<close>

definition demo_calib :: calib_env where
  "demo_calib = \<lparr>ce_profile = profile None ''pi5'', ce_hostname = ''h'', ce_cpus = None, ce_pmic = True, ce_hwmon = Inr None,
     ce_powers = (\<lambda>label. if label = ''idle'' then [Inr NaN] else [Inr (Fin 7)]), ce_t0 = \<lambda>_. 1, ce_t1 = \<lambda>_. 2\<rparr>"

lemma calibration_entry_witness:
  "\<exists>s' pre post. calibrate_main demo_calib (Some ''My Pi'') \<lparr>ca_next = 5, ca_burning = [2], ca_out = []\<rparr> = (Inr 0, s')
    \<and> ca_burning s' = [2] \<and> post = wall_meter_lines
    \<and> ca_out s' = pre @ [entry_line (plain_key ''My Pi'') ''My Pi'' ''nan'' (format_fixed 2 (Fin 7)) 4] @ post"
proof -
  let ?s = "\<lparr>ca_next = 5, ca_burning = [2], ca_out = []\<rparr>"
  obtain r s' where m: "calibrate_main demo_calib (Some ''My Pi'') ?s = (r, s')" by fastforce
  have meter: "live_meter demo_calib = Inr (Some VcgencmdPmicMeter)" by (simp add: live_meter_def demo_calib_def)
  have mean: "kept_mean (ce_powers demo_calib ''idle'') i \<longleftrightarrow> i = NaN" "kept_mean (ce_powers demo_calib ''full load'') l \<longleftrightarrow> l = Fin 7" for i l
    by (auto simp: demo_calib_def kept_mean_def positive_power_def is_nan_def f_sum_def)
  have "cpus_or_4 demo_calib = 4" by (simp add: demo_calib_def cpus_or_4_def)
  moreover have "\<forall>p \<in> set (ca_burning ?s). p < ca_next ?s" by simp
  ultimately obtain pre entry "post" where "r = Inr 0" "ca_burning s' = [2]" "post = wall_meter_lines"
    "ca_out s' = (host_lines demo_calib @ [[], []] @ pre) @ [entry] @ post"
    "entry = entry_line (plain_key ''My Pi'') ''My Pi'' ''nan'' (format_fixed 2 (Fin 7)) 4"
    using calibration_entry [OF _ m, of "''My Pi''"] meter mean by (cases r) auto
  then show ?thesis using m by blast
qed

end
