(* ===== verification/Spec2Isabelle.thy ===== *)
theory Spec2Isabelle
  imports Driver Plot IotCorrect IotOwn MininetLive Hardware PlotMain SuiteFiles BenchScripts
    PlotPlatforms PlotPreviews DosHarness Calibrate
begin

text \<open>
  \<^bold>\<open>The program.\<close> The repository compares the authentication protocols ZK-ARCHE, mTLS and EDHOC. Its Rust and
  C programs are the protocols; its Python programs run them, on one machine or on an emulated
  network, parse the metrics lines they print, and write tables. This development models the Python
  programs: the scripts under \<open>experiments/\<close> and the harness under \<open>benchmarks/\<close>.

  \<^bold>\<open>Foundations.\<close> \<open>Prelude\<close>: exceptions as values (\<open>pyerr\<close>, \<open>res\<close>), stateful operations that keep the
  effects done before an exception (\<open>eff\<close>, \<open>andthen\<close>, \<open>try_finally\<close>), and the \<open>always\<close> triples.
  \<open>PyText\<close>: Python's string methods, \<open>splitlines\<close>, integers as text. \<open>PyFloat\<close>: floats as exact reals with
  the special values, \<open>round\<close>, fixed-point formatting; the rounding of a double after each operation is left out.
  \<open>Regex\<close>: a backtracking matcher with Python's search order, related to the language of a pattern
  in both directions. \<open>Csv\<close>: the writer and reader of the \<open>csv\<close> module with the round trip between them, and a
  locale for tables of records. \<open>Shell\<close>: \<open>shlex.quote\<close> and the words a shell splits a command into.
  \<open>Poller\<close>: the locale of a sampling thread.

  \<^bold>\<open>The world of the Mininet scripts.\<close> \<open>Testbed\<close>: every effect (a local command, a directory or file, the start and
  stop of the network, a command or process on a host) is an event, the state is the history of events, and the
  environment \<open>tb_env\<close>, a parameter of every operation, answers an event or raises, and says which
  paths exist and what the clock shows. \<open>emits\<close> is what an operation may add to the history; the locales
  \<open>cleaned_session\<close> and \<open>network_script\<close> state that a session inside \<open>try/finally\<close> always ends with the
  stop of the network, and are interpreted by the scripts' own sessions.

  \<open>Lifecycle\<close>: the testbed as a state machine (\<open>tb_step\<close>, \<open>tb_run\<close>): hosts take commands and processes only while a network
  is up, and a process is used only by its own handle in its own network. The invariants of its reachable
  states say so in terms of the history. The states within a network are ordered; \<open>uses\<close> gives rules for what an operation does inside a
  network, \<open>drives\<close> for a whole script, and the locale \<open>testbed_session\<close>, which is a \<open>network_script\<close>, for a script around one session.

  \<^bold>\<open>The combined runner\<close>, \<open>experiments/mininet/mininet_tests_123.py\<close>. \<open>MininetMetrics\<close>: the client and server
  line parsers, the exit status marker, the incremental reading of the server log, the full-session
  columns. \<open>MininetNet\<close>: device and traffic profiles, assignments, both topologies (\<open>build_network\<close>), the
  background flows. \<open>MininetRun\<close>: the pure part of the workloads: rows, batches, enrollment, CSV,
  summaries. \<open>MininetCommands\<close>: the protocol table, the command lines, \<open>prepare_project\<close>, certificates and
  allowlists. \<open>MininetControl\<close>: the same workloads as effects, the three tests, the cleanup, \<open>run_protocol_tests\<close> and
  \<open>main\<close>. \<open>MininetRefine\<close>: the effects compute the rows of the pure part and make the events in the right order.
  \<open>MininetLife\<close>: the whole program is a legal run of the testbed. \<open>MininetLive\<close>: on a testbed that answers it returns, with
  every selected result file written.

  \<^bold>\<open>The single-protocol scripts\<close>, \<open>mtls_mininet_50_iot.py\<close>, \<open>edhoc_mininet_50_iot.py\<close> and
  \<open>zkarche_mininet_50_iot.py\<close>. \<open>IotScripts\<close>: what they share, with the script's tables as parameters.
  \<open>IotRuns\<close>: their commands, rows, sessions and main programs. \<open>IotOwn\<close>: each script's own copies of the shared
  functions, and the equations that compose its run from them. \<open>IotAgree\<close>: the same seed gives the same
  testbed as the combined runner's; the parsers agree on untagged lines; the EDHOC script rejects the tagged line
  of its own client. \<open>IotTables\<close>: which table a session writes, when it writes none, and that the
  EDHOC script runs to its end on a testbed that answers. \<open>IotCorrect\<close>: all three are legal runs of the testbed and stop their network last.

  \<^bold>\<open>The security suite\<close>, \<open>experiments/security/security_test.py\<close>. \<open>Suite\<close>: its state, parameters, installed files,
  logged runs, statuses and paths. \<open>SuiteEvidence\<close>: the parsers of logs and raw tables and the evidence of a
  test with its files. \<open>SecuritySuite\<close>: the checklist, the resilience harness, the choice of a test, \<open>run_all\<close> and \<open>main\<close>.
  \<open>SuiteCorrect\<close>: every test's own status gets a row of the summary, and the verdict of the resilience harness in terms of the
  server's connections. \<open>SuiteFiles\<close>: which files it leaves, what evidence that overwrites a raw table leaves to its readers, and the
  timeout of the fuzzer that ends the suite. \<open>DosHarness\<close> (\<open>archive/dos_resilience_test.py\<close>): the older harness against the suite's.

  \<^bold>\<open>The other experiments.\<close> \<open>Hardware\<close> (\<open>hardware_resource_benchmark.py\<close>): the time file, the rows, and a table that
  holds exactly the runs before the first failure. \<open>RngCheck\<close> (\<open>archive/rng_sidechannel_check.py\<close>): the smoke test on
  \<open>8 word\<close> bytes, the search of the sources for printed secrets, the checklist. \<open>RunLog\<close> (\<open>archive/_run_util.py\<close>): the log
  of a command and the exit status it keeps.

  \<^bold>\<open>The harness\<close>, \<open>benchmarks/\<close>. \<open>Metrics\<close> (\<open>lib/parse.py\<close>, with the metrics lines the Rust binaries print), \<open>Results\<close>
  (\<open>lib/results.py\<close>), \<open>Sampler\<close> (\<open>lib/sampler.py\<close>), \<open>PowerMeter\<close> (\<open>lib/pmic.py\<close>), \<open>Config\<close> (\<open>lib/config.py\<close>), \<open>Runner\<close>
  (\<open>lib/runner.py\<close>: processes as a world of handles), \<open>Protocols\<close> (\<open>lib/protocols.py\<close>: enrollment), \<open>Driver\<close>
  (\<open>lib/driver.py\<close>: a test run with its exceptions). \<open>Json\<close>: the texts \<open>json.dumps\<close> writes and the reader of \<open>json.loads\<close>,
  inverse to each other when the texts of floats read back, and in general giving what the literals denote.
  \<open>Plot\<close> (\<open>plot.py\<close>: the loader of tables and the figures), \<open>PlotMain\<close> (summaries, the comparison table, \<open>collect_multi\<close> and
  \<open>main\<close>), \<open>PlotPlatforms\<close> (the result trees of several hosts) and \<open>PlotPreviews\<close> (the pictures drawn last). \<open>BenchScripts\<close> (\<open>tests/test1_concurrent.py\<close> to
  \<open>test_resources.py\<close>): the workloads and scripts over the driver; from scripts that run for all protocols the figures
  follow, so that driver, result files, loader and figures are composed. \<open>Calibrate\<close> (\<open>tests/calibrate_power.py\<close>): the two
  phases and the suggested profile.

  \<^bold>\<open>What the lemmas show.\<close> Each component has its functional behaviour on every branch and an invariant its operations
  preserve. Parsers are proved against the texts the binaries print and shown total or to raise exactly the named error.
  Tables are complete, aligned with the clients and read back from their CSV text. Networks, servers and
  traffic generators that were started are stopped, on every path. The effectful runs refine the pure ones.
  Where the code does something its comments do not say (a lost log line, a partial start of the traffic, a rejected
  line, a truncated table), a theorem states what it does.

  \<^bold>\<open>Bounds.\<close> Loops over lists and ranges are structural recursion. The poll for the server's enrollment rows makes at
  most 20 attempts, as in the code; the wait for an open port is a loop with a deadline, proved to end for a clock that
  advances; the scans of texts end because the text gets shorter. No fuel is used.

  \<^bold>\<open>Parameters.\<close> Mininet, \<open>iperf\<close>, \<open>cargo\<close>, \<open>openssl\<close>, the shells of the hosts, \<open>/usr/bin/time\<close>, the protocol
  binaries, the random generator, the clock and the file system answer through parameters. The hypotheses made of
  them are: they raise subclasses of \<open>Exception\<close> only (\<open>only_exceptions\<close>), \<open>os.urandom(n)\<close> has \<open>n\<close> bytes,
  \<open>TimeoutExpired.stdout\<close> is bytes, \<open>repr\<close> of a float is a float literal, and a thread pool completes every task once.

  \<^bold>\<open>Not modelled.\<close> Console output, apart from what \<open>main\<close> of the calibration prints; the text parsing of command lines by
  \<open>argparse\<close> (the arguments are records); sleeps; the normalisation of paths; the sizes and grid
  lines of the PNG previews; the older test wrappers, each of which fixes one command for \<open>run_logged\<close>; the Rust, C and shell programs, which rest on
  cryptographic libraries and which the Python programs only see through what they print.
\<close>

end
